(* ===== verification/Prelude.thy ===== *)
theory Prelude
  imports Main "HOL-Library.Word"
begin

text \<open>
  Shared vocabulary of the development: the widths of the Rust integers that the sources use,
  the outcome of a fallible Rust call, the saturating and checked arithmetic of the standard
  library, and the generic facts on lists, options and words the component theories rest on.

  Conventions.  A Rust \<open>u8\<close>/\<open>i8\<close>, \<open>u16\<close>/\<open>i16\<close>, \<open>u32\<close>/\<open>i32\<close>, \<open>u64\<close>/\<open>i64\<close> is a word of that width; the
  signed types share the word with the unsigned ones and are read with \<^const>\<open>sint\<close>.  \<open>usize\<close> is
  64 bits wide.  An unchecked \<open>+\<close> wraps, as it does in the release profile of the workspace's
  Cargo.toml; wherever that matters a lemma shows that no overflow happens.  \<open>Result<T, E>\<close> is a
  sum with the error on the left, and an unconditional Rust panic is the third constructor of
  the type \<open>outcome\<close> below.
\<close>

section \<open>Machine integers\<close>

type_synonym u8 = "8 word"
type_synonym u16 = "16 word"
type_synonym u32 = "32 word"
type_synonym u64 = "64 word"
type_synonym usize = "64 word"

named_theorems word_arith_simps
  \<open>facts on the standard library's saturating and checked word arithmetic\<close>

text \<open>\<open>saturating_add\<close>, \<open>saturating_sub\<close> and \<open>checked_add\<close> of the unsigned integer types.\<close>

definition saturating_add :: "'a::len word \<Rightarrow> 'a word \<Rightarrow> 'a word" where
  "saturating_add a b = (if unat a + unat b < 2 ^ LENGTH('a) then a + b else - 1)"

definition saturating_sub :: "'a::len word \<Rightarrow> 'a word \<Rightarrow> 'a word" where
  "saturating_sub a b = (if b \<le> a then a - b else 0)"

definition checked_add :: "'a::len word \<Rightarrow> 'a word \<Rightarrow> 'a word option" where
  "checked_add a b = (if unat a + unat b < 2 ^ LENGTH('a) then Some (a + b) else None)"

lemma unat_minus_one_word_max [word_arith_simps]: "unat (- 1 :: 'a::len word) = 2 ^ LENGTH('a) - 1"
proof -
  have "unat (- 1 :: 'a word) = nat (2 ^ LENGTH('a) - 1)"
    by (simp add: unat_eq_nat_uint uint_word_ariths minus_mod_self2 zmod_minus1)
  then show ?thesis
    by (simp add: nat_diff_distrib nat_power_eq)
qed

lemma unat_saturating_add [word_arith_simps]:
  "unat (saturating_add a b) = min (unat a + unat b) (2 ^ LENGTH('a) - 1)"
  for a b :: "'a::len word"
proof (cases "unat a + unat b < 2 ^ LENGTH('a)")
  case True
  then show ?thesis
    by (auto simp: saturating_add_def unat_word_ariths min_def)
next
  case False
  moreover have "(0::nat) < 2 ^ LENGTH('a)" by simp
  ultimately have "min (unat a + unat b) (2 ^ LENGTH('a) - 1) = 2 ^ LENGTH('a) - 1"
    by linarith
  with False show ?thesis
    by (simp add: saturating_add_def unat_minus_one_word_max)
qed

lemma unat_saturating_sub [word_arith_simps]:
  "unat (saturating_sub a b) = unat a - unat b"
  by (simp add: saturating_sub_def unat_sub word_le_nat_alt)

lemma saturating_add_le_no_overflow:
  fixes a b l :: "'a::len word"
  assumes "saturating_add a b \<le> l" and "l < - 1"
  shows "unat (a + b) = unat a + unat b" and "a + b \<le> l"
proof -
  have "min (unat a + unat b) (2 ^ LENGTH('a) - 1) \<le> unat l"
    using assms(1) by (simp add: word_le_nat_alt unat_saturating_add)
  moreover have "unat l < 2 ^ LENGTH('a) - 1"
    using assms(2) by (simp add: word_less_nat_alt unat_minus_one_word_max)
  ultimately have le: "unat a + unat b \<le> unat l" and lt: "unat a + unat b < 2 ^ LENGTH('a)"
    by linarith+
  from lt show eq: "unat (a + b) = unat a + unat b"
    by (simp add: unat_add_lem [symmetric])
  show "a + b \<le> l"
    using eq le by (simp add: word_le_nat_alt)
qed

lemma checked_add_Some_iff [word_arith_simps]:
  "checked_add a b = Some c \<longleftrightarrow> unat c = unat a + unat b"
  for a b c :: "'a::len word"
proof
  assume "checked_add a b = Some c"
  then show "unat c = unat a + unat b"
    by (auto simp: checked_add_def unat_add_lem [symmetric] split: if_splits)
next
  assume eq: "unat c = unat a + unat b"
  then have "unat a + unat b < 2 ^ LENGTH('a)"
    by (metis unsigned_less)
  moreover from this have "a + b = c"
    using eq by (simp add: word_unat_eq_iff unat_add_lem [symmetric])
  ultimately show "checked_add a b = Some c"
    by (simp add: checked_add_def)
qed

section \<open>Outcomes\<close>

text \<open>
  The outcome of a Rust call: it returns a value, returns an error value, or panics (an explicit
  \<open>panic!\<close>, an out-of-range index, a division overflow).
\<close>

datatype ('e, 'a) outcome = Ok 'a | Err 'e | Panic

fun bind_outcome :: "('e, 'a) outcome \<Rightarrow> ('a \<Rightarrow> ('e, 'b) outcome) \<Rightarrow> ('e, 'b) outcome" where
  "bind_outcome (Ok a) f = f a"
| "bind_outcome (Err e) f = Err e"
| "bind_outcome Panic f = Panic"

lemma bind_outcome_Ok_iff [simp]:
  "bind_outcome m f = Ok b \<longleftrightarrow> (\<exists>a. m = Ok a \<and> f a = Ok b)"
  by (cases m) auto

lemma bind_outcome_Err_iff [simp]:
  "bind_outcome m f = Err e \<longleftrightarrow> m = Err e \<or> (\<exists>a. m = Ok a \<and> f a = Err e)"
  by (cases m) auto

lemma bind_outcome_assoc:
  "bind_outcome (bind_outcome m f) g = bind_outcome m (\<lambda>a. bind_outcome (f a) g)"
  by (cases m) auto

section \<open>Lists\<close>

text \<open>\<open>slice::get\<close>: the element at an index, or \<open>None\<close> when the index is out of range.\<close>

definition list_get :: "'a list \<Rightarrow> nat \<Rightarrow> 'a option" where
  "list_get xs i = (if i < length xs then Some (xs ! i) else None)"

lemma list_get_Some_iff [simp]: "list_get xs i = Some x \<longleftrightarrow> i < length xs \<and> xs ! i = x"
  by (auto simp: list_get_def)

lemma list_get_None_iff [simp]: "list_get xs i = None \<longleftrightarrow> length xs \<le> i"
  by (auto simp: list_get_def)

lemma length_filter_list_update:
  assumes "i < length xs"
  shows "length (filter P (xs[i := x])) + (if P (xs ! i) then 1 else 0)
       = length (filter P xs) + (if P x then 1 else 0)"
  using assms
proof (induction xs arbitrary: i)
  case Nil
  then show ?case by simp
next
  case (Cons y ys)
  then show ?case
    by (cases i) (auto split: if_splits)
qed

lemma length_filter_update_less:
  "i < length xs \<Longrightarrow> P (xs ! i) \<Longrightarrow> \<not> P x \<Longrightarrow>
   length (filter P (xs[i := x])) < length (filter P xs)"
  using length_filter_list_update [of i xs P x] by simp

lemma length_filter_update_same:
  "i < length xs \<Longrightarrow> P (xs ! i) = P x \<Longrightarrow>
   length (filter P (xs[i := x])) = length (filter P xs)"
  using length_filter_list_update [of i xs P x] by (simp split: if_splits)

lemma nth_list_update_if: "xs[i := x] ! j = (if i = j \<and> j < length xs then x else xs ! j)"
  by (cases "i < length xs") (auto simp: nth_list_update list_update_beyond)

lemma distinct_hd_notin_tl: "distinct xs \<Longrightarrow> xs \<noteq> [] \<Longrightarrow> hd xs \<notin> set (tl xs)"
  by (cases xs) auto

end
