(* ===== verification/Id_Manager.thy ===== *)
theory Id_Manager
  imports Prelude
begin

text \<open>
  The identifier generator and recycler of \<^verbatim>\<open>galfus-core/src/id_manager.rs\<close>.  \<open>LocalIdManager\<close> owns its
  state; \<open>IdManager\<close> runs the same three operations under a mutex, one at a time, so both are the
  state transformers below.  A \<open>RawId\<close> is a wrapped \<open>u32\<close>: \<open>T::new\<close> and \<open>raw\<close> are the identity.

  The locale \<open>id_allocator\<close> is what the clients of the module (timers, threads, futures, requests)
  rely on: an identifier handed out is not in use, and becomes available again only when freed.
\<close>

section \<open>State and operations\<close>

record IdManagerState =
  next_id :: "u32 option"
  free_list :: "u32 list"   \<comment> \<open>a \<open>Vec\<close> used as a stack: push and pop at its end\<close>
  active_ids :: "u32 set"

definition new_id_manager :: "u32 \<Rightarrow> IdManagerState" where
  "new_id_manager start_id = \<lparr>next_id = Some start_id, free_list = [], active_ids = {}\<rparr>"

definition try_allocate :: "IdManagerState \<Rightarrow> u32 option \<times> IdManagerState" where
  "try_allocate m =
    (if free_list m \<noteq> [] then
       (let i = last (free_list m)
        in (Some i, m\<lparr>free_list := butlast (free_list m), active_ids := insert i (active_ids m)\<rparr>))
     else (case next_id m of
       Some i \<Rightarrow> (Some i, m\<lparr>next_id := checked_add i 1, active_ids := insert i (active_ids m)\<rparr>)
     | None \<Rightarrow> (None, m)))"

definition free_id :: "IdManagerState \<Rightarrow> u32 \<Rightarrow> IdManagerState" where
  "free_id m i =
    (if i \<in> active_ids m
     then m\<lparr>active_ids := active_ids m - {i}, free_list := free_list m @ [i]\<rparr>
     else m)"

section \<open>Invariant\<close>

text \<open>
  The identifiers below \<open>next_id\<close> (all of them once the counter is exhausted) are exactly the ones
  issued so far; each is either active or waiting once in the free list.
\<close>

definition issued :: "u32 \<Rightarrow> u32 option \<Rightarrow> u32 set" where
  "issued start nxt = {i. start \<le> i \<and> (case nxt of Some n \<Rightarrow> i < n | None \<Rightarrow> True)}"

definition id_manager_inv :: "u32 \<Rightarrow> IdManagerState \<Rightarrow> bool" where
  "id_manager_inv start m \<longleftrightarrow>
     distinct (free_list m) \<and> set (free_list m) \<inter> active_ids m = {} \<and>
     set (free_list m) \<union> active_ids m = issued start (next_id m) \<and>
     (\<forall>n. next_id m = Some n \<longrightarrow> start \<le> n)"

lemma id_manager_inv_new: "id_manager_inv s (new_id_manager s)"
  by (auto simp: id_manager_inv_def new_id_manager_def issued_def)

lemma issued_checked_add:
  assumes "start \<le> i"
  shows "issued start (checked_add i 1) = insert i (issued start (Some i))"
proof (cases "unat i + 1 < 2 ^ 32")
  case True
  then have "unat (i + 1) = unat i + 1"
    by (simp add: unat_word_ariths)
  then have "j < i + 1 \<longleftrightarrow> j < i \<or> j = i" for j
    by (auto simp: word_less_nat_alt word_unat_eq_iff)
  with True assms show ?thesis
    by (auto simp: issued_def checked_add_def)
next
  case False
  have "j \<le> i" for j :: u32
  proof -
    have "unat j < 2 ^ 32" using unsigned_less [of j] by simp
    with False have "unat j \<le> unat i" by linarith
    then show ?thesis by (simp add: word_le_nat_alt)
  qed
  then have "j < i \<or> j = i" for j :: u32
    by (simp add: order_le_less)
  with False assms show ?thesis
    by (auto simp: issued_def checked_add_def)
qed

lemma checked_add_1_ge:
  "checked_add i 1 = Some n \<Longrightarrow> start \<le> i \<Longrightarrow> start \<le> n" for i :: u32
  by (simp add: checked_add_Some_iff word_le_nat_alt)

lemma id_manager_inv_allocate:
  assumes inv: "id_manager_inv start m" and res: "try_allocate m = (r, m')"
  shows "id_manager_inv start m'"
proof (cases "free_list m = []")
  case False
  then obtain xs i where fl: "free_list m = xs @ [i]"
    by (metis append_butlast_last_id)
  with res have m': "m' = m\<lparr>free_list := xs, active_ids := insert i (active_ids m)\<rparr>"
    by (simp add: try_allocate_def)
  show ?thesis
    using inv unfolding id_manager_inv_def m' by (auto simp: fl)
next
  case True
  show ?thesis
  proof (cases "next_id m")
    case None
    with True res inv show ?thesis by (simp add: try_allocate_def)
  next
    case (Some i)
    with True res have m': "m' = m\<lparr>next_id := checked_add i 1, active_ids := insert i (active_ids m)\<rparr>"
      by (simp add: try_allocate_def)
    from inv Some have le: "start \<le> i" and act: "active_ids m = issued start (Some i)"
      by (auto simp: id_manager_inv_def True)
    have "active_ids m' = issued start (next_id m')"
      using issued_checked_add [OF le] by (simp add: m' act)
    then show ?thesis
      using le True by (auto simp: id_manager_inv_def m' dest: checked_add_1_ge)
  qed
qed

lemma id_manager_inv_free: "id_manager_inv start m \<Longrightarrow> id_manager_inv start (free_id m i)"
  by (auto simp: id_manager_inv_def free_id_def)

lemma try_allocate_Some:
  assumes "id_manager_inv start m" and "try_allocate m = (Some i, m')"
  shows "i \<notin> active_ids m" and "active_ids m' = insert i (active_ids m)" and "start \<le> i"
proof -
  have "i \<notin> active_ids m \<and> active_ids m' = insert i (active_ids m) \<and> start \<le> i"
  proof (cases "free_list m = []")
    case True
    with assms(2) have nxt: "next_id m = Some i" and m': "active_ids m' = insert i (active_ids m)"
      by (auto simp: try_allocate_def split: option.splits)
    with True assms(1) have "start \<le> i" and "active_ids m = issued start (Some i)"
      by (auto simp: id_manager_inv_def)
    with m' show ?thesis by (simp add: issued_def)
  next
    case False
    with assms(2) have i: "i = last (free_list m)" and m': "active_ids m' = insert i (active_ids m)"
      by (auto simp: try_allocate_def Let_def)
    with False have "i \<in> set (free_list m)" by simp
    moreover from this assms(1) have "i \<in> issued start (next_id m)" and "i \<notin> active_ids m"
      unfolding id_manager_inv_def by blast+
    ultimately show ?thesis using m' by (simp add: issued_def)
  qed
  then show "i \<notin> active_ids m" and "active_ids m' = insert i (active_ids m)" and "start \<le> i"
    by simp_all
qed

lemma try_allocate_None:
  assumes "id_manager_inv start m" and "try_allocate m = (None, m')"
  shows "active_ids m = {start..}" and "m' = m"
  using assms
  by (auto simp: try_allocate_def id_manager_inv_def issued_def Let_def split: if_splits option.splits)

section \<open>The allocator contract\<close>

locale id_allocator =
  fixes alloc :: "'s \<Rightarrow> 'i option \<times> 's"
    and release :: "'s \<Rightarrow> 'i \<Rightarrow> 's"
    and live :: "'s \<Rightarrow> 'i set"
    and invar :: "'s \<Rightarrow> bool"
  assumes invar_alloc: "invar s \<Longrightarrow> invar (snd (alloc s))"
    and invar_release: "invar s \<Longrightarrow> invar (release s i)"
    and alloc_fresh: "invar s \<Longrightarrow> fst (alloc s) = Some i \<Longrightarrow> i \<notin> live s"
    and live_alloc: "invar s \<Longrightarrow> fst (alloc s) = Some i \<Longrightarrow> live (snd (alloc s)) = insert i (live s)"
    and alloc_fail: "invar s \<Longrightarrow> fst (alloc s) = None \<Longrightarrow> snd (alloc s) = s"
    and live_release: "invar s \<Longrightarrow> live (release s i) = live s - {i}"
begin

text \<open>A history of requests: \<open>None\<close> allocates, \<open>Some i\<close> frees \<open>i\<close>; the result lists what was handed out.\<close>

fun serve :: "'s \<Rightarrow> 'i option list \<Rightarrow> 'i option list \<times> 's" where
  "serve s [] = ([], s)"
| "serve s (None # rs) = (let (r, s') = alloc s; (out, s'') = serve s' rs in (r # out, s''))"
| "serve s (Some i # rs) = serve (release s i) rs"

lemma serve_invar: "invar s \<Longrightarrow> invar (snd (serve s rs))"
proof (induction rs arbitrary: s)
  case Nil
  then show ?case by simp
next
  case (Cons r rs)
  show ?case
  proof (cases r)
    case None
    with Cons.IH [OF invar_alloc [OF Cons.prems]] show ?thesis
      by (simp add: Let_def split_def)
  next
    case (Some i)
    with Cons.IH [OF invar_release [OF Cons.prems]] show ?thesis by simp
  qed
qed

lemma serve_allocs:
  assumes "invar s" and "serve s (replicate n None) = (out, s')"
  shows "distinct (List.map_filter id out) \<and>
         set (List.map_filter id out) \<inter> live s = {} \<and>
         live s' = set (List.map_filter id out) \<union> live s"
  using assms
proof (induction n arbitrary: s out)
  case 0
  then show ?case by (simp add: map_filter_simps)
next
  case (Suc n)
  obtain r s1 where a: "alloc s = (r, s1)" by fastforce
  obtain o1 s2 where o2: "serve s1 (replicate n None) = (o1, s2)" by fastforce
  with Suc.prems(2) a have o1: "serve s1 (replicate n None) = (o1, s')" and out: "out = r # o1"
    by auto
  have inv1: "invar s1" using invar_alloc [OF Suc.prems(1)] a by simp
  note IH = Suc.IH [OF inv1 o1]
  show ?case
  proof (cases r)
    case None
    with alloc_fail [OF Suc.prems(1)] a have "s1 = s" by simp
    with IH None out show ?thesis by (simp add: map_filter_simps)
  next
    case (Some i)
    with alloc_fresh [OF Suc.prems(1), of i] live_alloc [OF Suc.prems(1), of i] a
    have "i \<notin> live s" and "live s1 = insert i (live s)" by auto
    with IH Some out show ?thesis by (auto simp: map_filter_simps)
  qed
qed

end

interpretation local_ids: id_allocator try_allocate free_id active_ids "id_manager_inv start" for start
proof unfold_locales
  fix s i
  assume inv: "id_manager_inv start s"
  show "id_manager_inv start (snd (try_allocate s))"
    using id_manager_inv_allocate [OF inv] by (metis prod.collapse)
  show "id_manager_inv start (free_id s i)"
    using inv by (rule id_manager_inv_free)
  show "active_ids (free_id s i) = active_ids s - {i}"
    by (simp add: free_id_def)
  { assume "fst (try_allocate s) = Some i"
    then obtain s' where res: "try_allocate s = (Some i, s')" by (metis prod.collapse)
    show "i \<notin> active_ids s" using try_allocate_Some(1) [OF inv res] .
    show "active_ids (snd (try_allocate s)) = insert i (active_ids s)"
      using try_allocate_Some(2) [OF inv res] res by simp }
  { assume "fst (try_allocate s) = None"
    then obtain s' where res: "try_allocate s = (None, s')" by (metis prod.collapse)
    show "snd (try_allocate s) = s" using try_allocate_None(2) [OF inv res] res by simp }
qed

text \<open>The state after a history of requests on a fresh manager.\<close>

definition served :: "u32 \<Rightarrow> u32 option list \<Rightarrow> IdManagerState" where
  "served start rs = snd (id_allocator.serve try_allocate free_id (new_id_manager start) rs)"

text \<open>
  C23 (identifiers are unique while in use).  After any sequence of allocations and frees on a manager
  created with \<open>start\<close>, double frees and frees of foreign identifiers included, an allocation either
  hands out an identifier from \<open>start\<close> on that is not in use and records it as in use, or fails,
  changing nothing; and it fails exactly when every identifier from \<open>start\<close> on is in use.
\<close>

theorem id_manager_unique:
  "(case try_allocate (served start rs) of
      (Some i, m') \<Rightarrow> i \<notin> active_ids (served start rs) \<and> start \<le> i \<and>
                      active_ids m' = insert i (active_ids (served start rs))
    | (None, m') \<Rightarrow> active_ids (served start rs) = {start..} \<and> m' = served start rs) \<and>
   distinct (free_list (served start rs)) \<and> set (free_list (served start rs)) \<inter> active_ids (served start rs) = {}"
proof -
  have inv: "id_manager_inv start (served start rs)"
    unfolding served_def by (rule local_ids.serve_invar [OF id_manager_inv_new])
  obtain r m' where res: "try_allocate (served start rs) = (r, m')" by fastforce
  have "case (r, m') of
      (Some i, m') \<Rightarrow> i \<notin> active_ids (served start rs) \<and> start \<le> i \<and>
                      active_ids m' = insert i (active_ids (served start rs))
    | (None, m') \<Rightarrow> active_ids (served start rs) = {start..} \<and> m' = served start rs"
  proof (cases r)
    case None
    with try_allocate_None [OF inv, of m'] res show ?thesis by simp
  next
    case (Some i)
    with try_allocate_Some [OF inv, of i m'] res show ?thesis by simp
  qed
  with inv res show ?thesis by (simp add: id_manager_inv_def)
qed

end
