(* ===== verification/Quota.thy ===== *)
theory Quota
  imports Prelude
begin

text \<open>
  Resource accounting: \<^verbatim>\<open>galfus-vm/src/quota.rs\<close> with the limits and failure kinds of
  \<^verbatim>\<open>galfus-contract/src/lib.rs\<close>.  \<open>GlobalQuota\<close> (behind the runtime's mutex) has nine plain counters,
  \<open>ThreadQuota\<close> five atomic ones.  Every method of the source is one definition; a method on
  \<open>&mut self\<close> or on atomics returns its result and the new quota.

  A plain counter is checked and then increased; an atomic counter is increased with \<open>fetch_add\<close>,
  checked against the value it had, and decreased again on failure.  The locales
  \<open>resource_counter\<close>, \<open>saturating_counter\<close> and \<open>wrapping_counter\<close> state the contract the rest of the
  VM relies on and prove its consequences once; every counter interprets one of them.  The last
  section interleaves the atomic steps of concurrent reservations.
\<close>

section \<open>Limits and failures\<close>

datatype ResourceLimitKind =
    HeapObjects | HeapBytes | CallDepth | Threads | Futures | PendingRequests | MailboxMessages
  | MailboxBytes | EventQueue | KernelTasks | RunnableThreads | ExternalHandles | Timers
  | PendingStates

record LimitsMetadata =
  max_heap_objects :: usize
  max_heap_bytes :: usize
  max_call_depth :: usize
  max_threads :: usize
  max_futures :: usize
  max_pending_requests :: usize
  max_mailbox_messages :: usize
  max_mailbox_bytes :: usize
  max_event_queue :: usize
  max_kernel_tasks :: usize
  max_runnable_threads :: usize
  max_external_handles :: usize
  max_timers :: usize
  max_pending_states :: usize

definition default_limits :: LimitsMetadata where
  "default_limits = \<lparr>
     max_heap_objects = 10000000, max_heap_bytes = 268435456, max_call_depth = 1024,
     max_threads = 1024, max_futures = 16384, max_pending_requests = 4096,
     max_mailbox_messages = 1024, max_mailbox_bytes = 8388608, max_event_queue = 16384,
     max_kernel_tasks = 4096, max_runnable_threads = 2048, max_external_handles = 1024,
     max_timers = 1024, max_pending_states = 8192\<rparr>"

datatype ExecutionFailureKind =
    VmPanicFailure | InvalidBytecode | MissingProvider | ProviderFailure | MissingAdapter
  | AdapterLoadFailure | AdapterCallFailure | BoundaryCodecFailure | HeapExhausted
  | InitializationFailure | Timeout | Cancelled | InvalidContinuation | DuplicateThreadKey
  | DuplicateCompletion | HostProtocolViolation | DriverFailure | InternalRuntimeFailure
  | IdSpaceExhausted
  | ResourceLimitExceeded ResourceLimitKind usize usize usize
    \<comment> \<open>resource, current, requested, limit\<close>

type_synonym 'q reservation = "(ExecutionFailureKind + unit) \<times> 'q"

section \<open>The plain counters of \<open>GlobalQuota\<close>\<close>

record GlobalQuota =
  gq_limits :: LimitsMetadata
  gq_threads :: usize
  gq_futures :: usize
  gq_pending_requests :: usize
  gq_event_queue :: usize
  gq_kernel_tasks :: usize
  gq_runnable_threads :: usize
  gq_external_handles :: usize
  gq_timers :: usize
  gq_pending_states :: usize

definition new_global_quota :: "LimitsMetadata \<Rightarrow> GlobalQuota" where
  "new_global_quota limits = \<lparr>gq_limits = limits, gq_threads = 0, gq_futures = 0, gq_pending_requests = 0, gq_event_queue = 0,
     gq_kernel_tasks = 0, gq_runnable_threads = 0, gq_external_handles = 0, gq_timers = 0, gq_pending_states = 0\<rparr>"

definition try_reserve_threads :: "GlobalQuota \<Rightarrow> usize \<Rightarrow> GlobalQuota reservation" where
  "try_reserve_threads q amount =
    (let current = gq_threads q; limit = max_threads (gq_limits q) in
     if saturating_add current amount > limit
     then (Inl (ResourceLimitExceeded Threads current amount limit), q)
     else (Inr (), q\<lparr>gq_threads := current + amount\<rparr>))"

definition release_threads :: "GlobalQuota \<Rightarrow> usize \<Rightarrow> GlobalQuota" where
  "release_threads q amount = q\<lparr>gq_threads := saturating_sub (gq_threads q) amount\<rparr>"

definition try_reserve_futures :: "GlobalQuota \<Rightarrow> usize \<Rightarrow> GlobalQuota reservation" where
  "try_reserve_futures q amount =
    (let current = gq_futures q; limit = max_futures (gq_limits q) in
     if saturating_add current amount > limit
     then (Inl (ResourceLimitExceeded Futures current amount limit), q)
     else (Inr (), q\<lparr>gq_futures := current + amount\<rparr>))"

definition release_futures :: "GlobalQuota \<Rightarrow> usize \<Rightarrow> GlobalQuota" where
  "release_futures q amount = q\<lparr>gq_futures := saturating_sub (gq_futures q) amount\<rparr>"

definition try_reserve_pending_requests :: "GlobalQuota \<Rightarrow> usize \<Rightarrow> GlobalQuota reservation" where
  "try_reserve_pending_requests q amount =
    (let current = gq_pending_requests q; limit = max_pending_requests (gq_limits q) in
     if saturating_add current amount > limit
     then (Inl (ResourceLimitExceeded PendingRequests current amount limit), q)
     else (Inr (), q\<lparr>gq_pending_requests := current + amount\<rparr>))"

definition release_pending_requests :: "GlobalQuota \<Rightarrow> usize \<Rightarrow> GlobalQuota" where
  "release_pending_requests q amount = q\<lparr>gq_pending_requests := saturating_sub (gq_pending_requests q) amount\<rparr>"

definition try_reserve_event_queue :: "GlobalQuota \<Rightarrow> usize \<Rightarrow> GlobalQuota reservation" where
  "try_reserve_event_queue q amount =
    (let current = gq_event_queue q; limit = max_event_queue (gq_limits q) in
     if saturating_add current amount > limit
     then (Inl (ResourceLimitExceeded EventQueue current amount limit), q)
     else (Inr (), q\<lparr>gq_event_queue := current + amount\<rparr>))"

definition release_event_queue :: "GlobalQuota \<Rightarrow> usize \<Rightarrow> GlobalQuota" where
  "release_event_queue q amount = q\<lparr>gq_event_queue := saturating_sub (gq_event_queue q) amount\<rparr>"

definition try_reserve_kernel_tasks :: "GlobalQuota \<Rightarrow> usize \<Rightarrow> GlobalQuota reservation" where
  "try_reserve_kernel_tasks q amount =
    (let current = gq_kernel_tasks q; limit = max_kernel_tasks (gq_limits q) in
     if saturating_add current amount > limit
     then (Inl (ResourceLimitExceeded KernelTasks current amount limit), q)
     else (Inr (), q\<lparr>gq_kernel_tasks := current + amount\<rparr>))"

definition release_kernel_tasks :: "GlobalQuota \<Rightarrow> usize \<Rightarrow> GlobalQuota" where
  "release_kernel_tasks q amount = q\<lparr>gq_kernel_tasks := saturating_sub (gq_kernel_tasks q) amount\<rparr>"

definition try_reserve_runnable_threads :: "GlobalQuota \<Rightarrow> usize \<Rightarrow> GlobalQuota reservation" where
  "try_reserve_runnable_threads q amount =
    (let current = gq_runnable_threads q; limit = max_runnable_threads (gq_limits q) in
     if saturating_add current amount > limit
     then (Inl (ResourceLimitExceeded RunnableThreads current amount limit), q)
     else (Inr (), q\<lparr>gq_runnable_threads := current + amount\<rparr>))"

definition release_runnable_threads :: "GlobalQuota \<Rightarrow> usize \<Rightarrow> GlobalQuota" where
  "release_runnable_threads q amount = q\<lparr>gq_runnable_threads := saturating_sub (gq_runnable_threads q) amount\<rparr>"

definition try_reserve_external_handles :: "GlobalQuota \<Rightarrow> usize \<Rightarrow> GlobalQuota reservation" where
  "try_reserve_external_handles q amount =
    (let current = gq_external_handles q; limit = max_external_handles (gq_limits q) in
     if saturating_add current amount > limit
     then (Inl (ResourceLimitExceeded ExternalHandles current amount limit), q)
     else (Inr (), q\<lparr>gq_external_handles := current + amount\<rparr>))"

definition release_external_handles :: "GlobalQuota \<Rightarrow> usize \<Rightarrow> GlobalQuota" where
  "release_external_handles q amount = q\<lparr>gq_external_handles := saturating_sub (gq_external_handles q) amount\<rparr>"

definition try_reserve_timers :: "GlobalQuota \<Rightarrow> usize \<Rightarrow> GlobalQuota reservation" where
  "try_reserve_timers q amount =
    (let current = gq_timers q; limit = max_timers (gq_limits q) in
     if saturating_add current amount > limit
     then (Inl (ResourceLimitExceeded Timers current amount limit), q)
     else (Inr (), q\<lparr>gq_timers := current + amount\<rparr>))"

definition release_timers :: "GlobalQuota \<Rightarrow> usize \<Rightarrow> GlobalQuota" where
  "release_timers q amount = q\<lparr>gq_timers := saturating_sub (gq_timers q) amount\<rparr>"

definition try_reserve_pending_states :: "GlobalQuota \<Rightarrow> usize \<Rightarrow> GlobalQuota reservation" where
  "try_reserve_pending_states q amount =
    (let current = gq_pending_states q; limit = max_pending_states (gq_limits q) in
     if saturating_add current amount > limit
     then (Inl (ResourceLimitExceeded PendingStates current amount limit), q)
     else (Inr (), q\<lparr>gq_pending_states := current + amount\<rparr>))"

definition release_pending_states :: "GlobalQuota \<Rightarrow> usize \<Rightarrow> GlobalQuota" where
  "release_pending_states q amount = q\<lparr>gq_pending_states := saturating_sub (gq_pending_states q) amount\<rparr>"

section \<open>The atomic counters of \<open>ThreadQuota\<close>\<close>

record ThreadQuota =
  tq_limits :: LimitsMetadata
  tq_heap_objects :: usize
  tq_heap_bytes :: usize
  tq_call_depth :: usize
  tq_mailbox_messages :: usize
  tq_mailbox_bytes :: usize

definition new_thread_quota :: "LimitsMetadata \<Rightarrow> ThreadQuota" where
  "new_thread_quota limits = \<lparr>tq_limits = limits, tq_heap_objects = 0, tq_heap_bytes = 0, tq_call_depth = 0,
     tq_mailbox_messages = 0, tq_mailbox_bytes = 0\<rparr>"

definition try_reserve_heap_objects :: "ThreadQuota \<Rightarrow> usize \<Rightarrow> ThreadQuota reservation" where
  "try_reserve_heap_objects q amount =
    (let current = tq_heap_objects q; q1 = q\<lparr>tq_heap_objects := current + amount\<rparr>;
         limit = max_heap_objects (tq_limits q1) in
     if saturating_add current amount > limit
     then (Inl (ResourceLimitExceeded HeapObjects current amount limit),
           q1\<lparr>tq_heap_objects := tq_heap_objects q1 - amount\<rparr>)
     else (Inr (), q1))"

definition release_heap_objects :: "ThreadQuota \<Rightarrow> usize \<Rightarrow> ThreadQuota" where
  "release_heap_objects q amount = q\<lparr>tq_heap_objects := tq_heap_objects q - amount\<rparr>"

definition try_reserve_heap_bytes :: "ThreadQuota \<Rightarrow> usize \<Rightarrow> ThreadQuota reservation" where
  "try_reserve_heap_bytes q amount =
    (let current = tq_heap_bytes q; q1 = q\<lparr>tq_heap_bytes := current + amount\<rparr>;
         limit = max_heap_bytes (tq_limits q1) in
     if saturating_add current amount > limit
     then (Inl (ResourceLimitExceeded HeapBytes current amount limit),
           q1\<lparr>tq_heap_bytes := tq_heap_bytes q1 - amount\<rparr>)
     else (Inr (), q1))"

definition release_heap_bytes :: "ThreadQuota \<Rightarrow> usize \<Rightarrow> ThreadQuota" where
  "release_heap_bytes q amount = q\<lparr>tq_heap_bytes := tq_heap_bytes q - amount\<rparr>"

definition try_reserve_call_depth :: "ThreadQuota \<Rightarrow> usize \<Rightarrow> ThreadQuota reservation" where
  "try_reserve_call_depth q amount =
    (let current = tq_call_depth q; q1 = q\<lparr>tq_call_depth := current + amount\<rparr>;
         limit = max_call_depth (tq_limits q1) in
     if saturating_add current amount > limit
     then (Inl (ResourceLimitExceeded CallDepth current amount limit),
           q1\<lparr>tq_call_depth := tq_call_depth q1 - amount\<rparr>)
     else (Inr (), q1))"

definition release_call_depth :: "ThreadQuota \<Rightarrow> usize \<Rightarrow> ThreadQuota" where
  "release_call_depth q amount = q\<lparr>tq_call_depth := tq_call_depth q - amount\<rparr>"

definition try_reserve_mailbox_messages :: "ThreadQuota \<Rightarrow> usize \<Rightarrow> ThreadQuota reservation" where
  "try_reserve_mailbox_messages q amount =
    (let current = tq_mailbox_messages q; q1 = q\<lparr>tq_mailbox_messages := current + amount\<rparr>;
         limit = max_mailbox_messages (tq_limits q1) in
     if saturating_add current amount > limit
     then (Inl (ResourceLimitExceeded MailboxMessages current amount limit),
           q1\<lparr>tq_mailbox_messages := tq_mailbox_messages q1 - amount\<rparr>)
     else (Inr (), q1))"

definition release_mailbox_messages :: "ThreadQuota \<Rightarrow> usize \<Rightarrow> ThreadQuota" where
  "release_mailbox_messages q amount = q\<lparr>tq_mailbox_messages := tq_mailbox_messages q - amount\<rparr>"

definition try_reserve_mailbox_bytes :: "ThreadQuota \<Rightarrow> usize \<Rightarrow> ThreadQuota reservation" where
  "try_reserve_mailbox_bytes q amount =
    (let current = tq_mailbox_bytes q; q1 = q\<lparr>tq_mailbox_bytes := current + amount\<rparr>;
         limit = max_mailbox_bytes (tq_limits q1) in
     if saturating_add current amount > limit
     then (Inl (ResourceLimitExceeded MailboxBytes current amount limit),
           q1\<lparr>tq_mailbox_bytes := tq_mailbox_bytes q1 - amount\<rparr>)
     else (Inr (), q1))"

definition release_mailbox_bytes :: "ThreadQuota \<Rightarrow> usize \<Rightarrow> ThreadQuota" where
  "release_mailbox_bytes q amount = q\<lparr>tq_mailbox_bytes := tq_mailbox_bytes q - amount\<rparr>"

definition try_reserve_heap :: "ThreadQuota \<Rightarrow> usize \<Rightarrow> usize \<Rightarrow> ThreadQuota reservation" where
  "try_reserve_heap q objects bytes =
    (let current1 = tq_heap_objects q; q1 = q\<lparr>tq_heap_objects := current1 + objects\<rparr>;
         limit1 = max_heap_objects (tq_limits q1) in
     if saturating_add current1 objects > limit1
     then (Inl (ResourceLimitExceeded HeapObjects current1 objects limit1),
           q1\<lparr>tq_heap_objects := tq_heap_objects q1 - objects\<rparr>)
     else
       let current2 = tq_heap_bytes q1; q2 = q1\<lparr>tq_heap_bytes := current2 + bytes\<rparr>;
           limit2 = max_heap_bytes (tq_limits q2) in
       if saturating_add current2 bytes > limit2
       then (Inl (ResourceLimitExceeded HeapBytes current2 bytes limit2),
             q2\<lparr>tq_heap_bytes := tq_heap_bytes q2 - bytes,
                tq_heap_objects := tq_heap_objects q2 - objects\<rparr>)
       else (Inr (), q2))"

definition release_heap :: "ThreadQuota \<Rightarrow> usize \<Rightarrow> usize \<Rightarrow> ThreadQuota" where
  "release_heap q objects bytes =
     q\<lparr>tq_heap_objects := tq_heap_objects q - objects, tq_heap_bytes := tq_heap_bytes q - bytes\<rparr>"

definition try_reserve_mailbox :: "ThreadQuota \<Rightarrow> usize \<Rightarrow> usize \<Rightarrow> ThreadQuota reservation" where
  "try_reserve_mailbox q messages bytes =
    (let current1 = tq_mailbox_messages q; q1 = q\<lparr>tq_mailbox_messages := current1 + messages\<rparr>;
         limit1 = max_mailbox_messages (tq_limits q1) in
     if saturating_add current1 messages > limit1
     then (Inl (ResourceLimitExceeded MailboxMessages current1 messages limit1),
           q1\<lparr>tq_mailbox_messages := tq_mailbox_messages q1 - messages\<rparr>)
     else
       let current2 = tq_mailbox_bytes q1; q2 = q1\<lparr>tq_mailbox_bytes := current2 + bytes\<rparr>;
           limit2 = max_mailbox_bytes (tq_limits q2) in
       if saturating_add current2 bytes > limit2
       then (Inl (ResourceLimitExceeded MailboxBytes current2 bytes limit2),
             q2\<lparr>tq_mailbox_bytes := tq_mailbox_bytes q2 - bytes,
                tq_mailbox_messages := tq_mailbox_messages q2 - messages\<rparr>)
       else (Inr (), q2))"

definition release_mailbox :: "ThreadQuota \<Rightarrow> usize \<Rightarrow> usize \<Rightarrow> ThreadQuota" where
  "release_mailbox q messages bytes =
     q\<lparr>tq_mailbox_messages := tq_mailbox_messages q - messages, tq_mailbox_bytes := tq_mailbox_bytes q - bytes\<rparr>"

section \<open>The contract of a counter\<close>

locale resource_counter =
  fixes reserve :: "'q \<Rightarrow> usize \<Rightarrow> 'q reservation"
    and usage :: "'q \<Rightarrow> usize"
    and limit :: "'q \<Rightarrow> usize"
    and kind :: ResourceLimitKind
  assumes reserve_granted:
      "saturating_add (usage q) n \<le> limit q \<Longrightarrow>
       \<exists>q'. reserve q n = (Inr (), q') \<and> usage q' = usage q + n \<and> limit q' = limit q"
    and reserve_refused:
      "\<not> saturating_add (usage q) n \<le> limit q \<Longrightarrow>
       reserve q n = (Inl (ResourceLimitExceeded kind (usage q) n (limit q)), q)"
begin

definition within :: "'q \<Rightarrow> bool" where
  "within q \<longleftrightarrow> usage q \<le> limit q \<and> limit q < - 1"

lemma limit_reserve: "limit (snd (reserve q n)) = limit q"
  using reserve_granted [of q n] reserve_refused [of q n]
  by (cases "saturating_add (usage q) n \<le> limit q") auto

lemma within_reserve:
  assumes "within q"
  shows "within (snd (reserve q n))"
proof (cases "saturating_add (usage q) n \<le> limit q")
  case True
  from assms have "limit q < - 1" by (simp add: within_def)
  with True have "usage q + n \<le> limit q"
    by (rule saturating_add_le_no_overflow(2))
  with reserve_granted [OF True] assms show ?thesis
    by (auto simp: within_def)
next
  case False
  with assms show ?thesis by (simp add: reserve_refused)
qed

lemma reserve_exact:
  assumes "within q"
  shows "fst (reserve q n) = Inr () \<longleftrightarrow> unat (usage q) + unat n \<le> unat (limit q)"
proof -
  have lt: "unat (limit q) < 2 ^ 64 - 1"
    using assms by (simp add: within_def word_less_nat_alt unat_minus_one_word_max)
  have "saturating_add (usage q) n \<le> limit q \<longleftrightarrow>
        min (unat (usage q) + unat n) (2 ^ 64 - 1) \<le> unat (limit q)"
    by (simp add: word_le_nat_alt unat_saturating_add)
  also have "\<dots> \<longleftrightarrow> unat (usage q) + unat n \<le> unat (limit q)"
    using lt by linarith
  finally show ?thesis
    using reserve_granted [of q n] reserve_refused [of q n]
    by (cases "saturating_add (usage q) n \<le> limit q") auto
qed

lemma reserve_usage:
  assumes "within q" and "fst (reserve q n) = Inr ()"
  shows "unat (usage (snd (reserve q n))) = unat (usage q) + unat n"
proof -
  from assms(2) have le: "saturating_add (usage q) n \<le> limit q"
    using reserve_refused [of q n] by fastforce
  moreover from assms(1) have "limit q < - 1" by (simp add: within_def)
  ultimately have "unat (usage q + n) = unat (usage q) + unat n"
    by (rule saturating_add_le_no_overflow(1))
  with reserve_granted [OF le] show ?thesis by auto
qed

end

locale saturating_counter = resource_counter reserve usage limit kind
  for reserve :: "'q \<Rightarrow> usize \<Rightarrow> 'q reservation" and usage limit kind +
  fixes release :: "'q \<Rightarrow> usize \<Rightarrow> 'q"
  assumes usage_release: "usage (release q n) = saturating_sub (usage q) n"
    and limit_release: "limit (release q n) = limit q"
begin

lemma within_release: "within q \<Longrightarrow> within (release q n)"
  by (auto simp: within_def usage_release limit_release word_le_nat_alt unat_saturating_sub)

lemma reserve_release:
  assumes "within q" and "fst (reserve q n) = Inr ()"
  shows "usage (release (snd (reserve q n)) n) = usage q"
  using reserve_usage [OF assms]
  by (simp add: usage_release word_unat_eq_iff unat_saturating_sub)

end

locale wrapping_counter = resource_counter reserve usage limit kind
  for reserve :: "'q \<Rightarrow> usize \<Rightarrow> 'q reservation" and usage limit kind +
  fixes release :: "'q \<Rightarrow> usize \<Rightarrow> 'q"
  assumes usage_release: "usage (release q n) = usage q - n"
    and limit_release: "limit (release q n) = limit q"
begin

lemma within_release: "within q \<Longrightarrow> n \<le> usage q \<Longrightarrow> within (release q n)"
  by (auto simp: within_def usage_release limit_release word_le_nat_alt unat_sub)

lemma reserve_release:
  assumes "fst (reserve q n) = Inr ()"
  shows "usage (release (snd (reserve q n)) n) = usage q"
  using assms reserve_granted [of q n] reserve_refused [of q n]
  by (cases "saturating_add (usage q) n \<le> limit q") (auto simp: usage_release)

end

text \<open>Every counter of the source meets the contract.\<close>

interpretation gq_threads: saturating_counter try_reserve_threads gq_threads "\<lambda>q. max_threads (gq_limits q)" Threads release_threads
  by unfold_locales (auto simp: try_reserve_threads_def release_threads_def Let_def)

interpretation gq_futures: saturating_counter try_reserve_futures gq_futures "\<lambda>q. max_futures (gq_limits q)" Futures release_futures
  by unfold_locales (auto simp: try_reserve_futures_def release_futures_def Let_def)

interpretation gq_pending_requests: saturating_counter try_reserve_pending_requests gq_pending_requests "\<lambda>q. max_pending_requests (gq_limits q)" PendingRequests release_pending_requests
  by unfold_locales (auto simp: try_reserve_pending_requests_def release_pending_requests_def Let_def)

interpretation gq_event_queue: saturating_counter try_reserve_event_queue gq_event_queue "\<lambda>q. max_event_queue (gq_limits q)" EventQueue release_event_queue
  by unfold_locales (auto simp: try_reserve_event_queue_def release_event_queue_def Let_def)

interpretation gq_kernel_tasks: saturating_counter try_reserve_kernel_tasks gq_kernel_tasks "\<lambda>q. max_kernel_tasks (gq_limits q)" KernelTasks release_kernel_tasks
  by unfold_locales (auto simp: try_reserve_kernel_tasks_def release_kernel_tasks_def Let_def)

interpretation gq_runnable_threads: saturating_counter try_reserve_runnable_threads gq_runnable_threads "\<lambda>q. max_runnable_threads (gq_limits q)" RunnableThreads release_runnable_threads
  by unfold_locales (auto simp: try_reserve_runnable_threads_def release_runnable_threads_def Let_def)

interpretation gq_external_handles: saturating_counter try_reserve_external_handles gq_external_handles "\<lambda>q. max_external_handles (gq_limits q)" ExternalHandles release_external_handles
  by unfold_locales (auto simp: try_reserve_external_handles_def release_external_handles_def Let_def)

interpretation gq_timers: saturating_counter try_reserve_timers gq_timers "\<lambda>q. max_timers (gq_limits q)" Timers release_timers
  by unfold_locales (auto simp: try_reserve_timers_def release_timers_def Let_def)

interpretation gq_pending_states: saturating_counter try_reserve_pending_states gq_pending_states "\<lambda>q. max_pending_states (gq_limits q)" PendingStates release_pending_states
  by unfold_locales (auto simp: try_reserve_pending_states_def release_pending_states_def Let_def)

interpretation tq_heap_objects: wrapping_counter try_reserve_heap_objects tq_heap_objects "\<lambda>q. max_heap_objects (tq_limits q)" HeapObjects release_heap_objects
  by unfold_locales (auto simp: try_reserve_heap_objects_def release_heap_objects_def Let_def)

interpretation tq_heap_bytes: wrapping_counter try_reserve_heap_bytes tq_heap_bytes "\<lambda>q. max_heap_bytes (tq_limits q)" HeapBytes release_heap_bytes
  by unfold_locales (auto simp: try_reserve_heap_bytes_def release_heap_bytes_def Let_def)

interpretation tq_call_depth: wrapping_counter try_reserve_call_depth tq_call_depth "\<lambda>q. max_call_depth (tq_limits q)" CallDepth release_call_depth
  by unfold_locales (auto simp: try_reserve_call_depth_def release_call_depth_def Let_def)

interpretation tq_mailbox_messages: wrapping_counter try_reserve_mailbox_messages tq_mailbox_messages "\<lambda>q. max_mailbox_messages (tq_limits q)" MailboxMessages release_mailbox_messages
  by unfold_locales (auto simp: try_reserve_mailbox_messages_def release_mailbox_messages_def Let_def)

interpretation tq_mailbox_bytes: wrapping_counter try_reserve_mailbox_bytes tq_mailbox_bytes "\<lambda>q. max_mailbox_bytes (tq_limits q)" MailboxBytes release_mailbox_bytes
  by unfold_locales (auto simp: try_reserve_mailbox_bytes_def release_mailbox_bytes_def Let_def)

section \<open>Histories of the global quota\<close>

text \<open>A call on one of the nine counters, named by its resource.\<close>

datatype quota_call = Reserve ResourceLimitKind usize | Release ResourceLimitKind usize

fun global_call :: "GlobalQuota \<Rightarrow> quota_call \<Rightarrow> GlobalQuota" where
  "global_call q (Reserve Threads n) = snd (try_reserve_threads q n)"
| "global_call q (Reserve Futures n) = snd (try_reserve_futures q n)"
| "global_call q (Reserve PendingRequests n) = snd (try_reserve_pending_requests q n)"
| "global_call q (Reserve EventQueue n) = snd (try_reserve_event_queue q n)"
| "global_call q (Reserve KernelTasks n) = snd (try_reserve_kernel_tasks q n)"
| "global_call q (Reserve RunnableThreads n) = snd (try_reserve_runnable_threads q n)"
| "global_call q (Reserve ExternalHandles n) = snd (try_reserve_external_handles q n)"
| "global_call q (Reserve Timers n) = snd (try_reserve_timers q n)"
| "global_call q (Reserve PendingStates n) = snd (try_reserve_pending_states q n)"
| "global_call q (Release Threads n) = release_threads q n"
| "global_call q (Release Futures n) = release_futures q n"
| "global_call q (Release PendingRequests n) = release_pending_requests q n"
| "global_call q (Release EventQueue n) = release_event_queue q n"
| "global_call q (Release KernelTasks n) = release_kernel_tasks q n"
| "global_call q (Release RunnableThreads n) = release_runnable_threads q n"
| "global_call q (Release ExternalHandles n) = release_external_handles q n"
| "global_call q (Release Timers n) = release_timers q n"
| "global_call q (Release PendingStates n) = release_pending_states q n"
| "global_call q (Reserve k n) = q" \<comment> \<open>the per-thread resources are not global\<close>
| "global_call q (Release k n) = q"

definition global_within :: "GlobalQuota \<Rightarrow> bool" where
  "global_within q \<longleftrightarrow>
     gq_threads q \<le> max_threads (gq_limits q) \<and>
     gq_futures q \<le> max_futures (gq_limits q) \<and>
     gq_pending_requests q \<le> max_pending_requests (gq_limits q) \<and>
     gq_event_queue q \<le> max_event_queue (gq_limits q) \<and>
     gq_kernel_tasks q \<le> max_kernel_tasks (gq_limits q) \<and>
     gq_runnable_threads q \<le> max_runnable_threads (gq_limits q) \<and>
     gq_external_handles q \<le> max_external_handles (gq_limits q) \<and>
     gq_timers q \<le> max_timers (gq_limits q) \<and>
     gq_pending_states q \<le> max_pending_states (gq_limits q)"

definition finite_global_limits :: "LimitsMetadata \<Rightarrow> bool" where
  "finite_global_limits l \<longleftrightarrow>
     max_threads l < - 1 \<and>
     max_futures l < - 1 \<and>
     max_pending_requests l < - 1 \<and>
     max_event_queue l < - 1 \<and>
     max_kernel_tasks l < - 1 \<and>
     max_runnable_threads l < - 1 \<and>
     max_external_handles l < - 1 \<and>
     max_timers l < - 1 \<and>
     max_pending_states l < - 1"

lemmas global_counter_defs =
  try_reserve_threads_def release_threads_def
  try_reserve_futures_def release_futures_def
  try_reserve_pending_requests_def release_pending_requests_def
  try_reserve_event_queue_def release_event_queue_def
  try_reserve_kernel_tasks_def release_kernel_tasks_def
  try_reserve_runnable_threads_def release_runnable_threads_def
  try_reserve_external_handles_def release_external_handles_def
  try_reserve_timers_def release_timers_def
  try_reserve_pending_states_def release_pending_states_def

lemma gq_limits_global_call [simp]: "gq_limits (global_call q c) = gq_limits q"
  by (cases "(q, c)" rule: global_call.cases) (simp_all add: global_counter_defs Let_def)

text \<open>A counter is either untouched by a call, or the call is on that counter.\<close>

lemma gq_threads_global_call:
  assumes "gq_threads q \<le> max_threads (gq_limits q)" and "max_threads (gq_limits q) < - 1"
  shows "gq_threads (global_call q c) \<le> max_threads (gq_limits q)"
proof -
  from assms have w: "gq_threads.within q" by (simp add: gq_threads.within_def)
  have "gq_threads (snd (try_reserve_threads q n)) \<le> max_threads (gq_limits q)" for n
    using gq_threads.within_reserve [OF w, of n] gq_threads.limit_reserve [of q n]
    by (simp add: gq_threads.within_def)
  moreover have "gq_threads (release_threads q n) \<le> max_threads (gq_limits q)" for n
    using gq_threads.within_release [OF w, of n] gq_threads.limit_release [of q n]
    by (simp add: gq_threads.within_def)
  ultimately show ?thesis using assms(1)
    by (cases "(q, c)" rule: global_call.cases)
       (simp_all add: Let_def try_reserve_futures_def release_futures_def try_reserve_pending_requests_def
        release_pending_requests_def try_reserve_event_queue_def release_event_queue_def
        try_reserve_kernel_tasks_def release_kernel_tasks_def try_reserve_runnable_threads_def
        release_runnable_threads_def try_reserve_external_handles_def
        release_external_handles_def try_reserve_timers_def release_timers_def
        try_reserve_pending_states_def release_pending_states_def)
qed

lemma gq_futures_global_call:
  assumes "gq_futures q \<le> max_futures (gq_limits q)" and "max_futures (gq_limits q) < - 1"
  shows "gq_futures (global_call q c) \<le> max_futures (gq_limits q)"
proof -
  from assms have w: "gq_futures.within q" by (simp add: gq_futures.within_def)
  have "gq_futures (snd (try_reserve_futures q n)) \<le> max_futures (gq_limits q)" for n
    using gq_futures.within_reserve [OF w, of n] gq_futures.limit_reserve [of q n]
    by (simp add: gq_futures.within_def)
  moreover have "gq_futures (release_futures q n) \<le> max_futures (gq_limits q)" for n
    using gq_futures.within_release [OF w, of n] gq_futures.limit_release [of q n]
    by (simp add: gq_futures.within_def)
  ultimately show ?thesis using assms(1)
    by (cases "(q, c)" rule: global_call.cases)
       (simp_all add: Let_def try_reserve_threads_def release_threads_def try_reserve_pending_requests_def
        release_pending_requests_def try_reserve_event_queue_def release_event_queue_def
        try_reserve_kernel_tasks_def release_kernel_tasks_def try_reserve_runnable_threads_def
        release_runnable_threads_def try_reserve_external_handles_def
        release_external_handles_def try_reserve_timers_def release_timers_def
        try_reserve_pending_states_def release_pending_states_def)
qed

lemma gq_pending_requests_global_call:
  assumes "gq_pending_requests q \<le> max_pending_requests (gq_limits q)" and "max_pending_requests (gq_limits q) < - 1"
  shows "gq_pending_requests (global_call q c) \<le> max_pending_requests (gq_limits q)"
proof -
  from assms have w: "gq_pending_requests.within q" by (simp add: gq_pending_requests.within_def)
  have "gq_pending_requests (snd (try_reserve_pending_requests q n)) \<le> max_pending_requests (gq_limits q)" for n
    using gq_pending_requests.within_reserve [OF w, of n] gq_pending_requests.limit_reserve [of q n]
    by (simp add: gq_pending_requests.within_def)
  moreover have "gq_pending_requests (release_pending_requests q n) \<le> max_pending_requests (gq_limits q)" for n
    using gq_pending_requests.within_release [OF w, of n] gq_pending_requests.limit_release [of q n]
    by (simp add: gq_pending_requests.within_def)
  ultimately show ?thesis using assms(1)
    by (cases "(q, c)" rule: global_call.cases)
       (simp_all add: Let_def try_reserve_threads_def release_threads_def try_reserve_futures_def release_futures_def
        try_reserve_event_queue_def release_event_queue_def try_reserve_kernel_tasks_def
        release_kernel_tasks_def try_reserve_runnable_threads_def release_runnable_threads_def
        try_reserve_external_handles_def release_external_handles_def try_reserve_timers_def
        release_timers_def try_reserve_pending_states_def release_pending_states_def)
qed

lemma gq_event_queue_global_call:
  assumes "gq_event_queue q \<le> max_event_queue (gq_limits q)" and "max_event_queue (gq_limits q) < - 1"
  shows "gq_event_queue (global_call q c) \<le> max_event_queue (gq_limits q)"
proof -
  from assms have w: "gq_event_queue.within q" by (simp add: gq_event_queue.within_def)
  have "gq_event_queue (snd (try_reserve_event_queue q n)) \<le> max_event_queue (gq_limits q)" for n
    using gq_event_queue.within_reserve [OF w, of n] gq_event_queue.limit_reserve [of q n]
    by (simp add: gq_event_queue.within_def)
  moreover have "gq_event_queue (release_event_queue q n) \<le> max_event_queue (gq_limits q)" for n
    using gq_event_queue.within_release [OF w, of n] gq_event_queue.limit_release [of q n]
    by (simp add: gq_event_queue.within_def)
  ultimately show ?thesis using assms(1)
    by (cases "(q, c)" rule: global_call.cases)
       (simp_all add: Let_def try_reserve_threads_def release_threads_def try_reserve_futures_def release_futures_def
        try_reserve_pending_requests_def release_pending_requests_def
        try_reserve_kernel_tasks_def release_kernel_tasks_def try_reserve_runnable_threads_def
        release_runnable_threads_def try_reserve_external_handles_def
        release_external_handles_def try_reserve_timers_def release_timers_def
        try_reserve_pending_states_def release_pending_states_def)
qed

lemma gq_kernel_tasks_global_call:
  assumes "gq_kernel_tasks q \<le> max_kernel_tasks (gq_limits q)" and "max_kernel_tasks (gq_limits q) < - 1"
  shows "gq_kernel_tasks (global_call q c) \<le> max_kernel_tasks (gq_limits q)"
proof -
  from assms have w: "gq_kernel_tasks.within q" by (simp add: gq_kernel_tasks.within_def)
  have "gq_kernel_tasks (snd (try_reserve_kernel_tasks q n)) \<le> max_kernel_tasks (gq_limits q)" for n
    using gq_kernel_tasks.within_reserve [OF w, of n] gq_kernel_tasks.limit_reserve [of q n]
    by (simp add: gq_kernel_tasks.within_def)
  moreover have "gq_kernel_tasks (release_kernel_tasks q n) \<le> max_kernel_tasks (gq_limits q)" for n
    using gq_kernel_tasks.within_release [OF w, of n] gq_kernel_tasks.limit_release [of q n]
    by (simp add: gq_kernel_tasks.within_def)
  ultimately show ?thesis using assms(1)
    by (cases "(q, c)" rule: global_call.cases)
       (simp_all add: Let_def try_reserve_threads_def release_threads_def try_reserve_futures_def release_futures_def
        try_reserve_pending_requests_def release_pending_requests_def
        try_reserve_event_queue_def release_event_queue_def try_reserve_runnable_threads_def
        release_runnable_threads_def try_reserve_external_handles_def
        release_external_handles_def try_reserve_timers_def release_timers_def
        try_reserve_pending_states_def release_pending_states_def)
qed

lemma gq_runnable_threads_global_call:
  assumes "gq_runnable_threads q \<le> max_runnable_threads (gq_limits q)" and "max_runnable_threads (gq_limits q) < - 1"
  shows "gq_runnable_threads (global_call q c) \<le> max_runnable_threads (gq_limits q)"
proof -
  from assms have w: "gq_runnable_threads.within q" by (simp add: gq_runnable_threads.within_def)
  have "gq_runnable_threads (snd (try_reserve_runnable_threads q n)) \<le> max_runnable_threads (gq_limits q)" for n
    using gq_runnable_threads.within_reserve [OF w, of n] gq_runnable_threads.limit_reserve [of q n]
    by (simp add: gq_runnable_threads.within_def)
  moreover have "gq_runnable_threads (release_runnable_threads q n) \<le> max_runnable_threads (gq_limits q)" for n
    using gq_runnable_threads.within_release [OF w, of n] gq_runnable_threads.limit_release [of q n]
    by (simp add: gq_runnable_threads.within_def)
  ultimately show ?thesis using assms(1)
    by (cases "(q, c)" rule: global_call.cases)
       (simp_all add: Let_def try_reserve_threads_def release_threads_def try_reserve_futures_def release_futures_def
        try_reserve_pending_requests_def release_pending_requests_def
        try_reserve_event_queue_def release_event_queue_def try_reserve_kernel_tasks_def
        release_kernel_tasks_def try_reserve_external_handles_def release_external_handles_def
        try_reserve_timers_def release_timers_def try_reserve_pending_states_def
        release_pending_states_def)
qed

lemma gq_external_handles_global_call:
  assumes "gq_external_handles q \<le> max_external_handles (gq_limits q)" and "max_external_handles (gq_limits q) < - 1"
  shows "gq_external_handles (global_call q c) \<le> max_external_handles (gq_limits q)"
proof -
  from assms have w: "gq_external_handles.within q" by (simp add: gq_external_handles.within_def)
  have "gq_external_handles (snd (try_reserve_external_handles q n)) \<le> max_external_handles (gq_limits q)" for n
    using gq_external_handles.within_reserve [OF w, of n] gq_external_handles.limit_reserve [of q n]
    by (simp add: gq_external_handles.within_def)
  moreover have "gq_external_handles (release_external_handles q n) \<le> max_external_handles (gq_limits q)" for n
    using gq_external_handles.within_release [OF w, of n] gq_external_handles.limit_release [of q n]
    by (simp add: gq_external_handles.within_def)
  ultimately show ?thesis using assms(1)
    by (cases "(q, c)" rule: global_call.cases)
       (simp_all add: Let_def try_reserve_threads_def release_threads_def try_reserve_futures_def release_futures_def
        try_reserve_pending_requests_def release_pending_requests_def
        try_reserve_event_queue_def release_event_queue_def try_reserve_kernel_tasks_def
        release_kernel_tasks_def try_reserve_runnable_threads_def release_runnable_threads_def
        try_reserve_timers_def release_timers_def try_reserve_pending_states_def
        release_pending_states_def)
qed

lemma gq_timers_global_call:
  assumes "gq_timers q \<le> max_timers (gq_limits q)" and "max_timers (gq_limits q) < - 1"
  shows "gq_timers (global_call q c) \<le> max_timers (gq_limits q)"
proof -
  from assms have w: "gq_timers.within q" by (simp add: gq_timers.within_def)
  have "gq_timers (snd (try_reserve_timers q n)) \<le> max_timers (gq_limits q)" for n
    using gq_timers.within_reserve [OF w, of n] gq_timers.limit_reserve [of q n]
    by (simp add: gq_timers.within_def)
  moreover have "gq_timers (release_timers q n) \<le> max_timers (gq_limits q)" for n
    using gq_timers.within_release [OF w, of n] gq_timers.limit_release [of q n]
    by (simp add: gq_timers.within_def)
  ultimately show ?thesis using assms(1)
    by (cases "(q, c)" rule: global_call.cases)
       (simp_all add: Let_def try_reserve_threads_def release_threads_def try_reserve_futures_def release_futures_def
        try_reserve_pending_requests_def release_pending_requests_def
        try_reserve_event_queue_def release_event_queue_def try_reserve_kernel_tasks_def
        release_kernel_tasks_def try_reserve_runnable_threads_def release_runnable_threads_def
        try_reserve_external_handles_def release_external_handles_def
        try_reserve_pending_states_def release_pending_states_def)
qed

lemma gq_pending_states_global_call:
  assumes "gq_pending_states q \<le> max_pending_states (gq_limits q)" and "max_pending_states (gq_limits q) < - 1"
  shows "gq_pending_states (global_call q c) \<le> max_pending_states (gq_limits q)"
proof -
  from assms have w: "gq_pending_states.within q" by (simp add: gq_pending_states.within_def)
  have "gq_pending_states (snd (try_reserve_pending_states q n)) \<le> max_pending_states (gq_limits q)" for n
    using gq_pending_states.within_reserve [OF w, of n] gq_pending_states.limit_reserve [of q n]
    by (simp add: gq_pending_states.within_def)
  moreover have "gq_pending_states (release_pending_states q n) \<le> max_pending_states (gq_limits q)" for n
    using gq_pending_states.within_release [OF w, of n] gq_pending_states.limit_release [of q n]
    by (simp add: gq_pending_states.within_def)
  ultimately show ?thesis using assms(1)
    by (cases "(q, c)" rule: global_call.cases)
       (simp_all add: Let_def try_reserve_threads_def release_threads_def try_reserve_futures_def release_futures_def
        try_reserve_pending_requests_def release_pending_requests_def
        try_reserve_event_queue_def release_event_queue_def try_reserve_kernel_tasks_def
        release_kernel_tasks_def try_reserve_runnable_threads_def release_runnable_threads_def
        try_reserve_external_handles_def release_external_handles_def try_reserve_timers_def
        release_timers_def)
qed

lemmas global_call_counters =
  gq_threads_global_call
  gq_futures_global_call
  gq_pending_requests_global_call
  gq_event_queue_global_call
  gq_kernel_tasks_global_call
  gq_runnable_threads_global_call
  gq_external_handles_global_call
  gq_timers_global_call
  gq_pending_states_global_call

lemma global_within_call:
  assumes "global_within q" and "finite_global_limits (gq_limits q)"
  shows "global_within (global_call q c)"
  using assms unfolding global_within_def finite_global_limits_def
  by (simp add: global_call_counters)

lemma global_within_history:
  assumes "global_within q" and "finite_global_limits (gq_limits q)"
  shows "global_within (foldl global_call q cs) \<and> gq_limits (foldl global_call q cs) = gq_limits q"
  using assms by (induction cs arbitrary: q) (auto simp: global_within_call)

text \<open>
  C30 (global quota stays within its limits).  Starting from a fresh \<open>GlobalQuota\<close> whose limits are
  below \<open>usize::MAX\<close>, no sequence of reserve and release calls, in any order and with any amounts,
  lets one of the nine counters exceed its limit.
\<close>

theorem global_quota_never_exceeds_limits:
  assumes "finite_global_limits limits"
  shows "global_within (foldl global_call (new_global_quota limits) calls)"
proof -
  have "global_within (new_global_quota limits)"
    by (simp add: new_global_quota_def global_within_def)
  moreover have "finite_global_limits (gq_limits (new_global_quota limits))"
    using assms by (simp add: new_global_quota_def)
  ultimately show ?thesis
    by (blast dest: global_within_history)
qed

theorem global_quota_never_exceeds_limits_witness:
  "global_within (foldl global_call (new_global_quota default_limits)
     [Reserve Timers 1000, Reserve Timers 100, Release Threads 7, Reserve Threads 1024])"
  by (rule global_quota_never_exceeds_limits) (simp add: finite_global_limits_def default_limits_def)

section \<open>Reservations of the thread quota\<close>

definition heap_within :: "ThreadQuota \<Rightarrow> bool" where
  "heap_within q \<longleftrightarrow> tq_heap_objects.within q \<and> tq_heap_bytes.within q"

lemma try_reserve_heap_refused:
  assumes "fst (try_reserve_heap q n b) \<noteq> Inr ()"
  shows "snd (try_reserve_heap q n b) = q"
  using assms by (auto simp: try_reserve_heap_def Let_def split: if_splits)

lemma try_reserve_heap_granted_iff:
  "fst (try_reserve_heap q n b) = Inr () \<longleftrightarrow>
     fst (try_reserve_heap_objects q n) = Inr () \<and> fst (try_reserve_heap_bytes q b) = Inr ()"
  by (auto simp: try_reserve_heap_def try_reserve_heap_objects_def try_reserve_heap_bytes_def Let_def
           split: if_splits)

lemma try_reserve_heap_granted:
  assumes "fst (try_reserve_heap q n b) = Inr ()"
  shows "snd (try_reserve_heap q n b) =
           q\<lparr>tq_heap_objects := tq_heap_objects q + n, tq_heap_bytes := tq_heap_bytes q + b\<rparr>"
  using assms by (auto simp: try_reserve_heap_def Let_def split: if_splits)

text \<open>
  A heap reservation is all or nothing.  \<open>try_reserve_heap\<close> succeeds exactly when both the
  object count and the byte count still fit under their limits; it then adds exactly the two
  requested amounts, and on failure, in particular when the objects fit and the bytes do not, it
  leaves the quota as it was.
\<close>

lemma try_reserve_heap_all_or_nothing:
  assumes "heap_within q"
  shows "(fst (try_reserve_heap q n b) = Inr () \<longleftrightarrow>
            unat (tq_heap_objects q) + unat n \<le> unat (max_heap_objects (tq_limits q)) \<and>
            unat (tq_heap_bytes q) + unat b \<le> unat (max_heap_bytes (tq_limits q))) \<and>
         snd (try_reserve_heap q n b) =
           (if fst (try_reserve_heap q n b) = Inr ()
            then q\<lparr>tq_heap_objects := tq_heap_objects q + n, tq_heap_bytes := tq_heap_bytes q + b\<rparr>
            else q)"
  using assms tq_heap_objects.reserve_exact [of q n] tq_heap_bytes.reserve_exact [of q b]
  by (simp add: heap_within_def try_reserve_heap_granted_iff try_reserve_heap_granted
        try_reserve_heap_refused)

lemma try_reserve_heap_within:
  assumes "heap_within q"
  shows "heap_within (snd (try_reserve_heap q n b))"
proof (cases "fst (try_reserve_heap q n b) = Inr ()")
  case True
  then have g: "fst (try_reserve_heap_objects q n) = Inr ()" "fst (try_reserve_heap_bytes q b) = Inr ()"
    by (simp_all add: try_reserve_heap_granted_iff)
  from assms tq_heap_objects.within_reserve [of q n] tq_heap_bytes.within_reserve [of q b]
  have "tq_heap_objects.within (snd (try_reserve_heap_objects q n))"
    and "tq_heap_bytes.within (snd (try_reserve_heap_bytes q b))"
    by (simp_all add: heap_within_def)
  then show ?thesis
    using g True
    by (auto simp: heap_within_def try_reserve_heap_granted tq_heap_objects.within_def
          tq_heap_bytes.within_def try_reserve_heap_objects_def try_reserve_heap_bytes_def Let_def
          split: if_splits)
next
  case False
  with assms show ?thesis by (simp add: try_reserve_heap_refused)
qed

lemma reserve_release_heap:
  assumes "fst (try_reserve_heap q n b) = Inr ()"
  shows "release_heap (snd (try_reserve_heap q n b)) n b = q"
  using assms by (simp add: try_reserve_heap_granted release_heap_def)

section \<open>Concurrent reservations on one atomic counter\<close>

text \<open>
  Several host threads may use one atomic counter at a time.  A reservation is not one atomic
  step: \<open>fetch_add\<close> returns the old value, and only then does the caller compare it with the limit
  and, when it lost, undo its increment with \<open>fetch_sub\<close>.  The state keeps the counter, the
  reservations granted so far and the ones between their \<open>fetch_add\<close> and their decision (with the
  value they saw).  The guard of \<open>race_add\<close> says that the sum of what is outstanding fits a
  \<open>usize\<close>: reserved objects and bytes exist in memory.
\<close>

record race_state =
  race_counter :: usize
  race_granted :: "usize list"
  race_pending :: "(usize \<times> usize) list"  \<comment> \<open>value seen by \<open>fetch_add\<close>, amount\<close>

definition amounts :: "usize list \<Rightarrow> nat" where
  "amounts ns = sum_list (map unat ns)"

definition granted_by :: "usize \<Rightarrow> usize \<times> usize \<Rightarrow> bool" where
  "granted_by limit p \<longleftrightarrow> saturating_add (fst p) (snd p) \<le> limit"

inductive race_step :: "usize \<Rightarrow> race_state \<Rightarrow> race_state \<Rightarrow> bool" for limit where
  race_add: "amounts (race_granted s) + amounts (map snd (race_pending s)) + unat n < 2 ^ 64 \<Longrightarrow>
     race_step limit s (s\<lparr>race_counter := race_counter s + n,
                          race_pending := (race_counter s, n) # race_pending s\<rparr>)"
| race_grant: "race_pending s = ps @ (c, n) # qs \<Longrightarrow> saturating_add c n \<le> limit \<Longrightarrow>
     race_step limit s (s\<lparr>race_pending := ps @ qs, race_granted := n # race_granted s\<rparr>)"
| race_undo: "race_pending s = ps @ (c, n) # qs \<Longrightarrow> \<not> saturating_add c n \<le> limit \<Longrightarrow>
     race_step limit s (s\<lparr>race_counter := race_counter s - n, race_pending := ps @ qs\<rparr>)"
| race_release: "race_granted s = ns @ n # ms \<Longrightarrow>
     race_step limit s (s\<lparr>race_counter := race_counter s - n, race_granted := ns @ ms\<rparr>)"

definition race_init :: race_state where
  "race_init = \<lparr>race_counter = 0, race_granted = [], race_pending = []\<rparr>"

inductive race_reachable :: "usize \<Rightarrow> race_state \<Rightarrow> bool" for limit where
  race_start: "race_reachable limit race_init"
| race_next: "race_reachable limit s \<Longrightarrow> race_step limit s t \<Longrightarrow> race_reachable limit t"

text \<open>
  The counter is exactly what is outstanding, and the grants together with the pending
  reservations that are going to be granted fit under the limit.
\<close>

definition race_inv :: "usize \<Rightarrow> race_state \<Rightarrow> bool" where
  "race_inv limit s \<longleftrightarrow>
     unat (race_counter s) = amounts (race_granted s) + amounts (map snd (race_pending s)) \<and>
     amounts (race_granted s) + amounts (map snd (filter (granted_by limit) (race_pending s))) \<le> unat limit"

lemma amounts_simps [simp]:
  "amounts [] = 0" "amounts (n # ns) = unat n + amounts ns" "amounts (ns @ ms) = amounts ns + amounts ms"
  by (simp_all add: amounts_def)

lemma amounts_filter_le: "amounts (map snd (filter P ps)) \<le> amounts (map snd ps)"
  by (induction ps) auto

lemma race_step_inv:
  assumes "race_step limit s t" and "race_inv limit s" and "limit < - 1"
  shows "race_inv limit t"
  using assms(1,2)
proof cases
  case (race_add n)
  have eq: "unat (race_counter s) = amounts (race_granted s) + amounts (map snd (race_pending s))"
    using assms(2) by (simp add: race_inv_def)
  have sum: "unat (race_counter s + n) = unat (race_counter s) + unat n"
    using race_add(2) eq by (simp add: unat_word_ariths)
  have grant: "amounts (race_granted s) + amounts (map snd (filter (granted_by limit) (race_pending s)))
      + unat n \<le> unat limit" if "granted_by limit (race_counter s, n)"
  proof -
    have "race_counter s + n \<le> limit"
      using that assms(3) by (auto simp: granted_by_def intro: saturating_add_le_no_overflow(2))
    then show ?thesis
      using sum eq amounts_filter_le [of "granted_by limit" "race_pending s"]
      by (simp add: word_le_nat_alt)
  qed
  show ?thesis
    using assms(2) sum grant by (auto simp: race_inv_def race_add(1))
next
  case (race_grant ps c n qs)
  then show ?thesis
    using assms(2) by (auto simp: race_inv_def granted_by_def)
next
  case (race_undo ps c n qs)
  have "unat n \<le> unat (race_counter s)"
    using assms(2) race_undo(2) by (simp add: race_inv_def)
  then have "unat (race_counter s - n) = unat (race_counter s) - unat n"
    by (simp add: unat_sub word_le_nat_alt)
  then show ?thesis
    using assms(2) race_undo by (simp add: race_inv_def granted_by_def)
next
  case (race_release ns n ms)
  have "unat n \<le> unat (race_counter s)"
    using assms(2) race_release(2) by (simp add: race_inv_def)
  then have "unat (race_counter s - n) = unat (race_counter s) - unat n"
    by (simp add: unat_sub word_le_nat_alt)
  then show ?thesis
    using assms(2) race_release by (simp add: race_inv_def)
qed

lemma race_reachable_inv: "race_reachable limit s \<Longrightarrow> limit < - 1 \<Longrightarrow> race_inv limit s"
proof (induction rule: race_reachable.induct)
  case race_start
  then show ?case by (simp add: race_inv_def race_init_def)
next
  case (race_next s t)
  then show ?case by (blast intro: race_step_inv)
qed

text \<open>
  Concurrent reservations cannot oversubscribe.  However the \<open>fetch_add\<close>, compare and
  \<open>fetch_sub\<close> steps of any number of concurrent reservations and releases interleave, the
  reservations that were granted never sum to more than the limit, and once no reservation is in
  flight the atomic counter equals exactly what was granted.
\<close>

lemma concurrent_reservations_within_limit:
  assumes "race_reachable limit s" and "limit < - 1"
  shows "amounts (race_granted s) \<le> unat limit \<and>
         (race_pending s = [] \<longrightarrow> unat (race_counter s) = amounts (race_granted s))"
  using race_reachable_inv [OF assms] by (auto simp: race_inv_def)


lemma race_example:
  "race_reachable 10
     \<lparr>race_counter = 13, race_granted = [6], race_pending = [(6, 7)]\<rparr>"
proof -
  let ?s1 = "\<lparr>race_counter = 6, race_granted = [], race_pending = [(0, 6)]\<rparr> :: race_state"
  let ?s2 = "\<lparr>race_counter = 13, race_granted = [], race_pending = [(6, 7), (0, 6)]\<rparr> :: race_state"
  have "race_reachable 10 ?s1"
    using race_next [OF race_start race_add [of race_init 6]]
    by (simp add: race_init_def)
  then have "race_reachable 10 ?s2"
    using race_next [OF _ race_add [of ?s1 7]] by simp
  then show ?thesis
    using race_next [OF _ race_grant [of ?s2 "[(6, 7)]" 0 6 "[]" 10]]
    by (simp add: saturating_add_def)
qed

end
