(* ===== verification/Numeric.thy ===== *)
theory Numeric
  imports Prelude
begin

text \<open>
  Floating point: \<^verbatim>\<open>galfus-core/src/numeric.rs\<close> and the IEEE-754 operations of \<open>f32\<close> and \<open>f64\<close> that the
  VM uses.  A float is its bit pattern, a 32 or 64 bit word.  The language defines \<open>+\<close>, \<open>-\<close>, \<open>*\<close>, \<open>/\<close>,
  \<open>%\<close>, the comparisons and the \<open>as\<close> conversions exactly (IEEE-754, round to nearest even; \<open>as\<close> from a
  float truncates and saturates), so they are computed here: a pattern is decoded to a signed
  significand and a power of two, the operation is carried out on exact integers or fractions, and
  the result is rounded once.  The payload of a NaN result is the canonical one; the sources
  normalise every result, so no other payload is observable.  \<open>powf\<close> has unspecified precision in
  the standard library and is a parameter where the VM calls it.
\<close>

section \<open>Decoding and rounding\<close>

datatype fp_class = FpNan | FpInf bool | FpFin bool nat int
  \<comment> \<open>sign; \<open>FpFin s m x\<close> is \<open>m * 2 ^ x\<close>, negated when \<open>s\<close>\<close>

text \<open>The formats: number of exponent bits and of stored significand bits.\<close>

definition fp_bias :: "nat \<Rightarrow> int" where
  "fp_bias eb = 2 ^ (eb - 1) - 1"

definition fp_emin :: "nat \<Rightarrow> nat \<Rightarrow> int" where
  "fp_emin eb mb = 1 - fp_bias eb - int mb"

definition fp_decode :: "nat \<Rightarrow> nat \<Rightarrow> nat \<Rightarrow> fp_class" where
  "fp_decode eb mb n =
    (let m = n mod 2 ^ mb; e = (n div 2 ^ mb) mod 2 ^ eb; s = odd (n div 2 ^ (mb + eb)) in
     if e = 2 ^ eb - 1 then (if m = 0 then FpInf s else FpNan)
     else if e = 0 then FpFin s m (fp_emin eb mb)
     else FpFin s (m + 2 ^ mb) (fp_emin eb mb + int e - 1))"

fun nat_log2 :: "nat \<Rightarrow> nat" where
  "nat_log2 n = (if n < 2 then 0 else Suc (nat_log2 (n div 2)))"

declare nat_log2.simps [simp del]

text \<open>\<open>a * 2 ^ x\<close> and \<open>b\<close> as a pair of naturals with the same quotient.\<close>

definition scale_ratio :: "nat \<Rightarrow> nat \<Rightarrow> int \<Rightarrow> nat \<times> nat" where
  "scale_ratio a b x = (if 0 \<le> x then (a * 2 ^ nat x, b) else (a, b * 2 ^ nat (- x)))"

definition round_half_even :: "nat \<Rightarrow> nat \<Rightarrow> nat" where
  "round_half_even a b =
    (let q = a div b; r = a mod b in
     if 2 * r < b then q else if 2 * r > b then q + 1 else if even q then q else q + 1)"

text \<open>The exponent of the last significand bit of \<open>(a / b) * 2 ^ x\<close> in the format.\<close>

definition fp_ulp_exponent :: "nat \<Rightarrow> nat \<Rightarrow> nat \<Rightarrow> nat \<Rightarrow> int \<Rightarrow> int" where
  "fp_ulp_exponent eb mb a b x =
    (let l = int (nat_log2 a) - int (nat_log2 b);
         (u, v) = scale_ratio a b (- l);
         fl = (if v \<le> u then l else l - 1)
     in max (fp_emin eb mb) (fl + x - int mb))"

text \<open>Round the magnitude \<open>(a / b) * 2 ^ x\<close> and attach the sign; overflow gives an infinity.\<close>

definition fp_round :: "nat \<Rightarrow> nat \<Rightarrow> bool \<Rightarrow> nat \<Rightarrow> nat \<Rightarrow> int \<Rightarrow> nat" where
  "fp_round eb mb s a b x =
    (let sign = (if s then 2 ^ (mb + eb) else 0) in
     if a = 0 then sign
     else
       let q = fp_ulp_exponent eb mb a b x;
           (u, v) = scale_ratio a b (x - q);
           n = nat (q - fp_emin eb mb) * 2 ^ mb + round_half_even u v
       in sign + min n ((2 ^ eb - 1) * 2 ^ mb))"

definition fp_nan :: "nat \<Rightarrow> nat \<Rightarrow> nat" where
  "fp_nan eb mb = (2 ^ eb - 1) * 2 ^ mb + 2 ^ (mb - 1)"

definition fp_inf :: "nat \<Rightarrow> nat \<Rightarrow> bool \<Rightarrow> nat" where
  "fp_inf eb mb s = (if s then 2 ^ (mb + eb) else 0) + (2 ^ eb - 1) * 2 ^ mb"

section \<open>Arithmetic\<close>

definition signed :: "bool \<Rightarrow> nat \<Rightarrow> int" where
  "signed s m = (if s then - int m else int m)"

fun fp_add :: "nat \<Rightarrow> nat \<Rightarrow> fp_class \<Rightarrow> fp_class \<Rightarrow> nat" where
  "fp_add eb mb FpNan _ = fp_nan eb mb"
| "fp_add eb mb _ FpNan = fp_nan eb mb"
| "fp_add eb mb (FpInf s) (FpInf t) = (if s = t then fp_inf eb mb s else fp_nan eb mb)"
| "fp_add eb mb (FpInf s) (FpFin _ _ _) = fp_inf eb mb s"
| "fp_add eb mb (FpFin _ _ _) (FpInf t) = fp_inf eb mb t"
| "fp_add eb mb (FpFin s m x) (FpFin t n y) =
    (let z = min x y;
         r = signed s m * 2 ^ nat (x - z) + signed t n * 2 ^ nat (y - z)
     in fp_round eb mb (if r = 0 then s \<and> t else r < 0) (nat \<bar>r\<bar>) 1 z)"

fun fp_negate :: "fp_class \<Rightarrow> fp_class" where
  "fp_negate FpNan = FpNan"
| "fp_negate (FpInf s) = FpInf (\<not> s)"
| "fp_negate (FpFin s m x) = FpFin (\<not> s) m x"

definition fp_sub :: "nat \<Rightarrow> nat \<Rightarrow> fp_class \<Rightarrow> fp_class \<Rightarrow> nat" where
  "fp_sub eb mb a b = fp_add eb mb a (fp_negate b)"

fun fp_mul :: "nat \<Rightarrow> nat \<Rightarrow> fp_class \<Rightarrow> fp_class \<Rightarrow> nat" where
  "fp_mul eb mb FpNan _ = fp_nan eb mb"
| "fp_mul eb mb _ FpNan = fp_nan eb mb"
| "fp_mul eb mb (FpInf s) (FpInf t) = fp_inf eb mb (s \<noteq> t)"
| "fp_mul eb mb (FpInf s) (FpFin t n _) = (if n = 0 then fp_nan eb mb else fp_inf eb mb (s \<noteq> t))"
| "fp_mul eb mb (FpFin s m _) (FpInf t) = (if m = 0 then fp_nan eb mb else fp_inf eb mb (s \<noteq> t))"
| "fp_mul eb mb (FpFin s m x) (FpFin t n y) = fp_round eb mb (s \<noteq> t) (m * n) 1 (x + y)"

fun fp_div :: "nat \<Rightarrow> nat \<Rightarrow> fp_class \<Rightarrow> fp_class \<Rightarrow> nat" where
  "fp_div eb mb FpNan _ = fp_nan eb mb"
| "fp_div eb mb _ FpNan = fp_nan eb mb"
| "fp_div eb mb (FpInf s) (FpInf t) = fp_nan eb mb"
| "fp_div eb mb (FpInf s) (FpFin t _ _) = fp_inf eb mb (s \<noteq> t)"
| "fp_div eb mb (FpFin s _ _) (FpInf t) = (if s \<noteq> t then 2 ^ (mb + eb) else 0)"
| "fp_div eb mb (FpFin s m x) (FpFin t n y) =
    (if n = 0 then (if m = 0 then fp_nan eb mb else fp_inf eb mb (s \<noteq> t))
     else fp_round eb mb (s \<noteq> t) m n (x - y))"

text \<open>\<open>%\<close>: the exact remainder of the truncating division, with the sign of the dividend.\<close>

fun fp_rem :: "nat \<Rightarrow> nat \<Rightarrow> fp_class \<Rightarrow> fp_class \<Rightarrow> nat" where
  "fp_rem eb mb FpNan _ = fp_nan eb mb"
| "fp_rem eb mb _ FpNan = fp_nan eb mb"
| "fp_rem eb mb (FpInf s) _ = fp_nan eb mb"
| "fp_rem eb mb (FpFin s m x) (FpInf t) = fp_round eb mb s m 1 x"
| "fp_rem eb mb (FpFin s m x) (FpFin t n y) =
    (if n = 0 then fp_nan eb mb
     else let z = min x y
          in fp_round eb mb s ((m * 2 ^ nat (x - z)) mod (n * 2 ^ nat (y - z))) 1 z)"

text \<open>The truncated integer value, used by the \<open>as\<close> casts.\<close>

definition fp_trunc :: "bool \<Rightarrow> nat \<Rightarrow> int \<Rightarrow> int" where
  "fp_trunc s m x = signed s (if 0 \<le> x then m * 2 ^ nat x else m div 2 ^ nat (- x))"

section \<open>The types \<open>f32\<close> and \<open>f64\<close>\<close>

type_synonym f32 = "32 word"
type_synonym f64 = "64 word"

definition f32_class :: "f32 \<Rightarrow> fp_class" where "f32_class w = fp_decode 8 23 (unat w)"
definition f64_class :: "f64 \<Rightarrow> fp_class" where "f64_class w = fp_decode 11 52 (unat w)"

definition f32_is_nan :: "f32 \<Rightarrow> bool" where
  "f32_is_nan w \<longleftrightarrow> unat w mod 2 ^ 31 > 255 * 2 ^ 23"

definition f64_is_nan :: "f64 \<Rightarrow> bool" where
  "f64_is_nan w \<longleftrightarrow> unat w mod 2 ^ 63 > 2047 * 2 ^ 52"

definition f32_is_sign_negative :: "f32 \<Rightarrow> bool" where "f32_is_sign_negative w \<longleftrightarrow> 2 ^ 31 \<le> unat w"
definition f64_is_sign_negative :: "f64 \<Rightarrow> bool" where "f64_is_sign_negative w \<longleftrightarrow> 2 ^ 63 \<le> unat w"

text \<open>
  The IEEE order of two patterns that are not NaN is the order of the sign-magnitude integers
  they spell, in which both zeros are 0.
\<close>

definition f32_key :: "f32 \<Rightarrow> int" where
  "f32_key w = signed (f32_is_sign_negative w) (unat w mod 2 ^ 31)"

definition f64_key :: "f64 \<Rightarrow> int" where
  "f64_key w = signed (f64_is_sign_negative w) (unat w mod 2 ^ 63)"

definition f32_eq :: "f32 \<Rightarrow> f32 \<Rightarrow> bool" where
  "f32_eq a b \<longleftrightarrow> \<not> f32_is_nan a \<and> \<not> f32_is_nan b \<and> f32_key a = f32_key b"

definition f64_eq :: "f64 \<Rightarrow> f64 \<Rightarrow> bool" where
  "f64_eq a b \<longleftrightarrow> \<not> f64_is_nan a \<and> \<not> f64_is_nan b \<and> f64_key a = f64_key b"

definition f32_lt :: "f32 \<Rightarrow> f32 \<Rightarrow> bool" where
  "f32_lt a b \<longleftrightarrow> \<not> f32_is_nan a \<and> \<not> f32_is_nan b \<and> f32_key a < f32_key b"

definition f64_lt :: "f64 \<Rightarrow> f64 \<Rightarrow> bool" where
  "f64_lt a b \<longleftrightarrow> \<not> f64_is_nan a \<and> \<not> f64_is_nan b \<and> f64_key a < f64_key b"

definition f32_le :: "f32 \<Rightarrow> f32 \<Rightarrow> bool" where "f32_le a b \<longleftrightarrow> f32_lt a b \<or> f32_eq a b"
definition f64_le :: "f64 \<Rightarrow> f64 \<Rightarrow> bool" where "f64_le a b \<longleftrightarrow> f64_lt a b \<or> f64_eq a b"

definition f32_add :: "f32 \<Rightarrow> f32 \<Rightarrow> f32" where "f32_add a b = of_nat (fp_add 8 23 (f32_class a) (f32_class b))"
definition f32_sub :: "f32 \<Rightarrow> f32 \<Rightarrow> f32" where "f32_sub a b = of_nat (fp_sub 8 23 (f32_class a) (f32_class b))"
definition f32_mul :: "f32 \<Rightarrow> f32 \<Rightarrow> f32" where "f32_mul a b = of_nat (fp_mul 8 23 (f32_class a) (f32_class b))"
definition f32_div :: "f32 \<Rightarrow> f32 \<Rightarrow> f32" where "f32_div a b = of_nat (fp_div 8 23 (f32_class a) (f32_class b))"
definition f32_rem :: "f32 \<Rightarrow> f32 \<Rightarrow> f32" where "f32_rem a b = of_nat (fp_rem 8 23 (f32_class a) (f32_class b))"
definition f32_neg :: "f32 \<Rightarrow> f32" where "f32_neg a = a + 0x80000000"

definition f64_add :: "f64 \<Rightarrow> f64 \<Rightarrow> f64" where "f64_add a b = of_nat (fp_add 11 52 (f64_class a) (f64_class b))"
definition f64_sub :: "f64 \<Rightarrow> f64 \<Rightarrow> f64" where "f64_sub a b = of_nat (fp_sub 11 52 (f64_class a) (f64_class b))"
definition f64_mul :: "f64 \<Rightarrow> f64 \<Rightarrow> f64" where "f64_mul a b = of_nat (fp_mul 11 52 (f64_class a) (f64_class b))"
definition f64_div :: "f64 \<Rightarrow> f64 \<Rightarrow> f64" where "f64_div a b = of_nat (fp_div 11 52 (f64_class a) (f64_class b))"
definition f64_rem :: "f64 \<Rightarrow> f64 \<Rightarrow> f64" where "f64_rem a b = of_nat (fp_rem 11 52 (f64_class a) (f64_class b))"
definition f64_neg :: "f64 \<Rightarrow> f64" where "f64_neg a = a + 0x8000000000000000"

text \<open>The \<open>as\<close> conversions: integer to float rounds; float to float rounds; float to integer
  truncates and saturates at the bounds of the target, with NaN going to 0.\<close>

definition f32_of_int :: "int \<Rightarrow> f32" where
  "f32_of_int i = of_nat (fp_round 8 23 (i < 0) (nat \<bar>i\<bar>) 1 0)"

definition f64_of_int :: "int \<Rightarrow> f64" where
  "f64_of_int i = of_nat (fp_round 11 52 (i < 0) (nat \<bar>i\<bar>) 1 0)"

fun fp_convert :: "nat \<Rightarrow> nat \<Rightarrow> fp_class \<Rightarrow> nat" where
  "fp_convert eb mb FpNan = fp_nan eb mb"
| "fp_convert eb mb (FpInf s) = fp_inf eb mb s"
| "fp_convert eb mb (FpFin s m x) = fp_round eb mb s m 1 x"

definition f64_of_f32 :: "f32 \<Rightarrow> f64" where "f64_of_f32 w = of_nat (fp_convert 11 52 (f32_class w))"
definition f32_of_f64 :: "f64 \<Rightarrow> f32" where "f32_of_f64 w = of_nat (fp_convert 8 23 (f64_class w))"

fun fp_to_int :: "int \<Rightarrow> int \<Rightarrow> fp_class \<Rightarrow> int" where
  "fp_to_int lo hi FpNan = 0"
| "fp_to_int lo hi (FpInf s) = (if s then lo else hi)"
| "fp_to_int lo hi (FpFin s m x) = max lo (min hi (fp_trunc s m x))"

section \<open>Normalisation\<close>

definition CANONICAL_F32_NAN :: u32 where "CANONICAL_F32_NAN = 0x7FC00000"
definition CANONICAL_F64_NAN :: u64 where "CANONICAL_F64_NAN = 0x7FF8000000000000"

definition normalize_f32 :: "f32 \<Rightarrow> f32" where
  "normalize_f32 v =
    (if f32_is_nan v then CANONICAL_F32_NAN
     else if f32_eq v 0 \<and> f32_is_sign_negative v then 0 else v)"

definition normalize_f64 :: "f64 \<Rightarrow> f64" where
  "normalize_f64 v =
    (if f64_is_nan v then CANONICAL_F64_NAN
     else if f64_eq v 0 \<and> f64_is_sign_negative v then 0 else v)"

definition canonical_f32 :: "f32 \<Rightarrow> bool" where
  "canonical_f32 v \<longleftrightarrow> v \<noteq> 0x80000000 \<and> (f32_is_nan v \<longrightarrow> v = CANONICAL_F32_NAN)"

definition canonical_f64 :: "f64 \<Rightarrow> bool" where
  "canonical_f64 v \<longleftrightarrow> v \<noteq> 0x8000000000000000 \<and> (f64_is_nan v \<longrightarrow> v = CANONICAL_F64_NAN)"


lemma sign_magnitude_eq:
  fixes u v k :: nat
  assumes "u < 2 * k" and "v < 2 * k"
  shows "signed (k \<le> u) (if u < k then u else u - k) = signed (k \<le> v) (if v < k then v else v - k) \<longleftrightarrow>
         u = v \<or> ((u = 0 \<or> u = k) \<and> (v = 0 \<or> v = k))"
  using assms by (auto simp: signed_def)

lemma f32_magnitude:
  "unat w mod 2 ^ 31 = (if unat w < 2 ^ 31 then unat w else unat w - 2 ^ 31)" for w :: f32
proof -
  have "unat w < 2 ^ 32" using unsigned_less [of w] by simp
  then show ?thesis by (simp add: mod_if)
qed

lemma f32_key_eq_iff:
  "f32_key a = f32_key b \<longleftrightarrow> a = b \<or> (a \<in> {0, 0x80000000} \<and> b \<in> {0, 0x80000000})"
proof -
  have b: "unat a < 2 ^ 32" "unat b < 2 ^ 32"
    using unsigned_less [of a] unsigned_less [of b] by simp_all
  have "f32_key a = f32_key b \<longleftrightarrow>
        unat a = unat b \<or> ((unat a = 0 \<or> unat a = 2 ^ 31) \<and> (unat b = 0 \<or> unat b = 2 ^ 31))"
    using sign_magnitude_eq [of "unat a" "2 ^ 31" "unat b"] b
    unfolding f32_key_def f32_is_sign_negative_def f32_magnitude by simp
  moreover have "unat w = 2 ^ 31 \<longleftrightarrow> w = 0x80000000" for w :: f32
    using word_unat_eq_iff [of w "0x80000000"] by simp
  ultimately show ?thesis
    using word_unat_eq_iff [of a b] by (simp add: unat_eq_zero)
qed

lemma f32_negative_zero_iff:
  "\<not> f32_is_nan v \<Longrightarrow> f32_eq v 0 \<and> f32_is_sign_negative v \<longleftrightarrow> v = 0x80000000"
  by (auto simp: f32_eq_def f32_key_eq_iff f32_is_sign_negative_def f32_is_nan_def)

lemma normalize_f32_cases:
  "normalize_f32 v = (if f32_is_nan v then CANONICAL_F32_NAN else if v = 0x80000000 then 0 else v)"
  by (simp add: normalize_f32_def f32_negative_zero_iff)

lemma canonical_normalize_f32 [simp]: "canonical_f32 (normalize_f32 v)"
  by (simp add: normalize_f32_cases canonical_f32_def CANONICAL_F32_NAN_def f32_is_nan_def)

lemma normalize_f32_id_iff: "normalize_f32 v = v \<longleftrightarrow> canonical_f32 v"
proof
  show "normalize_f32 v = v \<Longrightarrow> canonical_f32 v"
    by (metis canonical_normalize_f32)
  show "canonical_f32 v \<Longrightarrow> normalize_f32 v = v"
    by (auto simp: normalize_f32_cases canonical_f32_def)
qed

lemma normalize_f32_meaning:
  "f32_is_nan (normalize_f32 v) = f32_is_nan v" "f32_is_nan v \<or> f32_eq (normalize_f32 v) v"
  by (auto simp: normalize_f32_cases f32_eq_def f32_key_eq_iff f32_is_nan_def CANONICAL_F32_NAN_def)

lemma normalize_f32_eq_iff:
  "normalize_f32 a = normalize_f32 b \<longleftrightarrow> f32_eq a b \<or> (f32_is_nan a \<and> f32_is_nan b)"
proof (cases "f32_is_nan a \<or> f32_is_nan b")
  case True
  then show ?thesis
    using normalize_f32_meaning(1) [of a] normalize_f32_meaning(1) [of b]
    by (auto simp: f32_eq_def normalize_f32_cases [of a] normalize_f32_cases [of b])
next
  case False
  then show ?thesis
    by (auto simp: f32_eq_def f32_key_eq_iff normalize_f32_cases)
qed

lemma canonical_f32_eq_iff:
  "canonical_f32 a \<Longrightarrow> canonical_f32 b \<Longrightarrow> f32_eq a b \<longleftrightarrow> a = b \<and> \<not> f32_is_nan a"
  by (auto simp: f32_eq_def f32_key_eq_iff canonical_f32_def)

lemma f64_magnitude:
  "unat w mod 2 ^ 63 = (if unat w < 2 ^ 63 then unat w else unat w - 2 ^ 63)" for w :: f64
proof -
  have "unat w < 2 ^ 64" using unsigned_less [of w] by simp
  then show ?thesis by (simp add: mod_if)
qed

lemma f64_key_eq_iff:
  "f64_key a = f64_key b \<longleftrightarrow> a = b \<or> (a \<in> {0, 0x8000000000000000} \<and> b \<in> {0, 0x8000000000000000})"
proof -
  have b: "unat a < 2 ^ 64" "unat b < 2 ^ 64"
    using unsigned_less [of a] unsigned_less [of b] by simp_all
  have "f64_key a = f64_key b \<longleftrightarrow>
        unat a = unat b \<or> ((unat a = 0 \<or> unat a = 2 ^ 63) \<and> (unat b = 0 \<or> unat b = 2 ^ 63))"
    using sign_magnitude_eq [of "unat a" "2 ^ 63" "unat b"] b
    unfolding f64_key_def f64_is_sign_negative_def f64_magnitude by simp
  moreover have "unat w = 2 ^ 63 \<longleftrightarrow> w = 0x8000000000000000" for w :: f64
    using word_unat_eq_iff [of w "0x8000000000000000"] by simp
  ultimately show ?thesis
    using word_unat_eq_iff [of a b] by (simp add: unat_eq_zero)
qed

lemma f64_negative_zero_iff:
  "\<not> f64_is_nan v \<Longrightarrow> f64_eq v 0 \<and> f64_is_sign_negative v \<longleftrightarrow> v = 0x8000000000000000"
  by (auto simp: f64_eq_def f64_key_eq_iff f64_is_sign_negative_def f64_is_nan_def)

lemma normalize_f64_cases:
  "normalize_f64 v = (if f64_is_nan v then CANONICAL_F64_NAN else if v = 0x8000000000000000 then 0 else v)"
  by (simp add: normalize_f64_def f64_negative_zero_iff)

lemma canonical_normalize_f64 [simp]: "canonical_f64 (normalize_f64 v)"
  by (simp add: normalize_f64_cases canonical_f64_def CANONICAL_F64_NAN_def f64_is_nan_def)

lemma normalize_f64_id_iff: "normalize_f64 v = v \<longleftrightarrow> canonical_f64 v"
proof
  show "normalize_f64 v = v \<Longrightarrow> canonical_f64 v"
    by (metis canonical_normalize_f64)
  show "canonical_f64 v \<Longrightarrow> normalize_f64 v = v"
    by (auto simp: normalize_f64_cases canonical_f64_def)
qed

lemma normalize_f64_meaning:
  "f64_is_nan (normalize_f64 v) = f64_is_nan v" "f64_is_nan v \<or> f64_eq (normalize_f64 v) v"
  by (auto simp: normalize_f64_cases f64_eq_def f64_key_eq_iff f64_is_nan_def CANONICAL_F64_NAN_def)

lemma normalize_f64_eq_iff:
  "normalize_f64 a = normalize_f64 b \<longleftrightarrow> f64_eq a b \<or> (f64_is_nan a \<and> f64_is_nan b)"
proof (cases "f64_is_nan a \<or> f64_is_nan b")
  case True
  then show ?thesis
    using normalize_f64_meaning(1) [of a] normalize_f64_meaning(1) [of b]
    by (auto simp: f64_eq_def normalize_f64_cases [of a] normalize_f64_cases [of b])
next
  case False
  then show ?thesis
    by (auto simp: f64_eq_def f64_key_eq_iff normalize_f64_cases)
qed

lemma canonical_f64_eq_iff:
  "canonical_f64 a \<Longrightarrow> canonical_f64 b \<Longrightarrow> f64_eq a b \<longleftrightarrow> a = b \<and> \<not> f64_is_nan a"
  by (auto simp: f64_eq_def f64_key_eq_iff canonical_f64_def)

text \<open>
  Normalisation picks one representative per value.  For every bit pattern the normalised
  float is a fixed point of normalisation, is a NaN exactly when the input is one and otherwise
  equal to it under IEEE \<open>==\<close>; and two floats with the same IEEE meaning (both NaN, or equal)
  normalise to the same bits.  So neither a second NaN payload nor \<open>-0.0\<close> survives.
\<close>

lemma normalize_canonical_representative:
  "normalize_f32 (normalize_f32 a) = normalize_f32 a \<and>
   f32_is_nan (normalize_f32 a) = f32_is_nan a \<and>
   (f32_is_nan a \<or> f32_eq (normalize_f32 a) a) \<and>
   (normalize_f32 a = normalize_f32 b \<longleftrightarrow> f32_eq a b \<or> (f32_is_nan a \<and> f32_is_nan b)) \<and>
   normalize_f64 (normalize_f64 x) = normalize_f64 x \<and>
   f64_is_nan (normalize_f64 x) = f64_is_nan x \<and>
   (f64_is_nan x \<or> f64_eq (normalize_f64 x) x) \<and>
   (normalize_f64 x = normalize_f64 y \<longleftrightarrow> f64_eq x y \<or> (f64_is_nan x \<and> f64_is_nan y))"
  by (simp add: normalize_f32_meaning normalize_f64_meaning normalize_f32_eq_iff normalize_f64_eq_iff
      normalize_f32_id_iff normalize_f64_id_iff)

end
