(* ===== verification/Source_Text.thy ===== *)
theory Source_Text
  imports Prelude
begin

text \<open>
  Source files, spans and diagnostics, \<^verbatim>\<open>galfus-core/src/source.rs\<close>, \<^verbatim>\<open>galfus-core/src/span.rs\<close> and
  \<^verbatim>\<open>galfus-core/src/diagnostic.rs\<close>.

  A Rust \<open>char\<close> is a Unicode scalar value, here its number; a \<open>str\<close> is the list of its characters,
  and byte offsets count the bytes of their UTF-8 encoding.  Offsets are natural numbers: a \<open>str\<close> is at most \<open>isize::MAX\<close>
  bytes long, so no offset computed here overflows \<open>usize\<close>.
\<close>

section \<open>Text\<close>

type_synonym uchar = nat
type_synonym utext = "uchar list"

abbreviation ch :: "char \<Rightarrow> uchar" where
  "ch c \<equiv> of_char c"

abbreviation newline :: uchar where
  "newline \<equiv> 10"

abbreviation carriage_return :: uchar where
  "carriage_return \<equiv> 13"

definition len_utf8 :: "uchar \<Rightarrow> nat" where
  "len_utf8 c = (if c < 128 then 1 else if c < 2048 then 2 else if c < 65536 then 3 else 4)"

text \<open>The bytes of a character; bytes after the first are \<open>128\<close> or larger.\<close>

definition encode_utf8 :: "uchar \<Rightarrow> nat list" where
  "encode_utf8 c =
    (if c < 128 then [c]
     else if c < 2048 then [192 + c div 64, 128 + c mod 64]
     else if c < 65536 then [224 + c div 4096, 128 + c div 64 mod 64, 128 + c mod 64]
     else [240 + c div 262144, 128 + c div 4096 mod 64, 128 + c div 64 mod 64, 128 + c mod 64])"

definition as_utf8 :: "utext \<Rightarrow> nat list" where
  "as_utf8 cs = concat (map encode_utf8 cs)"

definition utf8_len :: "utext \<Rightarrow> nat" where
  "utf8_len cs = sum_list (map len_utf8 cs)"

lemma utf8_len_simps [simp]:
  "utf8_len [] = 0" "utf8_len (c # cs) = len_utf8 c + utf8_len cs" "utf8_len (cs @ ds) = utf8_len cs + utf8_len ds"
  by (simp_all add: utf8_len_def)

lemma len_utf8_pos [simp]: "0 < len_utf8 c"
  by (simp add: len_utf8_def)

lemma utf8_len_eq_0 [simp]: "utf8_len cs = 0 \<longleftrightarrow> cs = []"
  by (cases cs) auto

lemma length_encode_utf8 [simp]: "length (encode_utf8 c) = len_utf8 c"
  by (simp add: encode_utf8_def len_utf8_def)

lemma as_utf8_simps [simp]:
  "as_utf8 [] = []" "as_utf8 (c # cs) = encode_utf8 c @ as_utf8 cs" "as_utf8 (cs @ ds) = as_utf8 cs @ as_utf8 ds"
  by (simp_all add: as_utf8_def)

lemma length_as_utf8 [simp]: "length (as_utf8 cs) = utf8_len cs"
  by (induction cs) simp_all

text \<open>The characters from a byte offset on, and \<open>str::get(a..b)\<close>: \<open>None\<close> when an end is not between two characters.\<close>

fun text_from :: "nat \<Rightarrow> utext \<Rightarrow> utext option" where
  "text_from n [] = (if n = 0 then Some [] else None)"
| "text_from n (c # cs) =
    (if n = 0 then Some (c # cs) else if n < len_utf8 c then None else text_from (n - len_utf8 c) cs)"

fun text_upto :: "nat \<Rightarrow> utext \<Rightarrow> utext option" where
  "text_upto n [] = (if n = 0 then Some [] else None)"
| "text_upto n (c # cs) =
    (if n = 0 then Some [] else if n < len_utf8 c then None else map_option (Cons c) (text_upto (n - len_utf8 c) cs))"

definition str_get :: "nat \<Rightarrow> nat \<Rightarrow> utext \<Rightarrow> utext option" where
  "str_get a b cs = (if b < a then None else Option.bind (text_from a cs) (text_upto (b - a)))"

lemma text_from_append [simp]: "text_from (utf8_len cs) (cs @ ds) = Some ds"
proof (induction cs)
  case Nil
  then show ?case by (cases ds) auto
qed simp

lemma text_upto_append [simp]: "text_upto (utf8_len cs) (cs @ ds) = Some cs"
proof (induction cs)
  case Nil
  then show ?case by (cases ds) auto
qed simp

lemma str_get_middle: "str_get (utf8_len xs) (utf8_len xs + utf8_len ys) (xs @ ys @ zs) = Some ys"
  by (simp add: str_get_def)

section \<open>Spans\<close>

type_synonym SourceId = u32

record Span =
  sp_source_id :: SourceId
  sp_start :: nat
  sp_end :: nat

definition new_span :: "SourceId \<Rightarrow> nat \<Rightarrow> nat \<Rightarrow> Span" where
  "new_span source_id start end' = \<lparr>sp_source_id = source_id, sp_start = start, sp_end = end'\<rparr>"

definition empty_span :: "SourceId \<Rightarrow> nat \<Rightarrow> Span" where
  "empty_span source_id offset = \<lparr>sp_source_id = source_id, sp_start = offset, sp_end = offset\<rparr>"

definition span_len :: "Span \<Rightarrow> nat" where
  "span_len s = sp_end s - sp_start s"

definition span_is_empty :: "Span \<Rightarrow> bool" where
  "span_is_empty s \<longleftrightarrow> sp_start s = sp_end s"

definition span_contains :: "Span \<Rightarrow> nat \<Rightarrow> bool" where
  "span_contains s offset \<longleftrightarrow> sp_start s \<le> offset \<and> offset < sp_end s"

definition checked_new_span :: "SourceId \<Rightarrow> nat \<Rightarrow> nat \<Rightarrow> Span option" where
  "checked_new_span source_id start end' = (if start \<le> end' then Some (new_span source_id start end') else None)"

definition cover :: "Span \<Rightarrow> Span \<Rightarrow> Span option" where
  "cover s t =
    (if sp_source_id s \<noteq> sp_source_id t then None
     else Some \<lparr>sp_source_id = sp_source_id s, sp_start = min (sp_start s) (sp_start t), sp_end = max (sp_end s) (sp_end t)\<rparr>)"

text \<open>\<open>cover\<close> is the least span that contains both.\<close>

lemma cover_least:
  assumes "cover s t = Some u"
  shows "span_contains s i \<or> span_contains t i \<Longrightarrow> span_contains u i"
    and "sp_start v \<le> sp_start s \<Longrightarrow> sp_start v \<le> sp_start t \<Longrightarrow> sp_end s \<le> sp_end v \<Longrightarrow> sp_end t \<le> sp_end v \<Longrightarrow>
      sp_start v \<le> sp_start u \<and> sp_end u \<le> sp_end v"
  using assms by (auto simp: cover_def span_contains_def split: if_splits)

section \<open>Diagnostics\<close>

datatype DiagnosticSeverity = SeverityError | SeverityWarning | SeverityInfo | SeverityHint

record Diagnostic =
  dg_severity :: DiagnosticSeverity
  dg_code :: string
  dg_message :: string
  dg_span :: Span

type_synonym DiagnosticBag = "Diagnostic list"

definition diagnostic_error :: "string \<times> string \<Rightarrow> Span \<Rightarrow> Diagnostic" where
  "diagnostic_error code_message span =
    \<lparr>dg_severity = SeverityError, dg_code = fst code_message, dg_message = snd code_message, dg_span = span\<rparr>"

definition is_error :: "Diagnostic \<Rightarrow> bool" where
  "is_error d \<longleftrightarrow> dg_severity d = SeverityError"

definition has_errors :: "DiagnosticBag \<Rightarrow> bool" where
  "has_errors ds \<longleftrightarrow> (\<exists>d\<in>set ds. is_error d)"

lemma is_error_diagnostic [simp]: "is_error (diagnostic_error c s)"
  by (simp add: is_error_def diagnostic_error_def)

section \<open>Source files\<close>

record RowCol =
  rc_row :: nat
  rc_column :: nat

record SourceFile =
  sf_id :: SourceId
  sf_name :: utext
  sf_text :: utext
  sf_row_starts :: "nat list"

fun newline_starts :: "nat \<Rightarrow> nat list \<Rightarrow> nat list" where
  "newline_starts i [] = []"
| "newline_starts i (b # bs) = (if b = 10 then [i + 1] else []) @ newline_starts (i + 1) bs"

definition new_source :: "SourceId \<Rightarrow> utext \<Rightarrow> utext \<Rightarrow> SourceFile" where
  "new_source source_id name txt =
    \<lparr>sf_id = source_id, sf_name = name, sf_text = txt, sf_row_starts = 0 # newline_starts 0 (as_utf8 txt)\<rparr>"

definition source_len :: "SourceFile \<Rightarrow> nat" where
  "source_len f = utf8_len (sf_text f)"

text \<open>\<open>slice::binary_search\<close> on a strictly sorted slice: the position of the element, or where it would have to be inserted.\<close>

definition binary_search :: "nat list \<Rightarrow> nat \<Rightarrow> nat + nat" where
  "binary_search xs x =
    (let i = length (takeWhile (\<lambda>y. y < x) xs) in if i < length xs \<and> xs ! i = x then Inr i else Inl i)"

definition row_col :: "SourceFile \<Rightarrow> nat \<Rightarrow> RowCol option" where
  "row_col f offset =
    (if offset > source_len f then None
     else
       let found = (\<lambda>index. Some \<lparr>rc_row = index + 1, rc_column = offset - sf_row_starts f ! index + 1\<rparr>) in
       case binary_search (sf_row_starts f) offset of
         Inr i \<Rightarrow> found i
       | Inl i \<Rightarrow> if i = 0 then None else found (i - 1))"

text \<open>Rows, columns and offsets are natural numbers; the sum wraps in the source only for a column beyond every text in memory.\<close>

definition source_offset :: "SourceFile \<Rightarrow> RowCol \<Rightarrow> nat option" where
  "source_offset f rc =
    (if rc_row rc = 0 \<or> rc_column rc = 0 then None
     else map_option (\<lambda>row_start. row_start + (rc_column rc - 1)) (list_get (sf_row_starts f) (rc_row rc - 1)))"

definition source_slice :: "SourceFile \<Rightarrow> Span \<Rightarrow> utext option" where
  "source_slice f span = (if sp_source_id span \<noteq> sf_id f then None else str_get (sp_start span) (sp_end span) (sf_text f))"

definition source_span :: "SourceFile \<Rightarrow> Span" where
  "source_span f = new_span (sf_id f) 0 (source_len f)"

section \<open>Rows and columns\<close>

lemma newline_starts_bounds: "x \<in> set (newline_starts i bs) \<Longrightarrow> i < x \<and> x \<le> i + length bs"
  by (induction bs arbitrary: i) (force split: if_splits)+

lemma newline_starts_sorted: "sorted_wrt (<) (newline_starts i bs)"
  by (induction bs arbitrary: i) (auto dest: newline_starts_bounds)

lemma newline_starts_append: "newline_starts i (bs @ cs) = newline_starts i bs @ newline_starts (i + length bs) cs"
  by (induction bs arbitrary: i) simp_all

lemma newline_starts_count: "length (newline_starts i bs) = count_list bs 10"
  by (induction bs arbitrary: i) simp_all

lemma newline_starts_last: "last (0 # newline_starts 0 bs) + length (takeWhile (\<lambda>b. b \<noteq> 10) (rev bs)) = length bs"
proof (induction bs rule: rev_induct)
  case (snoc b bs)
  then show ?case by (auto simp: newline_starts_append split: if_splits)
qed simp

text \<open>The row starts up to a position are those of the text before it.\<close>

lemma starts_upto:
  "takeWhile (\<lambda>y. y \<le> length bs) (0 # newline_starts 0 (bs @ cs)) = 0 # newline_starts 0 bs"
proof -
  have "\<forall>y\<in>set (newline_starts 0 bs). y \<le> length bs" using newline_starts_bounds [of _ 0 bs] by auto
  moreover have "\<forall>y\<in>set (newline_starts (length bs) cs). \<not> y \<le> length bs" using newline_starts_bounds [of _ "length bs" cs] by force
  then have "takeWhile (\<lambda>y. y \<le> length bs) (newline_starts (length bs) cs) = []"
    by (cases "newline_starts (length bs) cs") auto
  ultimately show ?thesis by (simp add: newline_starts_append takeWhile_append)
qed

definition starts_ok :: "nat list \<Rightarrow> bool" where
  "starts_ok xs \<longleftrightarrow> sorted_wrt (<) xs \<and> xs \<noteq> [] \<and> hd xs = 0"

lemma source_starts_ok: "starts_ok (sf_row_starts (new_source i n t))"
  using newline_starts_bounds [of _ 0 "as_utf8 t"] newline_starts_sorted [of 0 "as_utf8 t"]
  by (auto simp: new_source_def starts_ok_def)

lemma takeWhile_less_le:
  "sorted_wrt (<) xs \<Longrightarrow>
   length (takeWhile (\<lambda>y. y \<le> x) xs) = length (takeWhile (\<lambda>y. y < (x::nat)) xs)
     + (if length (takeWhile (\<lambda>y. y < x) xs) < length xs \<and> xs ! length (takeWhile (\<lambda>y. y < x) xs) = x then 1 else 0)"
proof (induction xs)
  case (Cons a xs)
  have "a = x \<Longrightarrow> takeWhile (\<lambda>y. y \<le> x) xs = []" using Cons.prems by (cases xs) auto
  with Cons show ?case by (auto simp: not_le)
qed simp

text \<open>The row is found by counting the row starts up to the offset.\<close>

lemma row_col_index:
  assumes "starts_ok (sf_row_starts f)" "x \<le> source_len f"
  shows "row_col f x =
    (let i = length (takeWhile (\<lambda>y. y \<le> x) (sf_row_starts f)) in
     Some \<lparr>rc_row = i, rc_column = x - sf_row_starts f ! (i - 1) + 1\<rparr>)"
  using takeWhile_less_le [of "sf_row_starts f" x] assms
  by (cases "sf_row_starts f") (auto simp: row_col_def binary_search_def Let_def starts_ok_def split: if_splits)

lemma encode_newline: "count_list (encode_utf8 c) 10 = (if c = newline then 1 else 0)"
proof -
  have large: "192 + c div 64 \<noteq> 10" "128 + c mod 64 \<noteq> 10" for c :: nat by auto
  then show ?thesis by (auto simp: encode_utf8_def)
qed

lemma as_utf8_newlines: "count_list (as_utf8 cs) 10 = count_list cs newline"
  by (induction cs) (auto simp: encode_newline)

text \<open>
  C37 (rows and columns are positions in the text).  For a text cut at any character, the row of that offset is
  one more than the number of line feeds before it, the column one more than the number of bytes since the last
  of them, and \<open>offset\<close> maps row and column back to the offset.  Offsets behind the end have no position.
\<close>

theorem row_col_roundtrip:
  "(case row_col (new_source i n (xs @ ys)) (utf8_len xs) of
      None \<Rightarrow> False
    | Some rc \<Rightarrow> source_offset (new_source i n (xs @ ys)) rc = Some (utf8_len xs)
        \<and> rc_row rc = count_list xs newline + 1
        \<and> rc_column rc = length (takeWhile (\<lambda>b. b \<noteq> 10) (rev (as_utf8 xs))) + 1) \<and>
   row_col (new_source i n (xs @ ys)) (utf8_len (xs @ ys) + Suc k) = None"
proof -
  let ?f = "new_source i n (xs @ ys)"
  let ?starts = "0 # newline_starts 0 (as_utf8 xs)"
  have upto: "takeWhile (\<lambda>y. y \<le> utf8_len xs) (sf_row_starts ?f) = ?starts"
    using starts_upto [of "as_utf8 xs" "as_utf8 ys"] by (simp add: new_source_def)
  have len: "utf8_len xs \<le> source_len ?f" by (simp add: source_len_def new_source_def)
  have nth: "sf_row_starts ?f ! (length ?starts - 1) = last ?starts" "length ?starts - 1 < length (sf_row_starts ?f)"
    using takeWhile_nth [of "length ?starts - 1" "\<lambda>y. y \<le> utf8_len xs" "sf_row_starts ?f"] upto
      length_takeWhile_le [of "\<lambda>y. y \<le> utf8_len xs" "sf_row_starts ?f"]
    by (simp_all only: last_conv_nth [OF list.distinct(2)] upto) simp_all
  have last: "last ?starts + length (takeWhile (\<lambda>b. b \<noteq> 10) (rev (as_utf8 xs))) = utf8_len xs"
    using newline_starts_last [of "as_utf8 xs"] by simp
  have rc: "row_col ?f (utf8_len xs) =
      Some \<lparr>rc_row = length ?starts, rc_column = utf8_len xs - last ?starts + 1\<rparr>"
    using row_col_index [OF source_starts_ok len] unfolding upto Let_def nth(1) .
  have "source_offset ?f \<lparr>rc_row = length ?starts, rc_column = utf8_len xs - last ?starts + 1\<rparr> = Some (utf8_len xs)"
    using nth last by (simp add: source_offset_def list_get_def)
  moreover have "row_col ?f (utf8_len (xs @ ys) + Suc k) = None"
    by (simp add: row_col_def source_len_def new_source_def)
  ultimately show ?thesis
    using last by (simp add: rc newline_starts_count as_utf8_newlines)
qed

end
