(* ===== verification/Vm_Value.thy ===== *)
theory Vm_Value
  imports Numeric Quota Source_Text
begin

text \<open>
  The data of the virtual machine: values, heap objects, errors and the operands of instructions
  (\<^verbatim>\<open>galfus-vm/src/runtime.rs\<close>, \<^verbatim>\<open>galfus-vm/src/error.rs\<close>, \<^verbatim>\<open>galfus-bytecode/src/instruction.rs\<close>,
  \<^verbatim>\<open>galfus-bytecode/src/lib.rs\<close>).  Identifiers and table indexes are newtypes over \<open>u32\<close> and \<open>u16\<close>
  and appear as those words.

  Signed integers are words of their width.  A \<open>Vec\<close> inside a heap object carries its capacity,
  because \<open>HeapObject::heap_bytes\<close> charges for it.  The \<open>found\<close> text of a type mismatch is the
  \<open>Debug\<close> output of the offending data and is kept as that data.
\<close>

section \<open>Identifiers\<close>

type_synonym ModuleId = u32
type_synonym ThreadId = u32
type_synonym FutureId = u32
type_synonym RequestId = u32
type_synonym BindingId = u32
type_synonym HandleId = u32
type_synonym Reg = u16
type_synonym ConstIdx = u16
type_synonym TypeIdx = u16
type_synonym FuncIdx = u16
type_synonym GlobalIdx = u16
type_synonym FieldIdx = u16
type_synonym StructLayoutIdx = u16
type_synonym ChoiceLayoutIdx = u16

record OpaqueTypeId =
  proxy_module :: string
  opaque_name :: string

section \<open>Values and objects\<close>

record VmObjectRef =
  ref_index :: u32
  ref_generation :: u32

definition new_ref :: "u32 \<Rightarrow> u32 \<Rightarrow> VmObjectRef" where
  "new_ref i g = \<lparr>ref_index = i, ref_generation = g\<rparr>"

datatype VmValue =
    Null
  | Bool bool
  | Int8 u8 | Int16 u16 | Int32 u32 | Int64 u64
  | Uint8 u8 | Uint16 u16 | Uint32 u32 | Uint64 u64
  | Future FutureId
  | Float32 f32 | Float64 f64
  | Object VmObjectRef
  | Function ModuleId FuncIdx

text \<open>
  The derived \<open>PartialEq\<close>: constructors and fields agree, with IEEE equality on floats.
\<close>

fun value_eq :: "VmValue \<Rightarrow> VmValue \<Rightarrow> bool" where
  "value_eq (Float32 a) (Float32 b) = f32_eq a b"
| "value_eq (Float64 a) (Float64 b) = f64_eq a b"
| "value_eq a b = (a = b)"

datatype HeapObject =
    StructObj ModuleId StructLayoutIdx "VmValue list" usize  \<comment> \<open>fields and their capacity\<close>
  | ArrayObj ModuleId TypeIdx "VmValue list" usize           \<comment> \<open>elements and their capacity\<close>
  | TupleObj "VmValue list" usize
  | ChoiceObj ModuleId ChoiceLayoutIdx u16 VmValue
  | AdapterHandleObj BindingId OpaqueTypeId HandleId

text \<open>
  What the Rust compiler and the standard library fix outside the sources: the sizes of the two
  types, the iteration order of a \<open>HashSet<usize>\<close>, a \<open>HashSet<VmObjectRef>\<close> and a \<open>HashMap<ModuleId, _>\<close>, the capacity of a vector
  filled by pushing that many elements, and the depth of recursive calls the native stack allows.
\<close>

record HostEnv =
  size_of_heap_object :: usize
  size_of_value :: usize
  hash_order :: "nat set \<Rightarrow> nat list"
  ref_order :: "VmObjectRef set \<Rightarrow> VmObjectRef list"
  module_order :: "ModuleId set \<Rightarrow> ModuleId list"
  grown_capacity :: "nat \<Rightarrow> usize"
  native_stack :: nat

text \<open>What the code relies on: iterating a hash set visits each element once.\<close>

definition hash_order_ok :: "HostEnv \<Rightarrow> bool" where
  "hash_order_ok env \<longleftrightarrow>
     (\<forall>S. finite S \<longrightarrow> distinct (hash_order env S) \<and> set (hash_order env S) = S)"

definition ref_order_ok :: "HostEnv \<Rightarrow> bool" where
  "ref_order_ok env \<longleftrightarrow>
     (\<forall>S. finite S \<longrightarrow> distinct (ref_order env S) \<and> set (ref_order env S) = S)"

definition module_order_ok :: "HostEnv \<Rightarrow> bool" where
  "module_order_ok env \<longleftrightarrow>
     (\<forall>S. finite S \<longrightarrow> distinct (module_order env S) \<and> set (module_order env S) = S)"

text \<open>An order of references for concrete hosts: by index, then by generation.\<close>

definition encode_ref :: "VmObjectRef \<Rightarrow> nat" where
  "encode_ref r = unat (ref_index r) * 2 ^ 32 + unat (ref_generation r)"

definition decode_ref :: "nat \<Rightarrow> VmObjectRef" where
  "decode_ref n = \<lparr>ref_index = of_nat (n div 2 ^ 32), ref_generation = of_nat (n mod 2 ^ 32)\<rparr>"

definition refs_in_order :: "VmObjectRef set \<Rightarrow> VmObjectRef list" where
  "refs_in_order S = map decode_ref (sorted_list_of_set (encode_ref ` S))"

lemma decode_encode_ref [simp]: "decode_ref (encode_ref r) = r"
proof -
  have "unat (ref_generation r) < 2 ^ 32" using unsigned_less [of "ref_generation r"] by simp
  then have "encode_ref r div 2 ^ 32 = unat (ref_index r)" "encode_ref r mod 2 ^ 32 = unat (ref_generation r)"
    unfolding encode_ref_def by simp_all
  then show ?thesis by (simp add: decode_ref_def)
qed

lemma refs_in_order_ok: "finite S \<Longrightarrow> distinct (refs_in_order S) \<and> set (refs_in_order S) = S"
  by (auto simp: refs_in_order_def distinct_map image_image intro: inj_on_inverseI [where g = encode_ref] rev_image_eqI)

fun heap_bytes :: "HostEnv \<Rightarrow> HeapObject \<Rightarrow> usize" where
  "heap_bytes env (StructObj _ _ _ cap) = size_of_heap_object env + cap * size_of_value env"
| "heap_bytes env (ArrayObj _ _ _ cap) = size_of_heap_object env + cap * size_of_value env"
| "heap_bytes env (TupleObj _ cap) = size_of_heap_object env + cap * size_of_value env"
| "heap_bytes env (ChoiceObj _ _ _ _) = size_of_heap_object env"
| "heap_bytes env (AdapterHandleObj _ _ _) = size_of_heap_object env"

section \<open>Instruction operands and types\<close>

datatype ImmediateBinaryOp =
    ImmAdd | ImmSubtract | ImmMultiply | ImmDivide | ImmRemainder | ImmEqual | ImmNotEqual
  | ImmLess | ImmLessEqual | ImmGreater | ImmGreaterEqual | ImmShiftLeft | ImmShiftRight
  | ImmBitwiseAnd | ImmBitwiseOr | ImmBitwiseXor

datatype ImmediateValue = I32 u32 | I64 u64 | U32 u32 | U64 u64 | F32 u32 | F64 u64

datatype BytecodeType =
    TyNull | TyBool | TyInt8 | TyInt16 | TyInt32 | TyInt64 | TyUint8 | TyUint16 | TyUint32 | TyUint64
  | TyFloat32 | TyFloat64
  | TyAdapterHandle OpaqueTypeId
  | TyStruct StructLayoutIdx
  | TyArray TypeIdx
  | TyNullable TypeIdx
  | TyTuple "TypeIdx list"
  | TyChoice ChoiceLayoutIdx
  | TyConstraint string
  | TyFunction "TypeIdx list" TypeIdx
  | TyChoiceVariant ChoiceLayoutIdx u16
  | TyAny

datatype Constant =
    CBool bool | CInt8 u8 | CInt16 u16 | CInt32 u32 | CInt64 u64 | CUint8 u8 | CUint16 u16 | CUint32 u32 | CUint64 u64
  | CFloat32 f32 | CFloat64 f64 | CString utext | CBytes "u8 list" | CFunction FuncIdx

section \<open>Errors\<close>

datatype found =
    FoundText string | FoundValue VmValue | FoundValues VmValue VmValue
  | FoundImmediate VmValue ImmediateValue | FoundObject HeapObject
  | FoundType BytecodeType | FoundConstant Constant | FoundLayout u16 | FoundRef VmObjectRef
  | FoundField "VmValue option" | FoundFieldless utext | FoundFunctions "utext list"

text \<open>
  Three type mismatches have an expected text that is computed: a number of arguments or elements (\<open>ExpectedCount\<close>, with the
  words after the number), the \<open>Debug\<close> output of a type (\<open>ExpectedType\<close>) and the name of a method (\<open>ExpectedFunction\<close>).  The
  message of an explicit panic is the text of a constant and is kept as that constant.
\<close>

datatype VmError =
    UnsupportedBytecodeFormat
  | TypeMismatch string found   \<comment> \<open>expected, found\<close>
  | ExpectedCount string nat nat
  | ExpectedType BytecodeType found
  | ExpectedFunction utext found
  | RegisterOutOfBounds Reg
  | ConstantOutOfBounds ConstIdx
  | FunctionOutOfBounds FuncIdx
  | TypeOutOfBounds TypeIdx
  | FieldOutOfBounds FieldIdx
  | DivisionByZero
  | CallStackOverflow
  | EmptyCallStack
  | VmResourceLimitExceeded ExecutionFailureKind
  | UnresolvedHostBlocked
  | InvalidObjectReference
  | InvalidJumpTarget nat
  | InstructionPointerOutOfBounds nat
  | IndexOutOfBounds int nat
  | NoVariantPayload
  | ExplicitPanic Constant
  | InvalidModule
  | ModuleNotFound ModuleId
  | GlobalOutOfBounds GlobalIdx
  | StructLayoutOutOfBounds StructLayoutIdx
  | ChoiceLayoutOutOfBounds ChoiceLayoutIdx
  | IdCounterExhausted

end
