(* ===== verification/Vm_Heap.thy ===== *)
theory Vm_Heap
  imports Vm_Value
begin

text \<open>
  The private heap of a VM thread, \<^verbatim>\<open>galfus-vm/src/heap.rs\<close>: generational slots, two reference counts
  per object (anchors from registers and globals, edges from other objects) and a trial-deletion
  cycle collector.

  The sources recurse through the object graph.  A recursive call inside a \<open>for\<close> loop over the
  children is modelled with the explicit stack of references still to be visited, which is the
  order of the recursion; \<open>release_edges_append\<close> gives back the loop of the source.  Indexing
  \<open>self.objects\<close> out of range panics, which is \<open>None\<close> here.  \<open>HashSet\<close> iteration follows
  \<open>hash_order\<close> of the environment.
\<close>

section \<open>State\<close>

datatype GcColor = Black | Gray | White | Purple

record HeapSlot =
  slot_generation :: u32
  slot_anchors :: u32
  slot_edges :: u32
  slot_color :: GcColor
  slot_object :: "HeapObject option"

type_synonym handle_drop = "BindingId \<times> OpaqueTypeId \<times> HandleId"

record PrivateHeap =
  hp_objects :: "HeapSlot list"
  hp_free_slots :: "nat list"     \<comment> \<open>a stack, pushed and popped at its end\<close>
  hp_roots :: "nat set"
  hp_allocations :: nat
  hp_pending_drops :: "handle_drop list"
  hp_quota :: ThreadQuota

definition new_heap :: "ThreadQuota \<Rightarrow> PrivateHeap" where
  "new_heap q = \<lparr>hp_objects = [], hp_free_slots = [], hp_roots = {}, hp_allocations = 0,
                 hp_pending_drops = [], hp_quota = q\<rparr>"

abbreviation slot_of :: "PrivateHeap \<Rightarrow> nat \<Rightarrow> HeapSlot" where
  "slot_of h i \<equiv> hp_objects h ! i"

abbreviation ref_idx :: "VmObjectRef \<Rightarrow> nat" where
  "ref_idx r \<equiv> unat (ref_index r)"

definition set_slot :: "PrivateHeap \<Rightarrow> nat \<Rightarrow> HeapSlot \<Rightarrow> PrivateHeap" where
  "set_slot h i s = h\<lparr>hp_objects := (hp_objects h)[i := s]\<rparr>"

definition paint :: "PrivateHeap \<Rightarrow> nat \<Rightarrow> GcColor \<Rightarrow> PrivateHeap" where
  "paint h i c = set_slot h i (slot_of h i\<lparr>slot_color := c\<rparr>)"

text \<open>The guard shared by all operations on a reference.\<close>

definition ref_live :: "PrivateHeap \<Rightarrow> VmObjectRef \<Rightarrow> bool" where
  "ref_live h r \<longleftrightarrow> ref_idx r < length (hp_objects h) \<and>
     slot_generation (slot_of h (ref_idx r)) = ref_generation r \<and>
     slot_object (slot_of h (ref_idx r)) \<noteq> None"

definition get_object :: "PrivateHeap \<Rightarrow> VmObjectRef \<Rightarrow> VmError + HeapObject" where
  "get_object h r =
    (if ref_idx r < length (hp_objects h) then
       (let slot = slot_of h (ref_idx r) in
        if slot_generation slot = ref_generation r then
          (case slot_object slot of Some obj \<Rightarrow> Inr obj | None \<Rightarrow> Inl InvalidObjectReference)
        else Inl InvalidObjectReference)
     else Inl InvalidObjectReference)"

text \<open>Writing through the \<open>&mut HeapObject\<close> that \<open>get_object_mut\<close> returns.\<close>

definition put_object :: "PrivateHeap \<Rightarrow> VmObjectRef \<Rightarrow> HeapObject \<Rightarrow> VmError + PrivateHeap" where
  "put_object h r obj =
    (if ref_live h r
     then Inr (set_slot h (ref_idx r) (slot_of h (ref_idx r)\<lparr>slot_object := Some obj\<rparr>))
     else Inl InvalidObjectReference)"

section \<open>Children and freeing a slot\<close>

fun value_refs :: "VmValue list \<Rightarrow> VmObjectRef list" where
  "value_refs [] = []"
| "value_refs (Object r # vs) = r # value_refs vs"
| "value_refs (_ # vs) = value_refs vs"

fun get_children :: "HeapObject \<Rightarrow> VmObjectRef list" where
  "get_children (StructObj _ _ fs _) = value_refs fs"
| "get_children (ArrayObj _ _ elements _) = value_refs elements"
| "get_children (TupleObj elements _) = value_refs elements"
| "get_children (ChoiceObj _ _ _ payload) = value_refs [payload]"
| "get_children (AdapterHandleObj _ _ _) = []"

fun record_drop :: "HeapObject \<Rightarrow> handle_drop list \<Rightarrow> handle_drop list" where
  "record_drop (AdapterHandleObj b t i) ds = ds @ [(b, t, i)]"
| "record_drop _ ds = ds"

text \<open>Taking the object out of a slot, as \<open>release_internal\<close> and \<open>collect_white\<close> do.\<close>

definition take_object :: "HostEnv \<Rightarrow> PrivateHeap \<Rightarrow> nat \<Rightarrow> HeapObject \<Rightarrow> PrivateHeap" where
  "take_object env h i obj =
    (set_slot h i (slot_of h i\<lparr>slot_object := None\<rparr>))
      \<lparr>hp_quota := release_heap (hp_quota h) 1 (heap_bytes env obj),
       hp_free_slots := hp_free_slots h @ [i],
       hp_pending_drops := record_drop obj (hp_pending_drops h)\<rparr>"

definition children_at :: "PrivateHeap \<Rightarrow> nat \<Rightarrow> VmObjectRef list" where
  "children_at h i = (case slot_object (slot_of h i) of Some obj \<Rightarrow> get_children obj | None \<Rightarrow> [])"

text \<open>\<open>release_internal\<close> up to its loop: the new heap and the children whose edges are to go.\<close>

definition detach :: "HostEnv \<Rightarrow> PrivateHeap \<Rightarrow> nat \<Rightarrow> PrivateHeap \<times> VmObjectRef list" where
  "detach env h i =
    (let h1 = (paint h i Black)\<lparr>hp_roots := hp_roots h - {i}\<rparr> in
     case slot_object (slot_of h i) of
       None \<Rightarrow> (h1, [])
     | Some obj \<Rightarrow> (take_object env h1 i obj, get_children obj))"

definition slot_live :: "HeapSlot \<Rightarrow> bool" where
  "slot_live s \<longleftrightarrow> slot_object s \<noteq> None"

definition live_count :: "PrivateHeap \<Rightarrow> nat" where
  "live_count h = length (filter slot_live (hp_objects h))"

lemma slot_live_simps [simp]:
  "slot_live (s\<lparr>slot_color := c\<rparr>) = slot_live s" "slot_live (s\<lparr>slot_edges := n\<rparr>) = slot_live s"
  "slot_live (s\<lparr>slot_anchors := n\<rparr>) = slot_live s" "slot_live (s\<lparr>slot_object := Some obj\<rparr>)"
  "\<not> slot_live (s\<lparr>slot_object := None\<rparr>)"
  by (simp_all add: slot_live_def)

lemma hp_objects_set_slot [simp]: "hp_objects (set_slot h i s) = (hp_objects h)[i := s]"
  by (simp add: set_slot_def)

lemma hp_set_slot [simp]:
  "hp_free_slots (set_slot h i s) = hp_free_slots h" "hp_roots (set_slot h i s) = hp_roots h"
  "hp_allocations (set_slot h i s) = hp_allocations h" "hp_quota (set_slot h i s) = hp_quota h"
  "hp_pending_drops (set_slot h i s) = hp_pending_drops h"
  by (simp_all add: set_slot_def)

lemma hp_paint [simp]:
  "hp_objects (paint h i c) = (hp_objects h)[i := (slot_of h i)\<lparr>slot_color := c\<rparr>]"
  "hp_free_slots (paint h i c) = hp_free_slots h" "hp_roots (paint h i c) = hp_roots h"
  "hp_allocations (paint h i c) = hp_allocations h" "hp_quota (paint h i c) = hp_quota h"
  "hp_pending_drops (paint h i c) = hp_pending_drops h"
  by (simp_all add: paint_def)

lemma hp_take_object [simp]:
  "hp_objects (take_object env h i obj) = (hp_objects h)[i := (slot_of h i)\<lparr>slot_object := None\<rparr>]"
  "hp_free_slots (take_object env h i obj) = hp_free_slots h @ [i]"
  "hp_roots (take_object env h i obj) = hp_roots h"
  "hp_allocations (take_object env h i obj) = hp_allocations h"
  "hp_quota (take_object env h i obj) = release_heap (hp_quota h) 1 (heap_bytes env obj)"
  "hp_pending_drops (take_object env h i obj) = record_drop obj (hp_pending_drops h)"
  by (simp_all add: take_object_def)

lemma live_count_set_slot:
  "i < length (hp_objects h) \<Longrightarrow> slot_live (slot_of h i) = slot_live s \<Longrightarrow>
   live_count (set_slot h i s) = live_count h"
  by (simp add: live_count_def length_filter_update_same)

lemma live_count_detach:
  assumes "i < length (hp_objects h)" and "slot_object (slot_of h i) \<noteq> None"
  shows "live_count (fst (detach env h i)) < live_count h"
  using assms
  by (auto simp: detach_def live_count_def Let_def slot_live_def intro!: length_filter_update_less)

section \<open>Releasing edges\<close>

definition drop_edge :: "PrivateHeap \<Rightarrow> nat \<Rightarrow> PrivateHeap" where
  "drop_edge h i = set_slot h i (slot_of h i\<lparr>slot_edges := saturating_sub (slot_edges (slot_of h i)) 1\<rparr>)"

definition add_edge :: "PrivateHeap \<Rightarrow> nat \<Rightarrow> PrivateHeap" where
  "add_edge h i = set_slot h i (slot_of h i\<lparr>slot_edges := saturating_add (slot_edges (slot_of h i)) 1\<rparr>)"

text \<open>A candidate root of a garbage cycle.\<close>

definition suspect :: "PrivateHeap \<Rightarrow> nat \<Rightarrow> PrivateHeap" where
  "suspect h i = (paint h i Purple)\<lparr>hp_roots := insert i (hp_roots h)\<rparr>"

lemma hp_drop_edge [simp]:
  "hp_objects (drop_edge h i) = (hp_objects h)[i := (slot_of h i)
     \<lparr>slot_edges := saturating_sub (slot_edges (slot_of h i)) 1\<rparr>]"
  "hp_free_slots (drop_edge h i) = hp_free_slots h" "hp_roots (drop_edge h i) = hp_roots h"
  "hp_allocations (drop_edge h i) = hp_allocations h" "hp_quota (drop_edge h i) = hp_quota h"
  "hp_pending_drops (drop_edge h i) = hp_pending_drops h"
  by (simp_all add: drop_edge_def)

lemma hp_add_edge [simp]:
  "hp_objects (add_edge h i) = (hp_objects h)[i := (slot_of h i)
     \<lparr>slot_edges := saturating_add (slot_edges (slot_of h i)) 1\<rparr>]"
  "hp_free_slots (add_edge h i) = hp_free_slots h" "hp_roots (add_edge h i) = hp_roots h"
  "hp_allocations (add_edge h i) = hp_allocations h" "hp_quota (add_edge h i) = hp_quota h"
  "hp_pending_drops (add_edge h i) = hp_pending_drops h"
  by (simp_all add: add_edge_def)

lemma hp_suspect [simp]:
  "hp_objects (suspect h i) = (hp_objects h)[i := (slot_of h i)\<lparr>slot_color := Purple\<rparr>]"
  "hp_free_slots (suspect h i) = hp_free_slots h" "hp_roots (suspect h i) = insert i (hp_roots h)"
  "hp_allocations (suspect h i) = hp_allocations h" "hp_quota (suspect h i) = hp_quota h"
  "hp_pending_drops (suspect h i) = hp_pending_drops h"
  by (simp_all add: suspect_def)

lemma live_count_simps [simp]:
  assumes "i < length (hp_objects h)"
  shows "live_count (drop_edge h i) = live_count h" and "live_count (add_edge h i) = live_count h"
    and "live_count (paint h i c) = live_count h" and "live_count (suspect h i) = live_count h"
  using assms by (auto simp: live_count_def intro!: length_filter_update_same)

function release_edges :: "HostEnv \<Rightarrow> PrivateHeap \<Rightarrow> VmObjectRef list \<Rightarrow> PrivateHeap" where
  "release_edges env h [] = h"
| "release_edges env h (r # rs) =
    (if \<not> ref_live h r then release_edges env h rs
     else
       let i = ref_idx r; h1 = drop_edge h i; slot = slot_of h1 i in
       if slot_anchors slot = 0 \<and> slot_edges slot = 0 then
         release_edges env (fst (detach env h1 i)) (snd (detach env h1 i) @ rs)
       else if slot_anchors slot = 0 \<and> slot_edges slot > 0 \<and> slot_color slot \<noteq> Purple then
         release_edges env (suspect h1 i) rs
       else release_edges env h1 rs)"
  by pat_completeness auto
termination
proof (relation "measures [\<lambda>(env, h, rs). live_count h, \<lambda>(env, h, rs). length rs]",
       goal_cases)
  case 1
  then show ?case by simp
next
  case (3 env h r rs i h1 slot)
  then have "i < length (hp_objects h1)" and "slot_object (slot_of h1 i) \<noteq> None"
    and "live_count h1 = live_count h"
    by (auto simp: ref_live_def)
  with live_count_detach [of i h1 env] show ?case by simp
qed (auto simp: ref_live_def)

declare release_edges.simps(2) [simp del]

text \<open>The loop of the source: one reference after the other, each with all its consequences.\<close>

lemma release_edges_append:
  "release_edges env h (rs @ ss) = release_edges env (release_edges env h rs) ss"
  by (induction env h rs rule: release_edges.induct)
     (simp_all add: release_edges.simps(2) Let_def)

definition release_internal :: "HostEnv \<Rightarrow> PrivateHeap \<Rightarrow> nat \<Rightarrow> PrivateHeap" where
  "release_internal env h i = release_edges env (fst (detach env h i)) (snd (detach env h i))"

definition release_edge :: "HostEnv \<Rightarrow> PrivateHeap \<Rightarrow> VmObjectRef \<Rightarrow> (VmError + unit) \<times> PrivateHeap" where
  "release_edge env h r =
    (if ref_live h r then (Inr (), release_edges env h [r]) else (Inl InvalidObjectReference, h))"

text \<open>\<open>release_edge\<close> and \<open>release_internal\<close> satisfy the mutually recursive equations of the source.\<close>

lemma release_edge_rec:
  "release_edge env h r =
    (if \<not> ref_live h r then (Inl InvalidObjectReference, h)
     else
       let i = ref_idx r; h1 = drop_edge h i; slot = slot_of h1 i in
       (Inr (),
        if slot_anchors slot = 0 \<and> slot_edges slot = 0 then release_internal env h1 i
        else if slot_anchors slot = 0 \<and> slot_edges slot > 0 \<and> slot_color slot \<noteq> Purple then suspect h1 i
        else h1))"
  by (simp add: release_edge_def release_internal_def release_edges.simps(2) Let_def)

lemma release_internal_loop:
  "release_internal env h i =
     foldl (\<lambda>h r. snd (release_edge env h r)) (fst (detach env h i)) (snd (detach env h i))"
proof -
  have "release_edges env h rs = foldl (\<lambda>h r. snd (release_edge env h r)) h rs" for h rs
  proof (induction rs arbitrary: h)
    case (Cons r rs)
    have "release_edges env h (r # rs) = release_edges env (release_edges env h [r]) rs"
      using release_edges_append [of env h "[r]" rs] by simp
    moreover have "release_edges env h [r] = snd (release_edge env h r)"
      by (simp add: release_edge_def release_edges.simps(2))
    ultimately show ?case by (simp add: Cons.IH)
  qed simp
  then show ?thesis by (simp add: release_internal_def)
qed

section \<open>Anchors and edges\<close>

definition retain_anchor :: "PrivateHeap \<Rightarrow> VmObjectRef \<Rightarrow> (VmError + unit) \<times> PrivateHeap" where
  "retain_anchor h r =
    (if ref_live h r then
       (let i = ref_idx r; s = slot_of h i in
        (Inr (), (set_slot h i (s\<lparr>slot_anchors := saturating_add (slot_anchors s) 1,
                                  slot_color := Black\<rparr>))\<lparr>hp_roots := hp_roots h - {i}\<rparr>))
     else (Inl InvalidObjectReference, h))"

definition retain_edge :: "PrivateHeap \<Rightarrow> VmObjectRef \<Rightarrow> (VmError + unit) \<times> PrivateHeap" where
  "retain_edge h r =
    (if ref_live h r then
       (let i = ref_idx r; s = slot_of h i in
        (Inr (), (set_slot h i (s\<lparr>slot_edges := saturating_add (slot_edges s) 1,
                                  slot_color := Black\<rparr>))\<lparr>hp_roots := hp_roots h - {i}\<rparr>))
     else (Inl InvalidObjectReference, h))"

definition drop_anchor :: "PrivateHeap \<Rightarrow> nat \<Rightarrow> PrivateHeap" where
  "drop_anchor h i =
     set_slot h i (slot_of h i\<lparr>slot_anchors := saturating_sub (slot_anchors (slot_of h i)) 1\<rparr>)"

lemma hp_drop_anchor [simp]:
  "hp_objects (drop_anchor h i) = (hp_objects h)[i := (slot_of h i)
     \<lparr>slot_anchors := saturating_sub (slot_anchors (slot_of h i)) 1\<rparr>]"
  "hp_free_slots (drop_anchor h i) = hp_free_slots h" "hp_roots (drop_anchor h i) = hp_roots h"
  "hp_allocations (drop_anchor h i) = hp_allocations h" "hp_quota (drop_anchor h i) = hp_quota h"
  "hp_pending_drops (drop_anchor h i) = hp_pending_drops h"
  by (simp_all add: drop_anchor_def)

definition release_anchor :: "HostEnv \<Rightarrow> PrivateHeap \<Rightarrow> VmObjectRef \<Rightarrow> (VmError + unit) \<times> PrivateHeap" where
  "release_anchor env h r =
    (if \<not> ref_live h r then (Inl InvalidObjectReference, h)
     else
       let i = ref_idx r; h1 = drop_anchor h i; slot = slot_of h1 i in
       (Inr (),
        if slot_anchors slot = 0 then
          (if slot_edges slot = 0 then release_internal env h1 i
           else if slot_color slot \<noteq> Purple then suspect h1 i
           else h1)
        else h1))"

definition free_object :: "HostEnv \<Rightarrow> PrivateHeap \<Rightarrow> VmObjectRef \<Rightarrow> (VmError + unit) \<times> PrivateHeap" where
  "free_object env h r =
    (if \<not> ref_live h r then (Inl InvalidObjectReference, h)
     else
       let i = ref_idx r; s = slot_of h i; obj = the (slot_object s) in
       (Inr (), h\<lparr>
          hp_roots := hp_roots h - {i},
          hp_quota := release_heap (hp_quota h) 1 (heap_bytes env obj),
          hp_pending_drops := record_drop obj (hp_pending_drops h),
          hp_objects := (hp_objects h)[i := s\<lparr>slot_object := None, slot_anchors := 0,
                                              slot_edges := 0, slot_color := Black\<rparr>],
          hp_free_slots := hp_free_slots h @ [i]\<rparr>))"

end
