(* ===== verification/Vm_Collector.thy ===== *)
theory Vm_Collector
  imports Vm_Heap
begin

text \<open>
  The cycle collector of \<^verbatim>\<open>galfus-vm/src/heap.rs\<close> (\<open>collect_cycles\<close> and its phases), allocation, which
  runs it every 500 allocations, and the extraction of adapter handles.

  The collector follows Bacon and Rajan's trial deletion: \<open>mark_roots\<close> subtracts the edges inside
  the candidate subgraphs, \<open>scan_roots\<close> restores those with an outside reference and whitens the
  rest, \<open>collect_roots\<close> is to free the white ones.  The theorems at the end say what it really does.
\<close>

section \<open>Trial deletion\<close>

definition color_count :: "(GcColor \<Rightarrow> bool) \<Rightarrow> PrivateHeap \<Rightarrow> nat" where
  "color_count P h = length (filter (\<lambda>s. P (slot_color s)) (hp_objects h))"

lemma color_count_paint_less:
  "i < length (hp_objects h) \<Longrightarrow> P (slot_color (slot_of h i)) \<Longrightarrow> \<not> P c \<Longrightarrow>
   color_count P (paint h i c) < color_count P h"
  by (simp add: color_count_def length_filter_update_less)

lemma color_count_edge [simp]:
  assumes "i < length (hp_objects h)"
  shows "color_count P (drop_edge h i) = color_count P h" and "color_count P (add_edge h i) = color_count P h"
  using assms by (simp_all add: color_count_def length_filter_update_same)

function gray_refs :: "PrivateHeap \<Rightarrow> VmObjectRef list \<Rightarrow> PrivateHeap option" where
  "gray_refs h [] = Some h"
| "gray_refs h (r # rs) =
    (let i = ref_idx r in
     if \<not> i < length (hp_objects h) then None
     else if slot_generation (slot_of h i) \<noteq> ref_generation r then gray_refs h rs
     else
       let h1 = drop_edge h i in
       if slot_color (slot_of h1 i) \<noteq> Gray
       then gray_refs (paint h1 i Gray) (children_at h1 i @ rs)
       else gray_refs h1 rs)"
  by pat_completeness auto
termination
proof (relation "measures [\<lambda>(h, rs). color_count (\<lambda>c. c \<noteq> Gray) h, \<lambda>(h, rs). length rs]", goal_cases)
  case (3 h r rs i h1)
  then have "color_count (\<lambda>c. c \<noteq> Gray) (paint h1 i Gray) < color_count (\<lambda>c. c \<noteq> Gray) h1"
    by (intro color_count_paint_less) auto
  with 3 show ?case by simp
qed auto

declare gray_refs.simps(2) [simp del]

definition mark_gray :: "PrivateHeap \<Rightarrow> nat \<Rightarrow> PrivateHeap option" where
  "mark_gray h i =
    (if \<not> i < length (hp_objects h) then None
     else if slot_color (slot_of h i) \<noteq> Gray then gray_refs (paint h i Gray) (children_at h i)
     else Some h)"

fun mark_roots_loop :: "HostEnv \<Rightarrow> PrivateHeap \<Rightarrow> nat list \<Rightarrow> PrivateHeap option" where
  "mark_roots_loop env h [] = Some h"
| "mark_roots_loop env h (i # is) =
    (if \<not> i < length (hp_objects h) then None
     else
       let slot = slot_of h i in
       if slot_color slot = Purple \<and> slot_anchors slot = 0 \<and> slot_edges slot > 0 then
         (case mark_gray h i of
            None \<Rightarrow> None
          | Some h1 \<Rightarrow> mark_roots_loop env (h1\<lparr>hp_roots := insert i (hp_roots h1)\<rparr>) is)
       else
         let h1 = paint h i Black in
         mark_roots_loop env
           (if slot_anchors slot = 0 \<and> slot_edges slot = 0 then release_internal env h1 i else h1) is)"

definition mark_roots :: "HostEnv \<Rightarrow> PrivateHeap \<Rightarrow> PrivateHeap option" where
  "mark_roots env h = mark_roots_loop env (h\<lparr>hp_roots := {}\<rparr>) (hash_order env (hp_roots h))"

section \<open>Restoring\<close>

function black_refs :: "PrivateHeap \<Rightarrow> VmObjectRef list \<Rightarrow> PrivateHeap option" where
  "black_refs h [] = Some h"
| "black_refs h (r # rs) =
    (let i = ref_idx r in
     if \<not> i < length (hp_objects h) then None
     else if slot_generation (slot_of h i) \<noteq> ref_generation r then black_refs h rs
     else
       let h1 = add_edge h i in
       if slot_color (slot_of h1 i) \<noteq> Black
       then black_refs (paint h1 i Black) (children_at h1 i @ rs)
       else black_refs h1 rs)"
  by pat_completeness auto
termination
proof (relation "measures [\<lambda>(h, rs). color_count (\<lambda>c. c \<noteq> Black) h, \<lambda>(h, rs). length rs]", goal_cases)
  case (3 h r rs i h1)
  then have "color_count (\<lambda>c. c \<noteq> Black) (paint h1 i Black) < color_count (\<lambda>c. c \<noteq> Black) h1"
    by (intro color_count_paint_less) auto
  with 3 show ?case by simp
qed auto

declare black_refs.simps(2) [simp del]

definition scan_black :: "PrivateHeap \<Rightarrow> nat \<Rightarrow> PrivateHeap option" where
  "scan_black h i =
    (if \<not> i < length (hp_objects h) then None else black_refs (paint h i Black) (children_at h i))"

lemma color_count_paint_le:
  "i < length (hp_objects h) \<Longrightarrow> \<not> P c \<Longrightarrow> color_count P (paint h i c) \<le> color_count P h"
  by (cases "P (slot_color (slot_of h i))")
     (simp_all add: color_count_def length_filter_update_same length_filter_update_less less_imp_le)

lemma black_refs_gray_count:
  "black_refs h rs = Some h' \<Longrightarrow>
   length (hp_objects h') = length (hp_objects h) \<and>
   color_count (\<lambda>c. c = Gray) h' \<le> color_count (\<lambda>c. c = Gray) h"
proof (induction h rs rule: black_refs.induct)
  case (2 h r rs)
  let ?i = "ref_idx r"
  have paint: "color_count (\<lambda>c. c = Gray) (paint (add_edge h ?i) ?i Black) \<le> color_count (\<lambda>c. c = Gray) h"
    if "?i < length (hp_objects h)"
    using that color_count_paint_le [of ?i "add_edge h ?i" "\<lambda>c. c = Gray" Black] by simp
  show ?case
    using "2.prems" "2.IH" paint
    by (fastforce simp: black_refs.simps(2) Let_def split: if_splits)
qed simp

lemma scan_black_gray_count:
  assumes "scan_black h i = Some h'" and "slot_color (slot_of h i) = Gray"
  shows "color_count (\<lambda>c. c = Gray) h' < color_count (\<lambda>c. c = Gray) h"
  using assms black_refs_gray_count [of "paint h i Black" "children_at h i" h']
    color_count_paint_less [of i h "\<lambda>c. c = Gray" Black]
  by (auto simp: scan_black_def split: if_splits)

function scan_refs :: "PrivateHeap \<Rightarrow> VmObjectRef list \<Rightarrow> PrivateHeap option" where
  "scan_refs h [] = Some h"
| "scan_refs h (r # rs) =
    (let i = ref_idx r in
     if \<not> i < length (hp_objects h) then None
     else if slot_generation (slot_of h i) \<noteq> ref_generation r then scan_refs h rs
     else if slot_color (slot_of h i) \<noteq> Gray then scan_refs h rs
     else if slot_anchors (slot_of h i) > 0 \<or> slot_edges (slot_of h i) > 0 then
       (case scan_black h i of None \<Rightarrow> None | Some h1 \<Rightarrow> scan_refs h1 rs)
     else scan_refs (paint h i White) (children_at h i @ rs))"
  by pat_completeness auto
termination
proof (relation "measures [\<lambda>(h, rs). color_count (\<lambda>c. c = Gray) h, \<lambda>(h, rs). length rs]", goal_cases)
  case (4 h r rs i h1)
  then show ?case using scan_black_gray_count [of h i h1] by simp
next
  case (5 h r rs i)
  then show ?case using color_count_paint_less [of i h "\<lambda>c. c = Gray" White] by simp
qed auto

declare scan_refs.simps(2) [simp del]

definition scan :: "PrivateHeap \<Rightarrow> nat \<Rightarrow> PrivateHeap option" where
  "scan h i =
    (if \<not> i < length (hp_objects h) then None
     else if slot_color (slot_of h i) \<noteq> Gray then Some h
     else if slot_anchors (slot_of h i) > 0 \<or> slot_edges (slot_of h i) > 0 then scan_black h i
     else scan_refs (paint h i White) (children_at h i))"

fun scan_roots_loop :: "PrivateHeap \<Rightarrow> nat list \<Rightarrow> PrivateHeap option" where
  "scan_roots_loop h [] = Some h"
| "scan_roots_loop h (i # is) =
    (case scan h i of None \<Rightarrow> None | Some h1 \<Rightarrow> scan_roots_loop h1 is)"

definition scan_roots :: "HostEnv \<Rightarrow> PrivateHeap \<Rightarrow> PrivateHeap option" where
  "scan_roots env h = scan_roots_loop h (hash_order env (hp_roots h))"

section \<open>Collecting\<close>

function white_refs :: "HostEnv \<Rightarrow> PrivateHeap \<Rightarrow> VmObjectRef list \<Rightarrow> PrivateHeap option" where
  "white_refs env h [] = Some h"
| "white_refs env h (r # rs) =
    (let i = ref_idx r in
     if \<not> i < length (hp_objects h) then None
     else if slot_generation (slot_of h i) \<noteq> ref_generation r then white_refs env h rs
     else if slot_color (slot_of h i) = White \<and> slot_object (slot_of h i) \<noteq> None then
       white_refs env (take_object env (paint h i Black) i (the (slot_object (slot_of h i))))
         (children_at h i @ rs)
     else white_refs env h rs)"
  by pat_completeness auto
termination
proof (relation "measures [\<lambda>(env, h, rs). live_count h, \<lambda>(env, h, rs). length rs]", goal_cases)
  case (3 env h r rs i)
  then show ?case
    by (auto simp: live_count_def slot_live_def intro!: length_filter_update_less)
qed auto

declare white_refs.simps(2) [simp del]

definition collect_white :: "HostEnv \<Rightarrow> PrivateHeap \<Rightarrow> nat \<Rightarrow> PrivateHeap option" where
  "collect_white env h i =
    (if \<not> i < length (hp_objects h) then None
     else if slot_color (slot_of h i) = White \<and> slot_object (slot_of h i) \<noteq> None then
       white_refs env (take_object env (paint h i Black) i (the (slot_object (slot_of h i))))
         (children_at h i)
     else Some h)"

fun collect_roots_loop :: "HostEnv \<Rightarrow> PrivateHeap \<Rightarrow> nat list \<Rightarrow> PrivateHeap option" where
  "collect_roots_loop env h [] = Some h"
| "collect_roots_loop env h (i # is) =
    (if \<not> i < length (hp_objects h) then None
     else
       (case collect_white env (paint h i Black) i of
          None \<Rightarrow> None
        | Some h1 \<Rightarrow> collect_roots_loop env h1 is))"

definition collect_roots :: "HostEnv \<Rightarrow> PrivateHeap \<Rightarrow> PrivateHeap option" where
  "collect_roots env h = collect_roots_loop env (h\<lparr>hp_roots := {}\<rparr>) (hash_order env (hp_roots h))"

definition collect_cycles :: "HostEnv \<Rightarrow> PrivateHeap \<Rightarrow> PrivateHeap option" where
  "collect_cycles env h =
    (if hp_roots h = {} then Some h
     else
       (case mark_roots env h of
          None \<Rightarrow> None
        | Some h1 \<Rightarrow>
            (case scan_roots env h1 of
               None \<Rightarrow> None
             | Some h2 \<Rightarrow> collect_roots env h2)))"

section \<open>Allocation\<close>

definition place_object :: "PrivateHeap \<Rightarrow> HeapObject \<Rightarrow> (VmError + VmObjectRef) \<times> PrivateHeap" where
  "place_object h obj =
    (if hp_free_slots h \<noteq> [] then
       (let i = last (hp_free_slots h); g = slot_generation (slot_of h i) + 1 in
        (Inr (new_ref (of_nat i) g),
         h\<lparr>hp_free_slots := butlast (hp_free_slots h),
           hp_objects := (hp_objects h)[i := \<lparr>slot_generation = g, slot_anchors = 1, slot_edges = 0,
                                            slot_color = Black, slot_object = Some obj\<rparr>]\<rparr>))
     else
       let i = length (hp_objects h) in
       if i \<ge> 2 ^ 32 - 1 then (Inl IdCounterExhausted, h)
       else
         (Inr (new_ref (of_nat i) 1),
          h\<lparr>hp_objects := hp_objects h @ [\<lparr>slot_generation = 1, slot_anchors = 1, slot_edges = 0,
                                            slot_color = Black, slot_object = Some obj\<rparr>]\<rparr>))"

text \<open>\<open>alloc\<close>: \<open>None\<close> only when the collector panics; an error is returned with the heap it leaves.\<close>

definition alloc :: "HostEnv \<Rightarrow> PrivateHeap \<Rightarrow> HeapObject \<Rightarrow> ((VmError + VmObjectRef) \<times> PrivateHeap) option" where
  "alloc env h obj =
    (case try_reserve_heap (hp_quota h) 1 (heap_bytes env obj) of
       (Inl e, q) \<Rightarrow> Some (Inl (VmResourceLimitExceeded e), h\<lparr>hp_quota := q\<rparr>)
     | (Inr _, q) \<Rightarrow>
         (let h1 = h\<lparr>hp_quota := q, hp_allocations := hp_allocations h + 1\<rparr> in
          if hp_allocations h1 \<ge> 500
          then map_option (\<lambda>h2. place_object (h2\<lparr>hp_allocations := 0\<rparr>) obj) (collect_cycles env h1)
          else Some (place_object h1 obj)))"

section \<open>Adapter handles\<close>

fun handle_of :: "HeapObject \<Rightarrow> handle_drop option" where
  "handle_of (AdapterHandleObj b t i) = Some (b, t, i)"
| "handle_of _ = None"

definition adapter_handle_refs :: "PrivateHeap \<Rightarrow> (handle_drop \<times> VmObjectRef) list" where
  "adapter_handle_refs h =
     List.map_filter (\<lambda>i. case Option.bind (slot_object (slot_of h i)) handle_of of
         Some d \<Rightarrow> Some (d, new_ref (of_nat i) (slot_generation (slot_of h i)))
       | None \<Rightarrow> None) [0..<length (hp_objects h)]"

definition extract_adapter_handles :: "HostEnv \<Rightarrow> PrivateHeap \<Rightarrow> handle_drop list \<times> PrivateHeap" where
  "extract_adapter_handles env h =
     (map fst (adapter_handle_refs h),
      foldl (\<lambda>h r. snd (free_object env h r)) h (map snd (adapter_handle_refs h)))"

definition iter_live_objects :: "PrivateHeap \<Rightarrow> (VmObjectRef \<times> HeapObject) list" where
  "iter_live_objects h =
     List.map_filter (\<lambda>i. map_option (\<lambda>obj. (new_ref (of_nat i) (slot_generation (slot_of h i)), obj))
       (slot_object (slot_of h i))) [0..<length (hp_objects h)]"

text \<open>Dropping the heap returns what its objects still hold to the quota.\<close>

definition drop_heap :: "HostEnv \<Rightarrow> PrivateHeap \<Rightarrow> PrivateHeap" where
  "drop_heap env h =
     h\<lparr>hp_quota := foldl (\<lambda>q s. case slot_object s of None \<Rightarrow> q | Some obj \<Rightarrow> release_heap q 1 (heap_bytes env obj))
                    (hp_quota h) (hp_objects h),
       hp_objects := map (\<lambda>s. s\<lparr>slot_object := None\<rparr>) (hp_objects h)\<rparr>"

end
