(* ===== verification/Vm_Heap_Safety.thy ===== *)
theory Vm_Heap_Safety
  imports Vm_Collector
begin

text \<open>
  Safety of the private heap.  Every operation of \<open>Vm_Heap\<close> and every phase of \<open>Vm_Collector\<close> is
  built from a few primitive changes of a slot; the locale \<open>heap_closed\<close> lifts a property that the
  primitives keep to all of them, by induction once, and each invariant below (slot bookkeeping,
  quota accounting, anchored objects, stale references, references in range) is an
  interpretation of it.
\<close>

section \<open>Frame facts\<close>

text \<open>The tracing phases change edges and colours only.\<close>

definition same_store :: "PrivateHeap \<Rightarrow> PrivateHeap \<Rightarrow> bool" where
  "same_store h h' \<longleftrightarrow>
     map slot_object (hp_objects h') = map slot_object (hp_objects h) \<and>
     map slot_generation (hp_objects h') = map slot_generation (hp_objects h) \<and>
     map slot_anchors (hp_objects h') = map slot_anchors (hp_objects h) \<and>
     hp_free_slots h' = hp_free_slots h \<and> hp_quota h' = hp_quota h \<and>
     hp_pending_drops h' = hp_pending_drops h"

lemma same_store_refl [simp]: "same_store h h"
  by (simp add: same_store_def)

lemma same_store_trans: "same_store a b \<Longrightarrow> same_store b c \<Longrightarrow> same_store a c"
  by (simp add: same_store_def)

lemma map_update_same: "i < length xs \<Longrightarrow> f x = f (xs ! i) \<Longrightarrow> map f (xs[i := x]) = map f xs"
  by (metis list_update_id map_update)

lemma same_store_prim [simp]:
  assumes "i < length (hp_objects h)"
  shows "same_store (drop_edge h i) h' = same_store h h'"
    and "same_store (add_edge h i) h' = same_store h h'"
    and "same_store (paint h i c) h' = same_store h h'"
  using assms by (simp_all add: same_store_def map_update_same)

lemma same_store_roots [simp]: "same_store (h\<lparr>hp_roots := R\<rparr>) h' = same_store h h'"
  by (simp add: same_store_def)

lemma same_store_length: "same_store h h' \<Longrightarrow> length (hp_objects h') = length (hp_objects h)"
  unfolding same_store_def by (metis length_map)

lemma same_store_nth:
  assumes "same_store h h'" and "i < length (hp_objects h)"
  shows "slot_object (slot_of h' i) = slot_object (slot_of h i)"
    and "slot_generation (slot_of h' i) = slot_generation (slot_of h i)"
    and "slot_anchors (slot_of h' i) = slot_anchors (slot_of h i)"
  using assms same_store_length [OF assms(1)] unfolding same_store_def by (metis nth_map)+

lemma gray_refs_same_store: "gray_refs h rs = Some h' \<Longrightarrow> same_store h h'"
proof (induction h rs rule: gray_refs.induct)
  case (2 h r rs)
  show ?case
    using "2.prems" "2.IH" by (auto simp: gray_refs.simps(2) Let_def split: if_splits)
qed simp

lemma mark_gray_same_store: "mark_gray h i = Some h' \<Longrightarrow> same_store h h'"
  by (auto simp: mark_gray_def split: if_splits dest: gray_refs_same_store)

lemma black_refs_same_store: "black_refs h rs = Some h' \<Longrightarrow> same_store h h'"
proof (induction h rs rule: black_refs.induct)
  case (2 h r rs)
  show ?case
    using "2.prems" "2.IH" by (auto simp: black_refs.simps(2) Let_def split: if_splits)
qed simp

lemma scan_black_same_store: "scan_black h i = Some h' \<Longrightarrow> same_store h h'"
  by (auto simp: scan_black_def split: if_splits dest: black_refs_same_store)

lemma scan_refs_same_store: "scan_refs h rs = Some h' \<Longrightarrow> same_store h h'"
proof (induction h rs rule: scan_refs.induct)
  case (2 h r rs)
  show ?case
    using "2.prems" "2.IH"
    by (auto simp: scan_refs.simps(2) Let_def split: if_splits option.splits
             intro: same_store_trans dest: scan_black_same_store)
qed simp

lemma scan_same_store: "scan h i = Some h' \<Longrightarrow> same_store h h'"
  by (auto simp: scan_def split: if_splits dest: scan_refs_same_store scan_black_same_store)

lemma scan_roots_loop_same_store: "scan_roots_loop h is = Some h' \<Longrightarrow> same_store h h'"
  by (induction h "is" rule: scan_roots_loop.induct)
     (auto split: option.splits intro: same_store_trans dest: scan_same_store)

text \<open>
  \<open>collect_roots\<close> blackens a root before it asks \<open>collect_white\<close> whether the root is white, so the
  last phase frees nothing.
\<close>

lemma collect_roots_loop_same_store: "collect_roots_loop env h is = Some h' \<Longrightarrow> same_store h h'"
proof (induction env h "is" rule: collect_roots_loop.induct)
  case (2 env h i "is")
  then show ?case
    by (auto simp: collect_white_def split: if_splits)
qed simp

section \<open>Lifting invariants\<close>

definition purple_live :: "PrivateHeap \<Rightarrow> bool" where
  "purple_live h \<longleftrightarrow>
     (\<forall>i < length (hp_objects h). slot_color (slot_of h i) = Purple \<longrightarrow> slot_live (slot_of h i))"

locale heap_closed =
  fixes env :: HostEnv and P :: "PrivateHeap \<Rightarrow> bool"
  assumes P_purple: "P h \<Longrightarrow> purple_live h"
    and P_drop_edge: "P h \<Longrightarrow> i < length (hp_objects h) \<Longrightarrow> P (drop_edge h i)"
    and P_add_edge: "P h \<Longrightarrow> i < length (hp_objects h) \<Longrightarrow> P (add_edge h i)"
    and P_paint: "P h \<Longrightarrow> i < length (hp_objects h) \<Longrightarrow> c \<noteq> Purple \<Longrightarrow> P (paint h i c)"
    and P_suspect: "P h \<Longrightarrow> i < length (hp_objects h) \<Longrightarrow> slot_live (slot_of h i) \<Longrightarrow> P (suspect h i)"
    and P_detach: "P h \<Longrightarrow> i < length (hp_objects h) \<Longrightarrow> slot_anchors (slot_of h i) = 0 \<Longrightarrow>
                   P (fst (detach env h i))"
    and P_no_roots: "P h \<Longrightarrow> P (h\<lparr>hp_roots := {}\<rparr>)"
    and P_add_root: "P h \<Longrightarrow> i < length (hp_objects h) \<Longrightarrow> slot_live (slot_of h i) \<Longrightarrow>
                     P (h\<lparr>hp_roots := insert i (hp_roots h)\<rparr>)"
begin

lemma release_edges_closed_aux: "e = env \<Longrightarrow> P h \<Longrightarrow> P (release_edges e h rs)"
proof (induction e h rs rule: release_edges.induct)
  case (2 e h r rs)
  let ?i = "ref_idx r" and ?h1 = "drop_edge h (ref_idx r)"
  show ?case
  proof (cases "ref_live h r")
    case False
    with "2.IH"(1) "2.prems" show ?thesis by (simp add: release_edges.simps(2))
  next
    case True
    then have len: "?i < length (hp_objects ?h1)" and live: "slot_live (slot_of ?h1 ?i)"
      by (auto simp: ref_live_def slot_live_def)
    have p1: "P ?h1" using P_drop_edge "2.prems"(2) len by simp
    have ps: "P (suspect ?h1 ?i)" using P_suspect p1 len live by blast
    have pd: "slot_anchors (slot_of ?h1 ?i) = 0 \<Longrightarrow> P (fst (detach env ?h1 ?i))"
      using P_detach p1 len by blast
    show ?thesis
      using "2.IH"(2-4) [OF _ refl refl refl] "2.prems" True p1 ps pd
      by (simp add: release_edges.simps(2) Let_def)
  qed
qed simp

lemma release_edges_closed: "P h \<Longrightarrow> P (release_edges env h rs)"
  by (rule release_edges_closed_aux) simp_all

lemma release_internal_closed:
  "P h \<Longrightarrow> i < length (hp_objects h) \<Longrightarrow> slot_anchors (slot_of h i) = 0 \<Longrightarrow> P (release_internal env h i)"
  unfolding release_internal_def by (intro release_edges_closed P_detach)

lemma release_edge_closed: "P h \<Longrightarrow> P (snd (release_edge env h r))"
  by (simp add: release_edge_def release_edges_closed)

lemma gray_refs_closed: "P h \<Longrightarrow> gray_refs h rs = Some h' \<Longrightarrow> P h'"
proof (induction h rs rule: gray_refs.induct)
  case (2 h r rs)
  show ?case
    using "2.prems" "2.IH" P_drop_edge [of h "ref_idx r"] P_paint [of "drop_edge h (ref_idx r)" "ref_idx r" Gray]
    by (auto simp: gray_refs.simps(2) Let_def split: if_splits)
qed simp

lemma mark_gray_closed: "P h \<Longrightarrow> mark_gray h i = Some h' \<Longrightarrow> P h'"
  using P_paint [of h i Gray] by (auto simp: mark_gray_def split: if_splits dest: gray_refs_closed)

lemma mark_roots_loop_closed: "P h \<Longrightarrow> mark_roots_loop env h is = Some h' \<Longrightarrow> P h'"
proof (induction "is" arbitrary: h)
  case (Cons i "is")
  let ?slot = "slot_of h i"
  from Cons.prems(2) have len: "i < length (hp_objects h)" by (simp split: if_splits)
  show ?case
  proof (cases "slot_color ?slot = Purple \<and> slot_anchors ?slot = 0 \<and> slot_edges ?slot > 0")
    case True
    with Cons.prems(2) len obtain h1 where h1: "mark_gray h i = Some h1"
      and rest: "mark_roots_loop env (h1\<lparr>hp_roots := insert i (hp_roots h1)\<rparr>) is = Some h'"
      by (auto split: option.splits)
    have "slot_live (slot_of h i)"
      using P_purple [OF Cons.prems(1)] True len by (simp add: purple_live_def)
    then have "slot_live (slot_of h1 i)" and "i < length (hp_objects h1)"
      using mark_gray_same_store [OF h1] len same_store_nth(1) [of h h1 i] same_store_length [of h h1]
      by (simp_all add: slot_live_def)
    with mark_gray_closed [OF Cons.prems(1) h1] have "P (h1\<lparr>hp_roots := insert i (hp_roots h1)\<rparr>)"
      by (intro P_add_root)
    with rest show ?thesis by (rule Cons.IH [rotated])
  next
    case False
    have p1: "P (paint h i Black)" using P_paint Cons.prems(1) len by simp
    then have "slot_anchors ?slot = 0 \<Longrightarrow> P (release_internal env (paint h i Black) i)"
      using len by (intro release_internal_closed) simp_all
    with p1 Cons.prems(2) False len show ?thesis
      by (auto simp: Let_def intro: Cons.IH split: if_splits)
  qed
qed simp

lemma black_refs_closed: "P h \<Longrightarrow> black_refs h rs = Some h' \<Longrightarrow> P h'"
proof (induction h rs rule: black_refs.induct)
  case (2 h r rs)
  show ?case
    using "2.prems" "2.IH" P_add_edge [of h "ref_idx r"] P_paint [of "add_edge h (ref_idx r)" "ref_idx r" Black]
    by (auto simp: black_refs.simps(2) Let_def split: if_splits)
qed simp

lemma scan_black_closed: "P h \<Longrightarrow> scan_black h i = Some h' \<Longrightarrow> P h'"
  using P_paint [of h i Black] by (auto simp: scan_black_def split: if_splits dest: black_refs_closed)

lemma scan_refs_closed: "P h \<Longrightarrow> scan_refs h rs = Some h' \<Longrightarrow> P h'"
proof (induction h rs rule: scan_refs.induct)
  case (2 h r rs)
  show ?case
    using "2.prems" "2.IH" P_paint [of h "ref_idx r" White]
    by (auto simp: scan_refs.simps(2) Let_def split: if_splits option.splits dest: scan_black_closed)
qed simp

lemma scan_closed: "P h \<Longrightarrow> scan h i = Some h' \<Longrightarrow> P h'"
  using P_paint [of h i White]
  by (auto simp: scan_def split: if_splits dest: scan_refs_closed scan_black_closed)

lemma scan_roots_loop_closed: "P h \<Longrightarrow> scan_roots_loop h is = Some h' \<Longrightarrow> P h'"
  by (induction h "is" rule: scan_roots_loop.induct) (auto split: option.splits dest: scan_closed)

lemma collect_roots_loop_closed_aux:
  "e = env \<Longrightarrow> P h \<Longrightarrow> collect_roots_loop e h is = Some h' \<Longrightarrow> P h'"
proof (induction e h "is" rule: collect_roots_loop.induct)
  case (2 e h i "is")
  then show ?case
    using P_paint [of h i Black] by (auto simp: collect_white_def split: if_splits)
qed simp

lemma collect_cycles_closed:
  assumes "P h" and "collect_cycles env h = Some h'"
  shows "P h'"
proof (cases "hp_roots h = {}")
  case True
  with assms show ?thesis by (simp add: collect_cycles_def)
next
  case False
  with assms(2) obtain h1 h2 where h1: "mark_roots env h = Some h1" and h2: "scan_roots env h1 = Some h2"
    and h': "collect_roots env h2 = Some h'"
    by (auto simp: collect_cycles_def split: option.splits)
  have "P h1" using h1 mark_roots_loop_closed P_no_roots [OF assms(1)] by (simp add: mark_roots_def)
  then have "P h2" using h2 scan_roots_loop_closed by (simp add: scan_roots_def)
  then show ?thesis
    using h' collect_roots_loop_closed_aux [OF refl P_no_roots] by (auto simp: collect_roots_def)
qed

end

section \<open>Slot bookkeeping\<close>

text \<open>
  The free list holds each dead slot once and no live one; candidate roots are live; only live
  slots are purple.
\<close>

definition heap_wf :: "PrivateHeap \<Rightarrow> bool" where
  "heap_wf h \<longleftrightarrow> purple_live h \<and> distinct (hp_free_slots h) \<and>
     set (hp_free_slots h) = {i. i < length (hp_objects h) \<and> \<not> slot_live (slot_of h i)} \<and>
     hp_roots h \<subseteq> {i. i < length (hp_objects h) \<and> slot_live (slot_of h i)}"

lemma purple_live_update:
  "purple_live h \<Longrightarrow> hp_objects h' = (hp_objects h)[i := s] \<Longrightarrow> (slot_color s = Purple \<Longrightarrow> slot_live s) \<Longrightarrow>
   purple_live h'"
  by (auto simp: purple_live_def nth_list_update_if)

lemma purple_live_prim:
  assumes "purple_live h" and "i < length (hp_objects h)"
  shows "purple_live (drop_edge h i)" and "purple_live (add_edge h i)"
    and "c \<noteq> Purple \<Longrightarrow> purple_live (paint h i c)"
    and "slot_live (slot_of h i) \<Longrightarrow> purple_live (suspect h i)"
    and "purple_live (fst (detach env h i))"
  using assms
  by (auto simp: purple_live_def nth_list_update_if detach_def Let_def slot_live_def split: option.splits)

lemma purple_live_roots [simp]: "purple_live (h\<lparr>hp_roots := R\<rparr>) = purple_live h"
  by (simp add: purple_live_def)

text \<open>A change of colours and counts in one slot keeps the bookkeeping.\<close>

lemma heap_wf_recolor:
  assumes "heap_wf h" and "i < length (hp_objects h)"
    and "hp_objects h' = (hp_objects h)[i := s]" and "slot_live s = slot_live (slot_of h i)"
    and "hp_free_slots h' = hp_free_slots h" and "purple_live h'"
    and "hp_roots h' \<subseteq> hp_roots h \<union> (if slot_live s then {i} else {})"
  shows "heap_wf h'"
proof -
  have live: "slot_live (slot_of h' j) = slot_live (slot_of h j)" if "j < length (hp_objects h)" for j
    using assms(2-4) that by (auto simp: nth_list_update_if)
  have len: "length (hp_objects h') = length (hp_objects h)" using assms(3) by simp
  have "{j. j < length (hp_objects h') \<and> \<not> slot_live (slot_of h' j)} =
        {j. j < length (hp_objects h) \<and> \<not> slot_live (slot_of h j)}"
    using live len by auto
  moreover have "hp_roots h' \<subseteq> {j. j < length (hp_objects h') \<and> slot_live (slot_of h' j)}"
  proof
    fix x
    assume "x \<in> hp_roots h'"
    with assms(7) have "x = i \<and> slot_live s \<or> x \<in> hp_roots h" by (auto split: if_splits)
    with assms(1,2,4) have "x < length (hp_objects h) \<and> slot_live (slot_of h x)"
      by (auto simp: heap_wf_def)
    with live len show "x \<in> {j. j < length (hp_objects h') \<and> slot_live (slot_of h' j)}" by simp
  qed
  ultimately show ?thesis
    using assms(1,5,6) by (simp add: heap_wf_def)
qed

lemma heap_wf_detach:
  assumes wf: "heap_wf h" and len: "i < length (hp_objects h)"
  shows "heap_wf (fst (detach env h i))"
proof (cases "slot_object (slot_of h i)")
  case None
  then show ?thesis
    using wf len purple_live_prim(5) [of h i env]
    by (intro heap_wf_recolor [OF wf len, of _ "slot_of h i\<lparr>slot_color := Black\<rparr>"])
       (auto simp: detach_def heap_wf_def)
next
  case (Some obj)
  let ?h = "fst (detach env h i)"
  have objs: "hp_objects ?h = (hp_objects h)[i := slot_of h i\<lparr>slot_color := Black, slot_object := None\<rparr>]"
    and free: "hp_free_slots ?h = hp_free_slots h @ [i]" and roots: "hp_roots ?h = hp_roots h - {i}"
    using Some len by (simp_all add: detach_def)
  have live: "slot_live (slot_of ?h j) \<longleftrightarrow> j \<noteq> i \<and> slot_live (slot_of h j)" if "j < length (hp_objects h)" for j
    using that by (auto simp: objs nth_list_update_if slot_live_def)
  have "i \<notin> set (hp_free_slots h)"
    using wf Some by (auto simp: heap_wf_def slot_live_def)
  moreover have "set (hp_free_slots ?h) = {j. j < length (hp_objects ?h) \<and> \<not> slot_live (slot_of ?h j)}"
    using wf len live by (auto simp: free heap_wf_def objs)
  moreover have "hp_roots ?h \<subseteq> {j. j < length (hp_objects ?h) \<and> slot_live (slot_of ?h j)}"
    using wf live by (auto simp: roots heap_wf_def objs)
  ultimately show ?thesis
    using wf len purple_live_prim(5) [of h i env] by (simp add: heap_wf_def free)
qed

interpretation wf_heap: heap_closed env heap_wf for env
proof unfold_locales
  fix h i c
  assume wf: "heap_wf h"
  show p: "purple_live h" using wf by (simp add: heap_wf_def)
  show "heap_wf (h\<lparr>hp_roots := {}\<rparr>)" using wf by (simp add: heap_wf_def)
  assume len: "i < length (hp_objects h)"
  note pl = purple_live_prim [OF p len]
  note recolor = heap_wf_recolor [OF wf len]
  show "heap_wf (drop_edge h i)" by (rule recolor [OF hp_drop_edge(1)]) (simp_all add: pl)
  show "heap_wf (add_edge h i)" by (rule recolor [OF hp_add_edge(1)]) (simp_all add: pl)
  show "heap_wf (fst (detach env h i))" by (rule heap_wf_detach [OF wf len])
  { assume "c \<noteq> Purple"
    then show "heap_wf (paint h i c)" by (intro recolor [OF hp_paint(1)]) (simp_all add: pl) }
  { assume live: "slot_live (slot_of h i)"
    then show "heap_wf (suspect h i)" by (intro recolor [OF hp_suspect(1)]) (auto simp: pl)
    show "heap_wf (h\<lparr>hp_roots := insert i (hp_roots h)\<rparr>)"
      using wf len live by (simp add: heap_wf_def) }
qed

section \<open>Quota accounting\<close>

definition slot_bytes :: "HostEnv \<Rightarrow> HeapSlot \<Rightarrow> nat" where
  "slot_bytes env s = (case slot_object s of None \<Rightarrow> 0 | Some obj \<Rightarrow> unat (heap_bytes env obj))"

definition live_bytes :: "HostEnv \<Rightarrow> PrivateHeap \<Rightarrow> nat" where
  "live_bytes env h = sum_list (map (slot_bytes env) (hp_objects h))"

lemma sum_list_map_update:
  fixes f :: "'a \<Rightarrow> nat"
  assumes "i < length xs"
  shows "sum_list (map f (xs[i := x])) + f (xs ! i) = sum_list (map f xs) + f x"
  using assms
proof (induction xs arbitrary: i)
  case (Cons y ys)
  then show ?case by (cases i) (auto simp: algebra_simps)
qed simp

text \<open>
  The quota counts exactly the live objects and their bytes, plus \<open>n\<close> objects and \<open>b\<close> bytes that
  are reserved but not placed yet, and both totals respect the limits \<open>l\<close>.
\<close>

definition quota_exact :: "HostEnv \<Rightarrow> LimitsMetadata \<Rightarrow> nat \<Rightarrow> nat \<Rightarrow> PrivateHeap \<Rightarrow> bool" where
  "quota_exact env l n b h \<longleftrightarrow> tq_limits (hp_quota h) = l \<and>
     unat (tq_heap_objects (hp_quota h)) = live_count h + n \<and>
     unat (tq_heap_bytes (hp_quota h)) = live_bytes env h + b \<and>
     live_count h + n \<le> unat (max_heap_objects l) \<and> live_bytes env h + b \<le> unat (max_heap_bytes l)"

lemma quota_exact_same_objects:
  assumes "quota_exact env l n b h" and "i < length (hp_objects h)" and "hp_quota h' = hp_quota h"
    and "hp_objects h' = (hp_objects h)[i := s]" and "slot_object s = slot_object (slot_of h i)"
  shows "quota_exact env l n b h'"
proof -
  have "live_count h' = live_count h"
    using assms(2,4,5) by (simp add: live_count_def length_filter_update_same slot_live_def)
  moreover have "live_bytes env h' = live_bytes env h"
    using assms(2,4,5) sum_list_map_update [of i "hp_objects h" "slot_bytes env" s]
    by (simp add: live_bytes_def slot_bytes_def)
  ultimately show ?thesis using assms(1,3) by (simp add: quota_exact_def)
qed

text \<open>Freeing the object of a live slot gives back exactly what it was charged.\<close>

lemma quota_exact_free:
  assumes "quota_exact env l n b h" and "i < length (hp_objects h)"
    and "slot_object (slot_of h i) = Some obj" and "slot_object s = None"
    and "hp_quota h' = release_heap (hp_quota h) 1 (heap_bytes env obj)"
    and "hp_objects h' = (hp_objects h)[i := s]"
  shows "quota_exact env l n b h'"
proof -
  let ?q = "hp_quota h"
  have c: "live_count h' + 1 = live_count h"
    using assms(2-4,6) length_filter_list_update [of i "hp_objects h" slot_live s]
    by (simp add: live_count_def slot_live_def)
  have y: "live_bytes env h' + unat (heap_bytes env obj) = live_bytes env h"
    using assms(2-4,6) sum_list_map_update [of i "hp_objects h" "slot_bytes env" s]
    by (simp add: live_bytes_def slot_bytes_def)
  have o1: "unat (1 :: usize) \<le> unat (tq_heap_objects ?q)"
    and y1: "unat (heap_bytes env obj) \<le> unat (tq_heap_bytes ?q)"
    using assms(1) c y by (auto simp: quota_exact_def)
  have "unat (tq_heap_objects ?q - 1) = unat (tq_heap_objects ?q) - 1"
    using o1 by (simp add: unat_sub word_le_nat_alt)
  moreover have "unat (tq_heap_bytes ?q - heap_bytes env obj) =
                 unat (tq_heap_bytes ?q) - unat (heap_bytes env obj)"
    using y1 by (simp add: unat_sub word_le_nat_alt)
  ultimately show ?thesis
    using assms(1,5) c y by (auto simp: quota_exact_def release_heap_def)
qed

lemma quota_exact_detach:
  assumes "quota_exact env l n b h" and "i < length (hp_objects h)"
  shows "quota_exact env l n b (fst (detach env h i))"
proof (cases "slot_object (slot_of h i)")
  case None
  show ?thesis
    by (rule quota_exact_same_objects [OF assms, of _ "slot_of h i\<lparr>slot_color := Black\<rparr>"])
       (simp_all add: detach_def None)
next
  case (Some obj)
  show ?thesis
    by (rule quota_exact_free [OF assms Some, of "slot_of h i\<lparr>slot_color := Black, slot_object := None\<rparr>"])
       (simp_all add: detach_def Some assms(2))
qed

interpretation exact_quota: heap_closed env "\<lambda>h. purple_live h \<and> quota_exact env l n b h" for env l n b
proof unfold_locales
  fix h i c
  assume P: "purple_live h \<and> quota_exact env l n b h"
  then show "purple_live h" by simp
  have roots: "quota_exact env l n b (h\<lparr>hp_roots := R\<rparr>)" for R
    using P by (simp add: quota_exact_def live_count_def live_bytes_def)
  show "purple_live (h\<lparr>hp_roots := {}\<rparr>) \<and> quota_exact env l n b (h\<lparr>hp_roots := {}\<rparr>)"
    using P roots by simp
  assume len: "i < length (hp_objects h)"
  from P have pl: "purple_live h" and qe: "quota_exact env l n b h" by simp_all
  note pl = purple_live_prim [OF pl len]
  note same = quota_exact_same_objects [OF qe len]
  show "purple_live (drop_edge h i) \<and> quota_exact env l n b (drop_edge h i)"
    using pl(1) same [OF hp_drop_edge(5,1)] by simp
  show "purple_live (add_edge h i) \<and> quota_exact env l n b (add_edge h i)"
    using pl(2) same [OF hp_add_edge(5,1)] by simp
  show "purple_live (fst (detach env h i)) \<and> quota_exact env l n b (fst (detach env h i))"
    using pl(5) quota_exact_detach [OF qe len] by simp
  { assume "c \<noteq> Purple"
    then show "purple_live (paint h i c) \<and> quota_exact env l n b (paint h i c)"
      using pl(3) same [OF hp_paint(5,1)] by simp }
  { assume "slot_live (slot_of h i)"
    then show "purple_live (suspect h i) \<and> quota_exact env l n b (suspect h i)"
      using pl(4) same [OF hp_suspect(5,1)] by simp
    show "purple_live (h\<lparr>hp_roots := insert i (hp_roots h)\<rparr>) \<and>
          quota_exact env l n b (h\<lparr>hp_roots := insert i (hp_roots h)\<rparr>)"
      using P roots by simp }
qed

section \<open>Anchored objects\<close>

text \<open>Slot \<open>i\<close> holds object \<open>obj\<close> of generation \<open>g\<close>, anchored \<open>a\<close> times.\<close>

definition anchored :: "nat \<Rightarrow> u32 \<Rightarrow> u32 \<Rightarrow> HeapObject \<Rightarrow> PrivateHeap \<Rightarrow> bool" where
  "anchored i g a obj h \<longleftrightarrow> i < length (hp_objects h) \<and> a > 0 \<and>
     slot_generation (slot_of h i) = g \<and> slot_anchors (slot_of h i) = a \<and>
     slot_object (slot_of h i) = Some obj"

interpretation anchored_kept: heap_closed env "\<lambda>h. purple_live h \<and> anchored i g a obj h" for env i g a obj
proof unfold_locales
  fix h j c
  assume P: "purple_live h \<and> anchored i g a obj h"
  then show "purple_live h" by simp
  show "purple_live (h\<lparr>hp_roots := {}\<rparr>) \<and> anchored i g a obj (h\<lparr>hp_roots := {}\<rparr>)"
    using P by (simp add: anchored_def)
  assume len: "j < length (hp_objects h)"
  from P have pl: "purple_live h" by simp
  note pl = purple_live_prim [OF pl len]
  show "purple_live (drop_edge h j) \<and> anchored i g a obj (drop_edge h j)"
    and "purple_live (add_edge h j) \<and> anchored i g a obj (add_edge h j)"
    using P pl(1,2) by (auto simp: anchored_def nth_list_update_if)
  { assume "c \<noteq> Purple"
    then show "purple_live (paint h j c) \<and> anchored i g a obj (paint h j c)"
      using P pl(3) by (auto simp: anchored_def nth_list_update_if) }
  { assume "slot_live (slot_of h j)"
    then show "purple_live (suspect h j) \<and> anchored i g a obj (suspect h j)"
      using P pl(4) by (auto simp: anchored_def nth_list_update_if)
    show "purple_live (h\<lparr>hp_roots := insert j (hp_roots h)\<rparr>) \<and>
          anchored i g a obj (h\<lparr>hp_roots := insert j (hp_roots h)\<rparr>)"
      using P by (simp add: anchored_def) }
  { assume "slot_anchors (slot_of h j) = 0"
    then show "purple_live (fst (detach env h j)) \<and> anchored i g a obj (fst (detach env h j))"
      using P pl(5) by (auto simp: anchored_def nth_list_update_if detach_def Let_def split: option.splits) }
qed

end
