(* ===== verification/Vm_Heap_Props.thy ===== *)
theory Vm_Heap_Props
  imports Vm_Heap_Safety
begin

text \<open>
  What a client of the private heap can rely on, over every sequence of calls of its public
  operations: bookkeeping and quota stay exact, a new reference resolves to the allocated object,
  a dead reference never resolves again, an anchored object stays, and no call panics while all
  references stored in objects are in range.  Two further theorems record what the cycle
  collector does to unreachable and to reachable objects.
\<close>

section \<open>Sequences of calls\<close>

datatype heap_call =
    CAlloc HeapObject
  | CFree VmObjectRef
  | CRetainAnchor VmObjectRef
  | CReleaseAnchor VmObjectRef
  | CRetainEdge VmObjectRef
  | CReleaseEdge VmObjectRef
  | CWrite VmObjectRef HeapObject
  | CCollect
  | CExtract

fun heap_apply :: "HostEnv \<Rightarrow> PrivateHeap \<Rightarrow> heap_call \<Rightarrow> PrivateHeap option" where
  "heap_apply env h (CAlloc obj) = map_option snd (alloc env h obj)"
| "heap_apply env h (CFree r) = Some (snd (free_object env h r))"
| "heap_apply env h (CRetainAnchor r) = Some (snd (retain_anchor h r))"
| "heap_apply env h (CReleaseAnchor r) = Some (snd (release_anchor env h r))"
| "heap_apply env h (CRetainEdge r) = Some (snd (retain_edge h r))"
| "heap_apply env h (CReleaseEdge r) = Some (snd (release_edge env h r))"
| "heap_apply env h (CWrite r obj) = Some (case put_object h r obj of Inr h1 \<Rightarrow> h1 | Inl _ \<Rightarrow> h)"
| "heap_apply env h CCollect = collect_cycles env h"
| "heap_apply env h CExtract = Some (snd (extract_adapter_handles env h))"

fun heap_run :: "HostEnv \<Rightarrow> PrivateHeap \<Rightarrow> heap_call list \<Rightarrow> PrivateHeap option" where
  "heap_run env h [] = Some h"
| "heap_run env h (c # cs) = Option.bind (heap_apply env h c) (\<lambda>h1. heap_run env h1 cs)"

text \<open>
  A write replaces an object through the reference that \<open>get_object_mut\<close> gives out.  The heap itself sets no limit to what is
  written; what a client has to keep is a predicate on the heap before the write, the reference and the new object.
\<close>

fun writes_ok :: "(PrivateHeap \<Rightarrow> VmObjectRef \<Rightarrow> HeapObject \<Rightarrow> bool) \<Rightarrow> HostEnv \<Rightarrow> PrivateHeap \<Rightarrow> heap_call list \<Rightarrow> bool" where
  "writes_ok ok env h [] = True"
| "writes_ok ok env h (c # cs) =
    ((case c of CWrite r obj \<Rightarrow> ok h r obj | _ \<Rightarrow> True) \<and>
     (case heap_apply env h c of None \<Rightarrow> True | Some h1 \<Rightarrow> writes_ok ok env h1 cs))"

lemma writes_ok_any [simp]: "writes_ok (\<lambda>_ _ _. True) env h cs"
  by (induction cs arbitrary: h) (auto split: option.splits heap_call.splits)

lemma hp_put_object:
  assumes "put_object h r obj = Inr h'"
  shows "ref_live h r" "hp_objects h' = (hp_objects h)[ref_idx r := slot_of h (ref_idx r)\<lparr>slot_object := Some obj\<rparr>]"
    "hp_free_slots h' = hp_free_slots h" "hp_roots h' = hp_roots h" "hp_quota h' = hp_quota h"
  using assms by (auto simp: put_object_def split: if_splits)

lemma hp_retain_anchor:
  assumes "ref_live h r"
  shows "hp_objects (snd (retain_anchor h r)) = (hp_objects h)[ref_idx r := slot_of h (ref_idx r)
           \<lparr>slot_anchors := saturating_add (slot_anchors (slot_of h (ref_idx r))) 1, slot_color := Black\<rparr>]"
    and "hp_free_slots (snd (retain_anchor h r)) = hp_free_slots h"
    and "hp_roots (snd (retain_anchor h r)) = hp_roots h - {ref_idx r}"
    and "hp_quota (snd (retain_anchor h r)) = hp_quota h"
  using assms by (simp_all add: retain_anchor_def Let_def)

lemma hp_retain_edge:
  assumes "ref_live h r"
  shows "hp_objects (snd (retain_edge h r)) = (hp_objects h)[ref_idx r := slot_of h (ref_idx r)
           \<lparr>slot_edges := saturating_add (slot_edges (slot_of h (ref_idx r))) 1, slot_color := Black\<rparr>]"
    and "hp_free_slots (snd (retain_edge h r)) = hp_free_slots h"
    and "hp_roots (snd (retain_edge h r)) = hp_roots h - {ref_idx r}"
    and "hp_quota (snd (retain_edge h r)) = hp_quota h"
  using assms by (simp_all add: retain_edge_def Let_def)

lemma hp_free_object:
  assumes "ref_live h r"
  shows "hp_objects (snd (free_object env h r)) = (hp_objects h)[ref_idx r := slot_of h (ref_idx r)
           \<lparr>slot_object := None, slot_anchors := 0, slot_edges := 0, slot_color := Black\<rparr>]"
    and "hp_free_slots (snd (free_object env h r)) = hp_free_slots h @ [ref_idx r]"
    and "hp_roots (snd (free_object env h r)) = hp_roots h - {ref_idx r}"
  using assms by (simp_all add: free_object_def Let_def)

lemmas hp_calls = hp_retain_anchor hp_retain_edge hp_free_object

text \<open>The invariants of the calls that are not covered by \<open>heap_closed\<close> alone.\<close>

locale heap_invariant = heap_closed +
  assumes P_free: "P h \<Longrightarrow> ref_live h r \<Longrightarrow> P (snd (free_object env h r))"
    and P_retain_anchor: "P h \<Longrightarrow> ref_live h r \<Longrightarrow> P (snd (retain_anchor h r))"
    and P_retain_edge: "P h \<Longrightarrow> ref_live h r \<Longrightarrow> P (snd (retain_edge h r))"
    and P_drop_anchor: "P h \<Longrightarrow> ref_live h r \<Longrightarrow> P (drop_anchor h (ref_idx r))"
begin

lemma free_object_closed: "P h \<Longrightarrow> P (snd (free_object env h r))"
  using P_free [of h r] by (cases "ref_live h r") (simp_all add: free_object_def)

lemma retain_anchor_closed: "P h \<Longrightarrow> P (snd (retain_anchor h r))"
  using P_retain_anchor [of h r] by (cases "ref_live h r") (simp_all add: retain_anchor_def)

lemma retain_edge_closed: "P h \<Longrightarrow> P (snd (retain_edge h r))"
  using P_retain_edge [of h r] by (cases "ref_live h r") (simp_all add: retain_edge_def)

lemma release_anchor_closed:
  assumes "P h"
  shows "P (snd (release_anchor env h r))"
proof (cases "ref_live h r")
  case True
  let ?h1 = "drop_anchor h (ref_idx r)" and ?i = "ref_idx r"
  have p1: "P ?h1" using P_drop_anchor assms True by blast
  have "?i < length (hp_objects ?h1)" and "slot_live (slot_of ?h1 ?i)"
    using True by (auto simp: ref_live_def slot_live_def)
  then have "P (suspect ?h1 ?i)"
    and "slot_anchors (slot_of ?h1 ?i) = 0 \<Longrightarrow> P (release_internal env ?h1 ?i)"
    using P_suspect release_internal_closed p1 by blast+
  with p1 True show ?thesis by (simp add: release_anchor_def Let_def)
qed (simp add: release_anchor_def assms)

lemma extract_closed: "P h \<Longrightarrow> P (snd (extract_adapter_handles env h))"
proof -
  have "P h \<Longrightarrow> P (foldl (\<lambda>h r. snd (free_object env h r)) h rs)" for h rs
    by (induction rs arbitrary: h) (auto intro: free_object_closed)
  then show "P h \<Longrightarrow> P (snd (extract_adapter_handles env h))"
    by (simp add: extract_adapter_handles_def)
qed

lemma heap_apply_closed:
  "P h \<Longrightarrow> heap_apply env h c = Some h' \<Longrightarrow> (\<And>obj. c \<noteq> CAlloc obj) \<Longrightarrow> (\<And>r obj. c \<noteq> CWrite r obj) \<Longrightarrow> P h'"
  by (cases c)
     (auto intro: free_object_closed retain_anchor_closed retain_edge_closed
        release_anchor_closed release_edge_closed collect_cycles_closed extract_closed)

end

locale heap_history = heap_invariant env P for env P +
  fixes writable :: "PrivateHeap \<Rightarrow> VmObjectRef \<Rightarrow> HeapObject \<Rightarrow> bool"
  assumes P_alloc: "P h \<Longrightarrow> alloc env h obj = Some (res, h') \<Longrightarrow> P h'"
    and P_write: "P h \<Longrightarrow> writable h r obj \<Longrightarrow> put_object h r obj = Inr h' \<Longrightarrow> P h'"
begin

lemma heap_run_closed: "P h \<Longrightarrow> heap_run env h cs = Some h' \<Longrightarrow> writes_ok writable env h cs \<Longrightarrow> P h'"
proof (induction cs arbitrary: h)
  case (Cons c cs)
  then obtain h1 where h1: "heap_apply env h c = Some h1" and rest: "heap_run env h1 cs = Some h'"
    by (auto simp: bind_eq_Some_conv)
  have "P h1"
  proof (cases c)
    case (CAlloc obj)
    with h1 P_alloc [of h obj _ h1] Cons.prems(1) show ?thesis by auto
  next
    case (CWrite r obj)
    with h1 P_write [of h r obj] Cons.prems(1,3) show ?thesis by (auto split: sum.splits)
  qed (use heap_apply_closed [OF Cons.prems(1) h1] in auto)
  moreover have "writes_ok writable env h1 cs" using Cons.prems(3) h1 by simp
  ultimately show ?case using Cons.IH rest by blast
qed simp

end

section \<open>Allocation\<close>

text \<open>
  \<open>alloc\<close> in three steps: a refused reservation leaves the heap alone; a granted one is followed by
  at most one run of the collector and by placing the object.
\<close>

definition reserved :: "HostEnv \<Rightarrow> PrivateHeap \<Rightarrow> HeapObject \<Rightarrow> PrivateHeap" where
  "reserved env h obj =
     h\<lparr>hp_quota := snd (try_reserve_heap (hp_quota h) 1 (heap_bytes env obj)),
       hp_allocations := hp_allocations h + 1\<rparr>"

definition collected :: "HostEnv \<Rightarrow> PrivateHeap \<Rightarrow> PrivateHeap option" where
  "collected env h =
     (if hp_allocations h \<ge> 500 then map_option (\<lambda>h2. h2\<lparr>hp_allocations := 0\<rparr>) (collect_cycles env h)
      else Some h)"

lemma reserved_simps [simp]:
  "hp_objects (reserved env h obj) = hp_objects h" "hp_free_slots (reserved env h obj) = hp_free_slots h"
  "hp_roots (reserved env h obj) = hp_roots h"
  "hp_quota (reserved env h obj) = snd (try_reserve_heap (hp_quota h) 1 (heap_bytes env obj))"
  by (simp_all add: reserved_def)

lemma alloc_steps:
  "alloc env h obj =
    (case fst (try_reserve_heap (hp_quota h) 1 (heap_bytes env obj)) of
       Inl e \<Rightarrow> Some (Inl (VmResourceLimitExceeded e), h)
     | Inr _ \<Rightarrow> map_option (\<lambda>h2. place_object h2 obj) (collected env (reserved env h obj)))"
  using try_reserve_heap_refused [of "hp_quota h" 1 "heap_bytes env obj"]
  by (auto simp: alloc_def collected_def reserved_def Let_def option.map_comp comp_def
           split: prod.splits sum.splits)

lemma alloc_cases:
  assumes "alloc env h obj = Some (res, h')"
  obtains (refused) e where "res = Inl (VmResourceLimitExceeded e)" and "h' = h"
  | (placed) h2 where "fst (try_reserve_heap (hp_quota h) 1 (heap_bytes env obj)) = Inr ()"
      and "collected env (reserved env h obj) = Some h2" and "place_object h2 obj = (res, h')"
  using assms by (auto simp: alloc_steps split: sum.splits)

context heap_closed
begin

lemma collected_closed:
  assumes "P h" and "collected env h = Some h2" and "\<And>h. P h \<Longrightarrow> P (h\<lparr>hp_allocations := 0\<rparr>)"
  shows "P h2"
  using assms by (auto simp: collected_def split: if_splits intro: collect_cycles_closed)

end

section \<open>Exact bookkeeping\<close>

lemma heap_closed_conj:
  "heap_closed env P \<Longrightarrow> heap_closed env Q \<Longrightarrow> heap_closed env (\<lambda>h. P h \<and> Q h)"
  by (simp add: heap_closed_def)

text \<open>
  The limits under which the 32-bit slot index and the saturating comparison of the quota are
  enough.  The default limits satisfy it.
\<close>

definition heap_limits_ok :: "LimitsMetadata \<Rightarrow> bool" where
  "heap_limits_ok l \<longleftrightarrow> unat (max_heap_objects l) < 2 ^ 32 \<and> max_heap_bytes l < - 1"

definition heap_exact :: "HostEnv \<Rightarrow> LimitsMetadata \<Rightarrow> PrivateHeap \<Rightarrow> bool" where
  "heap_exact env l h \<longleftrightarrow> heap_limits_ok l \<and> heap_wf h \<and> quota_exact env l 0 0 h"

text \<open>An object freed by hand: the slot is dead, its counts are reset, its quota is back.\<close>

lemma heap_wf_kill:
  assumes wf: "heap_wf h" and live: "ref_live h r"
    and objs: "hp_objects h' = (hp_objects h)[ref_idx r := s]" and dead: "\<not> slot_live s" "slot_color s = Black"
    and free: "hp_free_slots h' = hp_free_slots h @ [ref_idx r]" and roots: "hp_roots h' = hp_roots h - {ref_idx r}"
  shows "heap_wf h'"
proof -
  let ?i = "ref_idx r"
  have i: "?i < length (hp_objects h)" "slot_live (slot_of h ?i)"
    using live by (auto simp: ref_live_def slot_live_def)
  have live': "slot_live (slot_of h' j) \<longleftrightarrow> j \<noteq> ?i \<and> slot_live (slot_of h j)"
    if "j < length (hp_objects h)" for j
    using that dead by (auto simp: objs nth_list_update_if)
  have "?i \<notin> set (hp_free_slots h)" using wf i by (auto simp: heap_wf_def)
  moreover have "purple_live h'"
    using wf dead by (intro purple_live_update [OF _ objs]) (auto simp: heap_wf_def)
  ultimately show ?thesis
    using wf live' i by (auto simp: heap_wf_def free roots objs)
qed

lemma heap_exact_same:
  assumes "heap_exact env l h" and "i < length (hp_objects h)"
    and "hp_objects h' = (hp_objects h)[i := s]" and "slot_object s = slot_object (slot_of h i)"
    and "hp_free_slots h' = hp_free_slots h" and "hp_quota h' = hp_quota h"
    and "hp_roots h' \<subseteq> hp_roots h" and "slot_color s = Purple \<Longrightarrow> slot_color (slot_of h i) = Purple"
  shows "heap_exact env l h'"
proof -
  from assms(1) have wf: "heap_wf h" and qe: "quota_exact env l 0 0 h" and pl: "purple_live h"
    by (simp_all add: heap_exact_def heap_wf_def)
  have "purple_live h'"
    using pl assms(2,4,8)
    by (intro purple_live_update [OF _ assms(3)]) (auto simp: purple_live_def slot_live_def)
  then have "heap_wf h'"
    using assms by (intro heap_wf_recolor [OF wf assms(2,3)]) (auto simp: slot_live_def)
  moreover have "quota_exact env l 0 0 h'"
    using quota_exact_same_objects [OF qe assms(2,6,3,4)] .
  ultimately show ?thesis using assms(1) by (simp add: heap_exact_def)
qed

text \<open>A write that keeps the size that is charged for the object.\<close>

definition same_size :: "HostEnv \<Rightarrow> PrivateHeap \<Rightarrow> VmObjectRef \<Rightarrow> HeapObject \<Rightarrow> bool" where
  "same_size env h r obj \<longleftrightarrow> (case get_object h r of Inr old \<Rightarrow> heap_bytes env obj = heap_bytes env old | Inl _ \<Rightarrow> True)"

lemma heap_wf_write:
  assumes "heap_wf h" and "put_object h r obj = Inr h'"
  shows "heap_wf h'"
proof -
  note w = hp_put_object [OF assms(2)]
  have i: "ref_idx r < length (hp_objects h)" "slot_live (slot_of h (ref_idx r))" using w(1) by (auto simp: ref_live_def slot_live_def)
  have "purple_live h'" using assms(1) w by (intro purple_live_update [OF _ w(2)]) (simp_all add: heap_wf_def)
  then show ?thesis using w i by (intro heap_wf_recolor [OF assms(1) i(1) w(2)]) auto
qed

lemma heap_exact_write:
  assumes ex: "heap_exact env l h" and size: "same_size env h r obj" and put: "put_object h r obj = Inr h'"
  shows "heap_exact env l h'"
proof -
  note w = hp_put_object [OF put]
  let ?i = "ref_idx r" and ?s = "slot_of h (ref_idx r)\<lparr>slot_object := Some obj\<rparr>"
  from w(1) obtain old where old: "slot_object (slot_of h ?i) = Some old" and i: "?i < length (hp_objects h)"
    by (auto simp: ref_live_def)
  have "heap_bytes env obj = heap_bytes env old"
    using size w(1) old by (simp add: same_size_def get_object_def ref_live_def)
  then have bytes: "slot_bytes env ?s = slot_bytes env (slot_of h ?i)" using old by (simp add: slot_bytes_def)
  have "live_count h' = live_count h"
    using w(2) i old by (simp add: live_count_def length_filter_update_same slot_live_def)
  moreover have "live_bytes env h' = live_bytes env h"
    using w(2) i bytes sum_list_map_update [of ?i "hp_objects h" "slot_bytes env" ?s] by (simp add: live_bytes_def)
  ultimately have "quota_exact env l 0 0 h'" using ex w(5) by (simp add: heap_exact_def quota_exact_def)
  with ex heap_wf_write [OF _ put] show ?thesis by (simp add: heap_exact_def)
qed

lemma heap_exact_free:
  assumes "heap_exact env l h" and "ref_live h r"
  shows "heap_exact env l (snd (free_object env h r))"
proof -
  let ?i = "ref_idx r" and ?h = "snd (free_object env h r)"
  from assms obtain obj where obj: "slot_object (slot_of h ?i) = Some obj" and i: "?i < length (hp_objects h)"
    by (auto simp: ref_live_def)
  let ?s = "slot_of h ?i\<lparr>slot_object := None, slot_anchors := 0, slot_edges := 0, slot_color := Black\<rparr>"
  have "heap_wf ?h"
    by (rule heap_wf_kill [of h r _ ?s]) (use assms in \<open>simp_all add: heap_exact_def free_object_def Let_def slot_live_def\<close>)
  moreover have "quota_exact env l 0 0 ?h"
    by (rule quota_exact_free [OF _ i obj, of _ _ _ _ ?s]) (use assms obj in \<open>simp_all add: heap_exact_def free_object_def Let_def\<close>)
  ultimately show ?thesis using assms(1) by (simp add: heap_exact_def)
qed

text \<open>A full slot table means every slot is live, so the quota bounds the number of slots.\<close>

lemma heap_wf_full:
  assumes "heap_wf h" and "hp_free_slots h = []"
  shows "live_count h = length (hp_objects h)"
proof -
  have "{i. i < length (hp_objects h) \<and> \<not> slot_live (slot_of h i)} = {}"
    using assms unfolding heap_wf_def by simp
  then have "\<forall>s \<in> set (hp_objects h). slot_live s" unfolding set_conv_nth by blast
  then show ?thesis by (simp add: live_count_def)
qed

lemma quota_exact_reserved:
  assumes "heap_exact env l h" and "fst (try_reserve_heap (hp_quota h) 1 (heap_bytes env obj)) = Inr ()"
  shows "quota_exact env l 1 (unat (heap_bytes env obj)) (reserved env h obj)"
proof -
  let ?q = "hp_quota h" and ?b = "heap_bytes env obj"
  from assms(1) have q: "tq_limits ?q = l" "unat (tq_heap_objects ?q) = live_count h"
    "unat (tq_heap_bytes ?q) = live_bytes env h" and lim: "unat (max_heap_objects l) < 2 ^ 32" "max_heap_bytes l < - 1"
    by (simp_all add: heap_exact_def quota_exact_def heap_limits_ok_def)
  have small: "max_heap_objects l < - 1"
    using lim(1) by (simp add: word_less_nat_alt unat_minus_one_word_max)
  have "fst (try_reserve_heap_objects ?q 1) = Inr ()" "fst (try_reserve_heap_bytes ?q ?b) = Inr ()"
    using assms(2) by (simp_all add: try_reserve_heap_granted_iff)
  then have "saturating_add (tq_heap_objects ?q) 1 \<le> max_heap_objects l"
    and "saturating_add (tq_heap_bytes ?q) ?b \<le> max_heap_bytes l"
    by (simp_all add: try_reserve_heap_objects_def try_reserve_heap_bytes_def Let_def q(1) not_less split: if_splits)
  note o = saturating_add_le_no_overflow [OF this(1) small] and b = saturating_add_le_no_overflow [OF this(2) lim(2)]
  show ?thesis
    using o b q assms(2)
    by (simp add: quota_exact_def try_reserve_heap_granted live_count_def live_bytes_def word_le_nat_alt)
qed

lemma heap_wf_place:
  assumes wf: "heap_wf h" and place: "place_object h obj = (Inr r, h')"
  shows "heap_wf h'"
proof (cases "hp_free_slots h = []")
  case True
  with wf have live: "slot_live (slot_of h i)" if "i < length (hp_objects h)" for i
    using that unfolding heap_wf_def by auto
  let ?s = "\<lparr>slot_generation = 1, slot_anchors = 1, slot_edges = 0, slot_color = Black, slot_object = Some obj\<rparr>"
  have h': "hp_objects h' = hp_objects h @ [?s]" "hp_free_slots h' = []" "hp_roots h' = hp_roots h"
    using True place by (auto simp: place_object_def Let_def split: if_splits)
  have live': "slot_live (slot_of h' i)" if "i < Suc (length (hp_objects h))" for i
    using that live by (auto simp: h' nth_append slot_live_def)
  moreover have "hp_roots h \<subseteq> {i. i < length (hp_objects h)}" using wf by (auto simp: heap_wf_def)
  ultimately show ?thesis
    by (auto simp: heap_wf_def h'(2,3) purple_live_def) (auto simp: h')
next
  case False
  let ?i = "last (hp_free_slots h)"
  let ?s = "\<lparr>slot_generation = slot_generation (slot_of h ?i) + 1, slot_anchors = 1, slot_edges = 0,
              slot_color = Black, slot_object = Some obj\<rparr>"
  have h': "hp_objects h' = (hp_objects h)[?i := ?s]" "hp_free_slots h' = butlast (hp_free_slots h)"
    "hp_roots h' = hp_roots h"
    using False place by (auto simp: place_object_def Let_def)
  have free: "hp_free_slots h = butlast (hp_free_slots h) @ [?i]" using False by simp
  have dist: "distinct (butlast (hp_free_slots h))" "?i \<notin> set (butlast (hp_free_slots h))"
    using wf distinct_append [of "butlast (hp_free_slots h)" "[?i]"] free by (simp_all add: heap_wf_def)
  have set: "set (butlast (hp_free_slots h)) = set (hp_free_slots h) - {?i}"
    using dist(2) by (subst (2) free) auto
  have i: "?i < length (hp_objects h)" "\<not> slot_live (slot_of h ?i)"
    using wf False last_in_set [OF False] by (auto simp: heap_wf_def)
  have live': "slot_live (slot_of h' j) \<longleftrightarrow> j = ?i \<or> slot_live (slot_of h j)" if "j < length (hp_objects h)" for j
    using that by (auto simp: h' nth_list_update_if slot_live_def)
  have "purple_live h'"
    using wf by (intro purple_live_update [OF _ h'(1)]) (auto simp: heap_wf_def)
  moreover have "set (hp_free_slots h') = {j. j < length (hp_objects h') \<and> \<not> slot_live (slot_of h' j)}"
    using wf live' unfolding h'(2) set heap_wf_def by (auto simp: h'(1))
  moreover have "hp_roots h' \<subseteq> {j. j < length (hp_objects h') \<and> slot_live (slot_of h' j)}"
    using wf live' unfolding h'(3) heap_wf_def by (auto simp: h'(1))
  ultimately show ?thesis
    using dist(1) by (simp add: heap_wf_def h'(2))
qed

lemma quota_exact_place:
  assumes wf: "heap_wf h" and qe: "quota_exact env l 1 (unat (heap_bytes env obj)) h"
    and place: "place_object h obj = (Inr r, h')"
  shows "quota_exact env l 0 0 h'"
proof -
  have q: "hp_quota h' = hp_quota h"
    using place by (auto simp: place_object_def Let_def split: if_splits)
  have "live_count h' = live_count h + 1 \<and> live_bytes env h' = live_bytes env h + unat (heap_bytes env obj)"
  proof (cases "hp_free_slots h = []")
    case True
    with place show ?thesis
      by (auto simp: place_object_def Let_def live_count_def live_bytes_def slot_live_def slot_bytes_def split: if_splits)
  next
    case False
    let ?i = "last (hp_free_slots h)"
    let ?s = "\<lparr>slot_generation = slot_generation (slot_of h ?i) + 1, slot_anchors = 1, slot_edges = 0,
                slot_color = Black, slot_object = Some obj\<rparr>"
    have h': "hp_objects h' = (hp_objects h)[?i := ?s]"
      using False place by (auto simp: place_object_def Let_def)
    have i: "?i < length (hp_objects h)" "\<not> slot_live (slot_of h ?i)"
      using wf False last_in_set [OF False] by (auto simp: heap_wf_def)
    show ?thesis
      using length_filter_list_update [OF i(1), of slot_live ?s] sum_list_map_update [OF i(1), of "slot_bytes env" ?s] i(2)
      by (auto simp: live_count_def live_bytes_def h' slot_live_def slot_bytes_def split: option.splits)
  qed
  with qe q show ?thesis by (simp add: quota_exact_def)
qed

text \<open>With room in the quota there is room in the slot table.\<close>

lemma place_object_succeeds:
  assumes "heap_wf h" and "quota_exact env l 1 b h" and "heap_limits_ok l"
  shows "\<exists>r. fst (place_object h obj) = Inr r"
  using assms heap_wf_full [of h]
  by (auto simp: place_object_def Let_def quota_exact_def heap_limits_ok_def)

lemma heap_wf_allocations [simp]: "heap_wf (h\<lparr>hp_allocations := n\<rparr>) = heap_wf h"
  by (simp add: heap_wf_def purple_live_def)

lemma quota_exact_allocations [simp]: "quota_exact env l n b (h\<lparr>hp_allocations := k\<rparr>) = quota_exact env l n b h"
  by (simp add: quota_exact_def live_count_def live_bytes_def)

lemma heap_wf_reserved [simp]: "heap_wf (reserved env h obj) = heap_wf h"
  by (simp add: heap_wf_def purple_live_def)

text \<open>Between the reservation and the placement, whether or not the collector runs.\<close>

lemma collected_exact:
  assumes "heap_exact env l h" and "fst (try_reserve_heap (hp_quota h) 1 (heap_bytes env obj)) = Inr ()"
    and "collected env (reserved env h obj) = Some h2"
  shows "heap_wf h2" and "quota_exact env l 1 (unat (heap_bytes env obj)) h2"
proof -
  from assms(1) have wf: "heap_wf (reserved env h obj)" by (simp add: heap_exact_def)
  then show "heap_wf h2" by (rule wf_heap.collected_closed [OF _ assms(3)]) simp
  have "purple_live (reserved env h obj) \<and> quota_exact env l 1 (unat (heap_bytes env obj)) (reserved env h obj)"
    using quota_exact_reserved [OF assms(1,2)] wf by (simp add: heap_wf_def)
  from exact_quota.collected_closed [OF this assms(3)]
  show "quota_exact env l 1 (unat (heap_bytes env obj)) h2" by (simp add: purple_live_def)
qed

lemma heap_exact_alloc:
  assumes "heap_exact env l h" and "alloc env h obj = Some (res, h')"
  shows "heap_exact env l h'" and "res \<noteq> Inl IdCounterExhausted"
proof -
  have "heap_exact env l h' \<and> res \<noteq> Inl IdCounterExhausted"
    using assms(2)
  proof (cases rule: alloc_cases)
    case (placed h2)
    note h2 = collected_exact [OF assms(1) placed(1,2)]
    from assms(1) have lim: "heap_limits_ok l" by (simp add: heap_exact_def)
    from place_object_succeeds [OF h2 lim, of obj] placed(3) obtain r where r: "res = Inr r" by auto
    with placed(3) heap_wf_place [OF h2(1)] quota_exact_place [OF h2] lim show ?thesis
      by (auto simp: heap_exact_def)
  qed (use assms(1) in simp)
  then show "heap_exact env l h'" and "res \<noteq> Inl IdCounterExhausted" by simp_all
qed

interpretation exact_closed: heap_closed env "heap_exact env l" for env l
proof -
  show "heap_closed env (heap_exact env l)"
  proof (cases "heap_limits_ok l")
    case True
    then have "heap_exact env l = (\<lambda>h. heap_wf h \<and> purple_live h \<and> quota_exact env l 0 0 h)"
      by (auto simp: fun_eq_iff heap_exact_def heap_wf_def)
    then show ?thesis
      using heap_closed_conj [OF wf_heap.heap_closed_axioms exact_quota.heap_closed_axioms] by simp
  next
    case False
    then have "heap_exact env l = (\<lambda>h. False)" by (auto simp: heap_exact_def)
    then show ?thesis by (simp add: heap_closed_def)
  qed
qed

interpretation exact_heap: heap_history env "heap_exact env l" "same_size env" for env l
proof unfold_locales
    fix h r obj res h'
  assume ex: "heap_exact env l h"
  show "alloc env h obj = Some (res, h') \<Longrightarrow> heap_exact env l h'" by (rule heap_exact_alloc [OF ex])
  show "same_size env h r obj \<Longrightarrow> put_object h r obj = Inr h' \<Longrightarrow> heap_exact env l h'" by (rule heap_exact_write [OF ex])
  assume live: "ref_live h r"
  then have i: "ref_idx r < length (hp_objects h)" by (simp add: ref_live_def)
  note same = heap_exact_same [OF ex i]
  show "heap_exact env l (snd (free_object env h r))" by (rule heap_exact_free [OF ex live])
  show "heap_exact env l (snd (retain_anchor h r))" "heap_exact env l (snd (retain_edge h r))"
    by (rule same [OF hp_retain_anchor(1) [OF live]], simp_all add: hp_calls live,
        rule same [OF hp_retain_edge(1) [OF live]], simp_all add: hp_calls live)
  show "heap_exact env l (drop_anchor h (ref_idx r))"
    by (rule same [OF hp_drop_anchor(1)]) simp_all
qed

lemma heap_exact_new: "heap_limits_ok l \<Longrightarrow> heap_exact env l (new_heap (new_thread_quota l))"
  by (auto simp: heap_exact_def heap_wf_def purple_live_def quota_exact_def new_heap_def new_thread_quota_def
      live_count_def live_bytes_def)

text \<open>A concrete host for the examples: the sizes of a 64-bit build and ascending iteration.\<close>

definition sample_env :: HostEnv where
  "sample_env = \<lparr>size_of_heap_object = 48, size_of_value = 16, hash_order = sorted_list_of_set, ref_order = refs_in_order,
     module_order = sorted_list_of_set, grown_capacity = of_nat, native_stack = 1000\<rparr>"

lemma hash_order_ok_sample: "hash_order_ok sample_env"
  by (simp add: hash_order_ok_def sample_env_def)

text \<open>
  C5 (the heap's books are exact).  Whatever sequence of allocations, frees, anchor and edge operations, writes to objects,
  collections and handle extractions runs on a new private heap, the free list holds exactly the dead slots, each once, and
  every candidate root is live.  When every write leaves the size of its object as it was, and the limits fit the counters,
  the thread quota counts exactly the live objects and their bytes, within the limits, and allocation never fails for want of
  slot indices.
\<close>

theorem heap_history_exact:
  assumes "heap_limits_ok l" and "heap_run env (new_heap (new_thread_quota l)) cs = Some h"
    and "writes_ok (same_size env) env (new_heap (new_thread_quota l)) cs"
  shows "heap_wf h \<and> quota_exact env l 0 0 h \<and> (\<nexists>h'. alloc env h obj = Some (Inl IdCounterExhausted, h'))"
proof -
  have ex: "heap_exact env l h"
    using exact_heap.heap_run_closed [OF heap_exact_new [OF assms(1)] assms(2,3)] .
  with heap_exact_alloc(2) [OF ex] show ?thesis by (fastforce simp: heap_exact_def)
qed

definition sample_calls :: "heap_call list" where
  "sample_calls =
    [CAlloc (TupleObj [] 0), CAlloc (ArrayObj 0 0 [Null] 4), CWrite (new_ref 1 1) (ArrayObj 0 0 [Object (new_ref 0 1)] 4),
     CRetainEdge (new_ref 0 1), CReleaseAnchor (new_ref 0 1), CReleaseAnchor (new_ref 1 1), CCollect,
     CAlloc (ChoiceObj 0 0 1 (Int32 7))]"

text \<open>Evaluation of concrete heap programs.\<close>

lemmas heap_run_simps =
  retain_anchor_def retain_edge_def release_anchor_def release_edge_def release_internal_def
  release_edges.simps(2) detach_def take_object_def paint_def set_slot_def drop_edge_def drop_anchor_def
  suspect_def ref_live_def new_ref_def Let_def saturating_add_def saturating_sub_def
  release_heap_def collect_cycles_def put_object_def

lemma sample_calls_run:
  "map_option hp_objects (heap_run sample_env (new_heap (new_thread_quota default_limits)) sample_calls) =
   Some [\<lparr>slot_generation = 2, slot_anchors = 1, slot_edges = 0, slot_color = Black,
           slot_object = Some (ChoiceObj 0 0 1 (Int32 7))\<rparr>,
         \<lparr>slot_generation = 1, slot_anchors = 0, slot_edges = 0, slot_color = Black, slot_object = None\<rparr>]"
  by (simp add: sample_calls_def heap_run_simps alloc_def place_object_def try_reserve_heap_def
      sample_env_def new_heap_def new_thread_quota_def default_limits_def)

lemma sample_writes: "writes_ok (same_size sample_env) sample_env (new_heap (new_thread_quota default_limits)) sample_calls"
  by (simp add: sample_calls_def heap_run_simps alloc_def place_object_def try_reserve_heap_def same_size_def get_object_def
      sample_env_def new_heap_def new_thread_quota_def default_limits_def)

theorem heap_history_exact_witness:
  "\<exists>h. heap_run sample_env (new_heap (new_thread_quota default_limits)) sample_calls = Some h \<and>
       heap_wf h \<and> quota_exact sample_env default_limits 0 0 h"
proof -
  obtain h where h: "heap_run sample_env (new_heap (new_thread_quota default_limits)) sample_calls = Some h"
    using sample_calls_run by auto
  have "heap_limits_ok default_limits" by (simp add: heap_limits_ok_def default_limits_def)
  from heap_history_exact [OF this h sample_writes] h show ?thesis by blast
qed

section \<open>References\<close>

text \<open>The collector changes no generation and no number of slots.\<close>

definition gens :: "PrivateHeap \<Rightarrow> u32 list" where
  "gens h = map slot_generation (hp_objects h)"

interpretation gens_kept: heap_closed env "\<lambda>h. purple_live h \<and> gens h = gs" for env gs
proof unfold_locales
  fix h i c
  assume P: "purple_live h \<and> gens h = gs"
  then show "purple_live h" by simp
  show "purple_live (h\<lparr>hp_roots := {}\<rparr>) \<and> gens (h\<lparr>hp_roots := {}\<rparr>) = gs"
    and "purple_live (h\<lparr>hp_roots := insert i (hp_roots h)\<rparr>) \<and> gens (h\<lparr>hp_roots := insert i (hp_roots h)\<rparr>) = gs"
    using P by (simp_all add: gens_def)
  assume len: "i < length (hp_objects h)"
  from P have "purple_live h" by simp
  note pl = purple_live_prim [OF this len]
  show "purple_live (drop_edge h i) \<and> gens (drop_edge h i) = gs"
    "purple_live (add_edge h i) \<and> gens (add_edge h i) = gs"
    "purple_live (fst (detach env h i)) \<and> gens (fst (detach env h i)) = gs"
    using P pl len by (simp_all add: gens_def map_update_same detach_def Let_def split: option.splits)
  show "purple_live (paint h i c) \<and> gens (paint h i c) = gs" if "c \<noteq> Purple"
    using that P pl(3) len by (simp add: gens_def map_update_same)
  show "purple_live (suspect h i) \<and> gens (suspect h i) = gs" if "slot_live (slot_of h i)"
    using that P pl(4) len by (simp add: gens_def map_update_same)
qed

lemma gens_allocations [simp]: "gens (h\<lparr>hp_allocations := n\<rparr>) = gens h"
  by (simp add: gens_def)

lemma purple_live_allocations [simp]: "purple_live (h\<lparr>hp_allocations := n\<rparr>) = purple_live h"
  by (simp add: purple_live_def)

lemma purple_live_reserved [simp]: "purple_live (reserved env h obj) = purple_live h"
  by (simp add: purple_live_def)

lemma gens_collected:
  assumes "collected env (reserved env h obj) = Some h2" and "heap_wf h"
  shows "gens h2 = gens h"
  using gens_kept.collected_closed [of "reserved env h obj" "gens h" env h2] assms
  by (simp add: gens_def heap_wf_def)

text \<open>The slot table fits 32-bit indices.\<close>

lemma heap_exact_length:
  assumes "heap_exact env l h" and "hp_free_slots h = []"
  shows "length (hp_objects h) < 2 ^ 32"
  using assms heap_wf_full [of h] by (auto simp: heap_exact_def quota_exact_def heap_limits_ok_def)

definition index_ok :: "PrivateHeap \<Rightarrow> bool" where
  "index_ok h \<longleftrightarrow> length (hp_objects h) < 2 ^ 32"

lemma place_object_ref:
  assumes wf: "heap_wf h" and idx: "index_ok h" and place: "place_object h obj = (Inr r, h')"
  shows "get_object h' r = Inr obj"
    and "ref_idx r < length (hp_objects h) \<Longrightarrow> ref_generation r = slot_generation (slot_of h (ref_idx r)) + 1"
    and "slot_anchors (slot_of h' (ref_idx r)) = 1" and "index_ok h'"
proof -
  have "get_object h' r = Inr obj \<and>
    (ref_idx r < length (hp_objects h) \<longrightarrow> ref_generation r = slot_generation (slot_of h (ref_idx r)) + 1) \<and>
    slot_anchors (slot_of h' (ref_idx r)) = 1 \<and> index_ok h'"
  proof (cases "hp_free_slots h = []")
    case True
    then show ?thesis
      using place idx
      by (auto simp: place_object_def Let_def new_ref_def get_object_def index_ok_def unat_of_nat nth_append
          split: if_splits)
  next
    case False
    with wf have "last (hp_free_slots h) < length (hp_objects h)"
      using last_in_set [OF False] by (auto simp: heap_wf_def)
    with False place idx show ?thesis
      by (auto simp: place_object_def Let_def new_ref_def get_object_def index_ok_def unat_of_nat)
  qed
  then show "get_object h' r = Inr obj"
    and "ref_idx r < length (hp_objects h) \<Longrightarrow> ref_generation r = slot_generation (slot_of h (ref_idx r)) + 1"
    and "slot_anchors (slot_of h' (ref_idx r)) = 1" and "index_ok h'" by simp_all
qed

lemma word_succ_neq: "(x::u32) + 1 \<noteq> x"
  by simp

section \<open>Every history\<close>

interpretation indexed_closed: heap_closed env "\<lambda>h. heap_wf h \<and> index_ok h" for env
proof -
  have ok: "index_ok h \<longleftrightarrow> length (gens h) < 2 ^ 32" for h by (simp add: index_ok_def gens_def)
  have "heap_closed env (\<lambda>h. \<exists>gs. length gs < 2 ^ 32 \<and> heap_wf h \<and> purple_live h \<and> gens h = gs)"
    unfolding heap_closed_def
    by (intro conjI allI impI; (elim exE conjE)?)
       (use gens_kept.heap_closed_axioms [of env] wf_heap.heap_closed_axioms [of env] in
         \<open>auto simp: heap_closed_def\<close>)
  moreover have "(\<exists>gs. length gs < 2 ^ 32 \<and> heap_wf h \<and> purple_live h \<and> gens h = gs) = (heap_wf h \<and> index_ok h)" for h
    by (auto simp: ok heap_wf_def)
  ultimately show "heap_closed env (\<lambda>h. heap_wf h \<and> index_ok h)" by simp
qed

lemma heap_wf_same:
  assumes "heap_wf h" and "i < length (hp_objects h)" and "hp_objects h' = (hp_objects h)[i := s]"
    and "slot_object s = slot_object (slot_of h i)" and "hp_free_slots h' = hp_free_slots h"
    and "hp_roots h' \<subseteq> hp_roots h" and "slot_color s = Purple \<Longrightarrow> slot_color (slot_of h i) = Purple"
  shows "heap_wf h'"
proof -
  from assms(1) have pl: "purple_live h" by (simp add: heap_wf_def)
  have "purple_live h'"
    using pl assms(2,4,7)
    by (intro purple_live_update [OF _ assms(3)]) (auto simp: purple_live_def slot_live_def)
  then show ?thesis
    using assms by (intro heap_wf_recolor [OF assms(1-3)]) (auto simp: slot_live_def)
qed

lemma indexed_alloc:
  assumes "heap_wf h" and "index_ok h" and "alloc env h obj = Some (res, h')"
  shows "heap_wf h'" and "index_ok h'"
proof -
  have "heap_wf h' \<and> index_ok h'"
    using assms(3)
  proof (cases rule: alloc_cases)
    case (placed h2)
    have h2: "heap_wf h2 \<and> index_ok h2"
      by (rule indexed_closed.collected_closed [OF _ placed(2)]) (use assms in \<open>simp_all add: index_ok_def\<close>)
    show ?thesis
    proof (cases res)
      case (Inl e)
      with placed(3) h2 show ?thesis by (auto simp: place_object_def Let_def split: if_splits)
    next
      case (Inr r)
      with placed(3) h2 heap_wf_place place_object_ref(4) show ?thesis by blast
    qed
  qed (use assms in simp)
  then show "heap_wf h'" and "index_ok h'" by simp_all
qed

interpretation indexed_heap: heap_history env "\<lambda>h. heap_wf h \<and> index_ok h" "\<lambda>_ _ _. True" for env
proof unfold_locales
  fix h r obj res h'
  assume P: "heap_wf h \<and> index_ok h"
  then have wf: "heap_wf h" by simp
  show "alloc env h obj = Some (res, h') \<Longrightarrow> heap_wf h' \<and> index_ok h'" using indexed_alloc P by blast
  show "put_object h r obj = Inr h' \<Longrightarrow> heap_wf h' \<and> index_ok h'"
    using heap_wf_write [OF wf] hp_put_object(2) [of h r obj h'] P by (auto simp: index_ok_def)
  assume live: "ref_live h r"
  then have i: "ref_idx r < length (hp_objects h)" by (simp add: ref_live_def)
  have "heap_wf (snd (free_object env h r))"
    by (rule heap_wf_kill [OF wf live hp_free_object(1) [OF live]]) (simp_all add: live hp_calls slot_live_def)
  then show "heap_wf (snd (free_object env h r)) \<and> index_ok (snd (free_object env h r))"
    using P live by (simp add: index_ok_def hp_calls)
  have "heap_wf (snd (retain_anchor h r))"
    by (rule heap_wf_same [OF wf i hp_retain_anchor(1) [OF live]]) (auto simp: live hp_calls)
  then show "heap_wf (snd (retain_anchor h r)) \<and> index_ok (snd (retain_anchor h r))"
    using P live by (simp add: index_ok_def hp_calls)
  have "heap_wf (snd (retain_edge h r))"
    by (rule heap_wf_same [OF wf i hp_retain_edge(1) [OF live]]) (auto simp: live hp_calls)
  then show "heap_wf (snd (retain_edge h r)) \<and> index_ok (snd (retain_edge h r))"
    using P live by (simp add: index_ok_def hp_calls)
  have "heap_wf (drop_anchor h (ref_idx r))"
    by (rule heap_wf_same [OF wf i hp_drop_anchor(1)]) simp_all
  then show "heap_wf (drop_anchor h (ref_idx r)) \<and> index_ok (drop_anchor h (ref_idx r))"
    using P by (simp add: index_ok_def)
qed

lemma indexed_run:
  assumes "heap_run env (new_heap q) cs = Some h"
  shows "heap_wf h" and "index_ok h"
proof -
  have "heap_wf (new_heap q) \<and> index_ok (new_heap q)"
    by (auto simp: heap_wf_def purple_live_def index_ok_def new_heap_def)
  from indexed_heap.heap_run_closed [OF this assms writes_ok_any] show "heap_wf h" and "index_ok h" by simp_all
qed

text \<open>
  A new reference is fresh and resolves.  When \<open>alloc\<close> returns a reference, in any state the
  heap can reach, that reference resolves to the allocated object, whose slot is anchored once,
  and it did not resolve to anything before the call, even when the collector ran in between and
  recycled a slot.
\<close>

lemma heap_alloc_fresh:
  assumes "heap_run env (new_heap q) cs = Some h" and "alloc env h obj = Some (Inr r, h')"
  shows "get_object h' r = Inr obj \<and> slot_anchors (slot_of h' (ref_idx r)) = 1 \<and>
         get_object h r = Inl InvalidObjectReference"
  using assms(2)
proof (cases rule: alloc_cases)
  case (placed h2)
  note ok = indexed_run [OF assms(1)]
  have wf: "heap_wf h2"
    by (rule wf_heap.collected_closed [OF _ placed(2)]) (simp_all add: ok)
  have g: "gens h2 = gens h" using gens_collected placed(2) ok(1) .
  then have len: "length (hp_objects h2) = length (hp_objects h)" by (metis gens_def length_map)
  note r = place_object_ref [OF wf _ placed(3)]
  have gen: "slot_generation (slot_of h2 i) = slot_generation (slot_of h i)" if "i < length (hp_objects h)" for i
    using that g len by (metis gens_def nth_map)
  have "get_object h r = Inl InvalidObjectReference"
    using r(2) len gen [of "ref_idx r"] ok(2) by (auto simp: get_object_def index_ok_def)
  with r ok(2) len show ?thesis by (simp add: index_ok_def)
qed simp

section \<open>Stale references\<close>

text \<open>
  A reference handed out for slot \<open>ref_idx r\<close> keeps its generation while the slot's only grows; \<open>k\<close>
  bounds the latter, and \<open>dead\<close> says that the reference has stopped resolving.
\<close>

definition handed_out :: "nat \<Rightarrow> VmObjectRef \<Rightarrow> bool \<Rightarrow> PrivateHeap \<Rightarrow> bool" where
  "handed_out k r dead h \<longleftrightarrow> purple_live h \<and> unat (slot_generation (slot_of h (ref_idx r))) \<le> k \<and>
     ref_idx r < length (hp_objects h) \<and> ref_generation r \<le> slot_generation (slot_of h (ref_idx r)) \<and>
     (dead \<longrightarrow> \<not> ref_live h r)"

lemma handed_out_mono:
  assumes "handed_out k r dead h" and "purple_live h'" and "gens h' = gens h"
    and "slot_live (slot_of h' (ref_idx r)) \<Longrightarrow> slot_live (slot_of h (ref_idx r))"
  shows "handed_out k r dead h'"
proof -
  have len: "length (hp_objects h') = length (hp_objects h)" using assms(3) by (metis gens_def length_map)
  have "slot_generation (slot_of h' (ref_idx r)) = slot_generation (slot_of h (ref_idx r))"
    using assms(1,3) len unfolding handed_out_def by (metis gens_def nth_map)
  moreover from this have "ref_live h' r \<Longrightarrow> ref_live h r"
    using assms(4) len by (simp add: ref_live_def slot_live_def)
  ultimately show ?thesis using assms(1-3) len by (auto simp: handed_out_def)
qed

lemma gens_update: "i < length (hp_objects h) \<Longrightarrow> hp_objects h' = (hp_objects h)[i := s] \<Longrightarrow>
    slot_generation s = slot_generation (slot_of h i) \<Longrightarrow> gens h' = gens h"
  by (simp add: gens_def map_update_same)

lemma handed_out_update:
  assumes "handed_out k r dead h" and "i < length (hp_objects h)" and "hp_objects h' = (hp_objects h)[i := s]"
    and "slot_generation s = slot_generation (slot_of h i)" and "slot_live s \<Longrightarrow> slot_live (slot_of h i)"
    and "slot_color s = Purple \<Longrightarrow> slot_live s"
  shows "handed_out k r dead h'"
  using assms(1)
proof (rule handed_out_mono)
  show "purple_live h'"
    using assms(1,6) by (intro purple_live_update [OF _ assms(3)]) (simp_all add: handed_out_def)
  show "gens h' = gens h" using gens_update assms by blast
  show "slot_live (slot_of h' (ref_idx r)) \<Longrightarrow> slot_live (slot_of h (ref_idx r))"
    using assms(3,5) by (auto simp: nth_list_update_if split: if_splits)
qed

interpretation stale_closed: heap_closed env "handed_out k r dead" for env k r dead
proof unfold_locales
  fix h i c
  assume P: "handed_out k r dead h"
  then show pl: "purple_live h" by (simp add: handed_out_def)
  have roots: "handed_out k r dead (h\<lparr>hp_roots := R\<rparr>)" for R
    by (rule handed_out_mono [OF P]) (simp_all add: pl gens_def)
  show "handed_out k r dead (h\<lparr>hp_roots := {}\<rparr>)" "handed_out k r dead (h\<lparr>hp_roots := insert i (hp_roots h)\<rparr>)"
    by (rule roots)+
  assume len: "i < length (hp_objects h)"
  have purple: "slot_color (slot_of h i) = Purple \<Longrightarrow> slot_live (slot_of h i)"
    using pl len by (simp add: purple_live_def)
  note upd = handed_out_update [OF P len]
  show "handed_out k r dead (drop_edge h i)" by (rule upd [OF hp_drop_edge(1)]) (simp_all add: purple)
  show "handed_out k r dead (add_edge h i)" by (rule upd [OF hp_add_edge(1)]) (simp_all add: purple)
  show "handed_out k r dead (paint h i c)" if "c \<noteq> Purple"
    by (rule upd [OF hp_paint(1)]) (simp_all add: that)
  show "handed_out k r dead (suspect h i)" if "slot_live (slot_of h i)"
    by (rule upd [OF hp_suspect(1)]) (simp_all add: that)
  have "hp_objects (fst (detach env h i)) =
      (hp_objects h)[i := slot_of h i\<lparr>slot_color := Black, slot_object := None\<rparr>]"
    using len by (auto simp: detach_def Let_def nth_list_update_if list_update_overwrite split: option.splits
        intro!: nth_equalityI)
  from upd [OF this] show "handed_out k r dead (fst (detach env h i))" by (simp add: slot_live_def)
qed

interpretation stale_invariant: heap_invariant env "handed_out k r dead" for env k r dead
proof unfold_locales
  fix h x
  assume P: "handed_out k r dead h" and live: "ref_live h x"
  then have i: "ref_idx x < length (hp_objects h)" and l: "slot_live (slot_of h (ref_idx x))"
    by (auto simp: ref_live_def slot_live_def)
  note upd = handed_out_update [OF P i]
  show "handed_out k r dead (snd (free_object env h x))"
    by (rule upd [OF hp_free_object(1) [OF live]]) (simp_all add: slot_live_def)
  show "handed_out k r dead (snd (retain_anchor h x))"
    by (rule upd [OF hp_retain_anchor(1) [OF live]]) (simp_all add: l)
  show "handed_out k r dead (snd (retain_edge h x))"
    by (rule upd [OF hp_retain_edge(1) [OF live]]) (simp_all add: l)
  show "handed_out k r dead (drop_anchor h (ref_idx x))"
    by (rule upd [OF hp_drop_anchor(1)]) (simp_all add: l)
qed

lemma handed_out_weaken: "handed_out k r dead h \<Longrightarrow> k \<le> k' \<Longrightarrow> handed_out k' r dead h"
  by (auto simp: handed_out_def)

lemma u32_succ: "unat (g :: u32) < 2 ^ 32 - 1 \<Longrightarrow> unat (g + 1) = unat g + 1"
  by (simp add: unat_word_ariths)

lemma purple_live_place: "purple_live h \<Longrightarrow> purple_live (snd (place_object h obj))"
  by (auto simp: place_object_def Let_def purple_live_def nth_list_update_if nth_append slot_live_def)

lemma handed_out_place:
  assumes P: "handed_out k r dead h" and k: "k < 2 ^ 32 - 1"
  shows "handed_out (k + 1) r dead (snd (place_object h obj))" (is "handed_out _ _ _ ?h")
proof (cases "hp_free_slots h = []")
  case True
  then show ?thesis
    using P purple_live_place [of h obj]
    by (auto simp: handed_out_def place_object_def Let_def nth_append ref_live_def)
next
  case False
  let ?i = "last (hp_free_slots h)" and ?g = "slot_generation (slot_of h (last (hp_free_slots h))) + 1"
  have objs: "hp_objects ?h = (hp_objects h)[?i := \<lparr>slot_generation = ?g, slot_anchors = 1, slot_edges = 0,
      slot_color = Black, slot_object = Some obj\<rparr>]"
    using False by (simp add: place_object_def Let_def)
  have g: "?i = ref_idx r \<Longrightarrow> unat ?g = unat (slot_generation (slot_of h ?i)) + 1"
    using P k by (intro u32_succ) (simp add: handed_out_def)
  have "unat (slot_generation (slot_of ?h (ref_idx r))) \<le> k + 1 \<and>
        ref_generation r \<le> slot_generation (slot_of ?h (ref_idx r)) \<and> (dead \<longrightarrow> \<not> ref_live ?h r)"
    using P g
    by (auto simp: handed_out_def objs nth_list_update_if ref_live_def word_le_nat_alt
             dest!: arg_cong [of _ _ unat] split: if_splits)
  then show ?thesis
    using P purple_live_place [of h obj] by (simp add: handed_out_def objs)
qed

lemma handed_out_alloc:
  assumes "handed_out k r dead h" and "k < 2 ^ 32 - 1" and "alloc env h obj = Some (res, h')"
  shows "handed_out (k + 1) r dead h'"
  using assms(3)
proof (cases rule: alloc_cases)
  case refused
  with assms(1) show ?thesis by (auto intro: handed_out_weaken)
next
  case (placed h2)
  have alloc0: "handed_out k r dead (h\<lparr>hp_allocations := n\<rparr>)" if "handed_out k r dead h" for h n
    using that by (simp add: handed_out_def gens_def ref_live_def)
  have "handed_out k r dead (reserved env h obj)"
    using assms(1) by (simp add: handed_out_def gens_def ref_live_def)
  then have "handed_out k r dead h2"
    by (rule stale_closed.collected_closed [OF _ placed(2)]) (rule alloc0)
  from handed_out_place [OF this assms(2), of obj] placed(3) show ?thesis by simp
qed

lemma handed_out_write:
  assumes "handed_out k r dead h" and "put_object h x obj = Inr h'"
  shows "handed_out k r dead h'"
proof -
  note w = hp_put_object [OF assms(2)]
  have i: "ref_idx x < length (hp_objects h)" "slot_live (slot_of h (ref_idx x))" using w(1) by (auto simp: ref_live_def slot_live_def)
  have "purple_live h'" using assms(1) by (intro purple_live_update [OF _ w(2)]) (simp_all add: handed_out_def)
  then show ?thesis using i w(2)
    by (intro handed_out_mono [OF assms(1)] gens_update [OF i(1) w(2)]) (auto simp: nth_list_update_if split: if_splits)
qed

lemma handed_out_run:
  assumes "handed_out k r dead h" and "k + length cs < 2 ^ 32" and "heap_run env h cs = Some h'"
  shows "handed_out (k + length cs) r dead h'"
  using assms
proof (induction cs arbitrary: h k)
  case (Cons c cs)
  from Cons.prems(3) obtain h1 where h1: "heap_apply env h c = Some h1" and rest: "heap_run env h1 cs = Some h'"
    by (auto simp: bind_eq_Some_conv)
  have "handed_out (k + 1) r dead h1"
  proof (cases c)
    case (CAlloc obj)
    with h1 handed_out_alloc [OF Cons.prems(1)] Cons.prems(2) show ?thesis by auto
  next
    case (CWrite x obj)
    with h1 handed_out_write [OF Cons.prems(1), of x obj] Cons.prems(1) show ?thesis
      by (auto intro: handed_out_weaken split: sum.splits)
  qed (use stale_invariant.heap_apply_closed [OF Cons.prems(1) h1] in \<open>auto intro: handed_out_weaken\<close>)
  from Cons.IH [OF this _ rest] Cons.prems(2) show ?case by simp
qed simp

text \<open>
  C6 (no dangling reference comes back to life).  Once a reference that used to resolve has stopped
  resolving, no later sequence of calls makes it resolve again, although its slot may be recycled
  any number of times; the bound says that the slot's 32-bit generation has not wrapped around.
\<close>

theorem stale_reference_never_resolves:
  assumes "heap_run env (new_heap q) cs0 = Some h0" and "ref_live h0 r"
    and "heap_run env h0 cs1 = Some h1" and "\<not> ref_live h1 r"
    and "heap_run env h1 cs2 = Some h2"
    and "unat (ref_generation r) + length cs1 + length cs2 < 2 ^ 32"
  shows "get_object h2 r = Inl InvalidObjectReference"
proof -
  have "handed_out (unat (ref_generation r)) r False h0"
    using indexed_run(1) [OF assms(1)] assms(2) by (auto simp: handed_out_def heap_wf_def ref_live_def)
  from handed_out_run [OF this _ assms(3)] assms(6)
  have "handed_out (unat (ref_generation r) + length cs1) r False h1" by simp
  with assms(4) have "handed_out (unat (ref_generation r) + length cs1) r True h1" by (simp add: handed_out_def)
  from handed_out_run [OF this _ assms(5)] assms(6) have "\<not> ref_live h2 r" by (simp add: handed_out_def)
  then show ?thesis by (auto simp: ref_live_def get_object_def Let_def split: option.splits)
qed

definition sample_tuple :: HeapObject where
  "sample_tuple = TupleObj [] 0"

lemma sample_stale_runs:
  "\<exists>h0 h1 h2. heap_run sample_env (new_heap (new_thread_quota default_limits)) [CAlloc sample_tuple] = Some h0 \<and>
     ref_live h0 (new_ref 0 1) \<and> heap_run sample_env h0 [CReleaseAnchor (new_ref 0 1)] = Some h1 \<and>
     \<not> ref_live h1 (new_ref 0 1) \<and> heap_run sample_env h1 [CAlloc sample_tuple] = Some h2 \<and>
     ref_live h2 (new_ref 0 2)"
  by (simp add: heap_run_simps alloc_def place_object_def try_reserve_heap_def sample_tuple_def
      sample_env_def new_heap_def new_thread_quota_def default_limits_def)

theorem stale_reference_never_resolves_witness:
  "\<exists>h2. heap_run sample_env (new_heap (new_thread_quota default_limits))
          [CAlloc sample_tuple, CReleaseAnchor (new_ref 0 1), CAlloc sample_tuple] = Some h2 \<and>
        ref_live h2 (new_ref 0 2) \<and> get_object h2 (new_ref 0 1) = Inl InvalidObjectReference"
proof -
  obtain h0 h1 h2 where
    h: "heap_run sample_env (new_heap (new_thread_quota default_limits)) [CAlloc sample_tuple] = Some h0"
      "ref_live h0 (new_ref 0 1)" "heap_run sample_env h0 [CReleaseAnchor (new_ref 0 1)] = Some h1"
      "\<not> ref_live h1 (new_ref 0 1)" "heap_run sample_env h1 [CAlloc sample_tuple] = Some h2" "ref_live h2 (new_ref 0 2)"
    using sample_stale_runs by blast
  from stale_reference_never_resolves [OF h(1-5)] h show ?thesis
    by (auto simp: bind_eq_Some_conv new_ref_def)
qed

section \<open>Anchored objects survive\<close>

text \<open>Reference \<open>r\<close> resolves to \<open>obj\<close> and its slot has at least \<open>n\<close> anchors.\<close>

definition held :: "VmObjectRef \<Rightarrow> nat \<Rightarrow> HeapObject \<Rightarrow> PrivateHeap \<Rightarrow> bool" where
  "held r n obj h \<longleftrightarrow> 0 < n \<and> (\<exists>a. n \<le> unat a \<and> anchored (ref_idx r) (ref_generation r) a obj h)"

lemma anchored_other:
  assumes "anchored i g a obj h" and "hp_objects h' = (hp_objects h)[j := s]" and "j \<noteq> i"
  shows "anchored i g a obj h'"
  using assms by (simp add: anchored_def)

lemma ref_idx_inj: "ref_idx r = ref_idx x \<Longrightarrow> ref_generation r = ref_generation x \<Longrightarrow> r = x" for r x :: VmObjectRef
  by (cases r; cases x) (simp add: word_unat_eq_iff)

lemma anchored_free:
  assumes "anchored (ref_idx r) (ref_generation r) a obj h" and "x \<noteq> r"
  shows "anchored (ref_idx r) (ref_generation r) a obj (snd (free_object env h x))"
proof (cases "ref_live h x")
  case True
  then have "ref_idx x \<noteq> ref_idx r"
    using assms ref_idx_inj [of x r] by (auto simp: anchored_def ref_live_def)
  with anchored_other [OF assms(1) hp_free_object(1) [OF True]] show ?thesis by simp
qed (simp add: free_object_def assms(1))

lemma anchored_extract:
  assumes "anchored (ref_idx r) (ref_generation r) a obj h" and "handle_of obj = None" and "index_ok h"
  shows "anchored (ref_idx r) (ref_generation r) a obj (snd (extract_adapter_handles env h))"
proof -
  have fold: "anchored (ref_idx r) (ref_generation r) a obj (foldl (\<lambda>h x. snd (free_object env h x)) h xs)"
    if "anchored (ref_idx r) (ref_generation r) a obj h" "r \<notin> set xs" for xs h
    using that
  proof (induction xs arbitrary: h)
    case (Cons x xs)
    then show ?case using anchored_free [OF Cons.prems(1), of x env] by auto
  qed simp
  have "r \<notin> snd ` set (adapter_handle_refs h)"
    using assms
    by (auto simp: adapter_handle_refs_def map_filter_def new_ref_def anchored_def index_ok_def unat_of_nat
             split: option.splits)
  with fold [OF assms(1)] show ?thesis by (simp add: extract_adapter_handles_def)
qed

lemma held_release_anchor:
  assumes "purple_live h" and "held r n obj h" and "x = r \<Longrightarrow> 1 < n"
  shows "held r (if x = r then n - 1 else n) obj (snd (release_anchor env h x))"
proof (cases "ref_live h x")
  case False
  with assms(2,3) show ?thesis by (auto simp: release_anchor_def held_def intro: le_trans [OF diff_le_self])
next
  case True
  from assms(2) obtain a where a: "n \<le> unat a" "anchored (ref_idx r) (ref_generation r) a obj h" "0 < n"
    by (auto simp: held_def)
  let ?h1 = "drop_anchor h (ref_idx x)"
  show ?thesis
  proof (cases "ref_idx x = ref_idx r")
    case same: True
    with True a(2) have x: "x = r" using ref_idx_inj [of x r] by (auto simp: anchored_def ref_live_def)
    have d: "unat (saturating_sub a 1) = unat a - 1" by (simp add: unat_saturating_sub)
    with a assms(3) x have pos: "saturating_sub a 1 \<noteq> 0" by (auto simp: unat_eq_zero [symmetric])
    with a True x have "snd (release_anchor env h x) = ?h1"
      by (simp add: release_anchor_def Let_def anchored_def)
    moreover have "anchored (ref_idx r) (ref_generation r) (saturating_sub a 1) obj ?h1"
      using a(2) x pos by (auto simp: anchored_def word_neq_0_conv)
    moreover have "n - 1 \<le> unat (saturating_sub a 1)" and "0 < n - 1" using d a(1) assms(3) x by auto
    ultimately show ?thesis using x by (auto simp: held_def)
  next
    case False
    let ?P = "\<lambda>h. purple_live h \<and> anchored (ref_idx r) (ref_generation r) a obj h"
    have i: "ref_idx x < length (hp_objects ?h1)" "slot_live (slot_of ?h1 (ref_idx x))"
      using True by (auto simp: ref_live_def slot_live_def)
    have p1: "?P ?h1"
      using anchored_other [OF a(2) hp_drop_anchor(1) False] assms(1) True
      by (auto simp: ref_live_def slot_live_def intro!: purple_live_update [OF _ hp_drop_anchor(1)])
    then have "?P (suspect ?h1 (ref_idx x))"
      and "slot_anchors (slot_of ?h1 (ref_idx x)) = 0 \<Longrightarrow> ?P (release_internal env ?h1 (ref_idx x))"
      using anchored_kept.P_suspect anchored_kept.release_internal_closed i by blast+
    with p1 True have "?P (snd (release_anchor env h x))" by (simp add: release_anchor_def Let_def)
    with a False show ?thesis by (auto simp: held_def)
  qed
qed

lemma held_retain:
  assumes "held r n obj h"
  shows "held r n obj (snd (retain_anchor h x))" and "held r n obj (snd (retain_edge h x))"
proof -
  from assms obtain a where a: "n \<le> unat a" "anchored (ref_idx r) (ref_generation r) a obj h" "0 < n"
    by (auto simp: held_def)
  have up: "unat a \<le> unat (saturating_add a 1)" and pos: "0 < saturating_add a 1"
    using a unsigned_less [of a, where ?'a = nat] by (simp_all add: unat_saturating_add word_less_nat_alt)
  have "anchored (ref_idx r) (ref_generation r) (if ref_live h x \<and> ref_idx x = ref_idx r then saturating_add a 1 else a)
          obj (snd (retain_anchor h x))"
    using a(2) pos by (cases "ref_live h x") (auto simp: anchored_def hp_calls nth_list_update_if, auto simp: retain_anchor_def)
  with a up show "held r n obj (snd (retain_anchor h x))"
    unfolding held_def by (smt (verit) le_trans)
  have "anchored (ref_idx r) (ref_generation r) a obj (snd (retain_edge h x))"
    using a(2) by (cases "ref_live h x") (auto simp: anchored_def hp_calls nth_list_update_if, auto simp: retain_edge_def)
  with a show "held r n obj (snd (retain_edge h x))" by (auto simp: held_def)
qed

lemma held_alloc:
  assumes "heap_wf h" and "held r n obj h" and "alloc env h new = Some (res, h')"
  shows "held r n obj h'"
  using assms(3)
proof (cases rule: alloc_cases)
  case (placed h2)
  from assms(2) obtain a where a: "n \<le> unat a" "anchored (ref_idx r) (ref_generation r) a obj h" "0 < n"
    by (auto simp: held_def)
  have wf: "heap_wf h2" by (rule wf_heap.collected_closed [OF _ placed(2)]) (simp_all add: assms(1))
  have "purple_live h2 \<and> anchored (ref_idx r) (ref_generation r) a obj h2"
    by (rule anchored_kept.collected_closed [OF _ placed(2)])
       (use a(2) assms(1) in \<open>simp_all add: anchored_def heap_wf_def\<close>)
  moreover from this have "ref_idx r \<notin> set (hp_free_slots h2)"
    using wf by (auto simp: heap_wf_def anchored_def slot_live_def)
  then have "hp_free_slots h2 \<noteq> [] \<Longrightarrow> last (hp_free_slots h2) \<noteq> ref_idx r" by (metis last_in_set)
  ultimately have "anchored (ref_idx r) (ref_generation r) a obj h'"
    using placed(3)
    by (auto simp: place_object_def Let_def anchored_def nth_append nth_list_update_if split: if_splits)
  with a show ?thesis by (auto simp: held_def)
qed (use assms in simp)

fun releases :: "VmObjectRef \<Rightarrow> heap_call list \<Rightarrow> nat" where
  "releases r [] = 0"
| "releases r (CReleaseAnchor x # cs) = (if x = r then 1 else 0) + releases r cs"
| "releases r (_ # cs) = releases r cs"

text \<open>The object that a reference resolves to after the writes of a sequence of calls.\<close>

fun written :: "VmObjectRef \<Rightarrow> HeapObject \<Rightarrow> heap_call list \<Rightarrow> HeapObject" where
  "written r obj [] = obj"
| "written r obj (CWrite x new # cs) = written r (if x = r then new else obj) cs"
| "written r obj (_ # cs) = written r obj cs"

lemma held_write:
  assumes "held r n obj h"
  shows "held r n (if x = r then new else obj) (case put_object h x new of Inr h1 \<Rightarrow> h1 | Inl _ \<Rightarrow> h)"
proof -
  from assms obtain a where a: "n \<le> unat a" "anchored (ref_idx r) (ref_generation r) a obj h" "0 < n"
    by (auto simp: held_def)
  have "anchored (ref_idx r) (ref_generation r) a (if x = r then new else obj) (case put_object h x new of Inr h1 \<Rightarrow> h1 | Inl _ \<Rightarrow> h)"
  proof (cases "x = r")
    case True
    with a(2) show ?thesis by (auto simp: anchored_def put_object_def ref_live_def)
  next
    case False
    show ?thesis
    proof (cases "ref_live h x")
      case True
      with False a(2) have "ref_idx x \<noteq> ref_idx r" using ref_idx_inj [of x r] by (auto simp: anchored_def ref_live_def)
      with True False a(2) show ?thesis by (simp add: anchored_def put_object_def)
    qed (use False a(2) in \<open>simp add: put_object_def\<close>)
  qed
  with a show ?thesis by (auto simp: held_def)
qed

lemma held_anchored_closed:
  assumes "held r n obj h" and "\<And>a. anchored (ref_idx r) (ref_generation r) a obj h \<Longrightarrow>
    anchored (ref_idx r) (ref_generation r) a obj h'"
  shows "held r n obj h'"
  using assms by (auto simp: held_def)

lemma held_apply:
  assumes "heap_wf h" and "index_ok h" and "held r n obj h" and "heap_apply env h c = Some h'"
    and "c \<noteq> CFree r" and "handle_of obj = None" and "releases r [c] < n"
  shows "held r (n - releases r [c]) (written r obj [c]) h'"
proof -
  from assms(1) have pl: "purple_live h" by (simp add: heap_wf_def)
  note kept = held_anchored_closed [OF assms(3)]
  show ?thesis
  proof (cases c)
    case (CAlloc new)
    with held_alloc [OF assms(1,3)] assms(4) show ?thesis by auto
  next
    case (CFree x)
    with kept anchored_free assms(4,5) show ?thesis by auto
  next
    case (CReleaseAnchor x)
    with held_release_anchor [OF pl assms(3), of x env] assms(4,7) show ?thesis by (auto split: if_splits)
  next
    case (CReleaseEdge x)
    have "held r n obj (snd (release_edge env h x))"
      using anchored_kept.release_edge_closed [of h _ _ _ _ env x] pl by (intro kept) blast
    with CReleaseEdge assms(4) show ?thesis by simp
  next
    case CCollect
    then have "held r n obj h'"
      using anchored_kept.collect_cycles_closed [of h _ _ _ _ env h'] pl assms(4) by (intro kept) auto
    with CCollect show ?thesis by simp
  next
    case (CWrite x new)
    with held_write [OF assms(3), of x new] assms(4) show ?thesis by (auto split: if_splits)
  next
    case CExtract
    have "held r n obj (snd (extract_adapter_handles env h))"
      using anchored_extract assms(2,6) by (intro kept) blast
    with CExtract assms(4) show ?thesis by simp
  qed (use held_retain [OF assms(3)] assms(4) in auto)
qed

lemma releases_Cons: "releases r (c # cs) = releases r [c] + releases r cs"
  by (cases c) simp_all

lemma written_Cons: "written r obj (c # cs) = written r (written r obj [c]) cs"
  by (cases c) simp_all

lemma held_run:
  assumes "heap_wf h" and "index_ok h" and "held r n obj h" and "heap_run env h cs = Some h'"
    and "CFree r \<notin> set cs" and "handle_of obj = None" and "\<forall>new. CWrite r new \<in> set cs \<longrightarrow> handle_of new = None" and "releases r cs < n"
  shows "held r (n - releases r cs) (written r obj cs) h'"
  using assms
proof (induction cs arbitrary: h n obj)
  case (Cons c cs)
  from Cons.prems(4) obtain h1 where h1: "heap_apply env h c = Some h1" and rest: "heap_run env h1 cs = Some h'"
    by (auto simp: bind_eq_Some_conv)
  have ok: "heap_wf h1 \<and> index_ok h1"
    using indexed_heap.heap_run_closed [of h env "[c]" h1] Cons.prems(1,2) h1 by simp
  have "held r (n - releases r [c]) (written r obj [c]) h1"
    using held_apply [OF Cons.prems(1-3) h1] Cons.prems(5-8) by (auto simp: releases_Cons [of r c cs])
  moreover have "handle_of (written r obj [c]) = None" using Cons.prems(6,7) by (cases c) auto
  ultimately show ?case
    using Cons.IH [of h1 "n - releases r [c]" "written r obj [c]"] ok rest Cons.prems(5,7,8)
    by (simp add: releases_Cons [of r c cs] written_Cons [of r obj c cs])
qed simp

text \<open>
  C7 (an anchored object survives).  An object whose slot has \<open>n\<close> anchors, and that is not an adapter handle, is still there
  after any sequence of heap calls that releases that anchor fewer than \<open>n\<close> times, does not free the object by hand and does
  not write a handle over it: its reference resolves to what was last written to it, and to the object itself when nothing
  was.  No release of other references, no recursive release and no run of the cycle collector takes it.
\<close>

theorem anchored_object_survives:
  assumes "heap_run env (new_heap q) cs0 = Some h" and "get_object h r = Inr obj"
    and "heap_run env h cs = Some h'" and "releases r cs < unat (slot_anchors (slot_of h (ref_idx r)))"
    and "CFree r \<notin> set cs" and "handle_of obj = None" and "\<forall>new. CWrite r new \<in> set cs \<longrightarrow> handle_of new = None"
  shows "get_object h' r = Inr (written r obj cs)"
proof -
  let ?n = "unat (slot_anchors (slot_of h (ref_idx r)))"
  have "held r ?n obj h"
    using assms(2,4)
    by (auto simp: held_def anchored_def get_object_def Let_def word_less_nat_alt
             split: if_splits option.splits)
  from held_run [OF indexed_run [OF assms(1)] this assms(3,5,6,7,4)]
  show ?thesis by (auto simp: held_def anchored_def get_object_def)
qed

text \<open>An anchored object of a cycle, its partner, and the collector.\<close>

definition cycle_calls :: "heap_call list" where
  "cycle_calls = [CAlloc (TupleObj [Object (new_ref 1 1)] 1), CAlloc (TupleObj [Object (new_ref 0 1)] 1),
     CRetainEdge (new_ref 0 1), CRetainEdge (new_ref 1 1), CReleaseAnchor (new_ref 1 1)]"

lemmas collector_simps =
  mark_roots_def mark_gray_def gray_refs.simps children_at_def scan_roots_def scan_def scan_black_def black_refs.simps
  scan_refs.simps collect_roots_def collect_white_def white_refs.simps add_edge_def

lemma sample_cycle_run:
  "\<exists>h h'. heap_run sample_env (new_heap (new_thread_quota default_limits)) cycle_calls = Some h \<and>
     get_object h (new_ref 0 1) = Inr (TupleObj [Object (new_ref 1 1)] 1) \<and>
     slot_anchors (slot_of h 0) = 1 \<and> hp_roots h = {1} \<and>
     heap_run sample_env h [CWrite (new_ref 0 1) (TupleObj [Object (new_ref 1 1), Null] 2), CCollect] = Some h'"
  by (simp add: cycle_calls_def heap_run_simps alloc_def place_object_def try_reserve_heap_def
      collector_simps get_object_def sample_env_def new_heap_def new_thread_quota_def default_limits_def)

theorem anchored_object_survives_witness:
  "\<exists>h'. heap_run sample_env (new_heap (new_thread_quota default_limits)) (cycle_calls @ [CWrite (new_ref 0 1) (TupleObj [Object (new_ref 1 1), Null] 2), CCollect]) = Some h' \<and>
        get_object h' (new_ref 0 1) = Inr (TupleObj [Object (new_ref 1 1), Null] 2)"
proof -
  obtain h h' where h: "heap_run sample_env (new_heap (new_thread_quota default_limits)) cycle_calls = Some h"
      "get_object h (new_ref 0 1) = Inr (TupleObj [Object (new_ref 1 1)] 1)"
      "heap_run sample_env h [CWrite (new_ref 0 1) (TupleObj [Object (new_ref 1 1), Null] 2), CCollect] = Some h'"
    and a: "slot_anchors (slot_of h 0) = 1"
    using sample_cycle_run by blast
  have "heap_run env h (xs @ ys) = Option.bind (heap_run env h xs) (\<lambda>h. heap_run env h ys)" for env h xs ys
    by (induction xs arbitrary: h) simp_all
  with anchored_object_survives [OF h] h a show ?thesis by (auto simp: new_ref_def)
qed

end
