(* ===== verification/Vm_Heap_Panics.thy ===== *)
theory Vm_Heap_Panics
  imports Vm_Heap_Props
begin

text \<open>
  The heap never panics: the cycle collector indexes the slot table with the references it finds in
  objects without a bounds check, and every history whose stored references lie inside the table
  runs to its end.  The last section states what the collector achieves and what it breaks.
\<close>

section \<open>References in range\<close>

definition refs_ok :: "PrivateHeap \<Rightarrow> bool" where
  "refs_ok h \<longleftrightarrow> (\<forall>i < length (hp_objects h). \<forall>r \<in> set (children_at h i). ref_idx r < length (hp_objects h))"

abbreviation in_table :: "PrivateHeap \<Rightarrow> VmObjectRef list \<Rightarrow> bool" where
  "in_table h rs \<equiv> (\<forall>r \<in> set rs. ref_idx r < length (hp_objects h))"

lemma refs_okD: "refs_ok h \<Longrightarrow> i < length (hp_objects h) \<Longrightarrow> in_table h (children_at h i)"
  by (simp add: refs_ok_def)

lemma refs_ok_update:
  assumes "refs_ok h" and "hp_objects h' = (hp_objects h)[i := s]"
    and "\<And>obj. slot_object s = Some obj \<Longrightarrow> i < length (hp_objects h) \<Longrightarrow> in_table h (get_children obj)"
  shows "refs_ok h'"
  unfolding refs_ok_def
proof (intro allI impI)
  fix j
  assume "j < length (hp_objects h')"
  then have j: "j < length (hp_objects h)" by (simp add: assms(2))
  show "in_table h' (children_at h' j)"
  proof (cases "j = i")
    case True
    with assms(3) j show ?thesis by (cases "slot_object s") (simp_all add: children_at_def assms(2))
  next
    case False
    then have "children_at h' j = children_at h j" by (simp add: children_at_def assms(2))
    with refs_okD [OF assms(1) j] show ?thesis by (simp add: assms(2))
  qed
qed

lemma refs_ok_update_same:
  assumes "refs_ok h" and "hp_objects h' = (hp_objects h)[i := s]"
    and "slot_object s = None \<or> slot_object s = slot_object (slot_of h i)"
  shows "refs_ok h'"
  using assms(1,3) refs_okD [OF assms(1), of i]
  by (intro refs_ok_update [OF _ assms(2)]) (auto simp: children_at_def)

lemma refs_ok_prim:
  assumes "refs_ok h"
  shows "refs_ok (drop_edge h i)" "refs_ok (add_edge h i)" "refs_ok (paint h i c)" "refs_ok (suspect h i)"
    "refs_ok (h\<lparr>hp_roots := R\<rparr>)"
proof -
  note same = refs_ok_update_same [OF assms]
  show "refs_ok (drop_edge h i)" by (rule same [OF hp_drop_edge(1)]) simp
  show "refs_ok (add_edge h i)" by (rule same [OF hp_add_edge(1)]) simp
  show "refs_ok (paint h i c)" by (rule same [OF hp_paint(1)]) simp
  show "refs_ok (suspect h i)" by (rule same [OF hp_suspect(1)]) simp
  show "refs_ok (h\<lparr>hp_roots := R\<rparr>)" using assms by (simp add: refs_ok_def children_at_def)
qed

lemma refs_ok_detach:
  assumes "refs_ok h" and "i < length (hp_objects h)"
  shows "refs_ok (fst (detach env h i))"
proof -
  have "hp_objects (fst (detach env h i)) =
      (hp_objects h)[i := slot_of h i\<lparr>slot_color := Black, slot_object := None\<rparr>]"
    using assms(2) by (auto simp: detach_def Let_def nth_list_update_if split: option.splits intro!: nth_equalityI)
  then show ?thesis by (rule refs_ok_update_same [OF assms(1)]) simp
qed

interpretation ranged_closed: heap_closed env "\<lambda>h. purple_live h \<and> refs_ok h" for env
  by unfold_locales (auto simp: refs_ok_prim refs_ok_detach purple_live_prim)

text \<open>Slots, generations and ranges together, as the loops over the roots need them.\<close>

definition ranged :: "nat \<Rightarrow> PrivateHeap \<Rightarrow> bool" where
  "ranged n h \<longleftrightarrow> purple_live h \<and> refs_ok h \<and> length (hp_objects h) = n"

interpretation ranged_table: heap_closed env "ranged n" for env n
  unfolding ranged_def
  by unfold_locales
     (auto simp: refs_ok_prim refs_ok_detach purple_live_prim, auto simp: detach_def Let_def split: option.splits)

section \<open>The collector does not panic\<close>

lemma gray_refs_total: "refs_ok h \<Longrightarrow> in_table h rs \<Longrightarrow> \<exists>h'. gray_refs h rs = Some h'"
proof (induction h rs rule: gray_refs.induct)
  case (2 h r rs)
  let ?i = "ref_idx r" and ?h1 = "drop_edge h (ref_idx r)"
  have "in_table (paint ?h1 ?i Gray) (children_at ?h1 ?i @ rs)"
    using "2.prems" refs_okD [OF refs_ok_prim(1) [OF "2.prems"(1), of ?i], of ?i] by auto
  then show ?case
    using "2.IH" [OF refl] "2.prems" by (auto simp: gray_refs.simps(2) Let_def refs_ok_prim)
qed simp

lemma mark_gray_total: "refs_ok h \<Longrightarrow> i < length (hp_objects h) \<Longrightarrow> \<exists>h'. mark_gray h i = Some h'"
  using gray_refs_total [of "paint h i Gray" "children_at h i"] refs_okD [of h i]
  by (auto simp: mark_gray_def refs_ok_prim)

lemma black_refs_total: "refs_ok h \<Longrightarrow> in_table h rs \<Longrightarrow> \<exists>h'. black_refs h rs = Some h'"
proof (induction h rs rule: black_refs.induct)
  case (2 h r rs)
  let ?i = "ref_idx r" and ?h1 = "add_edge h (ref_idx r)"
  have "in_table (paint ?h1 ?i Black) (children_at ?h1 ?i @ rs)"
    using "2.prems" refs_okD [OF refs_ok_prim(2) [OF "2.prems"(1), of ?i], of ?i] by auto
  then show ?case
    using "2.IH" [OF refl] "2.prems" by (auto simp: black_refs.simps(2) Let_def refs_ok_prim)
qed simp

lemma scan_black_total: "refs_ok h \<Longrightarrow> i < length (hp_objects h) \<Longrightarrow> \<exists>h'. scan_black h i = Some h'"
  using black_refs_total [of "paint h i Black" "children_at h i"] refs_okD [of h i]
  by (auto simp: scan_black_def refs_ok_prim)

lemma refs_ok_same_store: "same_store h h' \<Longrightarrow> refs_ok h \<Longrightarrow> refs_ok h'"
  using same_store_length [of h h'] same_store_nth(1) [of h h'] by (auto simp: refs_ok_def children_at_def)

lemma scan_refs_total: "refs_ok h \<Longrightarrow> in_table h rs \<Longrightarrow> \<exists>h'. scan_refs h rs = Some h'"
proof (induction h rs rule: scan_refs.induct)
  case (2 h r rs)
  let ?i = "ref_idx r"
  from "2.prems" have i: "?i < length (hp_objects h)" by simp
  then obtain h1 where h1: "scan_black h ?i = Some h1" using scan_black_total "2.prems"(1) by blast
  then have ss: "refs_ok h1" "length (hp_objects h1) = length (hp_objects h)"
    using scan_black_same_store refs_ok_same_store "2.prems"(1) same_store_length by blast+
  have "in_table (paint h ?i White) (children_at h ?i @ rs)"
    using "2.prems" refs_okD [OF "2.prems"(1) i] by auto
  then show ?case
    using "2.IH" [OF refl] "2.prems" i h1 ss by (auto simp: scan_refs.simps(2) Let_def refs_ok_prim)
qed simp

lemma scan_total: "refs_ok h \<Longrightarrow> i < length (hp_objects h) \<Longrightarrow> \<exists>h'. scan h i = Some h'"
  using scan_refs_total [of "paint h i White" "children_at h i"] refs_okD [of h i] scan_black_total [of h i]
  by (auto simp: scan_def refs_ok_prim)

lemma mark_roots_loop_total:
  "ranged n h \<Longrightarrow> \<forall>i \<in> set is. i < n \<Longrightarrow> \<exists>h'. mark_roots_loop env h is = Some h'"
proof (induction "is" arbitrary: h)
  case (Cons i "is")
  let ?slot = "slot_of h i"
  have i: "i < length (hp_objects h)" and ok: "refs_ok h" and p: "purple_live h"
    using Cons.prems by (auto simp: ranged_def)
  obtain h1 where h1: "mark_gray h i = Some h1" using mark_gray_total ok i by blast
  have r1: "ranged n h1" using ranged_table.mark_gray_closed Cons.prems(1) h1 .
  have "slot_live (slot_of h1 i)" if "slot_color ?slot = Purple"
    using that p i same_store_nth(1) [OF mark_gray_same_store [OF h1] i] by (simp add: purple_live_def slot_live_def)
  then have "ranged n (h1\<lparr>hp_roots := insert i (hp_roots h1)\<rparr>)"
    using r1 by (simp add: ranged_def refs_ok_prim)
  moreover have b: "ranged n (paint h i Black)" using ranged_table.P_paint Cons.prems(1) i by blast
  moreover have "ranged n (release_internal env (paint h i Black) i)" if "slot_anchors ?slot = 0"
    using that i by (intro ranged_table.release_internal_closed b) simp_all
  ultimately show ?case
    using Cons.IH Cons.prems(2) i h1 by (simp add: Let_def)
qed simp

lemma scan_roots_loop_total:
  "refs_ok h \<Longrightarrow> \<forall>i \<in> set is. i < length (hp_objects h) \<Longrightarrow> \<exists>h'. scan_roots_loop h is = Some h'"
proof (induction "is" arbitrary: h)
  case (Cons i "is")
  then obtain h1 where h1: "scan h i = Some h1" using scan_total by fastforce
  have "refs_ok h1" "length (hp_objects h1) = length (hp_objects h)"
    using scan_same_store [OF h1] refs_ok_same_store Cons.prems(1) same_store_length by blast+
  with Cons h1 show ?case by simp
qed simp

lemma collect_roots_loop_total:
  "\<forall>i \<in> set is. i < length (hp_objects h) \<Longrightarrow> \<exists>h'. collect_roots_loop env h is = Some h'"
  by (induction "is" arbitrary: h) (auto simp: collect_white_def)

lemma hash_order_set: "hash_order_ok env \<Longrightarrow> finite S \<Longrightarrow> set (hash_order env S) = S"
  by (simp add: hash_order_ok_def)

lemma roots_in_table: "heap_wf h \<Longrightarrow> hp_roots h \<subseteq> {..<length (hp_objects h)}"
  by (auto simp: heap_wf_def)

lemma collect_cycles_total:
  assumes env: "hash_order_ok env" and wf: "heap_wf h" and ok: "refs_ok h"
  shows "\<exists>h'. collect_cycles env h = Some h'"
proof -
  let ?n = "length (hp_objects h)"
  have order: "\<forall>i \<in> set (hash_order env (hp_roots h)). i < length (hp_objects h)" if "heap_wf h" for h
  proof -
    have sub: "hp_roots h \<subseteq> {..<length (hp_objects h)}" using roots_in_table [OF that] .
    then have "finite (hp_roots h)" using finite_subset by blast
    then show ?thesis using hash_order_set [OF env] sub by auto
  qed
  have r0: "ranged ?n (h\<lparr>hp_roots := {}\<rparr>)"
    using wf ok by (simp add: ranged_def refs_ok_prim heap_wf_def)
  obtain h1 where h1: "mark_roots env h = Some h1"
    using mark_roots_loop_total [OF r0, of "hash_order env (hp_roots h)" env] order [OF wf]
    by (auto simp: mark_roots_def)
  have r1: "ranged ?n h1" and wf1: "heap_wf h1"
    using ranged_table.mark_roots_loop_closed [OF r0, of env] h1
      wf_heap.mark_roots_loop_closed [OF wf_heap.P_no_roots [OF wf], of env]
    by (auto simp: mark_roots_def)
  obtain h2 where h2: "scan_roots env h1 = Some h2"
    using scan_roots_loop_total [OF _ order [OF wf1]] r1 by (auto simp: scan_roots_def ranged_def)
  have wf2: "heap_wf h2" using wf_heap.scan_roots_loop_closed [OF wf1] h2 by (simp add: scan_roots_def)
  obtain h3 where "collect_roots env h2 = Some h3"
    using collect_roots_loop_total [of "hash_order env (hp_roots h2)" "h2\<lparr>hp_roots := {}\<rparr>" env] order [OF wf2]
    by (auto simp: collect_roots_def)
  with h1 h2 show ?thesis by (simp add: collect_cycles_def)
qed

section \<open>No call panics\<close>

fun call_in_range :: "PrivateHeap \<Rightarrow> heap_call \<Rightarrow> bool" where
  "call_in_range h (CAlloc obj) = in_table h (get_children obj)"
| "call_in_range h (CWrite r obj) = in_table h (get_children obj)"
| "call_in_range h _ = True"

fun run_in_range :: "HostEnv \<Rightarrow> PrivateHeap \<Rightarrow> heap_call list \<Rightarrow> bool" where
  "run_in_range env h [] = True"
| "run_in_range env h (c # cs) =
    (call_in_range h c \<and> (case heap_apply env h c of None \<Rightarrow> True | Some h1 \<Rightarrow> run_in_range env h1 cs))"

lemma children_at_frame [simp]:
  "children_at (h\<lparr>hp_allocations := k\<rparr>) = children_at h" "children_at (reserved env h obj) = children_at h"
  by (simp_all add: fun_eq_iff children_at_def)

lemma ranged_allocations: "ranged n h \<Longrightarrow> ranged n (h\<lparr>hp_allocations := k\<rparr>)"
  by (auto simp: ranged_def refs_ok_def)

lemma refs_ok_place:
  assumes "refs_ok h" and "in_table h (get_children obj)"
  shows "refs_ok (snd (place_object h obj))"
proof (cases "hp_free_slots h = []")
  case True
  have "refs_ok (h\<lparr>hp_objects := hp_objects h @ [s]\<rparr>)" if "slot_object s = Some obj" for s
    unfolding refs_ok_def
  proof (intro allI impI ballI)
    fix i r
    assume i: "i < length (hp_objects (h\<lparr>hp_objects := hp_objects h @ [s]\<rparr>))"
      and r: "r \<in> set (children_at (h\<lparr>hp_objects := hp_objects h @ [s]\<rparr>) i)"
    have "ref_idx r < length (hp_objects h)"
    proof (cases "i < length (hp_objects h)")
      case True
      with r refs_okD [OF assms(1)] show ?thesis by (auto simp: children_at_def nth_append)
    next
      case False
      with i r that assms(2) show ?thesis by (auto simp: children_at_def nth_append less_Suc_eq)
    qed
    then show "ref_idx r < length (hp_objects (h\<lparr>hp_objects := hp_objects h @ [s]\<rparr>))" by simp
  qed
  with True assms(1) show ?thesis by (simp add: place_object_def Let_def)
next
  case False
  then show ?thesis
    by (intro refs_ok_update [OF assms(1), of _ "last (hp_free_slots h)"])
       (use assms(2) in \<open>auto simp: place_object_def Let_def\<close>)
qed

lemma collected_total:
  assumes "hash_order_ok env" and "heap_wf h" and "refs_ok h"
  shows "\<exists>h2. collected env h = Some h2 \<and> refs_ok h2 \<and> length (hp_objects h2) = length (hp_objects h)"
proof -
  obtain h2 where h2: "collected env h = Some h2"
    using collect_cycles_total [OF assms] by (cases "hp_allocations h \<ge> 500") (auto simp: collected_def)
  have "ranged (length (hp_objects h)) h" using assms by (simp add: ranged_def heap_wf_def)
  from ranged_table.collected_closed [OF this h2 ranged_allocations] h2
  show ?thesis by (simp add: ranged_def)
qed

lemma alloc_total:
  assumes "hash_order_ok env" and "heap_wf h" and "refs_ok h" and "in_table h (get_children obj)"
  shows "\<exists>res h'. alloc env h obj = Some (res, h') \<and> refs_ok h'"
proof (cases "fst (try_reserve_heap (hp_quota h) 1 (heap_bytes env obj))")
  case (Inl e)
  with assms(3) show ?thesis by (simp add: alloc_steps)
next
  case (Inr u)
  have "heap_wf (reserved env h obj)" and "refs_ok (reserved env h obj)"
    using assms(2,3) by (simp_all add: refs_ok_def)
  from collected_total [OF assms(1) this] obtain h2
    where "collected env (reserved env h obj) = Some h2" "refs_ok h2" "length (hp_objects h2) = length (hp_objects h)"
    by auto
  with Inr refs_ok_place [of h2 obj] assms(4) show ?thesis
    by (cases "place_object h2 obj") (simp add: alloc_steps)
qed

interpretation ranged_invariant: heap_invariant env "\<lambda>h. purple_live h \<and> refs_ok h" for env
proof unfold_locales
  fix h r
  assume P: "purple_live h \<and> refs_ok h" and live: "ref_live h r"
  then have pl: "purple_live h" and ok: "refs_ok h" and l: "slot_live (slot_of h (ref_idx r))"
    by (auto simp: ref_live_def slot_live_def)
  note upd = refs_ok_update_same [OF ok] and pupd = purple_live_update [OF pl]
  show "purple_live (snd (free_object env h r)) \<and> refs_ok (snd (free_object env h r))"
    by (intro conjI; rule pupd [OF hp_free_object(1) [OF live]] upd [OF hp_free_object(1) [OF live]]) simp_all
  show "purple_live (snd (retain_anchor h r)) \<and> refs_ok (snd (retain_anchor h r))"
    by (intro conjI; rule pupd [OF hp_retain_anchor(1) [OF live]] upd [OF hp_retain_anchor(1) [OF live]]) simp_all
  show "purple_live (snd (retain_edge h r)) \<and> refs_ok (snd (retain_edge h r))"
    by (intro conjI; rule pupd [OF hp_retain_edge(1) [OF live]] upd [OF hp_retain_edge(1) [OF live]]) simp_all
  show "purple_live (drop_anchor h (ref_idx r)) \<and> refs_ok (drop_anchor h (ref_idx r))"
    by (intro conjI; rule pupd [OF hp_drop_anchor(1)] upd [OF hp_drop_anchor(1)]) (simp_all add: l)
qed

lemma heap_apply_total:
  assumes "hash_order_ok env" and "heap_wf h" and "refs_ok h" and "call_in_range h c"
  shows "\<exists>h'. heap_apply env h c = Some h' \<and> refs_ok h'"
proof -
  have keep: "\<exists>h'. heap_apply env h c = Some h' \<and> refs_ok h'"
    if "heap_apply env h c \<noteq> None" "\<And>obj. c \<noteq> CAlloc obj" "\<And>r obj. c \<noteq> CWrite r obj"
    using that ranged_invariant.heap_apply_closed [of h env c] assms(2,3) by (force simp: heap_wf_def)
  show ?thesis
  proof (cases c)
    case (CAlloc obj)
    with alloc_total [OF assms(1-3), of obj] assms(4) show ?thesis by force
  next
    case (CWrite r obj)
    show ?thesis
    proof (cases "put_object h r obj")
      case (Inr h1)
      with refs_ok_update [OF assms(3) hp_put_object(2) [OF Inr]] assms(4) CWrite show ?thesis by auto
    qed (use CWrite assms(3) in auto)
  qed (use keep collect_cycles_total [OF assms(1-3)] in auto)
qed

lemma heap_run_total:
  assumes "hash_order_ok env" and "heap_wf h" and "index_ok h" and "refs_ok h" and "run_in_range env h cs"
  shows "\<exists>h'. heap_run env h cs = Some h'"
  using assms(2-)
proof (induction cs arbitrary: h)
  case (Cons c cs)
  then obtain h1 where h1: "heap_apply env h c = Some h1" "refs_ok h1"
    using heap_apply_total [OF assms(1) Cons.prems(1,3)] by auto
  have "heap_wf h1 \<and> index_ok h1"
    using indexed_heap.heap_run_closed [of h env "[c]" h1] Cons.prems(1,2) h1 by simp
  with Cons h1 show ?case by simp
qed simp

text \<open>
  C31 (the heap does not index out of range).  On a new heap, every sequence of calls runs to its end, whatever the iteration
  order of the hash set of roots, provided each object that is allocated or written refers to slots that exist at that moment:
  the unchecked indexing in the collector is never out of range.  The depth of the native stack is not part of the model.
\<close>

theorem heap_never_panics:
  assumes "hash_order_ok env" and "run_in_range env (new_heap q) cs"
  shows "\<exists>h. heap_run env (new_heap q) cs = Some h"
proof (rule heap_run_total [OF assms(1) _ _ _ assms(2)])
  show "heap_wf (new_heap q)" "index_ok (new_heap q)" "refs_ok (new_heap q)"
    by (auto simp: heap_wf_def purple_live_def index_ok_def refs_ok_def new_heap_def)
qed

lemma sample_in_range: "run_in_range sample_env (new_heap (new_thread_quota default_limits)) sample_calls"
  by (simp add: sample_calls_def heap_run_simps alloc_def place_object_def try_reserve_heap_def
      sample_env_def new_heap_def new_thread_quota_def default_limits_def)

theorem heap_never_panics_witness:
  "\<exists>h. heap_run sample_env (new_heap (new_thread_quota default_limits)) sample_calls = Some h"
  by (rule heap_never_panics [OF hash_order_ok_sample sample_in_range])

section \<open>What the collector frees\<close>

text \<open>
  The last phase collects nothing.  \<open>collect_roots\<close> paints each root black and only then asks
  \<open>collect_white\<close>, which takes white objects alone, to free it; so the phase that is meant to free
  the garbage cycles found by the scan changes no object, no count of anchors, no free slot and no
  quota, whatever the colours are.
\<close>

lemma collect_roots_frees_nothing:
  assumes "collect_roots env h = Some h'"
  shows "map slot_object (hp_objects h') = map slot_object (hp_objects h) \<and>
         hp_free_slots h' = hp_free_slots h \<and> hp_quota h' = hp_quota h"
  using assms collect_roots_loop_same_store [of env "h\<lparr>hp_roots := {}\<rparr>" _ h']
  by (simp add: collect_roots_def same_store_def)

text \<open>A tuple that contains itself and that nothing else refers to: the scan whitens it.\<close>

definition garbage_cycle :: "heap_call list" where
  "garbage_cycle = [CAlloc (TupleObj [Object (new_ref 0 1)] 1), CRetainEdge (new_ref 0 1),
     CReleaseAnchor (new_ref 0 1)]"

definition scanned_garbage :: "PrivateHeap option" where
  "scanned_garbage = Option.bind (heap_run sample_env (new_heap (new_thread_quota default_limits)) garbage_cycle)
     (\<lambda>h. Option.bind (mark_roots sample_env h) (scan_roots sample_env))"

lemma garbage_cycle_eval:
  "\<exists>h h'. scanned_garbage = Some h \<and> map slot_color (hp_objects h) = [White] \<and>
     collect_roots sample_env h = Some h'"
  by (simp add: scanned_garbage_def garbage_cycle_def heap_run_simps alloc_def place_object_def
      try_reserve_heap_def collector_simps sample_env_def new_heap_def new_thread_quota_def default_limits_def)

text \<open>
  Three tuples: the anchored one at slot 2 refers to the one at slot 0, which refers to the one at
  slot 1; the last two are candidate roots because their own anchors have been released.
\<close>

definition chain_calls :: "heap_call list" where
  "chain_calls = [CAlloc (TupleObj [] 0), CAlloc (TupleObj [] 0), CReleaseAnchor (new_ref 0 1),
     CAlloc (TupleObj [Object (new_ref 1 1)] 1), CRetainEdge (new_ref 1 1),
     CAlloc (TupleObj [Object (new_ref 0 2)] 1), CRetainEdge (new_ref 0 2),
     CReleaseAnchor (new_ref 1 1), CReleaseAnchor (new_ref 0 2)]"

definition chain_heap :: "PrivateHeap option" where
  "chain_heap = heap_run sample_env (new_heap (new_thread_quota default_limits)) chain_calls"

text \<open>
  Trial deletion frees a reachable object.  \<open>mark_roots\<close> subtracts the edges inside the subgraph
  of one candidate root and then meets another candidate of that subgraph, no longer purple and
  with its trial count at zero, and frees it as if it were dead.  On a heap reached by public
  calls, where an anchored tuple refers to a second and the second to a third, \<open>collect_cycles\<close> leaves
  the first two and frees the third, so that the second holds a dangling reference.
\<close>

lemma collect_cycles_frees_reachable:
  "\<exists>h h'. chain_heap = Some h \<and> collect_cycles sample_env h = Some h' \<and>
     slot_anchors (slot_of h 2) = 1 \<and>
     get_object h (new_ref 2 1) = Inr (TupleObj [Object (new_ref 0 2)] 1) \<and>
     get_object h (new_ref 0 2) = Inr (TupleObj [Object (new_ref 1 1)] 1) \<and>
     get_object h (new_ref 1 1) = Inr (TupleObj [] 0) \<and>
     get_object h' (new_ref 2 1) = Inr (TupleObj [Object (new_ref 0 2)] 1) \<and>
     get_object h' (new_ref 0 2) = Inr (TupleObj [Object (new_ref 1 1)] 1) \<and>
     get_object h' (new_ref 1 1) = Inl InvalidObjectReference"
  by (simp add: chain_heap_def chain_calls_def heap_run_simps alloc_def place_object_def try_reserve_heap_def
      collector_simps get_object_def sample_env_def new_heap_def new_thread_quota_def default_limits_def)

end
