(* ===== verification/Vm_Operators.thy ===== *)
theory Vm_Operators
  imports Vm_Value "HOL-Library.Signed_Division"
begin

unbundle bit_operations_syntax

text \<open>
  The operators of the virtual machine on values: \<^verbatim>\<open>galfus-vm/src/runtime/operators.rs\<close>, the helpers of
  \<^verbatim>\<open>galfus-vm/src/runtime/heap.rs\<close> and \<open>immediate_binary_value\<close> of \<^verbatim>\<open>galfus-vm/src/runtime.rs\<close>.

  Arithmetic on integers wraps at the width of the type, division truncates towards zero, a
  division by zero is an error value and the one overflowing quotient, the least number by minus
  one, makes the Rust operators \<open>/\<close> and \<open>%\<close> panic.  Float results are normalised.  The functions
  of the platform's mathematics library that the sources call, \<open>powf\<close>, \<open>hypot\<close>, \<open>sqrt\<close>, \<open>sin\<close>, \<open>cos\<close>, \<open>tan\<close>, \<open>ln\<close>, \<open>log2\<close> and
  \<open>log10\<close>, are not part of the sources and are the parameter \<open>FloatEnv\<close>.
\<close>

section \<open>Integer division\<close>

record FloatEnv =
  powf32 :: "f32 \<Rightarrow> f32 \<Rightarrow> f32"
  powf64 :: "f64 \<Rightarrow> f64 \<Rightarrow> f64"
  hypot64 :: "f64 \<Rightarrow> f64 \<Rightarrow> f64"
  sqrt64 :: "f64 \<Rightarrow> f64"
  sin64 :: "f64 \<Rightarrow> f64"
  cos64 :: "f64 \<Rightarrow> f64"
  tan64 :: "f64 \<Rightarrow> f64"
  ln64 :: "f64 \<Rightarrow> f64"
  log2_64 :: "f64 \<Rightarrow> f64"
  log10_64 :: "f64 \<Rightarrow> f64"

fun map_ok :: "('a \<Rightarrow> 'b) \<Rightarrow> ('e, 'a) outcome \<Rightarrow> ('e, 'b) outcome" where
  "map_ok f (Ok a) = Ok (f a)"
| "map_ok f (Err e) = Err e"
| "map_ok f Panic = Panic"

fun of_result :: "'e + 'a \<Rightarrow> ('e, 'a) outcome" where
  "of_result (Inl e) = Err e"
| "of_result (Inr a) = Ok a"

text \<open>The one quotient of signed numbers that does not fit the type.\<close>

definition div_overflows :: "'a::len word \<Rightarrow> 'a word \<Rightarrow> bool" where
  "div_overflows l r \<longleftrightarrow> sint l = - (2 ^ (LENGTH('a) - 1)) \<and> sint r = - 1"

definition wrapping_div :: "'a::len word \<Rightarrow> 'a word \<Rightarrow> 'a word" where
  "wrapping_div l r = word_of_int (sint l sdiv sint r)"

definition wrapping_rem :: "'a::len word \<Rightarrow> 'a word \<Rightarrow> 'a word" where
  "wrapping_rem l r = word_of_int (sint l smod sint r)"

definition signed_div :: "'a::len word \<Rightarrow> 'a word \<Rightarrow> (VmError, 'a word) outcome" where
  "signed_div l r = (if r = 0 then Err DivisionByZero else if div_overflows l r then Panic else Ok (wrapping_div l r))"

definition signed_rem :: "'a::len word \<Rightarrow> 'a word \<Rightarrow> (VmError, 'a word) outcome" where
  "signed_rem l r = (if r = 0 then Err DivisionByZero else if div_overflows l r then Panic else Ok (wrapping_rem l r))"

definition unsigned_div :: "'a::len word \<Rightarrow> 'a word \<Rightarrow> (VmError, 'a word) outcome" where
  "unsigned_div l r = (if r = 0 then Err DivisionByZero else Ok (l div r))"

definition unsigned_rem :: "'a::len word \<Rightarrow> 'a word \<Rightarrow> (VmError, 'a word) outcome" where
  "unsigned_rem l r = (if r = 0 then Err DivisionByZero else Ok (l mod r))"

section \<open>Orders\<close>

datatype Ordering = Less | Equal | Greater

definition cmp :: "'a::linorder \<Rightarrow> 'a \<Rightarrow> Ordering" where
  "cmp a b = (if a < b then Less else if a = b then Equal else Greater)"

definition partial_cmp_f32 :: "f32 \<Rightarrow> f32 \<Rightarrow> Ordering option" where
  "partial_cmp_f32 a b =
    (if f32_lt a b then Some Less else if f32_eq a b then Some Equal else if f32_lt b a then Some Greater else None)"

definition partial_cmp_f64 :: "f64 \<Rightarrow> f64 \<Rightarrow> Ordering option" where
  "partial_cmp_f64 a b =
    (if f64_lt a b then Some Less else if f64_eq a b then Some Equal else if f64_lt b a then Some Greater else None)"

section \<open>Operators on values\<close>

definition add_values :: "VmValue \<Rightarrow> VmValue \<Rightarrow> VmError + VmValue" where
  "add_values lhs rhs =
    (case (lhs, rhs) of
       (Int8 l, Int8 r) \<Rightarrow> Inr (Int8 (l + r))
     | (Int16 l, Int16 r) \<Rightarrow> Inr (Int16 (l + r))
     | (Int32 l, Int32 r) \<Rightarrow> Inr (Int32 (l + r))
     | (Int64 l, Int64 r) \<Rightarrow> Inr (Int64 (l + r))
     | (Uint8 l, Uint8 r) \<Rightarrow> Inr (Uint8 (l + r))
     | (Uint16 l, Uint16 r) \<Rightarrow> Inr (Uint16 (l + r))
     | (Uint32 l, Uint32 r) \<Rightarrow> Inr (Uint32 (l + r))
     | (Uint64 l, Uint64 r) \<Rightarrow> Inr (Uint64 (l + r))
     | (Float32 l, Float32 r) \<Rightarrow> Inr (Float32 (normalize_f32 (f32_add l r)))
     | (Float64 l, Float64 r) \<Rightarrow> Inr (Float64 (normalize_f64 (f64_add l r)))
     | (l, r) \<Rightarrow> Inl (TypeMismatch ''matching numeric types'' (FoundValues l r)))"

definition sub_values :: "VmValue \<Rightarrow> VmValue \<Rightarrow> VmError + VmValue" where
  "sub_values lhs rhs =
    (case (lhs, rhs) of
       (Int8 l, Int8 r) \<Rightarrow> Inr (Int8 (l - r))
     | (Int16 l, Int16 r) \<Rightarrow> Inr (Int16 (l - r))
     | (Int32 l, Int32 r) \<Rightarrow> Inr (Int32 (l - r))
     | (Int64 l, Int64 r) \<Rightarrow> Inr (Int64 (l - r))
     | (Uint8 l, Uint8 r) \<Rightarrow> Inr (Uint8 (l - r))
     | (Uint16 l, Uint16 r) \<Rightarrow> Inr (Uint16 (l - r))
     | (Uint32 l, Uint32 r) \<Rightarrow> Inr (Uint32 (l - r))
     | (Uint64 l, Uint64 r) \<Rightarrow> Inr (Uint64 (l - r))
     | (Float32 l, Float32 r) \<Rightarrow> Inr (Float32 (normalize_f32 (f32_sub l r)))
     | (Float64 l, Float64 r) \<Rightarrow> Inr (Float64 (normalize_f64 (f64_sub l r)))
     | (l, r) \<Rightarrow> Inl (TypeMismatch ''matching numeric types'' (FoundValues l r)))"

definition mul_values :: "VmValue \<Rightarrow> VmValue \<Rightarrow> VmError + VmValue" where
  "mul_values lhs rhs =
    (case (lhs, rhs) of
       (Int8 l, Int8 r) \<Rightarrow> Inr (Int8 (l * r))
     | (Int16 l, Int16 r) \<Rightarrow> Inr (Int16 (l * r))
     | (Int32 l, Int32 r) \<Rightarrow> Inr (Int32 (l * r))
     | (Int64 l, Int64 r) \<Rightarrow> Inr (Int64 (l * r))
     | (Uint8 l, Uint8 r) \<Rightarrow> Inr (Uint8 (l * r))
     | (Uint16 l, Uint16 r) \<Rightarrow> Inr (Uint16 (l * r))
     | (Uint32 l, Uint32 r) \<Rightarrow> Inr (Uint32 (l * r))
     | (Uint64 l, Uint64 r) \<Rightarrow> Inr (Uint64 (l * r))
     | (Float32 l, Float32 r) \<Rightarrow> Inr (Float32 (normalize_f32 (f32_mul l r)))
     | (Float64 l, Float64 r) \<Rightarrow> Inr (Float64 (normalize_f64 (f64_mul l r)))
     | (l, r) \<Rightarrow> Inl (TypeMismatch ''matching numeric types'' (FoundValues l r)))"

definition div_values :: "VmValue \<Rightarrow> VmValue \<Rightarrow> (VmError, VmValue) outcome" where
  "div_values lhs rhs =
    (case (lhs, rhs) of
       (Int8 l, Int8 r) \<Rightarrow> map_ok Int8 (signed_div l r)
     | (Int16 l, Int16 r) \<Rightarrow> map_ok Int16 (signed_div l r)
     | (Int32 l, Int32 r) \<Rightarrow> map_ok Int32 (signed_div l r)
     | (Int64 l, Int64 r) \<Rightarrow> map_ok Int64 (signed_div l r)
     | (Uint8 l, Uint8 r) \<Rightarrow> map_ok Uint8 (unsigned_div l r)
     | (Uint16 l, Uint16 r) \<Rightarrow> map_ok Uint16 (unsigned_div l r)
     | (Uint32 l, Uint32 r) \<Rightarrow> map_ok Uint32 (unsigned_div l r)
     | (Uint64 l, Uint64 r) \<Rightarrow> map_ok Uint64 (unsigned_div l r)
     | (Float32 l, Float32 r) \<Rightarrow> Ok (Float32 (normalize_f32 (f32_div l r)))
     | (Float64 l, Float64 r) \<Rightarrow> Ok (Float64 (normalize_f64 (f64_div l r)))
     | (l, r) \<Rightarrow> Err (TypeMismatch ''matching numeric types'' (FoundValues l r)))"

definition rem_values :: "VmValue \<Rightarrow> VmValue \<Rightarrow> (VmError, VmValue) outcome" where
  "rem_values lhs rhs =
    (case (lhs, rhs) of
       (Int8 l, Int8 r) \<Rightarrow> map_ok Int8 (signed_rem l r)
     | (Int16 l, Int16 r) \<Rightarrow> map_ok Int16 (signed_rem l r)
     | (Int32 l, Int32 r) \<Rightarrow> map_ok Int32 (signed_rem l r)
     | (Int64 l, Int64 r) \<Rightarrow> map_ok Int64 (signed_rem l r)
     | (Uint8 l, Uint8 r) \<Rightarrow> map_ok Uint8 (unsigned_rem l r)
     | (Uint16 l, Uint16 r) \<Rightarrow> map_ok Uint16 (unsigned_rem l r)
     | (Uint32 l, Uint32 r) \<Rightarrow> map_ok Uint32 (unsigned_rem l r)
     | (Uint64 l, Uint64 r) \<Rightarrow> map_ok Uint64 (unsigned_rem l r)
     | (l, r) \<Rightarrow> Err (TypeMismatch ''matching integer types'' (FoundValues l r)))"

definition pow_values :: "FloatEnv \<Rightarrow> VmValue \<Rightarrow> VmValue \<Rightarrow> VmError + VmValue" where
  "pow_values fenv lhs rhs =
    (case (lhs, rhs) of
       (Int8 l, Int8 r) \<Rightarrow> Inr (Int8 (l ^ unat (scast r :: u32)))
     | (Int16 l, Int16 r) \<Rightarrow> Inr (Int16 (l ^ unat (scast r :: u32)))
     | (Int32 l, Int32 r) \<Rightarrow> Inr (Int32 (l ^ unat (scast r :: u32)))
     | (Int64 l, Int64 r) \<Rightarrow> Inr (Int64 (l ^ unat (scast r :: u32)))
     | (Uint8 l, Uint8 r) \<Rightarrow> Inr (Uint8 (l ^ unat (ucast r :: u32)))
     | (Uint16 l, Uint16 r) \<Rightarrow> Inr (Uint16 (l ^ unat (ucast r :: u32)))
     | (Uint32 l, Uint32 r) \<Rightarrow> Inr (Uint32 (l ^ unat r))
     | (Uint64 l, Uint64 r) \<Rightarrow> Inr (Uint64 (l ^ unat (ucast r :: u32)))
     | (Float32 l, Float32 r) \<Rightarrow> Inr (Float32 (normalize_f32 (powf32 fenv l r)))
     | (Float64 l, Float64 r) \<Rightarrow> Inr (Float64 (normalize_f64 (powf64 fenv l r)))
     | (l, r) \<Rightarrow> Inl (TypeMismatch ''matching numeric types'' (FoundValues l r)))"

fun neg_value :: "VmValue \<Rightarrow> VmError + VmValue" where
  "neg_value (Int8 x) = Inr (Int8 (- x))"
| "neg_value (Int16 x) = Inr (Int16 (- x))"
| "neg_value (Int32 x) = Inr (Int32 (- x))"
| "neg_value (Int64 x) = Inr (Int64 (- x))"
| "neg_value (Float32 x) = Inr (Float32 (normalize_f32 (f32_neg x)))"
| "neg_value (Float64 x) = Inr (Float64 (normalize_f64 (f64_neg x)))"
| "neg_value x = Inl (TypeMismatch ''signed numeric type'' (FoundValue x))"

fun not_value :: "VmValue \<Rightarrow> VmError + VmValue" where
  "not_value (Bool b) = Inr (Bool (\<not> b))"
| "not_value x = Inl (TypeMismatch ''boolean type'' (FoundValue x))"

fun bitnot_value :: "VmValue \<Rightarrow> VmError + VmValue" where
  "bitnot_value (Int8 x) = Inr (Int8 (NOT x))"
| "bitnot_value (Int16 x) = Inr (Int16 (NOT x))"
| "bitnot_value (Int32 x) = Inr (Int32 (NOT x))"
| "bitnot_value (Int64 x) = Inr (Int64 (NOT x))"
| "bitnot_value (Uint8 x) = Inr (Uint8 (NOT x))"
| "bitnot_value (Uint16 x) = Inr (Uint16 (NOT x))"
| "bitnot_value (Uint32 x) = Inr (Uint32 (NOT x))"
| "bitnot_value (Uint64 x) = Inr (Uint64 (NOT x))"
| "bitnot_value x = Inl (TypeMismatch ''integer type'' (FoundValue x))"

fun to_shift_amount :: "VmValue \<Rightarrow> VmError + u32" where
  "to_shift_amount (Int8 x) = Inr (scast x)"
| "to_shift_amount (Int16 x) = Inr (scast x)"
| "to_shift_amount (Int32 x) = Inr (scast x)"
| "to_shift_amount (Int64 x) = Inr (scast x)"
| "to_shift_amount (Uint8 x) = Inr (ucast x)"
| "to_shift_amount (Uint16 x) = Inr (ucast x)"
| "to_shift_amount (Uint32 x) = Inr (x)"
| "to_shift_amount (Uint64 x) = Inr (ucast x)"
| "to_shift_amount x = Inl (TypeMismatch ''integer shift amount'' (FoundValue x))"

text \<open>\<open>wrapping_shl\<close> and \<open>wrapping_shr\<close> use the shift amount modulo the width; \<open>>>\<close> is arithmetic on signed types.\<close>

definition wrapping_shl :: "'a::len word \<Rightarrow> u32 \<Rightarrow> 'a word" where
  "wrapping_shl l shift = push_bit (unat shift mod LENGTH('a)) l"

definition wrapping_shr_unsigned :: "'a::len word \<Rightarrow> u32 \<Rightarrow> 'a word" where
  "wrapping_shr_unsigned l shift = drop_bit (unat shift mod LENGTH('a)) l"

definition wrapping_shr_signed :: "'a::len word \<Rightarrow> u32 \<Rightarrow> 'a word" where
  "wrapping_shr_signed l shift = signed_drop_bit (unat shift mod LENGTH('a)) l"

definition shl_values :: "VmValue \<Rightarrow> VmValue \<Rightarrow> VmError + VmValue" where
  "shl_values lhs rhs =
    (case to_shift_amount rhs of
       Inl e \<Rightarrow> Inl e
     | Inr shift \<Rightarrow>
       (case lhs of
          Int8 l \<Rightarrow> Inr (Int8 (wrapping_shl l shift))
        | Int16 l \<Rightarrow> Inr (Int16 (wrapping_shl l shift))
        | Int32 l \<Rightarrow> Inr (Int32 (wrapping_shl l shift))
        | Int64 l \<Rightarrow> Inr (Int64 (wrapping_shl l shift))
        | Uint8 l \<Rightarrow> Inr (Uint8 (wrapping_shl l shift))
        | Uint16 l \<Rightarrow> Inr (Uint16 (wrapping_shl l shift))
        | Uint32 l \<Rightarrow> Inr (Uint32 (wrapping_shl l shift))
        | Uint64 l \<Rightarrow> Inr (Uint64 (wrapping_shl l shift))
        | l \<Rightarrow> Inl (TypeMismatch ''integer type for shift'' (FoundValue l))))"

definition shr_values :: "VmValue \<Rightarrow> VmValue \<Rightarrow> VmError + VmValue" where
  "shr_values lhs rhs =
    (case to_shift_amount rhs of
       Inl e \<Rightarrow> Inl e
     | Inr shift \<Rightarrow>
       (case lhs of
          Int8 l \<Rightarrow> Inr (Int8 (wrapping_shr_signed l shift))
        | Int16 l \<Rightarrow> Inr (Int16 (wrapping_shr_signed l shift))
        | Int32 l \<Rightarrow> Inr (Int32 (wrapping_shr_signed l shift))
        | Int64 l \<Rightarrow> Inr (Int64 (wrapping_shr_signed l shift))
        | Uint8 l \<Rightarrow> Inr (Uint8 (wrapping_shr_unsigned l shift))
        | Uint16 l \<Rightarrow> Inr (Uint16 (wrapping_shr_unsigned l shift))
        | Uint32 l \<Rightarrow> Inr (Uint32 (wrapping_shr_unsigned l shift))
        | Uint64 l \<Rightarrow> Inr (Uint64 (wrapping_shr_unsigned l shift))
        | l \<Rightarrow> Inl (TypeMismatch ''integer type for shift'' (FoundValue l))))"

definition and_values :: "VmValue \<Rightarrow> VmValue \<Rightarrow> VmError + VmValue" where
  "and_values lhs rhs =
    (case (lhs, rhs) of
       (Bool l, Bool r) \<Rightarrow> Inr (Bool (l \<and> r))
     | (Int8 l, Int8 r) \<Rightarrow> Inr (Int8 (l AND r))
     | (Int16 l, Int16 r) \<Rightarrow> Inr (Int16 (l AND r))
     | (Int32 l, Int32 r) \<Rightarrow> Inr (Int32 (l AND r))
     | (Int64 l, Int64 r) \<Rightarrow> Inr (Int64 (l AND r))
     | (Uint8 l, Uint8 r) \<Rightarrow> Inr (Uint8 (l AND r))
     | (Uint16 l, Uint16 r) \<Rightarrow> Inr (Uint16 (l AND r))
     | (Uint32 l, Uint32 r) \<Rightarrow> Inr (Uint32 (l AND r))
     | (Uint64 l, Uint64 r) \<Rightarrow> Inr (Uint64 (l AND r))
     | (l, r) \<Rightarrow> Inl (TypeMismatch ''matching integer or boolean types'' (FoundValues l r)))"

definition or_values :: "VmValue \<Rightarrow> VmValue \<Rightarrow> VmError + VmValue" where
  "or_values lhs rhs =
    (case (lhs, rhs) of
       (Bool l, Bool r) \<Rightarrow> Inr (Bool (l \<or> r))
     | (Int8 l, Int8 r) \<Rightarrow> Inr (Int8 (l OR r))
     | (Int16 l, Int16 r) \<Rightarrow> Inr (Int16 (l OR r))
     | (Int32 l, Int32 r) \<Rightarrow> Inr (Int32 (l OR r))
     | (Int64 l, Int64 r) \<Rightarrow> Inr (Int64 (l OR r))
     | (Uint8 l, Uint8 r) \<Rightarrow> Inr (Uint8 (l OR r))
     | (Uint16 l, Uint16 r) \<Rightarrow> Inr (Uint16 (l OR r))
     | (Uint32 l, Uint32 r) \<Rightarrow> Inr (Uint32 (l OR r))
     | (Uint64 l, Uint64 r) \<Rightarrow> Inr (Uint64 (l OR r))
     | (l, r) \<Rightarrow> Inl (TypeMismatch ''matching integer or boolean types'' (FoundValues l r)))"

definition xor_values :: "VmValue \<Rightarrow> VmValue \<Rightarrow> VmError + VmValue" where
  "xor_values lhs rhs =
    (case (lhs, rhs) of
       (Bool l, Bool r) \<Rightarrow> Inr (Bool (l \<noteq> r))
     | (Int8 l, Int8 r) \<Rightarrow> Inr (Int8 (l XOR r))
     | (Int16 l, Int16 r) \<Rightarrow> Inr (Int16 (l XOR r))
     | (Int32 l, Int32 r) \<Rightarrow> Inr (Int32 (l XOR r))
     | (Int64 l, Int64 r) \<Rightarrow> Inr (Int64 (l XOR r))
     | (Uint8 l, Uint8 r) \<Rightarrow> Inr (Uint8 (l XOR r))
     | (Uint16 l, Uint16 r) \<Rightarrow> Inr (Uint16 (l XOR r))
     | (Uint32 l, Uint32 r) \<Rightarrow> Inr (Uint32 (l XOR r))
     | (Uint64 l, Uint64 r) \<Rightarrow> Inr (Uint64 (l XOR r))
     | (l, r) \<Rightarrow> Inl (TypeMismatch ''matching integer or boolean types'' (FoundValues l r)))"

definition compare_values :: "VmValue \<Rightarrow> VmValue \<Rightarrow> VmError + Ordering option" where
  "compare_values lhs rhs =
    (case (lhs, rhs) of
       (Bool l, Bool r) \<Rightarrow> Inr (Some (cmp (of_bool l :: nat) (of_bool r)))
     | (Int8 l, Int8 r) \<Rightarrow> Inr (Some (cmp (sint l) (sint r)))
     | (Int16 l, Int16 r) \<Rightarrow> Inr (Some (cmp (sint l) (sint r)))
     | (Int32 l, Int32 r) \<Rightarrow> Inr (Some (cmp (sint l) (sint r)))
     | (Int64 l, Int64 r) \<Rightarrow> Inr (Some (cmp (sint l) (sint r)))
     | (Uint8 l, Uint8 r) \<Rightarrow> Inr (Some (cmp l r))
     | (Uint16 l, Uint16 r) \<Rightarrow> Inr (Some (cmp l r))
     | (Uint32 l, Uint32 r) \<Rightarrow> Inr (Some (cmp l r))
     | (Uint64 l, Uint64 r) \<Rightarrow> Inr (Some (cmp l r))
     | (Float32 l, Float32 r) \<Rightarrow> Inr (partial_cmp_f32 l r)
     | (Float64 l, Float64 r) \<Rightarrow> Inr (partial_cmp_f64 l r)
     | (l, r) \<Rightarrow> Inl (TypeMismatch ''matching comparable types'' (FoundValues l r)))"

fun to_raw_array_index :: "VmValue \<Rightarrow> VmError + int" where
  "to_raw_array_index (Int8 x) = Inr (sint x)"
| "to_raw_array_index (Int16 x) = Inr (sint x)"
| "to_raw_array_index (Int32 x) = Inr (sint x)"
| "to_raw_array_index (Int64 x) = Inr (sint x)"
| "to_raw_array_index (Uint8 x) = Inr (uint x)"
| "to_raw_array_index (Uint16 x) = Inr (uint x)"
| "to_raw_array_index (Uint32 x) = Inr (uint x)"
| "to_raw_array_index (Uint64 x) = Inr (uint x)"
| "to_raw_array_index x = Inl (TypeMismatch ''integer array index'' (FoundValue x))"

text \<open>The \<open>i128\<close> sum of a length and an index of at most 64 bits cannot overflow.\<close>

definition resolve_raw_array_index :: "int \<Rightarrow> nat \<Rightarrow> nat option" where
  "resolve_raw_array_index raw_index len =
    (let resolved = (if raw_index < 0 then int len + raw_index else raw_index) in
     if resolved < 0 \<or> resolved \<ge> int len then None else Some (nat resolved))"


section \<open>Immediate operands\<close>

text \<open>The macro \<open>integer!\<close> at a signed type; \<open>variant\<close> is the constructor of the result.\<close>

fun immediate_signed :: "ImmediateBinaryOp \<Rightarrow> ('a::len word \<Rightarrow> VmValue) \<Rightarrow> 'a word \<Rightarrow> 'a word \<Rightarrow> (VmError, VmValue) outcome" where
  "immediate_signed ImmAdd variant l r = Ok (variant (l + r))"
| "immediate_signed ImmSubtract variant l r = Ok (variant (l - r))"
| "immediate_signed ImmMultiply variant l r = Ok (variant (l * r))"
| "immediate_signed ImmDivide variant l r = map_ok variant (signed_div l r)"
| "immediate_signed ImmRemainder variant l r = map_ok variant (signed_rem l r)"
| "immediate_signed ImmEqual variant l r = Ok (Bool (l = r))"
| "immediate_signed ImmNotEqual variant l r = Ok (Bool (l \<noteq> r))"
| "immediate_signed ImmLess variant l r = Ok (Bool (sint l < sint r))"
| "immediate_signed ImmLessEqual variant l r = Ok (Bool (sint l \<le> sint r))"
| "immediate_signed ImmGreater variant l r = Ok (Bool (sint l > sint r))"
| "immediate_signed ImmGreaterEqual variant l r = Ok (Bool (sint l \<ge> sint r))"
| "immediate_signed ImmShiftLeft variant l r = Ok (variant (wrapping_shl l (ucast r)))"
| "immediate_signed ImmShiftRight variant l r = Ok (variant (wrapping_shr_signed l (ucast r)))"
| "immediate_signed ImmBitwiseAnd variant l r = Ok (variant (l AND r))"
| "immediate_signed ImmBitwiseOr variant l r = Ok (variant (l OR r))"
| "immediate_signed ImmBitwiseXor variant l r = Ok (variant (l XOR r))"

text \<open>The same macro at an unsigned type.\<close>

fun immediate_unsigned :: "ImmediateBinaryOp \<Rightarrow> ('a::len word \<Rightarrow> VmValue) \<Rightarrow> 'a word \<Rightarrow> 'a word \<Rightarrow> (VmError, VmValue) outcome" where
  "immediate_unsigned ImmDivide variant l r = map_ok variant (unsigned_div l r)"
| "immediate_unsigned ImmRemainder variant l r = map_ok variant (unsigned_rem l r)"
| "immediate_unsigned ImmLess variant l r = Ok (Bool (l < r))"
| "immediate_unsigned ImmLessEqual variant l r = Ok (Bool (l \<le> r))"
| "immediate_unsigned ImmGreater variant l r = Ok (Bool (l > r))"
| "immediate_unsigned ImmGreaterEqual variant l r = Ok (Bool (l \<ge> r))"
| "immediate_unsigned ImmShiftRight variant l r = Ok (variant (wrapping_shr_unsigned l (ucast r)))"
| "immediate_unsigned operation variant l r = immediate_signed operation variant l r"

definition float_bitwise_error :: VmError where
  "float_bitwise_error = TypeMismatch ''numeric operation'' (FoundText ''float bitwise operation'')"

text \<open>The macro \<open>float!\<close> at its two instances.\<close>

fun immediate_f32 :: "ImmediateBinaryOp \<Rightarrow> f32 \<Rightarrow> f32 \<Rightarrow> (VmError, VmValue) outcome" where
  "immediate_f32 ImmAdd l r = Ok (Float32 (normalize_f32 (f32_add l r)))"
| "immediate_f32 ImmSubtract l r = Ok (Float32 (normalize_f32 (f32_sub l r)))"
| "immediate_f32 ImmMultiply l r = Ok (Float32 (normalize_f32 (f32_mul l r)))"
| "immediate_f32 ImmDivide l r = Ok (Float32 (normalize_f32 (f32_div l r)))"
| "immediate_f32 ImmRemainder l r = Ok (Float32 (normalize_f32 (f32_rem l r)))"
| "immediate_f32 ImmEqual l r = Ok (Bool (f32_eq l r))"
| "immediate_f32 ImmNotEqual l r = Ok (Bool (\<not> f32_eq l r))"
| "immediate_f32 ImmLess l r = Ok (Bool (f32_lt l r))"
| "immediate_f32 ImmLessEqual l r = Ok (Bool (f32_le l r))"
| "immediate_f32 ImmGreater l r = Ok (Bool (f32_lt r l))"
| "immediate_f32 ImmGreaterEqual l r = Ok (Bool (f32_le r l))"
| "immediate_f32 _ l r = Err float_bitwise_error"

fun immediate_f64 :: "ImmediateBinaryOp \<Rightarrow> f64 \<Rightarrow> f64 \<Rightarrow> (VmError, VmValue) outcome" where
  "immediate_f64 ImmAdd l r = Ok (Float64 (normalize_f64 (f64_add l r)))"
| "immediate_f64 ImmSubtract l r = Ok (Float64 (normalize_f64 (f64_sub l r)))"
| "immediate_f64 ImmMultiply l r = Ok (Float64 (normalize_f64 (f64_mul l r)))"
| "immediate_f64 ImmDivide l r = Ok (Float64 (normalize_f64 (f64_div l r)))"
| "immediate_f64 ImmRemainder l r = Ok (Float64 (normalize_f64 (f64_rem l r)))"
| "immediate_f64 ImmEqual l r = Ok (Bool (f64_eq l r))"
| "immediate_f64 ImmNotEqual l r = Ok (Bool (\<not> f64_eq l r))"
| "immediate_f64 ImmLess l r = Ok (Bool (f64_lt l r))"
| "immediate_f64 ImmLessEqual l r = Ok (Bool (f64_le l r))"
| "immediate_f64 ImmGreater l r = Ok (Bool (f64_lt r l))"
| "immediate_f64 ImmGreaterEqual l r = Ok (Bool (f64_le r l))"
| "immediate_f64 _ l r = Err float_bitwise_error"

definition immediate_binary_value :: "VmValue \<Rightarrow> ImmediateValue \<Rightarrow> ImmediateBinaryOp \<Rightarrow> (VmError, VmValue) outcome" where
  "immediate_binary_value lhs rhs operation =
    (case (lhs, rhs) of
       (Int32 left, I32 right) \<Rightarrow> immediate_signed operation Int32 left right
     | (Int64 left, I64 right) \<Rightarrow> immediate_signed operation Int64 left right
     | (Uint32 left, U32 right) \<Rightarrow> immediate_unsigned operation Uint32 left right
     | (Uint64 left, U64 right) \<Rightarrow> immediate_unsigned operation Uint64 left right
     | (Float32 left, F32 right) \<Rightarrow> immediate_f32 operation left right
     | (Float64 left, F64 right) \<Rightarrow> immediate_f64 operation left right
     | (left, right) \<Rightarrow> Err (TypeMismatch ''matching immediate type'' (FoundImmediate left right)))"

section \<open>Numeric casts\<close>

text \<open>
  The table of \<^verbatim>\<open>galfus-vm/src/runtime/casts.rs\<close>.  Rust's \<open>as\<close> from an integer truncates modulo the
  target width (a signed source is sign-extended), to a float it rounds, and from a float to an
  integer it truncates towards zero and saturates, with NaN going to 0.
\<close>

fun cast_from_int :: "int \<Rightarrow> BytecodeType \<Rightarrow> VmValue option" where
  "cast_from_int x TyInt8 = Some (Int8 (word_of_int x))"
| "cast_from_int x TyInt16 = Some (Int16 (word_of_int x))"
| "cast_from_int x TyInt32 = Some (Int32 (word_of_int x))"
| "cast_from_int x TyInt64 = Some (Int64 (word_of_int x))"
| "cast_from_int x TyUint8 = Some (Uint8 (word_of_int x))"
| "cast_from_int x TyUint16 = Some (Uint16 (word_of_int x))"
| "cast_from_int x TyUint32 = Some (Uint32 (word_of_int x))"
| "cast_from_int x TyUint64 = Some (Uint64 (word_of_int x))"
| "cast_from_int x TyFloat32 = Some (Float32 (normalize_f32 (f32_of_int x)))"
| "cast_from_int x TyFloat64 = Some (Float64 (normalize_f64 (f64_of_int x)))"
| "cast_from_int x _ = None"

definition saturate_signed :: "fp_class \<Rightarrow> 'a::len word" where
  "saturate_signed x = word_of_int (fp_to_int (- (2 ^ (LENGTH('a) - 1))) (2 ^ (LENGTH('a) - 1) - 1) x)"

definition saturate_unsigned :: "fp_class \<Rightarrow> 'a::len word" where
  "saturate_unsigned x = word_of_int (fp_to_int 0 (2 ^ LENGTH('a) - 1) x)"

fun cast_from_float :: "fp_class \<Rightarrow> BytecodeType \<Rightarrow> VmValue option" where
  "cast_from_float x TyInt8 = Some (Int8 (saturate_signed x))"
| "cast_from_float x TyInt16 = Some (Int16 (saturate_signed x))"
| "cast_from_float x TyInt32 = Some (Int32 (saturate_signed x))"
| "cast_from_float x TyInt64 = Some (Int64 (saturate_signed x))"
| "cast_from_float x TyUint8 = Some (Uint8 (saturate_unsigned x))"
| "cast_from_float x TyUint16 = Some (Uint16 (saturate_unsigned x))"
| "cast_from_float x TyUint32 = Some (Uint32 (saturate_unsigned x))"
| "cast_from_float x TyUint64 = Some (Uint64 (saturate_unsigned x))"
| "cast_from_float x _ = None"

definition cast_from_f32 :: "f32 \<Rightarrow> BytecodeType \<Rightarrow> VmValue option" where
  "cast_from_f32 x ty =
    (case ty of
       TyFloat32 \<Rightarrow> Some (Float32 (normalize_f32 x))
     | TyFloat64 \<Rightarrow> Some (Float64 (normalize_f64 (f64_of_f32 x)))
     | _ \<Rightarrow> cast_from_float (f32_class x) ty)"

definition cast_from_f64 :: "f64 \<Rightarrow> BytecodeType \<Rightarrow> VmValue option" where
  "cast_from_f64 x ty =
    (case ty of
       TyFloat32 \<Rightarrow> Some (Float32 (normalize_f32 (f32_of_f64 x)))
     | TyFloat64 \<Rightarrow> Some (Float64 (normalize_f64 x))
     | _ \<Rightarrow> cast_from_float (f64_class x) ty)"

fun cast_number :: "VmValue \<Rightarrow> BytecodeType \<Rightarrow> VmValue option" where
  "cast_number (Int8 x) ty = cast_from_int (sint x) ty"
| "cast_number (Int16 x) ty = cast_from_int (sint x) ty"
| "cast_number (Int32 x) ty = cast_from_int (sint x) ty"
| "cast_number (Int64 x) ty = cast_from_int (sint x) ty"
| "cast_number (Uint8 x) ty = cast_from_int (uint x) ty"
| "cast_number (Uint16 x) ty = cast_from_int (uint x) ty"
| "cast_number (Uint32 x) ty = cast_from_int (uint x) ty"
| "cast_number (Uint64 x) ty = cast_from_int (uint x) ty"
| "cast_number (Float32 x) ty = cast_from_f32 x ty"
| "cast_number (Float64 x) ty = cast_from_f64 x ty"
| "cast_number _ ty = None"

end
