(* ===== verification/Vm_Cast_Props.thy ===== *)
theory Vm_Cast_Props
  imports Vm_Operators
begin

text \<open>
  Numeric casts: the type a value has, the integers of each type, exactness of casts between integer
  types, saturation of casts from floats.
\<close>

fun value_type :: "VmValue \<Rightarrow> BytecodeType option" where
  "value_type (Int8 _) = Some TyInt8" | "value_type (Int16 _) = Some TyInt16"
| "value_type (Int32 _) = Some TyInt32" | "value_type (Int64 _) = Some TyInt64"
| "value_type (Uint8 _) = Some TyUint8" | "value_type (Uint16 _) = Some TyUint16"
| "value_type (Uint32 _) = Some TyUint32" | "value_type (Uint64 _) = Some TyUint64"
| "value_type _ = None"

fun int_value :: "VmValue \<Rightarrow> int" where
  "int_value (Int8 x) = sint x" | "int_value (Int16 x) = sint x"
| "int_value (Int32 x) = sint x" | "int_value (Int64 x) = sint x"
| "int_value (Uint8 x) = uint x" | "int_value (Uint16 x) = uint x"
| "int_value (Uint32 x) = uint x" | "int_value (Uint64 x) = uint x"
| "int_value _ = 0"

text \<open>The least and greatest number and the width of an integer type.\<close>

fun int_bounds :: "BytecodeType \<Rightarrow> (int \<times> int \<times> nat) option" where
  "int_bounds TyInt8 = Some (- (2 ^ 7), 2 ^ 7 - 1, 8)" | "int_bounds TyInt16 = Some (- (2 ^ 15), 2 ^ 15 - 1, 16)"
| "int_bounds TyInt32 = Some (- (2 ^ 31), 2 ^ 31 - 1, 32)" | "int_bounds TyInt64 = Some (- (2 ^ 63), 2 ^ 63 - 1, 64)"
| "int_bounds TyUint8 = Some (0, 2 ^ 8 - 1, 8)" | "int_bounds TyUint16 = Some (0, 2 ^ 16 - 1, 16)"
| "int_bounds TyUint32 = Some (0, 2 ^ 32 - 1, 32)" | "int_bounds TyUint64 = Some (0, 2 ^ 64 - 1, 64)"
| "int_bounds _ = None"

lemma sint_word_of_int_eq:
  assumes "- (2 ^ (LENGTH('a) - 1)) \<le> x" and "x < 2 ^ (LENGTH('a) - 1)"
  shows "sint (word_of_int x :: 'a::len word) = x"
  using assms by (simp add: signed_of_int signed_take_bit_int_eq_self)

lemma uint_word_of_int_eq:
  assumes "0 \<le> x" and "x < 2 ^ LENGTH('a)"
  shows "uint (word_of_int x :: 'a::len word) = x"
  using assms by (simp add: unsigned_of_int take_bit_int_eq_self)

lemma cast_from_int_exact:
  assumes "int_bounds ty = Some (lo, hi, n)" and "lo \<le> x" and "x \<le> hi"
  shows "\<exists>w. cast_from_int x ty = Some w \<and> value_type w = Some ty \<and> int_value w = x"
  using assms by (cases ty) (auto simp: sint_word_of_int_eq uint_word_of_int_eq)

lemma value_of_int_value:
  assumes "value_type v = Some ty"
  shows "cast_from_int (int_value v) ty = Some v"
  using assms by (cases v) auto

lemma cast_number_int: "value_type v = Some ty \<Longrightarrow> cast_number v ty' = cast_from_int (int_value v) ty'"
  by (cases v) simp_all

text \<open>
  C33 (integer casts keep the number when it fits).  A cast between two of the eight integer types of
  a value that the target type can represent gives that number at the target type, and casting
  back gives the original value; in particular widening followed by narrowing is the identity.
\<close>

theorem integer_cast_roundtrip:
  assumes "value_type v = Some ty" and "int_bounds ty' = Some (lo, hi, n)" and "lo \<le> int_value v" and "int_value v \<le> hi"
  shows "\<exists>w. cast_number v ty' = Some w \<and> value_type w = Some ty' \<and> int_value w = int_value v \<and> cast_number w ty = Some v"
proof -
  obtain w where w: "cast_from_int (int_value v) ty' = Some w" "value_type w = Some ty'" "int_value w = int_value v"
    using cast_from_int_exact [OF assms(2-4)] by blast
  then show ?thesis
    using cast_number_int assms(1) value_of_int_value by metis
qed

theorem integer_cast_roundtrip_witness:
  "\<exists>w. cast_number (Int16 (- 5)) TyInt64 = Some w \<and> int_value w = - 5 \<and> cast_number w TyInt16 = Some (Int16 (- 5))"
  using integer_cast_roundtrip [of "Int16 (- 5)" TyInt16 TyInt64 "- (2 ^ 63)" "2 ^ 63 - 1" 64] by auto

lemma fp_to_int_bounds: "lo \<le> 0 \<Longrightarrow> 0 \<le> hi \<Longrightarrow> lo \<le> fp_to_int lo hi x \<and> fp_to_int lo hi x \<le> hi"
  by (cases x) auto

lemma saturate_value:
  "sint (saturate_signed x :: 'a::len word) = fp_to_int (- (2 ^ (LENGTH('a) - 1))) (2 ^ (LENGTH('a) - 1) - 1) x"
  "uint (saturate_unsigned x :: 'a::len word) = fp_to_int 0 (2 ^ LENGTH('a) - 1) x"
proof -
  have "0 \<le> (2::int) ^ (LENGTH('a) - 1) - 1" and "0 \<le> (2::int) ^ LENGTH('a) - 1" by simp_all
  with fp_to_int_bounds [of "- (2 ^ (LENGTH('a) - 1))" "2 ^ (LENGTH('a) - 1) - 1" x]
    fp_to_int_bounds [of 0 "2 ^ LENGTH('a) - 1" x]
  show "sint (saturate_signed x :: 'a word) = fp_to_int (- (2 ^ (LENGTH('a) - 1))) (2 ^ (LENGTH('a) - 1) - 1) x"
    and "uint (saturate_unsigned x :: 'a word) = fp_to_int 0 (2 ^ LENGTH('a) - 1) x"
    by (simp_all add: saturate_signed_def saturate_unsigned_def sint_word_of_int_eq uint_word_of_int_eq)
qed

text \<open>
  Float to integer casts saturate.  Casting a float to an integer type never fails and never
  wraps: the result is the float truncated towards zero and clamped to the bounds of the type, the
  bounds themselves for the infinities and 0 for NaN.
\<close>

lemma float_cast_saturates:
  assumes "int_bounds ty = Some (lo, hi, n)"
  shows "\<exists>w w'. cast_number (Float32 a) ty = Some w \<and> value_type w = Some ty \<and> int_value w = fp_to_int lo hi (f32_class a) \<and>
                cast_number (Float64 b) ty = Some w' \<and> value_type w' = Some ty \<and> int_value w' = fp_to_int lo hi (f64_class b)"
  using assms by (cases ty) (auto simp: cast_from_f32_def cast_from_f64_def saturate_value)

end
