(* ===== verification/Bytecode.thy ===== *)
theory Bytecode
  imports Vm_Value
begin

text \<open>
  The instruction set and the containers of compiled modules: \<^verbatim>\<open>galfus-bytecode/src/instruction.rs\<close> and
  \<^verbatim>\<open>galfus-bytecode/src/lib.rs\<close>.

  The seventeen three-register operators share the constructor \<open>Binary\<close>, the three unary ones \<open>Unary\<close>,
  and the forty-four typed variants (\<open>AddI32\<close> to \<open>GeF64\<close>) the constructor \<open>Typed\<close> with their type and
  operation.  Calls, object instructions and system instructions are grouped by the handler of the
  virtual machine that executes them.  A Rust \<open>String\<close> is a list of scalar values (\<^typ>\<open>utext\<close>); a signed
  jump offset is the word of its width.
\<close>

section \<open>Instructions\<close>

datatype BinaryOp =
    Add | Sub | Mul | Div | Rem | Pow | Shl | Shr | And | Or | Xor | Eq | Ne | Lt | Le | Gt | Ge

datatype UnaryOp = Neg | Not | BitNot

datatype TypedKind = KindI32 | KindI64 | KindF32 | KindF64

datatype TypedOp = AddT | SubT | MulT | DivT | RemT | EqT | NeT | LtT | LeT | GtT | GeT

datatype ControlInstruction =
    Call Reg FuncIdx Reg u8                                          \<comment> \<open>dest, func, args_start, arg_count\<close>
  | TailCall FuncIdx Reg u8
  | CallMethod Reg Reg ConstIdx Reg u8 "TypeIdx list" "TypeIdx option"  \<comment> \<open>dest, obj, name_const, args_start, arg_count, arg_types, return_type\<close>
  | CallDynamic Reg Reg Reg u8                                       \<comment> \<open>dest, func_reg, args_start, arg_count\<close>
  | Ret Reg
  | RetNull
  | PanicWith ConstIdx                                               \<comment> \<open>\<open>Instruction::Panic\<close>\<close>

datatype ObjectInstruction =
    AllocLocal Reg TypeIdx
  | LoadField Reg Reg FieldIdx
  | StoreField Reg FieldIdx Reg
  | NewArray Reg TypeIdx Reg
  | LoadIndex Reg Reg Reg
  | StoreIndex Reg Reg Reg
  | NewTuple Reg TypeIdx Reg u8
  | NewChoice Reg TypeIdx u16 Reg
  | Cast Reg Reg TypeIdx
  | Copy Reg Reg
  | Instanceof Reg Reg TypeIdx

datatype SystemInstruction =
    Drop Reg
  | AwaitFuture Reg Reg TypeIdx
  | CreateFuture Reg FuncIdx Reg u8 "TypeIdx list" TypeIdx
  | CreateAwaitFuture Reg utext Reg u8 "TypeIdx list" TypeIdx
  | CallInternalThread Reg utext Reg u8 "TypeIdx list" TypeIdx
  | CreateIndirectFuture Reg Reg Reg u8 "TypeIdx list" TypeIdx
  | AwaitAll Reg Reg u8 TypeIdx
  | AwaitRace Reg Reg u8 TypeIdx
  | Len Reg Reg
  | CopyArray Reg Reg Reg
  | CallInternalMath Reg u8 Reg u8

datatype Instruction =
    LoadConst Reg ConstIdx
  | Move Reg Reg
  | LoadGlobal Reg ModuleId GlobalIdx
  | StoreGlobal ModuleId GlobalIdx Reg
  | LoadNull Reg
  | Binary BinaryOp Reg Reg Reg
  | Unary UnaryOp Reg Reg
  | Typed TypedKind TypedOp Reg Reg Reg
  | BinaryImmediate Reg Reg ImmediateBinaryOp ImmediateValue
  | Fallback Reg Reg Reg
  | Jump u32
  | JumpTrue Reg u32
  | JumpFalse Reg u32
  | JumpNull Reg u32
  | Control ControlInstruction
  | Objects ObjectInstruction
  | System SystemInstruction

section \<open>Modules\<close>

datatype OwnershipKind = Strong | Weak | ValueOwnership

record FieldLayout =
  fl_name :: utext
  fl_ty :: TypeIdx
  fl_offset :: usize
  fl_ownership :: OwnershipKind

record StructLayout =
  sl_name :: utext
  sl_fields :: "FieldLayout list"
  sl_constraints :: "string list"

record ChoiceVariantLayout =
  cv_name :: utext
  cv_payload_ty :: "TypeIdx option"

record ChoiceLayout =
  cl_name :: utext
  cl_variants :: "ChoiceVariantLayout list"

datatype ImportKind = ImportFunction | ImportGlobal

record ImportSlot =
  im_module_name :: utext
  im_symbol_name :: utext
  im_ty :: TypeIdx
  im_kind :: ImportKind

datatype ExportKind = ExportFunction FuncIdx | ExportGlobal GlobalIdx

record ExportSlot =
  ex_symbol_name :: utext
  ex_kind :: ExportKind

record AdapterProxyMetadata =
  ap_proxy_module :: utext
  ap_symbol :: utext

record BytecodeFunction =
  bf_name :: utext
  bf_param_count :: u8
  bf_local_count :: u16
  bf_temp_count :: u16
  bf_return_ty :: TypeIdx
  bf_adapter_proxy_metadata :: "AdapterProxyMetadata option"
  bf_instructions :: "Instruction list"

record BytecodeModule =
  bm_name :: utext
  bm_global_count :: u32
  bm_constants :: "Constant list"
  bm_functions :: "BytecodeFunction list"
  bm_types :: "BytecodeType list"
  bm_struct_layouts :: "StructLayout list"
  bm_choice_layouts :: "ChoiceLayout list"
  bm_imports :: "ImportSlot list"
  bm_exports :: "ExportSlot list"
  bm_init_func_idx :: "FuncIdx option"

text \<open>The registers of a frame, as the virtual machine counts them.\<close>

definition frame_registers :: "BytecodeFunction \<Rightarrow> nat" where
  "frame_registers f = unat (bf_param_count f) + unat (bf_local_count f) + unat (bf_temp_count f)"

end
