(* ===== verification/Vm_Instruction.thy ===== *)
theory Vm_Instruction
  imports Vm_Operators Bytecode
begin

text \<open>
  What the operator instructions of the virtual machine compute.

  Three routes compute the same operators: the generic handler \<open>execute_operator_instruction\<close>, the typed fast path of
  \<open>execute_with_budget\<close>, and \<open>immediate_binary_value\<close>.  \<open>Vm_Operator_Props\<close> says where they agree.
\<close>

section \<open>The generic operators\<close>

fun is_lt :: "Ordering \<Rightarrow> bool" where "is_lt ord = (ord = Less)"
fun is_le :: "Ordering \<Rightarrow> bool" where "is_le ord = (ord \<noteq> Greater)"
fun is_gt :: "Ordering \<Rightarrow> bool" where "is_gt ord = (ord = Greater)"
fun is_ge :: "Ordering \<Rightarrow> bool" where "is_ge ord = (ord \<noteq> Less)"

definition is_some_and :: "'a option \<Rightarrow> ('a \<Rightarrow> bool) \<Rightarrow> bool" where
  "is_some_and x p = (case x of None \<Rightarrow> False | Some a \<Rightarrow> p a)"

definition compare_with :: "(Ordering \<Rightarrow> bool) \<Rightarrow> VmValue \<Rightarrow> VmValue \<Rightarrow> (VmError, VmValue) outcome" where
  "compare_with p l r = map_ok (\<lambda>c. Bool (is_some_and c p)) (of_result (compare_values l r))"

fun binary_values :: "FloatEnv \<Rightarrow> BinaryOp \<Rightarrow> VmValue \<Rightarrow> VmValue \<Rightarrow> (VmError, VmValue) outcome" where
  "binary_values fenv Add l r = of_result (add_values l r)"
| "binary_values fenv Sub l r = of_result (sub_values l r)"
| "binary_values fenv Mul l r = of_result (mul_values l r)"
| "binary_values fenv Div l r = div_values l r"
| "binary_values fenv Rem l r = rem_values l r"
| "binary_values fenv Pow l r = of_result (pow_values fenv l r)"
| "binary_values fenv Shl l r = of_result (shl_values l r)"
| "binary_values fenv Shr l r = of_result (shr_values l r)"
| "binary_values fenv And l r = of_result (and_values l r)"
| "binary_values fenv Or l r = of_result (or_values l r)"
| "binary_values fenv Xor l r = of_result (xor_values l r)"
| "binary_values fenv Eq l r = Ok (Bool (value_eq l r))"
| "binary_values fenv Ne l r = Ok (Bool (\<not> value_eq l r))"
| "binary_values fenv Lt l r = compare_with is_lt l r"
| "binary_values fenv Le l r = compare_with is_le l r"
| "binary_values fenv Gt l r = compare_with is_gt l r"
| "binary_values fenv Ge l r = compare_with is_ge l r"

fun unary_value :: "UnaryOp \<Rightarrow> VmValue \<Rightarrow> (VmError, VmValue) outcome" where
  "unary_value Neg x = of_result (neg_value x)"
| "unary_value Not x = of_result (not_value x)"
| "unary_value BitNot x = of_result (bitnot_value x)"

section \<open>The typed fast path\<close>

text \<open>
  A typed instruction on operands of another type is undefined behaviour (\<open>unreachable_unchecked\<close>),
  which is \<open>Panic\<close> here.
\<close>

fun typed_signed :: "TypedOp \<Rightarrow> ('a::len word \<Rightarrow> VmValue) \<Rightarrow> 'a word \<Rightarrow> 'a word \<Rightarrow> (VmError, VmValue) outcome" where
  "typed_signed AddT variant l r = Ok (variant (l + r))"
| "typed_signed SubT variant l r = Ok (variant (l - r))"
| "typed_signed MulT variant l r = Ok (variant (l * r))"
| "typed_signed DivT variant l r = (if r = 0 then Err DivisionByZero else Ok (variant (wrapping_div l r)))"
| "typed_signed RemT variant l r = (if r = 0 then Err DivisionByZero else Ok (variant (wrapping_rem l r)))"
| "typed_signed EqT variant l r = Ok (Bool (l = r))"
| "typed_signed NeT variant l r = Ok (Bool (l \<noteq> r))"
| "typed_signed LtT variant l r = Ok (Bool (sint l < sint r))"
| "typed_signed LeT variant l r = Ok (Bool (sint l \<le> sint r))"
| "typed_signed GtT variant l r = Ok (Bool (sint l > sint r))"
| "typed_signed GeT variant l r = Ok (Bool (sint l \<ge> sint r))"

fun typed_i32 :: "TypedOp \<Rightarrow> VmValue \<Rightarrow> VmValue \<Rightarrow> (VmError, VmValue) outcome" where
  "typed_i32 operation (Int32 l) (Int32 r) = typed_signed operation Int32 l r"
| "typed_i32 _ _ _ = Panic"

fun typed_i64 :: "TypedOp \<Rightarrow> VmValue \<Rightarrow> VmValue \<Rightarrow> (VmError, VmValue) outcome" where
  "typed_i64 operation (Int64 l) (Int64 r) = typed_signed operation Int64 l r"
| "typed_i64 _ _ _ = Panic"

fun typed_f32 :: "TypedOp \<Rightarrow> VmValue \<Rightarrow> VmValue \<Rightarrow> (VmError, VmValue) outcome" where
  "typed_f32 operation (Float32 l) (Float32 r) =
    (case operation of
       AddT \<Rightarrow> Ok (Float32 (normalize_f32 (f32_add l r)))
     | SubT \<Rightarrow> Ok (Float32 (normalize_f32 (f32_sub l r)))
     | MulT \<Rightarrow> Ok (Float32 (normalize_f32 (f32_mul l r)))
     | DivT \<Rightarrow> Ok (Float32 (normalize_f32 (f32_div l r)))
     | RemT \<Rightarrow> Ok (Float32 (normalize_f32 (f32_rem l r)))
     | EqT \<Rightarrow> Ok (Bool (f32_eq l r))
     | NeT \<Rightarrow> Ok (Bool (\<not> f32_eq l r))
     | LtT \<Rightarrow> Ok (Bool (f32_lt l r))
     | LeT \<Rightarrow> Ok (Bool (f32_le l r))
     | GtT \<Rightarrow> Ok (Bool (f32_lt r l))
     | GeT \<Rightarrow> Ok (Bool (f32_le r l)))"
| "typed_f32 _ _ _ = Panic"

fun typed_f64 :: "TypedOp \<Rightarrow> VmValue \<Rightarrow> VmValue \<Rightarrow> (VmError, VmValue) outcome" where
  "typed_f64 operation (Float64 l) (Float64 r) =
    (case operation of
       AddT \<Rightarrow> Ok (Float64 (normalize_f64 (f64_add l r)))
     | SubT \<Rightarrow> Ok (Float64 (normalize_f64 (f64_sub l r)))
     | MulT \<Rightarrow> Ok (Float64 (normalize_f64 (f64_mul l r)))
     | DivT \<Rightarrow> Ok (Float64 (normalize_f64 (f64_div l r)))
     | RemT \<Rightarrow> Ok (Float64 (normalize_f64 (f64_rem l r)))
     | EqT \<Rightarrow> Ok (Bool (f64_eq l r))
     | NeT \<Rightarrow> Ok (Bool (\<not> f64_eq l r))
     | LtT \<Rightarrow> Ok (Bool (f64_lt l r))
     | LeT \<Rightarrow> Ok (Bool (f64_le l r))
     | GtT \<Rightarrow> Ok (Bool (f64_lt r l))
     | GeT \<Rightarrow> Ok (Bool (f64_le r l)))"
| "typed_f64 _ _ _ = Panic"

fun typed_values :: "TypedKind \<Rightarrow> TypedOp \<Rightarrow> VmValue \<Rightarrow> VmValue \<Rightarrow> (VmError, VmValue) outcome" where
  "typed_values KindI32 operation l r = typed_i32 operation l r"
| "typed_values KindI64 operation l r = typed_i64 operation l r"
| "typed_values KindF32 operation l r = typed_f32 operation l r"
| "typed_values KindF64 operation l r = typed_f64 operation l r"

text \<open>The fast path of \<open>execute_with_budget\<close> also has its own copies of four generic operators.\<close>

definition hot_lt :: "VmValue \<Rightarrow> VmValue \<Rightarrow> (VmError, VmValue) outcome" where
  "hot_lt lhs rhs =
    (case (lhs, rhs) of
       (Int32 l, Int32 r) \<Rightarrow> Ok (Bool (sint l < sint r))
     | (Int64 l, Int64 r) \<Rightarrow> Ok (Bool (sint l < sint r))
     | (Uint32 l, Uint32 r) \<Rightarrow> Ok (Bool (l < r))
     | (Uint64 l, Uint64 r) \<Rightarrow> Ok (Bool (l < r))
     | _ \<Rightarrow> compare_with is_lt lhs rhs)"

definition hot_le :: "VmValue \<Rightarrow> VmValue \<Rightarrow> (VmError, VmValue) outcome" where
  "hot_le lhs rhs =
    (case (lhs, rhs) of
       (Int32 l, Int32 r) \<Rightarrow> Ok (Bool (sint l \<le> sint r))
     | (Int64 l, Int64 r) \<Rightarrow> Ok (Bool (sint l \<le> sint r))
     | _ \<Rightarrow> compare_with is_le lhs rhs)"

definition hot_add :: "VmValue \<Rightarrow> VmValue \<Rightarrow> VmError + VmValue" where
  "hot_add lhs rhs =
    (case (lhs, rhs) of
       (Int32 l, Int32 r) \<Rightarrow> Inr (Int32 (l + r))
     | (Int64 l, Int64 r) \<Rightarrow> Inr (Int64 (l + r))
     | (Int8 l, Int8 r) \<Rightarrow> Inr (Int8 (l + r))
     | (Int16 l, Int16 r) \<Rightarrow> Inr (Int16 (l + r))
     | (Uint8 l, Uint8 r) \<Rightarrow> Inr (Uint8 (l + r))
     | (Uint16 l, Uint16 r) \<Rightarrow> Inr (Uint16 (l + r))
     | (Uint32 l, Uint32 r) \<Rightarrow> Inr (Uint32 (l + r))
     | (Uint64 l, Uint64 r) \<Rightarrow> Inr (Uint64 (l + r))
     | (Float32 l, Float32 r) \<Rightarrow> Inr (Float32 (normalize_f32 (f32_add l r)))
     | (Float64 l, Float64 r) \<Rightarrow> Inr (Float64 (normalize_f64 (f64_add l r)))
     | (l, r) \<Rightarrow> Inl (TypeMismatch ''matching numeric types'' (FoundValues l r)))"

definition hot_sub :: "VmValue \<Rightarrow> VmValue \<Rightarrow> VmError + VmValue" where
  "hot_sub lhs rhs =
    (case (lhs, rhs) of
       (Int32 l, Int32 r) \<Rightarrow> Inr (Int32 (l - r))
     | (Int64 l, Int64 r) \<Rightarrow> Inr (Int64 (l - r))
     | (Int8 l, Int8 r) \<Rightarrow> Inr (Int8 (l - r))
     | (Int16 l, Int16 r) \<Rightarrow> Inr (Int16 (l - r))
     | (Uint8 l, Uint8 r) \<Rightarrow> Inr (Uint8 (l - r))
     | (Uint16 l, Uint16 r) \<Rightarrow> Inr (Uint16 (l - r))
     | (Uint32 l, Uint32 r) \<Rightarrow> Inr (Uint32 (l - r))
     | (Uint64 l, Uint64 r) \<Rightarrow> Inr (Uint64 (l - r))
     | (Float32 l, Float32 r) \<Rightarrow> Inr (Float32 (normalize_f32 (f32_sub l r)))
     | (Float64 l, Float64 r) \<Rightarrow> Inr (Float64 (normalize_f64 (f64_sub l r)))
     | (l, r) \<Rightarrow> Inl (TypeMismatch ''matching numeric types'' (FoundValues l r)))"

end
