(* ===== verification/Vm_Thread.thy ===== *)
theory Vm_Thread
  imports Vm_Collector Vm_Instruction
begin

text \<open>
  The state of a VM thread, \<^verbatim>\<open>galfus-vm/src/thread.rs\<close>: the call stack with its register windows, the
  private heap, module states, and the search for future handles.

  The Rust vectors \<open>call_stack\<close> and \<open>registers\<close> are lists in the same order (the top of the stack is
  the last element).  \<open>thread_quota\<close> is the same shared object as the quota of the heap, so it is read
  from there.  Register access is unchecked in the source; an access outside the vector, which is
  undefined there, is \<open>None\<close> here.
\<close>

section \<open>State\<close>

record CallFrame =
  fr_module_id :: ModuleId
  fr_func_idx :: FuncIdx
  fr_pc :: usize
  fr_register_base :: nat
  fr_return_dest :: "Reg option"
  fr_cached_instructions :: "Instruction list"
  fr_has_objects :: bool

record RuntimeModuleState =
  ms_globals :: "VmValue list"
  ms_initialized :: bool

record VmThreadState =
  th_call_stack :: "CallFrame list"
  th_registers :: "VmValue list"
  th_register_base :: nat
  th_register_top :: nat
  th_has_objects :: bool            \<comment> \<open>\<open>current_frame_has_objects\<close>\<close>
  th_system_response :: "VmValue option"
  th_heap :: PrivateHeap
  th_module_states :: "ModuleId \<rightharpoonup> RuntimeModuleState"
  th_entry_func :: "VmValue option"
  th_initializing_module :: "ModuleId option"
  th_is_spawned :: bool
  th_global_quota :: GlobalQuota

abbreviation thread_quota :: "VmThreadState \<Rightarrow> ThreadQuota" where
  "thread_quota t \<equiv> hp_quota (th_heap t)"

definition new_thread :: "GlobalQuota \<Rightarrow> ThreadQuota \<Rightarrow> VmThreadState" where
  "new_thread gq tq =
    \<lparr>th_call_stack = [], th_registers = [], th_register_base = 0, th_register_top = 0, th_has_objects = False,
     th_system_response = None, th_heap = new_heap tq, th_module_states = Map.empty, th_entry_func = None,
     th_initializing_module = None, th_is_spawned = False, th_global_quota = gq\<rparr>"

definition mark_spawned :: "VmThreadState \<Rightarrow> (ExecutionFailureKind + unit) \<times> VmThreadState" where
  "mark_spawned t =
    (case try_reserve_threads (th_global_quota t) 1 of
       (Inl e, gq) \<Rightarrow> (Inl e, t\<lparr>th_global_quota := gq\<rparr>)
     | (Inr _, gq) \<Rightarrow> (Inr (), t\<lparr>th_global_quota := gq, th_is_spawned := True\<rparr>))"

section \<open>Registers\<close>

definition read_reg :: "VmThreadState \<Rightarrow> Reg \<Rightarrow> VmValue option" where
  "read_reg t r = list_get (th_registers t) (th_register_base t + unat r)"

fun is_object :: "VmValue \<Rightarrow> bool" where
  "is_object (Object _) = True"
| "is_object _ = False"

fun release_anchor_val :: "HostEnv \<Rightarrow> VmValue \<Rightarrow> PrivateHeap \<Rightarrow> PrivateHeap" where
  "release_anchor_val env (Object r) h = snd (release_anchor env h r)"
| "release_anchor_val env _ h = h"

definition write_reg :: "HostEnv \<Rightarrow> VmThreadState \<Rightarrow> Reg \<Rightarrow> VmValue \<Rightarrow> VmThreadState option" where
  "write_reg env t r val =
    (let idx = th_register_base t + unat r in
     if idx < length (th_registers t) then
       Some (t\<lparr>th_has_objects := (th_has_objects t \<or> is_object val),
               th_registers := (th_registers t)[idx := val],
               th_heap := release_anchor_val env (th_registers t ! idx) (th_heap t)\<rparr>)
     else None)"

fun retain_anchor_val :: "VmValue \<Rightarrow> VmThreadState \<Rightarrow> VmThreadState" where
  "retain_anchor_val (Object r) t = t\<lparr>th_heap := snd (retain_anchor (th_heap t) r)\<rparr>"
| "retain_anchor_val _ t = t"

fun retain_edge_val :: "VmValue \<Rightarrow> VmThreadState \<Rightarrow> VmThreadState" where
  "retain_edge_val (Object r) t = t\<lparr>th_heap := snd (retain_edge (th_heap t) r)\<rparr>"
| "retain_edge_val _ t = t"

section \<open>Frames\<close>

definition resize_registers :: "VmValue list \<Rightarrow> nat \<Rightarrow> VmValue list" where
  "resize_registers rs new_top =
    (if new_top > length rs
     then rs @ replicate (max new_top (max (length rs) 64 * 2) - length rs) Null
     else rs)"

definition push_frame ::
  "VmThreadState \<Rightarrow> ModuleId \<Rightarrow> FuncIdx \<Rightarrow> usize \<Rightarrow> Reg option \<Rightarrow> nat \<Rightarrow> Instruction list \<Rightarrow> VmError + VmThreadState" where
  "push_frame t module_id func_idx pc return_dest register_count instructions =
    (let limit = max_call_depth (tq_limits (thread_quota t)) in
     if length (th_call_stack t) \<ge> unat limit
     then Inl (VmResourceLimitExceeded (ResourceLimitExceeded CallDepth (of_nat (length (th_call_stack t))) 1 limit))
     else
       let base = th_register_top t; new_top = base + register_count in
       Inr (t\<lparr>th_registers := resize_registers (th_registers t) new_top,
              th_register_base := base, th_register_top := new_top,
              th_call_stack := th_call_stack t @
                [\<lparr>fr_module_id = module_id, fr_func_idx = func_idx, fr_pc = pc, fr_register_base = base,
                  fr_return_dest = return_dest, fr_cached_instructions = instructions,
                  fr_has_objects = th_has_objects t\<rparr>],
              th_has_objects := False\<rparr>))"

text \<open>The register argument \<open>i\<close> is read from; \<open>Reg(args_start.raw() + i as u16)\<close> is 16-bit arithmetic.\<close>

definition arg_source :: "Reg \<Rightarrow> Reg option \<Rightarrow> nat \<Rightarrow> Reg" where
  "arg_source args_start has_obj i =
    (case has_obj of Some obj_reg \<Rightarrow> if i = 0 then obj_reg else args_start + of_nat i
     | None \<Rightarrow> args_start + of_nat i)"

text \<open>
  The copy loop.  It stops with the error of the first register that does not exist; the
  arguments before it are already copied and retained.
\<close>

fun copy_args :: "nat \<Rightarrow> nat \<Rightarrow> Reg \<Rightarrow> Reg option \<Rightarrow> nat list \<Rightarrow> VmThreadState \<Rightarrow> (VmError, unit) outcome \<times> VmThreadState" where
  "copy_args caller callee args_start has_obj [] t = (Ok (), t)"
| "copy_args caller callee args_start has_obj (i # is) t =
    (let src_reg = arg_source args_start has_obj i; src_idx = caller + unat src_reg in
     case list_get (th_registers t) src_idx of
       None \<Rightarrow> (Err (RegisterOutOfBounds src_reg), t)
     | Some val \<Rightarrow>
         (let t1 = retain_anchor_val val (t\<lparr>th_has_objects := (th_has_objects t \<or> is_object val)\<rparr>) in
          if callee + i < length (th_registers t1)
          then copy_args caller callee args_start has_obj is (t1\<lparr>th_registers := (th_registers t1)[callee + i := val]\<rparr>)
          else (Panic, t1)))"

fun clear_params :: "nat \<Rightarrow> nat list \<Rightarrow> VmThreadState \<Rightarrow> (VmError, unit) outcome \<times> VmThreadState" where
  "clear_params callee [] t = (Ok (), t)"
| "clear_params callee (i # is) t =
    (if callee + i < length (th_registers t)
     then clear_params callee is (t\<lparr>th_registers := (th_registers t)[callee + i := Null]\<rparr>)
     else (Panic, t))"

definition setup_args_from_caller ::
  "VmThreadState \<Rightarrow> Reg \<Rightarrow> nat \<Rightarrow> nat \<Rightarrow> Reg option \<Rightarrow> (VmError, unit) outcome \<times> VmThreadState" where
  "setup_args_from_caller t args_start arg_count callee_param_count has_obj =
    (let stack_len = length (th_call_stack t) in
     if stack_len < 2 then (Err EmptyCallStack, t)
     else
       let caller = fr_register_base (th_call_stack t ! (stack_len - 2));
           callee = fr_register_base (th_call_stack t ! (stack_len - 1)) in
       case copy_args caller callee args_start has_obj [0..<arg_count] t of
         (Ok _, t1) \<Rightarrow> clear_params callee [arg_count..<callee_param_count] t1
       | (res, t1) \<Rightarrow> (res, t1))"

text \<open>Emptying the window of a frame: every object reference in it gives its anchor back.\<close>

fun clear_window :: "HostEnv \<Rightarrow> nat list \<Rightarrow> VmThreadState \<Rightarrow> VmThreadState option" where
  "clear_window env [] t = Some t"
| "clear_window env (i # is) t =
    (if i < length (th_registers t)
     then clear_window env is (t\<lparr>th_registers := (th_registers t)[i := Null],
                                th_heap := release_anchor_val env (th_registers t ! i) (th_heap t)\<rparr>)
     else None)"

definition pop_frame :: "HostEnv \<Rightarrow> VmThreadState \<Rightarrow> (CallFrame option \<times> VmThreadState) option" where
  "pop_frame env t =
    (if th_call_stack t = [] then Some (None, t)
     else
       let frame = last (th_call_stack t); t1 = t\<lparr>th_call_stack := butlast (th_call_stack t)\<rparr> in
       case (if th_has_objects t1 then clear_window env [fr_register_base frame..<th_register_top t1] t1 else Some t1) of
         None \<Rightarrow> None
       | Some t2 \<Rightarrow>
           Some (Some frame,
             t2\<lparr>th_register_top := fr_register_base frame,
                th_register_base := (if th_call_stack t2 = [] then 0 else fr_register_base (last (th_call_stack t2))),
                th_has_objects := fr_has_objects frame\<rparr>))"

section \<open>Modules and handles\<close>

definition is_module_initialized :: "VmThreadState \<Rightarrow> ModuleId \<Rightarrow> bool" where
  "is_module_initialized t m = (case th_module_states t m of None \<Rightarrow> False | Some s \<Rightarrow> ms_initialized s)"

definition module_state_or_default :: "VmThreadState \<Rightarrow> ModuleId \<Rightarrow> RuntimeModuleState" where
  "module_state_or_default t m =
     (case th_module_states t m of None \<Rightarrow> \<lparr>ms_globals = [], ms_initialized = False\<rparr> | Some s \<Rightarrow> s)"

definition mark_module_initialized :: "VmThreadState \<Rightarrow> ModuleId \<Rightarrow> VmThreadState" where
  "mark_module_initialized t m =
     t\<lparr>th_module_states := (th_module_states t)(m \<mapsto> (module_state_or_default t m)\<lparr>ms_initialized := True\<rparr>)\<rparr>"

definition begin_module_initialization :: "VmThreadState \<Rightarrow> ModuleId \<Rightarrow> VmThreadState" where
  "begin_module_initialization t m = t\<lparr>th_initializing_module := Some m\<rparr>"

definition finish_module_initialization :: "VmThreadState \<Rightarrow> ModuleId option \<times> VmThreadState" where
  "finish_module_initialization t = (th_initializing_module t, t\<lparr>th_initializing_module := None\<rparr>)"

definition extract_all_adapter_handles :: "HostEnv \<Rightarrow> VmThreadState \<Rightarrow> handle_drop list \<times> VmThreadState" where
  "extract_all_adapter_handles env t =
    (let taken = hp_pending_drops (th_heap t);
         (extracted, h) = extract_adapter_handles env ((th_heap t)\<lparr>hp_pending_drops := []\<rparr>) in
     (taken @ extracted, t\<lparr>th_heap := h\<rparr>))"

definition drop_thread :: "VmThreadState \<Rightarrow> VmThreadState" where
  "drop_thread t =
    (let t1 = (if th_is_spawned t then t\<lparr>th_global_quota := release_threads (th_global_quota t) 1\<rparr> else t) in
     t1\<lparr>th_heap := (th_heap t1)\<lparr>hp_quota := release_call_depth (thread_quota t1) (of_nat (length (th_call_stack t1)))\<rparr>\<rparr>)"

end
