(* ===== verification/Vm_Future_Search.thy ===== *)
theory Vm_Future_Search
  imports Vm_Thread
begin

text \<open>
  Finding future handles in the values of a thread (\<open>contains_future_handle\<close> and
  \<open>future_handles_in_value\<close> of \<^verbatim>\<open>galfus-vm/src/thread.rs\<close>).  The source walks the object graph depth first
  with a set of visited references that is shared by the whole walk; here the pending values are
  an explicit list, in the order of the recursion.  The theorems say that the walk ends on every
  heap, cycles included, and finds exactly the reachable handles.
\<close>

section \<open>The walk\<close>

fun object_values :: "HeapObject \<Rightarrow> VmValue list" where
  "object_values (StructObj _ _ fs _) = fs"
| "object_values (ArrayObj _ _ elements _) = elements"
| "object_values (TupleObj elements _) = elements"
| "object_values (ChoiceObj _ _ _ payload) = [payload]"
| "object_values (AdapterHandleObj _ _ _) = []"

definition values_at :: "PrivateHeap \<Rightarrow> VmObjectRef \<Rightarrow> VmValue list" where
  "values_at h r = (case get_object h r of Inl _ \<Rightarrow> [] | Inr obj \<Rightarrow> object_values obj)"

definition live_refs :: "PrivateHeap \<Rightarrow> VmObjectRef set" where
  "live_refs h = {r. ref_live h r}"

lemma finite_live_refs: "finite (live_refs h)"
proof -
  let ?mk = "\<lambda>i. \<lparr>ref_index = of_nat i, ref_generation = slot_generation (slot_of h i)\<rparr>"
  have "live_refs h \<subseteq> ?mk ` {..<length (hp_objects h)}"
  proof
    fix r
    assume "r \<in> live_refs h"
    then have "ref_idx r < length (hp_objects h)" "slot_generation (slot_of h (ref_idx r)) = ref_generation r"
      by (auto simp: live_refs_def ref_live_def)
    then have "r = ?mk (ref_idx r)" "ref_idx r \<in> {..<length (hp_objects h)}" by (cases r, simp)+
    then show "r \<in> ?mk ` {..<length (hp_objects h)}" by blast
  qed
  then show ?thesis by (rule finite_subset) simp
qed

lemma values_at_live: "values_at h r \<noteq> [] \<Longrightarrow> r \<in> live_refs h"
  by (auto simp: values_at_def live_refs_def ref_live_def get_object_def Let_def split: if_splits option.splits)

text \<open>The references still to be expanded; they decrease whenever an object is entered.\<close>

definition unvisited :: "PrivateHeap \<Rightarrow> VmObjectRef set \<Rightarrow> nat" where
  "unvisited h visited = card (live_refs h - visited)"

lemma unvisited_insert:
  "r \<notin> visited \<Longrightarrow>
   unvisited h (insert r visited) < unvisited h visited \<or>
   unvisited h (insert r visited) = unvisited h visited \<and> values_at h r = []"
proof (cases "r \<in> live_refs h")
  case True
  assume "r \<notin> visited"
  with True have "live_refs h - insert r visited \<subset> live_refs h - visited" by blast
  then show ?thesis unfolding unvisited_def by (simp add: psubset_card_mono finite_live_refs)
next
  case False
  then have "live_refs h - insert r visited = live_refs h - visited" by blast
  with False values_at_live show ?thesis by (auto simp: unvisited_def)
qed

function contains_future :: "PrivateHeap \<Rightarrow> FutureId \<Rightarrow> VmObjectRef set \<Rightarrow> VmValue list \<Rightarrow> bool" where
  "contains_future h fid visited [] = False"
| "contains_future h fid visited (v # vs) =
    (case v of
       Future i \<Rightarrow> i = fid \<or> contains_future h fid visited vs
     | Object r \<Rightarrow>
         (if r \<in> visited then contains_future h fid visited vs
          else contains_future h fid (insert r visited) (values_at h r @ vs))
     | _ \<Rightarrow> contains_future h fid visited vs)"
  by pat_completeness auto
termination
proof (relation "measures [\<lambda>(h, fid, visited, vs). unvisited h visited, \<lambda>(h, fid, visited, vs). length vs]", goal_cases)
  case (16 h fid visited v vs r)
  then show ?case using unvisited_insert [of r visited h] by auto
qed auto

function collect_futures :: "PrivateHeap \<Rightarrow> VmObjectRef set \<Rightarrow> VmValue list \<Rightarrow> FutureId list" where
  "collect_futures h visited [] = []"
| "collect_futures h visited (v # vs) =
    (case v of
       Future i \<Rightarrow> i # collect_futures h visited vs
     | Object r \<Rightarrow>
         (if r \<in> visited then collect_futures h visited vs
          else collect_futures h (insert r visited) (values_at h r @ vs))
     | _ \<Rightarrow> collect_futures h visited vs)"
  by pat_completeness auto
termination
proof (relation "measures [\<lambda>(h, visited, vs). unvisited h visited, \<lambda>(h, visited, vs). length vs]", goal_cases)
  case (16 h visited v vs r)
  then show ?case using unvisited_insert [of r visited h] by auto
qed auto

text \<open>\<open>sort_unstable\<close> and \<open>dedup\<close> on plain numbers.\<close>

definition future_handles_in_value :: "PrivateHeap \<Rightarrow> VmValue \<Rightarrow> FutureId list" where
  "future_handles_in_value h v = remdups_adj (sort (collect_futures h {} [v]))"

text \<open>The globals of the modules in the iteration order of the hash map of module states.\<close>

definition all_globals :: "VmThreadState \<Rightarrow> ModuleId list \<Rightarrow> VmValue list" where
  "all_globals t order = concat (map (\<lambda>m. ms_globals (the (th_module_states t m))) order)"

definition contains_future_handle :: "VmThreadState \<Rightarrow> ModuleId list \<Rightarrow> FutureId \<Rightarrow> bool" where
  "contains_future_handle t order fid =
     contains_future (th_heap t) fid {} (take (th_register_top t) (th_registers t) @ all_globals t order)"

section \<open>Reachability\<close>

inductive reaches :: "PrivateHeap \<Rightarrow> VmValue \<Rightarrow> VmValue \<Rightarrow> bool" for h where
  reaches_self: "reaches h v v"
| reaches_child: "c \<in> set (values_at h r) \<Longrightarrow> reaches h c w \<Longrightarrow> reaches h (Object r) w"

inductive_simps reaches_Object: "reaches h (Object r) w"

text \<open>The same without entering an object of \<open>avoid\<close>.\<close>

inductive reaches_avoiding :: "PrivateHeap \<Rightarrow> VmObjectRef set \<Rightarrow> VmValue \<Rightarrow> VmValue \<Rightarrow> bool" for h avoid where
  avoiding_self: "reaches_avoiding h avoid v v"
| avoiding_child: "r \<notin> avoid \<Longrightarrow> c \<in> set (values_at h r) \<Longrightarrow> reaches_avoiding h avoid c w \<Longrightarrow>
    reaches_avoiding h avoid (Object r) w"

inductive_cases reaches_avoidingE: "reaches_avoiding h avoid v w"

lemma avoiding_none: "reaches_avoiding h {} v w = reaches h v w"
proof
  show "reaches_avoiding h {} v w \<Longrightarrow> reaches h v w"
    by (induction rule: reaches_avoiding.induct) (auto intro: reaches.intros)
  show "reaches h v w \<Longrightarrow> reaches_avoiding h {} v w"
    by (induction rule: reaches.induct) (auto intro: reaches_avoiding.intros)
qed

lemma avoiding_mono: "reaches_avoiding h avoid v w \<Longrightarrow> avoid' \<subseteq> avoid \<Longrightarrow> reaches_avoiding h avoid' v w"
  by (induction rule: reaches_avoiding.induct) (auto intro: reaches_avoiding.intros)

text \<open>A path either avoids one more object or can be taken up after the last visit to it.\<close>

lemma avoiding_insert:
  "reaches_avoiding h avoid v w \<Longrightarrow>
   reaches_avoiding h (insert r avoid) v w \<or> (\<exists>c \<in> set (values_at h r). reaches_avoiding h (insert r avoid) c w)"
proof (induction rule: reaches_avoiding.induct)
  case (avoiding_child r' c w)
  then show ?case by (cases "r' = r") (auto intro: reaches_avoiding.avoiding_child)
qed (auto intro: reaches_avoiding.avoiding_self)

definition some_reaches :: "PrivateHeap \<Rightarrow> VmObjectRef set \<Rightarrow> VmValue list \<Rightarrow> VmValue \<Rightarrow> bool" where
  "some_reaches h avoid vs w \<longleftrightarrow> (\<exists>v \<in> set vs. reaches_avoiding h avoid v w)"

text \<open>Entering an unvisited object moves the search to its values.\<close>

lemma some_reaches_enter:
  assumes "r \<notin> avoid"
  shows "some_reaches h avoid (Object r # vs) (Future i) = some_reaches h (insert r avoid) (values_at h r @ vs) (Future i)"
proof
  assume "some_reaches h avoid (Object r # vs) (Future i)"
  then obtain v where v: "v = Object r \<or> v \<in> set vs" "reaches_avoiding h avoid v (Future i)"
    by (auto simp: some_reaches_def)
  show "some_reaches h (insert r avoid) (values_at h r @ vs) (Future i)"
  proof (cases "v = Object r")
    case True
    with v(2) obtain c where c: "c \<in> set (values_at h r)" "reaches_avoiding h avoid c (Future i)"
      by (auto elim: reaches_avoidingE)
    from avoiding_insert [OF c(2), of r] c(1) show ?thesis by (auto simp: some_reaches_def)
  next
    case False
    with v avoiding_insert [OF v(2), of r] show ?thesis by (auto simp: some_reaches_def)
  qed
next
  assume "some_reaches h (insert r avoid) (values_at h r @ vs) (Future i)"
  then show "some_reaches h avoid (Object r # vs) (Future i)"
    using assms by (auto simp: some_reaches_def intro: avoiding_mono reaches_avoiding.avoiding_child)
qed

lemma some_reaches_visited:
  "r \<in> avoid \<Longrightarrow> some_reaches h avoid (Object r # vs) (Future i) = some_reaches h avoid vs (Future i)"
  by (auto simp: some_reaches_def elim: reaches_avoidingE)

lemma some_reaches_leaf:
  "\<not> is_object v \<Longrightarrow> some_reaches h avoid (v # vs) w = (v = w \<or> some_reaches h avoid vs w)"
  by (auto simp: some_reaches_def elim: reaches_avoidingE intro: reaches_avoiding.avoiding_self)

lemma contains_future_reaches: "contains_future h fid visited vs = some_reaches h visited vs (Future fid)"
proof (induction h fid visited vs rule: contains_future.induct)
  case (1 h fid visited)
  then show ?case by (simp add: some_reaches_def)
next
  case (2 h fid visited v vs)
  then show ?case
    by (cases v) (auto simp: some_reaches_leaf some_reaches_enter some_reaches_visited)
qed

lemma collect_futures_reaches: "set (collect_futures h visited vs) = {i. some_reaches h visited vs (Future i)}"
proof (induction h visited vs rule: collect_futures.induct)
  case (1 h visited)
  then show ?case by (simp add: some_reaches_def)
next
  case (2 h visited v vs)
  then show ?case
    by (cases v) (auto simp: some_reaches_leaf some_reaches_enter some_reaches_visited)
qed

text \<open>
  C34 (a future handle is found exactly when it is reachable).  \<open>contains_future_handle\<close> terminates on
  every heap, cyclic ones included, and answers whether the handle is reachable from a register
  below the top or from a global of some module, whatever the iteration order of the hash map of
  module states.
\<close>

theorem contains_future_handle_reachable:
  assumes "set order = dom (th_module_states t)"
  shows "contains_future_handle t order fid \<longleftrightarrow>
     (\<exists>i < th_register_top t. i < length (th_registers t) \<and> reaches (th_heap t) (th_registers t ! i) (Future fid)) \<or>
     (\<exists>m s v. th_module_states t m = Some s \<and> v \<in> set (ms_globals s) \<and> reaches (th_heap t) v (Future fid))"
proof -
  have split: "contains_future_handle t order fid \<longleftrightarrow>
     (\<exists>v \<in> set (take (th_register_top t) (th_registers t)). reaches (th_heap t) v (Future fid)) \<or>
     (\<exists>v \<in> set (all_globals t order). reaches (th_heap t) v (Future fid))"
    by (auto simp: contains_future_handle_def contains_future_reaches some_reaches_def avoiding_none)
  have "v \<in> set (all_globals t order) \<longleftrightarrow> (\<exists>m s. th_module_states t m = Some s \<and> v \<in> set (ms_globals s))" for v
    using assms by (force simp: all_globals_def)
  then have globals: "(\<exists>v \<in> set (all_globals t order). P v) \<longleftrightarrow>
      (\<exists>m s v. th_module_states t m = Some s \<and> v \<in> set (ms_globals s) \<and> P v)" for P
    by blast
  have registers: "(\<exists>v \<in> set (take n xs). P v) \<longleftrightarrow> (\<exists>i < n. i < length xs \<and> P (xs ! i))" for n xs and P :: "VmValue \<Rightarrow> bool"
    by (auto simp: in_set_conv_nth Bex_def)
  show ?thesis unfolding split globals registers ..
qed

text \<open>Two tuples that refer to each other, one of which holds future 9.\<close>

definition cyclic_heap :: PrivateHeap where
  "cyclic_heap = (new_heap (new_thread_quota default_limits))\<lparr>hp_objects :=
     [\<lparr>slot_generation = 1, slot_anchors = 1, slot_edges = 1, slot_color = Black,
       slot_object = Some (TupleObj [Object (new_ref 1 1)] 1)\<rparr>,
      \<lparr>slot_generation = 1, slot_anchors = 0, slot_edges = 1, slot_color = Black,
       slot_object = Some (TupleObj [Object (new_ref 0 1), Future 9] 2)\<rparr>]\<rparr>"

definition cyclic_thread :: VmThreadState where
  "cyclic_thread = (new_thread (new_global_quota default_limits) (new_thread_quota default_limits))
     \<lparr>th_registers := [Null, Object (new_ref 0 1)], th_register_top := 2, th_heap := cyclic_heap\<rparr>"

lemma cyclic_reaches: "reaches cyclic_heap (Object (new_ref 0 1)) (Future 9)"
  by (rule reaches_child [of "Object (new_ref 1 1)"], simp add: values_at_def get_object_def cyclic_heap_def new_ref_def,
      rule reaches_child [of "Future 9"], simp add: values_at_def get_object_def cyclic_heap_def new_ref_def,
      rule reaches_self)

theorem contains_future_handle_reachable_witness: "contains_future_handle cyclic_thread [] 9"
proof -
  have "set [] = dom (th_module_states cyclic_thread)" by (simp add: cyclic_thread_def new_thread_def)
  from contains_future_handle_reachable [OF this, of 9] show ?thesis
    using cyclic_reaches by (auto simp: cyclic_thread_def intro!: exI [of _ "1 :: nat"])
qed

lemma strictly_sorted_remdups_adj: "sorted xs \<Longrightarrow> sorted_wrt (<) (remdups_adj xs)"
  by (induction xs rule: remdups_adj.induct) (auto simp: less_le)

text \<open>
  All future handles of a value are listed once.  \<open>future_handles_in_value\<close> returns the futures
  reachable from the value, each once and in ascending order.
\<close>

lemma future_handles_exact:
  "sorted_wrt (<) (future_handles_in_value h v) \<and>
   set (future_handles_in_value h v) = {i. reaches h v (Future i)}"
  by (simp add: future_handles_in_value_def strictly_sorted_remdups_adj collect_futures_reaches some_reaches_def avoiding_none
      del: collect_futures.simps)

end
