(* ===== verification/Bytecode_Validation.thy ===== *)
theory Bytecode_Validation
  imports Bytecode
begin

text \<open>
  The validator of compiled modules, \<^verbatim>\<open>galfus-bytecode/src/validation.rs\<close>.

  Every check returns the errors it pushes; the errors of an instruction are those of its checks in
  the order of the code, and the module is accepted when there are none.  The checks that compute a
  register or a jump target do so in the width of the source (\<open>u16\<close>, \<open>i32\<close>), where sums wrap.
\<close>

section \<open>Errors\<close>

datatype BytecodeValidationError =
    FutureArgumentTypeCountMismatch utext nat nat nat    \<comment> \<open>func_name, instr_idx, expected_count, found_count\<close>
  | InvalidConstantIndex utext nat ConstIdx
  | InvalidTypeIndex utext nat TypeIdx
  | InvalidFunctionIndex utext nat FuncIdx
  | InvalidRegister utext nat Reg u16                    \<comment> \<open>reg, max_allowed\<close>
  | InvalidJumpOffset utext nat u32 nat                  \<comment> \<open>target_idx, instr_count\<close>
  | TypeMismatchAlloc utext nat string TypeIdx
  | LayoutOutOfBounds utext nat string u16
  | ChoiceVariantOutOfBounds utext nat u16 nat
  | TupleCountMismatch utext nat nat nat
  | FieldIndexOutOfBounds utext nat FieldIdx
  | ExportFunctionOutOfBounds utext FuncIdx
  | ExportGlobalOutOfBounds utext GlobalIdx u32
  | InitFunctionOutOfBounds FuncIdx

section \<open>Checks\<close>

text \<open>\<open>func.param_count as u16 + func.local_count + func.temp_count\<close>, a 16-bit sum.\<close>

definition max_regs :: "BytecodeFunction \<Rightarrow> u16" where
  "max_regs f = ucast (bf_param_count f) + bf_local_count f + bf_temp_count f"

definition max_field_count :: "BytecodeModule \<Rightarrow> nat option" where
  "max_field_count m =
    (let counts = map (\<lambda>l. length (sl_fields l)) (bm_struct_layouts m) @
                  List.map_filter (\<lambda>ty. case ty of TyTuple elems \<Rightarrow> Some (length elems) | _ \<Rightarrow> None) (bm_types m) in
     if counts = [] then None else Some (Max (set counts)))"

text \<open>The five closures of the loop over the instructions of a function.\<close>

definition check_reg :: "BytecodeFunction \<Rightarrow> nat \<Rightarrow> Reg \<Rightarrow> BytecodeValidationError list" where
  "check_reg f i r = (if r \<ge> max_regs f then [InvalidRegister (bf_name f) i r (max_regs f)] else [])"

definition check_const :: "BytecodeModule \<Rightarrow> BytecodeFunction \<Rightarrow> nat \<Rightarrow> ConstIdx \<Rightarrow> BytecodeValidationError list" where
  "check_const m f i c = (if unat c \<ge> length (bm_constants m) then [InvalidConstantIndex (bf_name f) i c] else [])"

definition check_type :: "BytecodeModule \<Rightarrow> BytecodeFunction \<Rightarrow> nat \<Rightarrow> TypeIdx \<Rightarrow> BytecodeValidationError list" where
  "check_type m f i ty = (if unat ty \<ge> length (bm_types m) then [InvalidTypeIndex (bf_name f) i ty] else [])"

definition check_func :: "BytecodeModule \<Rightarrow> BytecodeFunction \<Rightarrow> nat \<Rightarrow> FuncIdx \<Rightarrow> BytecodeValidationError list" where
  "check_func m f i idx =
    (if unat idx \<ge> length (bm_functions m) + length (bm_imports m) then [InvalidFunctionIndex (bf_name f) i idx] else [])"

definition check_jump :: "BytecodeFunction \<Rightarrow> nat \<Rightarrow> u32 \<Rightarrow> BytecodeValidationError list" where
  "check_jump f i offset =
    (let target = of_nat i + 1 + offset :: u32; count = length (bf_instructions f) in
     if sint target < 0 \<or> sint target \<ge> sint (of_nat count :: u32)
     then [InvalidJumpOffset (bf_name f) i target count] else [])"

text \<open>
  A range of argument registers.  \<open>Call\<close>, \<open>CallDynamic\<close> and \<open>NewTuple\<close> check the first register and, with
  a 32-bit sum, the last; the other instructions check one register, computed in 16 bits.
\<close>

definition check_range :: "BytecodeFunction \<Rightarrow> nat \<Rightarrow> Reg \<Rightarrow> u8 \<Rightarrow> BytecodeValidationError list" where
  "check_range f i start count =
    (if count > 0 then
       check_reg f i start @
       (let end_reg = ucast start + ucast count - 1 :: u32 in
        if end_reg \<ge> ucast (max_regs f) then [InvalidRegister (bf_name f) i (ucast end_reg) (max_regs f)] else [])
     else [])"

definition check_last :: "BytecodeFunction \<Rightarrow> nat \<Rightarrow> Reg \<Rightarrow> u8 \<Rightarrow> BytecodeValidationError list" where
  "check_last f i start count = (if count > 0 then check_reg f i (start + ucast count - 1) else [])"

definition check_field :: "BytecodeModule \<Rightarrow> BytecodeFunction \<Rightarrow> nat \<Rightarrow> FieldIdx \<Rightarrow> BytecodeValidationError list" where
  "check_field m f i field =
    (case max_field_count m of
       Some max_count \<Rightarrow> if unat field \<ge> max_count then [FieldIndexOutOfBounds (bf_name f) i field] else []
     | None \<Rightarrow> [])"

definition check_arg_types ::
  "BytecodeModule \<Rightarrow> BytecodeFunction \<Rightarrow> nat \<Rightarrow> u8 \<Rightarrow> TypeIdx list \<Rightarrow> BytecodeValidationError list" where
  "check_arg_types m f i arg_count arg_types =
    (if length arg_types \<noteq> unat arg_count
     then [FutureArgumentTypeCountMismatch (bf_name f) i (unat arg_count) (length arg_types)] else []) @
    concat (map (check_type m f i) arg_types)"

definition check_tuple_type ::
  "BytecodeModule \<Rightarrow> BytecodeFunction \<Rightarrow> nat \<Rightarrow> TypeIdx \<Rightarrow> u8 \<Rightarrow> BytecodeValidationError list" where
  "check_tuple_type m f i ty count =
    (if unat ty < length (bm_types m) then
       (case bm_types m ! unat ty of
          TyTuple elements \<Rightarrow>
            if length elements \<noteq> unat count then [TupleCountMismatch (bf_name f) i (length elements) (unat count)] else []
        | _ \<Rightarrow> [TypeMismatchAlloc (bf_name f) i ''Tuple'' ty])
     else [])"

definition check_struct_type :: "BytecodeModule \<Rightarrow> BytecodeFunction \<Rightarrow> nat \<Rightarrow> TypeIdx \<Rightarrow> BytecodeValidationError list" where
  "check_struct_type m f i ty =
    (if unat ty < length (bm_types m) then
       (case bm_types m ! unat ty of
          TyStruct layout \<Rightarrow>
            if unat layout \<ge> length (bm_struct_layouts m) then [LayoutOutOfBounds (bf_name f) i ''StructLayout'' layout] else []
        | _ \<Rightarrow> [TypeMismatchAlloc (bf_name f) i ''Struct'' ty])
     else [])"

definition check_choice_type ::
  "BytecodeModule \<Rightarrow> BytecodeFunction \<Rightarrow> nat \<Rightarrow> TypeIdx \<Rightarrow> u16 \<Rightarrow> BytecodeValidationError list" where
  "check_choice_type m f i ty variant =
    (if unat ty < length (bm_types m) then
       (case bm_types m ! unat ty of
          TyChoice layout \<Rightarrow>
            if unat layout \<ge> length (bm_choice_layouts m) then [LayoutOutOfBounds (bf_name f) i ''ChoiceLayout'' layout]
            else
              (let variants = cl_variants (bm_choice_layouts m ! unat layout) in
               if unat variant \<ge> length variants
               then [ChoiceVariantOutOfBounds (bf_name f) i variant (length variants)] else [])
        | _ \<Rightarrow> [TypeMismatchAlloc (bf_name f) i ''Choice'' ty])
     else [])"

section \<open>Instructions\<close>

fun check_control :: "BytecodeModule \<Rightarrow> BytecodeFunction \<Rightarrow> nat \<Rightarrow> ControlInstruction \<Rightarrow> BytecodeValidationError list" where
  "check_control m f i (Call dest func_idx args_start arg_count) =
    check_reg f i dest @ check_func m f i func_idx @ check_range f i args_start arg_count"
| "check_control m f i (CallMethod dest obj name_const args_start arg_count _ _) =
    check_reg f i dest @ check_reg f i obj @ check_const m f i name_const @
    (if arg_count > 1 then check_reg f i (args_start + ucast arg_count - 2) else [])"
| "check_control m f i (CallDynamic dest func_reg args_start arg_count) =
    check_reg f i dest @ check_reg f i func_reg @ check_range f i args_start arg_count"
| "check_control m f i (Ret src) = check_reg f i src"
| "check_control m f i RetNull = []"
| "check_control m f i (PanicWith const_idx) = check_const m f i const_idx"
| "check_control m f i (TailCall _ _ _) = []"

fun check_objects :: "BytecodeModule \<Rightarrow> BytecodeFunction \<Rightarrow> nat \<Rightarrow> ObjectInstruction \<Rightarrow> BytecodeValidationError list" where
  "check_objects m f i (AllocLocal dest ty) = check_reg f i dest @ check_type m f i ty @ check_struct_type m f i ty"
| "check_objects m f i (LoadField dest obj field) = check_reg f i dest @ check_reg f i obj @ check_field m f i field"
| "check_objects m f i (StoreField obj field val) = check_reg f i obj @ check_reg f i val @ check_field m f i field"
| "check_objects m f i (NewArray dest ty len_reg) = check_reg f i dest @ check_type m f i ty @ check_reg f i len_reg"
| "check_objects m f i (LoadIndex dest arr idx) = check_reg f i dest @ check_reg f i arr @ check_reg f i idx"
| "check_objects m f i (StoreIndex arr idx val) = check_reg f i arr @ check_reg f i idx @ check_reg f i val"
| "check_objects m f i (NewTuple dest ty start count) =
    check_reg f i dest @ check_type m f i ty @ check_range f i start count @ check_tuple_type m f i ty count"
| "check_objects m f i (NewChoice dest ty variant payload) =
    check_reg f i dest @ check_type m f i ty @ check_reg f i payload @ check_choice_type m f i ty variant"
| "check_objects m f i (Cast dest src ty) = check_reg f i dest @ check_reg f i src @ check_type m f i ty"
| "check_objects m f i (Copy dest src) = check_reg f i dest @ check_reg f i src"
| "check_objects m f i (Instanceof dest src ty) = check_reg f i dest @ check_reg f i src @ check_type m f i ty"

fun check_system :: "BytecodeModule \<Rightarrow> BytecodeFunction \<Rightarrow> nat \<Rightarrow> SystemInstruction \<Rightarrow> BytecodeValidationError list" where
  "check_system m f i (Drop r) = check_reg f i r"
| "check_system m f i (AwaitFuture dest future_id return_type) =
    check_reg f i dest @ check_reg f i future_id @ check_type m f i return_type"
| "check_system m f i (CreateFuture dest func_idx args_start arg_count arg_types return_type) =
    check_reg f i dest @ check_func m f i func_idx @ check_arg_types m f i arg_count arg_types @
    check_type m f i return_type @ check_last f i args_start arg_count"
| "check_system m f i (CreateAwaitFuture dest _ args_start arg_count arg_types return_type) =
    check_reg f i dest @ check_arg_types m f i arg_count arg_types @
    check_type m f i return_type @ check_last f i args_start arg_count"
| "check_system m f i (CallInternalThread dest _ args_start arg_count arg_types return_type) =
    check_reg f i dest @ check_arg_types m f i arg_count arg_types @
    check_type m f i return_type @ check_last f i args_start arg_count"
| "check_system m f i (CreateIndirectFuture dest func_reg args_start arg_count arg_types return_type) =
    check_reg f i dest @ check_reg f i func_reg @ check_arg_types m f i arg_count arg_types @
    check_type m f i return_type @ check_last f i args_start arg_count"
| "check_system m f i (AwaitAll dest futures_start count return_type) =
    check_reg f i dest @ check_type m f i return_type @ check_last f i futures_start count"
| "check_system m f i (AwaitRace dest futures_start count return_type) =
    check_reg f i dest @ check_type m f i return_type @ check_last f i futures_start count"
| "check_system m f i (Len dest src) = check_reg f i dest @ check_reg f i src"
| "check_system m f i (CopyArray dest dest_start src) = check_reg f i dest @ check_reg f i dest_start @ check_reg f i src"
| "check_system m f i (CallInternalMath dest operation args_start arg_count) =
    check_reg f i dest @
    (if operation > 10 then [InvalidConstantIndex (bf_name f) i (ucast operation)] else []) @
    check_last f i args_start arg_count"

fun check_instruction :: "BytecodeModule \<Rightarrow> BytecodeFunction \<Rightarrow> nat \<Rightarrow> Instruction \<Rightarrow> BytecodeValidationError list" where
  "check_instruction m f i (LoadConst dest const_idx) = check_reg f i dest @ check_const m f i const_idx"
| "check_instruction m f i (Move dest src) = check_reg f i dest @ check_reg f i src"
| "check_instruction m f i (LoadGlobal dest _ _) = check_reg f i dest"
| "check_instruction m f i (StoreGlobal _ _ src) = check_reg f i src"
| "check_instruction m f i (LoadNull dest) = check_reg f i dest"
| "check_instruction m f i (Binary _ dest lhs rhs) = check_reg f i dest @ check_reg f i lhs @ check_reg f i rhs"
| "check_instruction m f i (Unary _ dest src) = check_reg f i dest @ check_reg f i src"
| "check_instruction m f i (Fallback dest src fallback) = check_reg f i dest @ check_reg f i src @ check_reg f i fallback"
| "check_instruction m f i (BinaryImmediate dest lhs _ _) = check_reg f i dest @ check_reg f i lhs"
| "check_instruction m f i (Jump offset) = check_jump f i offset"
| "check_instruction m f i (JumpTrue cond offset) = check_reg f i cond @ check_jump f i offset"
| "check_instruction m f i (JumpFalse cond offset) = check_reg f i cond @ check_jump f i offset"
| "check_instruction m f i (JumpNull val offset) = check_reg f i val @ check_jump f i offset"
| "check_instruction m f i (Typed _ _ _ _ _) = []"
| "check_instruction m f i (Control c) = check_control m f i c"
| "check_instruction m f i (Objects c) = check_objects m f i c"
| "check_instruction m f i (System c) = check_system m f i c"

section \<open>Modules\<close>

definition check_init :: "BytecodeModule \<Rightarrow> BytecodeValidationError list" where
  "check_init m =
    (case bm_init_func_idx m of
       Some idx \<Rightarrow> if unat idx \<ge> length (bm_functions m) then [InitFunctionOutOfBounds idx] else []
     | None \<Rightarrow> [])"

definition check_export :: "BytecodeModule \<Rightarrow> ExportSlot \<Rightarrow> BytecodeValidationError list" where
  "check_export m e =
    (case ex_kind e of
       ExportFunction idx \<Rightarrow>
         if unat idx \<ge> length (bm_functions m) then [ExportFunctionOutOfBounds (ex_symbol_name e) idx] else []
     | ExportGlobal idx \<Rightarrow>
         if (ucast idx :: u32) \<ge> bm_global_count m
         then [ExportGlobalOutOfBounds (ex_symbol_name e) idx (bm_global_count m)] else [])"

definition check_function :: "BytecodeModule \<Rightarrow> BytecodeFunction \<Rightarrow> BytecodeValidationError list" where
  "check_function m f = concat (map (\<lambda>(i, instr). check_instruction m f i instr) (enumerate 0 (bf_instructions f)))"

definition validate_bytecode_module :: "BytecodeModule \<Rightarrow> BytecodeValidationError list + unit" where
  "validate_bytecode_module m =
    (let errors = check_init m @ concat (map (check_export m) (bm_exports m)) @ concat (map (check_function m) (bm_functions m)) in
     if errors = [] then Inr () else Inl errors)"

section \<open>What acceptance means\<close>

text \<open>
  The 16-bit count of the validator never exceeds the number of registers the virtual machine gives the frame, even when
  it wraps.
\<close>

lemma unat_ucast_up [simp]: "LENGTH('a::len) \<le> LENGTH('b::len) \<Longrightarrow> unat (ucast (x :: 'a word) :: 'b word) = unat x"
proof -
  assume "LENGTH('a) \<le> LENGTH('b)"
  then have "unat x < 2 ^ LENGTH('b)"
    using unsigned_less [of x] by (meson one_le_numeral order_less_le_trans power_increasing)
  then show ?thesis by (simp add: unsigned_ucast_eq take_bit_nat_eq_self)
qed

lemma max_regs_le_frame: "unat (max_regs f) \<le> frame_registers f"
proof -
  have "unat (max_regs f) = (unat (bf_param_count f) + unat (bf_local_count f) + unat (bf_temp_count f)) mod 2 ^ 16"
    by (simp add: max_regs_def unat_word_ariths mod_simps)
  then show ?thesis by (simp add: frame_registers_def)
qed

lemma check_reg_Nil [simp]: "check_reg f i r = [] \<longleftrightarrow> r < max_regs f"
  by (auto simp: check_reg_def not_le)

lemma check_reg_window: "check_reg f i r = [] \<Longrightarrow> unat r < frame_registers f"
  using max_regs_le_frame [of f] by (simp add: word_less_nat_alt)

lemma check_const_Nil [simp]: "check_const m f i c = [] \<longleftrightarrow> unat c < length (bm_constants m)"
  by (auto simp: check_const_def)

lemma check_type_Nil [simp]: "check_type m f i ty = [] \<longleftrightarrow> unat ty < length (bm_types m)"
  by (auto simp: check_type_def)

lemma check_func_Nil [simp]: "check_func m f i idx = [] \<longleftrightarrow> unat idx < length (bm_functions m) + length (bm_imports m)"
  by (auto simp: check_func_def)

lemma validate_Inr_iff:
  "validate_bytecode_module m = Inr u \<longleftrightarrow>
     check_init m = [] \<and> (\<forall>e \<in> set (bm_exports m). check_export m e = []) \<and> (\<forall>f \<in> set (bm_functions m). check_function m f = [])"
  by (auto simp: validate_bytecode_module_def Let_def)

lemma ball_enumerate: "(\<forall>p \<in> set (enumerate 0 xs). case p of (i, x) \<Rightarrow> P i x) \<longleftrightarrow> (\<forall>i < length xs. P i (xs ! i))"
  by (auto simp: in_set_enumerate_eq dest: bspec [where x = "(i, xs ! i)" for i])

lemma check_function_Nil:
  "check_function m f = [] \<longleftrightarrow> (\<forall>i < length (bf_instructions f). check_instruction m f i (bf_instructions f ! i) = [])"
  using ball_enumerate [of "bf_instructions f" "\<lambda>i x. check_instruction m f i x = []"]
  by (simp add: check_function_def case_prod_beta)

text \<open>Every instruction of an accepted module has passed its checks.\<close>

lemma validated_instruction:
  assumes "validate_bytecode_module m = Inr u" "k < length (bm_functions m)" "i < length (bf_instructions (bm_functions m ! k))"
  shows "check_instruction m (bm_functions m ! k) i (bf_instructions (bm_functions m ! k) ! i) = []"
  using assms by (auto simp: validate_Inr_iff check_function_Nil)

text \<open>
  A range that passed \<open>check_range\<close> lies in the window: the 32-bit end cannot wrap, so all registers between start and end
  are below the bound, and computing them in 16 bits does not wrap either.
\<close>

lemma check_range_window:
  assumes "check_range f i start count = []" "k < unat count"
  shows "unat (start + of_nat k) = unat start + k" "unat start + k < frame_registers f"
proof -
  from assms(2) have pos: "count > 0" by (simp add: word_gt_0_no word_less_nat_alt) 
  have s: "unat start < 2 ^ 16" and c: "unat count < 2 ^ 8" by (use unsigned_less [of start] unsigned_less [of count] in simp_all)
  have u: "unat (ucast start + ucast count - 1 :: u32) = unat start + unat count - 1"
  proof -
    have "unat (ucast start + ucast count :: u32) = unat start + unat count"
      using s c by (simp add: unat_word_ariths)
    moreover have "(1 :: u32) \<le> ucast start + ucast count"
      using calculation assms(2) by (simp add: word_le_nat_alt)
    ultimately show ?thesis by (simp add: unat_sub)
  qed
  from assms(1) pos have "(ucast start + ucast count - 1 :: u32) < ucast (max_regs f)"
    by (auto simp: check_range_def Let_def not_le split: if_splits)
  then have le: "unat start + unat count - 1 < unat (max_regs f)"
    by (simp add: word_less_nat_alt u)
  have "unat (max_regs f) < 2 ^ 16" using unsigned_less [of "max_regs f"] by simp
  with le assms(2) have "unat start + k < 2 ^ 16" by linarith
  then show "unat (start + of_nat k) = unat start + k"
    by (simp add: unat_word_ariths unat_of_nat)
  from le assms(2) max_regs_le_frame [of f] show "unat start + k < frame_registers f" by linarith
qed

end
