(* ===== verification/Module_Path.thy ===== *)
theory Module_Path
  imports Source_Text
begin

text \<open>Module paths, \<^verbatim>\<open>galfus-core/src/path.rs\<close>.\<close>

abbreviation slash :: uchar where
  "slash \<equiv> 47"

abbreviation backslash :: uchar where
  "backslash \<equiv> 92"

text \<open>\<open>str::split\<close> with a set of characters: the pieces between the separators, at least one.\<close>

fun str_split :: "(uchar \<Rightarrow> bool) \<Rightarrow> utext \<Rightarrow> utext list" where
  "str_split sep [] = [[]]"
| "str_split sep (c # cs) =
    (if sep c then [] # str_split sep cs
     else case str_split sep cs of [] \<Rightarrow> [[c]] | s # ss \<Rightarrow> (c # s) # ss)"

fun str_join :: "uchar \<Rightarrow> utext list \<Rightarrow> utext" where
  "str_join sep [] = []"
| "str_join sep [s] = s"
| "str_join sep (s # ss) = s @ sep # str_join sep ss"

definition ends_with :: "utext \<Rightarrow> utext \<Rightarrow> bool" where
  "ends_with suffix txt \<longleftrightarrow> length suffix \<le> length txt \<and> drop (length txt - length suffix) txt = suffix"

text \<open>The loop over the segments: \<open>.\<close> and empty segments are skipped, \<open>..\<close> removes the last segment or fails.\<close>

fun normalize_segments :: "utext list \<Rightarrow> utext list \<Rightarrow> utext list option" where
  "normalize_segments segments [] = Some segments"
| "normalize_segments segments (s # ss) =
    (if s = [] \<or> s = [46] then normalize_segments segments ss
     else if s = [46, 46] then (if segments = [] then None else normalize_segments (butlast segments) ss)
     else normalize_segments (segments @ [s]) ss)"

definition gfs_suffix :: utext where
  "gfs_suffix = map of_char ''.gfs''"

definition gfp_suffix :: utext where
  "gfp_suffix = map of_char ''.gfp''"

definition new_module_path :: "utext \<Rightarrow> utext option" where
  "new_module_path path =
    (if 0 \<in> set path then None
     else
       case normalize_segments [] (str_split (\<lambda>c. c = slash \<or> c = backslash) path) of
         None \<Rightarrow> None
       | Some segments \<Rightarrow>
           let normalized = str_join slash segments in
           if \<not> ends_with gfs_suffix normalized \<and> \<not> ends_with gfp_suffix normalized then None else Some normalized)"

section \<open>Normal forms\<close>

definition proper :: "utext \<Rightarrow> bool" where
  "proper s \<longleftrightarrow> s \<noteq> [] \<and> s \<noteq> [46] \<and> s \<noteq> [46, 46]"

definition plain :: "utext \<Rightarrow> bool" where
  "plain s \<longleftrightarrow> slash \<notin> set s \<and> backslash \<notin> set s \<and> 0 \<notin> set s"

lemma str_split_nonempty [simp]: "str_split sep cs \<noteq> []"
  by (induction cs) (auto split: list.splits)

lemma str_split_pieces: "s \<in> set (str_split sep cs) \<Longrightarrow> c \<in> set s \<Longrightarrow> c \<in> set cs \<and> \<not> sep c"
proof (induction cs arbitrary: s)
  case (Cons d cs)
  obtain t ts where split: "str_split sep cs = t # ts" by (cases "str_split sep cs") auto
  consider "s = []" | "s \<in> set (str_split sep cs)" | "s = d # t" "\<not> sep d"
    using Cons.prems(1) split by (auto split: if_splits)
  then show ?case using Cons.IH [of s] Cons.IH [of t] Cons.prems(2) split by cases auto
qed simp

lemma normalize_segments_ok:
  "normalize_segments segments ss = Some out \<Longrightarrow> \<forall>s\<in>set segments. proper s \<and> P s \<Longrightarrow> \<forall>s\<in>set ss. P s \<Longrightarrow> \<forall>s\<in>set out. proper s \<and> P s"
proof (induction segments ss rule: normalize_segments.induct)
  case (2 segments s ss)
  consider "s = [] \<or> s = [46]" | "s = [46, 46]" "segments \<noteq> []" | "proper s"
    using "2.prems"(1) by (auto simp: proper_def split: if_splits)
  then show ?case
  proof cases
    case 1
    then show ?thesis using "2.prems" by (intro "2.IH"(1)) simp_all
  next
    case 2
    then have "\<forall>s\<in>set (butlast segments). proper s \<and> P s" using "2.prems"(2) in_set_butlastD by metis
    then show ?thesis using 2 "2.prems" by (intro "2.IH"(2)) simp_all
  next
    case 3
    then show ?thesis using "2.prems" by (intro "2.IH"(3)) (auto simp: proper_def)
  qed
qed simp

lemma normalize_proper: "\<forall>s\<in>set ss. proper s \<Longrightarrow> normalize_segments segments ss = Some (segments @ ss)"
  by (induction ss arbitrary: segments) (auto simp: proper_def)

lemma split_plain: "\<forall>c\<in>set s. \<not> sep c \<Longrightarrow> str_split sep s = [s]"
  by (induction s) auto

lemma split_append: "\<forall>c\<in>set s. \<not> sep c \<Longrightarrow> sep d \<Longrightarrow> str_split sep (s @ d # cs) = s # str_split sep cs"
  by (induction s) (auto split: list.splits)

lemma split_join:
  assumes "\<forall>s\<in>set ss. \<forall>c\<in>set s. \<not> sep c" "sep d" "ss \<noteq> []"
  shows "str_split sep (str_join d ss) = ss"
  using assms by (induction d ss rule: str_join.induct) (auto simp: split_plain split_append)

lemma join_chars: "c \<in> set (str_join d ss) \<Longrightarrow> c = d \<or> (\<exists>s\<in>set ss. c \<in> set s)"
  by (induction d ss rule: str_join.induct) auto

text \<open>
  C38 (module paths are normal forms inside the package).  An accepted path is a sequence of proper segments joined by slashes: none is empty,
  \<open>.\<close> or \<open>..\<close>, none contains a separator or a zero character, and the whole ends in \<open>.gfs\<close> or \<open>.gfp\<close>.
  Normalising it again gives the path itself.
\<close>

theorem module_path_normal:
  assumes "new_module_path path = Some q"
  shows "(\<exists>ss. q = str_join slash ss \<and> ss \<noteq> [] \<and> (\<forall>s\<in>set ss. proper s \<and> plain s)) \<and>
    (ends_with gfs_suffix q \<or> ends_with gfp_suffix q) \<and> new_module_path q = Some q"
proof -
  let ?sep = "\<lambda>c. c = slash \<or> c = backslash"
  obtain ss where ss: "normalize_segments [] (str_split ?sep path) = Some ss" "q = str_join slash ss" "0 \<notin> set path"
    "ends_with gfs_suffix q \<or> ends_with gfp_suffix q"
    using assms by (auto simp: new_module_path_def Let_def split: if_splits option.splits)
  have "\<forall>s\<in>set (str_split ?sep path). plain s" using str_split_pieces [of _ ?sep path] ss(3) unfolding plain_def by blast
  then have proper: "\<forall>s\<in>set ss. proper s \<and> plain s" by (intro normalize_segments_ok [OF ss(1)]) simp_all
  have "\<not> ends_with gfs_suffix []" "\<not> ends_with gfp_suffix []" by (simp_all add: ends_with_def gfs_suffix_def gfp_suffix_def)
  then have ne: "ss \<noteq> []" using ss(2,4) by (metis str_join.simps(1))
  have "\<forall>s\<in>set ss. \<forall>c\<in>set s. \<not> ?sep c" using proper unfolding plain_def by blast
  then have split: "str_split ?sep q = ss" using split_join [of ss ?sep slash] ne ss(2) by simp
  have "0 \<notin> set q" using join_chars [of 0 slash ss] proper ss(2) by (auto simp: plain_def)
  then have "new_module_path q = Some q"
    using normalize_proper [of ss "[]"] proper ss(4) unfolding new_module_path_def split by (simp add: ss(2) [symmetric])
  then show ?thesis using ss proper ne by blast
qed

theorem module_path_normal_witness:
  "new_module_path (map of_char ''./lib//io/../net.gfs'') = Some (map of_char ''lib/net.gfs'') \<and>
   new_module_path (map of_char ''lib/net.gfs'') = Some (map of_char ''lib/net.gfs'')"
proof -
  have first: "new_module_path (map of_char ''./lib//io/../net.gfs'') = Some (map of_char ''lib/net.gfs'')"
    by (simp add: new_module_path_def ends_with_def gfs_suffix_def)
  from module_path_normal [OF this] first show ?thesis by blast
qed

end
