(* ===== verification/Version.thy ===== *)
theory Version
  imports Module_Path
begin

text \<open>
  Versions, \<^verbatim>\<open>galfus-core/src/version.rs\<close>.  The tag is kept as its length and sixteen bytes; \<open>from_utf8\<close> of the standard library
  is written out.
\<close>

section \<open>UTF-8\<close>

definition is_continuation :: "nat \<Rightarrow> bool" where
  "is_continuation b \<longleftrightarrow> 128 \<le> b \<and> b < 192"

definition scalar_value :: "uchar \<Rightarrow> bool" where
  "scalar_value c \<longleftrightarrow> c < 55296 \<or> 57344 \<le> c \<and> c < 1114112"

fun from_utf8 :: "nat list \<Rightarrow> utext option" where
  "from_utf8 [] = Some []"
| "from_utf8 (b # bs) =
    (if b < 128 then map_option (Cons b) (from_utf8 bs)
     else if 192 \<le> b \<and> b < 224 then
       (case bs of
          c1 # cs \<Rightarrow>
            let v = (b - 192) * 64 + (c1 - 128) in
            if is_continuation c1 \<and> 128 \<le> v then map_option (Cons v) (from_utf8 cs) else None
        | _ \<Rightarrow> None)
     else if 224 \<le> b \<and> b < 240 then
       (case bs of
          c1 # c2 # cs \<Rightarrow>
            let v = (b - 224) * 4096 + (c1 - 128) * 64 + (c2 - 128) in
            if is_continuation c1 \<and> is_continuation c2 \<and> 2048 \<le> v \<and> scalar_value v then map_option (Cons v) (from_utf8 cs) else None
        | _ \<Rightarrow> None)
     else if 240 \<le> b \<and> b < 248 then
       (case bs of
          c1 # c2 # c3 # cs \<Rightarrow>
            let v = (b - 240) * 262144 + (c1 - 128) * 4096 + (c2 - 128) * 64 + (c3 - 128) in
            if is_continuation c1 \<and> is_continuation c2 \<and> is_continuation c3 \<and> 65536 \<le> v \<and> scalar_value v
            then map_option (Cons v) (from_utf8 cs) else None
        | _ \<Rightarrow> None)
     else None)"

lemma digits64: "c div 64 * 64 + c mod 64 = (c::nat)"
  "c div 4096 * 4096 + c div 64 mod 64 * 64 + c mod 64 = (c::nat)"
  "c div 262144 * 262144 + c div 4096 mod 64 * 4096 + c div 64 mod 64 * 64 + c mod 64 = (c::nat)"
proof -
  have split: "x div 64 * 64 + x mod 64 = x" for x :: nat by simp
  have div: "c div 4096 = c div 64 div 64" "c div 262144 = c div 64 div 64 div 64" by (simp_all add: div_mult2_eq [symmetric])
  show "c div 64 * 64 + c mod 64 = c" by (rule split)
  show "c div 4096 * 4096 + c div 64 mod 64 * 64 + c mod 64 = c"
    using split [of c] split [of "c div 64"] unfolding div by linarith
  show "c div 262144 * 262144 + c div 4096 mod 64 * 4096 + c div 64 mod 64 * 64 + c mod 64 = c"
    using split [of c] split [of "c div 64"] split [of "c div 64 div 64"] unfolding div by linarith
qed

lemma from_utf8_encode: "scalar_value c \<Longrightarrow> from_utf8 (encode_utf8 c @ bs) = map_option (Cons c) (from_utf8 bs)"
proof -
  assume c: "scalar_value c"
  consider "c < 128" | "128 \<le> c" "c < 2048" | "2048 \<le> c" "c < 65536" | "65536 \<le> c" by linarith
  then show ?thesis
  proof cases
    case 1
    then show ?thesis by (simp add: encode_utf8_def)
  next
    case 2
    then have "c div 64 < 32" by simp
    with 2 show ?thesis by (simp add: encode_utf8_def is_continuation_def Let_def digits64)
  next
    case 3
    then have "c div 4096 < 16" by simp
    with 3 c show ?thesis by (simp add: encode_utf8_def is_continuation_def Let_def digits64)
  next
    case 4
    then have "c div 262144 < 8" using c by (simp add: scalar_value_def)
    with 4 c show ?thesis by (simp add: encode_utf8_def is_continuation_def Let_def digits64)
  qed
qed

lemma from_as_utf8: "\<forall>c\<in>set cs. scalar_value c \<Longrightarrow> from_utf8 (as_utf8 cs) = Some cs"
  by (induction cs) (simp_all add: from_utf8_encode)

section \<open>Decimal numbers\<close>

text \<open>\<open>u16::to_string\<close> and \<open>str::parse::<u16>\<close>: an optional plus sign, then digits, no overflow.\<close>

fun decimal_text :: "nat \<Rightarrow> utext" where
  "decimal_text n = (if n < 10 then [48 + n] else decimal_text (n div 10) @ [48 + n mod 10])"

declare decimal_text.simps [simp del]

fun digits_value :: "nat \<Rightarrow> utext \<Rightarrow> nat option" where
  "digits_value acc [] = Some acc"
| "digits_value acc (c # cs) = (if 48 \<le> c \<and> c \<le> 57 then digits_value (acc * 10 + (c - 48)) cs else None)"

definition parse_u16 :: "utext \<Rightarrow> u16 option" where
  "parse_u16 cs =
    (let ds = (case cs of c # rest \<Rightarrow> if c = 43 then rest else cs | [] \<Rightarrow> cs) in
     if ds = [] then None
     else case digits_value 0 ds of None \<Rightarrow> None | Some n \<Rightarrow> if n < 65536 then Some (of_nat n) else None)"

lemma digits_value_append: "digits_value acc (xs @ ys) = Option.bind (digits_value acc xs) (\<lambda>a. digits_value a ys)"
  by (induction acc xs rule: digits_value.induct) auto

lemma digits_value_decimal: "digits_value 0 (decimal_text n) = Some n"
proof (induction n rule: decimal_text.induct)
  case (1 n)
  have "n mod 10 \<le> 9" using mod_less_divisor [of 10 n] by linarith
  then show ?case using 1 by (subst decimal_text.simps) (simp add: digits_value_append)
qed

lemma decimal_text_digits: "c \<in> set (decimal_text n) \<Longrightarrow> 48 \<le> c \<and> c \<le> 57"
  by (induction n rule: decimal_text.induct) (subst (asm) (2) decimal_text.simps, auto split: if_splits)

lemma decimal_text_nonempty: "decimal_text n \<noteq> []"
  by (subst decimal_text.simps) simp

lemma parse_decimal: "parse_u16 (decimal_text (unat (v::u16))) = Some v"
proof -
  obtain c cs where d: "decimal_text (unat v) = c # cs" using decimal_text_nonempty by (cases "decimal_text (unat v)") auto
  have "c \<noteq> 43" using decimal_text_digits [of c "unat v"] d by auto
  moreover have "unat v < 65536" using unsigned_less [of v] by simp
  ultimately show ?thesis using digits_value_decimal [of "unat v"] d by (simp add: parse_u16_def)
qed

section \<open>Versions\<close>

record Version =
  ve_major :: u16
  ve_minor :: u16
  ve_patch :: u16
  ve_tag_len :: u8
  ve_tag_bytes :: "nat list"

datatype VersionParseError = VersionParseError utext

definition new_version :: "u16 \<Rightarrow> u16 \<Rightarrow> u16 \<Rightarrow> Version" where
  "new_version major minor patch =
    \<lparr>ve_major = major, ve_minor = minor, ve_patch = patch, ve_tag_len = 0, ve_tag_bytes = replicate 16 0\<rparr>"

definition number_text :: "u16 \<Rightarrow> u16 \<Rightarrow> u16 \<Rightarrow> utext" where
  "number_text major minor patch =
    decimal_text (unat major) @ [46] @ decimal_text (unat minor) @ [46] @ decimal_text (unat patch)"

definition with_tag :: "u16 \<Rightarrow> u16 \<Rightarrow> u16 \<Rightarrow> utext \<Rightarrow> VersionParseError + Version" where
  "with_tag major minor patch tag =
    (let bytes = as_utf8 tag in
     if length bytes > 16 then Inl (VersionParseError (number_text major minor patch @ [45] @ tag))
     else Inr \<lparr>ve_major = major, ve_minor = minor, ve_patch = patch, ve_tag_len = of_nat (length bytes),
               ve_tag_bytes = bytes @ replicate (16 - length bytes) 0\<rparr>)"

definition version_tag :: "Version \<Rightarrow> utext option" where
  "version_tag v = (if ve_tag_len v > 0 then from_utf8 (take (unat (ve_tag_len v)) (ve_tag_bytes v)) else None)"

definition version_display :: "Version \<Rightarrow> utext" where
  "version_display v =
    (case version_tag v of
       Some tag \<Rightarrow> number_text (ve_major v) (ve_minor v) (ve_patch v) @ [45] @ tag
     | None \<Rightarrow> number_text (ve_major v) (ve_minor v) (ve_patch v))"

definition parse_component :: "utext option \<Rightarrow> utext \<Rightarrow> VersionParseError + u16" where
  "parse_component component original =
    (case component of
       None \<Rightarrow> Inl (VersionParseError original)
     | Some cs \<Rightarrow>
         if cs = [] then Inl (VersionParseError original)
         else case parse_u16 cs of None \<Rightarrow> Inl (VersionParseError original) | Some v \<Rightarrow> Inr v)"

text \<open>\<open>split_once('-')\<close>.\<close>

definition split_once :: "uchar \<Rightarrow> utext \<Rightarrow> (utext \<times> utext) option" where
  "split_once sep cs =
    (case dropWhile (\<lambda>c. c \<noteq> sep) cs of [] \<Rightarrow> None | _ # rest \<Rightarrow> Some (takeWhile (\<lambda>c. c \<noteq> sep) cs, rest))"

definition version_parse :: "utext \<Rightarrow> VersionParseError + Version" where
  "version_parse value =
    (let (version_part, tag_part) = (case split_once 45 value of Some (v, t) \<Rightarrow> (v, Some t) | None \<Rightarrow> (value, None));
         components = str_split (\<lambda>c. c = 46) version_part in
     case parse_component (list_get components 0) value of
       Inl e \<Rightarrow> Inl e
     | Inr major \<Rightarrow>
         (case parse_component (list_get components 1) value of
            Inl e \<Rightarrow> Inl e
          | Inr minor \<Rightarrow>
              (case parse_component (list_get components 2) value of
                 Inl e \<Rightarrow> Inl e
               | Inr patch \<Rightarrow>
                   if length components > 3 then Inl (VersionParseError value)
                   else
                     case tag_part of
                       Some tag \<Rightarrow>
                         (case with_tag major minor patch tag of Inl _ \<Rightarrow> Inl (VersionParseError value) | Inr v \<Rightarrow> Inr v)
                     | None \<Rightarrow> Inr (new_version major minor patch))))"

datatype VersionCompatibilityWarning = MinorVersionMismatch Version Version

record VersionCompatibilityError =
  vc_supported :: Version
  vc_actual :: Version

definition check_version_compatibility :: "Version \<Rightarrow> Version \<Rightarrow> VersionCompatibilityError + VersionCompatibilityWarning option" where
  "check_version_compatibility supported actual =
    (if ve_major actual \<noteq> ve_major supported then Inl \<lparr>vc_supported = supported, vc_actual = actual\<rparr>
     else Inr (if ve_minor actual \<noteq> ve_minor supported then Some (MinorVersionMismatch supported actual) else None))"

section \<open>Printing and parsing\<close>

lemma number_text_split: "str_split (\<lambda>c. c = 46) (number_text a b c) = [decimal_text (unat a), decimal_text (unat b), decimal_text (unat c)]"
proof -
  have "\<forall>c\<in>set (decimal_text n). c \<noteq> 46" for n using decimal_text_digits by fastforce
  then show ?thesis unfolding number_text_def by (simp add: split_append split_plain)
qed

lemma number_text_no_dash: "c \<in> set (number_text a b d) \<Longrightarrow> c \<noteq> 45"
  using decimal_text_digits by (fastforce simp: number_text_def)

lemma parse_component_decimal: "parse_component (Some (decimal_text (unat v))) original = Inr v"
  by (simp add: parse_component_def decimal_text_nonempty parse_decimal)

lemma split_once_dash:
  "split_once 45 (number_text a b c) = None" "split_once 45 (number_text a b c @ 45 # tag) = Some (number_text a b c, tag)"
proof -
  have "\<forall>x\<in>set (number_text a b c). x \<noteq> 45" using number_text_no_dash by blast
  then have d: "dropWhile (\<lambda>x. x \<noteq> 45) (number_text a b c) = []"
    "dropWhile (\<lambda>x. x \<noteq> 45) (number_text a b c @ 45 # tag) = 45 # tag"
    "takeWhile (\<lambda>x. x \<noteq> 45) (number_text a b c @ 45 # tag) = number_text a b c"
    by simp_all
  show "split_once 45 (number_text a b c) = None" unfolding split_once_def d by simp
  show "split_once 45 (number_text a b c @ 45 # tag) = Some (number_text a b c, tag)" unfolding split_once_def d by simp
qed

text \<open>
  Versions print and parse back.  Every version, without tag or with a non-empty tag that fits, is displayed as a text that parses to the same version;
  and the constructor accepts a tag exactly when it has at most sixteen bytes.
\<close>

lemma version_roundtrip:
  assumes "\<forall>c\<in>set tag. scalar_value c" "tag \<noteq> []"
  shows "version_parse (version_display (new_version a b c)) = Inr (new_version a b c) \<and>
    (case with_tag a b c tag of
       Inr v \<Rightarrow> utf8_len tag \<le> 16 \<and> version_tag v = Some tag \<and> version_parse (version_display v) = Inr v
     | Inl _ \<Rightarrow> utf8_len tag > 16)"
proof -
  have plain: "version_parse (version_display (new_version a b c)) = Inr (new_version a b c)"
    by (simp add: version_display_def version_tag_def new_version_def version_parse_def split_once_dash number_text_split
        parse_component_decimal list_get_def)
  show ?thesis
  proof (cases "utf8_len tag \<le> 16")
    case True
    obtain v where v: "with_tag a b c tag = Inr v" using True by (simp add: with_tag_def)
    have len: "unat (ve_tag_len v) = utf8_len tag" "ve_major v = a" "ve_minor v = b" "ve_patch v = c"
      using v True by (auto simp: with_tag_def Let_def unat_of_nat)
    have "0 < utf8_len tag" using assms(2) by (metis gr0I utf8_len_eq_0)
    then have "ve_tag_len v > 0" using len(1) by (simp add: word_greater_zero_iff) (metis less_irrefl unat_0)
    moreover have "take (utf8_len tag) (ve_tag_bytes v) = as_utf8 tag" using v True by (auto simp: with_tag_def Let_def)
    ultimately have tag: "version_tag v = Some tag" using assms(1) by (simp add: version_tag_def len from_as_utf8)
    have "version_parse (version_display v) = Inr v"
      using v by (simp add: version_display_def tag len version_parse_def split_once_dash number_text_split parse_component_decimal
          list_get_def)
    then show ?thesis using plain v tag True by simp
  next
    case False
    then show ?thesis using plain by (simp add: with_tag_def)
  qed
qed

end
