(* ===== verification/Bytecode_Graph.thy ===== *)
theory Bytecode_Graph
  imports Bytecode_Validation Version Btree_Map "HOL-Library.List_Lexorder" "HOL-Library.Product_Lexorder"
begin

text \<open>
  The graph of compiled modules: \<^verbatim>\<open>galfus-bytecode/src/graph.rs\<close> (snapshots, transactions, validation),
  \<^verbatim>\<open>galfus-bytecode/src/graph_resolver.rs\<close> (imports, initialisation order) and the format check of
  \<^verbatim>\<open>galfus-bytecode/src/version.rs\<close>.

  The map of modules is iterated in the order of its keys and is a \<open>btree\<close>; the indexes over it are only looked
  up and are maps.  Texts are ordered by their scalar values, which is the order of their bytes.
\<close>

section \<open>State\<close>

record DebugLocation =
  dl_start :: nat
  dl_end :: nat

type_synonym ExecutionMetadata = "(FuncIdx, (nat, DebugLocation) btree) btree"   \<comment> \<open>the field \<open>spans\<close>\<close>

record BytecodeNode =
  nd_id :: ModuleId
  nd_path :: utext
  nd_semantic_revision :: u64
  nd_module :: BytecodeModule
  nd_metadata :: "ExecutionMetadata option"

record ImportEdge =
  ed_from :: ModuleId
  ed_to :: ModuleId

record BytecodeGraphTransaction =
  tx_base_version :: u64
  tx_semantic_revision :: u64
  tx_upserted_modules :: "BytecodeNode list"
  tx_removed_modules :: "ModuleId list"
  tx_edges :: "ImportEdge list"

datatype BytecodeGraphValidationError =
    GraphInvalidModule ModuleId "BytecodeValidationError list"
  | DuplicateModulePath utext ModuleId ModuleId
  | MissingDependencyModule ModuleId ModuleId
  | MissingGlobalModule ModuleId ModuleId
  | GlobalIndexOutOfBounds ModuleId ModuleId GlobalIdx u32
  | InvalidImportPath ModuleId utext
  | MissingImportedModule ModuleId utext
  | MissingIndexedImportedModule ModuleId utext ModuleId
  | MissingImportedExport ModuleId utext utext

datatype BytecodeGraphTransactionError =
    StaleBaseVersion u64 u64
  | DuplicateRemovedModule ModuleId
  | DuplicateUpsertedModule ModuleId
  | DuplicateUpsertedModulePath utext ModuleId ModuleId
  | ConflictingModuleOperations ModuleId
  | RetainedModulePathConflict utext ModuleId ModuleId
  | InvalidGraph "BytecodeGraphValidationError list"

record BytecodeGraph =
  gr_version :: u64
  gr_format_version :: Version
  gr_modules :: "(ModuleId, BytecodeNode) btree"
  gr_ids_by_path :: "utext \<rightharpoonup> ModuleId"
  gr_edges :: "ImportEdge list"
  gr_dependencies :: "ModuleId \<rightharpoonup> ModuleId list"
  gr_dependents :: "ModuleId \<rightharpoonup> ModuleId list"
  gr_export_indexes :: "ModuleId \<rightharpoonup> (utext \<rightharpoonup> nat)"

section \<open>Format\<close>

text \<open>The version in the workspace manifest.\<close>

definition CURRENT_BYTECODE_FORMAT_VERSION :: Version where
  "CURRENT_BYTECODE_FORMAT_VERSION = new_version 2 1 0"

definition validate_bytecode_format :: "Version \<Rightarrow> VersionCompatibilityError + VersionCompatibilityWarning option" where
  "validate_bytecode_format actual = check_version_compatibility CURRENT_BYTECODE_FORMAT_VERSION actual"

definition validate_format :: "BytecodeGraph \<Rightarrow> VersionCompatibilityError + unit" where
  "validate_format g = (case validate_bytecode_format (gr_format_version g) of Inl e \<Rightarrow> Inl e | Inr _ \<Rightarrow> Inr ())"

section \<open>Metadata\<close>

definition location_for :: "ExecutionMetadata \<Rightarrow> FuncIdx \<Rightarrow> nat \<Rightarrow> DebugLocation option" where
  "location_for md func offset = Option.bind (btree_get md func) (\<lambda>spans. btree_get spans offset)"

definition btree_collect :: "('k::linorder \<times> 'v) list \<Rightarrow> ('k, 'v) btree" where
  "btree_collect kvs = foldl (\<lambda>m (k, v). btree_insert k v m) [] kvs"

text \<open>The spans are a \<open>HashMap\<close>, so the list holds them in an unknown order; keys are distinct.\<close>

definition set_function_spans :: "FuncIdx \<Rightarrow> (nat \<times> Span) list \<Rightarrow> ExecutionMetadata \<Rightarrow> ExecutionMetadata" where
  "set_function_spans func spans md =
    btree_insert func
      (btree_collect (map (\<lambda>(offset, span). (offset, \<lparr>dl_start = sp_start span, dl_end = sp_end span\<rparr>)) spans)) md"

definition remap_functions :: "FuncIdx option list \<Rightarrow> ExecutionMetadata \<Rightarrow> ExecutionMetadata" where
  "remap_functions function_remap md =
    btree_collect (List.map_filter
      (\<lambda>(func, locations). case list_get function_remap (unat func) of Some (Some remapped) \<Rightarrow> Some (remapped, locations) | _ \<Rightarrow> None) md)"

definition remap_instruction_offsets :: "FuncIdx \<Rightarrow> nat option list \<Rightarrow> ExecutionMetadata \<Rightarrow> ExecutionMetadata" where
  "remap_instruction_offsets func offset_remap md =
    (case btree_get md func of
       None \<Rightarrow> md
     | Some spans \<Rightarrow>
         btree_insert func
           (btree_collect (List.map_filter
             (\<lambda>(offset, location). map_option (\<lambda>o'. (o', location)) (Option.bind (list_get offset_remap offset) id)) spans))
           (btree_remove func md))"

section \<open>Indexes\<close>

definition graph_get :: "BytecodeGraph \<Rightarrow> ModuleId \<Rightarrow> BytecodeNode option" where
  "graph_get g i = btree_get (gr_modules g) i"

definition graph_modules :: "BytecodeGraph \<Rightarrow> BytecodeNode list" where
  "graph_modules g = btree_values (gr_modules g)"

definition edge_key :: "ImportEdge \<Rightarrow> ModuleId \<times> ModuleId" where
  "edge_key e = (ed_from e, ed_to e)"

fun adjacency_index :: "(ImportEdge \<Rightarrow> ModuleId \<times> ModuleId) \<Rightarrow> (ModuleId \<rightharpoonup> ModuleId list) \<Rightarrow> ImportEdge list \<Rightarrow> (ModuleId \<rightharpoonup> ModuleId list)" where
  "adjacency_index endpoints index [] = index"
| "adjacency_index endpoints index (e # es) =
    (case endpoints e of (x, y) \<Rightarrow>
      adjacency_index endpoints (index(x \<mapsto> (case index x of None \<Rightarrow> [y] | Some ys \<Rightarrow> ys @ [y]))) es)"

text \<open>Collecting pairs into a map: a later pair replaces an earlier one with the same key.\<close>

definition collect_map :: "('k \<times> 'v) list \<Rightarrow> ('k \<rightharpoonup> 'v)" where
  "collect_map kvs = map_of (rev kvs)"

definition export_index :: "BytecodeModule \<Rightarrow> (utext \<rightharpoonup> nat)" where
  "export_index m = collect_map (map (\<lambda>(i, e). (ex_symbol_name e, i)) (enumerate 0 (bm_exports m)))"

section \<open>Validation\<close>

text \<open>The loop over the modules also builds a map from paths to modules.\<close>

fun path_pass :: "(utext \<rightharpoonup> ModuleId) \<Rightarrow> BytecodeNode list \<Rightarrow> (utext \<rightharpoonup> ModuleId)" where
  "path_pass ids [] = ids"
| "path_pass ids (n # ns) = path_pass (ids(nd_path n \<mapsto> nd_id n)) ns"

definition global_errors :: "BytecodeGraph \<Rightarrow> ModuleId \<Rightarrow> Instruction \<Rightarrow> BytecodeGraphValidationError list" where
  "global_errors g i instr =
    (case (case instr of LoadGlobal _ owner idx \<Rightarrow> Some (owner, idx) | StoreGlobal owner idx _ \<Rightarrow> Some (owner, idx) | _ \<Rightarrow> None) of
       None \<Rightarrow> []
     | Some (owner, idx) \<Rightarrow>
         (case btree_get (gr_modules g) owner of
            None \<Rightarrow> [MissingGlobalModule i owner]
          | Some n \<Rightarrow>
              if (ucast idx :: u32) \<ge> bm_global_count (nd_module n)
              then [GlobalIndexOutOfBounds i owner idx (bm_global_count (nd_module n))]
              else if owner \<noteq> i \<and> \<not> (\<exists>e \<in> set (bm_exports (nd_module n)). ex_kind e = ExportGlobal idx)
              then [MissingImportedExport i (nd_path n) (map of_char ''global_'' @ decimal_text (unat idx))]
              else []))"

definition module_errors :: "BytecodeGraph \<Rightarrow> (utext \<rightharpoonup> ModuleId) \<Rightarrow> BytecodeNode \<Rightarrow> BytecodeGraphValidationError list" where
  "module_errors g ids n =
    (case ids (nd_path n) of Some first \<Rightarrow> if first \<noteq> nd_id n then [DuplicateModulePath (nd_path n) first (nd_id n)] else [] | None \<Rightarrow> []) @
    (case validate_bytecode_module (nd_module n) of Inl es \<Rightarrow> [GraphInvalidModule (nd_id n) es] | Inr _ \<Rightarrow> []) @
    concat (map (\<lambda>f. concat (map (global_errors g (nd_id n)) (bf_instructions f))) (bm_functions (nd_module n)))"

fun module_pass :: "BytecodeGraph \<Rightarrow> (utext \<rightharpoonup> ModuleId) \<Rightarrow> BytecodeNode list \<Rightarrow> BytecodeGraphValidationError list" where
  "module_pass g ids [] = []"
| "module_pass g ids (n # ns) = module_errors g ids n @ module_pass g (ids(nd_path n \<mapsto> nd_id n)) ns"

definition edge_errors :: "BytecodeGraph \<Rightarrow> ImportEdge \<Rightarrow> BytecodeGraphValidationError list" where
  "edge_errors g e =
    (if btree_get (gr_modules g) (ed_from e) = None \<or> btree_get (gr_modules g) (ed_to e) = None
     then [MissingDependencyModule (ed_from e) (ed_to e)] else [])"

definition import_errors ::
  "BytecodeGraph \<Rightarrow> (utext \<rightharpoonup> ModuleId) \<Rightarrow> ModuleId \<Rightarrow> ImportSlot \<Rightarrow> BytecodeGraphValidationError list" where
  "import_errors g ids importer im =
    (case new_module_path (im_module_name im) of
       None \<Rightarrow> [InvalidImportPath importer (im_module_name im)]
     | Some path \<Rightarrow>
         (case ids path of
            None \<Rightarrow> [MissingImportedModule importer (im_module_name im)]
          | Some dependency \<Rightarrow>
              (case btree_get (gr_modules g) dependency of
                 None \<Rightarrow> [MissingIndexedImportedModule importer (im_module_name im) dependency]
               | Some n \<Rightarrow>
                   if \<exists>e \<in> set (bm_exports (nd_module n)). ex_symbol_name e = im_symbol_name im then []
                   else [MissingImportedExport importer (im_module_name im) (im_symbol_name im)])))"

definition import_key :: "ImportSlot \<Rightarrow> utext \<times> utext" where
  "import_key im = (im_module_name im, im_symbol_name im)"

definition validate_graph :: "BytecodeGraph \<Rightarrow> BytecodeGraphValidationError list + unit" where
  "validate_graph g =
    (let ids = path_pass Map.empty (graph_modules g);
         errors = module_pass g Map.empty (graph_modules g) @
                  concat (map (edge_errors g) (sort_key edge_key (gr_edges g))) @
                  concat (map (\<lambda>n. concat (map (import_errors g ids (nd_id n)) (sort_key import_key (bm_imports (nd_module n)))))
                    (graph_modules g)) in
     if errors = [] then Inr () else Inl errors)"

definition rebuild_transient_indexes :: "BytecodeGraph \<Rightarrow> (BytecodeGraphValidationError list + unit) \<times> BytecodeGraph" where
  "rebuild_transient_indexes g =
    (let edges = sort_key edge_key (gr_edges g);
         g1 = g\<lparr>gr_ids_by_path := collect_map (map (\<lambda>(i, n). (nd_path n, i)) (gr_modules g)),
                gr_edges := edges,
                gr_dependencies := adjacency_index (\<lambda>e. (ed_from e, ed_to e)) Map.empty edges,
                gr_dependents := adjacency_index (\<lambda>e. (ed_to e, ed_from e)) Map.empty edges,
                gr_export_indexes := map_of (map (\<lambda>(i, n). (i, export_index (nd_module n))) (gr_modules g))\<rparr> in
     (validate_graph g1, g1))"

section \<open>Transactions\<close>

definition with_format_version :: "Version \<Rightarrow> BytecodeGraph" where
  "with_format_version v =
    \<lparr>gr_version = 0, gr_format_version = v, gr_modules = [], gr_ids_by_path = Map.empty, gr_edges = [],
     gr_dependencies = Map.empty, gr_dependents = Map.empty, gr_export_indexes = Map.empty\<rparr>"

text \<open>\<open>windows(2).find_map(...)\<close>: the first two neighbours with the same key.\<close>

fun first_repeat :: "('a \<Rightarrow> 'k) \<Rightarrow> 'a list \<Rightarrow> ('a \<times> 'a) option" where
  "first_repeat key (x # y # xs) = (if key x = key y then Some (x, y) else first_repeat key (y # xs))"
| "first_repeat key _ = None"

fun first_conflict :: "BytecodeGraph \<Rightarrow> ModuleId set \<Rightarrow> BytecodeNode list \<Rightarrow> BytecodeGraphTransactionError option" where
  "first_conflict g removed [] = None"
| "first_conflict g removed (n # ns) =
    (case find (\<lambda>e. nd_path e = nd_path n) (graph_modules g) of
       Some e \<Rightarrow>
         if nd_id e \<noteq> nd_id n \<and> nd_id e \<notin> removed then Some (RetainedModulePathConflict (nd_path n) (nd_id e) (nd_id n))
         else first_conflict g removed ns
     | None \<Rightarrow> first_conflict g removed ns)"

definition validate_transaction :: "BytecodeGraph \<Rightarrow> BytecodeGraphTransaction \<Rightarrow> BytecodeGraphTransactionError option" where
  "validate_transaction g tx =
    (let by_id = sort_key nd_id (tx_upserted_modules tx);
         by_path = sort_key (\<lambda>n. (nd_path n, nd_id n)) (tx_upserted_modules tx);
         removed = set (tx_removed_modules tx) in
     case first_repeat id (sort (tx_removed_modules tx)) of
       Some (i, _) \<Rightarrow> Some (DuplicateRemovedModule i)
     | None \<Rightarrow>
         (case first_repeat nd_id by_id of
            Some (n, _) \<Rightarrow> Some (DuplicateUpsertedModule (nd_id n))
          | None \<Rightarrow>
              (case find (\<lambda>n. nd_id n \<in> removed) by_id of
                 Some n \<Rightarrow> Some (ConflictingModuleOperations (nd_id n))
               | None \<Rightarrow>
                   (case first_repeat nd_path by_path of
                      Some (n, n') \<Rightarrow> Some (DuplicateUpsertedModulePath (nd_path n) (nd_id n) (nd_id n'))
                    | None \<Rightarrow> first_conflict g removed by_path))))"

definition remove_module :: "BytecodeGraph \<Rightarrow> ModuleId \<Rightarrow> BytecodeGraph" where
  "remove_module g i =
    (case btree_get (gr_modules g) i of
       None \<Rightarrow> g
     | Some n \<Rightarrow> g\<lparr>gr_modules := btree_remove i (gr_modules g), gr_ids_by_path := (gr_ids_by_path g)(nd_path n := None)\<rparr>)"

definition upsert_module :: "BytecodeGraph \<Rightarrow> BytecodeNode \<Rightarrow> BytecodeGraph" where
  "upsert_module g n =
    (let ids = (case btree_get (gr_modules g) (nd_id n) of
                  None \<Rightarrow> gr_ids_by_path g | Some previous \<Rightarrow> (gr_ids_by_path g)(nd_path previous := None)) in
     g\<lparr>gr_modules := btree_insert (nd_id n) n (gr_modules g), gr_ids_by_path := ids(nd_path n \<mapsto> nd_id n)\<rparr>)"

definition apply_transaction :: "BytecodeGraph \<Rightarrow> BytecodeGraphTransaction \<Rightarrow> BytecodeGraphTransactionError + BytecodeGraph" where
  "apply_transaction g tx =
    (if tx_base_version tx \<noteq> gr_version g then Inl (StaleBaseVersion (tx_base_version tx) (gr_version g))
     else
       case validate_transaction g tx of
         Some e \<Rightarrow> Inl e
       | None \<Rightarrow>
           (let g1 = foldl upsert_module (foldl remove_module g (tx_removed_modules tx)) (tx_upserted_modules tx) in
            case rebuild_transient_indexes (g1\<lparr>gr_edges := sort_key edge_key (tx_edges tx)\<rparr>) of
              (Inl errors, _) \<Rightarrow> Inl (InvalidGraph errors)
            | (Inr _, g2) \<Rightarrow> Inr (g2\<lparr>gr_version := gr_version g2 + 1\<rparr>)))"

definition from_modules_with_format_version ::
  "Version \<Rightarrow> u64 \<Rightarrow> BytecodeNode list \<Rightarrow> ImportEdge list \<Rightarrow> BytecodeGraphTransactionError + BytecodeGraph" where
  "from_modules_with_format_version v revision modules edges =
    apply_transaction (with_format_version v)
      \<lparr>tx_base_version = 0, tx_semantic_revision = revision, tx_upserted_modules = modules, tx_removed_modules = [], tx_edges = edges\<rparr>"

definition from_modules :: "u64 \<Rightarrow> BytecodeNode list \<Rightarrow> ImportEdge list \<Rightarrow> BytecodeGraphTransactionError + BytecodeGraph" where
  "from_modules revision modules edges = from_modules_with_format_version CURRENT_BYTECODE_FORMAT_VERSION revision modules edges"

section \<open>Linking\<close>

datatype ResolvedImportKind = ResolvedFunction FuncIdx | ResolvedGlobal GlobalIdx

record ResolvedImport =
  ri_slot :: nat
  ri_module_id :: ModuleId
  ri_kind :: ResolvedImportKind

datatype GraphResolutionError =
    ModuleNotLoaded ModuleId
  | ImportModuleNotLoaded ModuleId utext
  | ImportSymbolNotExported ModuleId utext utext
  | InitializationCycle ModuleId

text \<open>
  The lookup of the target module is an \<open>expect\<close> in the source; it is the outcome \<open>Panic\<close>.
\<close>

definition resolve_import :: "BytecodeGraph \<Rightarrow> ModuleId \<Rightarrow> nat \<Rightarrow> ImportSlot \<Rightarrow> (GraphResolutionError, ResolvedImport) outcome" where
  "resolve_import g i slot im =
    (case Option.bind (new_module_path (im_module_name im)) (gr_ids_by_path g) of
       None \<Rightarrow> Err (ImportModuleNotLoaded i (im_module_name im))
     | Some j \<Rightarrow>
         (case btree_get (gr_modules g) j of
            None \<Rightarrow> Panic
          | Some target \<Rightarrow>
              (case Option.bind (Option.bind (gr_export_indexes g j) (\<lambda>exports. exports (im_symbol_name im)))
                      (\<lambda>index. list_get (bm_exports (nd_module target)) index) of
                 None \<Rightarrow> Err (ImportSymbolNotExported i (im_module_name im) (im_symbol_name im))
               | Some e \<Rightarrow>
                   Ok \<lparr>ri_slot = slot, ri_module_id = j,
                       ri_kind = (case ex_kind e of ExportFunction idx \<Rightarrow> ResolvedFunction idx | ExportGlobal idx \<Rightarrow> ResolvedGlobal idx)\<rparr>)))"

fun resolve_slots :: "BytecodeGraph \<Rightarrow> ModuleId \<Rightarrow> nat \<Rightarrow> ImportSlot list \<Rightarrow> (GraphResolutionError, ResolvedImport list) outcome" where
  "resolve_slots g i slot [] = Ok []"
| "resolve_slots g i slot (im # ims) =
    bind_outcome (resolve_import g i slot im) (\<lambda>r. bind_outcome (resolve_slots g i (slot + 1) ims) (\<lambda>rs. Ok (r # rs)))"

definition resolve_imports :: "BytecodeGraph \<Rightarrow> ModuleId \<Rightarrow> (GraphResolutionError, ResolvedImport list) outcome" where
  "resolve_imports g i =
    (case btree_get (gr_modules g) i of
       None \<Rightarrow> Err (ModuleNotLoaded i)
     | Some n \<Rightarrow> resolve_slots g i 0 (bm_imports (nd_module n)))"

text \<open>
  \<open>collect_initialization_order\<close> for the modules of a work list.  The set \<open>visiting\<close> is passed down: the source
  inserts a module before it visits its imports and removes it afterwards.
\<close>

function initialize_all ::
  "BytecodeGraph \<Rightarrow> ModuleId set \<Rightarrow> ModuleId list \<Rightarrow> ModuleId list \<times> ModuleId set \<Rightarrow>
   (GraphResolutionError, ModuleId list \<times> ModuleId set) outcome" where
  "initialize_all g visiting [] st = Ok st"
| "initialize_all g visiting (i # is) st =
    (if i \<in> snd st then initialize_all g visiting is st
     else if i \<in> visiting then Err (InitializationCycle i)
     else
       case resolve_imports g i of
         Err e \<Rightarrow> Err e
       | Panic \<Rightarrow> Panic
       | Ok imports \<Rightarrow>
           (case initialize_all g (insert i visiting) (map ri_module_id imports) st of
              Err e \<Rightarrow> Err e
            | Panic \<Rightarrow> Panic
            | Ok (order, visited) \<Rightarrow> initialize_all g visiting is (order @ [i], insert i visited)))"
  by pat_completeness auto
termination
proof (relation "measures [\<lambda>(g, visiting, is, st). card (- visiting), \<lambda>(g, visiting, is, st). length is]")
  fix g :: BytecodeGraph and visiting :: "ModuleId set" and i and "is" :: "ModuleId list" and st :: "ModuleId list \<times> ModuleId set" and links :: "ResolvedImport list"
  assume "i \<notin> visiting"
  then have "- insert i visiting \<subset> - visiting" by auto
  then have "card (- insert i visiting) < card (- visiting)" by (rule psubset_card_mono [rotated]) simp
  then show "((g, insert i visiting, map ri_module_id links, st), (g, visiting, i # is, st))
      \<in> measures [\<lambda>(g, visiting, is, st). card (- visiting), \<lambda>(g, visiting, is, st). length is]" by simp
qed auto

definition initialization_order :: "BytecodeGraph \<Rightarrow> ModuleId \<Rightarrow> (GraphResolutionError, ModuleId list) outcome" where
  "initialization_order g i = bind_outcome (initialize_all g {} [i] ([], {})) (\<lambda>st. Ok (fst st))"

section \<open>Dependents\<close>

definition deps_of :: "BytecodeGraph \<Rightarrow> ModuleId \<Rightarrow> ModuleId list" where
  "deps_of g i = (case gr_dependencies g i of None \<Rightarrow> [] | Some js \<Rightarrow> js)"

definition direct_dependents :: "BytecodeGraph \<Rightarrow> ModuleId \<Rightarrow> ModuleId list" where
  "direct_dependents g i = (case gr_dependents g i of None \<Rightarrow> [] | Some js \<Rightarrow> js)"

text \<open>The loop of \<open>collect_dependents\<close> over a list of dependents.\<close>

function collect_dependents :: "BytecodeGraph \<Rightarrow> ModuleId list \<Rightarrow> ModuleId list \<times> ModuleId set \<Rightarrow> ModuleId list \<times> ModuleId set" where
  "collect_dependents g [] st = st"
| "collect_dependents g (j # js) (out, visited) =
    (if j \<in> visited then collect_dependents g js (out, visited)
     else collect_dependents g js (collect_dependents g (direct_dependents g j) (out @ [j], insert j visited)))"
  by pat_completeness auto
termination
proof -
  let ?R = "measures [\<lambda>(g, js, st). card (- snd st), \<lambda>(g, js, st :: ModuleId list \<times> ModuleId set). length js]"
  have grows: "collect_dependents_dom (g, js, st) \<Longrightarrow> snd st \<subseteq> snd (collect_dependents g js st)" for g js st
    by (induction g js st rule: collect_dependents.pinduct) (auto simp: collect_dependents.psimps)
  have less: "card (- V) < card (- W)" if "insert j W \<subseteq> V" "j \<notin> W" for j :: ModuleId and V W
  proof -
    have "- V \<subset> - W" using that by auto
    then show ?thesis by (rule psubset_card_mono [rotated]) simp
  qed
  show ?thesis
  proof (relation ?R)
    fix g :: BytecodeGraph and j and js :: "ModuleId list" and out :: "ModuleId list" and visited :: "ModuleId set"
    assume new: "j \<notin> visited"
    show "((g, direct_dependents g j, out @ [j], insert j visited), (g, j # js, out, visited)) \<in> ?R"
      using less [OF order_refl new] by simp
    assume "collect_dependents_dom (g, direct_dependents g j, out @ [j], insert j visited)"
    from grows [OF this] have "insert j visited \<subseteq> snd (collect_dependents g (direct_dependents g j) (out @ [j], insert j visited))"
      by simp
    from less [OF this new]
    show "((g, js, collect_dependents g (direct_dependents g j) (out @ [j], insert j visited)), (g, j # js, out, visited)) \<in> ?R"
      by simp
  qed auto
qed

definition dependents_of :: "BytecodeGraph \<Rightarrow> ModuleId \<Rightarrow> ModuleId list" where
  "dependents_of g i = fst (collect_dependents g (direct_dependents g i) ([], {}))"

end
