(* ===== verification/Vm_Machine.thy ===== *)
theory Vm_Machine
  imports Vm_Thread Bytecode_Graph
begin

text \<open>
  The virtual machine and its handlers for data movement, operators and jumps: \<open>execute_data_instruction\<close>
  (\<^verbatim>\<open>galfus-vm/src/runtime/data.rs\<close>), \<open>execute_operator_instruction\<close> (\<^verbatim>\<open>runtime/operators.rs\<close>) and the jumps of
  \<open>execute_control_instruction\<close> (\<^verbatim>\<open>runtime/control.rs\<close>), over the machine of \<^verbatim>\<open>galfus-vm/src/runtime.rs\<close>.

  A handler returns an outcome and the thread it leaves.  An unchecked access outside the instruction or register vector,
  which Rust leaves undefined, is \<open>Panic\<close>.  The provider handles of the context belong to the host and are left out.
\<close>

section \<open>The machine\<close>

record VirtualMachine =
  vm_graph :: BytecodeGraph
  vm_fast_modules :: "(ModuleId \<times> BytecodeModule) list"
  vm_uint8_type_indexes :: "(ModuleId \<times> TypeIdx option) list"

text \<open>The position of the first element that satisfies a predicate.\<close>

fun position :: "('a \<Rightarrow> bool) \<Rightarrow> 'a list \<Rightarrow> nat option" where
  "position p [] = None"
| "position p (x # xs) = (if p x then Some 0 else map_option Suc (position p xs))"

definition new_vm :: "BytecodeGraph \<Rightarrow> VirtualMachine" where
  "new_vm g =
    \<lparr>vm_graph = g,
     vm_fast_modules = sort_key fst (map (\<lambda>n. (nd_id n, nd_module n)) (graph_modules g)),
     vm_uint8_type_indexes =
       sort_key fst (map (\<lambda>n. (nd_id n, map_option of_nat (position (\<lambda>ty. ty = TyUint8) (bm_types (nd_module n))))) (graph_modules g))\<rparr>"

text \<open>
  What a suspended thread asks for.  \<open>Suspend\<close> carries the effect and the destination and expected result of the new
  continuation; its flag is allocated when it is made, and its origin is set by the scheduler.
\<close>

datatype VmEffect =
    FutureWait FutureId ModuleId TypeIdx
  | CreateFutureEffect ModuleId ModuleId FuncIdx "VmValue list" "TypeIdx list" TypeIdx  \<comment> \<open>module_id, target_module_id, func_idx, args, arg_types, return_type\<close>
  | CreateAwaitFutureEffect ModuleId utext "VmValue list" "TypeIdx list" TypeIdx
  | InternalThreadCall ModuleId utext "VmValue list" "TypeIdx list" TypeIdx
  | CreateIndirectFutureEffect ModuleId VmValue "VmValue list" "TypeIdx list" TypeIdx
  | FuturesDropped "FutureId list"
  | AdapterHandleDropped BindingId OpaqueTypeId HandleId
  | FutureWaitAll "FutureId list" ModuleId TypeIdx
  | FutureWaitRace "FutureId list" ModuleId TypeIdx

datatype VmStep =
    Continue
  | Return VmValue ModuleId TypeIdx
  | Suspend VmEffect "Reg option" "(ModuleId \<times> TypeIdx) option"

type_synonym step_result = "(VmError, VmStep) outcome \<times> VmThreadState"

text \<open>Both vectors are sorted by module and searched by bisection; the identifiers in them are distinct.\<close>

definition get_module :: "VirtualMachine \<Rightarrow> ModuleId \<Rightarrow> VmError + BytecodeModule" where
  "get_module vm i = (case map_of (vm_fast_modules vm) i of Some m \<Rightarrow> Inr m | None \<Rightarrow> Inl (ModuleNotFound i))"

definition get_function :: "VirtualMachine \<Rightarrow> ModuleId \<Rightarrow> FuncIdx \<Rightarrow> VmError + BytecodeFunction" where
  "get_function vm i idx =
    (case get_module vm i of
       Inl e \<Rightarrow> Inl e
     | Inr m \<Rightarrow> (case list_get (bm_functions m) (unat idx) of Some f \<Rightarrow> Inr f | None \<Rightarrow> Inl (FunctionOutOfBounds idx)))"

definition current_frame :: "VmThreadState \<Rightarrow> VmError + CallFrame" where
  "current_frame t = (if th_call_stack t = [] then Inl EmptyCallStack else Inr (last (th_call_stack t)))"

definition current_image :: "VirtualMachine \<Rightarrow> VmThreadState \<Rightarrow> VmError + BytecodeModule" where
  "current_image vm t = (case current_frame t of Inl e \<Rightarrow> Inl e | Inr f \<Rightarrow> get_module vm (fr_module_id f))"

definition uint8_type_idx :: "VirtualMachine \<Rightarrow> VmThreadState \<Rightarrow> VmError + TypeIdx" where
  "uint8_type_idx vm t =
    (case current_frame t of
       Inl e \<Rightarrow> Inl e
     | Inr f \<Rightarrow>
         (case map_of (vm_uint8_type_indexes vm) (fr_module_id f) of
            Some (Some ty) \<Rightarrow> Inr ty
          | _ \<Rightarrow> Inl InvalidModule))"

definition put_reg :: "HostEnv \<Rightarrow> VmThreadState \<Rightarrow> Reg \<Rightarrow> VmValue \<Rightarrow> step_result" where
  "put_reg env t r v = (case write_reg env t r v of None \<Rightarrow> (Panic, t) | Some t' \<Rightarrow> (Ok Continue, t'))"

section \<open>Data movement\<close>

definition byte_array :: "ModuleId \<Rightarrow> TypeIdx \<Rightarrow> u8 list \<Rightarrow> HeapObject" where
  "byte_array m ty bs = ArrayObj m ty (map Uint8 bs) (of_nat (length bs))"

definition alloc_bytes :: "HostEnv \<Rightarrow> VirtualMachine \<Rightarrow> VmThreadState \<Rightarrow> u8 list \<Rightarrow> (VmError, VmValue) outcome \<times> VmThreadState" where
  "alloc_bytes env vm t bs =
    (case uint8_type_idx vm t of
       Inl e \<Rightarrow> (Err e, t)
     | Inr ty \<Rightarrow>
         (case alloc env (th_heap t) (byte_array (fr_module_id (last (th_call_stack t))) ty bs) of
            None \<Rightarrow> (Panic, t)
          | Some (Inl e, h) \<Rightarrow> (Err e, t\<lparr>th_heap := h\<rparr>)
          | Some (Inr r, h) \<Rightarrow> (Ok (Object r), t\<lparr>th_heap := h\<rparr>)))"

fun constant_value :: "HostEnv \<Rightarrow> VirtualMachine \<Rightarrow> VmThreadState \<Rightarrow> Constant \<Rightarrow> (VmError, VmValue) outcome \<times> VmThreadState" where
  "constant_value env vm t (CBool b) = (Ok (Bool b), t)"
| "constant_value env vm t (CInt8 i) = (Ok (Int8 i), t)"
| "constant_value env vm t (CInt16 i) = (Ok (Int16 i), t)"
| "constant_value env vm t (CInt32 i) = (Ok (Int32 i), t)"
| "constant_value env vm t (CInt64 i) = (Ok (Int64 i), t)"
| "constant_value env vm t (CUint8 i) = (Ok (Uint8 i), t)"
| "constant_value env vm t (CUint16 i) = (Ok (Uint16 i), t)"
| "constant_value env vm t (CUint32 i) = (Ok (Uint32 i), t)"
| "constant_value env vm t (CUint64 i) = (Ok (Uint64 i), t)"
| "constant_value env vm t (CFloat32 f) = (Ok (Float32 (normalize_f32 f)), t)"
| "constant_value env vm t (CFloat64 f) = (Ok (Float64 (normalize_f64 f)), t)"
| "constant_value env vm t (CString s) = alloc_bytes env vm t (map of_nat (as_utf8 s))"
| "constant_value env vm t (CBytes b) = alloc_bytes env vm t b"
| "constant_value env vm t (CFunction func_idx) =
    (case current_frame t of Inl e \<Rightarrow> (Err e, t) | Inr f \<Rightarrow> (Ok (Function (fr_module_id f) func_idx), t))"

definition read_global :: "VmThreadState \<Rightarrow> ModuleId \<Rightarrow> GlobalIdx \<Rightarrow> VmValue" where
  "read_global t m g =
    (case th_module_states t m of
       None \<Rightarrow> Null
     | Some s \<Rightarrow> (case list_get (ms_globals s) (unat g) of None \<Rightarrow> Null | Some v \<Rightarrow> v))"

definition store_global :: "HostEnv \<Rightarrow> VmThreadState \<Rightarrow> ModuleId \<Rightarrow> nat \<Rightarrow> VmValue \<Rightarrow> VmThreadState" where
  "store_global env t m idx val =
    (let s = module_state_or_default t m; gs = ms_globals s;
         gs1 = (if idx \<ge> length gs then gs @ replicate (idx + 1 - length gs) Null else gs) in
     t\<lparr>th_module_states := (th_module_states t)(m \<mapsto> s\<lparr>ms_globals := gs1[idx := val]\<rparr>),
       th_heap := release_anchor_val env (gs1 ! idx) (th_heap t)\<rparr>)"

fun execute_data_instruction :: "HostEnv \<Rightarrow> VirtualMachine \<Rightarrow> VmThreadState \<Rightarrow> Instruction \<Rightarrow> step_result" where
  "execute_data_instruction env vm t (LoadConst dest const_idx) =
    (case current_image vm t of
       Inl e \<Rightarrow> (Err e, t)
     | Inr img \<Rightarrow>
         (case list_get (bm_constants img) (unat const_idx) of
            None \<Rightarrow> (Err (ConstantOutOfBounds const_idx), t)
          | Some constant \<Rightarrow>
              (case constant_value env vm t constant of
                 (Ok v, t1) \<Rightarrow> put_reg env t1 dest v
               | (Err e, t1) \<Rightarrow> (Err e, t1)
               | (Panic, t1) \<Rightarrow> (Panic, t1))))"
| "execute_data_instruction env vm t (Move dest src) =
    (case read_reg t src of None \<Rightarrow> (Panic, t) | Some v \<Rightarrow> put_reg env (retain_anchor_val v t) dest v)"
| "execute_data_instruction env vm t (LoadGlobal dest m g) =
    (case get_module vm m of
       Inl e \<Rightarrow> (Err e, t)
     | Inr img \<Rightarrow>
         if unat g \<ge> unat (bm_global_count img) then (Panic, t)
         else let v = read_global t m g in put_reg env (retain_anchor_val v t) dest v)"
| "execute_data_instruction env vm t (StoreGlobal m g src) =
    (case get_module vm m of
       Inl e \<Rightarrow> (Err e, t)
     | Inr img \<Rightarrow>
         if unat g \<ge> unat (bm_global_count img) then (Panic, t)
         else
           case read_reg t src of
             None \<Rightarrow> (Panic, t)
           | Some v \<Rightarrow> (Ok Continue, store_global env (retain_anchor_val v t) m (unat g) v))"
| "execute_data_instruction env vm t (LoadNull dest) = put_reg env t dest Null"
| "execute_data_instruction env vm t _ = (Panic, t)"

section \<open>Operators\<close>

definition finish_operator :: "HostEnv \<Rightarrow> VmThreadState \<Rightarrow> Reg \<Rightarrow> (VmError, VmValue) outcome \<Rightarrow> step_result" where
  "finish_operator env t dest res =
    (case res of Ok v \<Rightarrow> put_reg env t dest v | Err e \<Rightarrow> (Err e, t) | Panic \<Rightarrow> (Panic, t))"

fun execute_operator_instruction :: "HostEnv \<Rightarrow> FloatEnv \<Rightarrow> VmThreadState \<Rightarrow> Instruction \<Rightarrow> step_result" where
  "execute_operator_instruction env fenv t (BinaryImmediate dest lhs operation rhs) =
    (case read_reg t lhs of
       None \<Rightarrow> (Panic, t) | Some l \<Rightarrow> finish_operator env t dest (immediate_binary_value l rhs operation))"
| "execute_operator_instruction env fenv t (Binary operation dest lhs rhs) =
    (case (read_reg t lhs, read_reg t rhs) of
       (Some l, Some r) \<Rightarrow> finish_operator env t dest (binary_values fenv operation l r)
     | _ \<Rightarrow> (Panic, t))"
| "execute_operator_instruction env fenv t (Unary operation dest src) =
    (case read_reg t src of None \<Rightarrow> (Panic, t) | Some x \<Rightarrow> finish_operator env t dest (unary_value operation x))"
| "execute_operator_instruction env fenv t (Fallback dest src fallback) =
    (case (read_reg t src, read_reg t fallback) of
       (Some v, Some f) \<Rightarrow> put_reg env t dest (if v = Null then f else v)
     | _ \<Rightarrow> (Panic, t))"
| "execute_operator_instruction env fenv t _ = (Panic, t)"

section \<open>Jumps\<close>

text \<open>\<open>(pc as i32 + offset) as usize\<close>: 32-bit addition, then sign extension.\<close>

definition jump_target :: "usize \<Rightarrow> u32 \<Rightarrow> usize" where
  "jump_target pc offset = scast (ucast pc + offset :: u32)"

definition set_pc :: "VmThreadState \<Rightarrow> usize \<Rightarrow> VmThreadState" where
  "set_pc t pc = t\<lparr>th_call_stack := butlast (th_call_stack t) @ [last (th_call_stack t)\<lparr>fr_pc := pc\<rparr>]\<rparr>"

definition jump :: "VmThreadState \<Rightarrow> u32 \<Rightarrow> step_result" where
  "jump t offset =
    (case current_frame t of
       Inl e \<Rightarrow> (Err e, t) | Inr f \<Rightarrow> (Ok Continue, set_pc t (jump_target (fr_pc f) offset)))"

fun execute_jump_instruction :: "VmThreadState \<Rightarrow> Instruction \<Rightarrow> step_result" where
  "execute_jump_instruction t (Jump offset) = jump t offset"
| "execute_jump_instruction t (JumpTrue cond offset) =
    (case read_reg t cond of
       None \<Rightarrow> (Panic, t)
     | Some (Bool b) \<Rightarrow> if b then jump t offset else (Ok Continue, t)
     | Some x \<Rightarrow> (Err (TypeMismatch ''boolean conditional'' (FoundValue x)), t))"
| "execute_jump_instruction t (JumpFalse cond offset) =
    (case read_reg t cond of
       None \<Rightarrow> (Panic, t)
     | Some (Bool b) \<Rightarrow> if \<not> b then jump t offset else (Ok Continue, t)
     | Some x \<Rightarrow> (Err (TypeMismatch ''boolean conditional'' (FoundValue x)), t))"
| "execute_jump_instruction t (JumpNull val offset) =
    (case read_reg t val of
       None \<Rightarrow> (Panic, t) | Some v \<Rightarrow> if v = Null then jump t offset else (Ok Continue, t))"
| "execute_jump_instruction t _ = (Panic, t)"

end
