(* ===== verification/Vm_Types.thy ===== *)
theory Vm_Types
  imports Vm_Machine
begin

text \<open>
  Run-time types: array indexes and the type tests of \<^verbatim>\<open>galfus-vm/src/runtime/heap.rs\<close>, casts
  (\<^verbatim>\<open>runtime/casts.rs\<close>) and the test of resumed values, \<open>value_matches_type\<close> of \<^verbatim>\<open>galfus-vm/src/runtime.rs\<close>.

  Two of the tests recurse through values and types without a record of what they have visited; on cyclic data they
  exhaust the native stack.  Their first argument is the depth that is left, and \<open>None\<close> is the exhausted stack.  The
  comparison of types keeps the pairs it has seen and always ends; the last theorem says what it decides.
\<close>

section \<open>Array indexes\<close>

fun to_raw_array_index :: "VmValue \<Rightarrow> VmError + int" where
  "to_raw_array_index (Int8 x) = Inr (sint x)"
| "to_raw_array_index (Int16 x) = Inr (sint x)"
| "to_raw_array_index (Int32 x) = Inr (sint x)"
| "to_raw_array_index (Int64 x) = Inr (sint x)"
| "to_raw_array_index (Uint8 x) = Inr (uint x)"
| "to_raw_array_index (Uint16 x) = Inr (uint x)"
| "to_raw_array_index (Uint32 x) = Inr (uint x)"
| "to_raw_array_index (Uint64 x) = Inr (uint x)"
| "to_raw_array_index x = Inl (TypeMismatch ''integer array index'' (FoundValue x))"

definition resolve_raw_array_index :: "int \<Rightarrow> nat \<Rightarrow> nat option" where
  "resolve_raw_array_index raw_index len =
    (let resolved = (if raw_index < 0 then int len + raw_index else raw_index) in
     if resolved < 0 \<or> resolved \<ge> int len then None else Some (nat resolved))"

lemma resolve_raw_array_index_bound: "resolve_raw_array_index raw len = Some i \<Longrightarrow> i < len"
  by (auto simp: resolve_raw_array_index_def Let_def nat_less_iff split: if_splits)

section \<open>Comparison of types\<close>

definition module_type :: "VirtualMachine \<Rightarrow> ModuleId \<Rightarrow> TypeIdx \<Rightarrow> BytecodeType option" where
  "module_type vm m ty = (case get_module vm m of Inl _ \<Rightarrow> None | Inr img \<Rightarrow> list_get (bm_types img) (unat ty))"

definition module_choice :: "VirtualMachine \<Rightarrow> ModuleId \<Rightarrow> ChoiceLayoutIdx \<Rightarrow> ChoiceLayout option" where
  "module_choice vm m idx = (case get_module vm m of Inl _ \<Rightarrow> None | Inr img \<Rightarrow> list_get (bm_choice_layouts img) (unat idx))"

definition choice_layout_matches :: "VirtualMachine \<Rightarrow> ModuleId \<Rightarrow> ChoiceLayoutIdx \<Rightarrow> ModuleId \<Rightarrow> ChoiceLayoutIdx \<Rightarrow> bool" where
  "choice_layout_matches vm actual_module actual_layout expected_module expected_layout =
    (if actual_module = expected_module \<and> actual_layout = expected_layout then True
     else
       case (module_choice vm actual_module actual_layout, module_choice vm expected_module expected_layout) of
         (Some l, Some l') \<Rightarrow> cl_name l = cl_name l'
       | _ \<Rightarrow> False)"

text \<open>The match on the two types: decided at once, or by the comparison of further pairs.\<close>

definition type_goal :: "VirtualMachine \<Rightarrow> ModuleId \<Rightarrow> TypeIdx \<Rightarrow> ModuleId \<Rightarrow> TypeIdx \<Rightarrow> bool + (TypeIdx \<times> TypeIdx) list" where
  "type_goal vm m a m' e =
    (case (module_type vm m a, module_type vm m' e) of
       (Some actual_ty, Some expected_ty) \<Rightarrow>
         (case expected_ty of
            TyNullable expected_inner \<Rightarrow> Inr [(a, expected_inner)]
          | _ \<Rightarrow>
              (case (actual_ty, expected_ty) of
                 (TyArray actual_el, TyArray expected_el) \<Rightarrow> Inr [(actual_el, expected_el)]
               | (TyTuple as, TyTuple es) \<Rightarrow> if length as = length es then Inr (zip as es) else Inl False
               | (TyChoice l, TyChoice l') \<Rightarrow> Inl (choice_layout_matches vm m l m' l')
               | _ \<Rightarrow> Inl (actual_ty = expected_ty)))
     | _ \<Rightarrow> Inl False)"

type_synonym type_pair = "ModuleId \<times> TypeIdx \<times> ModuleId \<times> TypeIdx"

text \<open>
  \<open>type_idx_matches_inner\<close> for a list of pairs, in the order of \<open>Iterator::all\<close>; the set of pairs seen so far is threaded
  through all calls.
\<close>

function type_idx_matches_inner ::
  "VirtualMachine \<Rightarrow> ModuleId \<Rightarrow> ModuleId \<Rightarrow> (TypeIdx \<times> TypeIdx) list \<Rightarrow> type_pair set \<Rightarrow> bool \<times> type_pair set" where
  "type_idx_matches_inner vm m m' [] seen = (True, seen)"
| "type_idx_matches_inner vm m m' ((a, e) # ps) seen =
    (if m = m' \<and> a = e then type_idx_matches_inner vm m m' ps seen
     else if (m, a, m', e) \<in> seen then type_idx_matches_inner vm m m' ps seen
     else
       case type_goal vm m a m' e of
         Inl b \<Rightarrow> if b then type_idx_matches_inner vm m m' ps (insert (m, a, m', e) seen) else (False, insert (m, a, m', e) seen)
       | Inr goals \<Rightarrow>
           (case type_idx_matches_inner vm m m' goals (insert (m, a, m', e) seen) of
              (b, seen') \<Rightarrow> if b then type_idx_matches_inner vm m m' ps seen' else (False, seen')))"
  by pat_completeness auto
termination
proof -
  let ?R = "measures [\<lambda>(vm, m, m', ps, seen). card (- seen), \<lambda>(vm :: VirtualMachine, m :: ModuleId, m' :: ModuleId, ps, seen :: type_pair set). length ps]"
  have grows: "type_idx_matches_inner_dom (vm, m, m', ps, seen) \<Longrightarrow> seen \<subseteq> snd (type_idx_matches_inner vm m m' ps seen)" for vm m m' ps seen
  proof (induction vm m m' ps seen rule: type_idx_matches_inner.pinduct)
    case (2 vm m m' a e ps seen)
    note unfold = type_idx_matches_inner.psimps(2) [OF "2.hyps"]
    show ?case
    proof (cases "m = m' \<and> a = e \<or> (m, a, m', e) \<in> seen")
      case True
      then show ?thesis using "2.IH"(1,2) by (auto simp: unfold)
    next
      case False
      show ?thesis
      proof (cases "type_goal vm m a m' e")
        case (Inl b)
        then show ?thesis using "2.IH"(3) [OF _ _ Inl] False by (cases b) (auto simp: unfold)
      next
        case (Inr goals)
        obtain b s where inner: "type_idx_matches_inner vm m m' goals (insert (m, a, m', e) seen) = (b, s)" by fastforce
        have "seen \<subseteq> s" using "2.IH"(4) [OF _ _ Inr] False inner by auto
        moreover have "s \<subseteq> snd (type_idx_matches_inner vm m m' ps s)" if b
          using "2.IH"(5) [OF _ _ Inr inner [symmetric] that] False by auto
        ultimately show ?thesis using False Inr inner by (cases b) (auto simp: unfold)
      qed
    qed
  qed (simp add: type_idx_matches_inner.psimps)
  have less: "card (- V) < card (- W)" if "insert j W \<subseteq> V" "j \<notin> W" for j :: type_pair and V W
  proof -
    have "- V \<subset> - W" using that by auto
    then show ?thesis by (rule psubset_card_mono [rotated]) simp
  qed
  show ?thesis
  proof (relation ?R, goal_cases)
    case (4 vm m m' a e ps seen b)
    then show ?case using less [OF order_refl] by simp
  next
    case (5 vm m m' a e ps seen goals)
    then show ?case using less [OF order_refl] by simp
  next
    case (6 vm m m' a e ps seen goals b seen')
    then have "insert (m, a, m', e) seen \<subseteq> seen'" using grows by (metis snd_conv)
    then have "card (- seen') < card (- seen)" using 6(2) by (rule less)
    then show ?case by simp
  qed auto
qed

definition type_idx_matches :: "VirtualMachine \<Rightarrow> ModuleId \<Rightarrow> TypeIdx \<Rightarrow> ModuleId \<Rightarrow> TypeIdx \<Rightarrow> bool" where
  "type_idx_matches vm actual_module actual expected_module expected =
    fst (type_idx_matches_inner vm actual_module expected_module [(actual, expected)] {})"

section \<open>Type tests\<close>

text \<open>\<open>Iterator::all\<close> with a test that may exhaust the stack.\<close>

fun all_within :: "('a \<Rightarrow> bool option) \<Rightarrow> 'a list \<Rightarrow> bool option" where
  "all_within p [] = Some True"
| "all_within p (x # xs) = (case p x of None \<Rightarrow> None | Some False \<Rightarrow> Some False | Some True \<Rightarrow> all_within p xs)"

text \<open>The primitive values and their types.\<close>

definition primitive_matches :: "VmValue \<Rightarrow> BytecodeType \<Rightarrow> bool" where
  "primitive_matches v ty =
    (case v of
       Null \<Rightarrow> ty = TyNull
     | Bool _ \<Rightarrow> ty = TyBool
     | Int8 _ \<Rightarrow> ty = TyInt8
     | Int16 _ \<Rightarrow> ty = TyInt16
     | Int32 _ \<Rightarrow> ty = TyInt32
     | Int64 _ \<Rightarrow> ty = TyInt64
     | Uint8 _ \<Rightarrow> ty = TyUint8
     | Uint16 _ \<Rightarrow> ty = TyUint16
     | Uint32 _ \<Rightarrow> ty = TyUint32
     | Uint64 _ \<Rightarrow> ty = TyUint64
     | Float32 _ \<Rightarrow> ty = TyFloat32
     | Float64 _ \<Rightarrow> ty = TyFloat64
     | _ \<Rightarrow> False)"

text \<open>The name of a variant of a choice.\<close>

definition variant_name :: "ChoiceLayout \<Rightarrow> u16 \<Rightarrow> utext option" where
  "variant_name l variant = map_option cv_name (list_get (cl_variants l) (unat variant))"

definition variant_matches :: "VirtualMachine \<Rightarrow> ModuleId \<Rightarrow> ChoiceLayoutIdx \<Rightarrow> u16 \<Rightarrow> ModuleId \<Rightarrow> ChoiceLayoutIdx \<Rightarrow> u16 \<Rightarrow> bool" where
  "variant_matches vm m layout variant m' layout' variant' =
    (if m = m' \<and> layout = layout' \<and> variant = variant' then True
     else
       case (module_choice vm m layout, module_choice vm m' layout') of
         (Some l, Some l') \<Rightarrow> cl_name l = cl_name l' \<and> variant_name l variant = variant_name l' variant'
       | _ \<Rightarrow> False)"

text \<open>
  \<open>check_value_type\<close>.  The call stack is not empty when \<open>current_image\<close> succeeds, so the \<open>unwrap\<close> on its last frame cannot fail.
\<close>

primrec check_value_type :: "nat \<Rightarrow> VirtualMachine \<Rightarrow> VmThreadState \<Rightarrow> VmValue \<Rightarrow> TypeIdx \<Rightarrow> bool option" where
  "check_value_type 0 vm t val expected_ty = None"
| "check_value_type (Suc n) vm t val expected_ty =
    (case current_image vm t of
       Inl _ \<Rightarrow> Some False
     | Inr img \<Rightarrow>
         (case list_get (bm_types img) (unat expected_ty) of
            None \<Rightarrow> Some False
          | Some ty \<Rightarrow>
              (let here = fr_module_id (last (th_call_stack t)) in
               if ty = TyAny \<or> primitive_matches val ty then Some True
               else
                 case ty of
                   TyNullable inner \<Rightarrow> if val = Null then Some True else check_value_type n vm t val inner
                 | _ \<Rightarrow>
                     (case val of
                        Object r \<Rightarrow>
                          (case get_object (th_heap t) r of
                             Inl _ \<Rightarrow> Some False
                           | Inr obj \<Rightarrow>
                               (case (obj, ty) of
                                  (StructObj _ layout _ _, TyStruct expected_layout) \<Rightarrow> Some (layout = expected_layout)
                                | (ArrayObj m el _ _, TyArray expected_el) \<Rightarrow> Some (type_idx_matches vm m el here expected_el)
                                | (TupleObj elements _, TyTuple expected_tys) \<Rightarrow>
                                    if length elements = length expected_tys
                                    then all_within (\<lambda>(v, ty'). check_value_type n vm t v ty') (zip elements expected_tys)
                                    else Some False
                                | (ChoiceObj m layout _ _, TyChoice expected_layout) \<Rightarrow>
                                    Some (choice_layout_matches vm m layout here expected_layout)
                                | (ChoiceObj m layout variant _, TyChoiceVariant expected_layout expected_variant) \<Rightarrow>
                                    Some (variant_matches vm m layout variant here expected_layout expected_variant)
                                | (StructObj _ layout _ _, TyConstraint name) \<Rightarrow>
                                    Some (case list_get (bm_struct_layouts img) (unat layout) of
                                            None \<Rightarrow> False | Some l \<Rightarrow> name \<in> set (sl_constraints l))
                                | _ \<Rightarrow> Some False))
                      | _ \<Rightarrow> Some False))))"

section \<open>Casts\<close>

definition found_value :: "VmThreadState \<Rightarrow> VmValue \<Rightarrow> found" where
  "found_value t val =
    (case val of
       Object r \<Rightarrow> (case get_object (th_heap t) r of Inr obj \<Rightarrow> FoundObject obj | Inl _ \<Rightarrow> FoundValue val)
     | _ \<Rightarrow> FoundValue val)"

definition execute_cast :: "HostEnv \<Rightarrow> VirtualMachine \<Rightarrow> VmThreadState \<Rightarrow> VmValue \<Rightarrow> TypeIdx \<Rightarrow> (VmError, VmValue) outcome" where
  "execute_cast env vm t val target_ty =
    (case current_image vm t of
       Inl e \<Rightarrow> Err e
     | Inr img \<Rightarrow>
         (case list_get (bm_types img) (unat target_ty) of
            None \<Rightarrow> Err (TypeOutOfBounds target_ty)
          | Some ty \<Rightarrow>
              (case check_value_type (native_stack env) vm t val target_ty of
                 None \<Rightarrow> Panic
               | Some True \<Rightarrow> Ok val
               | Some False \<Rightarrow>
                   (case cast_number val ty of Some v \<Rightarrow> Ok v | None \<Rightarrow> Err (ExpectedType ty (found_value t val))))))"

section \<open>Resumed values\<close>

primrec value_matches_type :: "nat \<Rightarrow> VirtualMachine \<Rightarrow> VmThreadState \<Rightarrow> VmValue \<Rightarrow> ModuleId \<Rightarrow> TypeIdx \<Rightarrow> bool option" where
  "value_matches_type 0 vm t value m ty = None"
| "value_matches_type (Suc n) vm t value m ty =
    (case graph_get (vm_graph vm) m of
       None \<Rightarrow> Some False
     | Some node \<Rightarrow>
         (let module = nd_module node in
          case list_get (bm_types module) (unat ty) of
            None \<Rightarrow> Some False
          | Some expected \<Rightarrow>
              if primitive_matches value expected then Some True
              else
                case expected of
                  TyNullable inner \<Rightarrow> if value = Null then Some True else value_matches_type n vm t value m inner
                | _ \<Rightarrow>
                    (case value of
                       Object r \<Rightarrow>
                         (case get_object (th_heap t) r of
                            Inl _ \<Rightarrow> Some False
                          | Inr obj \<Rightarrow>
                              (case (obj, expected) of
                                 (ArrayObj value_module element_ty elements _, TyArray element_type) \<Rightarrow>
                                   if value_module = m \<and> element_ty = element_type
                                   then all_within (\<lambda>v. value_matches_type n vm t v m element_type) elements else Some False
                               | (StructObj value_module actual_layout fs _, TyStruct layout_idx) \<Rightarrow>
                                   (case list_get (bm_struct_layouts module) (unat layout_idx) of
                                      None \<Rightarrow> Some False
                                    | Some layout \<Rightarrow>
                                        if value_module = m \<and> actual_layout = layout_idx \<and> length fs = length (sl_fields layout)
                                        then all_within (\<lambda>(v, field). value_matches_type n vm t v m (fl_ty field)) (zip fs (sl_fields layout))
                                        else Some False)
                               | (TupleObj elements _, TyTuple element_types) \<Rightarrow>
                                   if length elements = length element_types
                                   then all_within (\<lambda>(v, ty'). value_matches_type n vm t v m ty') (zip elements element_types) else Some False
                               | (ChoiceObj value_module actual_layout variant payload, TyChoice layout_idx) \<Rightarrow>
                                   if value_module \<noteq> m \<or> actual_layout \<noteq> layout_idx then Some False
                                   else
                                     (case Option.bind (list_get (bm_choice_layouts module) (unat layout_idx))
                                             (\<lambda>layout. list_get (cl_variants layout) (unat variant)) of
                                        None \<Rightarrow> Some False
                                      | Some v \<Rightarrow>
                                          (case cv_payload_ty v of
                                             Some ty' \<Rightarrow> value_matches_type n vm t payload m ty'
                                           | None \<Rightarrow> Some (payload = Null)))
                               | (AdapterHandleObj _ actual _, TyAdapterHandle type_id) \<Rightarrow> Some (actual = type_id)
                               | _ \<Rightarrow> Some False))
                     | _ \<Rightarrow> Some False)))"

section \<open>What the comparison of types decides\<close>

text \<open>
  When a type of one module is accepted where another module expects a type, as a coinductive relation, so that recursive types
  may be followed forever.  A nullable type is expected of what its inner type is expected of; arrays and tuples are compared by
  their elements, choices by their names, and every other type, structures included, must be the same entry in both tables.
\<close>

definition is_compound :: "BytecodeType \<Rightarrow> bool" where
  "is_compound ty = (case ty of TyNullable _ \<Rightarrow> True | TyArray _ \<Rightarrow> True | TyTuple _ \<Rightarrow> True | TyChoice _ \<Rightarrow> True | _ \<Rightarrow> False)"

coinductive type_accepts :: "VirtualMachine \<Rightarrow> ModuleId \<Rightarrow> ModuleId \<Rightarrow> TypeIdx \<Rightarrow> TypeIdx \<Rightarrow> bool"
  for vm :: VirtualMachine and m m' :: ModuleId
where
  same_entry: "m = m' \<Longrightarrow> type_accepts vm m m' a a"
| nullable: "module_type vm m a = Some ty \<Longrightarrow> module_type vm m' e = Some (TyNullable e') \<Longrightarrow>
     type_accepts vm m m' a e' \<Longrightarrow> type_accepts vm m m' a e"
| arrays: "module_type vm m a = Some (TyArray x) \<Longrightarrow> module_type vm m' e = Some (TyArray y) \<Longrightarrow>
     type_accepts vm m m' x y \<Longrightarrow> type_accepts vm m m' a e"
| tuples: "module_type vm m a = Some (TyTuple xs) \<Longrightarrow> module_type vm m' e = Some (TyTuple ys) \<Longrightarrow>
     list_all2 (type_accepts vm m m') xs ys \<Longrightarrow> type_accepts vm m m' a e"
| choices: "module_type vm m a = Some (TyChoice l) \<Longrightarrow> module_type vm m' e = Some (TyChoice l') \<Longrightarrow>
     m = m' \<and> l = l' \<or>
       (\<exists>layout layout'. module_choice vm m l = Some layout \<and> module_choice vm m' l' = Some layout' \<and> cl_name layout = cl_name layout') \<Longrightarrow>
     type_accepts vm m m' a e"
| equal_types: "module_type vm m a = Some ty \<Longrightarrow> module_type vm m' e = Some ty \<Longrightarrow> \<not> is_compound ty \<Longrightarrow>
     type_accepts vm m m' a e"

lemma choice_layout_matches_iff:
  "choice_layout_matches vm m l m' l' \<longleftrightarrow> m = m' \<and> l = l' \<or>
     (\<exists>layout layout'. module_choice vm m l = Some layout \<and> module_choice vm m' l' = Some layout' \<and> cl_name layout = cl_name layout')"
  by (auto simp: choice_layout_matches_def split: option.splits)

definition seen_pairs :: "ModuleId \<Rightarrow> ModuleId \<Rightarrow> type_pair set \<Rightarrow> (TypeIdx \<times> TypeIdx) set" where
  "seen_pairs m m' seen = {(a, e). (m, a, m', e) \<in> seen}"

lemma seen_pairs_insert [simp]: "seen_pairs m m' (insert (m, a, m', e) seen) = insert (a, e) (seen_pairs m m' seen)"
  by (auto simp: seen_pairs_def)

text \<open>Where every pair is equal, the search succeeds.\<close>

lemma type_accepts_goal:
  assumes "type_accepts vm m m' a e" "\<not> (m = m' \<and> a = e)"
  shows "case type_goal vm m a m' e of Inl b \<Rightarrow> b | Inr goals \<Rightarrow> \<forall>(x, y) \<in> set goals. type_accepts vm m m' x y"
  using assms(1)
proof cases
  case (nullable ty e')
  then show ?thesis by (simp add: type_goal_def)
next
  case (arrays x y)
  then show ?thesis by (simp add: type_goal_def)
next
  case (tuples xs ys)
  then show ?thesis by (auto simp: type_goal_def list_all2_iff)
next
  case (choices l l')
  then show ?thesis by (simp add: type_goal_def choice_layout_matches_iff)
next
  case (equal_types ty)
  then show ?thesis by (cases ty) (simp_all add: type_goal_def is_compound_def)
qed (use assms(2) in simp)

text \<open>The rule that a pair falls under, once the match of the code has accepted it or reduced it to pairs in \<open>R\<close>.\<close>

lemma type_goal_accepts:
  assumes "case type_goal vm m a m' e of Inl b \<Rightarrow> b | Inr goals \<Rightarrow> \<forall>(x, y) \<in> set goals. R x y"
  obtains (nullable) ty e' where "module_type vm m a = Some ty" "module_type vm m' e = Some (TyNullable e')" "R a e'"
  | (arrays) x y where "module_type vm m a = Some (TyArray x)" "module_type vm m' e = Some (TyArray y)" "R x y"
  | (tuples) xs ys where "module_type vm m a = Some (TyTuple xs)" "module_type vm m' e = Some (TyTuple ys)" "list_all2 R xs ys"
  | (choices) l l' where "module_type vm m a = Some (TyChoice l)" "module_type vm m' e = Some (TyChoice l')"
      "choice_layout_matches vm m l m' l'"
  | (equal_types) ty where "module_type vm m a = Some ty" "module_type vm m' e = Some ty" "\<not> is_compound ty"
proof -
  from assms obtain t t' where tys: "module_type vm m a = Some t" "module_type vm m' e = Some t'"
    by (auto simp: type_goal_def split: option.splits)
  from assms tys show ?thesis
    by (cases t'; cases t) (auto simp: type_goal_def is_compound_def list_all2_iff split: if_splits intro: that)
qed

lemma matches_complete: "\<forall>(x, y) \<in> set ps. type_accepts vm m m' x y \<Longrightarrow> fst (type_idx_matches_inner vm m m' ps seen)"
proof (induction vm m m' ps seen rule: type_idx_matches_inner.induct)
  case (2 vm m m' a e ps seen)
  show ?case
  proof (cases "m = m' \<and> a = e \<or> (m, a, m', e) \<in> seen")
    case True
    then show ?thesis using "2.IH"(1,2) "2.prems" by auto
  next
    case False
    have goal: "case type_goal vm m a m' e of Inl b \<Rightarrow> b | Inr goals \<Rightarrow> \<forall>(x, y) \<in> set goals. type_accepts vm m m' x y"
      using type_accepts_goal [of vm m m' a e] "2.prems" False by auto
    show ?thesis
    proof (cases "type_goal vm m a m' e")
      case (Inl b)
      then show ?thesis using "2.IH"(3) [OF _ _ Inl] goal False "2.prems" by auto
    next
      case (Inr goals)
      obtain b s where inner: "type_idx_matches_inner vm m m' goals (insert (m, a, m', e) seen) = (b, s)" by fastforce
      have b using "2.IH"(4) [OF _ _ Inr] goal Inr inner False by auto
      then have "fst (type_idx_matches_inner vm m m' ps s)"
        using "2.IH"(5) [OF _ _ Inr inner [symmetric]] "2.prems" False by auto
      then show ?thesis using False Inr inner \<open>b\<close> by auto
    qed
  qed
qed simp

text \<open>
  A successful search extends the seen pairs to a set in which every new pair reduces to seen pairs; the pairs it was given
  are in it, up to identical types.
\<close>

definition pending_ok :: "VirtualMachine \<Rightarrow> ModuleId \<Rightarrow> ModuleId \<Rightarrow> (TypeIdx \<times> TypeIdx) set \<Rightarrow> (TypeIdx \<times> TypeIdx) set \<Rightarrow> bool" where
  "pending_ok vm m m' new S \<longleftrightarrow>
     (\<forall>(a, e) \<in> new. case type_goal vm m a m' e of Inl b \<Rightarrow> b | Inr goals \<Rightarrow> \<forall>(x, y) \<in> set goals. (x, y) \<in> S \<or> m = m' \<and> x = y)"

lemma pending_ok_mono: "pending_ok vm m m' new S \<Longrightarrow> S \<subseteq> S' \<Longrightarrow> pending_ok vm m m' new S'"
  by (fastforce simp: pending_ok_def split: sum.splits)

lemma matches_sound:
  "type_idx_matches_inner vm m m' ps seen = (True, seen') \<Longrightarrow>
   seen \<subseteq> seen' \<and> (\<forall>(a, e) \<in> set ps. (a, e) \<in> seen_pairs m m' seen' \<or> m = m' \<and> a = e) \<and>
   pending_ok vm m m' (seen_pairs m m' seen' - seen_pairs m m' seen) (seen_pairs m m' seen')"
proof (induction vm m m' ps seen arbitrary: seen' rule: type_idx_matches_inner.induct)
  case (1 vm m m' seen)
  then show ?case by (simp add: pending_ok_def)
next
  case (2 vm m m' a e ps seen)
  show ?case
  proof (cases "m = m' \<and> a = e \<or> (m, a, m', e) \<in> seen")
    case True
    then have eq: "type_idx_matches_inner vm m m' ps seen = (True, seen')" using "2.prems" by (cases "m = m' \<and> a = e") simp_all
    have "seen \<subseteq> seen' \<and> (\<forall>(a, e) \<in> set ps. (a, e) \<in> seen_pairs m m' seen' \<or> m = m' \<and> a = e) \<and>
      pending_ok vm m m' (seen_pairs m m' seen' - seen_pairs m m' seen) (seen_pairs m m' seen')"
      using "2.IH"(1) [OF _ eq] "2.IH"(2) [OF _ _ eq] True by argo
    then show ?thesis using True by (auto simp: seen_pairs_def)
  next
    case False
    show ?thesis
    proof (cases "type_goal vm m a m' e")
      case (Inl b)
      then have b: b and eq: "type_idx_matches_inner vm m m' ps (insert (m, a, m', e) seen) = (True, seen')"
        using "2.prems" False by (auto split: if_splits)
      note ih = "2.IH"(3) [OF _ _ Inl b eq]
      then show ?thesis using False Inl b by (auto simp: pending_ok_def seen_pairs_def)
    next
      case (Inr goals)
      obtain c s where inner: "type_idx_matches_inner vm m m' goals (insert (m, a, m', e) seen) = (c, s)" by fastforce
      then have c: c and eq: "type_idx_matches_inner vm m m' ps s = (True, seen')"
        using "2.prems" False Inr by (auto split: if_splits)
      have first: "insert (m, a, m', e) seen \<subseteq> s" "\<forall>(x, y) \<in> set goals. (x, y) \<in> seen_pairs m m' s \<or> m = m' \<and> x = y"
        "pending_ok vm m m' (seen_pairs m m' s - insert (a, e) (seen_pairs m m' seen)) (seen_pairs m m' s)"
        using "2.IH"(4) [OF _ _ Inr, of s] inner c False by auto
      have second: "s \<subseteq> seen'" "\<forall>(x, y) \<in> set ps. (x, y) \<in> seen_pairs m m' seen' \<or> m = m' \<and> x = y"
        "pending_ok vm m m' (seen_pairs m m' seen' - seen_pairs m m' s) (seen_pairs m m' seen')"
        using "2.IH"(5) [OF _ _ Inr inner [symmetric] c eq] False by auto
      have mono: "seen_pairs m m' s \<subseteq> seen_pairs m m' seen'" using second(1) by (auto simp: seen_pairs_def)
      have "pending_ok vm m m' (insert (a, e) (seen_pairs m m' s - insert (a, e) (seen_pairs m m' seen))) (seen_pairs m m' seen')"
        using pending_ok_mono [OF first(3) mono] first(2) mono Inr by (auto simp: pending_ok_def)
      then have "pending_ok vm m m' (seen_pairs m m' seen' - seen_pairs m m' seen) (seen_pairs m m' seen')"
        using second(3) by (auto simp: pending_ok_def)
      moreover have "(a, e) \<in> seen_pairs m m' seen'" using first(1) mono by (auto simp: seen_pairs_def)
      ultimately show ?thesis using first(1) second(1,2) by auto
    qed
  qed
qed

text \<open>
  Only the expected side of a nullable type is looked through, so a nullable type of one module is never accepted where another
  module expects the nullable type of the same thing.
\<close>

lemma nullable_refused_across_modules:
  assumes "m \<noteq> m'" "module_type vm m a = Some (TyNullable x)" "module_type vm m' e = Some (TyNullable y)"
    "module_type vm m' y = Some ty" "\<nexists>z. ty = TyNullable z"
  shows "\<not> type_accepts vm m m' a e"
proof
  assume "type_accepts vm m m' a e"
  then have "type_accepts vm m m' a y" using assms(1-3) by cases (auto simp: is_compound_def)
  then show False using assms by cases (auto simp: is_compound_def)
qed

text \<open>
  C18 (what the comparison of types decides).  \<open>type_idx_matches\<close> ends on every pair of module tables, cyclic types included, and
  answers yes exactly when the actual type is accepted for the expected one by the rules of \<open>type_accepts\<close>, read coinductively.
  The pairs that it assumes while it compares them make it neither unsound nor incomplete.
\<close>

theorem type_idx_matches_accepts: "type_idx_matches vm m a m' e \<longleftrightarrow> type_accepts vm m m' a e"
proof
  assume "type_accepts vm m m' a e"
  then show "type_idx_matches vm m a m' e"
    using matches_complete [of "[(a, e)]" vm m m' "{}"] by (simp add: type_idx_matches_def)
next
  assume "type_idx_matches vm m a m' e"
  then obtain seen where "type_idx_matches_inner vm m m' [(a, e)] {} = (True, seen)"
    unfolding type_idx_matches_def by (metis prod.collapse)
  from matches_sound [OF this] have ok: "pending_ok vm m m' (seen_pairs m m' seen) (seen_pairs m m' seen)"
    and here: "(a, e) \<in> seen_pairs m m' seen \<or> m = m' \<and> a = e"
    by (auto simp: seen_pairs_def)
  let ?R = "\<lambda>x y. (x, y) \<in> seen_pairs m m' seen \<or> m = m' \<and> x = y"
  from here show "type_accepts vm m m' a e"
  proof (coinduction arbitrary: a e rule: type_accepts.coinduct)
    case (type_accepts a e)
    show ?case
    proof (cases "m = m' \<and> a = e")
      case False
      with type_accepts ok have "case type_goal vm m a m' e of Inl b \<Rightarrow> b | Inr goals \<Rightarrow> \<forall>(x, y) \<in> set goals. ?R x y"
        unfolding pending_ok_def by fast
      then show ?thesis
      proof (cases rule: type_goal_accepts)
        case (tuples xs ys)
        from tuples(3) have "list_all2 (\<lambda>x y. ?R x y \<or> type_accepts vm m m' x y) xs ys" by (rule list_all2_mono) auto
        with tuples(1,2) show ?thesis by (auto simp: disj_assoc)
      qed (auto simp: choice_layout_matches_iff)
    qed simp
  qed
qed

end
