(* ===== verification/Vm_Objects.thy ===== *)
theory Vm_Objects
  imports Vm_Types Vm_Future_Search
begin

text \<open>
  The object instructions, \<open>execute_object_instruction\<close> of \<^verbatim>\<open>galfus-vm/src/runtime/objects.rs\<close>, with the deep copy.

  Handlers are sequences of calls that may fail; \<open>and_then\<close> passes the value and the thread on, or the error or panic with the
  thread as it is then.  Running out of memory while a vector is built is not modelled.
\<close>

section \<open>Sequencing\<close>

fun and_then :: "('e, 'a) outcome \<times> 's \<Rightarrow> ('a \<Rightarrow> 's \<Rightarrow> ('e, 'b) outcome \<times> 's) \<Rightarrow> ('e, 'b) outcome \<times> 's" where
  "and_then (Ok a, s) f = f a s"
| "and_then (Err e, s) f = (Err e, s)"
| "and_then (Panic, s) f = (Panic, s)"

fun attempt :: "'e + 'a \<Rightarrow> 's \<Rightarrow> ('e, 'a) outcome \<times> 's" where
  "attempt (Inl e) s = (Err e, s)"
| "attempt (Inr a) s = (Ok a, s)"

definition reg :: "VmThreadState \<Rightarrow> Reg \<Rightarrow> (VmError, VmValue) outcome \<times> VmThreadState" where
  "reg t r = (case read_reg t r of None \<Rightarrow> (Panic, t) | Some v \<Rightarrow> (Ok v, t))"

definition object_at :: "VmThreadState \<Rightarrow> VmObjectRef \<Rightarrow> (VmError, HeapObject) outcome \<times> VmThreadState" where
  "object_at t r = attempt (get_object (th_heap t) r) t"

definition store_object :: "VmThreadState \<Rightarrow> VmObjectRef \<Rightarrow> HeapObject \<Rightarrow> (VmError, unit) outcome \<times> VmThreadState" where
  "store_object t r obj = (case put_object (th_heap t) r obj of Inl e \<Rightarrow> (Err e, t) | Inr h \<Rightarrow> (Ok (), t\<lparr>th_heap := h\<rparr>))"

definition alloc_object :: "HostEnv \<Rightarrow> VmThreadState \<Rightarrow> HeapObject \<Rightarrow> (VmError, VmObjectRef) outcome \<times> VmThreadState" where
  "alloc_object env t obj =
    (case alloc env (th_heap t) obj of
       None \<Rightarrow> (Panic, t)
     | Some (Inl e, h) \<Rightarrow> (Err e, t\<lparr>th_heap := h\<rparr>)
     | Some (Inr r, h) \<Rightarrow> (Ok r, t\<lparr>th_heap := h\<rparr>))"

definition current_type :: "VirtualMachine \<Rightarrow> VmThreadState \<Rightarrow> TypeIdx \<Rightarrow> VmError + BytecodeType" where
  "current_type vm t ty =
    (case current_image vm t of
       Inl e \<Rightarrow> Inl e
     | Inr img \<Rightarrow> (case list_get (bm_types img) (unat ty) of None \<Rightarrow> Inl (TypeOutOfBounds ty) | Some x \<Rightarrow> Inr x))"

fun release_edge_val :: "HostEnv \<Rightarrow> VmValue \<Rightarrow> PrivateHeap \<Rightarrow> PrivateHeap" where
  "release_edge_val env (Object r) h = snd (release_edge env h r)"
| "release_edge_val env _ h = h"

definition put_object_reg :: "HostEnv \<Rightarrow> VmThreadState \<Rightarrow> Reg \<Rightarrow> HeapObject \<Rightarrow> step_result" where
  "put_object_reg env t dest obj = and_then (alloc_object env t obj) (\<lambda>r t. put_reg env t dest (Object r))"

section \<open>Lengths and default values\<close>

fun to_length :: "string \<Rightarrow> VmValue \<Rightarrow> VmError + nat" where
  "to_length expected (Int8 x) = (if sint x \<ge> 0 then Inr (nat (sint x)) else Inl (TypeMismatch expected (FoundValue (Int8 x))))"
| "to_length expected (Int16 x) = (if sint x \<ge> 0 then Inr (nat (sint x)) else Inl (TypeMismatch expected (FoundValue (Int16 x))))"
| "to_length expected (Int32 x) = (if sint x \<ge> 0 then Inr (nat (sint x)) else Inl (TypeMismatch expected (FoundValue (Int32 x))))"
| "to_length expected (Int64 x) = (if sint x \<ge> 0 then Inr (nat (sint x)) else Inl (TypeMismatch expected (FoundValue (Int64 x))))"
| "to_length expected (Uint8 x) = Inr (unat x)"
| "to_length expected (Uint16 x) = Inr (unat x)"
| "to_length expected (Uint32 x) = Inr (unat x)"
| "to_length expected (Uint64 x) = Inr (unat x)"
| "to_length expected x = Inl (TypeMismatch expected (FoundValue x))"

definition zero_value_for_type :: "VirtualMachine \<Rightarrow> VmThreadState \<Rightarrow> TypeIdx \<Rightarrow> VmError + VmValue" where
  "zero_value_for_type vm t ty =
    (case current_type vm t ty of
       Inl e \<Rightarrow> Inl e
     | Inr x \<Rightarrow>
         (case x of
            TyBool \<Rightarrow> Inr (Bool False)
          | TyInt8 \<Rightarrow> Inr (Int8 0) | TyInt16 \<Rightarrow> Inr (Int16 0) | TyInt32 \<Rightarrow> Inr (Int32 0) | TyInt64 \<Rightarrow> Inr (Int64 0)
          | TyUint8 \<Rightarrow> Inr (Uint8 0) | TyUint16 \<Rightarrow> Inr (Uint16 0) | TyUint32 \<Rightarrow> Inr (Uint32 0) | TyUint64 \<Rightarrow> Inr (Uint64 0)
          | TyFloat32 \<Rightarrow> Inr (Float32 0) | TyFloat64 \<Rightarrow> Inr (Float64 0)
          | TyNull \<Rightarrow> Inr Null | TyAny \<Rightarrow> Inr Null | TyNullable _ \<Rightarrow> Inr Null
          | TyStruct _ \<Rightarrow> Inr Null | TyChoice _ \<Rightarrow> Inr Null | TyArray _ \<Rightarrow> Inr Null | TyTuple _ \<Rightarrow> Inr Null
          | _ \<Rightarrow> Inl (TypeMismatch ''defaultable array element type'' (FoundType x))))"

section \<open>The deep copy\<close>

definition struct_layout :: "VirtualMachine \<Rightarrow> ModuleId \<Rightarrow> StructLayoutIdx \<Rightarrow> VmError + StructLayout" where
  "struct_layout vm m layout =
    (case get_module vm m of
       Inl e \<Rightarrow> Inl e
     | Inr img \<Rightarrow>
         (case list_get (bm_struct_layouts img) (unat layout) of
            None \<Rightarrow> Inl (TypeMismatch ''valid struct layout'' (FoundLayout layout)) | Some l \<Rightarrow> Inr l))"

definition is_weak :: "StructLayout \<Rightarrow> nat \<Rightarrow> bool" where
  "is_weak l i = (case list_get (sl_fields l) i of None \<Rightarrow> False | Some field \<Rightarrow> fl_ownership field = Weak)"

text \<open>The values of an object that are copied with it: weak fields are left out.\<close>

definition strong_values :: "VirtualMachine \<Rightarrow> HeapObject \<Rightarrow> VmError + VmValue list" where
  "strong_values vm obj =
    (case obj of
       StructObj m layout fs _ \<Rightarrow>
         (case struct_layout vm m layout of
            Inl e \<Rightarrow> Inl e
          | Inr l \<Rightarrow> Inr (map snd (filter (\<lambda>(i, _). \<not> is_weak l i) (enumerate 0 fs))))
     | _ \<Rightarrow> Inr (object_values obj))"

text \<open>\<open>enqueue_copy_target\<close> for each value in turn.\<close>

fun enqueue_copy_targets ::
  "PrivateHeap \<Rightarrow> VmValue list \<Rightarrow> VmObjectRef set \<times> VmObjectRef list \<Rightarrow> VmError + VmObjectRef set \<times> VmObjectRef list" where
  "enqueue_copy_targets h [] st = Inr st"
| "enqueue_copy_targets h (Object r # vs) (closure, pending) =
    (case get_object h r of
       Inl e \<Rightarrow> Inl e
     | Inr _ \<Rightarrow>
         if r \<in> closure then enqueue_copy_targets h vs (closure, pending)
         else enqueue_copy_targets h vs (insert r closure, pending @ [r]))"
| "enqueue_copy_targets h (_ # vs) st = enqueue_copy_targets h vs st"

lemma enqueue_copy_targets_Inr:
  "enqueue_copy_targets h vs (closure, pending) = Inr (closure', pending') \<Longrightarrow>
   closure \<subseteq> closure' \<and> closure' - closure \<subseteq> live_refs h \<and> (\<exists>ext. pending' = pending @ ext \<and> set ext = closure' - closure)"
proof (induction h vs "(closure, pending)" arbitrary: closure pending rule: enqueue_copy_targets.induct)
  case (2 h r vs closure pending)
  then obtain obj where obj: "get_object h r = Inr obj" by (auto split: sum.splits)
  then have live: "r \<in> live_refs h" by (auto simp: live_refs_def ref_live_def get_object_def Let_def split: if_splits option.splits)
  show ?case
  proof (cases "r \<in> closure")
    case True
    then show ?thesis using 2 obj by auto
  next
    case False
    with 2(3) obj have "enqueue_copy_targets h vs (insert r closure, pending @ [r]) = Inr (closure', pending')" by simp
    from 2(2) [OF obj False this] obtain ext where
      ext: "insert r closure \<subseteq> closure'" "closure' - insert r closure \<subseteq> live_refs h"
        "pending' = (pending @ [r]) @ ext" "set ext = closure' - insert r closure" by auto
    have "set (r # ext) = closure' - closure" using ext(1,4) False by auto
    then show ?thesis using ext live by auto
  qed
qed auto

function discover_strong_copy_closure ::
  "VirtualMachine \<Rightarrow> PrivateHeap \<Rightarrow> VmObjectRef set \<Rightarrow> VmObjectRef list \<Rightarrow> VmError + VmObjectRef set" where
  "discover_strong_copy_closure vm h closure [] = Inr closure"
| "discover_strong_copy_closure vm h closure (r # pending) =
    (case get_object h r of
       Inl e \<Rightarrow> Inl e
     | Inr obj \<Rightarrow>
         (case strong_values vm obj of
            Inl e \<Rightarrow> Inl e
          | Inr vs \<Rightarrow>
              (case enqueue_copy_targets h vs (closure, pending) of
                 Inl e \<Rightarrow> Inl e
               | Inr (closure', pending') \<Rightarrow> discover_strong_copy_closure vm h closure' pending')))"
  by pat_completeness auto
termination
proof (relation "measures [\<lambda>(vm, h, closure, pending). card (live_refs h - closure), \<lambda>(vm, h, closure, pending). length pending]", goal_cases)
  case (2 vm h closure r pending obj vs st closure' pending')
  then have "enqueue_copy_targets h vs (closure, pending) = Inr (closure', pending')" by simp
  from enqueue_copy_targets_Inr [OF this] obtain ext where
    ext: "closure \<subseteq> closure'" "closure' - closure \<subseteq> live_refs h" "pending' = pending @ ext" "set ext = closure' - closure" by blast
  show ?case
  proof (cases "closure' = closure")
    case True
    then show ?thesis using ext by simp
  next
    case False
    then have "live_refs h - closure' \<subset> live_refs h - closure" using ext(1,2) by auto
    then show ?thesis by (simp add: psubset_card_mono finite_live_refs)
  qed
qed auto

definition copy_placeholder :: "VirtualMachine \<Rightarrow> HeapObject \<Rightarrow> VmError + HeapObject" where
  "copy_placeholder vm obj =
    (case obj of
       StructObj m layout fs _ \<Rightarrow>
         (case struct_layout vm m layout of
            Inl e \<Rightarrow> Inl e
          | Inr l \<Rightarrow>
              if sl_fields l = [] then Inl (TypeMismatch ''copyable struct with fields'' (FoundFieldless (sl_name l)))
              else Inr (StructObj m layout (replicate (length fs) Null) (of_nat (length fs))))
     | ArrayObj m el _ _ \<Rightarrow> Inr (ArrayObj m el [] 0)
     | TupleObj _ _ \<Rightarrow> Inr (TupleObj [] 0)
     | ChoiceObj m layout variant _ \<Rightarrow> Inr (ChoiceObj m layout variant Null)
     | AdapterHandleObj b ty i \<Rightarrow> Inr (AdapterHandleObj b ty i))"

text \<open>The two loops over the closure, in the iteration order of the hash set.\<close>

fun allocate_copy_placeholders ::
  "HostEnv \<Rightarrow> VirtualMachine \<Rightarrow> VmObjectRef list \<Rightarrow> (VmObjectRef \<rightharpoonup> VmObjectRef) \<Rightarrow> VmThreadState \<Rightarrow>
   (VmError, VmObjectRef \<rightharpoonup> VmObjectRef) outcome \<times> VmThreadState" where
  "allocate_copy_placeholders env vm [] copied t = (Ok copied, t)"
| "allocate_copy_placeholders env vm (old # refs) copied t =
    and_then (object_at t old) (\<lambda>obj t.
      and_then (attempt (copy_placeholder vm obj) t) (\<lambda>placeholder t.
        and_then (alloc_object env t placeholder) (\<lambda>new t.
          allocate_copy_placeholders env vm refs (copied(old \<mapsto> new)) t)))"

definition copy_strong_value :: "(VmObjectRef \<rightharpoonup> VmObjectRef) \<Rightarrow> VmValue \<Rightarrow> VmError + VmValue" where
  "copy_strong_value copied value =
    (case value of
       Object r \<Rightarrow>
         (case copied r of
            Some r' \<Rightarrow> Inr (Object r')
          | None \<Rightarrow> Inl (TypeMismatch ''object in copied strong closure'' (FoundRef r)))
     | _ \<Rightarrow> Inr value)"

definition copy_weak_value :: "(VmObjectRef \<rightharpoonup> VmObjectRef) \<Rightarrow> VmValue \<Rightarrow> VmValue" where
  "copy_weak_value copied value =
    (case value of Object r \<Rightarrow> (case copied r of Some r' \<Rightarrow> Object r' | None \<Rightarrow> Null) | _ \<Rightarrow> value)"

fun try_map :: "('a \<Rightarrow> 'e + 'b) \<Rightarrow> 'a list \<Rightarrow> 'e + 'b list" where
  "try_map f [] = Inr []"
| "try_map f (x # xs) =
    (case f x of Inl e \<Rightarrow> Inl e | Inr y \<Rightarrow> (case try_map f xs of Inl e \<Rightarrow> Inl e | Inr ys \<Rightarrow> Inr (y # ys)))"

definition copy_fields :: "StructLayout \<Rightarrow> (VmObjectRef \<rightharpoonup> VmObjectRef) \<Rightarrow> VmValue list \<Rightarrow> VmError + VmValue list" where
  "copy_fields l copied fs =
    try_map (\<lambda>(i, v). if is_weak l i then Inr (copy_weak_value copied v) else copy_strong_value copied v) (enumerate 0 fs)"

text \<open>
  One object of \<open>fill_copy_placeholders\<close>: the contents of the copy, and the object they are stored in, which must be of the
  same kind.
\<close>

definition fill_object ::
  "HostEnv \<Rightarrow> VirtualMachine \<Rightarrow> (VmObjectRef \<rightharpoonup> VmObjectRef) \<Rightarrow> HeapObject \<Rightarrow> VmObjectRef \<Rightarrow> VmThreadState \<Rightarrow> (VmError, unit) outcome \<times> VmThreadState" where
  "fill_object env vm copied obj new t =
    (case obj of
       StructObj m layout fs _ \<Rightarrow>
         and_then (attempt (struct_layout vm m layout) t) (\<lambda>l t.
           and_then (attempt (copy_fields l copied fs) t) (\<lambda>vs t.
             and_then (object_at t new) (\<lambda>target t.
               case target of
                 StructObj m' layout' _ _ \<Rightarrow> store_object t new (StructObj m' layout' vs (grown_capacity env (length vs)))
               | other \<Rightarrow> (Err (TypeMismatch ''Struct object'' (FoundObject other)), t))))
     | ArrayObj _ _ elements _ \<Rightarrow>
         and_then (attempt (try_map (copy_strong_value copied) elements) t) (\<lambda>vs t.
           and_then (object_at t new) (\<lambda>target t.
             case target of
               ArrayObj m' el' _ _ \<Rightarrow> store_object t new (ArrayObj m' el' vs (grown_capacity env (length vs)))
             | other \<Rightarrow> (Err (TypeMismatch ''Array object'' (FoundObject other)), t)))
     | TupleObj elements _ \<Rightarrow>
         and_then (attempt (try_map (copy_strong_value copied) elements) t) (\<lambda>vs t.
           and_then (object_at t new) (\<lambda>target t.
             case target of
               TupleObj _ _ \<Rightarrow> store_object t new (TupleObj vs (grown_capacity env (length vs)))
             | other \<Rightarrow> (Err (TypeMismatch ''Tuple object'' (FoundObject other)), t)))
     | ChoiceObj _ _ _ payload \<Rightarrow>
         and_then (attempt (copy_strong_value copied payload) t) (\<lambda>v t.
           and_then (object_at t new) (\<lambda>target t.
             case target of
               ChoiceObj m' layout' variant' _ \<Rightarrow> store_object t new (ChoiceObj m' layout' variant' v)
             | other \<Rightarrow> (Err (TypeMismatch ''Choice object'' (FoundObject other)), t)))
     | AdapterHandleObj _ _ _ \<Rightarrow> (Ok (), t))"

fun fill_copy_placeholders ::
  "HostEnv \<Rightarrow> VirtualMachine \<Rightarrow> VmObjectRef list \<Rightarrow> (VmObjectRef \<rightharpoonup> VmObjectRef) \<Rightarrow> VmThreadState \<Rightarrow> (VmError, unit) outcome \<times> VmThreadState" where
  "fill_copy_placeholders env vm [] copied t = (Ok (), t)"
| "fill_copy_placeholders env vm (old # refs) copied t =
    (case copied old of
       None \<Rightarrow> (Err (TypeMismatch ''copied object'' (FoundRef old)), t)
     | Some new \<Rightarrow>
         and_then (object_at t old) (\<lambda>obj t.
           and_then (fill_object env vm copied obj new t) (\<lambda>_ t. fill_copy_placeholders env vm refs copied t)))"

definition deep_copy_value :: "HostEnv \<Rightarrow> VirtualMachine \<Rightarrow> VmThreadState \<Rightarrow> VmValue \<Rightarrow> (VmError, VmValue) outcome \<times> VmThreadState" where
  "deep_copy_value env vm t value =
    (case value of
       Object r \<Rightarrow>
         and_then (attempt (discover_strong_copy_closure vm (th_heap t) {r} [r]) t) (\<lambda>closure t.
           and_then (allocate_copy_placeholders env vm (ref_order env closure) Map.empty t) (\<lambda>copied t.
             and_then (fill_copy_placeholders env vm (ref_order env closure) copied t) (\<lambda>_ t.
               case copied r of
                 Some r' \<Rightarrow> (Ok (Object r'), t)
               | None \<Rightarrow> (Err (TypeMismatch ''copied root object'' (FoundRef r)), t))))
     | _ \<Rightarrow> (Ok value, t))"

section \<open>Instructions\<close>

definition frame_module :: "VmThreadState \<Rightarrow> VmError + ModuleId" where
  "frame_module t = (case current_frame t of Inl e \<Rightarrow> Inl e | Inr f \<Rightarrow> Inr (fr_module_id f))"

definition not_a_reference :: "VmValue \<Rightarrow> VmError" where
  "not_a_reference v = TypeMismatch ''Object reference'' (FoundValue v)"

definition load_field :: "HostEnv \<Rightarrow> VmThreadState \<Rightarrow> Reg \<Rightarrow> Reg \<Rightarrow> FieldIdx \<Rightarrow> step_result" where
  "load_field env t dest obj field =
    and_then (reg t obj) (\<lambda>v t.
      case v of
        Object r \<Rightarrow>
          and_then (object_at t r) (\<lambda>heap_obj t.
            case heap_obj of
              StructObj _ _ fs _ \<Rightarrow>
                (case list_get fs (unat field) of None \<Rightarrow> (Err (FieldOutOfBounds field), t) | Some x \<Rightarrow> put_reg env t dest x)
            | TupleObj elements _ \<Rightarrow>
                (case list_get elements (unat field) of None \<Rightarrow> (Err (FieldOutOfBounds field), t) | Some x \<Rightarrow> put_reg env t dest x)
            | ChoiceObj _ _ _ payload \<Rightarrow> put_reg env t dest payload
            | _ \<Rightarrow> (Err (TypeMismatch ''Struct or Choice object'' (FoundObject heap_obj)), t))
      | _ \<Rightarrow> (Err (not_a_reference v), t))"

definition store_field :: "HostEnv \<Rightarrow> VmThreadState \<Rightarrow> Reg \<Rightarrow> FieldIdx \<Rightarrow> Reg \<Rightarrow> step_result" where
  "store_field env t obj field val =
    and_then (reg t obj) (\<lambda>v t.
      and_then (reg t val) (\<lambda>x t.
        let t = retain_edge_val x t in
        case v of
          Object r \<Rightarrow>
            and_then (object_at t r) (\<lambda>heap_obj t.
              case heap_obj of
                StructObj m layout fs cap \<Rightarrow>
                  if unat field < length fs then
                    and_then (store_object t r (StructObj m layout (fs[unat field := x]) cap)) (\<lambda>_ t.
                      (Ok Continue, t\<lparr>th_heap := release_edge_val env (fs ! unat field) (th_heap t)\<rparr>))
                  else (Panic, t)
              | _ \<Rightarrow> (Err (TypeMismatch ''Struct object'' (FoundObject heap_obj)), t))
        | _ \<Rightarrow> (Err (not_a_reference v), t)))"

definition load_index :: "HostEnv \<Rightarrow> VmThreadState \<Rightarrow> Reg \<Rightarrow> Reg \<Rightarrow> Reg \<Rightarrow> step_result" where
  "load_index env t dest arr idx =
    and_then (reg t arr) (\<lambda>v t.
      and_then (reg t idx) (\<lambda>i t.
        and_then (attempt (to_raw_array_index i) t) (\<lambda>raw_index t.
          case v of
            Object r \<Rightarrow>
              and_then (object_at t r) (\<lambda>heap_obj t.
                case heap_obj of
                  ArrayObj _ _ elements _ \<Rightarrow>
                    put_reg env t dest (case resolve_raw_array_index raw_index (length elements) of Some k \<Rightarrow> elements ! k | None \<Rightarrow> Null)
                | TupleObj elements _ \<Rightarrow>
                    put_reg env t dest (case resolve_raw_array_index raw_index (length elements) of Some k \<Rightarrow> elements ! k | None \<Rightarrow> Null)
                | _ \<Rightarrow> (Err (TypeMismatch ''Array or Tuple object'' (FoundObject heap_obj)), t))
          | _ \<Rightarrow> (Err (not_a_reference v), t))))"

definition store_index :: "HostEnv \<Rightarrow> VirtualMachine \<Rightarrow> VmThreadState \<Rightarrow> Reg \<Rightarrow> Reg \<Rightarrow> Reg \<Rightarrow> step_result" where
  "store_index env vm t arr idx val =
    and_then (reg t arr) (\<lambda>v t.
      and_then (reg t idx) (\<lambda>i t.
        and_then (attempt (to_raw_array_index i) t) (\<lambda>raw_index t.
          and_then (reg t val) (\<lambda>x t.
            let t = retain_edge_val x t in
            case v of
              Object r \<Rightarrow>
                and_then (object_at t r) (\<lambda>heap_obj t.
                  case heap_obj of
                    ArrayObj m el elements cap \<Rightarrow>
                      (case resolve_raw_array_index raw_index (length elements) of
                         None \<Rightarrow> (Err (IndexOutOfBounds raw_index (length elements)), t)
                       | Some k \<Rightarrow>
                           and_then (execute_cast env vm t x el, t) (\<lambda>x' t.
                             and_then (store_object t r (ArrayObj m el (elements[k := x']) cap)) (\<lambda>_ t.
                               (Ok Continue, t\<lparr>th_heap := release_edge_val env (elements ! k) (th_heap t)\<rparr>))))
                  | TupleObj elements cap \<Rightarrow>
                      (case resolve_raw_array_index raw_index (length elements) of
                         None \<Rightarrow> (Err (IndexOutOfBounds raw_index (length elements)), t)
                       | Some k \<Rightarrow>
                           and_then (store_object t r (TupleObj (elements[k := x]) cap)) (\<lambda>_ t.
                             (Ok Continue, t\<lparr>th_heap := release_edge_val env (elements ! k) (th_heap t)\<rparr>)))
                  | _ \<Rightarrow> (Err (TypeMismatch ''Array or Tuple object'' (FoundObject heap_obj)), t))
            | _ \<Rightarrow> (Err (not_a_reference v), t)))))"

text \<open>The loop that reads the elements of a tuple; each object among them gets an edge.\<close>

fun take_elements :: "Reg \<Rightarrow> nat list \<Rightarrow> VmThreadState \<Rightarrow> (VmError, VmValue list) outcome \<times> VmThreadState" where
  "take_elements start [] t = (Ok [], t)"
| "take_elements start (i # is) t =
    and_then (reg t (start + of_nat i)) (\<lambda>v t.
      and_then (take_elements start is (retain_edge_val v t)) (\<lambda>vs t. (Ok (v # vs), t)))"

fun execute_object_instruction :: "HostEnv \<Rightarrow> VirtualMachine \<Rightarrow> VmThreadState \<Rightarrow> ObjectInstruction \<Rightarrow> step_result" where
  "execute_object_instruction env vm t (AllocLocal dest ty) =
    and_then (attempt (current_type vm t ty) t) (\<lambda>x t.
      case x of
        TyStruct layout \<Rightarrow>
          and_then (attempt (current_image vm t) t) (\<lambda>img t.
            case list_get (bm_struct_layouts img) (unat layout) of
              None \<Rightarrow> (Err (TypeOutOfBounds ty), t)
            | Some l \<Rightarrow>
                and_then (attempt (frame_module t) t) (\<lambda>m t.
                  put_object_reg env t dest
                    (StructObj m layout (replicate (length (sl_fields l)) Null) (of_nat (length (sl_fields l))))))
      | _ \<Rightarrow> (Err (TypeMismatch ''Struct type'' (FoundType x)), t))"
| "execute_object_instruction env vm t (LoadField dest obj field) = load_field env t dest obj field"
| "execute_object_instruction env vm t (StoreField obj field val) = store_field env t obj field val"
| "execute_object_instruction env vm t (NewArray dest ty len_reg) =
    and_then (attempt (current_type vm t ty) t) (\<lambda>x t.
      case x of
        TyArray el \<Rightarrow>
          and_then (reg t len_reg) (\<lambda>v t.
            and_then (attempt (to_length ''positive array length'' v) t) (\<lambda>len t.
              and_then (attempt (zero_value_for_type vm t el) t) (\<lambda>zero t.
                and_then (attempt (frame_module t) t) (\<lambda>m t.
                  put_object_reg env t dest (ArrayObj m el (replicate len zero) (of_nat len))))))
      | _ \<Rightarrow> (Err (TypeMismatch ''Array type'' (FoundType x)), t))"
| "execute_object_instruction env vm t (LoadIndex dest arr idx) = load_index env t dest arr idx"
| "execute_object_instruction env vm t (StoreIndex arr idx val) = store_index env vm t arr idx val"
| "execute_object_instruction env vm t (NewTuple dest ty start count) =
    and_then (attempt (current_type vm t ty) t) (\<lambda>x t.
      case x of
        TyTuple tys \<Rightarrow>
          if unat count \<noteq> length tys then (Err (ExpectedCount ''Tuple size'' (length tys) (unat count)), t)
          else
            and_then (take_elements start [0..<unat count] t) (\<lambda>elements t.
              put_object_reg env t dest (TupleObj elements (grown_capacity env (length elements))))
      | _ \<Rightarrow> (Err (TypeMismatch ''Tuple type'' (FoundType x)), t))"
| "execute_object_instruction env vm t (NewChoice dest ty variant payload) =
    and_then (attempt (current_type vm t ty) t) (\<lambda>x t.
      case x of
        TyChoice layout \<Rightarrow>
          and_then (reg t payload) (\<lambda>v t.
            and_then (attempt (frame_module t) (retain_edge_val v t)) (\<lambda>m t.
              put_object_reg env t dest (ChoiceObj m layout variant v)))
      | _ \<Rightarrow> (Err (TypeMismatch ''Choice type'' (FoundType x)), t))"
| "execute_object_instruction env vm t (Cast dest src ty) =
    and_then (reg t src) (\<lambda>v t. and_then (execute_cast env vm t v ty, t) (\<lambda>res t. put_reg env t dest res))"
| "execute_object_instruction env vm t (Copy dest src) =
    and_then (reg t src) (\<lambda>v t. and_then (deep_copy_value env vm t v) (\<lambda>copied t. put_reg env t dest copied))"
| "execute_object_instruction env vm t (Instanceof dest src ty) =
    and_then (reg t src) (\<lambda>v t.
      case check_value_type (native_stack env) vm t v ty of
        None \<Rightarrow> (Panic, t) | Some is_instance \<Rightarrow> put_reg env t dest (Bool is_instance))"

end
