(* ===== verification/Vm_Control.thy ===== *)
theory Vm_Control
  imports Vm_Objects
begin

text \<open>
  Calls and returns, \<open>execute_control_instruction\<close> of \<^verbatim>\<open>galfus-vm/src/runtime/control.rs\<close> without the jumps, which are in
  \<open>Vm_Machine\<close>: direct, tail, method and dynamic calls, the built-in methods of array iterators, returns and explicit panics.

  Register accesses through raw pointers outside the vector are \<open>Panic\<close>.  Texts of names are lists of characters; positions
  in them count characters, which agrees with the byte positions of the source because only parts at ASCII characters are
  cut out.
\<close>

section \<open>Targets\<close>

definition resolve_target :: "VirtualMachine \<Rightarrow> ModuleId \<Rightarrow> FuncIdx \<Rightarrow> (VmError, ModuleId \<times> FuncIdx) outcome" where
  "resolve_target vm m func_idx =
    (case get_module vm m of
       Inl e \<Rightarrow> Err e
     | Inr img \<Rightarrow>
         if unat func_idx < length (bm_functions img) then Ok (m, func_idx)
         else
           case resolve_imports (vm_graph vm) m of
             Err _ \<Rightarrow> Err (FunctionOutOfBounds func_idx)
           | Panic \<Rightarrow> Panic
           | Ok imports \<Rightarrow>
               (case list_get imports (unat func_idx - length (bm_functions img)) of
                  None \<Rightarrow> Err (FunctionOutOfBounds func_idx)
                | Some im \<Rightarrow>
                    (case ri_kind im of ResolvedFunction f \<Rightarrow> Ok (ri_module_id im, f) | ResolvedGlobal _ \<Rightarrow> Panic)))"

definition too_many_arguments :: "BytecodeFunction \<Rightarrow> u8 \<Rightarrow> VmError" where
  "too_many_arguments callee arg_count = ExpectedCount ''arguments'' (unat (bf_param_count callee)) (unat arg_count)"

text \<open>From the callee on, \<open>Call\<close>, \<open>CallDynamic\<close> and \<open>CallMethod\<close> are the same.\<close>

definition enter_function ::
  "VmThreadState \<Rightarrow> ModuleId \<Rightarrow> FuncIdx \<Rightarrow> BytecodeFunction \<Rightarrow> Reg \<Rightarrow> Reg \<Rightarrow> u8 \<Rightarrow> Reg option \<Rightarrow> step_result" where
  "enter_function t m func_idx callee dest args_start arg_count receiver =
    (if arg_count > bf_param_count callee then (Err (too_many_arguments callee arg_count), t)
     else
       case push_frame t m func_idx 0 (Some dest) (frame_registers callee) (bf_instructions callee) of
         Inl e \<Rightarrow> (Err e, t)
       | Inr t1 \<Rightarrow>
           and_then (setup_args_from_caller t1 args_start (unat arg_count) (unat (bf_param_count callee)) receiver)
             (\<lambda>_ t. (Ok Continue, t)))"

definition call_function :: "VirtualMachine \<Rightarrow> VmThreadState \<Rightarrow> ModuleId \<Rightarrow> FuncIdx \<Rightarrow> Reg \<Rightarrow> Reg \<Rightarrow> u8 \<Rightarrow> step_result" where
  "call_function vm t m func_idx dest args_start arg_count =
    and_then (resolve_target vm m func_idx, t) (\<lambda>(m', f') t.
      and_then (attempt (get_function vm m' f') t) (\<lambda>callee t.
        enter_function t m' f' callee dest args_start arg_count None))"

section \<open>Tail calls\<close>

definition grow_registers :: "VmValue list \<Rightarrow> nat \<Rightarrow> VmValue list" where
  "grow_registers rs new_top =
    (if new_top > length rs then rs @ replicate (max new_top (length rs * 2) - length rs) Null else rs)"

text \<open>Reading and writing through a raw pointer at \<open>base + i\<close>.\<close>

definition read_range :: "VmThreadState \<Rightarrow> nat \<Rightarrow> nat \<Rightarrow> VmValue list option" where
  "read_range t base count =
    (if count = 0 then Some [] else if base + count \<le> length (th_registers t) then Some (take count (drop base (th_registers t))) else None)"

fun place_args :: "nat \<Rightarrow> VmValue list \<Rightarrow> VmThreadState \<Rightarrow> VmThreadState option" where
  "place_args base [] t = Some t"
| "place_args base (v # vs) t =
    (let t1 = retain_anchor_val v (t\<lparr>th_has_objects := (th_has_objects t \<or> is_object v)\<rparr>) in
     if base < length (th_registers t1)
     then place_args (base + 1) vs (t1\<lparr>th_registers := (th_registers t1)[base := v]\<rparr>) else None)"

text \<open>Clearing a window that holds no objects: registers are overwritten and nothing is released.\<close>

fun erase_window :: "nat list \<Rightarrow> VmThreadState \<Rightarrow> VmThreadState option" where
  "erase_window [] t = Some t"
| "erase_window (i # is) t =
    (if i < length (th_registers t) then erase_window is (t\<lparr>th_registers := (th_registers t)[i := Null]\<rparr>) else None)"

definition reset_frame :: "ModuleId \<Rightarrow> FuncIdx \<Rightarrow> BytecodeFunction \<Rightarrow> nat \<Rightarrow> VmThreadState \<Rightarrow> VmThreadState" where
  "reset_frame m func_idx callee new_top t =
    t\<lparr>th_register_top := new_top,
      th_call_stack := butlast (th_call_stack t) @
        [(last (th_call_stack t))\<lparr>fr_module_id := m, fr_func_idx := func_idx, fr_pc := 0,
           fr_cached_instructions := bf_instructions callee, fr_has_objects := th_has_objects t\<rparr>]\<rparr>"

text \<open>Emptying the window of the current frame before it is reused.\<close>

definition leave_window :: "HostEnv \<Rightarrow> nat \<Rightarrow> VmThreadState \<Rightarrow> VmThreadState option" where
  "leave_window env new_top t =
    (if th_has_objects t then clear_window env [th_register_base t..<th_register_top t] t
     else erase_window [th_register_base t..<max (th_register_top t) new_top] t)"

definition tail_call :: "HostEnv \<Rightarrow> VirtualMachine \<Rightarrow> VmThreadState \<Rightarrow> FuncIdx \<Rightarrow> Reg \<Rightarrow> u8 \<Rightarrow> step_result" where
  "tail_call env vm t func_idx args_start arg_count =
    and_then (attempt (frame_module t) t) (\<lambda>m t.
      and_then (resolve_target vm m func_idx, t) (\<lambda>(m', f') t.
        and_then (attempt (get_function vm m' f') t) (\<lambda>callee t.
          if arg_count > bf_param_count callee then (Err (too_many_arguments callee arg_count), t)
          else
            (let base = th_register_base t; new_top = base + frame_registers callee;
                 t1 = t\<lparr>th_registers := grow_registers (th_registers t) new_top\<rparr> in
             case read_range t1 (base + unat args_start) (unat arg_count) of
               None \<Rightarrow> (Panic, t1)
             | Some args \<Rightarrow>
                 and_then (clear_params base [unat arg_count..<unat (bf_param_count callee)] t1) (\<lambda>_ t2.
                   case leave_window env new_top t2 of
                     None \<Rightarrow> (Panic, t2)
                   | Some t3 \<Rightarrow>
                       (case place_args base args (t3\<lparr>th_has_objects := False\<rparr>) of
                          None \<Rightarrow> (Panic, t3)
                        | Some t4 \<Rightarrow> (Ok Continue, reset_frame m' f' callee new_top t4)))))))"

section \<open>Array iterators\<close>

definition iterator_fields :: "HeapObject \<Rightarrow> (ModuleId \<times> StructLayoutIdx \<times> VmValue list \<times> usize) option" where
  "iterator_fields obj = (case obj of StructObj m layout fs cap \<Rightarrow> Some (m, layout, fs, cap) | _ \<Rightarrow> None)"

definition iterator_step ::
  "VmThreadState \<Rightarrow> VmObjectRef \<Rightarrow> ModuleId \<Rightarrow> StructLayoutIdx \<Rightarrow> VmValue list \<Rightarrow> usize \<Rightarrow> utext \<Rightarrow>
   (VmError, VmValue option) outcome \<times> VmThreadState" where
  "iterator_step t r m layout fs cap method_name =
    (case list_get fs 0 of
       Some (Object array_ref) \<Rightarrow>
         (case list_get fs 1 of
            Some (Int32 current) \<Rightarrow>
              if method_name = map of_char ''iter'' then
                and_then (store_object t r (StructObj m layout (fs[1 := Int32 0]) cap)) (\<lambda>_ t. (Ok (Some (Object r)), t))
              else if method_name = map of_char ''next'' then
                and_then (object_at t array_ref) (\<lambda>array t.
                  case array of
                    ArrayObj _ _ elements _ \<Rightarrow>
                      (case list_get elements (unat (scast current :: usize)) of
                         Some v \<Rightarrow>
                           and_then (store_object t r (StructObj m layout (fs[1 := Int32 (current + 1)]) cap)) (\<lambda>_ t. (Ok (Some v), t))
                       | None \<Rightarrow> (Ok (Some Null), t))
                  | _ \<Rightarrow> (Err (TypeMismatch ''ArrayIterator backing array'' (FoundObject array)), t))
              else (Ok None, t)
          | x \<Rightarrow> (Err (TypeMismatch ''ArrayIterator index field'' (FoundField x)), t))
     | x \<Rightarrow> (Err (TypeMismatch ''ArrayIterator array field'' (FoundField x)), t))"

definition execute_array_iterator_method ::
  "VirtualMachine \<Rightarrow> VmThreadState \<Rightarrow> Reg \<Rightarrow> utext \<Rightarrow> (VmError, VmValue option) outcome \<times> VmThreadState" where
  "execute_array_iterator_method vm t obj method_name =
    and_then (reg t obj) (\<lambda>v t.
      case v of
        Object r \<Rightarrow>
          and_then (object_at t r) (\<lambda>o' t.
            case iterator_fields o' of
              None \<Rightarrow> (Ok None, t)
            | Some (m, layout, fs, cap) \<Rightarrow>
                and_then (attempt (get_module vm m) t) (\<lambda>img t.
                  case list_get (bm_struct_layouts img) (unat layout) of
                    None \<Rightarrow> (Ok None, t)
                  | Some l \<Rightarrow>
                      if sl_name l \<noteq> map of_char ''ArrayIterator'' then (Ok None, t)
                      else iterator_step t r m layout fs cap method_name))
      | _ \<Rightarrow> (Ok None, t))"

section \<open>Methods\<close>

text \<open>\<open>str::find\<close>: the first position at which the pattern starts.\<close>

fun find_text :: "utext \<Rightarrow> utext \<Rightarrow> nat option" where
  "find_text pat [] = (if pat = [] then Some 0 else None)"
| "find_text pat (c # cs) = (if take (length pat) (c # cs) = pat then Some 0 else map_option Suc (find_text pat cs))"

definition clean_name :: "utext \<Rightarrow> utext" where
  "clean_name name =
    (case find_text (map of_char ''<'') name of
       None \<Rightarrow> name
     | Some start \<Rightarrow>
         (case find_text (map of_char ''>::'') name of
            None \<Rightarrow> name
          | Some end' \<Rightarrow> take start name @ map of_char ''::'' @ drop (end' + 3) name))"

definition check_name :: "utext \<Rightarrow> utext \<Rightarrow> bool \<Rightarrow> bool" where
  "check_name name target_name is_qualified =
    (if is_qualified then
       (let clean = clean_name name; prefix = target_name @ map of_char ''#'' in
        clean = target_name \<or> take (length prefix) clean = prefix)
     else name = target_name \<or> ends_with (map of_char ''::'' @ target_name) name)"

text \<open>The module and the name of the struct the receiver is an instance of.\<close>

definition receiver_layout :: "VirtualMachine \<Rightarrow> VmThreadState \<Rightarrow> VmValue \<Rightarrow> VmError + (ModuleId \<times> utext) option" where
  "receiver_layout vm t v =
    (case v of
       Object r \<Rightarrow>
         (case get_object (th_heap t) r of
            Inl e \<Rightarrow> Inl e
          | Inr obj \<Rightarrow>
              (case obj of
                 StructObj m layout _ _ \<Rightarrow>
                   (case get_module vm m of
                      Inl e \<Rightarrow> Inl e
                    | Inr img \<Rightarrow> Inr (map_option (\<lambda>l. (m, sl_name l)) (list_get (bm_struct_layouts img) (unat layout))))
               | _ \<Rightarrow> Inr None))
     | _ \<Rightarrow> Inr None)"

text \<open>The search in the imports of the module; a target that does not exist ends it with an error.\<close>

fun find_import :: "VirtualMachine \<Rightarrow> (utext \<Rightarrow> bool) \<Rightarrow> ResolvedImport list \<Rightarrow> VmError + (ModuleId \<times> FuncIdx) option" where
  "find_import vm matched [] = Inr None"
| "find_import vm matched (im # ims) =
    (case ri_kind im of
       ResolvedGlobal _ \<Rightarrow> find_import vm matched ims
     | ResolvedFunction f \<Rightarrow>
         (case get_function vm (ri_module_id im) f of
            Inl e \<Rightarrow> Inl e
          | Inr target \<Rightarrow> if matched (bf_name target) then Inr (Some (ri_module_id im, f)) else find_import vm matched ims))"

definition available_names :: "VirtualMachine \<Rightarrow> BytecodeModule \<Rightarrow> ModuleId \<Rightarrow> utext list" where
  "available_names vm img m =
    map bf_name (bm_functions img) @
    (case resolve_imports (vm_graph vm) m of
       Ok ims \<Rightarrow>
         List.map_filter
           (\<lambda>im. case ri_kind im of
                  ResolvedFunction f \<Rightarrow> (case get_function vm (ri_module_id im) f of Inr target \<Rightarrow> Some (bf_name target) | Inl _ \<Rightarrow> None)
                | ResolvedGlobal _ \<Rightarrow> None) ims
     | _ \<Rightarrow> [])"

text \<open>
  The search for a method: in the module of the receiver by its qualified name, then by its bare name, then in the imports of
  that module.  A panic while imports are resolved is the panic of the call.
\<close>

definition find_method :: "VirtualMachine \<Rightarrow> ModuleId \<Rightarrow> utext option \<Rightarrow> utext \<Rightarrow> (VmError, ModuleId \<times> FuncIdx) outcome" where
  "find_method vm m qualified_name method_name =
    (case get_module vm m of
       Inl e \<Rightarrow> Err e
     | Inr img \<Rightarrow>
         (let local = (case qualified_name of
                         Some q \<Rightarrow> position (\<lambda>f. check_name (bf_name f) q True) (bm_functions img) | None \<Rightarrow> None);
              local = (case local of
                         Some i \<Rightarrow> Some i | None \<Rightarrow> position (\<lambda>f. check_name (bf_name f) method_name False) (bm_functions img));
              matched = (case qualified_name of Some q \<Rightarrow> (\<lambda>n. check_name n q True) | None \<Rightarrow> (\<lambda>n. check_name n method_name False));
              not_found = Err (ExpectedFunction (case qualified_name of Some q \<Rightarrow> q | None \<Rightarrow> method_name)
                                (FoundFunctions (available_names vm img m))) in
          case local of
            Some i \<Rightarrow> Ok (m, of_nat i)
          | None \<Rightarrow>
              (case resolve_imports (vm_graph vm) m of
                 Panic \<Rightarrow> Panic
               | Err _ \<Rightarrow> not_found
               | Ok ims \<Rightarrow>
                   (case find_import vm matched ims of
                      Inl e \<Rightarrow> Err e | Inr None \<Rightarrow> not_found | Inr (Some target) \<Rightarrow> Ok target))))"

text \<open>Arguments of a future: each object among them gets an anchor.\<close>

fun take_args :: "Reg \<Rightarrow> nat list \<Rightarrow> VmThreadState \<Rightarrow> (VmError, VmValue list) outcome \<times> VmThreadState" where
  "take_args start [] t = (Ok [], t)"
| "take_args start (i # is) t =
    and_then (reg t (start + of_nat i)) (\<lambda>v t.
      and_then (take_args start is (retain_anchor_val v t)) (\<lambda>vs t. (Ok (v # vs), t)))"

definition take_method_args :: "VmThreadState \<Rightarrow> Reg \<Rightarrow> Reg \<Rightarrow> u8 \<Rightarrow> (VmError, VmValue list) outcome \<times> VmThreadState" where
  "take_method_args t obj args_start arg_count =
    (if arg_count > 0 then
       and_then (reg t obj) (\<lambda>receiver t.
         and_then (take_args args_start [1..<unat arg_count] (retain_anchor_val receiver t)) (\<lambda>vs t. (Ok (receiver # vs), t)))
     else (Ok [], t))"

definition method_name_of :: "VirtualMachine \<Rightarrow> VmThreadState \<Rightarrow> ConstIdx \<Rightarrow> VmError + utext" where
  "method_name_of vm t name_const =
    (case current_image vm t of
       Inl e \<Rightarrow> Inl e
     | Inr img \<Rightarrow>
         (case list_get (bm_constants img) (unat name_const) of
            None \<Rightarrow> Inl (ConstantOutOfBounds name_const)
          | Some (CString s) \<Rightarrow> Inr s
          | Some other \<Rightarrow> Inl (TypeMismatch ''string constant for method name'' (FoundConstant other))))"

text \<open>Dispatch by name, after the built-in methods.\<close>

definition dispatch_method ::
  "VirtualMachine \<Rightarrow> VmThreadState \<Rightarrow> Reg \<Rightarrow> Reg \<Rightarrow> utext \<Rightarrow> Reg \<Rightarrow> u8 \<Rightarrow> TypeIdx list \<Rightarrow> TypeIdx option \<Rightarrow> step_result" where
  "dispatch_method vm t dest obj method_name args_start arg_count arg_types return_type =
    and_then (reg t obj) (\<lambda>v t.
      and_then (attempt (receiver_layout vm t v) t) (\<lambda>layout t.
        and_then (attempt (frame_module t) t) (\<lambda>here t.
          let qualified = map_option (\<lambda>(_, name). name @ map of_char ''::'' @ method_name) layout;
              m = (case layout of Some (m, _) \<Rightarrow> m | None \<Rightarrow> here) in
          and_then (find_method vm m qualified method_name, t) (\<lambda>(m', f') t.
            case return_type of
              Some ty \<Rightarrow>
                and_then (take_method_args t obj args_start arg_count) (\<lambda>args t.
                  (Ok (Suspend (CreateFutureEffect here m' f' args arg_types ty) (Some dest) None), t))
            | None \<Rightarrow>
                and_then (attempt (get_function vm m' f') t) (\<lambda>callee t.
                  enter_function t m' f' callee dest args_start arg_count (Some obj))))))"

definition call_method ::
  "HostEnv \<Rightarrow> VirtualMachine \<Rightarrow> VmThreadState \<Rightarrow> Reg \<Rightarrow> Reg \<Rightarrow> ConstIdx \<Rightarrow> Reg \<Rightarrow> u8 \<Rightarrow> TypeIdx list \<Rightarrow> TypeIdx option \<Rightarrow> step_result" where
  "call_method env vm t dest obj name_const args_start arg_count arg_types return_type =
    and_then (attempt (method_name_of vm t name_const) t) (\<lambda>method_name t.
      and_then (execute_array_iterator_method vm t obj method_name) (\<lambda>built_in t.
        case built_in of
          Some v \<Rightarrow> put_reg env t dest v
        | None \<Rightarrow>
            and_then (reg t obj) (\<lambda>v t.
              if method_name = map of_char ''compare'' \<and> \<not> is_object v
              then and_then (reg t (args_start + 1)) (\<lambda>arg t. put_reg env t dest (Bool (value_eq v arg)))
              else dispatch_method vm t dest obj method_name args_start arg_count arg_types return_type)))"

section \<open>Returns\<close>

definition return_value :: "HostEnv \<Rightarrow> VirtualMachine \<Rightarrow> VmThreadState \<Rightarrow> VmValue \<Rightarrow> step_result" where
  "return_value env vm t val =
    (case pop_frame env t of
       None \<Rightarrow> (Panic, t)
     | Some (None, t1) \<Rightarrow> (Err EmptyCallStack, t1)
     | Some (Some frame, t1) \<Rightarrow>
         (case fr_return_dest frame of
            Some dest \<Rightarrow> put_reg env t1 dest val
          | None \<Rightarrow>
              and_then (attempt (get_function vm (fr_module_id frame) (fr_func_idx frame)) t1) (\<lambda>f t.
                (Ok (Return val (fr_module_id frame) (bf_return_ty f)), t))))"

fun execute_control_instruction :: "HostEnv \<Rightarrow> VirtualMachine \<Rightarrow> VmThreadState \<Rightarrow> ControlInstruction \<Rightarrow> step_result" where
  "execute_control_instruction env vm t (Call dest func_idx args_start arg_count) =
    and_then (attempt (frame_module t) t) (\<lambda>m t. call_function vm t m func_idx dest args_start arg_count)"
| "execute_control_instruction env vm t (TailCall func_idx args_start arg_count) = tail_call env vm t func_idx args_start arg_count"
| "execute_control_instruction env vm t (CallMethod dest obj name_const args_start arg_count arg_types return_type) =
    call_method env vm t dest obj name_const args_start arg_count arg_types return_type"
| "execute_control_instruction env vm t (CallDynamic dest func_reg args_start arg_count) =
    and_then (reg t func_reg) (\<lambda>v t.
      case v of
        Function m func_idx \<Rightarrow> call_function vm t m func_idx dest args_start arg_count
      | _ \<Rightarrow> (Err (TypeMismatch ''function value'' (FoundValue v)), t))"
| "execute_control_instruction env vm t (Ret src) = and_then (reg t src) (\<lambda>v t. return_value env vm (retain_anchor_val v t) v)"
| "execute_control_instruction env vm t RetNull = return_value env vm t Null"
| "execute_control_instruction env vm t (PanicWith const_idx) =
    (case current_image vm t of
       Inl e \<Rightarrow> (Err e, t)
     | Inr img \<Rightarrow>
         (case list_get (bm_constants img) (unat const_idx) of
            None \<Rightarrow> (Err (ConstantOutOfBounds const_idx), t)
          | Some c \<Rightarrow> (Err (ExplicitPanic c), t)))"

end
