(* ===== verification/Vm_System.thy ===== *)
theory Vm_System
  imports Vm_Control
begin

text \<open>
  The system instructions, \<open>execute_system_instruction\<close> of \<^verbatim>\<open>galfus-vm/src/runtime/system.rs\<close>: dropping values, futures, array
  helpers and the internal mathematical functions.  The functions of the mathematics library are those of the \<^typ>\<open>FloatEnv\<close>.
\<close>

section \<open>Mathematics\<close>

definition f64_is_infinite :: "f64 \<Rightarrow> bool" where
  "f64_is_infinite x = (case f64_class x of FpInf _ \<Rightarrow> True | _ \<Rightarrow> False)"

definition f64_is_finite :: "f64 \<Rightarrow> bool" where
  "f64_is_finite x = (case f64_class x of FpFin _ _ _ \<Rightarrow> True | _ \<Rightarrow> False)"

fun to_float :: "VmValue \<Rightarrow> VmError + f64" where
  "to_float (Float64 x) = Inr x"
| "to_float (Float32 x) = Inr (f64_of_f32 x)"
| "to_float (Int8 x) = Inr (f64_of_int (sint x))"
| "to_float (Int16 x) = Inr (f64_of_int (sint x))"
| "to_float (Int32 x) = Inr (f64_of_int (sint x))"
| "to_float (Int64 x) = Inr (f64_of_int (sint x))"
| "to_float (Uint8 x) = Inr (f64_of_int (uint x))"
| "to_float (Uint16 x) = Inr (f64_of_int (uint x))"
| "to_float (Uint32 x) = Inr (f64_of_int (uint x))"
| "to_float (Uint64 x) = Inr (f64_of_int (uint x))"
| "to_float v = Inl (TypeMismatch ''number'' (FoundValue v))"

definition math_argument :: "VmThreadState \<Rightarrow> Reg \<Rightarrow> u8 \<Rightarrow> u8 \<Rightarrow> (VmError, f64) outcome" where
  "math_argument t args_start arg_count index =
    (if index \<ge> arg_count then Err (TypeMismatch ''math argument'' (FoundText ''missing argument''))
     else case read_reg t (args_start + ucast index) of None \<Rightarrow> Panic | Some v \<Rightarrow> of_result (to_float v))"

definition math_value :: "FloatEnv \<Rightarrow> VmThreadState \<Rightarrow> u8 \<Rightarrow> Reg \<Rightarrow> u8 \<Rightarrow> (VmError, VmValue) outcome" where
  "math_value fenv t operation args_start arg_count =
    (let x = math_argument t args_start arg_count 0; y = math_argument t args_start arg_count 1;
         number = (\<lambda>f. map_ok (\<lambda>a. Float64 (normalize_f64 (f a))) x) in
     if operation = 0 then map_ok (\<lambda>a. Bool (f64_is_nan a)) x
     else if operation = 1 then map_ok (\<lambda>a. Bool (f64_is_finite a)) x
     else if operation = 2 then map_ok (\<lambda>a. Bool (f64_is_infinite a)) x
     else if operation = 3 then number (sqrt64 fenv)
     else if operation = 4 then bind_outcome x (\<lambda>a. map_ok (\<lambda>b. Float64 (normalize_f64 (hypot64 fenv a b))) y)
     else if operation = 5 then number (sin64 fenv)
     else if operation = 6 then number (cos64 fenv)
     else if operation = 7 then number (tan64 fenv)
     else if operation = 8 then number (ln64 fenv)
     else if operation = 9 then number (log2_64 fenv)
     else if operation = 10 then number (log10_64 fenv)
     else Err (TypeMismatch ''internal math operation'' (FoundValue (Uint8 operation))))"

section \<open>Futures and arrays\<close>

fun future_id_of :: "VmValue \<Rightarrow> VmError + FutureId" where
  "future_id_of (Future i) = Inr i"
| "future_id_of v = Inl (TypeMismatch ''Future<T>'' (FoundValue v))"

text \<open>The futures in a range of registers.\<close>

fun take_futures :: "Reg \<Rightarrow> nat list \<Rightarrow> VmThreadState \<Rightarrow> (VmError, FutureId list) outcome" where
  "take_futures start [] t = Ok []"
| "take_futures start (i # is) t =
    (case read_reg t (start + of_nat i) of
       None \<Rightarrow> Panic
     | Some v \<Rightarrow> bind_outcome (of_result (future_id_of v)) (\<lambda>f. map_ok (\<lambda>fs. f # fs) (take_futures start is t)))"

text \<open>Suspensions that carry the arguments in registers.\<close>

definition suspend_with_args ::
  "VmThreadState \<Rightarrow> Reg \<Rightarrow> u8 \<Rightarrow> (VmValue list \<Rightarrow> ModuleId \<Rightarrow> VmThreadState \<Rightarrow> step_result) \<Rightarrow> step_result" where
  "suspend_with_args t args_start arg_count k =
    and_then (take_args args_start [0..<unat arg_count] t) (\<lambda>args t.
      and_then (attempt (frame_module t) t) (\<lambda>m t. k args m t))"

definition elements_of :: "string \<Rightarrow> HeapObject \<Rightarrow> VmError + VmValue list" where
  "elements_of expected obj =
    (case obj of
       ArrayObj _ _ elements _ \<Rightarrow> Inr elements
     | TupleObj elements _ \<Rightarrow> Inr elements
     | _ \<Rightarrow> Inl (TypeMismatch expected (FoundObject obj)))"

fun copy_into :: "nat \<Rightarrow> VmValue list \<Rightarrow> VmValue list \<Rightarrow> VmValue list" where
  "copy_into start [] elements = elements"
| "copy_into start (v # vs) elements = copy_into (start + 1) vs (elements[start := v])"

definition copy_array :: "VmThreadState \<Rightarrow> Reg \<Rightarrow> Reg \<Rightarrow> Reg \<Rightarrow> step_result" where
  "copy_array t dest dest_start src =
    and_then (reg t dest) (\<lambda>dest_val t.
      and_then (reg t dest_start) (\<lambda>start_val t.
        and_then (reg t src) (\<lambda>src_val t.
          and_then (attempt (to_length ''positive index'' start_val) t) (\<lambda>start_idx t.
            case (dest_val, src_val) of
              (Object dest_ref, Object src_ref) \<Rightarrow>
                and_then (object_at t src_ref) (\<lambda>src_obj t.
                  and_then (attempt (elements_of ''Array or Tuple'' src_obj) t) (\<lambda>vs t.
                    and_then (object_at t dest_ref) (\<lambda>dest_obj t.
                      case dest_obj of
                        ArrayObj m el elements cap \<Rightarrow>
                          if start_idx + length vs > length elements then (Panic, t)
                          else and_then (store_object t dest_ref (ArrayObj m el (copy_into start_idx vs elements) cap))
                                 (\<lambda>_ t. (Ok Continue, t))
                      | _ \<Rightarrow> (Err (TypeMismatch ''Array object'' (FoundObject dest_obj)), t))))
            | _ \<Rightarrow> (Err (TypeMismatch ''Object references for source and destination'' (FoundValues dest_val src_val)), t)))))"

definition drop_value :: "HostEnv \<Rightarrow> VmThreadState \<Rightarrow> Reg \<Rightarrow> step_result" where
  "drop_value env t r =
    and_then (reg t r) (\<lambda>value t.
      let futures = future_handles_in_value (th_heap t) value in
      and_then (put_reg env t r Null) (\<lambda>_ t.
        let gone = filter (\<lambda>i. \<not> contains_future_handle t (module_order env (dom (th_module_states t))) i) futures in
        if gone \<noteq> [] then (Ok (Suspend (FuturesDropped gone) None None), t) else (Ok Continue, t)))"

section \<open>Instructions\<close>

fun execute_system_instruction :: "HostEnv \<Rightarrow> FloatEnv \<Rightarrow> VirtualMachine \<Rightarrow> VmThreadState \<Rightarrow> SystemInstruction \<Rightarrow> step_result" where
  "execute_system_instruction env fenv vm t (Drop r) = drop_value env t r"
| "execute_system_instruction env fenv vm t (AwaitFuture dest future_id return_type) =
    and_then (reg t future_id) (\<lambda>v t.
      and_then (attempt (future_id_of v) t) (\<lambda>i t.
        and_then (attempt (frame_module t) t) (\<lambda>m t.
          (Ok (Suspend (FutureWait i m return_type) (Some dest) (Some (m, return_type))), t))))"
| "execute_system_instruction env fenv vm t (Len dest src) =
    and_then (reg t src) (\<lambda>v t.
      case v of
        Object r \<Rightarrow>
          and_then (object_at t r) (\<lambda>obj t.
            and_then (attempt (elements_of ''Array or Tuple object'' obj) t) (\<lambda>elements t.
              put_reg env t dest (Int32 (of_nat (length elements)))))
      | _ \<Rightarrow> (Err (not_a_reference v), t))"
| "execute_system_instruction env fenv vm t (CopyArray dest dest_start src) = copy_array t dest dest_start src"
| "execute_system_instruction env fenv vm t (CallInternalMath dest operation args_start arg_count) =
    finish_operator env t dest (math_value fenv t operation args_start arg_count)"
| "execute_system_instruction env fenv vm t (CreateFuture dest func_idx args_start arg_count arg_types return_type) =
    suspend_with_args t args_start arg_count (\<lambda>args m t.
      and_then (resolve_target vm m func_idx, t) (\<lambda>(m', f') t.
        (Ok (Suspend (CreateFutureEffect m m' f' args arg_types return_type) (Some dest) None), t)))"
| "execute_system_instruction env fenv vm t (CreateAwaitFuture dest operation args_start arg_count arg_types return_type) =
    suspend_with_args t args_start arg_count (\<lambda>args m t.
      (Ok (Suspend (CreateAwaitFutureEffect m operation args arg_types return_type) (Some dest) (Some (m, return_type))), t))"
| "execute_system_instruction env fenv vm t (CallInternalThread dest operation args_start arg_count arg_types return_type) =
    suspend_with_args t args_start arg_count (\<lambda>args m t.
      (Ok (Suspend (InternalThreadCall m operation args arg_types return_type) (Some dest) (Some (m, return_type))), t))"
| "execute_system_instruction env fenv vm t (CreateIndirectFuture dest func_reg args_start arg_count arg_types return_type) =
    and_then (reg t func_reg) (\<lambda>func t.
      suspend_with_args t args_start arg_count (\<lambda>args m t.
        (Ok (Suspend (CreateIndirectFutureEffect m func args arg_types return_type) (Some dest) None), t)))"
| "execute_system_instruction env fenv vm t (AwaitAll dest futures_start count return_type) =
    and_then (take_futures futures_start [0..<unat count] t, t) (\<lambda>ids t.
      and_then (attempt (frame_module t) t) (\<lambda>m t.
        (Ok (Suspend (FutureWaitAll ids m return_type) (Some dest) (Some (m, return_type))), t)))"
| "execute_system_instruction env fenv vm t (AwaitRace dest futures_start count return_type) =
    and_then (take_futures futures_start [0..<unat count] t, t) (\<lambda>ids t.
      and_then (attempt (frame_module t) t) (\<lambda>m t.
        (Ok (Suspend (FutureWaitRace ids m return_type) (Some dest) (Some (m, return_type))), t)))"

end
