(* ===== verification/Vm_Step.thy ===== *)
theory Vm_Step
  imports Vm_System
begin

text \<open>
  The execution of a thread, \<^verbatim>\<open>galfus-vm/src/runtime.rs\<close>: \<open>VirtualMachine::step\<close>, which routes one instruction to its handler,
  the arms of the interpreter loop of \<open>execute_with_budget\<close>, the loop itself, and the entry points \<open>prepare_function\<close> and
  \<open>run_function\<close>.

  The loop keeps the program counter, the instructions, the module and the register base of the current frame in local
  variables.  The model of its arms works on the frame they are copied from and to: while the loop runs, the variables are the
  fields of the last frame.  The counter that the frame of the source still holds, the one of the last \<open>sync_frame!\<close>, is the
  parameter \<open>saved\<close>: the arms that fail without \<open>sync_frame!\<close> leave the frame with it.  Only when the last frame of all returns
  to a destination do the local variables outlive their frame; no frame is ever pushed that way (\<open>prepare_function\<close> gives the
  first frame no destination), and the model stops with \<open>Panic\<close> there.  An access outside a vector through a raw pointer is \<open>Panic\<close>.  Stack traces of panics are not modelled.
\<close>

section \<open>The step\<close>

text \<open>Typed instructions end in the last arm of the \<open>match\<close> of \<open>step\<close>, which does nothing.\<close>

fun dispatch :: "HostEnv \<Rightarrow> FloatEnv \<Rightarrow> VirtualMachine \<Rightarrow> VmThreadState \<Rightarrow> Instruction \<Rightarrow> step_result" where
  "dispatch env fenv vm t (Typed k operation dest lhs rhs) = (Ok Continue, t)"
| "dispatch env fenv vm t (Jump offset) = execute_jump_instruction t (Jump offset)"
| "dispatch env fenv vm t (JumpTrue cond offset) = execute_jump_instruction t (JumpTrue cond offset)"
| "dispatch env fenv vm t (JumpFalse cond offset) = execute_jump_instruction t (JumpFalse cond offset)"
| "dispatch env fenv vm t (JumpNull val offset) = execute_jump_instruction t (JumpNull val offset)"
| "dispatch env fenv vm t (Binary operation dest lhs rhs) = execute_operator_instruction env fenv t (Binary operation dest lhs rhs)"
| "dispatch env fenv vm t (Unary operation dest src) = execute_operator_instruction env fenv t (Unary operation dest src)"
| "dispatch env fenv vm t (Fallback dest src fb) = execute_operator_instruction env fenv t (Fallback dest src fb)"
| "dispatch env fenv vm t (BinaryImmediate dest lhs operation rhs) =
    execute_operator_instruction env fenv t (BinaryImmediate dest lhs operation rhs)"
| "dispatch env fenv vm t (Control i) = execute_control_instruction env vm t i"
| "dispatch env fenv vm t (Objects i) = execute_object_instruction env vm t i"
| "dispatch env fenv vm t (System i) = execute_system_instruction env fenv vm t i"
| "dispatch env fenv vm t instr = execute_data_instruction env vm t instr"

text \<open>The oldest check of a step and of the loop: handles whose objects were freed are reported first.\<close>

definition pop_pending_drop :: "VmThreadState \<Rightarrow> (VmStep \<times> VmThreadState) option" where
  "pop_pending_drop t =
    (if hp_pending_drops (th_heap t) = [] then None
     else
       case last (hp_pending_drops (th_heap t)) of (b, ty, i) \<Rightarrow>
         Some (Suspend (AdapterHandleDropped b ty i) None None,
               t\<lparr>th_heap := (th_heap t)\<lparr>hp_pending_drops := butlast (hp_pending_drops (th_heap t))\<rparr>\<rparr>))"

text \<open>The next instruction; a slice never reaches up to the last index, so the increment of the counter does not wrap.\<close>

definition fetch :: "CallFrame \<Rightarrow> Instruction option" where
  "fetch f = (if fr_pc f = -1 then None else list_get (fr_cached_instructions f) (unat (fr_pc f)))"

definition step :: "HostEnv \<Rightarrow> FloatEnv \<Rightarrow> VirtualMachine \<Rightarrow> VmThreadState \<Rightarrow> step_result" where
  "step env fenv vm t =
    (case pop_pending_drop t of
       Some (s, t1) \<Rightarrow> (Ok s, t1)
     | None \<Rightarrow>
         (case current_frame t of
            Inl e \<Rightarrow> (Err e, t)
          | Inr f \<Rightarrow>
              (let t1 = set_pc t (fr_pc f + 1) in
               case fetch f of
                 None \<Rightarrow> (Panic, t1)
               | Some instr \<Rightarrow> dispatch env fenv vm t1 instr)))"

section \<open>The arms of the interpreter loop\<close>

text \<open>\<open>write_prim_reg!\<close> skips the object flag, since it only stores primitive values.\<close>

definition write_prim_reg :: "HostEnv \<Rightarrow> VmThreadState \<Rightarrow> Reg \<Rightarrow> VmValue \<Rightarrow> step_result" where
  "write_prim_reg env t r val =
    (let idx = th_register_base t + unat r in
     if idx < length (th_registers t) then
       (Ok Continue,
        t\<lparr>th_registers := (th_registers t)[idx := val],
          th_heap := release_anchor_val env (th_registers t ! idx) (th_heap t)\<rparr>)
     else (Panic, t))"

definition hot_operator :: "HostEnv \<Rightarrow> VmThreadState \<Rightarrow> Reg \<Rightarrow> (VmError, VmValue) outcome \<Rightarrow> step_result" where
  "hot_operator env t dest res =
    (case res of Ok v \<Rightarrow> write_prim_reg env t dest v | Err e \<Rightarrow> (Err e, t) | Panic \<Rightarrow> (Panic, t))"

fun hot_binary :: "FloatEnv \<Rightarrow> BinaryOp \<Rightarrow> (VmValue \<Rightarrow> VmValue \<Rightarrow> (VmError, VmValue) outcome) option" where
  "hot_binary fenv Add = Some (\<lambda>l r. of_result (hot_add l r))"
| "hot_binary fenv Sub = Some (\<lambda>l r. of_result (hot_sub l r))"
| "hot_binary fenv Lt = Some hot_lt"
| "hot_binary fenv Le = Some hot_le"
| "hot_binary fenv Eq = Some (\<lambda>l r. Ok (Bool (value_eq l r)))"
| "hot_binary fenv Ne = Some (\<lambda>l r. Ok (Bool (\<not> value_eq l r)))"
| "hot_binary fenv _ = None"

text \<open>
  Calls of functions of the same module.  The loop does not compare the number of arguments with the parameters, does not clear
  the parameters that get no argument, and stores \<open>false\<close> as the flag of the caller.  The copy must not overlap.
\<close>

definition hot_call :: "VmThreadState \<Rightarrow> ModuleId \<Rightarrow> FuncIdx \<Rightarrow> BytecodeFunction \<Rightarrow> Reg \<Rightarrow> Reg \<Rightarrow> u8 \<Rightarrow> step_result" where
  "hot_call t m func_idx callee dest args_start arg_count =
    (let limit = max_call_depth (tq_limits (thread_quota t)); depth = length (th_call_stack t) in
     if depth \<ge> unat limit then
       (Err (VmResourceLimitExceeded (ResourceLimitExceeded CallDepth (of_nat depth) 1 limit)), t)
     else
       let base = th_register_top t; new_top = base + frame_registers callee; count = unat arg_count;
           src = th_register_base t + unat args_start;
           t1 = t\<lparr>th_registers := grow_registers (th_registers t) new_top,
                  th_register_base := base, th_register_top := new_top,
                  th_call_stack := th_call_stack t @
                    [\<lparr>fr_module_id = m, fr_func_idx = func_idx, fr_pc = 0, fr_register_base = base, fr_return_dest = Some dest,
                      fr_cached_instructions = bf_instructions callee, fr_has_objects = False\<rparr>],
                  th_has_objects := False\<rparr> in
       case read_range t1 src count of
         None \<Rightarrow> (Panic, t1)
       | Some args \<Rightarrow>
           if count > 0 \<and> base < src + count \<and> src < base + count then (Panic, t1)
           else case place_args base args t1 of None \<Rightarrow> (Panic, t1) | Some t2 \<Rightarrow> (Ok Continue, t2))"

definition hot_tail_call :: "HostEnv \<Rightarrow> VmThreadState \<Rightarrow> ModuleId \<Rightarrow> FuncIdx \<Rightarrow> BytecodeFunction \<Rightarrow> Reg \<Rightarrow> u8 \<Rightarrow> step_result" where
  "hot_tail_call env t m func_idx callee args_start arg_count =
    (let base = th_register_base t; new_top = base + frame_registers callee;
         t1 = t\<lparr>th_registers := grow_registers (th_registers t) new_top\<rparr> in
     case read_range t1 (base + unat args_start) (unat arg_count) of
       None \<Rightarrow> (Panic, t1)
     | Some args \<Rightarrow>
         (case leave_window env new_top t1 of
            None \<Rightarrow> (Panic, t1)
          | Some t2 \<Rightarrow>
              (case place_args base args (t2\<lparr>th_has_objects := False\<rparr>) of
                 None \<Rightarrow> (Panic, t2)
               | Some t3 \<Rightarrow> (Ok Continue, reset_frame m func_idx callee new_top t3))))"

definition hot_return :: "HostEnv \<Rightarrow> VirtualMachine \<Rightarrow> VmThreadState \<Rightarrow> VmValue \<Rightarrow> step_result" where
  "hot_return env vm t val =
    (case pop_frame env t of
       None \<Rightarrow> (Panic, t)
     | Some (None, t1) \<Rightarrow> (Panic, t1)
     | Some (Some frame, t1) \<Rightarrow>
         (case fr_return_dest frame of
            Some dest \<Rightarrow> if th_call_stack t1 = [] then (Panic, t1) else put_reg env t1 dest val
          | None \<Rightarrow>
              and_then (attempt (get_function vm (fr_module_id frame) (fr_func_idx frame)) t1) (\<lambda>f t.
                (Ok (Return val (fr_module_id frame) (bf_return_ty f)), t))))"

text \<open>The arms for calls and returns, given the module of the current frame.\<close>

fun hot_control ::
  "HostEnv \<Rightarrow> VirtualMachine \<Rightarrow> ModuleId \<Rightarrow> BytecodeModule \<Rightarrow> VmThreadState \<Rightarrow> ControlInstruction \<Rightarrow> step_result" where
  "hot_control env vm m img t (Call dest func_idx args_start arg_count) =
    (case list_get (bm_functions img) (unat func_idx) of
       Some callee \<Rightarrow> hot_call t m func_idx callee dest args_start arg_count
     | None \<Rightarrow> execute_control_instruction env vm t (Call dest func_idx args_start arg_count))"
| "hot_control env vm m img t (TailCall func_idx args_start arg_count) =
    (case list_get (bm_functions img) (unat func_idx) of
       Some callee \<Rightarrow> hot_tail_call env t m func_idx callee args_start arg_count
     | None \<Rightarrow> execute_control_instruction env vm t (TailCall func_idx args_start arg_count))"
| "hot_control env vm m img t (Ret src) = and_then (reg t src) (\<lambda>v t. hot_return env vm (retain_anchor_val v t) v)"
| "hot_control env vm m img t RetNull = hot_return env vm t Null"
| "hot_control env vm m img t i = execute_control_instruction env vm t i"

text \<open>An arm that fails without \<open>sync_frame!\<close>: the frame keeps the counter of the last one.\<close>

definition unsynced :: "usize \<Rightarrow> step_result \<Rightarrow> step_result" where
  "unsynced saved r = (case r of (Err e, t) \<Rightarrow> (Err e, set_pc t saved) | _ \<Rightarrow> r)"

text \<open>The arms of the loop; \<open>step_cold\<close> delegates every other instruction to the handler that \<open>step\<close> uses.\<close>

fun hot_dispatch ::
  "HostEnv \<Rightarrow> FloatEnv \<Rightarrow> VirtualMachine \<Rightarrow> ModuleId \<Rightarrow> BytecodeModule \<Rightarrow> usize \<Rightarrow> VmThreadState \<Rightarrow> Instruction \<Rightarrow> step_result" where
  "hot_dispatch env fenv vm m img saved t (BinaryImmediate dest lhs operation rhs) =
    (case read_reg t lhs of
       None \<Rightarrow> (Panic, t) | Some l \<Rightarrow> unsynced saved (hot_operator env t dest (immediate_binary_value l rhs operation)))"
| "hot_dispatch env fenv vm m img saved t (Typed k operation dest lhs rhs) =
    (case (read_reg t lhs, read_reg t rhs) of
       (Some l, Some r) \<Rightarrow> unsynced saved (hot_operator env t dest (typed_values k operation l r))
     | _ \<Rightarrow> (Panic, t))"
| "hot_dispatch env fenv vm m img saved t (Binary operation dest lhs rhs) =
    (case hot_binary fenv operation of
       None \<Rightarrow> execute_operator_instruction env fenv t (Binary operation dest lhs rhs)
     | Some f \<Rightarrow>
         (case (read_reg t lhs, read_reg t rhs) of
            (Some l, Some r) \<Rightarrow> hot_operator env t dest (f l r)
          | _ \<Rightarrow> (Panic, t)))"
| "hot_dispatch env fenv vm m img saved t (Move dest src) =
    (case read_reg t src of None \<Rightarrow> (Panic, t) | Some v \<Rightarrow> put_reg env (retain_anchor_val v t) dest v)"
| "hot_dispatch env fenv vm m img saved t (LoadNull dest) = write_prim_reg env t dest Null"
| "hot_dispatch env fenv vm m img saved t (Jump offset) = execute_jump_instruction t (Jump offset)"
| "hot_dispatch env fenv vm m img saved t (JumpTrue cond offset) = execute_jump_instruction t (JumpTrue cond offset)"
| "hot_dispatch env fenv vm m img saved t (JumpFalse cond offset) = execute_jump_instruction t (JumpFalse cond offset)"
| "hot_dispatch env fenv vm m img saved t (JumpNull val offset) = execute_jump_instruction t (JumpNull val offset)"
| "hot_dispatch env fenv vm m img saved t (Control i) = hot_control env vm m img t i"
| "hot_dispatch env fenv vm m img saved t instr = dispatch env fenv vm t instr"

section \<open>The interpreter loop\<close>

text \<open>The arms that leave the budget as it is.\<close>

fun consumes_budget :: "Instruction \<Rightarrow> bool" where
  "consumes_budget (BinaryImmediate _ _ _ _) = False"
| "consumes_budget (Typed _ _ _ _ _) = False"
| "consumes_budget (Binary operation _ _ _) = (operation \<notin> {Add, Sub, Lt, Le, Eq, Ne})"
| "consumes_budget (LoadNull _) = False"
| "consumes_budget _ = True"

lemma write_prim_reg_stack: "write_prim_reg env t r v = (res, t') \<Longrightarrow> th_call_stack t' = th_call_stack t"
  by (auto simp: write_prim_reg_def Let_def split: if_splits)

lemma hot_operator_stack: "hot_operator env t r x = (res, t') \<Longrightarrow> th_call_stack t' = th_call_stack t"
  by (auto simp: hot_operator_def split: outcome.splits dest: write_prim_reg_stack)

lemma unsynced_Ok: "unsynced saved r = (Ok s, t') \<longleftrightarrow> r = (Ok s, t')"
  by (auto simp: unsynced_def split: prod.splits outcome.splits)

lemma free_instruction_stack:
  assumes "\<not> consumes_budget instr" "hot_dispatch env fenv vm m img saved t instr = (Ok s, t')"
  shows "th_call_stack t' = th_call_stack t"
  using assms
  by (cases instr)
     (auto simp: unsynced_Ok split: option.splits if_splits dest: hot_operator_stack write_prim_reg_stack)

text \<open>
  The arms after which the frame holds the program counter of the loop: those that call \<open>sync_frame!\<close>, write the counter of the
  frame, or end with \<open>reload_frame!\<close>.  The comparisons call it only for the operands they do not compare themselves.
\<close>

fun lt_inlined :: "VmValue \<Rightarrow> VmValue \<Rightarrow> bool" where
  "lt_inlined (Int32 _) (Int32 _) = True"
| "lt_inlined (Int64 _) (Int64 _) = True"
| "lt_inlined (Uint32 _) (Uint32 _) = True"
| "lt_inlined (Uint64 _) (Uint64 _) = True"
| "lt_inlined _ _ = False"

fun le_inlined :: "VmValue \<Rightarrow> VmValue \<Rightarrow> bool" where
  "le_inlined (Int32 _) (Int32 _) = True"
| "le_inlined (Int64 _) (Int64 _) = True"
| "le_inlined _ _ = False"

fun syncs :: "VmThreadState \<Rightarrow> Instruction \<Rightarrow> bool" where
  "syncs t (BinaryImmediate _ _ _ _) = False"
| "syncs t (Typed _ _ _ _ _) = False"
| "syncs t (Binary operation dest lhs rhs) =
    (case (read_reg t lhs, read_reg t rhs) of
       (Some l, Some r) \<Rightarrow>
         operation \<notin> {Add, Sub, Eq, Ne} \<and> (operation = Lt \<longrightarrow> \<not> lt_inlined l r) \<and> (operation = Le \<longrightarrow> \<not> le_inlined l r)
     | _ \<Rightarrow> False)"
| "syncs t (Move _ _) = False"
| "syncs t (LoadNull _) = False"
| "syncs t (Jump _) = False"
| "syncs t (JumpTrue _ _) = False"
| "syncs t (JumpFalse _ _) = False"
| "syncs t (JumpNull _ _) = False"
| "syncs t _ = True"

definition saved_after :: "usize \<Rightarrow> VmThreadState \<Rightarrow> Instruction \<Rightarrow> VmThreadState \<Rightarrow> usize" where
  "saved_after saved t instr t1 = (if syncs t instr then fr_pc (last (th_call_stack t1)) else saved)"

text \<open>
  One pass through the loop, with the instruction it executed.  The module of the frame is looked up with \<open>unwrap\<close>; the
  lookup is repeated when control enters a frame of another module.
\<close>

definition loop_pass :: "HostEnv \<Rightarrow> FloatEnv \<Rightarrow> VirtualMachine \<Rightarrow> usize \<Rightarrow> VmThreadState \<Rightarrow> Instruction option \<times> step_result" where
  "loop_pass env fenv vm saved t =
    (case current_frame t of
       Inl e \<Rightarrow> (None, Panic, t)
     | Inr f \<Rightarrow>
         (case get_module vm (fr_module_id f) of
            Inl e \<Rightarrow> (None, Panic, t)
          | Inr img \<Rightarrow>
              (case fetch f of
                 None \<Rightarrow> (None, Panic, t)
               | Some instr \<Rightarrow>
                   (Some instr, hot_dispatch env fenv vm (fr_module_id f) img saved (set_pc t (fr_pc f + 1)) instr))))"

definition remaining_code :: "VmThreadState \<Rightarrow> nat" where
  "remaining_code t = (case current_frame t of Inl _ \<Rightarrow> 0 | Inr f \<Rightarrow> length (fr_cached_instructions f) - unat (fr_pc f))"

lemma remaining_code_stack: "th_call_stack t' = th_call_stack t \<Longrightarrow> remaining_code t' = remaining_code t"
  by (simp add: remaining_code_def current_frame_def)

lemma free_pass_advances:
  assumes "loop_pass env fenv vm saved t = (Some instr, Ok s, t')" and "\<not> consumes_budget instr"
  shows "remaining_code t' < remaining_code t"
proof -
  from assms(1) obtain f where f: "current_frame t = Inr f" and pc: "fr_pc f \<noteq> -1" "unat (fr_pc f) < length (fr_cached_instructions f)"
    and hot: "hot_dispatch env fenv vm (fr_module_id f) (projr (get_module vm (fr_module_id f))) saved (set_pc t (fr_pc f + 1)) instr = (Ok s, t')"
    by (auto simp: loop_pass_def fetch_def list_get_def split: sum.splits option.splits if_splits)
  have "remaining_code t' = remaining_code (set_pc t (fr_pc f + 1))"
    by (rule remaining_code_stack) (rule free_instruction_stack [OF assms(2) hot])
  moreover have "unat (fr_pc f + 1) = Suc (unat (fr_pc f))"
    using pc(1) unatSuc [of "fr_pc f"] by (metis add.commute add_eq_0_iff)
  ultimately show ?thesis
    using f pc by (auto simp: remaining_code_def current_frame_def set_pc_def split: if_splits)
qed

function budget_loop :: "HostEnv \<Rightarrow> FloatEnv \<Rightarrow> VirtualMachine \<Rightarrow> nat \<Rightarrow> usize \<Rightarrow> VmThreadState \<Rightarrow> step_result" where
  "budget_loop env fenv vm budget saved t =
    (if budget = 0 then (Ok Continue, t)
     else
       case loop_pass env fenv vm saved t of
         (None, res, t1) \<Rightarrow> (res, t1)
       | (Some instr, res, t1) \<Rightarrow>
           (if res = Ok Continue
            then budget_loop env fenv vm (if consumes_budget instr then budget - 1 else budget) (saved_after saved t instr t1) t1
            else (res, t1)))"
  by pat_completeness auto
termination
  by (relation "measures [\<lambda>(env, fenv, vm, budget, saved, t). budget, \<lambda>(env, fenv, vm, budget, saved, t). remaining_code t]")
     (auto dest!: free_pass_advances [OF sym])

declare budget_loop.simps [simp del]

definition execute_with_budget :: "HostEnv \<Rightarrow> FloatEnv \<Rightarrow> VirtualMachine \<Rightarrow> VmThreadState \<Rightarrow> usize \<Rightarrow> step_result" where
  "execute_with_budget env fenv vm t budget =
    (case pop_pending_drop t of
       Some (s, t1) \<Rightarrow> (Ok s, t1)
     | None \<Rightarrow>
         (case current_frame t of
            Inl e \<Rightarrow> (Err e, t)
          | Inr f \<Rightarrow>
              (case get_module vm (fr_module_id f) of
                 Inl _ \<Rightarrow> (Panic, t)
               | Inr _ \<Rightarrow> budget_loop env fenv vm (unat budget) (fr_pc f) t)))"

section \<open>Entry points\<close>

text \<open>
  The arguments fill the first registers of the window and are retained; the flag that says the frame holds objects is not set
  for them.
\<close>

definition prepare_function ::
  "VirtualMachine \<Rightarrow> VmThreadState \<Rightarrow> ModuleId \<Rightarrow> FuncIdx \<Rightarrow> VmValue list \<Rightarrow> (VmError, unit) outcome \<times> VmThreadState" where
  "prepare_function vm t m func_idx args =
    (if validate_format (vm_graph vm) \<noteq> Inr () then (Err UnsupportedBytecodeFormat, t)
     else
       and_then (attempt (get_function vm m func_idx) t) (\<lambda>func t.
         if length args \<noteq> unat (bf_param_count func)
         then (Err (ExpectedCount ''arguments'' (unat (bf_param_count func)) (length args)), t)
         else
           (let t1 = t\<lparr>th_call_stack := [], th_registers := [], th_register_base := 0\<rparr>;
                values = args @ replicate (frame_registers func - length args) Null in
            and_then (attempt (push_frame t1 m func_idx 0 None (frame_registers func) (bf_instructions func)) t1) (\<lambda>t2 _.
              case place_args (th_register_base t2) values t2 of
                None \<Rightarrow> (Panic, t2)
              | Some t3 \<Rightarrow> (Ok (), t3\<lparr>th_has_objects := th_has_objects t2\<rparr>)))))"

text \<open>The loop of \<open>run_function\<close> may run forever; then it has no value.\<close>

partial_function (option) execute_loop ::
  "HostEnv \<Rightarrow> FloatEnv \<Rightarrow> VirtualMachine \<Rightarrow> VmThreadState \<Rightarrow> ((VmError, VmValue) outcome \<times> VmThreadState) option" where
  "execute_loop env fenv vm t =
    (case step env fenv vm t of
       (Err e, t1) \<Rightarrow> Some (Err e, t1)
     | (Panic, t1) \<Rightarrow> Some (Panic, t1)
     | (Ok s, t1) \<Rightarrow>
         (case s of
            Continue \<Rightarrow> execute_loop env fenv vm t1
          | Return v _ _ \<Rightarrow> Some (Ok v, t1)
          | Suspend _ _ _ \<Rightarrow> Some (Err UnresolvedHostBlocked, t1)))"

definition run_function ::
  "HostEnv \<Rightarrow> FloatEnv \<Rightarrow> VirtualMachine \<Rightarrow> VmThreadState \<Rightarrow> ModuleId \<Rightarrow> FuncIdx \<Rightarrow> VmValue list \<Rightarrow>
   ((VmError, VmValue) outcome \<times> VmThreadState) option" where
  "run_function env fenv vm t m func_idx args =
    (case prepare_function vm t m func_idx args of
       (Err e, t1) \<Rightarrow> Some (Err e, t1)
     | (Panic, t1) \<Rightarrow> Some (Panic, t1)
     | (Ok _, t1) \<Rightarrow> execute_loop env fenv vm t1)"

end
