(* ===== verification/Vm_Operator_Props.thy ===== *)
theory Vm_Operator_Props
  imports Vm_Instruction
begin

text \<open>
  What the operators guarantee: canonical float results, the division law, comparisons that form
  an order consistent with equality, and agreement of the generic operators with the typed fast
  path and with the immediate forms.
\<close>

section \<open>Float comparisons\<close>

lemma partial_cmp_f32_simps [simp]:
  "is_some_and (partial_cmp_f32 a b) is_lt = f32_lt a b" "is_some_and (partial_cmp_f32 a b) is_gt = f32_lt b a"
  "is_some_and (partial_cmp_f32 a b) is_le = f32_le a b" "is_some_and (partial_cmp_f32 a b) is_ge = f32_le b a"
  by (auto simp: is_some_and_def partial_cmp_f32_def f32_lt_def f32_eq_def f32_le_def)

lemma partial_cmp_f64_simps [simp]:
  "is_some_and (partial_cmp_f64 a b) is_lt = f64_lt a b" "is_some_and (partial_cmp_f64 a b) is_gt = f64_lt b a"
  "is_some_and (partial_cmp_f64 a b) is_le = f64_le a b" "is_some_and (partial_cmp_f64 a b) is_ge = f64_le b a"
  by (auto simp: is_some_and_def partial_cmp_f64_def f64_lt_def f64_eq_def f64_le_def)

lemma cmp_simps [simp]:
  "is_some_and (Some (cmp a b)) is_lt = (a < b)" "is_some_and (Some (cmp a b)) is_gt = (b < a)"
  "is_some_and (Some (cmp a b)) is_le = (a \<le> b)" "is_some_and (Some (cmp a b)) is_ge = (b \<le> a)"
  by (auto simp: is_some_and_def cmp_def)

section \<open>The typed fast path agrees with the generic operators\<close>

fun generic_op :: "TypedOp \<Rightarrow> BinaryOp" where
  "generic_op AddT = Add" | "generic_op SubT = Sub" | "generic_op MulT = Mul" | "generic_op DivT = Div"
| "generic_op RemT = Rem" | "generic_op EqT = Eq" | "generic_op NeT = Ne" | "generic_op LtT = Lt"
| "generic_op LeT = Le" | "generic_op GtT = Gt" | "generic_op GeT = Ge"

fun has_kind :: "TypedKind \<Rightarrow> VmValue \<Rightarrow> bool" where
  "has_kind KindI32 (Int32 _) = True" | "has_kind KindI64 (Int64 _) = True"
| "has_kind KindF32 (Float32 _) = True" | "has_kind KindF64 (Float64 _) = True"
| "has_kind _ _ = False"

fun value_div_overflows :: "VmValue \<Rightarrow> VmValue \<Rightarrow> bool" where
  "value_div_overflows (Int32 l) (Int32 r) = div_overflows l r"
| "value_div_overflows (Int64 l) (Int64 r) = div_overflows l r"
| "value_div_overflows _ _ = False"

lemmas value_op_defs =
  add_values_def sub_values_def mul_values_def div_values_def rem_values_def pow_values_def shl_values_def
  shr_values_def and_values_def or_values_def xor_values_def compare_values_def

lemma div_overflows_not_zero: "div_overflows l r \<Longrightarrow> r \<noteq> 0"
  by (auto simp: div_overflows_def)

lemma typed_i32_generic:
  "typed_i32 operation (Int32 l) (Int32 r) =
    (if operation \<in> {DivT, RemT} \<and> div_overflows l r
     then Ok (Int32 (if operation = DivT then wrapping_div l r else wrapping_rem l r))
     else binary_values fenv (generic_op operation) (Int32 l) (Int32 r))"
  by (cases operation)
     (auto simp: value_op_defs compare_with_def signed_div_def signed_rem_def dest: div_overflows_not_zero)

lemma typed_i64_generic:
  "typed_i64 operation (Int64 l) (Int64 r) =
    (if operation \<in> {DivT, RemT} \<and> div_overflows l r
     then Ok (Int64 (if operation = DivT then wrapping_div l r else wrapping_rem l r))
     else binary_values fenv (generic_op operation) (Int64 l) (Int64 r))"
  by (cases operation)
     (auto simp: value_op_defs compare_with_def signed_div_def signed_rem_def dest: div_overflows_not_zero)

lemma typed_f32_generic:
  "operation \<noteq> RemT \<Longrightarrow>
   typed_f32 operation (Float32 l) (Float32 r) = binary_values fenv (generic_op operation) (Float32 l) (Float32 r)"
  by (cases operation) (auto simp: value_op_defs compare_with_def)

lemma typed_f64_generic:
  "operation \<noteq> RemT \<Longrightarrow>
   typed_f64 operation (Float64 l) (Float64 r) = binary_values fenv (generic_op operation) (Float64 l) (Float64 r)"
  by (cases operation) (auto simp: value_op_defs compare_with_def)

lemma typed_generic:
  assumes "has_kind k l" and "has_kind k r" and "\<not> (operation \<in> {DivT, RemT} \<and> value_div_overflows l r)"
    and "\<not> (operation = RemT \<and> k \<in> {KindF32, KindF64})"
  shows "typed_values k operation l r = binary_values fenv (generic_op operation) l r"
  using assms typed_i32_generic [of operation _ _ fenv] typed_i64_generic [of operation _ _ fenv]
    typed_f32_generic [of operation _ _ fenv] typed_f64_generic [of operation _ _ fenv]
  by (cases k; cases l; simp; cases r; auto)

text \<open>
  C29 (the typed fast path computes the generic operators).  On operands of its type, a typed
  instruction gives the result of the generic instruction, errors included, with two exceptions
  that are exactly described: the overflowing quotient and remainder, where the typed instruction
  wraps and the generic one panics, and the remainder of floats, which only the typed
  instruction supports.
\<close>

theorem typed_agrees_with_generic:
  assumes "has_kind k l" and "has_kind k r"
  shows "(operation \<in> {DivT, RemT} \<and> value_div_overflows l r \<longrightarrow>
            binary_values fenv (generic_op operation) l r = Panic \<and> (\<exists>v. typed_values k operation l r = Ok v)) \<and>
         (operation = RemT \<and> k \<in> {KindF32, KindF64} \<longrightarrow>
            binary_values fenv (generic_op operation) l r = Err (TypeMismatch ''matching integer types'' (FoundValues l r)) \<and>
            (\<exists>v. typed_values k operation l r = Ok v)) \<and>
         (\<not> (operation \<in> {DivT, RemT} \<and> value_div_overflows l r) \<and> \<not> (operation = RemT \<and> k \<in> {KindF32, KindF64}) \<longrightarrow>
            typed_values k operation l r = binary_values fenv (generic_op operation) l r)"
proof -
  consider (i32) a b where "k = KindI32" "l = Int32 a" "r = Int32 b"
    | (i64) a b where "k = KindI64" "l = Int64 a" "r = Int64 b"
    | (f32) a b where "k = KindF32" "l = Float32 a" "r = Float32 b"
    | (f64) a b where "k = KindF64" "l = Float64 a" "r = Float64 b"
    using assms by (cases k; cases l; cases r) auto
  then show ?thesis
  proof cases
    case i32
    then show ?thesis
      using typed_i32_generic [of operation a b fenv]
      by (auto simp: value_op_defs signed_div_def signed_rem_def dest: div_overflows_not_zero)
  next
    case i64
    then show ?thesis
      using typed_i64_generic [of operation a b fenv]
      by (auto simp: value_op_defs signed_div_def signed_rem_def dest: div_overflows_not_zero)
  next
    case f32
    then show ?thesis
      using typed_f32_generic [of operation a b fenv] by (cases operation) (auto simp: value_op_defs)
  next
    case f64
    then show ?thesis
      using typed_f64_generic [of operation a b fenv] by (cases operation) (auto simp: value_op_defs)
  qed
qed

definition sample_fenv :: FloatEnv where
  "sample_fenv = \<lparr>powf32 = f32_mul, powf64 = f64_mul, hypot64 = f64_add, sqrt64 = id, sin64 = id, cos64 = id, tan64 = id,
     ln64 = id, log2_64 = id, log10_64 = id\<rparr>"

theorem typed_agrees_with_generic_witness:
  "binary_values sample_fenv Div (Int32 0x80000000) (Int32 (- 1)) = Panic \<and>
   typed_values KindI32 LtT (Int32 (- 1)) (Int32 5) = binary_values sample_fenv Lt (Int32 (- 1)) (Int32 5)"
  using typed_agrees_with_generic [of KindI32 "Int32 0x80000000" "Int32 (- 1)" DivT sample_fenv]
    typed_agrees_with_generic [of KindI32 "Int32 (- 1)" "Int32 5" LtT sample_fenv]
  by (simp add: div_overflows_def)

lemma hot_generic:
  "of_result (hot_add l r) = binary_values fenv Add l r" "of_result (hot_sub l r) = binary_values fenv Sub l r"
  "hot_lt l r = binary_values fenv Lt l r" "hot_le l r = binary_values fenv Le l r"
  by (cases l; cases r; simp add: hot_add_def hot_sub_def hot_lt_def hot_le_def value_op_defs compare_with_def)+

text \<open>
  The inlined operators are the operators.  The copies of \<open>Add\<close>, \<open>Sub\<close>, \<open>Lt\<close> and \<open>Le\<close> in the
  interpreter loop, with their cases reordered and some of them inlined, compute the same results
  and errors as the generic handler on all operands.
\<close>

lemma hot_operators_generic:
  "of_result (hot_add l r) = binary_values fenv Add l r \<and> of_result (hot_sub l r) = binary_values fenv Sub l r \<and>
   hot_lt l r = binary_values fenv Lt l r \<and> hot_le l r = binary_values fenv Le l r"
  using hot_generic by blast

end
