(* ===== verification/Vm_Operator_Laws.thy ===== *)
theory Vm_Operator_Laws
  imports Vm_Operator_Props
begin

text \<open>Algebraic laws of the operators, the immediate forms, array indices and numeric casts.\<close>

section \<open>Canonical results\<close>

text \<open>The machine keeps one NaN and one zero per float type.\<close>

fun canonical_value :: "VmValue \<Rightarrow> bool" where
  "canonical_value (Float32 x) = canonical_f32 x"
| "canonical_value (Float64 x) = canonical_f64 x"
| "canonical_value _ = True"

lemma map_ok_Ok_iff [simp]: "map_ok f m = Ok b \<longleftrightarrow> (\<exists>a. m = Ok a \<and> b = f a)"
  by (cases m) auto

lemma of_result_Ok_iff [simp]: "of_result m = Ok b \<longleftrightarrow> m = Inr b"
  by (cases m) auto

lemma compare_with_Ok: "compare_with p l r = Ok v \<Longrightarrow> \<exists>b. v = Bool b"
  by (auto simp: compare_with_def)

lemma arith_canonical:
  "add_values l r = Inr v \<Longrightarrow> canonical_value v" "sub_values l r = Inr v \<Longrightarrow> canonical_value v"
  "mul_values l r = Inr v \<Longrightarrow> canonical_value v" "pow_values fenv l r = Inr v \<Longrightarrow> canonical_value v"
  by (auto simp: add_values_def sub_values_def mul_values_def pow_values_def split: VmValue.splits)

lemma division_canonical:
  "div_values l r = Ok v \<Longrightarrow> canonical_value v" "rem_values l r = Ok v \<Longrightarrow> canonical_value v"
  by (auto simp: div_values_def rem_values_def split: VmValue.splits)

lemma bits_canonical:
  "and_values l r = Inr v \<Longrightarrow> canonical_value v" "or_values l r = Inr v \<Longrightarrow> canonical_value v"
  "xor_values l r = Inr v \<Longrightarrow> canonical_value v" "shl_values l r = Inr v \<Longrightarrow> canonical_value v"
  "shr_values l r = Inr v \<Longrightarrow> canonical_value v"
  by (auto simp: and_values_def or_values_def xor_values_def shl_values_def shr_values_def
           split: VmValue.splits sum.splits)

lemma binary_canonical: "binary_values fenv operation l r = Ok v \<Longrightarrow> canonical_value v"
  by (cases operation)
     (auto dest: arith_canonical division_canonical bits_canonical compare_with_Ok)

lemma unary_canonical: "unary_value operation x = Ok v \<Longrightarrow> canonical_value v"
  by (cases operation; cases x) auto

lemma immediate_signed_canonical:
  "immediate_signed operation Int32 l32 r32 = Ok v \<Longrightarrow> canonical_value v"
  "immediate_signed operation Int64 l64 r64 = Ok v \<Longrightarrow> canonical_value v"
  by (cases operation; auto)+

lemma immediate_unsigned_canonical:
  "immediate_unsigned operation Uint32 l32 r32 = Ok v \<Longrightarrow> canonical_value v"
  "immediate_unsigned operation Uint64 l64 r64 = Ok v \<Longrightarrow> canonical_value v"
  by (cases operation; auto)+

lemma immediate_float_canonical:
  "immediate_f32 operation l32 r32 = Ok v \<Longrightarrow> canonical_value v"
  "immediate_f64 operation l64 r64 = Ok v \<Longrightarrow> canonical_value v"
  by (cases operation; auto)+

lemma immediate_canonical: "immediate_binary_value l imm operation = Ok v \<Longrightarrow> canonical_value v"
  by (auto simp: immediate_binary_value_def split: VmValue.splits ImmediateValue.splits
      dest: immediate_signed_canonical immediate_unsigned_canonical immediate_float_canonical)

lemma cast_canonical: "cast_number x ty = Some v \<Longrightarrow> canonical_value v"
  by (cases x; cases ty) (auto simp: cast_from_f32_def cast_from_f64_def)

lemma typed_canonical: "typed_values k operation l r = Ok v \<Longrightarrow> canonical_value v"
  by (cases k; cases operation; cases l; simp; cases r; auto split: if_splits)

section \<open>The division law\<close>

lemma signed_division_law: "(wrapping_div l r * r + wrapping_rem l r :: 'a::len word) = l"
proof -
  have "wrapping_div l r * r + wrapping_rem l r = word_of_int (sint l sdiv sint r * sint r + sint l smod sint r)"
    by (simp add: wrapping_div_def wrapping_rem_def)
  also have "sint l sdiv sint r * sint r + sint l smod sint r = sint l"
    by (rule sdiv_mult_smod_eq)
  finally show ?thesis by simp
qed

lemma word_division_law: "(l div r * r + l mod r :: 'a::len word) = l"
  by (rule div_mult_mod_eq)

lemma signed_ok:
  "signed_div l r = Ok q \<longleftrightarrow> r \<noteq> 0 \<and> \<not> div_overflows l r \<and> q = wrapping_div l r"
  "signed_rem l r = Ok q \<longleftrightarrow> r \<noteq> 0 \<and> \<not> div_overflows l r \<and> q = wrapping_rem l r"
  by (auto simp: signed_div_def signed_rem_def)

lemma unsigned_ok:
  "unsigned_div l r = Ok q \<longleftrightarrow> r \<noteq> 0 \<and> q = l div r" "unsigned_rem l r = Ok q \<longleftrightarrow> r \<noteq> 0 \<and> q = l mod r"
  by (auto simp: unsigned_div_def unsigned_rem_def)

text \<open>
  Quotient and remainder fit together.  Whenever \<open>Rem\<close> gives a result, \<open>Div\<close> gives one too, and
  multiplying the quotient by the divisor and adding the remainder, with the machine's own \<open>Mul\<close>
  and \<open>Add\<close>, gives the dividend back, at all eight integer types.
\<close>

lemma division_law:
  assumes "rem_values l r = Ok m"
  shows "\<exists>q p. div_values l r = Ok q \<and> mul_values q r = Inr p \<and> add_values p m = Inr l"
  using assms
  by (cases l; cases r; simp add: rem_values_def;
      auto simp: div_values_def mul_values_def add_values_def signed_ok unsigned_ok
        signed_division_law word_division_law)

section \<open>Comparisons\<close>

fun flip :: "Ordering \<Rightarrow> Ordering" where
  "flip Less = Greater" | "flip Equal = Equal" | "flip Greater = Less"

lemma cmp_laws:
  "cmp a b = flip (cmp b a)" "cmp a b = Equal \<longleftrightarrow> a = b"
  by (auto simp: cmp_def split: if_splits)

lemma partial_cmp_f32_laws:
  "partial_cmp_f32 a b = map_option flip (partial_cmp_f32 b a)" "partial_cmp_f32 a b = Some Equal \<longleftrightarrow> f32_eq a b"
  by (auto simp: partial_cmp_f32_def f32_lt_def f32_eq_def split: if_splits)

lemma partial_cmp_f64_laws:
  "partial_cmp_f64 a b = map_option flip (partial_cmp_f64 b a)" "partial_cmp_f64 a b = Some Equal \<longleftrightarrow> f64_eq a b"
  by (auto simp: partial_cmp_f64_def f64_lt_def f64_eq_def split: if_splits)

lemma compare_values_flip: "compare_values l r = Inr c \<Longrightarrow> compare_values r l = Inr (map_option flip c)"
  by (cases l; cases r; simp add: compare_values_def;
      auto simp: cmp_laws(1) [symmetric] partial_cmp_f32_laws(1) [symmetric] partial_cmp_f64_laws(1) [symmetric])

lemma compare_values_equal: "compare_values l r = Inr c \<Longrightarrow> c = Some Equal \<longleftrightarrow> value_eq l r"
  by (cases l; cases r; simp add: compare_values_def;
      auto simp: cmp_laws(2) partial_cmp_f32_laws(2) partial_cmp_f64_laws(2) of_bool_def split: if_splits
        intro: signed_word_eqI)

lemma compare_values_less:
  "compare_values l r = Inr (Some Less) \<longleftrightarrow>
    (case (l, r) of
       (Bool a, Bool b) \<Rightarrow> \<not> a \<and> b
     | (Int8 a, Int8 b) \<Rightarrow> sint a < sint b | (Int16 a, Int16 b) \<Rightarrow> sint a < sint b
     | (Int32 a, Int32 b) \<Rightarrow> sint a < sint b | (Int64 a, Int64 b) \<Rightarrow> sint a < sint b
     | (Uint8 a, Uint8 b) \<Rightarrow> a < b | (Uint16 a, Uint16 b) \<Rightarrow> a < b
     | (Uint32 a, Uint32 b) \<Rightarrow> a < b | (Uint64 a, Uint64 b) \<Rightarrow> a < b
     | (Float32 a, Float32 b) \<Rightarrow> f32_lt a b | (Float64 a, Float64 b) \<Rightarrow> f64_lt a b
     | _ \<Rightarrow> False)"
  by (cases l; cases r; simp add: compare_values_def;
      auto simp: cmp_def partial_cmp_f32_def partial_cmp_f64_def split: if_splits)

lemma compare_values_trans:
  assumes "compare_values l r = Inr (Some Less)" and "compare_values r s = Inr (Some Less)"
  shows "compare_values l s = Inr (Some Less)"
proof -
  have f: "f32_lt a b \<Longrightarrow> f32_lt b c \<Longrightarrow> f32_lt a c" "f64_lt x y \<Longrightarrow> f64_lt y z \<Longrightarrow> f64_lt x z"
    for a b c x y z by (simp_all add: f32_lt_def f64_lt_def)
  show ?thesis
    using assms unfolding compare_values_less by (cases l; simp; cases r; simp; cases s; auto intro: f)
qed

text \<open>
  Comparison is an order consistent with equality.  When two values are comparable, swapping
  them swaps the outcome, the outcome is \<open>Equal\<close> exactly when \<open>Eq\<close> holds, and less-than is
  transitive; only NaN operands give no outcome.
\<close>

lemma comparison_order:
  assumes "compare_values l r = Inr c"
  shows "compare_values r l = Inr (map_option flip c) \<and> (c = Some Equal \<longleftrightarrow> value_eq l r) \<and>
         (c = Some Less \<and> compare_values r s = Inr (Some Less) \<longrightarrow> compare_values l s = Inr (Some Less))"
  using assms compare_values_flip compare_values_equal compare_values_trans by blast

section \<open>Immediate operands\<close>

fun immediate_op :: "ImmediateBinaryOp \<Rightarrow> BinaryOp" where
  "immediate_op ImmAdd = Add" | "immediate_op ImmSubtract = Sub" | "immediate_op ImmMultiply = Mul"
| "immediate_op ImmDivide = Div" | "immediate_op ImmRemainder = Rem" | "immediate_op ImmEqual = Eq"
| "immediate_op ImmNotEqual = Ne" | "immediate_op ImmLess = Lt" | "immediate_op ImmLessEqual = Le"
| "immediate_op ImmGreater = Gt" | "immediate_op ImmGreaterEqual = Ge" | "immediate_op ImmShiftLeft = Shl"
| "immediate_op ImmShiftRight = Shr" | "immediate_op ImmBitwiseAnd = And" | "immediate_op ImmBitwiseOr = Or"
| "immediate_op ImmBitwiseXor = Xor"

text \<open>The value a register would hold to be used instead of the immediate.\<close>

fun immediate_as_value :: "ImmediateValue \<Rightarrow> VmValue" where
  "immediate_as_value (I32 x) = Int32 x" | "immediate_as_value (I64 x) = Int64 x"
| "immediate_as_value (U32 x) = Uint32 x" | "immediate_as_value (U64 x) = Uint64 x"
| "immediate_as_value (F32 x) = Float32 x" | "immediate_as_value (F64 x) = Float64 x"

fun same_type :: "VmValue \<Rightarrow> ImmediateValue \<Rightarrow> bool" where
  "same_type (Int32 _) (I32 _) = True" | "same_type (Int64 _) (I64 _) = True"
| "same_type (Uint32 _) (U32 _) = True" | "same_type (Uint64 _) (U64 _) = True"
| "same_type (Float32 _) (F32 _) = True" | "same_type (Float64 _) (F64 _) = True"
| "same_type _ _ = False"

definition is_float :: "VmValue \<Rightarrow> bool" where
  "is_float v = (case v of Float32 _ \<Rightarrow> True | Float64 _ \<Rightarrow> True | _ \<Rightarrow> False)"

lemmas immediate_simps = immediate_binary_value_def value_op_defs compare_with_def float_bitwise_error_def

lemma immediate_i32:
  "immediate_binary_value (Int32 l) (I32 r) operation = binary_values fenv (immediate_op operation) (Int32 l) (Int32 r)"
  by (cases operation) (simp_all add: immediate_simps)

lemma scast_ucast_u32: "(scast (r :: 64 word) :: u32) = ucast r"
  by (rule bit_word_eqI) (simp add: bit_simps bit_signed_iff)

lemma immediate_i64:
  "immediate_binary_value (Int64 l) (I64 r) operation = binary_values fenv (immediate_op operation) (Int64 l) (Int64 r)"
  by (cases operation) (simp_all add: immediate_simps scast_ucast_u32)

lemma immediate_u32:
  "immediate_binary_value (Uint32 l) (U32 r) operation = binary_values fenv (immediate_op operation) (Uint32 l) (Uint32 r)"
  by (cases operation) (simp_all add: immediate_simps)

lemma immediate_u64:
  "immediate_binary_value (Uint64 l) (U64 r) operation = binary_values fenv (immediate_op operation) (Uint64 l) (Uint64 r)"
  by (cases operation) (simp_all add: immediate_simps)

lemma immediate_f32_generic:
  "operation \<noteq> ImmRemainder \<Longrightarrow> binary_values fenv (immediate_op operation) (Float32 l) (Float32 r) = Ok v \<Longrightarrow>
   immediate_binary_value (Float32 l) (F32 r) operation = Ok v"
  by (cases operation) (auto simp: immediate_simps)

lemma immediate_f64_generic:
  "operation \<noteq> ImmRemainder \<Longrightarrow> binary_values fenv (immediate_op operation) (Float64 l) (Float64 r) = Ok v \<Longrightarrow>
   immediate_binary_value (Float64 l) (F64 r) operation = Ok v"
  by (cases operation) (auto simp: immediate_simps)

text \<open>
  An immediate operand is a constant operand.  \<open>BinaryImmediate\<close> on a left operand of the
  immediate's type gives the same result, error or panic as the generic operator on two registers,
  at the four integer types for all sixteen operations; on floats it does so whenever the generic
  operator succeeds, and in addition it supports the remainder.
\<close>

lemma immediate_agrees_with_generic:
  assumes "same_type l imm"
  shows "(\<not> is_float l \<longrightarrow>
            immediate_binary_value l imm operation = binary_values fenv (immediate_op operation) l (immediate_as_value imm)) \<and>
         (is_float l \<and> operation \<noteq> ImmRemainder \<and>
            binary_values fenv (immediate_op operation) l (immediate_as_value imm) = Ok v \<longrightarrow>
            immediate_binary_value l imm operation = Ok v)"
  using assms
  by (cases "(l, imm)" rule: same_type.cases)
     (auto simp: is_float_def immediate_i32 [of _ _ _ fenv] immediate_i64 [of _ _ _ fenv]
        immediate_u32 [of _ _ _ fenv] immediate_u64 [of _ _ _ fenv]
      intro: immediate_f32_generic immediate_f64_generic)

section \<open>Array indices\<close>

text \<open>
  Array indices count from either end.  An index resolves exactly when it lies between minus
  the length and the length, to itself or, when negative, to its distance from the end; the
  resolved index is always in range.
\<close>

lemma resolve_index_correct:
  "resolve_raw_array_index i len =
     (if - int len \<le> i \<and> i < int len then Some (nat (i mod int len)) else None) \<and>
   (\<forall>k. resolve_raw_array_index i len = Some k \<longrightarrow> k < len)"
proof -
  have "i mod int len = (if i < 0 then int len + i else i)" if "- int len \<le> i" "i < int len"
  proof (cases "i < 0")
    case True
    have "i mod int len = (int len + i) mod int len" by simp
    also have "\<dots> = int len + i" using True that by (intro mod_pos_pos_trivial) simp_all
    finally show ?thesis using True by simp
  next
    case False
    with that show ?thesis by (simp add: mod_pos_pos_trivial)
  qed
  then show ?thesis by (auto simp: resolve_raw_array_index_def Let_def)
qed

end
