(* ===== verification/Vm_Thread_Props.thy ===== *)
theory Vm_Thread_Props
  imports Vm_Thread
begin

text \<open>
  Register windows.  Each frame owns the registers from its base up to the base of the next frame;
  the flag saved with a frame tells whether the window below it may hold object references.
  The invariant \<open>thread_wf\<close> makes the unchecked register accesses of the source safe and the flags
  sound, so that skipping the release loop of \<open>pop_frame\<close> for a frame without objects leaks nothing.
\<close>

section \<open>The invariant\<close>

definition flag_covers :: "VmValue list \<Rightarrow> nat \<Rightarrow> nat \<Rightarrow> bool \<Rightarrow> bool" where
  "flag_covers regs lo hi flag \<longleftrightarrow> (\<forall>i. lo \<le> i \<and> i < hi \<longrightarrow> is_object (regs ! i) \<longrightarrow> flag)"

text \<open>The windows from the top of the stack down; \<open>flag\<close> is the flag of the topmost window.\<close>

fun windows_ok :: "VmValue list \<Rightarrow> nat \<Rightarrow> bool \<Rightarrow> CallFrame list \<Rightarrow> bool" where
  "windows_ok regs hi flag [] = flag_covers regs 0 hi flag"
| "windows_ok regs hi flag (f # fs) =
    (fr_register_base f \<le> hi \<and> flag_covers regs (fr_register_base f) hi flag \<and>
     windows_ok regs (fr_register_base f) (fr_has_objects f) fs)"

definition current_base :: "CallFrame list \<Rightarrow> nat" where
  "current_base stack = (if stack = [] then 0 else fr_register_base (last stack))"

definition thread_wf :: "VmThreadState \<Rightarrow> bool" where
  "thread_wf t \<longleftrightarrow>
     th_register_top t \<le> length (th_registers t) \<and> th_register_base t = current_base (th_call_stack t) \<and>
     windows_ok (th_registers t) (th_register_top t) (th_has_objects t) (rev (th_call_stack t)) \<and>
     flag_covers (th_registers t) (th_register_top t) (length (th_registers t)) False"

lemma flag_covers_cong:
  "(\<And>i. lo \<le> i \<Longrightarrow> i < hi \<Longrightarrow> is_object (regs' ! i) \<Longrightarrow> is_object (regs ! i)) \<Longrightarrow>
   flag_covers regs lo hi flag \<Longrightarrow> flag_covers regs' lo hi flag"
  by (auto simp: flag_covers_def)

text \<open>A window stack only depends on the registers below its top.\<close>

lemma windows_ok_cong:
  "(\<And>i. i < hi \<Longrightarrow> is_object (regs' ! i) \<Longrightarrow> is_object (regs ! i)) \<Longrightarrow>
   windows_ok regs hi flag fs \<Longrightarrow> windows_ok regs' hi flag fs"
proof (induction fs arbitrary: hi flag)
  case Nil
  then show ?case by (auto intro: flag_covers_cong)
next
  case (Cons f fs)
  then show ?case by (auto intro: flag_covers_cong)
qed

lemma thread_wf_new: "thread_wf (new_thread gq tq)"
  by (simp add: thread_wf_def new_thread_def flag_covers_def current_base_def)

lemma rev_stack: "stack \<noteq> [] \<Longrightarrow> rev stack = last stack # rev (butlast stack)"
  by (metis append_butlast_last_id rev_eq_Cons_iff rev_rev_ident)

lemma current_base_le: "windows_ok regs hi flag (rev stack) \<Longrightarrow> current_base stack \<le> hi"
  by (cases "stack = []") (simp_all add: current_base_def rev_stack)

section \<open>Push\<close>

lemma length_resize: "new_top \<le> length (resize_registers rs new_top)" "length rs \<le> length (resize_registers rs new_top)"
  by (auto simp: resize_registers_def)

lemma nth_resize:
  "i < length (resize_registers rs n) \<Longrightarrow>
   resize_registers rs n ! i = (if i < length rs then rs ! i else Null)"
  by (auto simp: resize_registers_def nth_append)

lemma push_frame_wf:
  assumes wf: "thread_wf t" and push: "push_frame t m f pc d n code = Inr t'"
  shows "thread_wf t'"
proof -
  let ?top = "th_register_top t" and ?rs = "resize_registers (th_registers t) (th_register_top t + n)"
  from push have t': "th_registers t' = ?rs" "th_register_base t' = ?top" "th_register_top t' = ?top + n"
    "\<not> th_has_objects t'"
    "th_call_stack t' = th_call_stack t @ [\<lparr>fr_module_id = m, fr_func_idx = f, fr_pc = pc, fr_register_base = ?top,
       fr_return_dest = d, fr_cached_instructions = code, fr_has_objects = th_has_objects t\<rparr>]"
    by (auto simp: push_frame_def Let_def split: if_splits)
  from wf have top: "?top \<le> length (th_registers t)"
    and win: "windows_ok (th_registers t) ?top (th_has_objects t) (rev (th_call_stack t))"
    and above: "flag_covers (th_registers t) ?top (length (th_registers t)) False"
    by (simp_all add: thread_wf_def)
  have "\<not> is_object (?rs ! i)" if "?top \<le> i" "i < length ?rs" for i
    using above that nth_resize [OF that(2)] by (auto simp: flag_covers_def)
  moreover have "windows_ok ?rs ?top (th_has_objects t) (rev (th_call_stack t))"
  proof (rule windows_ok_cong [OF _ win])
    fix i
    assume "i < ?top" and obj: "is_object (?rs ! i)"
    with top length_resize(2) [of "th_registers t" "?top + n"] have "i < length ?rs" "i < length (th_registers t)" by auto
    with nth_resize obj show "is_object (th_registers t ! i)" by metis
  qed
  ultimately show ?thesis
    using length_resize(1) [of "?top + n" "th_registers t"]
    by (auto simp: thread_wf_def t' current_base_def flag_covers_def)
qed

lemma push_frame_depth:
  "push_frame t m f pc d n code = Inr t' \<Longrightarrow>
   length (th_call_stack t') \<le> unat (max_call_depth (tq_limits (thread_quota t)))"
  by (auto simp: push_frame_def Let_def split: if_splits)

section \<open>Pop\<close>

lemma clear_window_spec:
  assumes "hi \<le> length (th_registers t)" and "lo \<le> hi"
  shows "\<exists>t'. clear_window env [lo..<hi] t = Some t' \<and>
     t' = t\<lparr>th_registers := take lo (th_registers t) @ replicate (hi - lo) Null @ drop hi (th_registers t),
            th_heap := foldl (\<lambda>h v. release_anchor_val env v h) (th_heap t) (take (hi - lo) (drop lo (th_registers t)))\<rparr>"
  using assms
proof (induction "hi - lo" arbitrary: lo t)
  case 0
  then show ?case by simp
next
  case (Suc n)
  then have lo: "lo < hi" "lo < length (th_registers t)" by simp_all
  let ?t1 = "t\<lparr>th_registers := (th_registers t)[lo := Null],
              th_heap := release_anchor_val env (th_registers t ! lo) (th_heap t)\<rparr>"
  have step: "clear_window env [lo..<hi] t = clear_window env [Suc lo..<hi] ?t1"
    using lo by (simp add: upt_conv_Cons)
  have take1: "take (hi - lo) (drop lo (th_registers t)) =
      th_registers t ! lo # take (hi - Suc lo) (drop (Suc lo) (th_registers t))"
    using lo by (metis Cons_nth_drop_Suc Suc_diff_Suc take_Suc_Cons)
  have regs: "take (Suc lo) ((th_registers t)[lo := Null]) @ replicate (hi - Suc lo) Null @ drop hi ((th_registers t)[lo := Null])
      = take lo (th_registers t) @ replicate (hi - lo) Null @ drop hi (th_registers t)"
    using lo by (simp add: take_Suc_conv_app_nth Suc_diff_Suc [symmetric])
  have "drop hi ((th_registers t)[lo := Null]) = drop hi (th_registers t)" using lo by simp
  then have regs': "take (Suc lo) ((th_registers t)[lo := Null]) @ replicate (hi - Suc lo) Null @ drop hi (th_registers t)
      = take lo (th_registers t) @ replicate (hi - lo) Null @ drop hi (th_registers t)"
    using regs by simp
  from Suc(1) [of "Suc lo" ?t1] Suc(2-) lo show ?case
    by (simp add: step take1 regs')
qed

text \<open>Releasing the values of a window; values that are no objects do not count.\<close>

definition release_window :: "HostEnv \<Rightarrow> VmValue list \<Rightarrow> PrivateHeap \<Rightarrow> PrivateHeap" where
  "release_window env vs h = foldl (\<lambda>h v. release_anchor_val env v h) h vs"

lemma release_window_no_objects: "\<forall>v \<in> set vs. \<not> is_object v \<Longrightarrow> release_window env vs h = h"
proof (induction vs arbitrary: h)
  case (Cons v vs)
  then show ?case by (cases v) (simp_all add: release_window_def)
qed (simp add: release_window_def)

lemma slice_nth: "i < hi - lo \<Longrightarrow> hi \<le> length xs \<Longrightarrow> take (hi - lo) (drop lo xs) ! i = xs ! (lo + i)"
  by simp

lemma flag_covers_slice:
  assumes "flag_covers regs lo hi False" and "hi \<le> length regs"
  shows "\<forall>v \<in> set (take (hi - lo) (drop lo regs)). \<not> is_object v"
proof
  fix v
  assume "v \<in> set (take (hi - lo) (drop lo regs))"
  then obtain i where "i < hi - lo" "v = regs ! (lo + i)"
    using assms(2) by (auto simp: in_set_conv_nth)
  with assms(1) show "\<not> is_object v" by (auto simp: flag_covers_def)
qed

lemma pop_frame_spec:
  assumes wf: "thread_wf t" and ne: "th_call_stack t \<noteq> []"
  shows "\<exists>t'. pop_frame env t = Some (Some (last (th_call_stack t)), t') \<and> thread_wf t' \<and>
     th_call_stack t' = butlast (th_call_stack t) \<and>
     th_heap t' = release_window env (take (th_register_top t - th_register_base t) (drop (th_register_base t) (th_registers t)))
                    (th_heap t) \<and>
     take (th_register_base t) (th_registers t') = take (th_register_base t) (th_registers t) \<and>
     th_register_top t' = th_register_base t \<and> th_has_objects t' = fr_has_objects (last (th_call_stack t))"
proof -
  let ?f = "last (th_call_stack t)" and ?rs = "th_registers t" and ?top = "th_register_top t"
  let ?b = "fr_register_base ?f"
  from wf ne have base: "th_register_base t = ?b" and top: "?top \<le> length ?rs"
    and win: "?b \<le> ?top" "flag_covers ?rs ?b ?top (th_has_objects t)"
      "windows_ok ?rs ?b (fr_has_objects ?f) (rev (butlast (th_call_stack t)))"
    and above: "flag_covers ?rs ?top (length ?rs) False"
    by (auto simp: thread_wf_def current_base_def rev_stack)
  define t1 where "t1 = t\<lparr>th_call_stack := butlast (th_call_stack t)\<rparr>"
  define regs where "regs = (if th_has_objects t then take ?b ?rs @ replicate (?top - ?b) Null @ drop ?top ?rs else ?rs)"
  define heap where "heap = release_window env (take (?top - ?b) (drop ?b ?rs)) (th_heap t)"
  have cleared: "(if th_has_objects t1 then clear_window env [?b..<th_register_top t1] t1 else Some t1) =
      Some (t1\<lparr>th_registers := regs, th_heap := heap\<rparr>)"
  proof (cases "th_has_objects t")
    case True
    with clear_window_spec [of ?top t1 ?b env] top win(1) show ?thesis
      by (simp add: t1_def regs_def heap_def release_window_def)
  next
    case False
    then have "heap = th_heap t"
      unfolding heap_def using flag_covers_slice top win(2) by (intro release_window_no_objects) simp
    with False show ?thesis by (simp add: t1_def regs_def)
  qed
  define t' where "t' = t1\<lparr>th_registers := regs, th_heap := heap, th_register_top := ?b,
    th_register_base := current_base (butlast (th_call_stack t)), th_has_objects := fr_has_objects ?f\<rparr>"
  have pop: "pop_frame env t = Some (Some ?f, t')"
    using ne cleared by (simp add: pop_frame_def Let_def t1_def [symmetric] t'_def current_base_def) (simp add: t1_def)
  have len: "length regs = length ?rs" using top win(1) by (simp add: regs_def)
  have below: "regs ! i = ?rs ! i" if "i < ?b" for i
    using that top win(1) by (simp add: regs_def nth_append)
  have "\<not> is_object (regs ! i)" if "?b \<le> i" "i < length regs" for i
    using that top win above len by (auto simp: regs_def nth_append flag_covers_def)
  moreover have "windows_ok regs ?b (fr_has_objects ?f) (rev (butlast (th_call_stack t)))"
    using win(3) by (rule windows_ok_cong [rotated]) (simp add: below)
  ultimately have "thread_wf t'"
    using top win(1) len by (simp add: thread_wf_def t'_def t1_def flag_covers_def)
  moreover have "take ?b regs = take ?b ?rs"
    using below len top win(1) by (intro nth_equalityI) simp_all
  ultimately show ?thesis
    using pop base by (simp add: t'_def t1_def heap_def)
qed

section \<open>Register writes\<close>

lemma windows_ok_update:
  assumes "windows_ok regs hi flag (rev stack)" and "current_base stack \<le> i" and "i < hi" and "hi \<le> length regs"
  shows "windows_ok (regs[i := v]) hi (flag \<or> is_object v) (rev stack)"
proof (cases "stack = []")
  case True
  with assms show ?thesis by (auto simp: flag_covers_def nth_list_update_if)
next
  case False
  with assms have w: "fr_register_base (last stack) \<le> hi" "flag_covers regs (fr_register_base (last stack)) hi flag"
    "windows_ok regs (fr_register_base (last stack)) (fr_has_objects (last stack)) (rev (butlast stack))"
    and i: "fr_register_base (last stack) \<le> i"
    by (simp_all add: rev_stack current_base_def)
  have "windows_ok (regs[i := v]) (fr_register_base (last stack)) (fr_has_objects (last stack)) (rev (butlast stack))"
    using w(3) by (rule windows_ok_cong [rotated]) (use i in \<open>simp add: nth_list_update_if split: if_splits\<close>)
  with w i False show ?thesis by (auto simp: rev_stack flag_covers_def nth_list_update_if)
qed

definition in_window :: "VmThreadState \<Rightarrow> Reg \<Rightarrow> bool" where
  "in_window t r \<longleftrightarrow> th_register_base t + unat r < th_register_top t"

lemma store_wf:
  assumes wf: "thread_wf t" and i: "th_register_base t \<le> i" "i < th_register_top t"
    and t': "th_registers t' = (th_registers t)[i := v]" "th_has_objects t' = (th_has_objects t \<or> is_object v)"
      "th_call_stack t' = th_call_stack t" "th_register_base t' = th_register_base t" "th_register_top t' = th_register_top t"
  shows "thread_wf t'"
proof -
  from wf have "windows_ok ((th_registers t)[i := v]) (th_register_top t) (th_has_objects t \<or> is_object v) (rev (th_call_stack t))"
    using i by (intro windows_ok_update) (simp_all add: thread_wf_def)
  with wf i show ?thesis by (auto simp: thread_wf_def t' flag_covers_def nth_list_update_if)
qed

lemma write_reg_wf:
  assumes "thread_wf t" and "in_window t r"
  shows "\<exists>t'. write_reg env t r v = Some t' \<and> thread_wf t' \<and> th_call_stack t' = th_call_stack t \<and>
     th_register_base t' = th_register_base t \<and> th_register_top t' = th_register_top t \<and>
     th_registers t' = (th_registers t)[th_register_base t + unat r := v]"
proof -
  have "th_register_base t + unat r < length (th_registers t)"
    using assms by (auto simp: thread_wf_def in_window_def)
  then obtain t' where t': "write_reg env t r v = Some t'" by (simp add: write_reg_def Let_def)
  then have eqs: "th_registers t' = (th_registers t)[th_register_base t + unat r := v]"
    "th_has_objects t' = (th_has_objects t \<or> is_object v)" "th_call_stack t' = th_call_stack t"
    "th_register_base t' = th_register_base t" "th_register_top t' = th_register_top t"
    by (auto simp: write_reg_def Let_def split: if_splits)
  have "thread_wf t'"
    by (rule store_wf [OF assms(1) _ _ eqs]) (use assms(2) in \<open>simp_all add: in_window_def\<close>)
  with t' eqs show ?thesis by simp
qed

section \<open>Argument set-up\<close>

text \<open>What a step inside the current window keeps: the frames, the window, and every register below the window.\<close>

definition same_below :: "VmThreadState \<Rightarrow> VmThreadState \<Rightarrow> bool" where
  "same_below t t' \<longleftrightarrow>
     th_call_stack t' = th_call_stack t \<and> th_register_base t' = th_register_base t \<and>
     th_register_top t' = th_register_top t \<and> length (th_registers t') = length (th_registers t) \<and>
     take (th_register_base t) (th_registers t') = take (th_register_base t) (th_registers t)"

lemma same_below_refl [simp]: "same_below t t"
  by (simp add: same_below_def)

lemma same_below_trans: "same_below t t1 \<Longrightarrow> same_below t1 t2 \<Longrightarrow> same_below t t2"
  by (simp add: same_below_def)

lemma retain_anchor_val_frame [simp]:
  "th_registers (retain_anchor_val v t) = th_registers t" "th_register_top (retain_anchor_val v t) = th_register_top t"
  "th_register_base (retain_anchor_val v t) = th_register_base t" "th_call_stack (retain_anchor_val v t) = th_call_stack t"
  "th_has_objects (retain_anchor_val v t) = th_has_objects t"
  by (cases v; simp)+

lemma wf_window: "thread_wf t \<Longrightarrow> th_register_base t \<le> th_register_top t \<and> th_register_top t \<le> length (th_registers t)"
  using current_base_le by (auto simp: thread_wf_def)

text \<open>The copy loop writes the arguments into the window, in order, and nothing else.\<close>

lemma copy_args_wf:
  assumes "thread_wf t" and "\<forall>i \<in> set is. th_register_base t + i < th_register_top t"
    and "copy_args caller (th_register_base t) args_start has_obj is t = (res, t')"
  shows "res \<noteq> Panic \<and> thread_wf t' \<and> same_below t t'"
  using assms
proof (induction "is" arbitrary: t)
  case (Cons i "is")
  let ?src = "arg_source args_start has_obj i"
  show ?case
  proof (cases "list_get (th_registers t) (caller + unat ?src)")
    case None
    with Cons.prems show ?thesis by (auto simp: Let_def)
  next
    case (Some v)
    let ?b = "th_register_base t"
    let ?t1 = "retain_anchor_val v (t\<lparr>th_has_objects := (th_has_objects t \<or> is_object v)\<rparr>)"
    let ?t2 = "?t1\<lparr>th_registers := (th_registers t)[?b + i := v]\<rparr>"
    have "?b + i < length (th_registers t)" using Cons.prems(1,2) wf_window [of t] by fastforce
    then have rest: "copy_args caller ?b args_start has_obj is ?t2 = (res, t')"
      using Cons.prems(3) Some by (simp add: Let_def)
    have "thread_wf ?t2"
      by (rule store_wf [OF Cons.prems(1), of "?b + i" _ v]) (use Cons.prems(2) in simp_all)
    with Cons.IH [of ?t2] Cons.prems(2) rest have "res \<noteq> Panic" "thread_wf t'" "same_below ?t2 t'" by simp_all
    moreover have "same_below t ?t2" by (simp add: same_below_def)
    ultimately show ?thesis using same_below_trans by blast
  qed
qed auto

lemma clear_params_wf:
  assumes "thread_wf t" and "\<forall>i \<in> set is. th_register_base t + i < th_register_top t"
    and "clear_params (th_register_base t) is t = (res, t')"
  shows "res = Ok () \<and> thread_wf t' \<and> same_below t t'"
  using assms
proof (induction "is" arbitrary: t)
  case (Cons i "is")
  let ?b = "th_register_base t"
  let ?t1 = "t\<lparr>th_registers := (th_registers t)[?b + i := Null]\<rparr>"
  have "?b + i < length (th_registers t)" using Cons.prems(1,2) wf_window [of t] by fastforce
  then have rest: "clear_params ?b is ?t1 = (res, t')" using Cons.prems(3) by simp
  have "thread_wf ?t1"
    by (rule store_wf [OF Cons.prems(1), of "?b + i" _ Null]) (use Cons.prems(2) in simp_all)
  with Cons.IH [of ?t1] Cons.prems(2) rest have "res = Ok ()" "thread_wf t'" "same_below ?t1 t'" by simp_all
  moreover have "same_below t ?t1" by (simp add: same_below_def)
  ultimately show ?case using same_below_trans by blast
qed simp

lemma setup_args_wf:
  assumes wf: "thread_wf t" and fit: "th_register_base t + max arg_count param_count \<le> th_register_top t"
    and args: "setup_args_from_caller t args_start arg_count param_count has_obj = (res, t')"
  shows "res \<noteq> Panic \<and> thread_wf t' \<and> same_below t t'"
proof (cases "length (th_call_stack t) < 2")
  case True
  with wf args show ?thesis by (auto simp: setup_args_from_caller_def)
next
  case False
  let ?caller = "fr_register_base (th_call_stack t ! (length (th_call_stack t) - 2))"
  have ne: "th_call_stack t \<noteq> []" using False by auto
  then have callee: "fr_register_base (th_call_stack t ! (length (th_call_stack t) - 1)) = th_register_base t"
    using wf by (simp add: thread_wf_def current_base_def last_conv_nth)
  obtain r t1 where copy: "copy_args ?caller (th_register_base t) args_start has_obj [0..<arg_count] t = (r, t1)" by fastforce
  have in_args: "\<forall>i \<in> set [0..<arg_count]. th_register_base t + i < th_register_top t" using fit by auto
  note copied = copy_args_wf [OF wf in_args copy]
  show ?thesis
  proof (cases r)
    case (Ok u)
    with False args copy callee have "clear_params (th_register_base t1) [arg_count..<param_count] t1 = (res, t')"
      using copied by (simp add: setup_args_from_caller_def Let_def same_below_def)
    moreover have "\<forall>i \<in> set [arg_count..<param_count]. th_register_base t1 + i < th_register_top t1"
      using copied fit by (auto simp: same_below_def)
    ultimately have "res = Ok () \<and> thread_wf t' \<and> same_below t1 t'" using clear_params_wf copied by blast
    then show ?thesis using copied same_below_trans by auto
  qed (use False args copy callee copied in \<open>auto simp: setup_args_from_caller_def Let_def\<close>)
qed

text \<open>Where the argument registers lie below the window of the callee, the callee gets their values, and \<open>Null\<close> for the rest.\<close>

lemma copy_args_values:
  assumes "copy_args caller callee args_start has_obj is t = (Ok (), t')" and "distinct is"
    and "\<forall>i \<in> set is. caller + unat (arg_source args_start has_obj i) < callee"
  shows "(\<forall>i \<in> set is. th_registers t' ! (callee + i) = th_registers t ! (caller + unat (arg_source args_start has_obj i))) \<and>
     (\<forall>j. j \<notin> (+) callee ` set is \<longrightarrow> th_registers t' ! j = th_registers t ! j)"
  using assms
proof (induction "is" arbitrary: t)
  case (Cons i "is")
  let ?src = "\<lambda>i. caller + unat (arg_source args_start has_obj i)"
  from Cons.prems(1) obtain v where v: "list_get (th_registers t) (?src i) = Some v"
    and fits: "callee + i < length (th_registers t)"
    and rest: "copy_args caller callee args_start has_obj is
      ((retain_anchor_val v (t\<lparr>th_has_objects := (th_has_objects t \<or> is_object v)\<rparr>))\<lparr>th_registers := (th_registers t)[callee + i := v]\<rparr>)
      = (Ok (), t')"
    by (auto simp: Let_def split: option.splits if_splits)
  from v have v': "v = th_registers t ! ?src i" by (auto simp: list_get_def split: if_splits)
  from Cons.IH [OF rest] Cons.prems(2,3)
  have IH: "\<forall>k \<in> set is. th_registers t' ! (callee + k) = (th_registers t)[callee + i := v] ! ?src k"
    "\<forall>j. j \<notin> (+) callee ` set is \<longrightarrow> th_registers t' ! j = (th_registers t)[callee + i := v] ! j"
    by simp_all
  have "th_registers t' ! (callee + k) = th_registers t ! ?src k" if "k \<in> set is" for k
  proof -
    have "?src k < callee" using Cons.prems(3) that by simp
    then have "callee + i \<noteq> ?src k" by linarith
    with IH(1) that show ?thesis by simp
  qed
  moreover have "th_registers t' ! (callee + i) = th_registers t ! ?src i"
    using IH(2) [rule_format, of "callee + i"] Cons.prems(2) fits v' by (simp add: image_iff)
  moreover have "th_registers t' ! j = th_registers t ! j" if "j \<notin> (+) callee ` set (i # is)" for j
    using IH(2) that by auto
  ultimately show ?case by auto
qed simp

lemma clear_params_values:
  assumes "clear_params callee is t = (Ok (), t')" and "distinct is"
  shows "(\<forall>i \<in> set is. th_registers t' ! (callee + i) = Null) \<and>
     (\<forall>j. j \<notin> (+) callee ` set is \<longrightarrow> th_registers t' ! j = th_registers t ! j)"
  using assms
proof (induction "is" arbitrary: t)
  case (Cons i "is")
  let ?t1 = "t\<lparr>th_registers := (th_registers t)[callee + i := Null]\<rparr>"
  from Cons.prems(1) have fits: "callee + i < length (th_registers t)" and rest: "clear_params callee is ?t1 = (Ok (), t')"
    by (auto split: if_splits)
  from Cons.IH [OF rest] Cons.prems(2)
  have IH: "\<forall>k \<in> set is. th_registers t' ! (callee + k) = Null"
    "\<forall>j. j \<notin> (+) callee ` set is \<longrightarrow> th_registers t' ! j = (th_registers t)[callee + i := Null] ! j"
    by simp_all
  have "th_registers t' ! (callee + i) = Null"
    using IH(2) [rule_format, of "callee + i"] Cons.prems(2) fits by (simp add: image_iff)
  moreover have "th_registers t' ! j = th_registers t ! j" if "j \<notin> (+) callee ` set (i # is)" for j
    using IH(2) that by auto
  ultimately show ?case using IH(1) by auto
qed simp

definition passes_args :: "VmThreadState \<Rightarrow> Reg \<Rightarrow> nat \<Rightarrow> nat \<Rightarrow> Reg option \<Rightarrow> VmThreadState \<Rightarrow> bool" where
  "passes_args t args_start arg_count param_count has_obj t' \<longleftrightarrow>
    (let caller = fr_register_base (th_call_stack t ! (length (th_call_stack t) - 2));
         src = (\<lambda>i. caller + unat (arg_source args_start has_obj i)) in
     (\<forall>i < arg_count. src i < th_register_base t) \<longrightarrow>
     (\<forall>i < arg_count. th_registers t' ! (th_register_base t + i) = th_registers t ! src i) \<and>
     (\<forall>i. arg_count \<le> i \<and> i < param_count \<longrightarrow> th_registers t' ! (th_register_base t + i) = Null))"

lemma setup_args_values:
  assumes wf: "thread_wf t" and args: "setup_args_from_caller t args_start arg_count param_count has_obj = (Ok (), t')"
  shows "passes_args t args_start arg_count param_count has_obj t'"
proof -
  let ?caller = "fr_register_base (th_call_stack t ! (length (th_call_stack t) - 2))"
  let ?src = "\<lambda>i. ?caller + unat (arg_source args_start has_obj i)"
  have deep: "\<not> length (th_call_stack t) < 2" using args by (auto simp: setup_args_from_caller_def)
  then have "th_call_stack t \<noteq> []" by auto
  then have callee: "fr_register_base (th_call_stack t ! (length (th_call_stack t) - 1)) = th_register_base t"
    using wf by (simp add: thread_wf_def current_base_def last_conv_nth)
  obtain t1 where copy: "copy_args ?caller (th_register_base t) args_start has_obj [0..<arg_count] t = (Ok (), t1)"
    and clear: "clear_params (th_register_base t) [arg_count..<param_count] t1 = (Ok (), t')"
    using args deep callee by (auto simp: setup_args_from_caller_def Let_def split: prod.splits outcome.splits)
  note cleared = clear_params_values [OF clear distinct_upt]
  have "th_registers t' ! (th_register_base t + i) = th_registers t ! ?src i"
    if "\<forall>i < arg_count. ?src i < th_register_base t" "i < arg_count" for i
    using copy_args_values [OF copy distinct_upt] that cleared by auto
  with cleared show ?thesis by (auto simp: passes_args_def Let_def)
qed

section \<open>Histories of calls, returns and writes\<close>

datatype thread_call =
    TPush ModuleId FuncIdx usize "Reg option" nat "Instruction list"
  | TSetup Reg nat nat "Reg option"
  | TPop
  | TWrite Reg VmValue
  | TRetain VmValue

text \<open>
  A refused push leaves the state, a failing argument set-up the arguments it has copied; \<open>None\<close> is an access outside the
  register vector.
\<close>

fun thread_apply :: "HostEnv \<Rightarrow> VmThreadState \<Rightarrow> thread_call \<Rightarrow> VmThreadState option" where
  "thread_apply env t (TPush m f pc d n code) =
    (case push_frame t m f pc d n code of Inl _ \<Rightarrow> Some t | Inr t' \<Rightarrow> Some t')"
| "thread_apply env t (TSetup args_start arg_count param_count has_obj) =
    (case setup_args_from_caller t args_start arg_count param_count has_obj of (Panic, _) \<Rightarrow> None | (_, t') \<Rightarrow> Some t')"
| "thread_apply env t TPop = map_option snd (pop_frame env t)"
| "thread_apply env t (TWrite r v) = write_reg env t r v"
| "thread_apply env t (TRetain v) = Some (retain_anchor_val v t)"

fun call_in_window :: "VmThreadState \<Rightarrow> thread_call \<Rightarrow> bool" where
  "call_in_window t (TWrite r v) = in_window t r"
| "call_in_window t (TSetup args_start arg_count param_count has_obj) =
    (th_register_base t + max arg_count param_count \<le> th_register_top t)"
| "call_in_window t _ = True"

fun thread_run :: "HostEnv \<Rightarrow> VmThreadState \<Rightarrow> thread_call list \<Rightarrow> VmThreadState option" where
  "thread_run env t [] = Some t"
| "thread_run env t (c # cs) = Option.bind (thread_apply env t c) (\<lambda>t'. thread_run env t' cs)"

text \<open>
  Every write addresses a register of the frame that is current when it runs, and the frame has a register for every argument
  and every parameter that is set up.
\<close>

fun writes_in_window :: "HostEnv \<Rightarrow> VmThreadState \<Rightarrow> thread_call list \<Rightarrow> bool" where
  "writes_in_window env t [] = True"
| "writes_in_window env t (c # cs) =
    (call_in_window t c \<and> (case thread_apply env t c of None \<Rightarrow> True | Some t' \<Rightarrow> writes_in_window env t' cs))"

lemma thread_apply_wf:
  assumes "thread_wf t" and "call_in_window t c"
  shows "\<exists>t'. thread_apply env t c = Some t' \<and> thread_wf t'"
proof (cases c)
  case (TPush m f pc d n code)
  with assms(1) push_frame_wf [OF assms(1)] show ?thesis by (auto split: sum.splits)
next
  case (TSetup args_start arg_count param_count has_obj)
  obtain res t' where args: "setup_args_from_caller t args_start arg_count param_count has_obj = (res, t')" by fastforce
  with setup_args_wf [OF assms(1) _ args] assms(2) TSetup have "res \<noteq> Panic" "thread_wf t'" by simp_all
  with TSetup args show ?thesis by (auto split: outcome.splits)
next
  case TPop
  with assms(1) pop_frame_spec [OF assms(1), of env] show ?thesis
    by (cases "th_call_stack t = []") (auto simp: pop_frame_def)
next
  case (TWrite r v)
  with assms write_reg_wf [OF assms(1), of r env v] show ?thesis by auto
next
  case (TRetain v)
  with assms(1) show ?thesis by (simp add: thread_wf_def)
qed

text \<open>
  C8 (register windows are safe).  On a new thread, every sequence of frame pushes (with any register counts), argument set-ups
  from any registers of the caller into frames that have a register for each argument and parameter, pops, retains and writes to
  registers of the current frame runs without touching memory outside the register vector, although the writes and pops are not
  bounds-checked; and it keeps the windows nested, the object flags sound and every register above the top free of object
  references.  An argument set-up, also one that fails, changes no register below the window of the callee; one that succeeds
  leaves in the callee's registers the values of the caller's argument registers, in order and with the receiver first, and
  \<open>Null\<close> in the parameters without an argument, provided the argument registers lie below the callee's window.  (The fast path of
  \<open>Call\<close> in the interpreter loop pushes its frame by other code, with a wrong object flag, and is not one of the calls.)
\<close>

theorem register_windows_safe:
  assumes "writes_in_window env (new_thread gq tq) cs"
  shows "\<exists>t. thread_run env (new_thread gq tq) cs = Some t \<and> thread_wf t \<and>
    (\<forall>args_start arg_count param_count has_obj.
       call_in_window t (TSetup args_start arg_count param_count has_obj) \<longrightarrow>
       (\<exists>res t'. setup_args_from_caller t args_start arg_count param_count has_obj = (res, t') \<and> res \<noteq> Panic \<and>
         thread_wf t' \<and> same_below t t' \<and> (res = Ok () \<longrightarrow> passes_args t args_start arg_count param_count has_obj t')))"
proof -
  have "\<exists>t'. thread_run env t cs = Some t' \<and> thread_wf t'" if "thread_wf t" "writes_in_window env t cs" for t
    using that
  proof (induction cs arbitrary: t)
    case (Cons c cs)
    from Cons.prems have "call_in_window t c" by simp
    with thread_apply_wf [OF Cons.prems(1)] obtain t' where "thread_apply env t c = Some t'" "thread_wf t'" by blast
    with Cons show ?case by simp
  qed simp
  from this [OF thread_wf_new assms] obtain t where t: "thread_run env (new_thread gq tq) cs = Some t" "thread_wf t" by blast
  have "\<exists>res t'. setup_args_from_caller t args_start arg_count param_count has_obj = (res, t') \<and> res \<noteq> Panic \<and>
      thread_wf t' \<and> same_below t t' \<and> (res = Ok () \<longrightarrow> passes_args t args_start arg_count param_count has_obj t')"
    if "call_in_window t (TSetup args_start arg_count param_count has_obj)"
    for args_start arg_count param_count has_obj
    using setup_args_wf [OF t(2)] setup_args_values [OF t(2)] that
    by (cases "setup_args_from_caller t args_start arg_count param_count has_obj") auto
  with t show ?thesis by blast
qed

text \<open>A frame of two registers, an object in the second, a call with it as argument, and the returns.\<close>

definition sample_thread :: VmThreadState where
  "sample_thread = new_thread (new_global_quota default_limits) (new_thread_quota default_limits)"

definition window_calls :: "thread_call list" where
  "window_calls = [TPush 0 0 0 None 2 [], TWrite 1 (Object (new_ref 0 1)), TPush 0 1 0 (Some 0) 3 [],
                   TSetup 1 1 2 None, TWrite 2 (Int32 5), TPop, TPop]"

definition plain_env :: HostEnv where
  "plain_env = \<lparr>size_of_heap_object = 48, size_of_value = 16, hash_order = sorted_list_of_set, ref_order = refs_in_order,
     module_order = sorted_list_of_set, grown_capacity = of_nat, native_stack = 1000\<rparr>"

lemma window_calls_ok: "writes_in_window plain_env sample_thread window_calls"
  by (simp add: window_calls_def sample_thread_def new_thread_def push_frame_def resize_registers_def in_window_def
      write_reg_def pop_frame_def new_heap_def new_thread_quota_def default_limits_def Let_def release_anchor_def
      ref_live_def new_ref_def setup_args_from_caller_def list_get_def arg_source_def retain_anchor_def upt_rec)

theorem register_windows_safe_witness: "\<exists>t. thread_run plain_env sample_thread window_calls = Some t \<and> thread_wf t"
  using register_windows_safe [OF window_calls_ok [unfolded sample_thread_def]] by (auto simp: sample_thread_def)

section \<open>The calling convention\<close>

text \<open>Writes by the callee.\<close>

definition callee_writes :: "thread_call list \<Rightarrow> bool" where
  "callee_writes cs \<longleftrightarrow> (\<forall>c \<in> set cs. \<exists>r v. c = TWrite r v)"

lemma callee_writes_run:
  assumes "thread_wf t" and "writes_in_window env t cs" and "callee_writes cs"
  shows "\<exists>t'. thread_run env t cs = Some t' \<and> thread_wf t' \<and> th_call_stack t' = th_call_stack t \<and>
     th_register_base t' = th_register_base t \<and> th_register_top t' = th_register_top t \<and>
     take (th_register_base t) (th_registers t') = take (th_register_base t) (th_registers t)"
  using assms
proof (induction cs arbitrary: t)
  case (Cons c cs)
  then obtain r v where c: "c = TWrite r v" by (auto simp: callee_writes_def)
  with Cons.prems have "in_window t r" by simp
  from write_reg_wf [OF Cons.prems(1) this, of env v] obtain t1 where
    t1: "write_reg env t r v = Some t1" "thread_wf t1" "th_call_stack t1 = th_call_stack t"
      "th_register_base t1 = th_register_base t" "th_register_top t1 = th_register_top t"
      "th_registers t1 = (th_registers t)[th_register_base t + unat r := v]" by blast
  have "callee_writes cs" "writes_in_window env t1 cs" using Cons.prems c t1 by (simp_all add: callee_writes_def)
  from Cons.IH [OF t1(2) this(2,1)] t1 c show ?case by auto
qed simp

text \<open>
  C9 (a call restores its caller).  After a successful \<open>push_frame\<close>, any register writes of the callee
  and \<open>pop_frame\<close>, the call stack, the register window and the object flag are the caller's again,
  all registers below the caller's top have the values they had, and the heap has been given
  back exactly the anchors that the callee's window held.
\<close>

theorem call_restores_caller:
  assumes "thread_wf t" and "push_frame t m f pc d n code = Inr t1"
    and "writes_in_window env t1 cs" and "callee_writes cs"
  shows "\<exists>t2 t3. thread_run env t1 cs = Some t2 \<and> pop_frame env t2 = Some (Some (last (th_call_stack t1)), t3) \<and>
     th_call_stack t3 = th_call_stack t \<and> th_register_base t3 = th_register_base t \<and>
     th_register_top t3 = th_register_top t \<and> th_has_objects t3 = th_has_objects t \<and>
     take (th_register_top t) (th_registers t3) = take (th_register_top t) (th_registers t) \<and>
     th_heap t3 = release_window env (take n (drop (th_register_top t) (th_registers t2))) (th_heap t2)"
proof -
  have wf1: "thread_wf t1" using push_frame_wf assms(1,2) .
  let ?f = "\<lparr>fr_module_id = m, fr_func_idx = f, fr_pc = pc, fr_register_base = th_register_top t, fr_return_dest = d,
             fr_cached_instructions = code, fr_has_objects = th_has_objects t\<rparr>"
  from assms(2) have t1: "th_call_stack t1 = th_call_stack t @ [?f]" "th_register_base t1 = th_register_top t"
    "th_register_top t1 = th_register_top t + n"
    "th_registers t1 = resize_registers (th_registers t) (th_register_top t + n)"
    by (auto simp: push_frame_def Let_def split: if_splits)
  from callee_writes_run [OF wf1 assms(3,4)] obtain t2 where
    t2: "thread_run env t1 cs = Some t2" "thread_wf t2" "th_call_stack t2 = th_call_stack t1"
      "th_register_base t2 = th_register_base t1" "th_register_top t2 = th_register_top t1"
      "take (th_register_base t1) (th_registers t2) = take (th_register_base t1) (th_registers t1)" by blast
  from pop_frame_spec [OF t2(2), of env] t2 t1 obtain t3 where
    t3: "pop_frame env t2 = Some (Some ?f, t3)" "thread_wf t3" "th_call_stack t3 = th_call_stack t"
      "th_heap t3 = release_window env (take n (drop (th_register_top t) (th_registers t2))) (th_heap t2)"
      "take (th_register_top t) (th_registers t3) = take (th_register_top t) (th_registers t2)"
      "th_register_top t3 = th_register_top t" "th_has_objects t3 = th_has_objects t"
    by auto
  have "take (th_register_top t) (resize_registers (th_registers t) (th_register_top t + n)) =
        take (th_register_top t) (th_registers t)"
    using assms(1) by (simp add: resize_registers_def thread_wf_def)
  moreover have "th_register_base t3 = th_register_base t"
    using t3(2,3) assms(1) by (simp add: thread_wf_def)
  ultimately show ?thesis using t1 t2 t3 by simp
qed

theorem call_restores_caller_witness:
  "\<exists>t1 t2 t3. push_frame sample_thread 0 0 0 None 2 [] = Inr t1 \<and> thread_run plain_env t1 [TWrite 1 (Bool True)] = Some t2 \<and>
     pop_frame plain_env t2 = Some (Some (last (th_call_stack t1)), t3) \<and> th_call_stack t3 = []"
proof -
  have wf: "thread_wf sample_thread" unfolding sample_thread_def by (rule thread_wf_new)
  obtain t1 where t1: "push_frame sample_thread 0 0 0 None 2 [] = Inr t1"
    and w: "writes_in_window plain_env t1 [TWrite 1 (Bool True)]"
    by (simp add: push_frame_def sample_thread_def new_thread_def new_heap_def new_thread_quota_def default_limits_def
        in_window_def Let_def split: option.splits)
  have "callee_writes [TWrite 1 (Bool True)]" by (simp add: callee_writes_def)
  from call_restores_caller [OF wf t1 w this] t1 show ?thesis
    by (auto simp: sample_thread_def new_thread_def)
qed

end
