(* ===== verification/Bytecode_Graph_Props.thy ===== *)
theory Bytecode_Graph_Props
  imports Bytecode_Graph
begin

text \<open>
  What a published graph promises.  A graph is published when it is empty or the result of a transaction on a published
  graph; the module index is then exact, every module has passed the validator and every import has a target.  The
  initialisation order is a topological order, and the dependents of a module are the modules that reach it.
\<close>

section \<open>The module table\<close>

definition table_ok :: "BytecodeGraph \<Rightarrow> bool" where
  "table_ok g \<longleftrightarrow> btree_ok (gr_modules g) \<and> (\<forall>i n. btree_get (gr_modules g) i = Some n \<longrightarrow> nd_id n = i)"

lemma table_ok_empty [simp]: "table_ok (with_format_version v)"
  by (simp add: table_ok_def with_format_version_def)

lemma table_ok_remove: "table_ok g \<Longrightarrow> table_ok (remove_module g i)"
  by (auto simp: table_ok_def remove_module_def btree_ok_remove split: option.splits)

lemma table_ok_upsert: "table_ok g \<Longrightarrow> table_ok (upsert_module g n)"
  by (auto simp: table_ok_def upsert_module_def btree_ok_insert Let_def)

lemma table_ok_removes: "table_ok g \<Longrightarrow> table_ok (foldl remove_module g is)"
  by (induction "is" arbitrary: g) (auto simp: table_ok_remove)

lemma table_ok_upserts: "table_ok g \<Longrightarrow> table_ok (foldl upsert_module g ns)"
  by (induction ns arbitrary: g) (auto simp: table_ok_upsert)

lemma get_removes: "btree_get (gr_modules (foldl remove_module g is)) i = (if i \<in> set is then None else btree_get (gr_modules g) i)"
  by (induction "is" arbitrary: g) (auto simp: remove_module_def split: option.splits)

lemma get_upserts:
  "distinct (map nd_id ns) \<Longrightarrow>
   btree_get (gr_modules (foldl upsert_module g ns)) i =
     (case find (\<lambda>n. nd_id n = i) ns of Some n \<Rightarrow> Some n | None \<Rightarrow> btree_get (gr_modules g) i)"
proof (induction ns arbitrary: g)
  case (Cons n ns)
  have "find (\<lambda>m. nd_id m = i) ns = None" if "nd_id n = i"
    using Cons(2) that by (auto simp: find_None_iff image_iff)
  then show ?case using Cons by (auto simp: upsert_module_def Let_def split: option.splits)
qed simp

section \<open>Accepted transactions\<close>

lemma first_repeat_distinct:
  fixes key :: "'a \<Rightarrow> 'k::linorder"
  shows "sorted (map key xs) \<Longrightarrow> first_repeat key xs = None \<longleftrightarrow> distinct (map key xs)"
proof (induction key xs rule: first_repeat.induct)
  case (1 key x y xs)
  then show ?case by (auto split: if_splits dest: dual_order.antisym)
qed auto

lemma first_repeat_sort: "first_repeat key (sort_key key xs) = None \<longleftrightarrow> distinct (map key xs)"
  by (simp add: first_repeat_distinct distinct_map inj_on_def)

lemma transaction_distinct: "validate_transaction g tx = None \<Longrightarrow> distinct (map nd_id (tx_upserted_modules tx))"
  by (auto simp: validate_transaction_def Let_def first_repeat_sort split: option.splits)

lemma transaction_disjoint:
  "validate_transaction g tx = None \<Longrightarrow> n \<in> set (tx_upserted_modules tx) \<Longrightarrow> nd_id n \<notin> set (tx_removed_modules tx)"
  by (auto simp: validate_transaction_def Let_def find_None_iff split: option.splits)

lemma apply_transaction_Inr:
  assumes "apply_transaction g tx = Inr g'"
  obtains g1 where "tx_base_version tx = gr_version g" "validate_transaction g tx = None"
    "g1 = (foldl upsert_module (foldl remove_module g (tx_removed_modules tx)) (tx_upserted_modules tx))\<lparr>gr_edges := sort_key edge_key (tx_edges tx)\<rparr>"
    "validate_graph (snd (rebuild_transient_indexes g1)) = Inr ()"
    "g' = (snd (rebuild_transient_indexes g1))\<lparr>gr_version := gr_version (snd (rebuild_transient_indexes g1)) + 1\<rparr>"
proof -
  have "fst (rebuild_transient_indexes x) = validate_graph (snd (rebuild_transient_indexes x))" for x
    by (simp add: rebuild_transient_indexes_def Let_def)
  then show ?thesis using assms that
    by (auto simp: apply_transaction_def Let_def split: if_splits option.splits prod.splits sum.splits) (metis fst_conv snd_conv)
qed

lemma gr_version_removes: "gr_version (foldl remove_module g is) = gr_version g"
  by (induction "is" arbitrary: g) (auto simp: remove_module_def split: option.splits)

lemma gr_version_upserts: "gr_version (foldl upsert_module g ns) = gr_version g"
  by (induction ns arbitrary: g) (auto simp: upsert_module_def Let_def)

lemma rebuild_fields:
  "gr_modules (snd (rebuild_transient_indexes g)) = gr_modules g"
  "gr_version (snd (rebuild_transient_indexes g)) = gr_version g"
  "gr_ids_by_path (snd (rebuild_transient_indexes g)) = collect_map (map (\<lambda>(i, n). (nd_path n, i)) (gr_modules g))"
  "gr_export_indexes (snd (rebuild_transient_indexes g)) = map_of (map (\<lambda>(i, n). (i, export_index (nd_module n))) (gr_modules g))"
  by (simp_all add: rebuild_transient_indexes_def Let_def)

text \<open>
  C39 (a transaction changes exactly what it names).  An accepted transaction was made for the current version and gives the
  next one; in the new graph a module is the upserted node when there is one with its identifier, absent when it was removed,
  and otherwise unchanged.
\<close>

theorem transaction_effect:
  "apply_transaction g tx = Inr g' \<Longrightarrow>
   tx_base_version tx = gr_version g \<and> gr_version g' = gr_version g + 1 \<and>
   graph_get g' i =
     (if \<exists>n \<in> set (tx_upserted_modules tx). nd_id n = i then find (\<lambda>n. nd_id n = i) (tx_upserted_modules tx)
      else if i \<in> set (tx_removed_modules tx) then None
      else graph_get g i)"
proof -
  assume "apply_transaction g tx = Inr g'"
  then obtain g1 where tx: "tx_base_version tx = gr_version g" "validate_transaction g tx = None"
    and g1: "g1 = (foldl upsert_module (foldl remove_module g (tx_removed_modules tx)) (tx_upserted_modules tx))\<lparr>gr_edges := sort_key edge_key (tx_edges tx)\<rparr>"
    and g': "g' = (snd (rebuild_transient_indexes g1))\<lparr>gr_version := gr_version (snd (rebuild_transient_indexes g1)) + 1\<rparr>"
    by (rule apply_transaction_Inr)
  have "(find (\<lambda>n. nd_id n = i) (tx_upserted_modules tx) = None) = (\<not> (\<exists>n \<in> set (tx_upserted_modules tx). nd_id n = i))"
    by (auto simp: find_None_iff)
  then show ?thesis using tx(1)
    by (auto simp: g' g1 rebuild_fields gr_version_upserts gr_version_removes graph_get_def get_upserts [OF transaction_distinct [OF tx(2)]]
        get_removes split: option.splits)
qed

section \<open>Validated graphs\<close>

lemma module_pass_Nil:
  "module_pass g ids ns = [] \<Longrightarrow> distinct (map nd_id ns) \<Longrightarrow>
   distinct (map nd_path ns) \<and> (\<forall>n \<in> set ns. ids (nd_path n) = None \<or> ids (nd_path n) = Some (nd_id n)) \<and>
   (\<forall>n \<in> set ns. validate_bytecode_module (nd_module n) = Inr () \<and>
      (\<forall>f \<in> set (bm_functions (nd_module n)). \<forall>instr \<in> set (bf_instructions f). global_errors g (nd_id n) instr = []))"
proof (induction ns arbitrary: ids)
  case (Cons n ns)
  let ?ids = "ids(nd_path n \<mapsto> nd_id n)"
  have parts: "module_errors g ids n = []" "module_pass g ?ids ns = []" "distinct (map nd_id ns)" "nd_id n \<notin> nd_id ` set ns"
    using Cons(2,3) by simp_all
  note ih = Cons(1) [OF parts(2,3)]
  have new: "nd_path n' \<noteq> nd_path n" if "n' \<in> set ns" for n'
  proof
    assume "nd_path n' = nd_path n"
    then have "nd_id n = nd_id n'" using ih that by force
    then show False using parts(4) that by force
  qed
  have "ids (nd_path n) = None \<or> ids (nd_path n) = Some (nd_id n)" "validate_bytecode_module (nd_module n) = Inr ()"
    "\<forall>f \<in> set (bm_functions (nd_module n)). \<forall>instr \<in> set (bf_instructions f). global_errors g (nd_id n) instr = []"
    using parts(1) by (auto simp: module_errors_def split: option.splits sum.splits if_splits)
  moreover have "\<forall>n' \<in> set ns. ids (nd_path n') = None \<or> ids (nd_path n') = Some (nd_id n')"
    using ih new by fastforce
  moreover have "nd_path n \<notin> nd_path ` set ns" using new by force
  ultimately show ?case using ih by simp
qed simp

lemma path_pass_eq: "path_pass ids ns = ids ++ collect_map (map (\<lambda>n. (nd_path n, nd_id n)) ns)"
  by (induction ns arbitrary: ids) (simp_all add: collect_map_def)

lemma collect_map_distinct: "distinct (map fst kvs) \<Longrightarrow> collect_map kvs k = Some v \<longleftrightarrow> (k, v) \<in> set kvs"
  by (simp add: collect_map_def rev_map [symmetric] map_of_eq_Some_iff)

lemma export_index_Some:
  assumes "e \<in> set (bm_exports m)"
  obtains k where "export_index m (ex_symbol_name e) = Some k" "k < length (bm_exports m)"
    "ex_symbol_name (bm_exports m ! k) = ex_symbol_name e"
proof -
  let ?kvs = "map (\<lambda>(i, e). (ex_symbol_name e, i)) (enumerate 0 (bm_exports m))"
  have "ex_symbol_name e \<in> fst ` set ?kvs"
  proof -
    obtain i where "i < length (bm_exports m)" "bm_exports m ! i = e" using assms by (auto simp: in_set_conv_nth)
    then have "(ex_symbol_name e, i) \<in> set ?kvs" by (force simp: in_set_enumerate_eq intro: rev_image_eqI [of "(i, e)"])
    then show ?thesis by force
  qed
  then have "export_index m (ex_symbol_name e) \<noteq> None"
    by (simp add: export_index_def collect_map_def map_of_eq_None_iff del: set_map)
  then obtain k where k: "export_index m (ex_symbol_name e) = Some k" by blast
  then have "(ex_symbol_name e, k) \<in> set ?kvs"
    unfolding export_index_def collect_map_def by (metis map_of_SomeD set_rev)
  then show ?thesis using k by (intro that) (auto simp: in_set_enumerate_eq)
qed

text \<open>The facts a graph has after its indexes were rebuilt and validation found no error.\<close>

definition published_ok :: "BytecodeGraph \<Rightarrow> bool" where
  "published_ok g \<longleftrightarrow>
     table_ok g \<and> validate_graph g = Inr () \<and>
     gr_ids_by_path g = collect_map (map (\<lambda>(i, n). (nd_path n, i)) (gr_modules g)) \<and>
     gr_export_indexes g = map_of (map (\<lambda>(i, n). (i, export_index (nd_module n))) (gr_modules g))"

lemma published_ok_empty: "published_ok (with_format_version v)"
  by (simp add: published_ok_def table_ok_def with_format_version_def validate_graph_def graph_modules_def btree_values_def
      collect_map_def Let_def)

lemma validate_graph_version [simp]: "validate_graph (g\<lparr>gr_version := v\<rparr>) = validate_graph g"
proof -
  have "global_errors (g\<lparr>gr_version := v\<rparr>) = global_errors g" "edge_errors (g\<lparr>gr_version := v\<rparr>) = edge_errors g"
    "import_errors (g\<lparr>gr_version := v\<rparr>) = import_errors g" "graph_modules (g\<lparr>gr_version := v\<rparr>) = graph_modules g"
    by (auto simp: fun_eq_iff global_errors_def edge_errors_def import_errors_def graph_modules_def split: option.splits)
  moreover from this have "module_errors (g\<lparr>gr_version := v\<rparr>) = module_errors g" by (intro ext) (simp add: module_errors_def)
  moreover from this have "module_pass (g\<lparr>gr_version := v\<rparr>) ids ns = module_pass g ids ns" for ids ns
    by (induction ns arbitrary: ids) simp_all
  ultimately show ?thesis by (simp add: validate_graph_def)
qed

lemma published_ok_apply:
  assumes "table_ok g" "apply_transaction g tx = Inr g'"
  shows "published_ok g'"
proof -
  obtain g1 where
    g1: "g1 = (foldl upsert_module (foldl remove_module g (tx_removed_modules tx)) (tx_upserted_modules tx))\<lparr>gr_edges := sort_key edge_key (tx_edges tx)\<rparr>"
    and valid: "validate_graph (snd (rebuild_transient_indexes g1)) = Inr ()"
    and g': "g' = (snd (rebuild_transient_indexes g1))\<lparr>gr_version := gr_version (snd (rebuild_transient_indexes g1)) + 1\<rparr>"
    using assms(2) by (rule apply_transaction_Inr)
  have "table_ok g1"
    using table_ok_upserts [OF table_ok_removes [OF assms(1)]] by (simp add: g1 table_ok_def)
  then show ?thesis using valid by (simp add: published_ok_def g' rebuild_fields table_ok_def)
qed

inductive published :: "BytecodeGraph \<Rightarrow> bool" where
  published_new: "published (with_format_version v)"
| published_apply: "published g \<Longrightarrow> apply_transaction g tx = Inr g' \<Longrightarrow> published g'"

lemma published_imp_ok: "published g \<Longrightarrow> published_ok g"
proof (induction rule: published.induct)
  case (published_apply g tx g')
  then have "table_ok g" by (simp add: published_ok_def)
  then show ?case using published_apply(2) by (rule published_ok_apply)
qed (rule published_ok_empty)

lemma validate_graph_Inr:
  "validate_graph g = Inr u \<longleftrightarrow>
     module_pass g Map.empty (graph_modules g) = [] \<and> (\<forall>e \<in> set (gr_edges g). edge_errors g e = []) \<and>
     (\<forall>n \<in> set (graph_modules g). \<forall>im \<in> set (bm_imports (nd_module n)).
        import_errors g (path_pass Map.empty (graph_modules g)) (nd_id n) im = [])"
  by (auto simp: validate_graph_def Let_def)

lemma published_tables:
  assumes "published_ok g"
  shows "btree_ok (gr_modules g)" "graph_get g i = Some n \<Longrightarrow> nd_id n = i"
  using assms by (auto simp: published_ok_def table_ok_def graph_get_def)

lemma modules_iff: "published_ok g \<Longrightarrow> n \<in> set (graph_modules g) \<longleftrightarrow> graph_get g (nd_id n) = Some n"
  using btree_values_iff [OF published_tables(1)] published_tables(2) by (auto simp: graph_modules_def graph_get_def)

lemma published_distinct_ids:
  assumes "published_ok g"
  shows "distinct (map nd_id (graph_modules g))"
proof -
  have "map nd_id (graph_modules g) = map fst (gr_modules g)"
    using published_tables [OF assms] by (auto simp: graph_modules_def btree_values_def graph_get_def btree_get_Some_iff)
  then show ?thesis using btree_ok_distinct [OF published_tables(1) [OF assms]] by simp
qed

lemma published_checked:
  assumes "published_ok g"
  shows "distinct (map nd_path (graph_modules g))"
    and "n \<in> set (graph_modules g) \<Longrightarrow> validate_bytecode_module (nd_module n) = Inr ()"
    and "n \<in> set (graph_modules g) \<Longrightarrow> f \<in> set (bm_functions (nd_module n)) \<Longrightarrow> instr \<in> set (bf_instructions f) \<Longrightarrow>
           global_errors g (nd_id n) instr = []"
  using module_pass_Nil [OF _ published_distinct_ids [OF assms], of g Map.empty] assms
  by (auto simp: published_ok_def validate_graph_Inr)

lemma ids_by_path_eq:
  assumes "published_ok g"
  shows "gr_ids_by_path g = path_pass Map.empty (graph_modules g)"
proof -
  have "map (\<lambda>(i, n). (nd_path n, i)) (gr_modules g) = map (\<lambda>n. (nd_path n, nd_id n)) (graph_modules g)"
    using published_tables [OF assms] by (auto simp: graph_modules_def btree_values_def graph_get_def btree_get_Some_iff)
  then show ?thesis using assms by (simp add: published_ok_def path_pass_eq)
qed

lemma ids_by_path_iff:
  assumes "published_ok g"
  shows "gr_ids_by_path g p = Some i \<longleftrightarrow> (\<exists>n. graph_get g i = Some n \<and> nd_path n = p)"
proof -
  have "gr_ids_by_path g p = Some i \<longleftrightarrow> (p, i) \<in> set (map (\<lambda>n. (nd_path n, nd_id n)) (graph_modules g))"
    using collect_map_distinct [of "map (\<lambda>n. (nd_path n, nd_id n)) (graph_modules g)"] published_checked(1) [OF assms]
    by (simp add: ids_by_path_eq [OF assms] path_pass_eq o_def)
  also have "\<dots> \<longleftrightarrow> (\<exists>n \<in> set (graph_modules g). nd_path n = p \<and> nd_id n = i)" by auto
  also have "\<dots> \<longleftrightarrow> (\<exists>n. graph_get g i = Some n \<and> nd_path n = p)"
    by (metis modules_iff [OF assms] published_tables(2) [OF assms])
  finally show ?thesis .
qed

lemma export_indexes_eq:
  assumes "published_ok g" "graph_get g i = Some n"
  shows "gr_export_indexes g i = Some (export_index (nd_module n))"
proof -
  have "gr_export_indexes g = map_of (map (\<lambda>(i, n). (i, export_index (nd_module n))) (gr_modules g))"
    using assms(1) by (simp only: published_ok_def)
  then show ?thesis using assms(2) by (simp add: graph_get_def btree_get_def map_of_map)
qed

text \<open>What a resolved import points to.\<close>

definition target_ok :: "BytecodeGraph \<Rightarrow> ResolvedImport \<Rightarrow> bool" where
  "target_ok g r \<longleftrightarrow>
     (case graph_get g (ri_module_id r) of
        None \<Rightarrow> False
      | Some n \<Rightarrow>
          (case ri_kind r of
             ResolvedFunction idx \<Rightarrow> unat idx < length (bm_functions (nd_module n))
           | ResolvedGlobal idx \<Rightarrow> (ucast idx :: u32) < bm_global_count (nd_module n)))"

lemma resolve_import_ok:
  assumes ok: "published_ok g" and "graph_get g i = Some n" "im \<in> set (bm_imports (nd_module n))"
  shows "\<exists>r. resolve_import g i slot im = Ok r \<and> target_ok g r"
proof -
  have n: "n \<in> set (graph_modules g)" "nd_id n = i"
    using assms(2) modules_iff [OF ok] published_tables(2) [OF ok] by auto
  then have "import_errors g (gr_ids_by_path g) i im = []"
    using ok assms(3) by (auto simp: published_ok_def validate_graph_Inr ids_by_path_eq [OF ok, symmetric])
  then obtain path j n' e where path: "new_module_path (im_module_name im) = Some path" "gr_ids_by_path g path = Some j"
    "btree_get (gr_modules g) j = Some n'" and e: "e \<in> set (bm_exports (nd_module n'))" "ex_symbol_name e = im_symbol_name im"
    by (auto simp: import_errors_def split: option.splits if_splits)
  have n': "graph_get g j = Some n'" using path(3) by (simp add: graph_get_def)
  obtain k where k: "export_index (nd_module n') (im_symbol_name im) = Some k" "k < length (bm_exports (nd_module n'))"
    using export_index_Some [OF e(1)] e(2) by metis
  have "validate_bytecode_module (nd_module n') = Inr ()"
    using n' published_checked(2) [OF ok] modules_iff [OF ok] published_tables(2) [OF ok] by blast
  then have "check_export (nd_module n') (bm_exports (nd_module n') ! k) = []"
    using k(2) by (auto simp: validate_Inr_iff)
  then show ?thesis
    using path k n' export_indexes_eq [OF ok n']
    by (auto simp: resolve_import_def target_ok_def check_export_def list_get_def not_le split: ExportKind.splits if_splits)
qed

lemma resolve_slots_ok:
  assumes "published_ok g" "graph_get g i = Some n"
  shows "set ims \<subseteq> set (bm_imports (nd_module n)) \<Longrightarrow>
    \<exists>rs. resolve_slots g i slot ims = Ok rs \<and> length rs = length ims \<and> list_all (target_ok g) rs"
proof (induction ims arbitrary: slot)
  case (Cons im ims)
  from Cons(1) [of "slot + 1"] Cons(2) obtain rs where
    "resolve_slots g i (slot + 1) ims = Ok rs" "length rs = length ims" "list_all (target_ok g) rs" by auto
  with resolve_import_ok [OF assms, of im slot] Cons(2) show ?case by auto
qed simp

lemma imports_resolve:
  assumes "published_ok g" "graph_get g i = Some n"
  shows "\<exists>rs. resolve_imports g i = Ok rs \<and> length rs = length (bm_imports (nd_module n)) \<and> list_all (target_ok g) rs"
  using resolve_slots_ok [OF assms order_refl, of 0] assms by (simp add: resolve_imports_def graph_get_def)

text \<open>
  C10 (published graphs are linked).  In a graph built by accepted transactions every module has passed the validator, the path
  index finds exactly the modules of the graph, and every import of every module resolves: linking neither fails nor panics, and
  each import points to an existing module and to a function or global inside its tables.
\<close>

theorem published_graph_linked:
  "published g \<and> graph_get g i = Some n \<Longrightarrow>
   validate_bytecode_module (nd_module n) = Inr () \<and>
   (gr_ids_by_path g p = Some i \<longleftrightarrow> nd_path n = p) \<and>
   (\<exists>rs. resolve_imports g i = Ok rs \<and> length rs = length (bm_imports (nd_module n)) \<and> list_all (target_ok g) rs)"
proof -
  assume a: "published g \<and> graph_get g i = Some n"
  then have ok: "published_ok g" by (simp add: published_imp_ok)
  have "n \<in> set (graph_modules g)" using a modules_iff [OF ok] published_tables(2) [OF ok] by auto
  then show ?thesis
    using published_checked(2) [OF ok] ids_by_path_iff [OF ok, of p i] imports_resolve [OF ok] a by auto
qed

section \<open>Initialisation order\<close>

definition import_edges :: "BytecodeGraph \<Rightarrow> (ModuleId \<times> ModuleId) set" where
  "import_edges g = {(i, j). \<exists>rs. resolve_imports g i = Ok rs \<and> j \<in> ri_module_id ` set rs}"

text \<open>Every module of the list comes after all modules it imports, and once.\<close>

definition dependencies_first :: "BytecodeGraph \<Rightarrow> ModuleId list \<Rightarrow> bool" where
  "dependencies_first g order \<longleftrightarrow>
     distinct order \<and>
     (\<forall>k < length order. \<exists>rs. resolve_imports g (order ! k) = Ok rs \<and> ri_module_id ` set rs \<subseteq> set (take k order))"

lemma dependencies_first_snoc:
  assumes "dependencies_first g order" "i \<notin> set order" "resolve_imports g i = Ok rs" "ri_module_id ` set rs \<subseteq> set order"
  shows "dependencies_first g (order @ [i])"
  using assms by (auto simp: dependencies_first_def nth_append less_Suc_eq)

lemma dependencies_first_edge:
  assumes "dependencies_first g order" "m < length order" "(order ! m, j) \<in> import_edges g"
  shows "j \<in> set (take m order)"
proof -
  obtain rs where "resolve_imports g (order ! m) = Ok rs" "ri_module_id ` set rs \<subseteq> set (take m order)"
    using assms(1,2) by (auto simp: dependencies_first_def)
  then show ?thesis using assms(3) by (auto simp: import_edges_def)
qed

lemma import_edgesI: "resolve_imports g i = Ok rs \<Longrightarrow> r \<in> set rs \<Longrightarrow> (i, ri_module_id r) \<in> import_edges g"
  by (auto simp: import_edges_def)

lemma initialize_all_Ok:
  "initialize_all g visiting is st = Ok st' \<Longrightarrow> snd st = set (fst st) \<Longrightarrow> dependencies_first g (fst st) \<Longrightarrow>
   snd st' = set (fst st') \<and> dependencies_first g (fst st') \<and> set is \<subseteq> set (fst st') \<and>
   (\<exists>ext. fst st' = fst st @ ext \<and> set ext \<inter> visiting = {} \<and> set ext \<subseteq> (import_edges g)\<^sup>* `` set is)"
proof (induction g visiting "is" st arbitrary: st' rule: initialize_all.induct)
  case (2 g visiting i "is" st)
  show ?case
  proof (cases "i \<in> snd st")
    case True
    with "2.prems" have "initialize_all g visiting is st = Ok st'" by simp
    from "2.IH"(1) [OF True this "2.prems"(2,3)] True "2.prems"(2) show ?thesis
      by (auto intro!: exI dest: subsetD)
  next
    case False
    with "2.prems"(1) obtain rs order visited where
      new: "i \<notin> visiting" and rs: "resolve_imports g i = Ok rs"
      and inner: "initialize_all g (insert i visiting) (map ri_module_id rs) st = Ok (order, visited)"
      and outer: "initialize_all g visiting is (order @ [i], insert i visited) = Ok st'"
      by (auto split: if_splits outcome.splits)
    from "2.IH"(2) [OF False new rs inner "2.prems"(2,3)] obtain ext where
      order: "visited = set order" "dependencies_first g order" "ri_module_id ` set rs \<subseteq> set order"
      and ext: "order = fst st @ ext" "set ext \<inter> insert i visiting = {}" "set ext \<subseteq> (import_edges g)\<^sup>* `` (ri_module_id ` set rs)"
      by auto
    have fresh: "i \<notin> set order" using False "2.prems"(2) ext(1,2) by auto
    have "\<exists>ext'. fst st' = (order @ [i]) @ ext' \<and> set ext' \<inter> visiting = {} \<and> set ext' \<subseteq> (import_edges g)\<^sup>* `` set is"
      and rest: "snd st' = set (fst st')" "dependencies_first g (fst st')" "set is \<subseteq> set (fst st')"
      using "2.IH"(3) [OF False new rs inner refl outer] dependencies_first_snoc [OF order(2) fresh rs order(3)] order(1) by auto
    then obtain ext' where ext': "fst st' = order @ i # ext'" "set ext' \<inter> visiting = {}" "set ext' \<subseteq> (import_edges g)\<^sup>* `` set is"
      by auto
    have "set ext \<subseteq> (import_edges g)\<^sup>* `` set (i # is)"
    proof
      fix x assume "x \<in> set ext"
      with ext(3) obtain r where "r \<in> set rs" "(ri_module_id r, x) \<in> (import_edges g)\<^sup>*" by auto
      then show "x \<in> (import_edges g)\<^sup>* `` set (i # is)"
        using converse_rtrancl_into_rtrancl [OF import_edgesI [OF rs]] by auto
    qed
    then have "set (ext @ i # ext') \<inter> visiting = {} \<and> set (ext @ i # ext') \<subseteq> (import_edges g)\<^sup>* `` set (i # is)"
      using ext(2) ext'(2,3) new by auto
    then show ?thesis using rest ext(1) ext'(1) by auto
  qed
qed simp

lemma initialize_all_fails:
  "\<forall>v \<in> visiting. \<forall>j \<in> set is. (v, j) \<in> (import_edges g)\<^sup>+ \<Longrightarrow>
   case initialize_all g visiting is st of
     Ok _ \<Rightarrow> True
   | Err e \<Rightarrow> \<exists>c \<in> (import_edges g)\<^sup>* `` set is. (e = InitializationCycle c \<and> (c, c) \<in> (import_edges g)\<^sup>+) \<or> resolve_imports g c = Err e
   | Panic \<Rightarrow> \<exists>c \<in> (import_edges g)\<^sup>* `` set is. resolve_imports g c = Panic"
proof (induction g visiting "is" st rule: initialize_all.induct)
  case (2 g visiting i "is" st)
  show ?case
  proof (cases "i \<in> snd st")
    case True
    then show ?thesis using "2.IH"(1) "2.prems" by (auto split: outcome.splits)
  next
    case False
    show ?thesis
    proof (cases "i \<in> visiting")
      case True
      then show ?thesis using False "2.prems" by auto
    next
      case new: False
      show ?thesis
      proof (cases "resolve_imports g i")
        case (Ok rs)
        have "\<forall>v \<in> insert i visiting. \<forall>j \<in> set (map ri_module_id rs). (v, j) \<in> (import_edges g)\<^sup>+"
          using "2.prems" import_edgesI [OF Ok] by (auto intro: trancl_into_trancl)
        note ih = "2.IH"(2) [OF False new Ok this]
        have up: "(import_edges g)\<^sup>* `` set (map ri_module_id rs) \<subseteq> (import_edges g)\<^sup>* `` set (i # is)"
          using converse_rtrancl_into_rtrancl [OF import_edgesI [OF Ok]] by auto
        show ?thesis
        proof (cases "initialize_all g (insert i visiting) (map ri_module_id rs) st")
          case inner: (Ok st1)
          obtain order visited where "st1 = (order, visited)" by fastforce
          with "2.IH"(3) [OF False new Ok inner] "2.prems" inner Ok False new show ?thesis by (auto split: outcome.splits)
        next
          case (Err e)
          with ih up False new Ok show ?thesis by auto
        next
          case Panic
          with ih up False new Ok show ?thesis by auto
        qed
      qed (use False new in auto)
    qed
  qed
qed simp

lemma dependencies_first_acyclic:
  assumes "dependencies_first g order" "c \<in> set order"
  shows "(c, c) \<notin> (import_edges g)\<^sup>+"
proof -
  have down: "\<exists>l < k. order ! l = d" if "(order ! k, d) \<in> (import_edges g)\<^sup>+" "k < length order" for k d
    using that
  proof (induction rule: trancl_induct)
    case (base d)
    then have "d \<in> set (take k order)" using dependencies_first_edge [OF assms(1)] by blast
    then show ?case by (auto simp: in_set_conv_nth)
  next
    case (step d d')
    then obtain l where l: "l < k" "order ! l = d" by auto
    then have "d' \<in> set (take l order)" using step dependencies_first_edge [OF assms(1), of l d'] by simp
    then show ?case using l(1) by (auto simp: in_set_conv_nth intro: order_less_trans)
  qed
  obtain k where k: "k < length order" "order ! k = c" using assms(2) by (auto simp: in_set_conv_nth)
  show ?thesis
  proof
    assume "(c, c) \<in> (import_edges g)\<^sup>+"
    then obtain l where "l < k" "order ! l = order ! k" using down k by metis
    then show False using assms(1) k(1) by (auto simp: dependencies_first_def nth_eq_iff_index_eq)
  qed
qed

lemma reachable_loaded:
  assumes "published_ok g" "(i, j) \<in> (import_edges g)\<^sup>*" "graph_get g i \<noteq> None"
  shows "graph_get g j \<noteq> None"
  using assms(2,3)
proof (induction rule: rtrancl_induct)
  case (step j k)
  then obtain n rs r where "graph_get g j = Some n" "resolve_imports g j = Ok rs" "r \<in> set rs" "k = ri_module_id r"
    by (auto simp: import_edges_def)
  then show ?case using imports_resolve [OF assms(1), of j n] by (auto simp: list_all_iff target_ok_def split: option.splits)
qed simp

text \<open>
  C11 (modules are initialised dependencies first).  For a loaded module of a published graph, \<open>initialization_order\<close> always
  returns.  It gives an order exactly when no module reachable by imports lies on an import cycle: then the order lists exactly
  the reachable modules, each once and after everything it imports, the module itself last.  Otherwise it reports a reachable
  module that is on a cycle.
\<close>

theorem initialization_order_topological:
  "published g \<and> graph_get g i \<noteq> None \<Longrightarrow>
   case initialization_order g i of
     Ok order \<Rightarrow>
       dependencies_first g order \<and> order \<noteq> [] \<and> last order = i \<and> set order = {j. (i, j) \<in> (import_edges g)\<^sup>*} \<and>
       (\<forall>c. (i, c) \<in> (import_edges g)\<^sup>* \<longrightarrow> (c, c) \<notin> (import_edges g)\<^sup>+)
   | Err e \<Rightarrow> \<exists>c. e = InitializationCycle c \<and> (i, c) \<in> (import_edges g)\<^sup>* \<and> (c, c) \<in> (import_edges g)\<^sup>+
   | Panic \<Rightarrow> False"
proof -
  assume a: "published g \<and> graph_get g i \<noteq> None"
  then have ok: "published_ok g" by (simp add: published_imp_ok)
  have resolved: "\<exists>rs. resolve_imports g c = Ok rs" if "(i, c) \<in> (import_edges g)\<^sup>*" for c
    using reachable_loaded [OF ok that] a imports_resolve [OF ok] by (metis not_None_eq)
  show ?thesis
  proof (cases "initialize_all g {} [i] ([], {})")
    case (Ok st')
    then obtain order where st': "st' = (order, set order)" and df: "dependencies_first g order" and "i \<in> set order"
      and sub: "set order \<subseteq> (import_edges g)\<^sup>* `` {i}"
      using initialize_all_Ok [OF Ok] by (cases st') (auto simp: dependencies_first_def)
    have "last order = i"
      using Ok st' by (auto split: outcome.splits)
    moreover have "j \<in> set order" if "(i, j) \<in> (import_edges g)\<^sup>*" for j
      using that
    proof (induction rule: rtrancl_induct)
      case (step j k)
      then obtain m where "m < length order" "order ! m = j" by (auto simp: in_set_conv_nth)
      then have "k \<in> set (take m order)" using step(2) dependencies_first_edge [OF df] by blast
      then show ?case by (rule in_set_takeD)
    qed (fact \<open>i \<in> set order\<close>)
    moreover have "order \<noteq> []" using \<open>i \<in> set order\<close> by auto
    ultimately show ?thesis
      using Ok st' df sub dependencies_first_acyclic [OF df] by (auto simp: initialization_order_def)
  next
    case (Err e)
    then show ?thesis
      using initialize_all_fails [of "{}" "[i]" g "([], {})"] resolved by (fastforce simp: initialization_order_def)
  next
    case Panic
    then show ?thesis
      using initialize_all_fails [of "{}" "[i]" g "([], {})"] resolved by (fastforce simp: initialization_order_def)
  qed
qed

section \<open>Dependents\<close>

definition dependent_edges :: "BytecodeGraph \<Rightarrow> (ModuleId \<times> ModuleId) set" where
  "dependent_edges g = {(i, j). j \<in> set (direct_dependents g i)}"

lemma collect_dependents_closed:
  "collect_dependents g js st = st' \<Longrightarrow> snd st = set (fst st) \<Longrightarrow> distinct (fst st) \<Longrightarrow>
   snd st' = set (fst st') \<and> distinct (fst st') \<and> set (fst st) \<subseteq> set (fst st') \<and> set js \<subseteq> set (fst st') \<and>
   set (fst st') \<subseteq> set (fst st) \<union> (dependent_edges g)\<^sup>* `` set js \<and>
   (\<forall>j \<in> set (fst st') - set (fst st). set (direct_dependents g j) \<subseteq> set (fst st'))"
proof (induction g js st arbitrary: st' rule: collect_dependents.induct)
  case (2 g j js out visited)
  show ?case
  proof (cases "j \<in> visited")
    case True
    with "2.prems" have "collect_dependents g js (out, visited) = st'" by simp
    from "2.IH"(1) [OF True this] "2.prems" True show ?thesis by auto
  next
    case False
    let ?inner = "collect_dependents g (direct_dependents g j) (out @ [j], insert j visited)"
    have inner: "snd ?inner = set (fst ?inner)" "distinct (fst ?inner)" "set (out @ [j]) \<subseteq> set (fst ?inner)"
      "set (direct_dependents g j) \<subseteq> set (fst ?inner)"
      "set (fst ?inner) \<subseteq> set (out @ [j]) \<union> (dependent_edges g)\<^sup>* `` set (direct_dependents g j)"
      "\<forall>k \<in> set (fst ?inner) - set (out @ [j]). set (direct_dependents g k) \<subseteq> set (fst ?inner)"
      using "2.IH"(2) [OF False refl] "2.prems"(2,3) False by auto
    have outer: "collect_dependents g js ?inner = st'" using "2.prems"(1) False by simp
    note rest = "2.IH"(3) [OF False outer inner(1,2)]
    have "insert j ((dependent_edges g)\<^sup>* `` set (direct_dependents g j)) \<subseteq> (dependent_edges g)\<^sup>* `` set (j # js)"
      by (auto simp: dependent_edges_def intro: converse_rtrancl_into_rtrancl)
    then have reach: "set (fst ?inner) \<subseteq> set out \<union> (dependent_edges g)\<^sup>* `` set (j # js)" using inner(5) by fastforce
    have "\<forall>k \<in> set (fst st') - set out. set (direct_dependents g k) \<subseteq> set (fst st')"
      using rest inner(4,6) by (auto simp del: collect_dependents.simps) blast+
    then show ?thesis using rest inner(3) reach by (auto simp del: collect_dependents.simps)
  qed
qed auto

lemma dependents_of_reach: "distinct (dependents_of g i) \<and> set (dependents_of g i) = {j. (i, j) \<in> (dependent_edges g)\<^sup>+}"
proof -
  let ?st = "collect_dependents g (direct_dependents g i) ([], {})"
  have st: "distinct (fst ?st)" "set (direct_dependents g i) \<subseteq> set (fst ?st)"
    "set (fst ?st) \<subseteq> (dependent_edges g)\<^sup>* `` set (direct_dependents g i)"
    "\<forall>j \<in> set (fst ?st). set (direct_dependents g j) \<subseteq> set (fst ?st)"
    using collect_dependents_closed [OF refl, of "([], {})"] by auto
  have "j \<in> set (fst ?st)" if "(i, j) \<in> (dependent_edges g)\<^sup>+" for j
    using that by (induction rule: trancl_induct) (use st(2,4) in \<open>auto simp: dependent_edges_def\<close>)
  moreover have "(i, j) \<in> (dependent_edges g)\<^sup>+" if "j \<in> set (fst ?st)" for j
    using st(3) that by (auto simp: dependent_edges_def intro: rtrancl_into_trancl2)
  ultimately show ?thesis using st(1) by (auto simp: dependents_of_def)
qed

text \<open>The index over a list of edges holds, for every key, the other ends of its edges.\<close>

fun ends :: "ModuleId list option \<Rightarrow> ModuleId list" where
  "ends None = []"
| "ends (Some ys) = ys"

lemma direct_dependents_ends: "direct_dependents g i = ends (gr_dependents g i)"
  by (simp add: direct_dependents_def split: option.split)

lemma adjacency_index_set:
  "y \<in> set (ends (adjacency_index endpoints index es x)) \<longleftrightarrow> y \<in> set (ends (index x)) \<or> (\<exists>e \<in> set es. endpoints e = (x, y))"
proof (induction es arbitrary: index)
  case (Cons e es)
  obtain a b where e: "endpoints e = (a, b)" by fastforce
  define index1 where "index1 = index(a \<mapsto> (case index a of None \<Rightarrow> [b] | Some ys \<Rightarrow> ys @ [b]))"
  have "y \<in> set (ends (index1 x)) \<longleftrightarrow> y \<in> set (ends (index x)) \<or> (a, b) = (x, y)"
    unfolding index1_def by (cases "index a") auto
  moreover have "adjacency_index endpoints index (e # es) = adjacency_index endpoints index1 es"
    by (simp add: e index1_def)
  ultimately show ?case using Cons.IH [of index1] e by auto
qed simp

text \<open>The import edges of a list of edges, from the importing module to the imported one.\<close>

definition edge_relation :: "ImportEdge list \<Rightarrow> (ModuleId \<times> ModuleId) set" where
  "edge_relation es = (\<lambda>e. (ed_from e, ed_to e)) ` set es"

lemma dependent_edges_applied:
  assumes "apply_transaction g tx = Inr g'"
  shows "dependent_edges g' = (edge_relation (tx_edges tx))\<inverse>"
proof -
  have
    "gr_dependents g' = adjacency_index (\<lambda>e. (ed_to e, ed_from e)) Map.empty (sort_key edge_key (sort_key edge_key (tx_edges tx)))"
    by (rule apply_transaction_Inr [OF assms]) (simp add: rebuild_transient_indexes_def Let_def)
  then have "y \<in> set (direct_dependents g' i) \<longleftrightarrow> (\<exists>e \<in> set (tx_edges tx). (ed_to e, ed_from e) = (i, y))" for i y
    using adjacency_index_set [of y "\<lambda>e. (ed_to e, ed_from e)" Map.empty "sort_key edge_key (sort_key edge_key (tx_edges tx))" i]
    by (simp add: direct_dependents_ends)
  then show ?thesis by (auto simp: dependent_edges_def edge_relation_def image_iff)
qed

text \<open>
  C40 (dependents are complete).  In the graph that an accepted transaction publishes, \<open>dependents_of\<close> returns exactly the modules
  from which the given module is reached along the import edges of the transaction, directly or through others, each once.
\<close>

theorem dependents_of_closure:
  assumes "apply_transaction g tx = Inr g'"
  shows "distinct (dependents_of g' i) \<and> set (dependents_of g' i) = {j. (j, i) \<in> (edge_relation (tx_edges tx))\<^sup>+}"
  using dependents_of_reach [of g' i] by (simp add: dependent_edges_applied [OF assms] trancl_converse)

section \<open>Examples\<close>

text \<open>Two modules: \<open>main\<close> calls the function \<open>f\<close> it imports from \<open>lib\<close>.\<close>

definition sample_function :: "utext \<Rightarrow> Instruction list \<Rightarrow> BytecodeFunction" where
  "sample_function name code =
    \<lparr>bf_name = name, bf_param_count = 0, bf_local_count = 1, bf_temp_count = 0, bf_return_ty = 0,
     bf_adapter_proxy_metadata = None, bf_instructions = code\<rparr>"

definition lib_module :: BytecodeModule where
  "lib_module =
    \<lparr>bm_name = [108], bm_global_count = 0, bm_constants = [], bm_functions = [sample_function [102] [LoadNull 0, Control (Ret 0)]],
     bm_types = [TyNull], bm_struct_layouts = [], bm_choice_layouts = [], bm_imports = [],
     bm_exports = [\<lparr>ex_symbol_name = [102], ex_kind = ExportFunction 0\<rparr>], bm_init_func_idx = None\<rparr>"

definition main_module :: BytecodeModule where
  "main_module =
    \<lparr>bm_name = [109], bm_global_count = 0, bm_constants = [],
     bm_functions = [sample_function [103] [Control (Call 0 1 0 0), Control (Ret 0)]],
     bm_types = [TyNull], bm_struct_layouts = [], bm_choice_layouts = [],
     bm_imports = [\<lparr>im_module_name = map of_char ''lib.gfs'', im_symbol_name = [102], im_ty = 0, im_kind = ImportFunction\<rparr>],
     bm_exports = [], bm_init_func_idx = Some 0\<rparr>"

definition sample_nodes :: "BytecodeNode list" where
  "sample_nodes =
    [\<lparr>nd_id = 7, nd_path = map of_char ''main.gfs'', nd_semantic_revision = 0, nd_module = main_module, nd_metadata = None\<rparr>,
     \<lparr>nd_id = 3, nd_path = map of_char ''lib.gfs'', nd_semantic_revision = 0, nd_module = lib_module, nd_metadata = None\<rparr>]"

definition sample_transaction :: BytecodeGraphTransaction where
  "sample_transaction =
    \<lparr>tx_base_version = 0, tx_semantic_revision = 0, tx_upserted_modules = sample_nodes, tx_removed_modules = [],
     tx_edges = [\<lparr>ed_from = 7, ed_to = 3\<rparr>]\<rparr>"

definition sample_graph :: BytecodeGraph where
  "sample_graph = (case apply_transaction (with_format_version CURRENT_BYTECODE_FORMAT_VERSION) sample_transaction of Inr g \<Rightarrow> g | Inl _ \<Rightarrow> undefined)"

lemma sample_accepted: "\<not> isl (apply_transaction (with_format_version CURRENT_BYTECODE_FORMAT_VERSION) sample_transaction)"
  by code_simp

lemma sample_applied: "apply_transaction (with_format_version CURRENT_BYTECODE_FORMAT_VERSION) sample_transaction = Inr sample_graph"
  using sample_accepted by (auto simp: sample_graph_def split: sum.splits)

lemma sample_published: "published sample_graph"
  using published.intros(1) sample_applied by (rule published.intros(2))

theorem transaction_effect_witness:
  "apply_transaction (with_format_version CURRENT_BYTECODE_FORMAT_VERSION) sample_transaction = Inr sample_graph \<and>
   gr_version sample_graph = 1 \<and> map_option nd_path (graph_get sample_graph 3) = Some (map of_char ''lib.gfs'')"
proof -
  have "gr_version (with_format_version CURRENT_BYTECODE_FORMAT_VERSION) = 0" by (simp add: with_format_version_def)
  moreover have "find (\<lambda>n. nd_id n = 3) (tx_upserted_modules sample_transaction) = Some (sample_nodes ! 1)"
    "\<exists>n \<in> set (tx_upserted_modules sample_transaction). nd_id n = 3" "nd_path (sample_nodes ! 1) = map of_char ''lib.gfs''"
    by (simp_all add: sample_transaction_def sample_nodes_def)
  ultimately show ?thesis using transaction_effect [OF sample_applied, of 3] sample_applied by simp
qed

lemma sample_loaded: "graph_get sample_graph 7 = Some (sample_nodes ! 0)"
  by code_simp

theorem published_graph_linked_witness:
  "validate_bytecode_module main_module = Inr () \<and>
   (\<exists>rs. resolve_imports sample_graph 7 = Ok rs \<and> length rs = 1 \<and> list_all (target_ok sample_graph) rs)"
  using published_graph_linked [of sample_graph 7 "sample_nodes ! 0"] sample_published sample_loaded
  by (simp add: sample_nodes_def main_module_def)

theorem initialization_order_topological_witness:
  "initialization_order sample_graph 7 = Ok [3, 7] \<and> dependencies_first sample_graph [3, 7] \<and>
   {j. (7, j) \<in> (import_edges sample_graph)\<^sup>*} = {3, 7}"
proof -
  have "initialization_order sample_graph 7 = Ok [3, 7]" by code_simp
  then show ?thesis
    using initialization_order_topological [of sample_graph 7] sample_published sample_loaded by auto
qed

theorem dependents_of_closure_witness: "dependents_of sample_graph 3 = [7]"
proof -
  have "edge_relation (tx_edges sample_transaction) = {(7, 3)}"
    by (simp add: sample_transaction_def edge_relation_def)
  moreover have "{(7 :: ModuleId, 3 :: ModuleId)}\<^sup>+ = {(7, 3)}" by (rule trancl_id) (simp add: trans_def)
  ultimately have "distinct (dependents_of sample_graph 3) \<and> set (dependents_of sample_graph 3) = {7}"
    using dependents_of_closure [OF sample_applied, of 3] by simp
  then show ?thesis
    by (cases "dependents_of sample_graph 3") (auto simp: subset_singleton_iff)
qed

end
