(* ===== verification/Vm_Step_Props.thy ===== *)
theory Vm_Step_Props
  imports Vm_Step Vm_Operator_Laws Vm_Thread_Props Bytecode_Graph_Props
begin

text \<open>
  Properties of single steps: the interpreter loop and \<open>step\<close> execute the same instruction the same way, and the values that the
  operators and casts compute are canonical.
\<close>

section \<open>The loop and the step agree\<close>

lemma arith_primitive:
  "add_values l r = Inr v \<Longrightarrow> \<not> is_object v" "sub_values l r = Inr v \<Longrightarrow> \<not> is_object v"
  by (auto simp: add_values_def sub_values_def split: VmValue.splits)

lemma compare_primitive: "compare_with p l r = Ok v \<Longrightarrow> \<not> is_object v"
  using compare_with_Ok [of p l r v] by auto

lemma immediate_primitive: "immediate_binary_value l imm operation = Ok v \<Longrightarrow> \<not> is_object v"
  by (cases operation)
     (auto simp: immediate_binary_value_def split: VmValue.splits ImmediateValue.splits)

lemma typed_primitive: "typed_values k operation l r = Ok v \<Longrightarrow> \<not> is_object v"
  by (cases k; cases operation; cases l; simp; cases r; auto split: if_splits)

lemma write_prim_reg_eq: "\<not> is_object v \<Longrightarrow> write_prim_reg env t r v = put_reg env t r v"
  by (simp add: write_prim_reg_def put_reg_def write_reg_def Let_def)

lemma hot_operator_eq: "(\<And>v. res = Ok v \<Longrightarrow> \<not> is_object v) \<Longrightarrow> hot_operator env t d res = finish_operator env t d res"
  by (cases res) (simp_all add: hot_operator_def finish_operator_def write_prim_reg_eq)

lemma hot_binary_generic:
  assumes "hot_binary fenv operation = Some f"
  shows "f l r = binary_values fenv operation l r" and "f l r = Ok v \<Longrightarrow> \<not> is_object v"
proof -
  have hot: "hot_lt l r = binary_values fenv Lt l r" "hot_le l r = binary_values fenv Le l r"
    "of_result (hot_add l r) = binary_values fenv Add l r" "of_result (hot_sub l r) = binary_values fenv Sub l r"
    by (rule hot_generic)+
  from assms hot show eq: "f l r = binary_values fenv operation l r" by (cases operation) auto
  from assms eq show "f l r = Ok v \<Longrightarrow> \<not> is_object v"
    by (cases operation) (auto dest: arith_primitive compare_primitive)
qed

definition is_typed :: "Instruction \<Rightarrow> bool" where
  "is_typed instr = (case instr of Typed _ _ _ _ _ \<Rightarrow> True | _ \<Rightarrow> False)"

text \<open>Calls that stay in the module of the current frame, which the loop executes on its own.\<close>

definition is_local_call :: "BytecodeModule \<Rightarrow> Instruction \<Rightarrow> bool" where
  "is_local_call img instr =
    (case instr of
       Control (Call _ f _ _) \<Rightarrow> unat f < length (bm_functions img)
     | Control (TailCall f _ _) \<Rightarrow> unat f < length (bm_functions img)
     | _ \<Rightarrow> False)"

text \<open>The bottom of the call stack is a frame without a destination.\<close>

definition rooted :: "VmThreadState \<Rightarrow> bool" where
  "rooted t = (th_call_stack t \<noteq> [] \<and> fr_return_dest (hd (th_call_stack t)) = None)"

lemma clear_window_stack: "clear_window env is t = Some t' \<Longrightarrow> th_call_stack t' = th_call_stack t"
  by (induction "is" arbitrary: t) (auto split: if_splits)

lemma pop_frame_rooted:
  assumes "rooted t" "pop_frame env t = Some (fo, t1)"
  obtains frame where "fo = Some frame" "fr_return_dest frame \<noteq> None \<longrightarrow> th_call_stack t1 \<noteq> []"
proof -
  from assms have "fo = Some (last (th_call_stack t))" and st: "th_call_stack t1 = butlast (th_call_stack t)"
    by (auto simp: rooted_def pop_frame_def Let_def split: option.splits if_splits dest: clear_window_stack)
  moreover have "butlast (th_call_stack t) = [] \<Longrightarrow> last (th_call_stack t) = hd (th_call_stack t)"
    using assms(1) by (cases "th_call_stack t") (auto simp: rooted_def split: if_splits)
  ultimately show ?thesis
    using that [of "last (th_call_stack t)"] assms(1) unfolding rooted_def by metis
qed

lemma hot_return_eq: "rooted t \<Longrightarrow> hot_return env vm t v = return_value env vm t v"
  by (auto simp: hot_return_def return_value_def split: option.splits elim!: pop_frame_rooted)

lemma rooted_retain [simp]: "rooted (retain_anchor_val v t) = rooted t"
  by (cases v) (simp_all add: rooted_def)

lemma hot_control_eq:
  assumes "rooted t" "\<not> is_local_call img (Control i)"
  shows "hot_control env vm m img t i = execute_control_instruction env vm t i"
  using assms by (cases i) (simp_all add: is_local_call_def list_get_def hot_return_eq reg_def split: option.splits)

definition is_immediate :: "Instruction \<Rightarrow> bool" where
  "is_immediate instr = (case instr of BinaryImmediate _ _ _ _ \<Rightarrow> True | _ \<Rightarrow> False)"

lemma unsynced_Panic [simp]: "unsynced saved (Panic, t) = (Panic, t)"
  by (simp add: unsynced_def)

lemma hot_dispatch_untyped:
  assumes "\<not> is_typed instr" "\<not> is_local_call img instr" "rooted t"
  shows "hot_dispatch env fenv vm m img saved t instr =
    (if is_immediate instr then unsynced saved (dispatch env fenv vm t instr) else dispatch env fenv vm t instr)"
proof (cases instr)
  case (Binary operation d l r)
  show ?thesis
  proof (cases "hot_binary fenv operation")
    case None
    with Binary show ?thesis by (simp add: is_immediate_def)
  next
    case (Some f)
    from hot_binary_generic [OF Some] have "hot_operator env t d (f a b) = finish_operator env t d (binary_values fenv operation a b)"
      for a b by (metis hot_operator_eq)
    with Binary Some show ?thesis by (simp add: is_immediate_def split: option.splits)
  qed
next
  case (BinaryImmediate d l operation imm)
  have "hot_operator env t d (immediate_binary_value a imm operation) =
        finish_operator env t d (immediate_binary_value a imm operation)" for a
    by (rule hot_operator_eq) (rule immediate_primitive)
  with BinaryImmediate show ?thesis by (simp add: is_immediate_def split: option.splits)
next
  case (Control i)
  with assms hot_control_eq [of t img i env vm m] show ?thesis by (simp add: is_immediate_def)
qed (use assms in \<open>simp_all add: write_prim_reg_eq is_typed_def is_immediate_def split: option.splits\<close>)

text \<open>
  C28 (the interpreter loop executes what \<open>step\<close> executes).  Take a thread whose bottom frame has no destination, and an
  instruction that is neither typed nor a call or tail call of a function of the same module: the arm of the loop of
  \<open>execute_with_budget\<close> and the handler behind \<open>step\<close> give the same outcome and the same thread state, except that a
  \<open>BinaryImmediate\<close> that fails leaves the frame with the counter \<open>saved\<close> of the last \<open>sync_frame!\<close>.  A typed instruction on
  operands of its type does in the loop what the generic instruction does, with the same exception for its errors and apart from
  the overflowing quotient and the float remainders; \<open>step\<close> skips it.
\<close>

theorem loop_agrees_with_step:
  "(\<not> is_typed instr \<and> \<not> is_local_call img instr \<and> rooted t \<longrightarrow>
    hot_dispatch env fenv vm m img saved t instr =
      (if is_immediate instr then unsynced saved (dispatch env fenv vm t instr) else dispatch env fenv vm t instr)) \<and>
   (read_reg t lhs = Some l \<and> read_reg t rhs = Some r \<and> has_kind k l \<and> has_kind k r \<and>
    \<not> (operation \<in> {DivT, RemT} \<and> value_div_overflows l r) \<and> \<not> (operation = RemT \<and> k \<in> {KindF32, KindF64}) \<longrightarrow>
    hot_dispatch env fenv vm m img saved t (Typed k operation dest lhs rhs) =
      unsynced saved (dispatch env fenv vm t (Binary (generic_op operation) dest lhs rhs)) \<and>
    dispatch env fenv vm t (Typed k operation dest lhs rhs) = (Ok Continue, t))"
proof -
  have "hot_operator env t dest (typed_values k operation l r) = finish_operator env t dest (typed_values k operation l r)"
    by (rule hot_operator_eq) (rule typed_primitive)
  then show ?thesis
    using hot_dispatch_untyped [of instr img t env fenv vm m saved] typed_generic [of k l r operation fenv] by auto
qed

definition loop_thread :: VmThreadState where
  "loop_thread = sample_thread\<lparr>th_registers := [Int32 6, Int32 7, Null], th_register_top := 3,
     th_call_stack := [\<lparr>fr_module_id = 1, fr_func_idx = 0, fr_pc = 0, fr_register_base = 0, fr_return_dest = None,
       fr_cached_instructions = [], fr_has_objects = False\<rparr>]\<rparr>"

definition empty_vm :: VirtualMachine where
  "empty_vm = new_vm (with_format_version CURRENT_BYTECODE_FORMAT_VERSION)"

theorem loop_agrees_with_step_witness:
  "hot_dispatch plain_env sample_fenv empty_vm 1 lib_module 0 loop_thread (Control RetNull) =
     dispatch plain_env sample_fenv empty_vm loop_thread (Control RetNull) \<and>
   hot_dispatch plain_env sample_fenv empty_vm 1 lib_module 0 loop_thread (Typed KindI32 MulT 2 0 1) =
     unsynced 0 (dispatch plain_env sample_fenv empty_vm loop_thread (Binary Mul 2 0 1))"
proof
  show "hot_dispatch plain_env sample_fenv empty_vm 1 lib_module 0 loop_thread (Control RetNull) =
     dispatch plain_env sample_fenv empty_vm loop_thread (Control RetNull)"
    using loop_agrees_with_step [where t = loop_thread and instr = "Control RetNull" and img = lib_module and
        env = plain_env and fenv = sample_fenv and vm = empty_vm and m = 1 and saved = 0]
    by (simp add: loop_thread_def rooted_def is_typed_def is_local_call_def is_immediate_def)
  show "hot_dispatch plain_env sample_fenv empty_vm 1 lib_module 0 loop_thread (Typed KindI32 MulT 2 0 1) =
     unsynced 0 (dispatch plain_env sample_fenv empty_vm loop_thread (Binary Mul 2 0 1))"
    using loop_agrees_with_step [where t = loop_thread and lhs = 0 and rhs = 1 and l = "Int32 6" and r = "Int32 7" and
        k = KindI32 and operation = MulT and env = plain_env and fenv = sample_fenv and vm = empty_vm and dest = 2 and
        m = 1 and img = lib_module and saved = 0]
    by (simp add: loop_thread_def sample_thread_def new_thread_def read_reg_def list_get_def)
qed

section \<open>Canonical floats\<close>

lemma execute_cast_canonical:
  assumes "execute_cast env vm t x ty = Ok v" "canonical_value x"
  shows "canonical_value v"
  using assms
  by (auto simp: execute_cast_def split: sum.splits option.splits bool.splits dest: cast_canonical)

text \<open>
  C32 (operators produce canonical floats).  Whatever the operands, the result of every binary, unary and immediate operator and
  of every typed instruction is free of negative zeros and of all NaNs but one, so that equal float results are bitwise equal.
  A cast keeps this: it returns a value that already has the target type as it is, and what it converts is canonical, so a
  canonical value is cast to a canonical value.
\<close>

theorem operator_results_canonical:
  "(binary_values fenv operation l r = Ok v \<longrightarrow> canonical_value v) \<and>
   (unary_value unary x = Ok v \<longrightarrow> canonical_value v) \<and>
   (immediate_binary_value l imm immediate = Ok v \<longrightarrow> canonical_value v) \<and>
   (typed_values k typed l r = Ok v \<longrightarrow> canonical_value v) \<and>
   (execute_cast env vm t x ty = Ok v \<and> canonical_value x \<longrightarrow> canonical_value v)"
  by (auto dest: binary_canonical unary_canonical immediate_canonical typed_canonical execute_cast_canonical)

theorem operator_results_canonical_witness:
  "unary_value Neg (Float32 0) = Ok (Float32 0) \<and> canonical_value (Float32 0)"
proof -
  have "unary_value Neg (Float32 0) = Ok (Float32 0)"
    by (simp add: f32_neg_def normalize_f32_def f32_is_nan_def f32_eq_def f32_key_def f32_is_sign_negative_def signed_def)
  then show ?thesis
    using operator_results_canonical [where unary = Neg and x = "Float32 0" and v = "Float32 0"] by blast
qed

end
