(* ===== verification/Vm_Validated.thy ===== *)
theory Vm_Validated
  imports Vm_Step_Props
begin

text \<open>
  What the validator of modules gives the virtual machine: which registers an instruction accesses in the window of its frame,
  where its jumps land, and which of them the checks of \<^verbatim>\<open>galfus-bytecode/src/validation.rs\<close> cover.
\<close>

section \<open>Accesses of an instruction\<close>

text \<open>The registers of an argument range, as the handlers compute them.\<close>

definition arg_registers :: "Reg \<Rightarrow> u8 \<Rightarrow> Reg list" where
  "arg_registers start count = map (\<lambda>k. start + of_nat k) [0..<unat count]"

text \<open>
  The registers the handlers of an instruction read and write in the current window: a table read off the handlers, one line per
  instruction, against which the checks of the validator and the renamings of the optimizer are compared.  The destination of a call is written when
  the callee returns.  The arguments of a method call start after the first register of the range.
\<close>

fun control_registers :: "ControlInstruction \<Rightarrow> Reg list" where
  "control_registers (Call dest _ start count) = dest # arg_registers start count"
| "control_registers (TailCall _ start count) = arg_registers start count"
| "control_registers (CallMethod dest obj _ start count _ _) = dest # obj # tl (arg_registers start count)"
| "control_registers (CallDynamic dest func_reg start count) = dest # func_reg # arg_registers start count"
| "control_registers (Ret src) = [src]"
| "control_registers RetNull = []"
| "control_registers (PanicWith _) = []"

fun object_registers :: "ObjectInstruction \<Rightarrow> Reg list" where
  "object_registers (AllocLocal dest _) = [dest]"
| "object_registers (LoadField dest obj _) = [dest, obj]"
| "object_registers (StoreField obj _ val) = [obj, val]"
| "object_registers (NewArray dest _ len_reg) = [dest, len_reg]"
| "object_registers (LoadIndex dest arr idx) = [dest, arr, idx]"
| "object_registers (StoreIndex arr idx val) = [arr, idx, val]"
| "object_registers (NewTuple dest _ start count) = dest # arg_registers start count"
| "object_registers (NewChoice dest _ _ payload) = [dest, payload]"
| "object_registers (Cast dest src _) = [dest, src]"
| "object_registers (Copy dest src) = [dest, src]"
| "object_registers (Instanceof dest src _) = [dest, src]"

fun system_registers :: "SystemInstruction \<Rightarrow> Reg list" where
  "system_registers (Drop r) = [r]"
| "system_registers (AwaitFuture dest future_id _) = [dest, future_id]"
| "system_registers (CreateFuture dest _ start count _ _) = dest # arg_registers start count"
| "system_registers (CreateAwaitFuture dest _ start count _ _) = dest # arg_registers start count"
| "system_registers (CallInternalThread dest _ start count _ _) = dest # arg_registers start count"
| "system_registers (CreateIndirectFuture dest func_reg start count _ _) = dest # func_reg # arg_registers start count"
| "system_registers (AwaitAll dest start count _) = dest # arg_registers start count"
| "system_registers (AwaitRace dest start count _) = dest # arg_registers start count"
| "system_registers (Len dest src) = [dest, src]"
| "system_registers (CopyArray dest dest_start src) = [dest, dest_start, src]"
| "system_registers (CallInternalMath dest _ start count) = dest # arg_registers start count"

fun accessed_registers :: "Instruction \<Rightarrow> Reg list" where
  "accessed_registers (LoadConst dest _) = [dest]"
| "accessed_registers (Move dest src) = [dest, src]"
| "accessed_registers (LoadGlobal dest _ _) = [dest]"
| "accessed_registers (StoreGlobal _ _ src) = [src]"
| "accessed_registers (LoadNull dest) = [dest]"
| "accessed_registers (Binary _ dest lhs rhs) = [dest, lhs, rhs]"
| "accessed_registers (Unary _ dest src) = [dest, src]"
| "accessed_registers (Fallback dest src fallback) = [dest, src, fallback]"
| "accessed_registers (BinaryImmediate dest lhs _ _) = [dest, lhs]"
| "accessed_registers (Typed _ _ dest lhs rhs) = [dest, lhs, rhs]"
| "accessed_registers (Jump _) = []"
| "accessed_registers (JumpTrue cond _) = [cond]"
| "accessed_registers (JumpFalse cond _) = [cond]"
| "accessed_registers (JumpNull val _) = [val]"
| "accessed_registers (Control i) = control_registers i"
| "accessed_registers (Objects i) = object_registers i"
| "accessed_registers (System i) = system_registers i"

fun jump_offsets :: "Instruction \<Rightarrow> u32 list" where
  "jump_offsets (Jump offset) = [offset]"
| "jump_offsets (JumpTrue _ offset) = [offset]"
| "jump_offsets (JumpFalse _ offset) = [offset]"
| "jump_offsets (JumpNull _ offset) = [offset]"
| "jump_offsets _ = []"

section \<open>What the validator covers\<close>

text \<open>
  The validator looks at neither typed instructions nor tail calls, and of the arguments of a method call at all but the last.
  For the ranges of system instructions it checks the last register only, in 16-bit arithmetic, which is enough when the range
  does not wrap.
\<close>

definition range_fits :: "Reg \<Rightarrow> u8 \<Rightarrow> bool" where
  "range_fits start count = (unat start + unat count \<le> 2 ^ 16)"

fun system_covered :: "SystemInstruction \<Rightarrow> bool" where
  "system_covered (CreateFuture _ _ start count _ _) = range_fits start count"
| "system_covered (CreateAwaitFuture _ _ start count _ _) = range_fits start count"
| "system_covered (CallInternalThread _ _ start count _ _) = range_fits start count"
| "system_covered (CreateIndirectFuture _ _ start count _ _) = range_fits start count"
| "system_covered (AwaitAll _ start count _) = range_fits start count"
| "system_covered (AwaitRace _ start count _) = range_fits start count"
| "system_covered (CallInternalMath _ _ start count) = range_fits start count"
| "system_covered _ = True"

fun covered :: "Instruction \<Rightarrow> bool" where
  "covered (Typed _ _ _ _ _) = False"
| "covered (Control (TailCall _ _ _)) = False"
| "covered (Control (CallMethod _ _ _ _ _ _ _)) = False"
| "covered (System i) = system_covered i"
| "covered _ = True"

lemma check_reg_bound: "r < max_regs f \<Longrightarrow> unat r < frame_registers f"
  using max_regs_le_frame [of f] by (simp add: word_less_nat_alt)

lemma check_range_registers:
  "check_range f i start count = [] \<Longrightarrow> r \<in> set (arg_registers start count) \<Longrightarrow> unat r < frame_registers f"
  using check_range_window by (fastforce simp: arg_registers_def)

lemma check_last_registers:
  assumes "check_last f i start count = []" "range_fits start count" "r \<in> set (arg_registers start count)"
  shows "unat r < frame_registers f"
proof -
  from assms(3) obtain k where r: "r = start + of_nat k" and k: "k < unat count" by (auto simp: arg_registers_def)
  have fits: "unat (start + of_nat j) = unat start + j" if "j < unat count" for j
    using that assms(2) by (simp add: range_fits_def unat_word_ariths unat_of_nat)
  from k have pos: "count > 0" by (simp add: word_gt_0_no word_less_nat_alt)
  have "start + ucast count - 1 = start + of_nat (unat count - 1)"
    using k by (simp add: of_nat_diff)
  with assms(1) pos have "start + of_nat (unat count - 1) < max_regs f" by (simp add: check_last_def)
  then have "unat start + (unat count - 1) < unat (max_regs f)"
    using fits [of "unat count - 1"] k by (simp add: word_less_nat_alt)
  then show ?thesis
    using k r fits max_regs_le_frame [of f] by simp
qed

lemma checked_registers:
  assumes "check_instruction m f i instr = []" "covered instr" "r \<in> set (accessed_registers instr)"
  shows "unat r < frame_registers f"
proof (cases instr)
  case (Control c)
  with assms show ?thesis
    by (cases c) (auto simp: check_reg_bound check_range_registers)
next
  case (Objects c)
  with assms show ?thesis
    by (cases c) (auto simp: check_reg_bound check_range_registers)
next
  case (System c)
  with assms show ?thesis
    by (cases c) (auto simp: check_reg_bound check_last_registers)
qed (use assms in \<open>auto simp: check_reg_bound\<close>)

lemma sint_of_nat_le: "sint (of_nat n :: 'a::len word) \<le> int n"
proof -
  have "- (2 ^ (LENGTH('a) - Suc 0)) \<le> (0 :: int)" by simp
  also have "\<dots> \<le> int n" by simp
  finally show ?thesis by (simp add: signed_of_nat signed_take_bit_int_less_eq_self_iff)
qed

lemma ucast_of_nat_down: "ucast (of_nat n :: u64) = (of_nat n :: u32)"
  by (simp add: unsigned_of_nat word_of_nat_eq_iff)

lemma unat_scast_nonneg: "0 \<le> sint x \<Longrightarrow> unat (scast (x :: u32) :: u64) = nat (sint x)"
proof -
  assume nonneg: "0 \<le> sint x"
  have "sint x < 2 ^ 31" using sint_lt [of x] by simp
  then have take: "take_bit 64 (sint x) = sint x" using nonneg by (simp add: take_bit_int_eq_self)
  have "uint (scast x :: u64) = take_bit 64 (sint x)" by (simp only: scast_eq unsigned_of_int) simp
  with take have "uint (scast x :: u64) = sint x" by (rule trans [rotated])
  then show ?thesis by (simp add: unat_eq_nat_uint)
qed

lemma checked_jump:
  assumes "check_jump f i offset = []"
  shows "unat (jump_target (of_nat (i + 1)) offset) < length (bf_instructions f)"
proof -
  let ?target = "of_nat i + 1 + offset :: u32"
  have "(ucast (of_nat (i + 1) :: u64) :: u32) = of_nat (i + 1)" by (rule ucast_of_nat_down)
  then have "jump_target (of_nat (i + 1)) offset = scast ?target"
    by (simp add: jump_target_def add.commute)
  moreover from assms have nonneg: "0 \<le> sint ?target" and "sint ?target < sint (of_nat (length (bf_instructions f)) :: u32)"
    by (auto simp: check_jump_def Let_def not_le not_less split: if_splits)
  then have "sint ?target < int (length (bf_instructions f))"
    using sint_of_nat_le [where 'a = 32, of "length (bf_instructions f)"] by linarith
  ultimately show ?thesis using unat_scast_nonneg [OF nonneg] nonneg by (simp add: nat_less_iff)
qed

lemma checked_jumps:
  "check_instruction m f i instr = [] \<Longrightarrow> offset \<in> set (jump_offsets instr) \<Longrightarrow>
   unat (jump_target (of_nat (i + 1)) offset) < length (bf_instructions f)"
  by (cases instr) (auto dest: checked_jump)

text \<open>
  C12 (accepted code stays in its window and in its code).  In a module that the validator accepts, every register that a covered
  instruction reads or writes exists in the window the machine gives the function, so that the unchecked accesses of the
  interpreter stay inside the register vector; and every jump, taken from the counter behind the instruction, lands on an
  instruction of the function.  Both hold although the validator counts registers in 16 bits and targets in 32 bits, where sums
  wrap.
\<close>

theorem validated_code_in_bounds:
  assumes "validate_bytecode_module m = Inr u" and "k < length (bm_functions m)" and f: "f = bm_functions m ! k"
    and "pc < length (bf_instructions f)" and instr: "instr = bf_instructions f ! pc"
    and window: "th_register_base t + frame_registers f \<le> length (th_registers t)"
  shows "(covered instr \<and> r \<in> set (accessed_registers instr) \<longrightarrow>
      (\<exists>v. read_reg t r = Some v) \<and> (\<exists>t'. write_reg env t r val = Some t')) \<and>
    (offset \<in> set (jump_offsets instr) \<longrightarrow>
      unat (jump_target (of_nat (pc + 1)) offset) < length (bf_instructions f))"
proof -
  have ok: "check_instruction m f pc instr = []"
    using validated_instruction assms by blast
  have "th_register_base t + unat r < length (th_registers t)" if "covered instr" "r \<in> set (accessed_registers instr)"
    using checked_registers [OF ok that] window by linarith
  then show ?thesis
    using checked_jumps [OF ok] by (auto simp: read_reg_def write_reg_def list_get_def Let_def)
qed

definition looping_function :: BytecodeFunction where
  "looping_function = sample_function [108] [LoadNull 0, JumpNull 0 (-2), Control (Ret 0)]"

definition looping_module :: BytecodeModule where
  "looping_module = lib_module\<lparr>bm_functions := [looping_function]\<rparr>"

theorem validated_code_in_bounds_witness:
  "(\<exists>v. read_reg loop_thread 0 = Some v) \<and> (\<exists>t'. write_reg plain_env loop_thread 0 Null = Some t') \<and>
   unat (jump_target 2 (-2)) < 3"
proof -
  have ok: "validate_bytecode_module looping_module = Inr ()" by code_simp
  have "bm_functions looping_module ! 0 = looping_function" "length (bm_functions looping_module) = 1"
    "length (bf_instructions looping_function) = 3" "bf_instructions looping_function ! 1 = JumpNull 0 (-2)"
    "frame_registers looping_function = 1"
    by (simp_all add: looping_module_def looping_function_def sample_function_def frame_registers_def)
  then show ?thesis
    using validated_code_in_bounds [OF ok, of 0 looping_function 1 "JumpNull 0 (-2)" loop_thread 0 plain_env Null "-2"]
    by (simp add: loop_thread_def sample_thread_def new_thread_def)
qed

end
