(* ===== verification/Vm_Budget.thy ===== *)
theory Vm_Budget
  imports Vm_Validated
begin

text \<open>
  The instruction budget of \<open>execute_with_budget\<close>: a run that ends with its budget has executed exactly that many instructions
  that count, and cutting a run into several changes nothing but the program counter that an error leaves in its frame.
\<close>

section \<open>Runs of the interpreter loop\<close>

text \<open>Sequences of passes of the loop that go on, with the number of instructions that count against the budget.\<close>

inductive runs :: "HostEnv \<Rightarrow> FloatEnv \<Rightarrow> VirtualMachine \<Rightarrow> VmThreadState \<Rightarrow> nat \<Rightarrow> VmThreadState \<Rightarrow> bool"
  for env :: HostEnv and fenv :: FloatEnv and vm :: VirtualMachine
where
  stay: "runs env fenv vm t 0 t"
| pass: "loop_pass env fenv vm saved t = (Some instr, Ok Continue, t1) \<Longrightarrow> runs env fenv vm t1 n t' \<Longrightarrow>
     runs env fenv vm t ((if consumes_budget instr then 1 else 0) + n) t'"

lemma budget_loop_0 [simp]: "budget_loop env fenv vm 0 saved t = (Ok Continue, t)"
  by (simp add: budget_loop.simps)

lemma loop_pass_failed: "loop_pass env fenv vm saved t = (None, res, t') \<Longrightarrow> res = Panic \<and> t' = t"
  by (auto simp: loop_pass_def split: sum.splits option.splits)

lemma budget_loop_failed:
  "b \<noteq> 0 \<Longrightarrow> loop_pass env fenv vm saved t = (None, res, t1) \<Longrightarrow> budget_loop env fenv vm b saved t = (Panic, t)"
  using loop_pass_failed [of env fenv vm saved t res t1] by (simp add: budget_loop.simps [of _ _ _ b])

lemma budget_loop_pass:
  "b \<noteq> 0 \<Longrightarrow> loop_pass env fenv vm saved t = (Some instr, res, t1) \<Longrightarrow>
   budget_loop env fenv vm b saved t =
     (if res = Ok Continue
      then budget_loop env fenv vm (if consumes_budget instr then b - 1 else b) (saved_after saved t instr t1) t1
      else (res, t1))"
  by (simp add: budget_loop.simps [of _ _ _ b])

lemma budget_loop_runs: "budget_loop env fenv vm b saved t = (Ok Continue, t') \<Longrightarrow> runs env fenv vm t b t'"
proof (induction env fenv vm b saved t rule: budget_loop.induct)
  case (1 env fenv vm b saved t)
  show ?case
  proof (cases "b = 0")
    case True
    with "1.prems" show ?thesis by (auto intro: stay)
  next
    case False
    obtain oi res t1 where p: "loop_pass env fenv vm saved t = (oi, res, t1)" by (cases "loop_pass env fenv vm saved t")
    show ?thesis
    proof (cases oi)
      case None
      with p "1.prems" budget_loop_failed [OF False] show ?thesis by simp
    next
      case (Some instr)
      let ?b = "if consumes_budget instr then b - 1 else b"
      from p Some "1.prems" have res: "res = Ok Continue"
        and rest: "budget_loop env fenv vm ?b (saved_after saved t instr t1) t1 = (Ok Continue, t')"
        by (simp_all add: budget_loop_pass [OF False] split: if_splits)
      have "runs env fenv vm t1 ?b t'"
        using "1.IH" [OF False p [symmetric] Some refl res] rest by simp
      from pass [OF p [unfolded Some res] this] False show ?thesis by (simp split: if_splits)
    qed
  qed
qed

section \<open>The saved program counter\<close>

text \<open>
  Two results that differ at most in the counter of the last frame after an error.  The counter that the frame holds while the
  loop runs shows in nothing else.
\<close>

definition same_but_error_pc :: "step_result \<Rightarrow> step_result \<Rightarrow> bool" where
  "same_but_error_pc a b \<longleftrightarrow>
     fst a = fst b \<and> (snd a = snd b \<or> (\<exists>e pc. fst a = Err e \<and> snd b = set_pc (snd a) pc))"

lemma set_pc_set_pc [simp]: "set_pc (set_pc t pc) pc' = set_pc t pc'"
  by (simp add: set_pc_def)

lemma unsynced_saved: "same_but_error_pc (unsynced s r) (unsynced s' r)"
proof (cases r)
  case (Pair res t)
  then show ?thesis
    by (cases res) (auto simp: unsynced_def same_but_error_pc_def intro!: exI [where x = s'])
qed

lemma same_but_error_pc_refl [simp]: "same_but_error_pc a a"
  by (simp add: same_but_error_pc_def)

lemma hot_dispatch_saved:
  "same_but_error_pc (hot_dispatch env fenv vm m img s t instr) (hot_dispatch env fenv vm m img s' t instr)"
  by (cases instr) (auto simp: unsynced_saved split: option.splits)

lemma loop_pass_saved:
  "fst (loop_pass env fenv vm s t) = fst (loop_pass env fenv vm s' t) \<and>
   same_but_error_pc (snd (loop_pass env fenv vm s t)) (snd (loop_pass env fenv vm s' t))"
  by (auto simp: loop_pass_def hot_dispatch_saved split: sum.splits option.splits)

lemma budget_loop_saved: "same_but_error_pc (budget_loop env fenv vm b s t) (budget_loop env fenv vm b s' t)"
proof (induction env fenv vm b s t arbitrary: s' rule: budget_loop.induct)
  case (1 env fenv vm b s t)
  show ?case
  proof (cases "b = 0")
    case False
    obtain oi res t1 where p: "loop_pass env fenv vm s t = (oi, res, t1)" by (cases "loop_pass env fenv vm s t")
    from loop_pass_saved [of env fenv vm s t s'] p obtain t1' where p': "loop_pass env fenv vm s' t = (oi, res, t1')"
      and same: "same_but_error_pc (res, t1) (res, t1')"
      by (cases "loop_pass env fenv vm s' t") (auto simp: same_but_error_pc_def)
    show ?thesis
    proof (cases oi)
      case None
      with p p' show ?thesis using budget_loop_failed [OF False] by simp
    next
      case (Some instr)
      show ?thesis
      proof (cases "res = Ok Continue")
        case True
        with same have "t1' = t1" by (simp add: same_but_error_pc_def)
        with "1.IH" [OF False p [symmetric] Some refl True] p p' Some True show ?thesis
          by (simp add: budget_loop_pass [OF False])
      next
        case no: False
        with p p' Some same show ?thesis by (simp add: budget_loop_pass [OF False])
      qed
    qed
  qed simp
qed

lemma budget_loop_add:
  assumes "budget_loop env fenv vm a s t = (Ok Continue, t1)"
  shows "\<exists>s1. budget_loop env fenv vm (a + b) s t = budget_loop env fenv vm b s1 t1"
  using assms
proof (induction env fenv vm a s t rule: budget_loop.induct)
  case (1 env fenv vm a s t)
  show ?case
  proof (cases "a = 0")
    case True
    with "1.prems" show ?thesis by auto
  next
    case False
    then have ab: "a + b \<noteq> 0" by simp
    obtain oi res t2 where p: "loop_pass env fenv vm s t = (oi, res, t2)" by (cases "loop_pass env fenv vm s t")
    show ?thesis
    proof (cases oi)
      case None
      with p "1.prems" budget_loop_failed [OF False] show ?thesis by simp
    next
      case (Some instr)
      let ?a = "if consumes_budget instr then a - 1 else a"
      from p Some "1.prems" have res: "res = Ok Continue"
        and rest: "budget_loop env fenv vm ?a (saved_after s t instr t2) t2 = (Ok Continue, t1)"
        by (simp_all add: budget_loop_pass [OF False] split: if_splits)
      have "(if consumes_budget instr then a + b - 1 else a + b) = ?a + b" using False by simp
      with "1.IH" [OF False p [symmetric] Some refl res] rest p Some res show ?thesis
        by (simp add: budget_loop_pass [OF ab])
    qed
  qed
qed

section \<open>Entering the loop again\<close>

lemma execute_with_budget_Continue:
  assumes "execute_with_budget env fenv vm t a = (Ok Continue, t1)"
  shows "hp_pending_drops (th_heap t) = []" "th_call_stack t \<noteq> []" "\<not> isl (current_image vm t)"
    "budget_loop env fenv vm (unat a) (fr_pc (last (th_call_stack t))) t = (Ok Continue, t1)"
  using assms
  by (auto simp: execute_with_budget_def pop_pending_drop_def current_image_def current_frame_def split: option.splits sum.splits if_splits prod.splits)

lemma execute_with_budget_enter:
  assumes "hp_pending_drops (th_heap t) = []" "th_call_stack t \<noteq> []" "b > 0"
  shows "execute_with_budget env fenv vm t b = budget_loop env fenv vm (unat b) (fr_pc (last (th_call_stack t))) t"
proof -
  have "unat b \<noteq> 0" using assms(3) by (simp add: word_gt_0_no unat_eq_zero)
  with assms(1,2) show ?thesis
    by (auto simp: execute_with_budget_def pop_pending_drop_def current_frame_def budget_loop.simps [of _ _ _ "unat b"]
        loop_pass_def split: sum.splits)
qed

text \<open>
  C17 (preemption is exact and transparent).  A run that ends because its budget is used up has executed exactly as many
  counting instructions as the budget allows.  When it leaves a frame and no freed adapter handle waits to be reported, giving
  the thread a second budget continues as one run with both budgets would have: with the same outcome and, unless that is an
  error, the same thread state.  After an error the two states differ at most in the program counter of the last frame, which
  \<open>BinaryImmediate\<close> and the typed divisions do not write back before they fail.
\<close>

theorem preemption_transparent:
  assumes "execute_with_budget env fenv vm t a = (Ok Continue, t1)"
  shows "runs env fenv vm t (unat a) t1 \<and>
    (hp_pending_drops (th_heap t1) = [] \<and> th_call_stack t1 \<noteq> [] \<and> b > 0 \<and> unat a + unat b < 2 ^ 64 \<longrightarrow>
     same_but_error_pc (execute_with_budget env fenv vm t (a + b)) (execute_with_budget env fenv vm t1 b))"
proof -
  note run = execute_with_budget_Continue [OF assms]
  have "same_but_error_pc (execute_with_budget env fenv vm t (a + b)) (execute_with_budget env fenv vm t1 b)"
    if "hp_pending_drops (th_heap t1) = []" "th_call_stack t1 \<noteq> []" "b > 0" "unat a + unat b < 2 ^ 64"
  proof -
    have sum: "unat (a + b) = unat a + unat b" using that(4) by (simp add: unat_word_ariths)
    have "a + b > 0" using sum that(3) by (simp add: word_less_nat_alt)
    then have "execute_with_budget env fenv vm t (a + b) =
        budget_loop env fenv vm (unat a + unat b) (fr_pc (last (th_call_stack t))) t"
      using execute_with_budget_enter [OF run(1,2)] sum by simp
    then show ?thesis
      using budget_loop_add [OF run(4), of "unat b"] execute_with_budget_enter [OF that(1-3)] budget_loop_saved by metis
  qed
  then show ?thesis using budget_loop_runs [OF run(4)] by blast
qed

definition looping_vm :: VirtualMachine where
  "looping_vm = empty_vm\<lparr>vm_fast_modules := [(1, looping_module)]\<rparr>"

definition looping_thread :: VmThreadState where
  "looping_thread = loop_thread\<lparr>th_call_stack := [\<lparr>fr_module_id = 1, fr_func_idx = 0, fr_pc = 0, fr_register_base = 0,
     fr_return_dest = None, fr_cached_instructions = bf_instructions looping_function, fr_has_objects = False\<rparr>]\<rparr>"


definition looped_thread :: VmThreadState where
  "looped_thread = looping_thread\<lparr>th_registers := [Null, Int32 7, Null]\<rparr>"

lemmas looping_defs = looping_thread_def looping_vm_def empty_vm_def loop_thread_def sample_thread_def new_thread_def
  looping_function_def sample_function_def

lemma looping_round: "execute_with_budget plain_env sample_fenv looping_vm looping_thread 1 = (Ok Continue, looped_thread)"
  by (simp add: execute_with_budget_def pop_pending_drop_def current_frame_def get_module_def looped_thread_def
      budget_loop.simps loop_pass_def fetch_def list_get_def write_prim_reg_def set_pc_def read_reg_def jump_def jump_target_def
      new_heap_def looping_defs)

theorem preemption_transparent_witness:
  "runs plain_env sample_fenv looping_vm looping_thread 1 looped_thread \<and>
   same_but_error_pc (execute_with_budget plain_env sample_fenv looping_vm looping_thread 3)
     (execute_with_budget plain_env sample_fenv looping_vm looped_thread 2)"
  using preemption_transparent [OF looping_round, of 2]
  by (simp add: looped_thread_def new_heap_def looping_defs)

end
