(* ===== verification/Execution_Failure.thy ===== *)
theory Execution_Failure
  imports Vm_Value
begin

text \<open>
  Failures of an execution, \<open>ExecutionFailure\<close> of \<^verbatim>\<open>galfus-contract/src/lib.rs\<close>, with the methods that
  fill its optional fields.
\<close>

record ExecutionFrame =
  ef_module_id :: u64
  ef_function_id :: u64
  ef_instruction_offset :: u32

datatype ExecutionFailure = ExecutionFailure
  (failure_kind: ExecutionFailureKind)
  (failure_message: string)
  (failure_thread_id: "ThreadId option")
  (failure_future_id: "FutureId option")
  (failure_request_id: "RequestId option")
  (failure_module_id: "u64 option")
  (failure_function_id: "u64 option")
  (failure_stack: "ExecutionFrame list")
  (failure_cause: "ExecutionFailure option")

definition new_failure :: "ExecutionFailureKind \<Rightarrow> string \<Rightarrow> ExecutionFailure" where
  "new_failure kind message = ExecutionFailure kind message None None None None None [] None"

fun with_thread_id :: "ThreadId \<Rightarrow> ExecutionFailure \<Rightarrow> ExecutionFailure" where
  "with_thread_id t (ExecutionFailure k m _ f r mo fu s c) = ExecutionFailure k m (Some t) f r mo fu s c"

fun with_module_id :: "u64 \<Rightarrow> ExecutionFailure \<Rightarrow> ExecutionFailure" where
  "with_module_id mo (ExecutionFailure k m t f r _ fu s c) = ExecutionFailure k m t f r (Some mo) fu s c"

fun with_future_id :: "FutureId \<Rightarrow> ExecutionFailure \<Rightarrow> ExecutionFailure" where
  "with_future_id f (ExecutionFailure k m t _ r mo fu s c) = ExecutionFailure k m t (Some f) r mo fu s c"

fun with_request_id :: "RequestId \<Rightarrow> ExecutionFailure \<Rightarrow> ExecutionFailure" where
  "with_request_id r (ExecutionFailure k m t f _ mo fu s c) = ExecutionFailure k m t f (Some r) mo fu s c"

fun with_cause :: "ExecutionFailure \<Rightarrow> ExecutionFailure \<Rightarrow> ExecutionFailure" where
  "with_cause c (ExecutionFailure k m t f r mo fu s _) = ExecutionFailure k m t f r mo fu s (Some c)"

fun with_stack :: "ExecutionFrame list \<Rightarrow> ExecutionFailure \<Rightarrow> ExecutionFailure" where
  "with_stack s (ExecutionFailure k m t f r mo fu _ c) = ExecutionFailure k m t f r mo fu s c"

lemma failure_kind_new [simp]: "failure_kind (new_failure k m) = k"
  by (simp add: new_failure_def)

lemma failure_kind_with [simp]:
  "failure_kind (with_thread_id t e) = failure_kind e"
  "failure_kind (with_module_id mo e) = failure_kind e"
  "failure_kind (with_future_id f e) = failure_kind e"
  "failure_kind (with_request_id r e) = failure_kind e"
  "failure_kind (with_cause c e) = failure_kind e"
  "failure_kind (with_stack s e) = failure_kind e"
  by (cases e; simp)+

end
