(* ===== verification/Surface.thy ===== *)
theory Surface
  imports Vm_Value
begin

text \<open>
  Surface contracts, \<^verbatim>\<open>galfus-contract/src/surface.rs\<close>: the closed schemas with which a provider exchanges
  structured data, the check of a value against a schema, the fingerprint of a contract and the
  registry of contracts.

  Strings are lists of bytes.  SHA-256 is a parameter: the hash of the bytes that \<open>fingerprint\<close>
  feeds to the hasher.  The texts of a type mismatch, which the source renders with \<open>Debug\<close>, are
  kept as the data they render.
\<close>

section \<open>Schemas and values\<close>

datatype SurfaceDirection = ToProvider | FromProvider

datatype SurfaceSchema =
    SchemaNull | SchemaBool | SchemaU16 | SchemaI32 | SchemaI64 | SchemaU32 | SchemaU64 | SchemaF32 | SchemaF64 | SchemaBytes
  | SchemaOptional SurfaceSchema
  | SchemaList SurfaceSchema
  | SchemaTuple "SurfaceSchema list"
  | SchemaStruct string "(string \<times> SurfaceSchema) list"
  | SchemaChoice string "(string \<times> SurfaceSchema option) list"
  | SchemaHandle string

datatype SurfaceValue =
    SurfaceNull | SurfaceBool bool | SurfaceU16 u16 | SurfaceI32 u32 | SurfaceI64 u64 | SurfaceU32 u32 | SurfaceU64 u64
  | SurfaceF32 f32 | SurfaceF64 f64 | SurfaceBytes "u8 list"
  | SurfaceList "SurfaceValue list"
  | SurfaceTuple "SurfaceValue list"
  | SurfaceStruct "(string \<times> SurfaceValue) list"
  | SurfaceChoice string "SurfaceValue option"
  | SurfaceHandle OpaqueTypeId HandleId

datatype surface_text = Text string | CountText nat | SchemaText SurfaceSchema | ValueText SurfaceValue

datatype SurfaceCodecError =
    InvalidContract
  | DuplicateContract
  | UnknownContract string
  | VersionMismatch u32 u32
  | FingerprintMismatch
  | MissingField string
  | InvalidTag string
  | SurfaceTypeMismatch surface_text surface_text
  | InvalidHandle

section \<open>Checking a value\<close>

definition mismatch :: "SurfaceSchema \<Rightarrow> SurfaceValue \<Rightarrow> SurfaceCodecError + unit" where
  "mismatch s v = Inl (SurfaceTypeMismatch (SchemaText s) (ValueText v))"

type_synonym checker = "SurfaceValue \<Rightarrow> SurfaceCodecError + unit"

text \<open>
  The loops of \<open>validate_value\<close> over the values of a list, the zipped tuple and the fields of a struct,
  and the search for a variant, given the checks of the component schemas.
\<close>

fun check_items :: "checker \<Rightarrow> SurfaceValue list \<Rightarrow> SurfaceCodecError + unit" where
  "check_items c [] = Inr ()"
| "check_items c (v # vs) = (case c v of Inl e \<Rightarrow> Inl e | Inr _ \<Rightarrow> check_items c vs)"

fun check_tuple :: "checker list \<Rightarrow> SurfaceValue list \<Rightarrow> SurfaceCodecError + unit" where
  "check_tuple (c # cs) (v # vs) = (case c v of Inl e \<Rightarrow> Inl e | Inr _ \<Rightarrow> check_tuple cs vs)"
| "check_tuple _ _ = Inr ()"

fun check_fields :: "(string \<times> checker) list \<Rightarrow> (string \<times> SurfaceValue) list \<Rightarrow> SurfaceCodecError + unit" where
  "check_fields [] vs = Inr ()"
| "check_fields ((name, c) # cs) vs =
    (case map_of vs name of
       None \<Rightarrow> Inl (MissingField name)
     | Some v \<Rightarrow> (case c v of Inl e \<Rightarrow> Inl e | Inr _ \<Rightarrow> check_fields cs vs))"

definition check_choice :: "(string \<times> checker option) list \<Rightarrow> string \<Rightarrow> SurfaceValue option \<Rightarrow> SurfaceCodecError + unit" where
  "check_choice cs variant payload =
    (case map_of cs variant of
       None \<Rightarrow> Inl (InvalidTag variant)
     | Some expected \<Rightarrow>
         (case (expected, payload) of
            (None, None) \<Rightarrow> Inr ()
          | (Some c, Some v) \<Rightarrow> c v
          | _ \<Rightarrow> Inl (SurfaceTypeMismatch (Text (''choice payload for '' @ variant)) (Text ''incompatible payload''))))"

primrec validate_value :: "SurfaceSchema \<Rightarrow> checker" where
  "validate_value SchemaNull = (\<lambda>v. case v of SurfaceNull \<Rightarrow> Inr () | _ \<Rightarrow> mismatch SchemaNull v)"
| "validate_value SchemaBool = (\<lambda>v. case v of SurfaceBool _ \<Rightarrow> Inr () | _ \<Rightarrow> mismatch SchemaBool v)"
| "validate_value SchemaU16 = (\<lambda>v. case v of SurfaceU16 _ \<Rightarrow> Inr () | _ \<Rightarrow> mismatch SchemaU16 v)"
| "validate_value SchemaI32 = (\<lambda>v. case v of SurfaceI32 _ \<Rightarrow> Inr () | _ \<Rightarrow> mismatch SchemaI32 v)"
| "validate_value SchemaI64 = (\<lambda>v. case v of SurfaceI64 _ \<Rightarrow> Inr () | _ \<Rightarrow> mismatch SchemaI64 v)"
| "validate_value SchemaU32 = (\<lambda>v. case v of SurfaceU32 _ \<Rightarrow> Inr () | _ \<Rightarrow> mismatch SchemaU32 v)"
| "validate_value SchemaU64 = (\<lambda>v. case v of SurfaceU64 _ \<Rightarrow> Inr () | _ \<Rightarrow> mismatch SchemaU64 v)"
| "validate_value SchemaF32 = (\<lambda>v. case v of SurfaceF32 _ \<Rightarrow> Inr () | _ \<Rightarrow> mismatch SchemaF32 v)"
| "validate_value SchemaF64 = (\<lambda>v. case v of SurfaceF64 _ \<Rightarrow> Inr () | _ \<Rightarrow> mismatch SchemaF64 v)"
| "validate_value SchemaBytes = (\<lambda>v. case v of SurfaceBytes _ \<Rightarrow> Inr () | _ \<Rightarrow> mismatch SchemaBytes v)"
| "validate_value (SchemaOptional inner) = (\<lambda>v. case v of SurfaceNull \<Rightarrow> Inr () | _ \<Rightarrow> validate_value inner v)"
| "validate_value (SchemaList inner) =
    (\<lambda>v. case v of SurfaceList vs \<Rightarrow> check_items (validate_value inner) vs | _ \<Rightarrow> mismatch (SchemaList inner) v)"
| "validate_value (SchemaTuple ss) =
    (\<lambda>v. case v of
       SurfaceTuple vs \<Rightarrow> if length ss = length vs then check_tuple (map validate_value ss) vs else mismatch (SchemaTuple ss) v
     | _ \<Rightarrow> mismatch (SchemaTuple ss) v)"
| "validate_value (SchemaStruct n fs) =
    (\<lambda>v. case v of
       SurfaceStruct vs \<Rightarrow>
         if length fs \<noteq> length vs then Inl (SurfaceTypeMismatch (Text ''struct field count'') (CountText (length vs)))
         else check_fields (map (map_prod id validate_value) fs) vs
     | _ \<Rightarrow> mismatch (SchemaStruct n fs) v)"
| "validate_value (SchemaChoice n vars) =
    (\<lambda>v. case v of
       SurfaceChoice variant payload \<Rightarrow> check_choice (map (map_prod id (map_option validate_value)) vars) variant payload
     | _ \<Rightarrow> mismatch (SchemaChoice n vars) v)"
| "validate_value (SchemaHandle r) = (\<lambda>v. case v of SurfaceHandle _ _ \<Rightarrow> Inr () | _ \<Rightarrow> mismatch (SchemaHandle r) v)"

text \<open>What it means for a value to have the shape of a schema.\<close>

inductive conforms :: "SurfaceSchema \<Rightarrow> SurfaceValue \<Rightarrow> bool" where
  "conforms SchemaNull SurfaceNull"
| "conforms SchemaBool (SurfaceBool b)"
| "conforms SchemaU16 (SurfaceU16 a)"
| "conforms SchemaI32 (SurfaceI32 c)"
| "conforms SchemaI64 (SurfaceI64 d)"
| "conforms SchemaU32 (SurfaceU32 c)"
| "conforms SchemaU64 (SurfaceU64 d)"
| "conforms SchemaF32 (SurfaceF32 f)"
| "conforms SchemaF64 (SurfaceF64 g)"
| "conforms SchemaBytes (SurfaceBytes bs)"
| "conforms (SchemaOptional s) SurfaceNull"
| "conforms s v \<Longrightarrow> conforms (SchemaOptional s) v"
| "\<forall>v \<in> set vs. conforms s v \<Longrightarrow> conforms (SchemaList s) (SurfaceList vs)"
| "list_all2 conforms ss vs \<Longrightarrow> conforms (SchemaTuple ss) (SurfaceTuple vs)"
| "length fs = length vs \<Longrightarrow> \<forall>(name, s) \<in> set fs. \<exists>v. map_of vs name = Some v \<and> conforms s v \<Longrightarrow>
    conforms (SchemaStruct n fs) (SurfaceStruct vs)"
| "map_of vars variant = Some None \<Longrightarrow> conforms (SchemaChoice n vars) (SurfaceChoice variant None)"
| "map_of vars variant = Some (Some s) \<Longrightarrow> conforms s v \<Longrightarrow> conforms (SchemaChoice n vars) (SurfaceChoice variant (Some v))"
| "conforms (SchemaHandle r) (SurfaceHandle ty h)"

inductive_simps conforms_simps:
  "conforms SchemaNull v" "conforms SchemaBool v" "conforms SchemaU16 v" "conforms SchemaI32 v" "conforms SchemaI64 v"
  "conforms SchemaU32 v" "conforms SchemaU64 v" "conforms SchemaF32 v" "conforms SchemaF64 v" "conforms SchemaBytes v"
  "conforms (SchemaOptional s) v" "conforms (SchemaList s) v" "conforms (SchemaTuple ss) v"
  "conforms (SchemaStruct n fs) v" "conforms (SchemaChoice n vars) v" "conforms (SchemaHandle r) v"

lemma check_items_ok: "check_items c vs = Inr () \<longleftrightarrow> (\<forall>v \<in> set vs. c v = Inr ())"
  by (induction vs) (auto split: sum.splits)

lemma check_tuple_ok: "length cs = length vs \<Longrightarrow> check_tuple cs vs = Inr () \<longleftrightarrow> list_all2 (\<lambda>c v. c v = Inr ()) cs vs"
  by (induction cs vs rule: list_induct2) (auto split: sum.splits)

lemma check_fields_ok: "check_fields cs vs = Inr () \<longleftrightarrow> (\<forall>(name, c) \<in> set cs. \<exists>v. map_of vs name = Some v \<and> c v = Inr ())"
  by (induction cs vs rule: check_fields.induct) (auto split: sum.splits option.splits)

lemma map_of_payloads: "map_of (map (map_prod id f) vars) x = map_option f (map_of vars x)"
  by (induction vars) auto

lemma check_choice_ok:
  "check_choice (map (map_prod id (map_option f)) vars) variant p = Inr () \<longleftrightarrow>
   (case map_of vars variant of
      None \<Rightarrow> False | Some None \<Rightarrow> p = None | Some (Some s) \<Rightarrow> (\<exists>v. p = Some v \<and> f s v = Inr ()))"
  by (auto simp: check_choice_def map_of_payloads split: option.splits)

lemma validate_correct: "validate_value s v = Inr () \<longleftrightarrow> conforms s v"
proof (induction s arbitrary: v)
  case (SchemaOptional s)
  then show ?case by (auto simp: conforms_simps split: SurfaceValue.splits)
next
  case (SchemaList s)
  then show ?case by (auto simp: conforms_simps mismatch_def check_items_ok split: SurfaceValue.splits)
next
  case (SchemaTuple ss)
  then show ?case
    by (auto simp: conforms_simps mismatch_def check_tuple_ok list_all2_conv_all_nth split: SurfaceValue.splits)
next
  case (SchemaStruct n fs)
  have "validate_value s w = Inr () \<longleftrightarrow> conforms s w" if "(x, s) \<in> set fs" for x s w
    using SchemaStruct [OF that, of s] by simp
  then have "check_fields (map (map_prod id validate_value) fs) vs = Inr () \<longleftrightarrow>
      (\<forall>(name, s) \<in> set fs. \<exists>v. map_of vs name = Some v \<and> conforms s v)" for vs
    unfolding check_fields_ok by (fastforce simp: Ball_def split_beta)
  then show ?case by (auto simp: conforms_simps mismatch_def split: SurfaceValue.splits)
next
  case (SchemaChoice n vars)
  have "validate_value s w = Inr () \<longleftrightarrow> conforms s w" if "map_of vars x = Some (Some s)" for x s w
    using SchemaChoice [of "(x, Some s)" "Some s" s] map_of_SomeD [OF that] by simp
  then show ?case
    by (auto simp: conforms_simps mismatch_def check_choice_ok split: SurfaceValue.splits option.splits)
qed (auto simp: conforms_simps mismatch_def split: SurfaceValue.splits)

text \<open>
  C22 (a value is accepted exactly when it has the shape of the schema).  \<open>validate_value\<close> succeeds if and
  only if the value conforms to the schema: the same constructor at every level, \<open>Null\<close> anywhere
  a schema is optional, tuples of equal length, structs with as many fields as the schema in
  which every field of the schema is found by name, and choices with a known tag and a payload
  where the schema has one.
\<close>

theorem validate_value_conforms: "validate_value s v = Inr () \<longleftrightarrow> conforms s v"
  by (rule validate_correct)

section \<open>Fingerprints\<close>

text \<open>The bytes that \<open>write_fingerprint\<close> sends to the hasher.\<close>

definition as_bytes :: "string \<Rightarrow> u8 list" where
  "as_bytes s = map of_char s"

definition to_le_bytes :: "nat \<Rightarrow> nat \<Rightarrow> u8 list" where
  "to_le_bytes n x = map (\<lambda>i. of_nat (x div 256 ^ i mod 256)) [0..<n]"

primrec write_fingerprint :: "SurfaceSchema \<Rightarrow> u8 list" where
  "write_fingerprint SchemaNull = [0]"
| "write_fingerprint SchemaBool = [1]"
| "write_fingerprint SchemaU16 = [15]"
| "write_fingerprint SchemaI32 = [2]"
| "write_fingerprint SchemaI64 = [3]"
| "write_fingerprint SchemaU32 = [4]"
| "write_fingerprint SchemaU64 = [5]"
| "write_fingerprint SchemaF32 = [6]"
| "write_fingerprint SchemaF64 = [7]"
| "write_fingerprint SchemaBytes = [8]"
| "write_fingerprint (SchemaOptional inner) = 9 # write_fingerprint inner"
| "write_fingerprint (SchemaList inner) = 10 # write_fingerprint inner"
| "write_fingerprint (SchemaTuple items) = 14 # to_le_bytes 8 (length items) @ concat (map write_fingerprint items)"
| "write_fingerprint (SchemaStruct name fs) =
    11 # as_bytes name @ to_le_bytes 8 (length fs) @
    concat (map (\<lambda>(field, b). as_bytes field @ b) (map (map_prod id write_fingerprint) fs))"
| "write_fingerprint (SchemaChoice name vars) =
    12 # as_bytes name @ to_le_bytes 8 (length vars) @
    concat (map (\<lambda>(variant, p). as_bytes variant @ (case p of None \<Rightarrow> [0] | Some b \<Rightarrow> 1 # b))
      (map (map_prod id (map_option write_fingerprint)) vars))"
| "write_fingerprint (SchemaHandle resource) = 13 # as_bytes resource"

fun direction_byte :: "SurfaceDirection \<Rightarrow> u8" where
  "direction_byte ToProvider = 0"
| "direction_byte FromProvider = 1"

definition fingerprint :: "(u8 list \<Rightarrow> u8 list) \<Rightarrow> SurfaceSchema \<Rightarrow> string \<Rightarrow> u32 \<Rightarrow> SurfaceDirection \<Rightarrow> u8 list" where
  "fingerprint sha256 schema contract_name version direction =
    sha256 (as_bytes contract_name @ to_le_bytes 4 (unat version) @ [direction_byte direction] @ write_fingerprint schema)"

section \<open>Contracts and their registry\<close>

record SurfaceContract =
  sc_name :: string
  sc_version :: u32
  sc_direction :: SurfaceDirection
  sc_schema :: SurfaceSchema
  sc_fingerprint :: "u8 list"

definition new_contract :: "(u8 list \<Rightarrow> u8 list) \<Rightarrow> string \<Rightarrow> u32 \<Rightarrow> SurfaceDirection \<Rightarrow> SurfaceSchema \<Rightarrow> SurfaceContract" where
  "new_contract sha256 name version direction schema =
    \<lparr>sc_name = name, sc_version = version, sc_direction = direction, sc_schema = schema,
     sc_fingerprint = fingerprint sha256 schema name version direction\<rparr>"

definition contract_validates :: "(u8 list \<Rightarrow> u8 list) \<Rightarrow> SurfaceContract \<Rightarrow> bool" where
  "contract_validates sha256 c \<longleftrightarrow>
     sc_fingerprint c = fingerprint sha256 (sc_schema c) (sc_name c) (sc_version c) (sc_direction c)"

record SurfaceFunctionContract =
  sf_provider_operation :: string
  sf_bridge_symbol :: string
  sf_parameters :: "SurfaceContract list"
  sf_result :: SurfaceContract

definition starts_with :: "string \<Rightarrow> string \<Rightarrow> bool" where
  "starts_with s prefix \<longleftrightarrow> take (length prefix) s = prefix"

definition function_validates :: "(u8 list \<Rightarrow> u8 list) \<Rightarrow> SurfaceFunctionContract \<Rightarrow> bool" where
  "function_validates sha256 f \<longleftrightarrow>
     starts_with (sf_bridge_symbol f) ''__provider_'' \<and> list_all (contract_validates sha256) (sf_parameters f) \<and>
     sc_direction (sf_result f) = FromProvider \<and> contract_validates sha256 (sf_result f)"

type_synonym SurfaceContractRegistry = "string \<times> string \<rightharpoonup> SurfaceFunctionContract"

text \<open>\<open>insert\<close> replaces the entry before its return value is looked at.\<close>

definition register_contract :: "(u8 list \<Rightarrow> u8 list) \<Rightarrow> string \<Rightarrow> SurfaceFunctionContract \<Rightarrow> SurfaceContractRegistry \<Rightarrow>
    (SurfaceCodecError + unit) \<times> SurfaceContractRegistry" where
  "register_contract sha256 module_path contract r =
    (if \<not> function_validates sha256 contract then (Inl InvalidContract, r)
     else
       let key = (module_path, sf_provider_operation contract); r' = r(key \<mapsto> contract) in
       if r key \<noteq> None then (Inl DuplicateContract, r') else (Inr (), r'))"

definition get_contract :: "SurfaceContractRegistry \<Rightarrow> string \<Rightarrow> string \<Rightarrow> SurfaceFunctionContract option" where
  "get_contract r module_path provider_operation = r (module_path, provider_operation)"

section \<open>What a fingerprint tells\<close>

text \<open>Schemas without names, and with tuples whose length fits the 64 bits it is written with.\<close>

primrec nameless :: "SurfaceSchema \<Rightarrow> bool" where
  "nameless SchemaNull = True" | "nameless SchemaBool = True" | "nameless SchemaU16 = True" | "nameless SchemaI32 = True"
| "nameless SchemaI64 = True" | "nameless SchemaU32 = True" | "nameless SchemaU64 = True" | "nameless SchemaF32 = True"
| "nameless SchemaF64 = True" | "nameless SchemaBytes = True"
| "nameless (SchemaOptional s) = nameless s"
| "nameless (SchemaList s) = nameless s"
| "nameless (SchemaTuple ss) = (length ss < 2 ^ 64 \<and> list_all (\<lambda>b. b) (map nameless ss))"
| "nameless (SchemaStruct n fs) = False"
| "nameless (SchemaChoice n vars) = False"
| "nameless (SchemaHandle r) = False"

lemma length_to_le_bytes [simp]: "length (to_le_bytes n x) = n"
  by (simp add: to_le_bytes_def)

lemma to_le_bytes_Suc: "to_le_bytes (Suc n) x = of_nat (x mod 256) # to_le_bytes n (x div 256)"
  by (simp add: to_le_bytes_def upt_conv_Cons map_Suc_upt [symmetric] div_mult2_eq del: upt_Suc)

lemma to_le_bytes_inj: "x < 256 ^ n \<Longrightarrow> y < 256 ^ n \<Longrightarrow> to_le_bytes n x = to_le_bytes n y \<Longrightarrow> x = y"
proof (induction n arbitrary: x y)
  case (Suc n)
  have "(of_nat (x mod 256) :: u8) = of_nat (y mod 256)" and rest: "to_le_bytes n (x div 256) = to_le_bytes n (y div 256)"
    using Suc.prems(3) by (simp_all add: to_le_bytes_Suc)
  then have "x mod 256 = y mod 256" by (simp add: word_of_nat_eq_iff take_bit_eq_mod)
  moreover have "x div 256 = y div 256"
    using Suc.prems(1,2) by (intro Suc.IH rest) (simp_all add: less_mult_imp_div_less mult.commute)
  ultimately show ?case by (metis div_mult_mod_eq)
qed simp

lemma concat_unique:
  assumes "\<And>s t xs ys. s \<in> set ss \<Longrightarrow> t \<in> set ts \<Longrightarrow> f s @ xs = f t @ ys \<Longrightarrow> s = t \<and> xs = ys"
    and "length ss = length ts" and "concat (map f ss) @ xs = concat (map f ts) @ ys"
  shows "ss = ts \<and> xs = ys"
  using assms(2,1,3)
proof (induction ss ts rule: list_induct2)
  case (Cons s ss t ts)
  from Cons.prems(2) have "f s @ (concat (map f ss) @ xs) = f t @ (concat (map f ts) @ ys)" by simp
  from Cons.prems(1) [OF _ _ this] have "s = t" "concat (map f ss) @ xs = concat (map f ts) @ ys" by auto
  with Cons.IH Cons.prems(1) show ?case by (metis list.set_intros(2))
qed simp

lemma nameless_unique:
  "nameless s \<Longrightarrow> nameless t \<Longrightarrow> write_fingerprint s @ xs = write_fingerprint t @ ys \<Longrightarrow> s = t \<and> xs = ys"
proof (induction s arbitrary: t xs ys)
  case (SchemaTuple ss)
  from SchemaTuple.prems obtain ts where t: "t = SchemaTuple ts" by (cases t) auto
  with SchemaTuple.prems(3)
  have eq: "to_le_bytes 8 (length ss) @ (concat (map write_fingerprint ss) @ xs) =
      to_le_bytes 8 (length ts) @ (concat (map write_fingerprint ts) @ ys)"
    by simp
  then have "to_le_bytes 8 (length ss) = to_le_bytes 8 (length ts)"
    and rest: "concat (map write_fingerprint ss) @ xs = concat (map write_fingerprint ts) @ ys"
    by (simp_all only: append_eq_append_conv length_to_le_bytes simp_thms)
  then have len: "length ss = length ts"
    using SchemaTuple.prems(1,2) t by (intro to_le_bytes_inj [of _ 8]) simp_all
  have "ss = ts \<and> xs = ys"
  proof (rule concat_unique [OF _ len rest])
    fix s u vs ws
    assume "s \<in> set ss" "u \<in> set ts" "write_fingerprint s @ vs = write_fingerprint u @ ws"
    then show "s = u \<and> vs = ws"
      using SchemaTuple.prems(1,2) t by (intro SchemaTuple.IH) (auto simp: list_all_iff)
  qed
  with t show ?case by simp
next
  case (SchemaOptional s)
  from SchemaOptional.prems obtain u where t: "t = SchemaOptional u" by (cases t) simp_all
  with SchemaOptional.prems SchemaOptional.IH [of u xs ys] show ?case by simp
next
  case (SchemaList s)
  from SchemaList.prems obtain u where t: "t = SchemaList u" by (cases t) simp_all
  with SchemaList.prems SchemaList.IH [of u xs ys] show ?case by simp
qed (case_tac t; simp)+

text \<open>
  Fingerprints of schemas without names are unambiguous.  No two schemas built without struct,
  choice and handle names write the same bytes, and none writes a prefix of what another writes:
  contracts that agree in name, version and direction and have the same fingerprint have the
  same schema, unless the hash itself collides.
\<close>

lemma nameless_fingerprint_unique:
  assumes "nameless s" and "nameless t" and "write_fingerprint s @ xs = write_fingerprint t @ ys"
  shows "s = t"
  using nameless_unique [OF assms] by simp

text \<open>Two structs whose field names and resource names are cut at different places.\<close>

definition cut_early :: SurfaceSchema where
  "cut_early = SchemaStruct ''s'' [(''a'', SchemaHandle ''b''), (''cd'', SchemaNull)]"

definition cut_late :: SurfaceSchema where
  "cut_late = SchemaStruct ''s'' [(''a'', SchemaHandle ''bc''), (''d'', SchemaNull)]"

text \<open>
  Names are hashed without their length.  There are two different schemas with the same
  fingerprint for every contract name, version and direction and every hash function, and a value
  that one of them accepts and the other rejects.
\<close>

lemma fingerprint_ambiguous:
  "\<exists>s t v. s \<noteq> t \<and> validate_value s v = Inr () \<and> validate_value t v \<noteq> Inr () \<and>
     (\<forall>sha256 name version direction. fingerprint sha256 s name version direction = fingerprint sha256 t name version direction)"
proof -
  define v where "v = SurfaceStruct [(''a'', SurfaceHandle undefined 0), (''cd'', SurfaceNull)]"
  have "cut_early \<noteq> cut_late" "validate_value cut_early v = Inr ()" "validate_value cut_late v \<noteq> Inr ()"
    by (simp_all add: cut_early_def cut_late_def v_def)
  moreover have "\<forall>sha256 name version direction.
      fingerprint sha256 cut_early name version direction = fingerprint sha256 cut_late name version direction"
    by (simp add: fingerprint_def cut_early_def cut_late_def as_bytes_def)
  ultimately show ?thesis by blast
qed

text \<open>
  Registering a contract.  A contract whose fingerprints do not match is refused and nothing changes.
  Otherwise the contract is stored under its module and operation, all other entries stay, and the
  answer is \<open>DuplicateContract\<close> if and only if there was an entry: then too the new contract has
  replaced the old one.
\<close>

lemma register_contract_result:
  "register_contract sha256 m c r =
    (if function_validates sha256 c
     then (if get_contract r m (sf_provider_operation c) = None then Inr () else Inl DuplicateContract,
           r((m, sf_provider_operation c) \<mapsto> c))
     else (Inl InvalidContract, r))"
  by (simp add: register_contract_def get_contract_def Let_def)

end
