(* ===== verification/Future_Registry.thy ===== *)
theory Future_Registry
  imports Execution_Failure Surface
begin

text \<open>
  Futures of an execution, \<^verbatim>\<open>galfus-runtime/src/orchestrator/future_registry.rs\<close>, with the completion data of
  \<^verbatim>\<open>galfus-runtime/src/event.rs\<close> and the continuations of \<^verbatim>\<open>galfus-runtime/src/orchestrator/pending.rs\<close>.

  A record goes from \<open>Created\<close> to \<open>Running\<close> to \<open>Resolved\<close>, or is removed when it is discarded; a removed
  future leaves a tombstone, of which the last 1024 are kept.  The flag \<open>active\<close> is shared with the
  callback of a provider or adapter and cleared when its result is no longer wanted; flags live in
  a store, by number, and the registry holds the number.
\<close>

section \<open>Data\<close>

type_synonym CoordinatorId = u32

datatype FutureValue =
    FvInt8 u8 | FvInt16 u16 | FvI32 u32 | FvI64 u64 | FvUint8 u8 | FvUint16 u16 | FvUint32 u32 | FvUint64 u64
  | FvF32 f32 | FvF64 f64 | FvBool bool | FvNull
  | FvFunction u32 u32
  | FvArray "FutureValue list"
  | FvTuple "FutureValue list"
  | FvStruct "FutureValue list"
  | FvChoice u16 "FutureValue option"
  | FvHandle BindingId OpaqueTypeId HandleId
  | FvSurface SurfaceContract SurfaceValue "BindingId option"
  | FvAggregate "FutureValue list"

type_synonym FutureResult = "ExecutionFailure + FutureValue"

datatype Activation =
    GalfusFunction ModuleId FuncIdx "VmValue list"
  | Internal string ModuleId "VmValue list"
  | Provider string string "SurfaceValue list" "RequestId option"
  | Adapter string string "SurfaceValue list" "RequestId option"

fun running_descriptor :: "Activation \<Rightarrow> Activation" where
  "running_descriptor (GalfusFunction m f _) = GalfusFunction m f []"
| "running_descriptor (Internal operation m _) = Internal operation m []"
| "running_descriptor (Provider alias name _ _) = Provider alias name [] None"
| "running_descriptor (Adapter proxy symbol _ _) = Adapter proxy symbol [] None"

datatype FutureState = FutureCreated Activation | FutureRunning Activation | FutureResolved FutureResult | FutureDiscarded

text \<open>A continuation of the VM; \<open>co_resumed\<close> is the number of its shared flag.\<close>

record Continuation =
  co_dest :: "Reg option"
  co_expected_result :: "(ModuleId \<times> TypeIdx) option"
  co_resumed :: nat
  co_origin_thread_id :: "ThreadId option"

datatype PendingOperation = PendingFuture | AggregateMember CoordinatorId usize

record PendingContinuation =
  pc_thread_id :: ThreadId
  pc_continuation :: Continuation
  pc_module_id :: ModuleId
  pc_return_type :: TypeIdx
  pc_stack :: "ExecutionFrame list"
  pc_operation :: PendingOperation
  pc_active :: nat

type_synonym Waiter = PendingContinuation

datatype Waiters = PublicWaiters "Waiter option" "Waiter list" | DirectWaiter "Waiter option"

fun waiters_is_empty :: "Waiters \<Rightarrow> bool" where
  "waiters_is_empty (PublicWaiters first rest) = (first = None)"
| "waiters_is_empty (DirectWaiter waiter) = (waiter = None)"

fun waiters_push :: "Waiter \<Rightarrow> Waiters \<Rightarrow> (ExecutionFailure + unit) \<times> Waiters" where
  "waiters_push w (PublicWaiters first rest) =
    (Inr (), if first = None then PublicWaiters (Some w) rest else PublicWaiters first (rest @ [w]))"
| "waiters_push w (DirectWaiter None) = (Inr (), DirectWaiter (Some w))"
| "waiters_push w (DirectWaiter (Some w')) =
    (Inl (new_failure InvalidContinuation ''direct-await future already has a waiter''), DirectWaiter (Some w'))"

fun waiters_take :: "Waiters \<Rightarrow> Waiter list \<times> Waiters" where
  "waiters_take (PublicWaiters first rest) = ((case first of None \<Rightarrow> [] | Some w \<Rightarrow> [w]) @ rest, PublicWaiters None [])"
| "waiters_take (DirectWaiter waiter) = ((case waiter of None \<Rightarrow> [] | Some w \<Rightarrow> [w]), DirectWaiter None)"

fun waiters_clear :: "Waiters \<Rightarrow> Waiters" where
  "waiters_clear (PublicWaiters first rest) = PublicWaiters None []"
| "waiters_clear (DirectWaiter waiter) = DirectWaiter None"

fun waiters_is_direct :: "Waiters \<Rightarrow> bool" where
  "waiters_is_direct (DirectWaiter _) = True"
| "waiters_is_direct (PublicWaiters _ _) = False"

datatype WaitDisposition = WaitRegistered | WaitResolved Waiter FutureResult | WaitDiscarded

datatype DiscardDisposition = DiscardCreated Activation | DiscardRunning Activation | DiscardRetained | DiscardTerminal

record FutureRecord =
  fu_payload_type :: "TypeIdx option"
  fu_payload_module_id :: "ModuleId option"
  fu_state :: FutureState
  fu_waiters :: Waiters
  fu_active :: "nat option"

type_synonym future_key = "ThreadId \<times> FutureId"

record FutureRegistry =
  fr_records :: "future_key \<rightharpoonup> FutureRecord"
  fr_tombstones :: "future_key list"
  fr_tombstone_index :: "future_key set"
  fr_flags :: "bool list"

section \<open>Operations\<close>

definition new_future_registry :: FutureRegistry where
  "new_future_registry = \<lparr>fr_records = Map.empty, fr_tombstones = [], fr_tombstone_index = {}, fr_flags = []\<rparr>"

definition future_error :: "ExecutionFailureKind \<Rightarrow> string \<Rightarrow> future_key \<Rightarrow> ExecutionFailure" where
  "future_error kind message key = with_future_id (snd key) (with_thread_id (fst key) (new_failure kind message))"

definition has_active_flag :: "Activation \<Rightarrow> bool" where
  "has_active_flag a \<longleftrightarrow> (case a of Provider _ _ _ _ \<Rightarrow> True | Adapter _ _ _ _ \<Rightarrow> True | _ \<Rightarrow> False)"

definition create_future :: "future_key \<Rightarrow> TypeIdx option \<Rightarrow> ModuleId option \<Rightarrow> Activation \<Rightarrow> FutureRegistry \<Rightarrow>
    (ExecutionFailure + unit) \<times> FutureRegistry" where
  "create_future key payload_type payload_module activation r =
    (if fr_records r key \<noteq> None then (Inl (future_error DuplicateCompletion ''duplicate future id for owner thread'' key), r)
     else
       (Inr (), r\<lparr>fr_flags := (if has_active_flag activation then fr_flags r @ [True] else fr_flags r),
                 fr_records := (fr_records r)(key \<mapsto>
                   \<lparr>fu_payload_type = payload_type, fu_payload_module_id = payload_module, fu_state = FutureCreated activation,
                    fu_waiters = PublicWaiters None [],
                    fu_active = (if has_active_flag activation then Some (length (fr_flags r)) else None)\<rparr>)\<rparr>))"

definition insert_direct_await :: "future_key \<Rightarrow> TypeIdx \<Rightarrow> ModuleId \<Rightarrow> Activation \<Rightarrow> FutureRegistry \<Rightarrow>
    (ExecutionFailure + unit) \<times> FutureRegistry" where
  "insert_direct_await key payload_type payload_module activation r =
    (if fr_records r key \<noteq> None then (Inl (future_error DuplicateCompletion ''duplicate future id for owner thread'' key), r)
     else
       (Inr (), r\<lparr>fr_records := (fr_records r)(key \<mapsto>
                   \<lparr>fu_payload_type = Some payload_type, fu_payload_module_id = Some payload_module,
                    fu_state = FutureCreated activation, fu_waiters = DirectWaiter None, fu_active = None\<rparr>)\<rparr>))"

definition set_record :: "future_key \<Rightarrow> FutureRecord \<Rightarrow> FutureRegistry \<Rightarrow> FutureRegistry" where
  "set_record key rec r = r\<lparr>fr_records := (fr_records r)(key \<mapsto> rec)\<rparr>"

definition take_activation_for_start :: "future_key \<Rightarrow> FutureRegistry \<Rightarrow> (ExecutionFailure + Activation option) \<times> FutureRegistry" where
  "take_activation_for_start key r =
    (case fr_records r key of
       None \<Rightarrow> (Inl (future_error InvalidContinuation ''unknown future'' key), r)
     | Some rec \<Rightarrow>
         (case fu_state rec of
            FutureCreated a \<Rightarrow> (Inr (Some a), set_record key (rec\<lparr>fu_state := FutureRunning (running_descriptor a)\<rparr>) r)
          | _ \<Rightarrow> (Inr None, r)))"

definition take_inline_galfus_activation :: "future_key \<Rightarrow> FutureRegistry \<Rightarrow> (ExecutionFailure + Activation option) \<times> FutureRegistry" where
  "take_inline_galfus_activation key r =
    (case fr_records r key of
       None \<Rightarrow> (Inl (future_error InvalidContinuation ''unknown future'' key), r)
     | Some rec \<Rightarrow>
         (case fu_state rec of
            FutureCreated (GalfusFunction m f args) \<Rightarrow>
              (Inr (Some (GalfusFunction m f args)),
               set_record key (rec\<lparr>fu_state := FutureRunning (running_descriptor (GalfusFunction m f args))\<rparr>) r)
          | _ \<Rightarrow> (Inr None, r)))"

definition adapter_proxy_module :: "future_key \<Rightarrow> FutureRegistry \<Rightarrow> string option" where
  "adapter_proxy_module key r =
    (case fr_records r key of
       Some rec \<Rightarrow> (case fu_state rec of FutureRunning (Adapter proxy _ _ _) \<Rightarrow> Some proxy | _ \<Rightarrow> None)
     | None \<Rightarrow> None)"

definition assign_request_id :: "future_key \<Rightarrow> RequestId \<Rightarrow> FutureRegistry \<Rightarrow> (ExecutionFailure + unit) \<times> FutureRegistry" where
  "assign_request_id key request r =
    (case fr_records r key of
       None \<Rightarrow> (Inl (future_error InvalidContinuation ''unknown future while assigning request id'' key), r)
     | Some rec \<Rightarrow>
         (case fu_state rec of
            FutureRunning (Provider alias name args _) \<Rightarrow>
              (Inr (), set_record key (rec\<lparr>fu_state := FutureRunning (Provider alias name args (Some request))\<rparr>) r)
          | FutureRunning (Adapter proxy symbol args _) \<Rightarrow>
              (Inr (), set_record key (rec\<lparr>fu_state := FutureRunning (Adapter proxy symbol args (Some request))\<rparr>) r)
          | FutureRunning _ \<Rightarrow>
              (Inl (future_error InvalidContinuation ''future activation does not dispatch an external request'' key), r)
          | _ \<Rightarrow>
              (Inl (future_error InvalidContinuation ''future request id was assigned before activation started'' key), r)))"

definition request_id :: "future_key \<Rightarrow> FutureRegistry \<Rightarrow> RequestId option" where
  "request_id key r =
    (case fr_records r key of
       Some rec \<Rightarrow>
         (case fu_state rec of
            FutureRunning (Provider _ _ _ req) \<Rightarrow> req
          | FutureRunning (Adapter _ _ _ req) \<Rightarrow> req
          | _ \<Rightarrow> None)
     | None \<Rightarrow> None)"

definition add_waiter :: "future_key \<Rightarrow> Waiter \<Rightarrow> FutureRegistry \<Rightarrow> (ExecutionFailure + WaitDisposition) \<times> FutureRegistry" where
  "add_waiter key waiter r =
    (case fr_records r key of
       None \<Rightarrow> (Inl (future_error InvalidContinuation ''unknown or foreign future'' key), r)
     | Some rec \<Rightarrow>
         (case fu_state rec of
            FutureResolved result \<Rightarrow> (Inr (WaitResolved waiter result), r)
          | FutureDiscarded \<Rightarrow> (Inr WaitDiscarded, r)
          | _ \<Rightarrow>
              (case waiters_push waiter (fu_waiters rec) of
                 (Inl e, ws) \<Rightarrow> (Inl e, set_record key (rec\<lparr>fu_waiters := ws\<rparr>) r)
               | (Inr _, ws) \<Rightarrow> (Inr WaitRegistered, set_record key (rec\<lparr>fu_waiters := ws\<rparr>) r))))"

definition record_tombstone :: "future_key \<Rightarrow> FutureRegistry \<Rightarrow> FutureRegistry" where
  "record_tombstone key r =
    (let r1 = (if length (fr_tombstones r) \<ge> 1024 then
                 (case fr_tombstones r of
                    [] \<Rightarrow> r
                  | t # ts \<Rightarrow> r\<lparr>fr_tombstones := ts, fr_tombstone_index := fr_tombstone_index r - {t}\<rparr>)
               else r) in
     r1\<lparr>fr_tombstones := fr_tombstones r1 @ [key], fr_tombstone_index := insert key (fr_tombstone_index r1)\<rparr>)"

definition clear_flag :: "nat option \<Rightarrow> FutureRegistry \<Rightarrow> FutureRegistry" where
  "clear_flag active r = (case active of None \<Rightarrow> r | Some n \<Rightarrow> r\<lparr>fr_flags := (fr_flags r)[n := False]\<rparr>)"

definition remove_record :: "future_key \<Rightarrow> FutureRegistry \<Rightarrow> FutureRegistry" where
  "remove_record key r = record_tombstone key (r\<lparr>fr_records := (fr_records r)(key := None)\<rparr>)"

definition discard_inner :: "future_key \<Rightarrow> bool \<Rightarrow> FutureRegistry \<Rightarrow> (ExecutionFailure + DiscardDisposition) \<times> FutureRegistry" where
  "discard_inner key force r =
    (case fr_records r key of
       None \<Rightarrow> (Inl (future_error InvalidContinuation ''unknown future'' key), r)
     | Some rec \<Rightarrow>
         if \<not> force \<and> \<not> waiters_is_empty (fu_waiters rec) then (Inr DiscardRetained, r)
         else
           (case fu_state rec of
              FutureCreated a \<Rightarrow> (Inr (DiscardCreated a), remove_record key (clear_flag (fu_active rec) r))
            | FutureRunning a \<Rightarrow> (Inr (DiscardRunning a), remove_record key (clear_flag (fu_active rec) r))
            | _ \<Rightarrow> (Inr DiscardTerminal, remove_record key r)))"

definition discard :: "future_key \<Rightarrow> FutureRegistry \<Rightarrow> (ExecutionFailure + DiscardDisposition) \<times> FutureRegistry" where
  "discard key = discard_inner key False"

definition discard_for_race :: "future_key \<Rightarrow> FutureRegistry \<Rightarrow> (ExecutionFailure + DiscardDisposition) \<times> FutureRegistry" where
  "discard_for_race key = discard_inner key True"

fun discard_keys :: "future_key list \<Rightarrow> FutureRegistry \<Rightarrow> (FutureId \<times> Activation option) list \<times> FutureRegistry" where
  "discard_keys [] r = ([], r)"
| "discard_keys (key # keys) r =
    (case fr_records r key of
       None \<Rightarrow> discard_keys keys r
     | Some rec \<Rightarrow>
         let r1 = clear_flag (fu_active rec) (r\<lparr>fr_records := (fr_records r)(key := None)\<rparr>);
             activation = (case fu_state rec of FutureRunning a \<Rightarrow> Some a | _ \<Rightarrow> None);
             (out, r2) = discard_keys keys (record_tombstone key r1) in
         ((snd key, activation) # out, r2))"

definition owned_futures :: "ThreadId \<Rightarrow> FutureRegistry \<Rightarrow> FutureId list" where
  "owned_futures owner r = sorted_list_of_set {f. fr_records r (owner, f) \<noteq> None}"

definition discard_all_for_owner :: "ThreadId \<Rightarrow> FutureRegistry \<Rightarrow> (FutureId \<times> Activation option) list \<times> FutureRegistry" where
  "discard_all_for_owner owner r = discard_keys (map (Pair owner) (owned_futures owner r)) r"

fun discard_owners :: "ThreadId list \<Rightarrow> FutureRegistry \<Rightarrow> (ThreadId \<times> FutureId \<times> Activation option) list \<times> FutureRegistry" where
  "discard_owners [] r = ([], r)"
| "discard_owners (owner # owners) r =
    (let (out, r1) = discard_all_for_owner owner r; (rest, r2) = discard_owners owners r1 in
     (map (\<lambda>(f, a). (owner, f, a)) out @ rest, r2))"

definition discard_all :: "FutureRegistry \<Rightarrow> (ThreadId \<times> FutureId \<times> Activation option) list \<times> FutureRegistry" where
  "discard_all r = discard_owners (sorted_list_of_set (fst ` dom (fr_records r))) r"

definition complete :: "future_key \<Rightarrow> FutureResult \<Rightarrow> FutureRegistry \<Rightarrow> (ExecutionFailure + Waiter list) \<times> FutureRegistry" where
  "complete key result r =
    (case fr_records r key of
       None \<Rightarrow>
         if key \<in> fr_tombstone_index r
         then (Inl (future_error DuplicateCompletion ''future completed after being discarded'' key), r)
         else (Inl (future_error InvalidContinuation ''unknown future completion'' key), r)
     | Some rec \<Rightarrow>
         (case fu_state rec of
            FutureResolved _ \<Rightarrow>
              (Inl (future_error DuplicateCompletion ''future completed after reaching a terminal state'' key), r)
          | FutureDiscarded \<Rightarrow>
              (Inl (future_error DuplicateCompletion ''future completed after reaching a terminal state'' key), r)
          | _ \<Rightarrow>
              (case waiters_take (fu_waiters rec) of
                 (ws, none_left) \<Rightarrow>
                   (Inr ws, set_record key (rec\<lparr>fu_state := FutureResolved result, fu_waiters := none_left\<rparr>) r))))"

definition is_direct_await :: "future_key \<Rightarrow> FutureRegistry \<Rightarrow> bool" where
  "is_direct_await key r = (case fr_records r key of None \<Rightarrow> False | Some rec \<Rightarrow> waiters_is_direct (fu_waiters rec))"

definition payload_schema :: "future_key \<Rightarrow> FutureRegistry \<Rightarrow> (ModuleId \<times> TypeIdx) option" where
  "payload_schema key r =
    (case fr_records r key of
       None \<Rightarrow> None
     | Some rec \<Rightarrow>
         (case (fu_payload_module_id rec, fu_payload_type rec) of (Some m, Some t) \<Rightarrow> Some (m, t) | _ \<Rightarrow> None))"

definition active_flag :: "future_key \<Rightarrow> FutureRegistry \<Rightarrow> nat option" where
  "active_flag key r = (case fr_records r key of None \<Rightarrow> None | Some rec \<Rightarrow> fu_active rec)"

end
