(* ===== verification/Vm_Resume.thy ===== *)
theory Vm_Resume
  imports Vm_Step_Props Future_Registry
begin

text \<open>
  Continuations of suspended threads and \<open>VirtualMachine::resume\<close> (\<^verbatim>\<open>galfus-vm/src/runtime.rs\<close>).

  The clones of a continuation share one flag, an atomic boolean behind a reference count.  A continuation holds the number of
  its flag (\<open>Future_Registry\<close>), and \<open>resume\<close> works on the store of flags; making a continuation takes the number of a fresh
  one.  The type test of the value may exhaust the native stack (\<open>Vm_Types\<close>); then, and when the destination lies outside the
  registers, the outcome is \<open>Panic\<close>.
\<close>

type_synonym flags = "nat \<Rightarrow> bool"

definition new_continuation :: "nat \<Rightarrow> Reg option \<Rightarrow> Continuation" where
  "new_continuation flag dest = \<lparr>co_dest = dest, co_expected_result = None, co_resumed = flag, co_origin_thread_id = None\<rparr>"

definition with_origin :: "Continuation \<Rightarrow> ThreadId \<Rightarrow> Continuation" where
  "with_origin c origin = c\<lparr>co_origin_thread_id := Some origin\<rparr>"

definition for_provider :: "nat \<Rightarrow> Reg \<Rightarrow> ModuleId \<Rightarrow> TypeIdx \<Rightarrow> Continuation" where
  "for_provider flag dest m return_type =
    \<lparr>co_dest = Some dest, co_expected_result = Some (m, return_type), co_resumed = flag, co_origin_thread_id = None\<rparr>"

definition for_future_handle :: "nat \<Rightarrow> Reg \<Rightarrow> Continuation" where
  "for_future_handle flag dest = new_continuation flag (Some dest)"

definition wrong_thread :: ExecutionFailure where
  "wrong_thread = new_failure InvalidContinuation ''continuation resumed by wrong thread''"

definition already_resumed :: ExecutionFailure where
  "already_resumed = new_failure DuplicateCompletion ''continuation was already resumed''"

definition wrong_result_type :: ExecutionFailure where
  "wrong_result_type = new_failure InvalidContinuation ''continuation result does not match its declared type''"

definition resume ::
  "HostEnv \<Rightarrow> VirtualMachine \<Rightarrow> ThreadId \<Rightarrow> VmThreadState \<Rightarrow> flags \<Rightarrow> Continuation \<Rightarrow> VmValue \<Rightarrow>
   (ExecutionFailure, unit) outcome \<times> VmThreadState \<times> flags" where
  "resume env vm tid t flags c value =
    (if co_origin_thread_id c \<noteq> Some tid then (Err wrong_thread, t, flags)
     else if flags (co_resumed c) then (Err already_resumed, t, flags)
     else
       let flags = flags(co_resumed c := True) in
       case (case co_expected_result c of
               None \<Rightarrow> Some True
             | Some (m, expected_type) \<Rightarrow> value_matches_type (native_stack env) vm t value m expected_type) of
         None \<Rightarrow> (Panic, t, flags)
       | Some False \<Rightarrow> (Err wrong_result_type, t, flags)
       | Some True \<Rightarrow>
           (case co_dest c of
              None \<Rightarrow> (Ok (), t, flags)
            | Some dest \<Rightarrow>
                (case write_reg env t dest value of
                   None \<Rightarrow> (Panic, t, flags)
                 | Some t' \<Rightarrow> (Ok (), t', flags))))"

text \<open>Deliveries to one thread state: the calling thread, the clone it holds and the value.\<close>

type_synonym delivery = "ThreadId \<times> Continuation \<times> VmValue"

primrec resume_all ::
  "HostEnv \<Rightarrow> VirtualMachine \<Rightarrow> delivery list \<Rightarrow> VmThreadState \<Rightarrow> flags \<Rightarrow>
   (ExecutionFailure, unit) outcome list \<times> VmThreadState \<times> flags" where
  "resume_all env vm [] t flags = ([], t, flags)"
| "resume_all env vm (d # ds) t flags =
    (case resume env vm (fst d) t flags (fst (snd d)) (snd (snd d)) of
       (res, t1, flags1) \<Rightarrow>
         (case resume_all env vm ds t1 flags1 of (rs, t2, flags2) \<Rightarrow> (res # rs, t2, flags2)))"

definition own :: "delivery \<Rightarrow> bool" where
  "own d = (co_origin_thread_id (fst (snd d)) = Some (fst d))"

definition refusal :: "delivery \<Rightarrow> (ExecutionFailure, unit) outcome" where
  "refusal d = Err (if own d then already_resumed else wrong_thread)"

lemma resume_refused:
  "\<not> own (tid, c, v) \<or> flags (co_resumed c) \<Longrightarrow> resume env vm tid t flags c v = (refusal (tid, c, v), t, flags)"
  by (auto simp: resume_def refusal_def own_def)

lemma resume_taken:
  assumes "own (tid, c, v)" "\<not> flags (co_resumed c)" "resume env vm tid t flags c v = (res, t', flags')"
  shows "flags' = flags(co_resumed c := True)"
    "res = Ok () \<Longrightarrow> co_expected_result c = Some (m, ty) \<Longrightarrow> value_matches_type (native_stack env) vm t v m ty = Some True"
    "res \<noteq> Ok () \<Longrightarrow> t' = t"
  using assms by (auto simp: resume_def own_def Let_def split: option.splits bool.splits)

lemma resume_all_refused:
  "\<forall>d \<in> set ds. \<not> own d \<or> flags (co_resumed (fst (snd d))) \<Longrightarrow> resume_all env vm ds t flags = (map refusal ds, t, flags)"
  by (induction ds) (auto simp: resume_refused)

lemma resume_all_append:
  "resume_all env vm (ds @ es) t flags =
    (case resume_all env vm ds t flags of (rs, t1, flags1) \<Rightarrow>
       (case resume_all env vm es t1 flags1 of (rs', t2, flags2) \<Rightarrow> (rs @ rs', t2, flags2)))"
  by (induction ds arbitrary: t flags) (simp_all split: prod.splits)

text \<open>
  C16 (a continuation is resumed at most once, by its own thread).  Whatever deliveries of clones of one continuation reach the
  machine, only the first that is made by the thread the clone belongs to has any effect: those before it are refused as
  deliveries by the wrong thread, those after it as duplicates (or again as deliveries by the wrong thread), and the registers
  end as that delivery alone leaves them.  When it succeeds and the continuation declares a result type, the value has that
  type; when it fails, nothing is stored, and the continuation is used up all the same.
\<close>

theorem resume_once:
  assumes "\<forall>d \<in> set before. \<not> own d" and "own (tid, c, v)" and "\<not> flags (co_resumed c)"
    and "\<forall>d \<in> set after. co_resumed (fst (snd d)) = co_resumed c"
    and "resume env vm tid t flags c v = (res, t', flags')"
  shows "resume_all env vm (before @ (tid, c, v) # after) t flags =
      (replicate (length before) (Err wrong_thread) @ res # map refusal after, t', flags(co_resumed c := True)) \<and>
    (res = Ok () \<and> co_expected_result c = Some (m, ty) \<longrightarrow> value_matches_type (native_stack env) vm t v m ty = Some True) \<and>
    (res \<noteq> Ok () \<longrightarrow> t' = t)"
proof -
  note taken = resume_taken [OF assms(2,3,5)]
  have "resume_all env vm before t flags = (map refusal before, t, flags)"
    using assms(1) by (intro resume_all_refused) blast
  moreover have "map refusal before = replicate (length before) (Err wrong_thread)"
    using assms(1) by (simp add: map_replicate_const [symmetric] refusal_def)
  moreover have "resume_all env vm after t' flags' = (map refusal after, t', flags')"
    using assms(4) by (intro resume_all_refused) (auto simp: taken(1))
  ultimately show ?thesis
    using assms(5) taken by (auto simp: resume_all_append)
qed

theorem resume_once_witness:
  "let c = with_origin (for_future_handle 4 2) 7 in
   resume_all plain_env empty_vm [(3, c, Int32 1), (7, c, Int32 5), (7, c, Int32 6)] loop_thread (\<lambda>_. False) =
    ([Err wrong_thread, Ok (), Err already_resumed], loop_thread\<lparr>th_registers := [Int32 6, Int32 7, Int32 5]\<rparr>, (\<lambda>_. False)(4 := True))"
proof -
  have "resume plain_env empty_vm 7 loop_thread (\<lambda>_. False) (with_origin (for_future_handle 4 2) 7) (Int32 5) =
      (Ok (), loop_thread\<lparr>th_registers := [Int32 6, Int32 7, Int32 5]\<rparr>, (\<lambda>_. False)(4 := True))"
    by (simp add: resume_def with_origin_def for_future_handle_def new_continuation_def write_reg_def loop_thread_def Let_def
        sample_thread_def new_thread_def)
  from resume_once [of "[(3, with_origin (for_future_handle 4 2) 7, Int32 1)]", OF _ _ _ _ this,
      where after = "[(7, with_origin (for_future_handle 4 2) 7, Int32 6)]"]
  show ?thesis by (simp add: with_origin_def own_def refusal_def for_future_handle_def new_continuation_def)
qed

end
