(* ===== verification/Runtime_Queue.thy ===== *)
theory Runtime_Queue
  imports Execution_Failure
begin

text \<open>
  The queue of runnable threads, \<open>RunnableQueue\<close> of \<^verbatim>\<open>galfus-runtime/src/queue.rs\<close>.

  Removing a thread only deletes it from the map \<open>queued\<close>; its entry stays in the deque and is
  skipped when it comes to the front, because its token is no longer the current one.  The
  locale \<open>scheduler_queue\<close> is the contract the kernel relies on: an abstract sequence of distinct
  threads.  Tokens are 64-bit and wrap, so the contract is parameterised with the number of
  enqueue operations that may still follow; every history of fewer than \<open>2^64\<close> of them is covered.
\<close>

section \<open>State and operations\<close>

type_synonym queue_entry = "ThreadId \<times> u64 \<times> bool"

record RunnableQueue =
  rq_queue :: "queue_entry list"
  rq_queued :: "ThreadId \<rightharpoonup> u64"
  rq_next_token :: u64

definition new_runnable :: RunnableQueue where
  "new_runnable = \<lparr>rq_queue = [], rq_queued = Map.empty, rq_next_token = 0\<rparr>"

definition enqueue :: "ThreadId \<Rightarrow> RunnableQueue \<Rightarrow> RunnableQueue" where
  "enqueue i q =
    (if rq_queued q i = None then
       let tok = rq_next_token q + 1 in
       q\<lparr>rq_next_token := tok, rq_queued := (rq_queued q)(i \<mapsto> tok), rq_queue := rq_queue q @ [(i, tok, False)]\<rparr>
     else q)"

definition enqueue_front :: "ThreadId \<Rightarrow> RunnableQueue \<Rightarrow> RunnableQueue" where
  "enqueue_front i q =
    (if rq_queued q i = None then
       let tok = rq_next_token q + 1 in
       q\<lparr>rq_next_token := tok, rq_queued := (rq_queued q)(i \<mapsto> tok), rq_queue := (i, tok, True) # rq_queue q\<rparr>
     else q)"

text \<open>The loop of \<open>dequeue_detailed\<close>: pop entries until one carries the current token of its thread.\<close>

fun pop_live :: "queue_entry list \<Rightarrow> (ThreadId \<rightharpoonup> u64) \<Rightarrow> (ThreadId \<times> bool) option \<times> queue_entry list \<times> (ThreadId \<rightharpoonup> u64)" where
  "pop_live [] m = (None, [], m)"
| "pop_live ((i, tok, front) # es) m =
    (if m i = Some tok then (Some (i, front), es, m(i := None)) else pop_live es m)"

definition dequeue_detailed :: "RunnableQueue \<Rightarrow> (ThreadId \<times> bool) option \<times> RunnableQueue" where
  "dequeue_detailed q =
    (case pop_live (rq_queue q) (rq_queued q) of (r, es, m) \<Rightarrow> (r, q\<lparr>rq_queue := es, rq_queued := m\<rparr>))"

definition dequeue :: "RunnableQueue \<Rightarrow> ThreadId option \<times> RunnableQueue" where
  "dequeue q = (case dequeue_detailed q of (r, q') \<Rightarrow> (map_option fst r, q'))"

definition runnable_is_empty :: "RunnableQueue \<Rightarrow> bool" where
  "runnable_is_empty q = (dom (rq_queued q) = {})"

definition runnable_len :: "RunnableQueue \<Rightarrow> nat" where
  "runnable_len q = card (dom (rq_queued q))"

definition runnable_contains :: "RunnableQueue \<Rightarrow> ThreadId \<Rightarrow> bool" where
  "runnable_contains q i = (rq_queued q i \<noteq> None)"

definition runnable_remove :: "ThreadId \<Rightarrow> RunnableQueue \<Rightarrow> bool \<times> RunnableQueue" where
  "runnable_remove i q = (rq_queued q i \<noteq> None, q\<lparr>rq_queued := (rq_queued q)(i := None)\<rparr>)"

section \<open>The contract of a scheduler queue\<close>

datatype queue_op = Enqueue ThreadId | EnqueueFront ThreadId | Dequeue | Remove ThreadId

datatype queue_out = Done | Got "(ThreadId \<times> bool) option" | Removed bool

definition adds_entry :: "queue_op \<Rightarrow> bool" where
  "adds_entry op \<longleftrightarrow> (case op of Enqueue _ \<Rightarrow> True | EnqueueFront _ \<Rightarrow> True | _ \<Rightarrow> False)"

lemma adds_entry_simps [simp]:
  "adds_entry (Enqueue i)" "adds_entry (EnqueueFront i)" "\<not> adds_entry Dequeue" "\<not> adds_entry (Remove i)"
  by (simp_all add: adds_entry_def)

text \<open>The specification: a sequence of threads, each with the flag of the operation that put it there.\<close>

fun spec_op :: "(ThreadId \<times> bool) list \<Rightarrow> queue_op \<Rightarrow> queue_out \<times> (ThreadId \<times> bool) list" where
  "spec_op xs (Enqueue i) = (Done, if i \<in> fst ` set xs then xs else xs @ [(i, False)])"
| "spec_op xs (EnqueueFront i) = (Done, if i \<in> fst ` set xs then xs else (i, True) # xs)"
| "spec_op xs Dequeue = (case xs of [] \<Rightarrow> (Got None, []) | x # ys \<Rightarrow> (Got (Some x), ys))"
| "spec_op xs (Remove i) = (Removed (i \<in> fst ` set xs), filter (\<lambda>x. fst x \<noteq> i) xs)"

fun spec_run :: "(ThreadId \<times> bool) list \<Rightarrow> queue_op list \<Rightarrow> queue_out list \<times> (ThreadId \<times> bool) list" where
  "spec_run xs [] = ([], xs)"
| "spec_run xs (op # ops) =
    (let (r, ys) = spec_op xs op; (rs, zs) = spec_run ys ops in (r # rs, zs))"

locale scheduler_queue =
  fixes enq :: "ThreadId \<Rightarrow> 's \<Rightarrow> 's"
    and enq_front :: "ThreadId \<Rightarrow> 's \<Rightarrow> 's"
    and deq :: "'s \<Rightarrow> (ThreadId \<times> bool) option \<times> 's"
    and rem :: "ThreadId \<Rightarrow> 's \<Rightarrow> bool \<times> 's"
    and abs :: "'s \<Rightarrow> (ThreadId \<times> bool) list"
    and invar :: "nat \<Rightarrow> 's \<Rightarrow> bool"
  assumes invar_enq: "invar (Suc n) s \<Longrightarrow> invar n (enq i s)"
    and invar_enq_front: "invar (Suc n) s \<Longrightarrow> invar n (enq_front i s)"
    and invar_deq: "invar n s \<Longrightarrow> invar n (snd (deq s))"
    and invar_rem: "invar n s \<Longrightarrow> invar n (snd (rem i s))"
    and abs_enq: "invar (Suc n) s \<Longrightarrow> abs (enq i s) = snd (spec_op (abs s) (Enqueue i))"
    and abs_enq_front: "invar (Suc n) s \<Longrightarrow> abs (enq_front i s) = snd (spec_op (abs s) (EnqueueFront i))"
    and abs_deq: "invar n s \<Longrightarrow> (Got (fst (deq s)), abs (snd (deq s))) = spec_op (abs s) Dequeue"
    and abs_rem: "invar n s \<Longrightarrow> (Removed (fst (rem i s)), abs (snd (rem i s))) = spec_op (abs s) (Remove i)"
begin

fun op_apply :: "'s \<Rightarrow> queue_op \<Rightarrow> queue_out \<times> 's" where
  "op_apply s (Enqueue i) = (Done, enq i s)"
| "op_apply s (EnqueueFront i) = (Done, enq_front i s)"
| "op_apply s Dequeue = (case deq s of (r, s') \<Rightarrow> (Got r, s'))"
| "op_apply s (Remove i) = (case rem i s of (b, s') \<Rightarrow> (Removed b, s'))"

fun op_run :: "'s \<Rightarrow> queue_op list \<Rightarrow> queue_out list \<times> 's" where
  "op_run s [] = ([], s)"
| "op_run s (op # ops) = (let (r, s') = op_apply s op; (rs, s'') = op_run s' ops in (r # rs, s''))"

lemma op_apply_refines:
  assumes "invar (n + (if adds_entry op then 1 else 0)) s"
  shows "(fst (op_apply s op), abs (snd (op_apply s op))) = spec_op (abs s) op \<and> invar n (snd (op_apply s op))"
proof (cases op)
  case (Enqueue i)
  with assms show ?thesis by (simp add: abs_enq invar_enq)
next
  case (EnqueueFront i)
  with assms show ?thesis by (simp add: abs_enq_front invar_enq_front)
next
  case Dequeue
  with assms abs_deq [of n s] invar_deq [of n s] show ?thesis
    by (simp add: case_prod_beta)
next
  case (Remove i)
  with assms abs_rem [of n s i] invar_rem [of n s i] show ?thesis
    by (simp add: case_prod_beta)
qed

lemma op_run_refines:
  assumes "invar (n + length (filter adds_entry ops)) s"
  shows "(fst (op_run s ops), abs (snd (op_run s ops))) = spec_run (abs s) ops \<and> invar n (snd (op_run s ops))"
  using assms
proof (induction ops arbitrary: s)
  case (Cons op ops)
  obtain r s' where a: "op_apply s op = (r, s')" by fastforce
  have "invar ((n + length (filter adds_entry ops)) + (if adds_entry op then 1 else 0)) s"
    using Cons.prems by (cases "adds_entry op") simp_all
  from op_apply_refines [OF this] a
  have 1: "spec_op (abs s) op = (r, abs s')" and 2: "invar (n + length (filter adds_entry ops)) s'"
    by simp_all
  from Cons.IH [OF 2] show ?case
    by (auto simp: a 1 split: prod.splits)
qed simp

end

text \<open>
  How long a thread waits: a dequeue takes one thread from in front of it, an \<open>enqueue_front\<close> puts at
  most one there, an \<open>enqueue\<close> none, and a removal of another thread can only help.
\<close>

definition count_dequeues :: "queue_op list \<Rightarrow> nat" where
  "count_dequeues ops = length (filter (\<lambda>op. op = Dequeue) ops)"

definition is_front :: "queue_op \<Rightarrow> bool" where
  "is_front op \<longleftrightarrow> (case op of EnqueueFront _ \<Rightarrow> True | _ \<Rightarrow> False)"

lemma is_front_simps [simp]:
  "\<not> is_front (Enqueue i)" "is_front (EnqueueFront i)" "\<not> is_front Dequeue" "\<not> is_front (Remove i)"
  by (simp_all add: is_front_def)

definition waits_at_most :: "(ThreadId \<times> bool) list \<Rightarrow> (ThreadId \<times> bool) \<Rightarrow> nat \<Rightarrow> bool" where
  "waits_at_most xs x k \<longleftrightarrow> (\<exists>us vs. xs = us @ x # vs \<and> length us \<le> k)"

lemma waits_Enqueue: "waits_at_most xs x k \<Longrightarrow> waits_at_most (snd (spec_op xs (Enqueue i))) x k"
  unfolding waits_at_most_def by auto (metis append.assoc append_Cons)

lemma waits_EnqueueFront: "waits_at_most xs x k \<Longrightarrow> waits_at_most (snd (spec_op xs (EnqueueFront i))) x (Suc k)"
  unfolding waits_at_most_def by (force intro: exI [of _ "(i, True) # us" for us])

lemma waits_Remove:
  assumes "waits_at_most xs x k" and "i \<noteq> fst x"
  shows "waits_at_most (snd (spec_op xs (Remove i))) x k"
proof -
  from assms(1) obtain us vs where "xs = us @ x # vs" and "length us \<le> k" by (auto simp: waits_at_most_def)
  moreover from this have "length (filter (\<lambda>x. fst x \<noteq> i) us) \<le> k"
    using length_filter_le order_trans by blast
  ultimately show ?thesis
    using assms(2) unfolding waits_at_most_def
    by (intro exI [of _ "filter (\<lambda>x. fst x \<noteq> i) us"] exI [of _ "filter (\<lambda>x. fst x \<noteq> i) vs"]) auto
qed

lemma spec_served:
  assumes "waits_at_most xs x k" and "Remove (fst x) \<notin> set ops"
    and "k + length (filter is_front ops) < count_dequeues ops"
  shows "Got (Some x) \<in> set (fst (spec_run xs ops))"
  using assms
proof (induction ops arbitrary: xs k)
  case Nil
  then show ?case by (simp add: count_dequeues_def)
next
  case (Cons op ops)
  obtain r ys where o: "spec_op xs op = (r, ys)" by fastforce
  have step: "Got (Some x) \<in> set (fst (spec_run xs (op # ops)))"
    if "Got (Some x) \<in> set (fst (spec_run ys ops)) \<or> r = Got (Some x)"
    using that by (auto simp: o split: prod.splits)
  note IH = Cons.IH [of ys] and prems = Cons.prems
  show ?case
  proof (cases op)
    case (Enqueue i)
    with o prems IH [of k] waits_Enqueue [of xs x k i] show ?thesis
      by (intro step) (auto simp: count_dequeues_def)
  next
    case (EnqueueFront i)
    with o prems IH [of "Suc k"] waits_EnqueueFront [of xs x k i] show ?thesis
      by (intro step) (auto simp: count_dequeues_def)
  next
    case (Remove i)
    with o prems IH [of k] waits_Remove [of xs x k i] show ?thesis
      by (intro step) (auto simp: count_dequeues_def)
  next
    case Dequeue
    from prems(1) obtain us vs where xs: "xs = us @ x # vs" "length us \<le> k" by (auto simp: waits_at_most_def)
    show ?thesis
    proof (cases us)
      case Nil
      with xs Dequeue o show ?thesis by (intro step) auto
    next
      case (Cons u us')
      with xs Dequeue o have "waits_at_most ys x (k - 1)" by (auto simp: waits_at_most_def)
      moreover have "k - 1 + length (filter is_front ops) < count_dequeues ops"
        using prems(3) Dequeue Cons xs(2) by (auto simp: count_dequeues_def)
      ultimately show ?thesis using prems(2) IH by (intro step) auto
    qed
  qed
qed

section \<open>The runnable queue keeps the contract\<close>

definition entry_live :: "(ThreadId \<rightharpoonup> u64) \<Rightarrow> queue_entry \<Rightarrow> bool" where
  "entry_live m e \<longleftrightarrow> m (fst e) = Some (fst (snd e))"

definition live_entries :: "queue_entry list \<Rightarrow> (ThreadId \<rightharpoonup> u64) \<Rightarrow> (ThreadId \<times> bool) list" where
  "live_entries es m = map (\<lambda>e. (fst e, snd (snd e))) (filter (entry_live m) es)"

definition ready :: "RunnableQueue \<Rightarrow> (ThreadId \<times> bool) list" where
  "ready q = live_entries (rq_queue q) (rq_queued q)"

text \<open>Tokens in the deque are distinct and were issued; each queued thread has its entry.\<close>

definition entries_ok :: "queue_entry list \<Rightarrow> (ThreadId \<rightharpoonup> u64) \<Rightarrow> bool" where
  "entries_ok es m \<longleftrightarrow> distinct (map (\<lambda>e. fst (snd e)) es) \<and> (\<forall>i tok. m i = Some tok \<longrightarrow> (\<exists>f. (i, tok, f) \<in> set es))"

definition runnable_inv :: "nat \<Rightarrow> RunnableQueue \<Rightarrow> bool" where
  "runnable_inv n q \<longleftrightarrow> entries_ok (rq_queue q) (rq_queued q) \<and>
     (\<forall>e \<in> set (rq_queue q). unat (fst (snd e)) \<le> unat (rq_next_token q)) \<and> unat (rq_next_token q) + n < 2 ^ 64"

lemma live_entries_simps [simp]:
  "live_entries [] m = []"
  "live_entries (e # es) m = (if entry_live m e then (fst e, snd (snd e)) # live_entries es m else live_entries es m)"
  "live_entries (es @ es') m = live_entries es m @ live_entries es' m"
  by (simp_all add: live_entries_def)

lemma live_ids:
  "entries_ok es m \<Longrightarrow> fst ` set (live_entries es m) = dom m"
  by (force simp: entries_ok_def live_entries_def entry_live_def dom_def image_iff)

lemma live_distinct: "distinct (map (\<lambda>e. fst (snd e)) es) \<Longrightarrow> distinct (map fst (live_entries es m))"
  by (induction es) (force simp: live_entries_def entry_live_def)+

lemma live_other: "\<forall>e \<in> set es. fst e = i \<longrightarrow> m i \<noteq> Some (fst (snd e)) \<and> m' i \<noteq> Some (fst (snd e)) \<Longrightarrow>
  \<forall>j. j \<noteq> i \<longrightarrow> m j = m' j \<Longrightarrow> live_entries es m = live_entries es m'"
  by (induction es) (auto simp: entry_live_def)

lemma live_remove: "live_entries es (m(i := None)) = filter (\<lambda>x. fst x \<noteq> i) (live_entries es m)"
  by (induction es) (auto simp: entry_live_def)

lemma fresh_token:
  assumes "runnable_inv (Suc n) q"
  shows "unat (rq_next_token q + 1) = unat (rq_next_token q) + 1"
    and "\<forall>e \<in> set (rq_queue q). fst (snd e) \<noteq> rq_next_token q + 1"
proof -
  from assms show eq: "unat (rq_next_token q + 1) = unat (rq_next_token q) + 1"
    by (simp add: runnable_inv_def unat_word_ariths)
  with assms show "\<forall>e \<in> set (rq_queue q). fst (snd e) \<noteq> rq_next_token q + 1"
    unfolding runnable_inv_def by (metis Suc_eq_plus1 not_less_eq_eq order_refl)
qed

lemma pop_live_correct:
  assumes "pop_live es m = (r, es', m')" and "distinct (map (\<lambda>e. fst (snd e)) es)"
    and "\<forall>i tok. m i = Some tok \<longrightarrow> (\<exists>f. (i, tok, f) \<in> set es)"
  shows "entries_ok es' m' \<and> set es' \<subseteq> set es \<and> (Got r, live_entries es' m') = spec_op (live_entries es m) Dequeue"
  using assms
proof (induction es m rule: pop_live.induct)
  case (1 m)
  then show ?case by (auto simp: entries_ok_def)
next
  case (2 i tok front es m)
  show ?case
  proof (cases "m i = Some tok")
    case True
    with 2 have r: "r = Some (i, front)" "es' = es" "m' = m(i := None)" by auto
    have "fst x \<noteq> i" if "x \<in> set (live_entries es m)" for x
      using that 2(3) True by (force simp: live_entries_def entry_live_def)
    then have "filter (\<lambda>x. fst x \<noteq> i) (live_entries es m) = live_entries es m" by (simp add: filter_id_conv)
    moreover have "entries_ok es (m(i := None))"
      using 2(3,4) by (fastforce simp: entries_ok_def)
    ultimately show ?thesis using True unfolding r by (simp add: live_remove [of es m i] entry_live_def [of m] subset_insertI del: fun_upd_apply)
  next
    case False
    with 2 have "entries_ok es' m' \<and> set es' \<subseteq> set es \<and> (Got r, live_entries es' m') = spec_op (live_entries es m) Dequeue"
      by (intro 2(1)) (auto, metis)
    with False show ?thesis by (auto simp: entry_live_def)
  qed
qed

lemma ready_enqueue:
  assumes "runnable_inv (Suc n) q"
  shows "ready (enqueue i q) = snd (spec_op (ready q) (Enqueue i))"
    and "ready (enqueue_front i q) = snd (spec_op (ready q) (EnqueueFront i))"
    and "runnable_inv n (enqueue i q)" and "runnable_inv n (enqueue_front i q)"
proof -
  note fresh = fresh_token [OF assms]
  have ids: "fst ` set (ready q) = dom (rq_queued q)"
    using assms by (simp add: ready_def runnable_inv_def live_ids)
  have live: "live_entries (rq_queue q) ((rq_queued q)(i \<mapsto> rq_next_token q + 1)) = live_entries (rq_queue q) (rq_queued q)"
    if "rq_queued q i = None"
    using fresh(2) that by (intro live_other) auto
  show "ready (enqueue i q) = snd (spec_op (ready q) (Enqueue i))"
    using ids live by (auto simp: ready_def enqueue_def Let_def entry_live_def)
  show "ready (enqueue_front i q) = snd (spec_op (ready q) (EnqueueFront i))"
    using ids live by (auto simp: ready_def enqueue_front_def Let_def entry_live_def)
  have ok: "entries_ok (rq_queue q) (rq_queued q)"
    using assms by (simp add: runnable_inv_def)
  have bound: "\<forall>e \<in> set (rq_queue q). unat (fst (snd e)) \<le> unat (rq_next_token q + 1)"
    "unat (rq_next_token q + 1) + n < 2 ^ 64"
    using assms fresh(1) by (auto simp: runnable_inv_def)
  have keep: "runnable_inv n q" using assms by (simp add: runnable_inv_def)
  show "runnable_inv n (enqueue i q)"
    using ok bound fresh(2) keep
    by (cases "rq_queued q i") (fastforce simp: enqueue_def Let_def runnable_inv_def entries_ok_def)+
  show "runnable_inv n (enqueue_front i q)"
    using ok bound fresh(2) keep
    by (cases "rq_queued q i") (fastforce simp: enqueue_front_def Let_def runnable_inv_def entries_ok_def)+
qed

lemma ready_dequeue:
  assumes "runnable_inv n q"
  shows "(Got (fst (dequeue_detailed q)), ready (snd (dequeue_detailed q))) = spec_op (ready q) Dequeue"
    and "runnable_inv n (snd (dequeue_detailed q))"
proof -
  obtain r es' m' where p: "pop_live (rq_queue q) (rq_queued q) = (r, es', m')" by (metis prod_cases3)
  from assms have "distinct (map (\<lambda>e. fst (snd e)) (rq_queue q))"
    "\<forall>i tok. rq_queued q i = Some tok \<longrightarrow> (\<exists>f. (i, tok, f) \<in> set (rq_queue q))"
    by (simp_all add: runnable_inv_def entries_ok_def)
  note c = pop_live_correct [OF p this]
  then show "(Got (fst (dequeue_detailed q)), ready (snd (dequeue_detailed q))) = spec_op (ready q) Dequeue"
    by (simp add: ready_def dequeue_detailed_def p)
  show "runnable_inv n (snd (dequeue_detailed q))"
    using c assms by (auto simp: runnable_inv_def dequeue_detailed_def p)
qed

lemma ready_remove:
  assumes "runnable_inv n q"
  shows "(Removed (fst (runnable_remove i q)), ready (snd (runnable_remove i q))) = spec_op (ready q) (Remove i)"
    and "runnable_inv n (snd (runnable_remove i q))"
proof -
  have "fst ` set (ready q) = dom (rq_queued q)"
    using assms by (simp add: ready_def runnable_inv_def live_ids)
  then show "(Removed (fst (runnable_remove i q)), ready (snd (runnable_remove i q))) = spec_op (ready q) (Remove i)"
    by (auto simp: ready_def runnable_remove_def live_remove)
  show "runnable_inv n (snd (runnable_remove i q))"
    using assms by (auto simp: runnable_inv_def runnable_remove_def entries_ok_def)
qed

interpretation rq: scheduler_queue enqueue enqueue_front dequeue_detailed runnable_remove ready runnable_inv
  by unfold_locales (auto simp del: spec_op.simps simp: ready_enqueue ready_dequeue ready_remove)

lemma runnable_inv_new: "n < 2 ^ 64 \<Longrightarrow> runnable_inv n new_runnable"
  by (simp add: runnable_inv_def new_runnable_def entries_ok_def)

lemma ready_new [simp]: "ready new_runnable = []"
  by (simp add: ready_def new_runnable_def)

lemma ready_queries:
  assumes "runnable_inv n q"
  shows "runnable_len q = length (ready q)" and "runnable_is_empty q \<longleftrightarrow> ready q = []"
    and "runnable_contains q i \<longleftrightarrow> i \<in> fst ` set (ready q)" and "distinct (map fst (ready q))"
proof -
  have ids: "dom (rq_queued q) = set (map fst (ready q))"
    using assms by (simp add: ready_def runnable_inv_def live_ids)
  show dis: "distinct (map fst (ready q))"
    using assms by (simp add: ready_def runnable_inv_def entries_ok_def live_distinct)
  show "runnable_len q = length (ready q)"
    using distinct_card [OF dis] by (simp add: runnable_len_def ids)
  show "runnable_is_empty q \<longleftrightarrow> ready q = []"
    by (simp add: runnable_is_empty_def ids)
  show "runnable_contains q i \<longleftrightarrow> i \<in> fst ` set (ready q)"
    using ids by (auto simp: runnable_contains_def dom_def)
qed

text \<open>A history of operations on an empty queue.\<close>

definition runnable_run :: "queue_op list \<Rightarrow> queue_out list \<times> RunnableQueue" where
  "runnable_run ops = scheduler_queue.op_run enqueue enqueue_front dequeue_detailed runnable_remove new_runnable ops"

lemma runnable_run_refines:
  assumes "length (filter adds_entry ops) < 2 ^ 64"
  shows "(fst (runnable_run ops), ready (snd (runnable_run ops))) = spec_run [] ops"
    and "runnable_inv 0 (snd (runnable_run ops))"
  using rq.op_run_refines [of 0 ops new_runnable] assms
  by (simp_all add: runnable_run_def runnable_inv_new)

lemma runnable_queue_refines_parts:
  assumes "length (filter adds_entry ops) < 2 ^ 64"
  shows "fst (runnable_run ops) = fst (spec_run [] ops)"
    and "ready (snd (runnable_run ops)) = snd (spec_run [] ops)"
    and "runnable_len (snd (runnable_run ops)) = length (snd (spec_run [] ops))"
    and "runnable_is_empty (snd (runnable_run ops)) \<longleftrightarrow> snd (spec_run [] ops) = []"
    and "runnable_contains (snd (runnable_run ops)) i \<longleftrightarrow> i \<in> fst ` set (snd (spec_run [] ops))"
    and "distinct (map fst (snd (spec_run [] ops)))"
  using runnable_run_refines [OF assms] ready_queries [OF runnable_run_refines(2) [OF assms]]
  by (metis fst_conv snd_conv)+

text \<open>
  C19 (the runnable queue is a sequence of distinct threads).  Over any history of fewer than \<open>2^64\<close>
  enqueues, the queue answers every operation as a plain sequence does in which a thread occurs
  at most once: removed threads are never handed out, a thread enqueued again takes the new place,
  and length, emptiness and membership are those of the sequence.
\<close>

theorem runnable_queue_refines:
  assumes "length (filter adds_entry ops) < 2 ^ 64"
  shows "fst (runnable_run ops) = fst (spec_run [] ops) \<and>
    ready (snd (runnable_run ops)) = snd (spec_run [] ops) \<and>
    runnable_len (snd (runnable_run ops)) = length (snd (spec_run [] ops)) \<and>
    (runnable_is_empty (snd (runnable_run ops)) \<longleftrightarrow> snd (spec_run [] ops) = []) \<and>
    (runnable_contains (snd (runnable_run ops)) i \<longleftrightarrow> i \<in> fst ` set (snd (spec_run [] ops))) \<and>
    distinct (map fst (snd (spec_run [] ops)))"
  using runnable_queue_refines_parts [OF assms] by blast

definition requeue_ops :: "queue_op list" where
  "requeue_ops = [Enqueue 1, Enqueue 2, Remove 1, Enqueue 1, EnqueueFront 3, Dequeue, Dequeue, Dequeue, Dequeue]"

theorem runnable_queue_refines_witness:
  "fst (runnable_run requeue_ops) =
     [Done, Done, Removed True, Done, Done, Got (Some (3, True)), Got (Some (2, False)), Got (Some (1, False)), Got None]"
proof -
  have "length (filter adds_entry requeue_ops) < 2 ^ 64"
    by (simp add: requeue_ops_def)
  from runnable_queue_refines [OF this] show ?thesis
    by (simp add: requeue_ops_def)
qed

text \<open>
  C35 (no runnable thread starves).  A thread with \<open>k\<close> threads in front of it is handed out before the
  queue has been asked \<open>k + 1\<close> times, counted without the times another thread was put in front,
  unless it is removed.
\<close>

theorem runnable_thread_served:
  assumes "runnable_inv (length (filter adds_entry ops)) q"
    and "k < length (ready q)" and "Remove (fst (ready q ! k)) \<notin> set ops"
    and "k + length (filter is_front ops) < count_dequeues ops"
  shows "Got (Some (ready q ! k)) \<in>
    set (fst (scheduler_queue.op_run enqueue enqueue_front dequeue_detailed runnable_remove q ops))"
proof -
  have "waits_at_most (ready q) (ready q ! k) k"
    using assms(2) id_take_nth_drop [of k "ready q"] unfolding waits_at_most_def
    by (intro exI [of _ "take k (ready q)"] exI [of _ "drop (Suc k) (ready q)"]) auto
  from spec_served [OF this assms(3,4)] show ?thesis
    using rq.op_run_refines [of 0 ops q] assms(1) by (simp add: prod_eq_iff)
qed

definition two_queued :: RunnableQueue where
  "two_queued = enqueue 5 (enqueue 4 new_runnable)"

theorem runnable_thread_served_witness:
  "Got (Some (5, False)) \<in>
    set (fst (scheduler_queue.op_run enqueue enqueue_front dequeue_detailed runnable_remove two_queued
      [Dequeue, EnqueueFront 4, Dequeue, Dequeue]))"
proof -
  have r: "ready two_queued = [(4, False), (5, False)]"
    by (simp add: two_queued_def ready_def enqueue_def new_runnable_def entry_live_def)
  have "runnable_inv 1 two_queued"
    by (auto simp: runnable_inv_def two_queued_def enqueue_def new_runnable_def entries_ok_def split: if_splits)
  then show ?thesis
    using runnable_thread_served [of "[Dequeue, EnqueueFront 4, Dequeue, Dequeue]" two_queued 1]
    by (simp add: r count_dequeues_def del: rq.op_run.simps)
qed

end
