(* ===== verification/Blocked_Queue.thy ===== *)
theory Blocked_Queue
  imports Execution_Failure Id_Manager
begin

text \<open>
  The set of blocked threads and their timers, \<open>BlockedQueue\<close> of \<^verbatim>\<open>galfus-runtime/src/queue.rs\<close>.  The
  \<open>BTreeSet\<close> of timers is a sorted list, kept with the library's \<^const>\<open>insort_insert\<close>; its order is the
  derived one, by deadline, then timer, then thread.  Time is virtual and advances only in
  \<open>tick_timeouts\<close>.

  The locale \<open>wait_queue\<close> is the contract seen by the kernel: a map from blocked threads to their
  optional deadlines.
\<close>

section \<open>Timers\<close>

datatype TimerEntry = TimerEntry (deadline_ms: u64) (timer_id: u32) (timer_thread: ThreadId)

instantiation TimerEntry :: linorder
begin

definition less_eq_TimerEntry :: "TimerEntry \<Rightarrow> TimerEntry \<Rightarrow> bool" where
  "s \<le> t \<longleftrightarrow> deadline_ms s < deadline_ms t \<or> deadline_ms s = deadline_ms t \<and>
     (timer_id s < timer_id t \<or> timer_id s = timer_id t \<and> timer_thread s \<le> timer_thread t)"

definition less_TimerEntry :: "TimerEntry \<Rightarrow> TimerEntry \<Rightarrow> bool" where
  "s < t \<longleftrightarrow> s \<le> t \<and> \<not> t \<le> (s :: TimerEntry)"

instance
  by standard (auto simp: less_eq_TimerEntry_def less_TimerEntry_def intro: TimerEntry.expand)

end

lemma timer_le_deadline: "s \<le> t \<Longrightarrow> deadline_ms s \<le> deadline_ms t"
  by (auto simp: less_eq_TimerEntry_def)

section \<open>State and operations\<close>

record BlockedQueue =
  bq_blocked :: "ThreadId set"
  bq_clock_ms :: u64
  bq_timer_ids :: IdManagerState
  bq_timers :: "TimerEntry list"
  bq_active_timers :: "ThreadId \<rightharpoonup> TimerEntry"

definition new_blocked :: BlockedQueue where
  "new_blocked = \<lparr>bq_blocked = {}, bq_clock_ms = 0, bq_timer_ids = new_id_manager 1, bq_timers = [],
     bq_active_timers = Map.empty\<rparr>"

definition remove_timer :: "ThreadId \<Rightarrow> BlockedQueue \<Rightarrow> TimerEntry option \<times> BlockedQueue" where
  "remove_timer i q =
    (case bq_active_timers q i of
       None \<Rightarrow> (None, q)
     | Some timer \<Rightarrow>
         (Some timer,
          q\<lparr>bq_active_timers := (bq_active_timers q)(i := None), bq_timer_ids := free_id (bq_timer_ids q) (timer_id timer),
            bq_timers := removeAll timer (bq_timers q)\<rparr>))"

definition block :: "ThreadId \<Rightarrow> BlockedQueue \<Rightarrow> bool \<times> BlockedQueue" where
  "block i q =
    (case remove_timer i q of (r, q1) \<Rightarrow> (r \<noteq> None, q1\<lparr>bq_blocked := insert i (bq_blocked q1)\<rparr>))"

definition block_with_timeout :: "ThreadId \<Rightarrow> u64 \<Rightarrow> BlockedQueue \<Rightarrow> (ExecutionFailure + bool) \<times> BlockedQueue" where
  "block_with_timeout i timeout_ms q =
    (case try_allocate (bq_timer_ids q) of
       (None, ids) \<Rightarrow> (Inl (new_failure IdSpaceExhausted ''timer id space exhausted''), q\<lparr>bq_timer_ids := ids\<rparr>)
     | (Some tid, ids) \<Rightarrow>
         (let timer = TimerEntry (saturating_add (bq_clock_ms q) timeout_ms) tid i;
              (r, q1) = remove_timer i (q\<lparr>bq_timer_ids := ids\<rparr>) in
          (Inr (r \<noteq> None),
           q1\<lparr>bq_blocked := insert i (bq_blocked q1), bq_active_timers := (bq_active_timers q1)(i \<mapsto> timer),
              bq_timers := insort_insert timer (bq_timers q1)\<rparr>)))"

definition unblock :: "ThreadId \<Rightarrow> BlockedQueue \<Rightarrow> (bool \<times> bool) \<times> BlockedQueue" where
  "unblock i q =
    (case remove_timer i q of
       (r, q1) \<Rightarrow> ((i \<in> bq_blocked q1, r \<noteq> None), q1\<lparr>bq_blocked := bq_blocked q1 - {i}\<rparr>))"

definition blocked_remove :: "ThreadId \<Rightarrow> BlockedQueue \<Rightarrow> bool option \<times> BlockedQueue" where
  "blocked_remove i q =
    (case remove_timer i q of
       (r, q1) \<Rightarrow> (if i \<in> bq_blocked q1 then Some (r \<noteq> None) else None, q1\<lparr>bq_blocked := bq_blocked q1 - {i}\<rparr>))"

text \<open>
  The loop of \<open>tick_timeouts\<close> takes the least timer as long as it is due.  A timer that is not the
  active one of its thread is dropped.
\<close>

fun expire_timers :: "TimerEntry list \<Rightarrow> BlockedQueue \<Rightarrow> ThreadId list \<times> BlockedQueue" where
  "expire_timers [] q = ([], q\<lparr>bq_timers := []\<rparr>)"
| "expire_timers (timer # ts) q =
    (if deadline_ms timer > bq_clock_ms q then ([], q\<lparr>bq_timers := timer # ts\<rparr>)
     else
       let i = timer_thread timer in
       if bq_active_timers q i \<noteq> Some timer then expire_timers ts q
       else
         let q1 = q\<lparr>bq_active_timers := (bq_active_timers q)(i := None),
                    bq_timer_ids := free_id (bq_timer_ids q) (timer_id timer)\<rparr> in
         if i \<in> bq_blocked q1 then
           (case expire_timers ts (q1\<lparr>bq_blocked := bq_blocked q1 - {i}\<rparr>) of (woken, q2) \<Rightarrow> (i # woken, q2))
         else expire_timers ts q1)"

definition tick_timeouts :: "u64 \<Rightarrow> BlockedQueue \<Rightarrow> ThreadId list \<times> BlockedQueue" where
  "tick_timeouts delta_ms q =
    expire_timers (bq_timers q) (q\<lparr>bq_clock_ms := saturating_add (bq_clock_ms q) delta_ms\<rparr>)"

section \<open>The contract of a waiting set\<close>

text \<open>The time after a sequence of ticks.\<close>

definition clock_after :: "u64 \<Rightarrow> u64 list \<Rightarrow> u64" where
  "clock_after now deltas = foldl saturating_add now deltas"

lemma saturating_add_ge: "a \<le> saturating_add a b" for a b :: "'a::len word"
proof -
  have "unat a \<le> 2 ^ LENGTH('a) - 1"
    using unsigned_less [of a, where 'a = nat] by linarith
  then have "unat a \<le> unat (saturating_add a b)"
    by (simp add: unat_saturating_add)
  then show ?thesis by (simp add: word_le_nat_alt)
qed

lemma clock_after_ge: "now \<le> clock_after now deltas"
proof (induction deltas arbitrary: now)
  case (Cons d ds)
  from order_trans [OF saturating_add_ge Cons.IH] show ?case by (simp add: clock_after_def)
qed (simp add: clock_after_def)

definition is_due :: "u64 \<Rightarrow> u64 option option \<Rightarrow> bool" where
  "is_due now w \<longleftrightarrow> (case w of Some (Some d) \<Rightarrow> d \<le> now | _ \<Rightarrow> False)"

locale wait_queue =
  fixes blk :: "ThreadId \<Rightarrow> 's \<Rightarrow> bool \<times> 's"
    and blk_timeout :: "ThreadId \<Rightarrow> u64 \<Rightarrow> 's \<Rightarrow> (ExecutionFailure + bool) \<times> 's"
    and unblk :: "ThreadId \<Rightarrow> 's \<Rightarrow> (bool \<times> bool) \<times> 's"
    and tick :: "u64 \<Rightarrow> 's \<Rightarrow> ThreadId list \<times> 's"
    and waiting :: "'s \<Rightarrow> ThreadId \<rightharpoonup> u64 option"
    and now :: "'s \<Rightarrow> u64"
    and invar :: "'s \<Rightarrow> bool"
  assumes invar_blk: "invar s \<Longrightarrow> invar (snd (blk i s))"
    and invar_blk_timeout: "invar s \<Longrightarrow> invar (snd (blk_timeout i ms s))"
    and invar_unblk: "invar s \<Longrightarrow> invar (snd (unblk i s))"
    and invar_tick: "invar s \<Longrightarrow> invar (snd (tick d s))"
    and waiting_blk: "invar s \<Longrightarrow> waiting (snd (blk i s)) = (waiting s)(i \<mapsto> None)"
    and timer_blk: "invar s \<Longrightarrow> fst (blk i s) \<longleftrightarrow> (\<exists>d. waiting s i = Some (Some d))"
    and waiting_blk_timeout: "invar s \<Longrightarrow> fst (blk_timeout i ms s) = Inr b \<Longrightarrow>
      waiting (snd (blk_timeout i ms s)) = (waiting s)(i \<mapsto> Some (saturating_add (now s) ms)) \<and>
      (b \<longleftrightarrow> (\<exists>d. waiting s i = Some (Some d)))"
    and blk_timeout_fails: "invar s \<Longrightarrow> fst (blk_timeout i ms s) = Inl e \<Longrightarrow> snd (blk_timeout i ms s) = s"
    and waiting_unblk: "invar s \<Longrightarrow> waiting (snd (unblk i s)) = (waiting s)(i := None)"
    and result_unblk: "invar s \<Longrightarrow> fst (unblk i s) = (waiting s i \<noteq> None, \<exists>d. waiting s i = Some (Some d))"
    and waiting_tick: "invar s \<Longrightarrow> waiting (snd (tick d s)) i = (if is_due (saturating_add (now s) d) (waiting s i) then None else waiting s i)"
    and woken_tick: "invar s \<Longrightarrow> set (fst (tick d s)) = {i. is_due (saturating_add (now s) d) (waiting s i)}"
    and woken_once: "invar s \<Longrightarrow> distinct (fst (tick d s))"
    and now_blk: "now (snd (blk i s)) = now s"
    and now_blk_timeout: "now (snd (blk_timeout i ms s)) = now s"
    and now_unblk: "now (snd (unblk i s)) = now s"
    and now_tick: "now (snd (tick d s)) = saturating_add (now s) d"
begin

fun ticks :: "'s \<Rightarrow> u64 list \<Rightarrow> ThreadId list list \<times> 's" where
  "ticks s [] = ([], s)"
| "ticks s (d # ds) = (let (w, s') = tick d s; (ws, s'') = ticks s' ds in (w # ws, s''))"

lemma ticks_wake:
  "invar s \<Longrightarrow>
   (ds \<noteq> [] \<longrightarrow> set (concat (fst (ticks s ds))) = {i. is_due (clock_after (now s) ds) (waiting s i)}) \<and>
   (\<forall>i. waiting (snd (ticks s ds)) i =
      (if ds \<noteq> [] \<and> is_due (clock_after (now s) ds) (waiting s i) then None else waiting s i)) \<and>
   distinct (concat (fst (ticks s ds))) \<and> invar (snd (ticks s ds))"
proof (induction ds arbitrary: s)
  case (Cons d ds)
  obtain w s' where t: "tick d s = (w, s')" by fastforce
  obtain ws s'' where ts: "ticks s' ds = (ws, s'')" by fastforce
  have s': "invar s'" "set w = {i. is_due (saturating_add (now s) d) (waiting s i)}" "distinct w"
    "now s' = saturating_add (now s) d"
    "\<And>i. waiting s' i = (if is_due (saturating_add (now s) d) (waiting s i) then None else waiting s i)"
    using invar_tick woken_tick woken_once waiting_tick now_tick [of d s] Cons.prems by (simp_all add: t)
      (metis t fst_conv snd_conv)+
  have later: "is_due (saturating_add (now s) d) x \<Longrightarrow> is_due (clock_after (saturating_add (now s) d) ds) x" for x
    using order_trans [OF _ clock_after_ge] by (auto simp: is_due_def split: option.splits)
  have clock: "clock_after (now s) (d # ds) = clock_after (saturating_add (now s) d) ds"
    by (simp add: clock_after_def)
  note IH = Cons.IH [OF s'(1)]
  have woken: "ds \<noteq> [] \<Longrightarrow> set (concat ws) =
      {i. is_due (clock_after (saturating_add (now s) d) ds) (if is_due (saturating_add (now s) d) (waiting s i) then None else waiting s i)}"
    using IH by (simp add: ts s')
  have none: "\<not> is_due c None" for c by (simp add: is_due_def)
  have "set (concat (w # ws)) = {i. is_due (clock_after (saturating_add (now s) d) ds) (waiting s i)}"
  proof (cases "ds = []")
    case True
    with ts show ?thesis by (auto simp: s'(2) clock_after_def)
  next
    case False
    from woken [OF False] show ?thesis using later none by (auto simp: s'(2) split: if_splits)
  qed
  moreover have "\<forall>i. waiting s'' i = (if is_due (clock_after (saturating_add (now s) d) ds) (waiting s i) then None else waiting s i)"
    using IH later none ts s'(5) by (cases "ds = []") (auto simp: s'(4) clock_after_def)
  moreover have "set w \<inter> set (concat ws) = {}"
    using woken none ts by (cases "ds = []") (auto simp: s'(2) split: if_splits)
  ultimately show ?case using IH s'(3) by (simp add: t ts clock)
qed simp

end

section \<open>The blocked queue keeps the contract\<close>

text \<open>
  Timers and active timers are the same set, each blocked thread has at most one, and the timer
  identifiers in use are theirs, next to those of \<open>extra\<close> that are handed out and not yet stored.
\<close>

definition timers_ok :: "u32 set \<Rightarrow> TimerEntry list \<Rightarrow> BlockedQueue \<Rightarrow> bool" where
  "timers_ok extra ts q \<longleftrightarrow> sorted ts \<and> distinct ts \<and> set ts = ran (bq_active_timers q) \<and>
     (\<forall>i t. bq_active_timers q i = Some t \<longrightarrow> timer_thread t = i \<and> i \<in> bq_blocked q) \<and>
     inj_on timer_id (set ts) \<and> active_ids (bq_timer_ids q) = timer_id ` set ts \<union> extra \<and>
     (\<forall>t \<in> set ts. timer_id t \<notin> extra) \<and> id_manager_inv 1 (bq_timer_ids q) \<and> finite (bq_blocked q)"

definition blocked_inv :: "BlockedQueue \<Rightarrow> bool" where
  "blocked_inv q \<longleftrightarrow> timers_ok {} (bq_timers q) q"

definition waiting :: "BlockedQueue \<Rightarrow> ThreadId \<rightharpoonup> u64 option" where
  "waiting q i = (if i \<in> bq_blocked q then Some (map_option deadline_ms (bq_active_timers q i)) else None)"

lemma blocked_inv_new: "blocked_inv new_blocked"
  by (simp add: blocked_inv_def timers_ok_def new_blocked_def id_manager_inv_new) (simp add: new_id_manager_def)

lemma timers_ok_upd [simp]:
  "timers_ok extra ts (q\<lparr>bq_timers := us\<rparr>) = timers_ok extra ts q"
  "timers_ok extra ts (q\<lparr>bq_clock_ms := c\<rparr>) = timers_ok extra ts q"
  by (simp_all add: timers_ok_def)

lemma timers_okD:
  assumes "timers_ok extra ts q"
  shows "t \<in> set ts \<Longrightarrow> bq_active_timers q (timer_thread t) = Some t"
    and "bq_active_timers q i = Some t \<Longrightarrow> t \<in> set ts \<and> timer_thread t = i \<and> i \<in> bq_blocked q"
proof -
  have "set ts = ran (bq_active_timers q)"
    and "\<forall>i t. bq_active_timers q i = Some t \<longrightarrow> timer_thread t = i \<and> i \<in> bq_blocked q"
    using assms by (simp_all add: timers_ok_def)
  then show "t \<in> set ts \<Longrightarrow> bq_active_timers q (timer_thread t) = Some t"
    and "bq_active_timers q i = Some t \<Longrightarrow> t \<in> set ts \<and> timer_thread t = i \<and> i \<in> bq_blocked q"
    by (auto simp: ran_def)
qed

lemma ran_remove: "(\<forall>i t. m i = Some t \<longrightarrow> f t = i) \<Longrightarrow> m i = Some t \<Longrightarrow> ran (m(i := None)) = ran m - {t}"
  by (auto simp: ran_def split: if_splits) (metis option.inject)+

lemma timers_ok_remove:
  assumes "timers_ok extra ts q" and "bq_active_timers q i = Some t"
  shows "timers_ok extra (removeAll t ts)
    (q\<lparr>bq_active_timers := (bq_active_timers q)(i := None), bq_timer_ids := free_id (bq_timer_ids q) (timer_id t)\<rparr>)"
proof -
  have m: "\<forall>i t. bq_active_timers q i = Some t \<longrightarrow> timer_thread t = i"
    and inj: "inj_on timer_id (set ts)" and t: "t \<in> set ts"
    using assms timers_okD(2) [OF assms(1)] by (auto simp: timers_ok_def)
  have "timer_id ` (set ts - {t}) \<union> extra = timer_id ` set ts \<union> extra - {timer_id t}"
  proof -
    have "timer_id t \<notin> extra" using t assms(1) by (auto simp: timers_ok_def)
    then show ?thesis using inj t by (auto simp: inj_on_def)
  qed
  then show ?thesis
    using assms(1) ran_remove [OF m assms(2)] m inj
    by (auto simp: timers_ok_def removeAll_filter_not_eq sorted_wrt_filter local_ids.live_release [of 1]
          id_manager_inv_free intro: inj_on_subset)
qed

lemma remove_timer_simps:
  "fst (remove_timer i q) = bq_active_timers q i"
  "bq_active_timers (snd (remove_timer i q)) = (bq_active_timers q)(i := None)"
  "bq_blocked (snd (remove_timer i q)) = bq_blocked q" "bq_clock_ms (snd (remove_timer i q)) = bq_clock_ms q"
  by (auto simp: remove_timer_def split: option.splits)

lemma remove_timer_ok:
  assumes "timers_ok extra (bq_timers q) q"
  shows "timers_ok extra (bq_timers (snd (remove_timer i q))) (snd (remove_timer i q))"
  using assms timers_ok_remove [of extra "bq_timers q" q i]
  by (cases "bq_active_timers q i") (simp_all add: remove_timer_def)

lemma timers_ok_set:
  assumes "timers_ok extra ts q" and "bq_active_timers q i = None"
  shows "timers_ok extra ts (q\<lparr>bq_blocked := insert i (bq_blocked q)\<rparr>)"
    and "timers_ok extra ts (q\<lparr>bq_blocked := bq_blocked q - {i}\<rparr>)"
  using assms by (auto simp: timers_ok_def)

lemma blocked_inv_set:
  assumes "blocked_inv q" and "bq_active_timers q i = None"
  shows "blocked_inv (q\<lparr>bq_blocked := insert i (bq_blocked q)\<rparr>)" and "blocked_inv (q\<lparr>bq_blocked := bq_blocked q - {i}\<rparr>)"
  using timers_ok_set [of "{}" "bq_timers q" q i] assms by (simp_all add: blocked_inv_def)

lemma block_ok:
  assumes "blocked_inv q"
  shows "blocked_inv (snd (block i q))" and "waiting (snd (block i q)) = (waiting q)(i \<mapsto> None)"
    and "fst (block i q) \<longleftrightarrow> (\<exists>d. waiting q i = Some (Some d))"
proof -
  note r = remove_timer_ok [OF assms [unfolded blocked_inv_def], of i, folded blocked_inv_def] remove_timer_simps [of i q]
  show "blocked_inv (snd (block i q))"
    using blocked_inv_set(1) [OF r(1), of i] r by (simp add: block_def case_prod_beta)
  show "waiting (snd (block i q)) = (waiting q)(i \<mapsto> None)"
    using r by (auto simp: block_def case_prod_beta waiting_def fun_eq_iff)
  show "fst (block i q) \<longleftrightarrow> (\<exists>d. waiting q i = Some (Some d))"
    using r assms by (auto simp: block_def case_prod_beta waiting_def blocked_inv_def dest: timers_okD(2))
qed

lemma unblock_ok:
  assumes "blocked_inv q"
  shows "blocked_inv (snd (unblock i q))" and "waiting (snd (unblock i q)) = (waiting q)(i := None)"
    and "fst (unblock i q) = (waiting q i \<noteq> None, \<exists>d. waiting q i = Some (Some d))"
proof -
  note r = remove_timer_ok [OF assms [unfolded blocked_inv_def], of i, folded blocked_inv_def] remove_timer_simps [of i q]
  show "blocked_inv (snd (unblock i q))"
    using blocked_inv_set(2) [OF r(1), of i] r by (simp add: unblock_def case_prod_beta)
  show "waiting (snd (unblock i q)) = (waiting q)(i := None)"
    using r by (auto simp: unblock_def case_prod_beta waiting_def fun_eq_iff)
  show "fst (unblock i q) = (waiting q i \<noteq> None, \<exists>d. waiting q i = Some (Some d))"
    using r assms by (auto simp: unblock_def case_prod_beta waiting_def blocked_inv_def dest: timers_okD(2))
qed

lemma insert_timer_ok:
  assumes "timers_ok {timer_id t} ts q" and "bq_active_timers q (timer_thread t) = None"
  shows "timers_ok {} (insort_insert t ts)
    (q\<lparr>bq_blocked := insert (timer_thread t) (bq_blocked q), bq_active_timers := (bq_active_timers q)(timer_thread t \<mapsto> t)\<rparr>)"
  using assms by (auto simp: timers_ok_def sorted_insort_insert distinct_insort_insert set_insort_insert)

lemma block_with_timeout_ok:
  assumes "blocked_inv q"
  shows "blocked_inv (snd (block_with_timeout i ms q))"
    and "fst (block_with_timeout i ms q) = Inr b \<Longrightarrow>
      waiting (snd (block_with_timeout i ms q)) = (waiting q)(i \<mapsto> Some (saturating_add (bq_clock_ms q) ms)) \<and>
      (b \<longleftrightarrow> (\<exists>d. waiting q i = Some (Some d)))"
    and "fst (block_with_timeout i ms q) = Inl e \<Longrightarrow> snd (block_with_timeout i ms q) = q"
proof -
  have ids: "id_manager_inv 1 (bq_timer_ids q)" using assms by (simp add: blocked_inv_def timers_ok_def)
  obtain r m where a: "try_allocate (bq_timer_ids q) = (r, m)" by fastforce
  note rm = remove_timer_simps [of i "q\<lparr>bq_timer_ids := m\<rparr>"]
  show "fst (block_with_timeout i ms q) = Inl e \<Longrightarrow> snd (block_with_timeout i ms q) = q"
    using try_allocate_None(2) [OF ids, of m] a
    by (cases r) (auto simp: block_with_timeout_def Let_def split: prod.splits)
  show "blocked_inv (snd (block_with_timeout i ms q))"
  proof (cases r)
    case None
    with a assms try_allocate_None(2) [OF ids, of m] show ?thesis by (simp add: block_with_timeout_def)
  next
    case (Some tid)
    note fresh = try_allocate_Some [OF ids a [unfolded Some]]
    have "timers_ok {tid} (bq_timers q) (q\<lparr>bq_timer_ids := m\<rparr>)"
      using assms fresh id_manager_inv_allocate [OF ids a] by (auto simp: blocked_inv_def timers_ok_def)
    from remove_timer_ok [of "{tid}" "q\<lparr>bq_timer_ids := m\<rparr>" i] this
    have "timers_ok {timer_id (TimerEntry d tid i)} (bq_timers (snd (remove_timer i (q\<lparr>bq_timer_ids := m\<rparr>)))) (snd (remove_timer i (q\<lparr>bq_timer_ids := m\<rparr>)))" for d
      by simp
    from insert_timer_ok [OF this] rm show ?thesis
      by (simp add: block_with_timeout_def a Some Let_def case_prod_beta blocked_inv_def)
  qed
  show "fst (block_with_timeout i ms q) = Inr b \<Longrightarrow>
      waiting (snd (block_with_timeout i ms q)) = (waiting q)(i \<mapsto> Some (saturating_add (bq_clock_ms q) ms)) \<and>
      (b \<longleftrightarrow> (\<exists>d. waiting q i = Some (Some d)))"
    using rm a assms
    by (cases r) (auto simp: block_with_timeout_def Let_def case_prod_beta waiting_def fun_eq_iff blocked_inv_def dest: timers_okD(2))
qed

text \<open>The loop of a tick wakes the threads of the due timers, in the order of the timers.\<close>

lemma expire_timers_ok:
  assumes "timers_ok {} ts q"
  shows "fst (expire_timers ts q) = map timer_thread (takeWhile (\<lambda>t. deadline_ms t \<le> bq_clock_ms q) ts) \<and>
     blocked_inv (snd (expire_timers ts q)) \<and> bq_clock_ms (snd (expire_timers ts q)) = bq_clock_ms q \<and>
     (\<forall>i. waiting (snd (expire_timers ts q)) i = (if is_due (bq_clock_ms q) (waiting q i) then None else waiting q i))"
  using assms
proof (induction ts q rule: expire_timers.induct)
  case (1 q)
  then show ?case
    by (auto simp: blocked_inv_def timers_ok_def waiting_def is_due_def ran_def split: option.splits)
next
  case (2 timer ts q)
  let ?i = "timer_thread timer"
  let ?q1 = "q\<lparr>bq_active_timers := (bq_active_timers q)(?i := None), bq_timer_ids := free_id (bq_timer_ids q) (timer_id timer)\<rparr>"
  let ?q2 = "?q1\<lparr>bq_blocked := bq_blocked ?q1 - {?i}\<rparr>"
  have act: "bq_active_timers q ?i = Some timer" and bl: "?i \<in> bq_blocked q"
    using timers_okD [OF "2.prems"] by auto
  show ?case
  proof (cases "deadline_ms timer > bq_clock_ms q")
    case True
    have "bq_clock_ms q < deadline_ms t" if "bq_active_timers q i = Some t" for i t
    proof -
      have "t \<in> set (timer # ts)" using timers_okD(2) [OF "2.prems" that] by simp
      then have "timer \<le> t" using "2.prems" by (auto simp: timers_ok_def)
      from timer_le_deadline [OF this] True show ?thesis by simp
    qed
    then have "\<not> is_due (bq_clock_ms q) (waiting q i)" for i
      by (auto simp: waiting_def is_due_def not_le split: option.splits)
    with True "2.prems" show ?thesis by (simp add: blocked_inv_def) (simp add: waiting_def)
  next
    case False
    have "timer \<notin> set ts" using "2.prems" by (simp add: timers_ok_def)
    then have "timers_ok {} ts ?q1"
      using timers_ok_remove [OF "2.prems" act] by (simp add: removeAll_id)
    from timers_ok_set(2) [OF this] have "timers_ok {} ts ?q2" by simp
    with "2.IH"(2) [OF False refl _ refl _] act bl
    have IH: "fst (expire_timers ts ?q2) = map timer_thread (takeWhile (\<lambda>t. deadline_ms t \<le> bq_clock_ms q) ts) \<and>
        blocked_inv (snd (expire_timers ts ?q2)) \<and> bq_clock_ms (snd (expire_timers ts ?q2)) = bq_clock_ms q \<and>
        (\<forall>i. waiting (snd (expire_timers ts ?q2)) i = (if is_due (bq_clock_ms q) (waiting ?q2 i) then None else waiting ?q2 i))"
      by simp
    have "expire_timers (timer # ts) q = (?i # fst (expire_timers ts ?q2), snd (expire_timers ts ?q2))"
      using False act bl by (simp add: Let_def case_prod_beta)
    then show ?thesis
      using IH False act bl by (auto simp: waiting_def is_due_def)
  qed
qed

lemma sorted_takeWhile_deadline:
  "sorted ts \<Longrightarrow> takeWhile (\<lambda>t. deadline_ms t \<le> c) ts = filter (\<lambda>t. deadline_ms t \<le> c) ts"
proof (induction ts)
  case (Cons t ts)
  have "filter (\<lambda>t. deadline_ms t \<le> c) ts = []" if "c < deadline_ms t"
    using Cons.prems that by (auto simp: filter_empty_conv not_le dest!: timer_le_deadline intro: less_le_trans)
  with Cons show ?case by auto
qed simp

lemma expire_clock: "bq_clock_ms (snd (expire_timers ts q)) = bq_clock_ms q"
  by (induction ts q rule: expire_timers.induct) (auto simp: Let_def case_prod_beta)

lemma tick_ok:
  assumes "blocked_inv q"
  shows "fst (tick_timeouts d q) =
      map timer_thread (filter (\<lambda>t. deadline_ms t \<le> saturating_add (bq_clock_ms q) d) (bq_timers q))"
    and "blocked_inv (snd (tick_timeouts d q))"
    and "waiting (snd (tick_timeouts d q)) i =
      (if is_due (saturating_add (bq_clock_ms q) d) (waiting q i) then None else waiting q i)"
    and "set (fst (tick_timeouts d q)) = {i. is_due (saturating_add (bq_clock_ms q) d) (waiting q i)}"
    and "distinct (fst (tick_timeouts d q))"
proof -
  have ok: "timers_ok {} (bq_timers q) q" using assms by (simp add: blocked_inv_def)
  then have sorted: "sorted (bq_timers q)" by (simp add: timers_ok_def)
  note e = expire_timers_ok [of "bq_timers q" "q\<lparr>bq_clock_ms := saturating_add (bq_clock_ms q) d\<rparr>"]
  show list: "fst (tick_timeouts d q) =
      map timer_thread (filter (\<lambda>t. deadline_ms t \<le> saturating_add (bq_clock_ms q) d) (bq_timers q))"
    using e ok by (simp add: tick_timeouts_def sorted_takeWhile_deadline [OF sorted])
  show "blocked_inv (snd (tick_timeouts d q))" using e ok by (simp add: tick_timeouts_def)
  show "waiting (snd (tick_timeouts d q)) i =
      (if is_due (saturating_add (bq_clock_ms q) d) (waiting q i) then None else waiting q i)"
    using e ok by (simp add: tick_timeouts_def waiting_def)
  show "set (fst (tick_timeouts d q)) = {i. is_due (saturating_add (bq_clock_ms q) d) (waiting q i)}"
    unfolding list
    by (auto simp: is_due_def waiting_def timers_okD(1) [OF ok] dest: timers_okD(2) [OF ok] split: option.splits if_splits)
  have "inj_on timer_thread (set (bq_timers q))"
    using timers_okD(1) [OF ok] by (metis inj_onI option.inject)
  then show "distinct (fst (tick_timeouts d q))"
    using ok unfolding list by (auto simp: distinct_map timers_ok_def intro: inj_on_subset)
qed

interpretation bq: wait_queue block block_with_timeout unblock tick_timeouts waiting bq_clock_ms blocked_inv
proof unfold_locales
  fix s i ms b e
  show "bq_clock_ms (snd (block i s)) = bq_clock_ms s" "bq_clock_ms (snd (unblock i s)) = bq_clock_ms s"
    by (simp_all add: block_def unblock_def case_prod_beta remove_timer_simps)
  show "bq_clock_ms (snd (block_with_timeout i ms s)) = bq_clock_ms s"
    by (auto simp: block_with_timeout_def case_prod_beta Let_def remove_timer_simps split: option.splits)
  show "bq_clock_ms (snd (tick_timeouts ms s)) = saturating_add (bq_clock_ms s) ms"
    by (simp add: tick_timeouts_def expire_clock)
qed (simp_all add: block_ok block_with_timeout_ok unblock_ok tick_ok(2-5))

lemma blocked_remove_eq:
  "blocked_remove i q = (case unblock i q of ((was, had), q1) \<Rightarrow> (if was then Some had else None, q1))"
  by (simp add: blocked_remove_def unblock_def case_prod_beta)

text \<open>The states a client can bring the queue to.\<close>

inductive blocked_reachable :: "BlockedQueue \<Rightarrow> bool" where
  reach_new: "blocked_reachable new_blocked"
| reach_block: "blocked_reachable q \<Longrightarrow> blocked_reachable (snd (block i q))"
| reach_timeout: "blocked_reachable q \<Longrightarrow> blocked_reachable (snd (block_with_timeout i ms q))"
| reach_unblock: "blocked_reachable q \<Longrightarrow> blocked_reachable (snd (unblock i q))"
| reach_remove: "blocked_reachable q \<Longrightarrow> blocked_reachable (snd (blocked_remove i q))"
| reach_tick: "blocked_reachable q \<Longrightarrow> blocked_reachable (snd (tick_timeouts d q))"

lemma blocked_reachable_inv: "blocked_reachable q \<Longrightarrow> blocked_inv q"
  by (induction rule: blocked_reachable.induct)
    (auto simp: blocked_inv_new block_ok block_with_timeout_ok unblock_ok tick_ok blocked_remove_eq split: prod.splits,
     metis snd_conv unblock_ok(1))

lemma tick_wakes_exactly_due_parts:
  assumes "blocked_reachable q"
  shows "set (fst (tick_timeouts d q)) = {i. is_due (saturating_add (bq_clock_ms q) d) (waiting q i)}"
    and "distinct (fst (tick_timeouts d q))"
    and "sorted (map (\<lambda>i. the (the (waiting q i))) (fst (tick_timeouts d q)))"
    and "waiting (snd (tick_timeouts d q)) i =
      (if is_due (saturating_add (bq_clock_ms q) d) (waiting q i) then None else waiting q i)"
proof -
  note inv = blocked_reachable_inv [OF assms]
  show "set (fst (tick_timeouts d q)) = {i. is_due (saturating_add (bq_clock_ms q) d) (waiting q i)}"
    "distinct (fst (tick_timeouts d q))"
    "waiting (snd (tick_timeouts d q)) i =
      (if is_due (saturating_add (bq_clock_ms q) d) (waiting q i) then None else waiting q i)"
    by (rule tick_ok [OF inv])+
  have ok: "timers_ok {} (bq_timers q) q" using inv by (simp add: blocked_inv_def)
  have "map (\<lambda>i. the (the (waiting q i))) (fst (tick_timeouts d q)) =
      map deadline_ms (filter (\<lambda>t. deadline_ms t \<le> saturating_add (bq_clock_ms q) d) (bq_timers q))"
    using timers_okD(1) [OF ok] timers_okD(2) [OF ok timers_okD(1) [OF ok]]
    by (simp add: tick_ok(1) [OF inv] waiting_def)
  moreover have "sorted (map deadline_ms (bq_timers q))"
    using ok by (auto simp: timers_ok_def sorted_map intro: sorted_wrt_mono_rel [of _ "(\<le>)"] timer_le_deadline)
  ultimately show "sorted (map (\<lambda>i. the (the (waiting q i))) (fst (tick_timeouts d q)))"
    by (simp add: sorted_filter)
qed

text \<open>
  C20 (a tick wakes exactly the threads whose time has come).  In every reachable state a tick returns
  each blocked thread whose deadline is not after the new time once, and no other, in the order of
  their deadlines, and leaves all other threads blocked with the deadlines they had.
\<close>

theorem tick_wakes_exactly_due:
  assumes "blocked_reachable q"
  shows "set (fst (tick_timeouts d q)) = {i. is_due (saturating_add (bq_clock_ms q) d) (waiting q i)} \<and>
    distinct (fst (tick_timeouts d q)) \<and>
    sorted (map (\<lambda>i. the (the (waiting q i))) (fst (tick_timeouts d q))) \<and>
    (waiting (snd (tick_timeouts d q)) i = (if is_due (saturating_add (bq_clock_ms q) d) (waiting q i) then None else waiting q i))"
  using tick_wakes_exactly_due_parts [OF assms] by blast

definition three_sleepers :: BlockedQueue where
  "three_sleepers = snd (block 9 (snd (block_with_timeout 7 30 (snd (block_with_timeout 8 20 new_blocked)))))"

lemma three_sleepers_waiting:
  "bq_clock_ms three_sleepers = 0" "waiting three_sleepers = [8 \<mapsto> Some 20, 7 \<mapsto> Some 30, 9 \<mapsto> None]"
  by (simp_all add: three_sleepers_def block_def block_with_timeout_def remove_timer_def new_blocked_def
      new_id_manager_def try_allocate_def Let_def saturating_add_def checked_add_def waiting_def fun_eq_iff)

theorem tick_wakes_exactly_due_witness: "set (fst (tick_timeouts 25 three_sleepers)) = {8}"
proof -
  have "blocked_reachable three_sleepers"
    unfolding three_sleepers_def by (intro blocked_reachable.intros)
  from tick_wakes_exactly_due [OF this, of 25]
  have "set (fst (tick_timeouts 25 three_sleepers)) = {i. is_due (saturating_add (bq_clock_ms three_sleepers) 25) (waiting three_sleepers i)}"
    by blast
  then show ?thesis
    by (auto simp: three_sleepers_waiting is_due_def saturating_add_def split: if_splits)
qed

text \<open>
  A timeout fires, and not early.  A thread blocked with a timeout is returned by the ticks that
  follow if and only if they bring the clock to its deadline, and then exactly once.
\<close>

lemma timeout_fires:
  assumes "blocked_reachable q" and "block_with_timeout i ms q = (Inr b, q1)" and "ds \<noteq> []"
  shows "count_list (concat (fst (wait_queue.ticks tick_timeouts q1 ds))) i =
    (if saturating_add (bq_clock_ms q) ms \<le> clock_after (bq_clock_ms q) ds then 1 else 0)"
proof -
  note inv = blocked_reachable_inv [OF assms(1)]
  have inv1: "blocked_inv q1" using block_with_timeout_ok(1) [OF inv, of i ms] assms(2) by simp
  have w: "waiting q1 i = Some (Some (saturating_add (bq_clock_ms q) ms))"
    using block_with_timeout_ok(2) [OF inv, of i ms b] assms(2) by simp
  have now: "bq_clock_ms q1 = bq_clock_ms q" using bq.now_blk_timeout [of i ms q] assms(2) by simp
  note t = bq.ticks_wake [OF inv1, of ds]
  then have "i \<in> set (concat (fst (wait_queue.ticks tick_timeouts q1 ds))) \<longleftrightarrow>
      saturating_add (bq_clock_ms q) ms \<le> clock_after (bq_clock_ms q) ds"
    using assms(3) by (simp add: w now is_due_def)
  moreover have "count_list xs i = (if i \<in> set xs then 1 else 0)" if "distinct xs" for xs
    using that by (induction xs) auto
  ultimately show ?thesis using t by simp
qed

lemma block_with_timeout_error_parts:
  assumes "blocked_reachable q"
  shows "(\<exists>e. fst (block_with_timeout i ms q) = Inl e) \<longleftrightarrow> {1..} \<subseteq> timer_id ` ran (bq_active_timers q)"
    and "fst (block_with_timeout i ms q) = Inl e \<Longrightarrow> failure_kind e = IdSpaceExhausted \<and> snd (block_with_timeout i ms q) = q"
proof -
  note inv = blocked_reachable_inv [OF assms]
  then have ids: "id_manager_inv 1 (bq_timer_ids q)" and act: "active_ids (bq_timer_ids q) = timer_id ` ran (bq_active_timers q)"
    by (simp_all add: blocked_inv_def timers_ok_def)
  obtain r m where a: "try_allocate (bq_timer_ids q) = (r, m)" by fastforce
  show "(\<exists>e. fst (block_with_timeout i ms q) = Inl e) \<longleftrightarrow> {1..} \<subseteq> timer_id ` ran (bq_active_timers q)"
    using try_allocate_None [OF ids, of m] try_allocate_Some [OF ids, of _ m] a act
    by (cases r) (auto simp: block_with_timeout_def Let_def split: prod.splits)
  show "fst (block_with_timeout i ms q) = Inl e \<Longrightarrow> failure_kind e = IdSpaceExhausted \<and> snd (block_with_timeout i ms q) = q"
    using block_with_timeout_ok(3) [OF inv, of i ms e] a
    by (cases r) (auto simp: block_with_timeout_def Let_def split: prod.splits)
qed

text \<open>
  Timers run out only when all are in use.  Blocking with a timeout fails exactly when every timer
  identifier from 1 on is the timer of some blocked thread, with the kind \<open>IdSpaceExhausted\<close>, and
  then changes nothing: the thread is not blocked and keeps an earlier timer.
\<close>

lemma block_with_timeout_error:
  assumes "blocked_reachable q"
  shows "((\<exists>e. fst (block_with_timeout i ms q) = Inl e) \<longleftrightarrow> {1..} \<subseteq> timer_id ` ran (bq_active_timers q)) \<and>
    (fst (block_with_timeout i ms q) = Inl e \<longrightarrow> failure_kind e = IdSpaceExhausted \<and> snd (block_with_timeout i ms q) = q)"
  using block_with_timeout_error_parts [OF assms] by blast

end
