(* ===== verification/Thread_Registry.thy ===== *)
theory Thread_Registry
  imports Execution_Failure Vm_Thread
begin

text \<open>
  The registry of threads, \<^verbatim>\<open>galfus-runtime/src/registry.rs\<close>: control blocks by identifier, unique
  keys, and the bounded list of exited threads whose result can still be read.

  Sharing.  A thread's quota is one object behind an \<open>Arc\<close> that the control block and the VM state
  both hold.  While the VM state is in the control block its copy is the current one, and
  \<open>tcb_quota\<close> keeps the last value the registry saw; a thread that is taken out carries the current
  value with it.  A VM state that the Rust code overwrites, removes or drops on return runs its
  destructor; the operations return such states in a list, so that the owner of the shared
  global quota can apply the effect of the destructor to it.
\<close>

section \<open>State\<close>

datatype ThreadState = ThreadCreated | ThreadRunning | ThreadExited "ExecutionFailure + u32"

fun state_is_running :: "ThreadState \<Rightarrow> bool" where
  "state_is_running ThreadRunning = True"
| "state_is_running _ = False"

fun state_is_exited :: "ThreadState \<Rightarrow> bool" where
  "state_is_exited (ThreadExited _) = True"
| "state_is_exited _ = False"

fun exit_reason :: "ThreadState \<Rightarrow> (ExecutionFailure + u32) option" where
  "exit_reason (ThreadExited result) = Some result"
| "exit_reason ThreadCreated = None"
| "exit_reason ThreadRunning = None"

record MailboxMessage =
  msg_sender_id :: ThreadId
  msg_data :: "u8 list"

record ThreadControlBlock =
  tcb_id :: ThreadId
  tcb_state :: ThreadState
  tcb_mailbox :: "MailboxMessage list option"
  tcb_quota :: ThreadQuota
  tcb_key :: "string option"
  tcb_vm_state :: "VmThreadState option"

record ThreadRegistry =
  tr_tcbs :: "ThreadId \<rightharpoonup> ThreadControlBlock"
  tr_keys :: "string \<rightharpoonup> ThreadId"
  tr_exited_order :: "ThreadId list"
  tr_active_count :: usize

definition max_exited_tombstones :: nat where
  "max_exited_tombstones = 1024"

definition new_registry :: ThreadRegistry where
  "new_registry = \<lparr>tr_tcbs = Map.empty, tr_keys = Map.empty, tr_exited_order = [], tr_active_count = 0\<rparr>"

section \<open>Operations\<close>

definition vm_states :: "ThreadControlBlock option \<Rightarrow> VmThreadState list" where
  "vm_states tcb = (case tcb of None \<Rightarrow> [] | Some b \<Rightarrow> (case tcb_vm_state b of None \<Rightarrow> [] | Some t \<Rightarrow> [t]))"

definition new_tcb :: "ThreadId \<Rightarrow> VmThreadState \<Rightarrow> string option \<Rightarrow> ThreadControlBlock" where
  "new_tcb i thread key = \<lparr>tcb_id = i, tcb_state = ThreadCreated, tcb_mailbox = Some [], tcb_quota = thread_quota thread,
     tcb_key = key, tcb_vm_state = Some thread\<rparr>"

text \<open>\<open>park\<close>, also called \<open>register\<close>; a control block with the same identifier is overwritten.\<close>

definition park :: "ThreadId \<Rightarrow> VmThreadState \<Rightarrow> string option \<Rightarrow> ThreadRegistry \<Rightarrow>
    (ExecutionFailure + unit) \<times> VmThreadState list \<times> ThreadRegistry" where
  "park i thread key r =
    (case key of
       Some k \<Rightarrow>
         if tr_keys r k \<noteq> None
         then (Inl (new_failure DuplicateThreadKey (''thread key '' @ [CHR 0x27] @ k @ [CHR 0x27] @ '' is already registered'')), [thread], r)
         else (Inr (), vm_states (tr_tcbs r i),
               r\<lparr>tr_keys := (tr_keys r)(k \<mapsto> i), tr_tcbs := (tr_tcbs r)(i \<mapsto> new_tcb i thread key),
                 tr_active_count := tr_active_count r + 1\<rparr>)
     | None \<Rightarrow> (Inr (), vm_states (tr_tcbs r i),
               r\<lparr>tr_tcbs := (tr_tcbs r)(i \<mapsto> new_tcb i thread key), tr_active_count := tr_active_count r + 1\<rparr>))"

definition key_is_available :: "string option \<Rightarrow> ThreadRegistry \<Rightarrow> bool" where
  "key_is_available key r = (case key of None \<Rightarrow> True | Some k \<Rightarrow> tr_keys r k = None)"

definition get_mailbox :: "ThreadId \<Rightarrow> ThreadRegistry \<Rightarrow> MailboxMessage list option" where
  "get_mailbox i r = Option.bind (tr_tcbs r i) tcb_mailbox"

definition get_thread_quota :: "ThreadId \<Rightarrow> ThreadRegistry \<Rightarrow> ThreadQuota option" where
  "get_thread_quota i r =
    map_option (\<lambda>b. case tcb_vm_state b of Some t \<Rightarrow> thread_quota t | None \<Rightarrow> tcb_quota b) (tr_tcbs r i)"

definition thread_state :: "ThreadId \<Rightarrow> ThreadRegistry \<Rightarrow> ThreadState option" where
  "thread_state i r = map_option tcb_state (tr_tcbs r i)"

definition get_exit_code :: "ThreadId \<Rightarrow> ThreadRegistry \<Rightarrow> u32 option" where
  "get_exit_code i r =
    (case Option.bind (thread_state i r) exit_reason of Some (Inr code) \<Rightarrow> Some code | _ \<Rightarrow> None)"

text \<open>The pairs of \<open>debug_states\<close>, which the source lists in the order of the hash map.\<close>

definition debug_states :: "ThreadRegistry \<Rightarrow> (ThreadId \<times> ThreadState) set" where
  "debug_states r = {(i, s). thread_state i r = Some s}"

definition lookup_key :: "string \<Rightarrow> ThreadRegistry \<Rightarrow> ThreadId option" where
  "lookup_key k r = tr_keys r k"

definition take_state :: "ThreadId \<Rightarrow> ThreadRegistry \<Rightarrow> VmThreadState option \<times> ThreadRegistry" where
  "take_state i r =
    (case tr_tcbs r i of
       None \<Rightarrow> (None, r)
     | Some b \<Rightarrow>
         (case tcb_vm_state b of
            None \<Rightarrow> (None, r)
          | Some t \<Rightarrow> (Some t, r\<lparr>tr_tcbs := (tr_tcbs r)(i \<mapsto> b\<lparr>tcb_vm_state := None, tcb_quota := thread_quota t\<rparr>)\<rparr>)))"

definition take_created :: "ThreadId \<Rightarrow> ThreadRegistry \<Rightarrow> VmThreadState option \<times> ThreadRegistry" where
  "take_created i r = (if thread_state i r = Some ThreadCreated then take_state i r else (None, r))"

definition registry_contains :: "ThreadId \<Rightarrow> ThreadRegistry \<Rightarrow> bool" where
  "registry_contains i r = (tr_tcbs r i \<noteq> None)"

definition is_running :: "ThreadId \<Rightarrow> ThreadRegistry \<Rightarrow> bool" where
  "is_running i r = (case thread_state i r of None \<Rightarrow> False | Some s \<Rightarrow> state_is_running s)"

definition is_exited :: "ThreadId \<Rightarrow> ThreadRegistry \<Rightarrow> bool" where
  "is_exited i r = (case thread_state i r of None \<Rightarrow> False | Some s \<Rightarrow> state_is_exited s)"

text \<open>The shared global quota is passed in and out.\<close>

definition registry_mark_spawned :: "ThreadId \<Rightarrow> GlobalQuota \<Rightarrow> ThreadRegistry \<Rightarrow>
    (ExecutionFailureKind + unit) \<times> GlobalQuota \<times> ThreadRegistry" where
  "registry_mark_spawned i gq r =
    (case tr_tcbs r i of
       None \<Rightarrow> (Inr (), gq, r)
     | Some b \<Rightarrow>
         (case tcb_vm_state b of
            None \<Rightarrow> (Inr (), gq, r)
          | Some t \<Rightarrow>
              (case mark_spawned (t\<lparr>th_global_quota := gq\<rparr>) of
                 (res, t') \<Rightarrow> (res, th_global_quota t', r\<lparr>tr_tcbs := (tr_tcbs r)(i \<mapsto> b\<lparr>tcb_vm_state := Some t'\<rparr>)\<rparr>))))"

definition mark_running :: "ThreadId \<Rightarrow> ThreadRegistry \<Rightarrow> bool \<times> ThreadRegistry" where
  "mark_running i r =
    (case tr_tcbs r i of
       None \<Rightarrow> (False, r)
     | Some b \<Rightarrow>
         if state_is_exited (tcb_state b) then (False, r)
         else (True, r\<lparr>tr_tcbs := (tr_tcbs r)(i \<mapsto> b\<lparr>tcb_state := ThreadRunning\<rparr>)\<rparr>))"

text \<open>The loop that forgets the oldest exited threads.\<close>

definition evict_thread :: "ThreadId \<Rightarrow> ThreadRegistry \<Rightarrow> ThreadRegistry" where
  "evict_thread i r =
    (case tr_tcbs r i of
       None \<Rightarrow> r
     | Some b \<Rightarrow>
         r\<lparr>tr_tcbs := (tr_tcbs r)(i := None),
           tr_keys := (case tcb_key b of None \<Rightarrow> tr_keys r | Some k \<Rightarrow> (tr_keys r)(k := None))\<rparr>)"

fun expire_tombstones :: "ThreadId list \<Rightarrow> ThreadRegistry \<Rightarrow> ThreadRegistry" where
  "expire_tombstones [] r = r\<lparr>tr_exited_order := []\<rparr>"
| "expire_tombstones (i # is) r =
    (if length (i # is) > max_exited_tombstones then expire_tombstones is (evict_thread i r)
     else r\<lparr>tr_exited_order := i # is\<rparr>)"

definition drain_mailbox :: "ThreadControlBlock \<Rightarrow> MailboxMessage list" where
  "drain_mailbox b = (case tcb_mailbox b of None \<Rightarrow> [] | Some ms \<Rightarrow> ms)"

definition message_bytes :: "MailboxMessage list \<Rightarrow> usize" where
  "message_bytes ms = of_nat (sum_list (map (\<lambda>m. length (msg_data m)) ms))"

definition release_drained :: "MailboxMessage list \<Rightarrow> ThreadQuota \<Rightarrow> ThreadQuota" where
  "release_drained ms q = release_mailbox_bytes (release_mailbox_messages q (of_nat (length ms))) (message_bytes ms)"

text \<open>
  The messages that are still in the mailbox are released from the quota of the VM state, if it is
  here; then the VM state is dropped, which releases its call depth.
\<close>

definition exited_tcb :: "ExecutionFailure + u32 \<Rightarrow> ThreadControlBlock \<Rightarrow> ThreadControlBlock" where
  "exited_tcb result b =
     b\<lparr>tcb_quota := (case tcb_vm_state b of
                      None \<Rightarrow> tcb_quota b
                    | Some t \<Rightarrow> release_call_depth (release_drained (drain_mailbox b) (thread_quota t))
                                 (of_nat (length (th_call_stack t)))),
       tcb_vm_state := None, tcb_mailbox := None, tcb_state := ThreadExited result\<rparr>"

definition mark_exited :: "ThreadId \<Rightarrow> ExecutionFailure + u32 \<Rightarrow> ThreadRegistry \<Rightarrow> bool \<times> VmThreadState list \<times> ThreadRegistry" where
  "mark_exited i result r =
    (case tr_tcbs r i of
       None \<Rightarrow> (False, [], r)
     | Some b \<Rightarrow>
         if state_is_exited (tcb_state b) then (False, [], r)
         else
           (True, vm_states (Some b),
            expire_tombstones (tr_exited_order r @ [i])
              (r\<lparr>tr_tcbs := (tr_tcbs r)(i \<mapsto> exited_tcb result b), tr_active_count := tr_active_count r - 1\<rparr>)))"

definition restore_vm_state :: "ThreadId \<Rightarrow> VmThreadState \<Rightarrow> ThreadRegistry \<Rightarrow> VmThreadState list \<times> ThreadRegistry" where
  "restore_vm_state i t r =
    (case tr_tcbs r i of
       None \<Rightarrow> ([t], r)
     | Some b \<Rightarrow> (vm_states (Some b), r\<lparr>tr_tcbs := (tr_tcbs r)(i \<mapsto> b\<lparr>tcb_vm_state := Some t\<rparr>)\<rparr>))"

definition registry_cancel :: "ThreadId \<Rightarrow> ThreadRegistry \<Rightarrow> bool \<times> VmThreadState list \<times> ThreadRegistry" where
  "registry_cancel i r =
    (let r1 = r\<lparr>tr_exited_order := removeAll i (tr_exited_order r)\<rparr> in
     case tr_tcbs r i of
       None \<Rightarrow> (False, [], r1)
     | Some b \<Rightarrow>
         (True, vm_states (Some b),
          r1\<lparr>tr_tcbs := (tr_tcbs r)(i := None),
             tr_active_count := (if state_is_exited (tcb_state b) then tr_active_count r else tr_active_count r - 1),
             tr_keys := (case tcb_key b of None \<Rightarrow> tr_keys r | Some k \<Rightarrow> (tr_keys r)(k := None))\<rparr>))"

section \<open>Consistency\<close>

definition exited_ids :: "ThreadRegistry \<Rightarrow> ThreadId set" where
  "exited_ids r = {i. is_exited i r}"

definition active_threads :: "ThreadRegistry \<Rightarrow> ThreadId set" where
  "active_threads r = {i. registry_contains i r \<and> \<not> is_exited i r}"

text \<open>
  The invariant, for a given list of exited threads: it lists them all, once; keys and control
  blocks agree; the counter is the number of threads that have not exited.
\<close>

definition registry_inv_at :: "ThreadId list \<Rightarrow> ThreadRegistry \<Rightarrow> bool" where
  "registry_inv_at order r \<longleftrightarrow> distinct order \<and> set order = exited_ids r \<and>
     (\<forall>k i. tr_keys r k = Some i \<longleftrightarrow> (\<exists>b. tr_tcbs r i = Some b \<and> tcb_key b = Some k)) \<and>
     tr_active_count r = of_nat (card (active_threads r))"

definition registry_inv :: "ThreadRegistry \<Rightarrow> bool" where
  "registry_inv r \<longleftrightarrow> registry_inv_at (tr_exited_order r) r \<and> length (tr_exited_order r) \<le> max_exited_tombstones"

lemma registry_inv_new: "registry_inv new_registry"
  by (simp add: registry_inv_def registry_inv_at_def new_registry_def exited_ids_def active_threads_def
      is_exited_def registry_contains_def thread_state_def)

lemma status_upd [simp]:
  "is_exited i (r\<lparr>tr_tcbs := m\<rparr>) = (case m i of None \<Rightarrow> False | Some b \<Rightarrow> state_is_exited (tcb_state b))"
  "is_exited i (r\<lparr>tr_keys := ks\<rparr>) = is_exited i r" "is_exited i (r\<lparr>tr_exited_order := is\<rparr>) = is_exited i r"
  "is_exited i (r\<lparr>tr_active_count := n\<rparr>) = is_exited i r"
  "registry_contains i (r\<lparr>tr_tcbs := m\<rparr>) = (m i \<noteq> None)"
  "registry_contains i (r\<lparr>tr_keys := ks\<rparr>) = registry_contains i r"
  "registry_contains i (r\<lparr>tr_exited_order := is\<rparr>) = registry_contains i r"
  "registry_contains i (r\<lparr>tr_active_count := n\<rparr>) = registry_contains i r"
  by (auto simp: is_exited_def thread_state_def registry_contains_def split: option.splits)

lemma ids_upd [simp]:
  "active_threads (r\<lparr>tr_active_count := n\<rparr>) = active_threads r" "exited_ids (r\<lparr>tr_active_count := n\<rparr>) = exited_ids r"
  "active_threads (r\<lparr>tr_keys := ks\<rparr>) = active_threads r" "exited_ids (r\<lparr>tr_keys := ks\<rparr>) = exited_ids r"
  "active_threads (r\<lparr>tr_exited_order := is\<rparr>) = active_threads r" "exited_ids (r\<lparr>tr_exited_order := is\<rparr>) = exited_ids r"
  by (simp_all add: active_threads_def exited_ids_def)

lemma registry_inv_at_order [simp]: "registry_inv_at order (r\<lparr>tr_exited_order := is\<rparr>) = registry_inv_at order r"
  by (simp add: registry_inv_at_def)

lemma is_exited_tcb: "tr_tcbs r i = Some b \<Longrightarrow> is_exited i r = state_is_exited (tcb_state b)"
  "tr_tcbs r i = None \<Longrightarrow> \<not> is_exited i r"
  by (simp_all add: is_exited_def thread_state_def)

text \<open>Replacing a control block by one with the same key and status keeps everything.\<close>

lemma registry_inv_at_same:
  assumes "registry_inv_at order r" and "tr_tcbs r i = Some b" and "tcb_key b' = tcb_key b"
    and "state_is_exited (tcb_state b') = state_is_exited (tcb_state b)"
  shows "registry_inv_at order (r\<lparr>tr_tcbs := (tr_tcbs r)(i \<mapsto> b')\<rparr>)"
proof -
  have "is_exited j (r\<lparr>tr_tcbs := (tr_tcbs r)(i \<mapsto> b')\<rparr>) = is_exited j r" for j
    using assms is_exited_tcb [of r] by (cases "tr_tcbs r j") auto
  moreover have "registry_contains j (r\<lparr>tr_tcbs := (tr_tcbs r)(i \<mapsto> b')\<rparr>) = registry_contains j r" for j
    using assms(2) by (auto simp: registry_contains_def)
  moreover have "(\<exists>c. ((tr_tcbs r)(i \<mapsto> b')) j = Some c \<and> tcb_key c = Some k) \<longleftrightarrow> (\<exists>c. tr_tcbs r j = Some c \<and> tcb_key c = Some k)" for j k
    using assms by auto
  ultimately show ?thesis
    using assms(1) by (simp add: registry_inv_at_def exited_ids_def active_threads_def del: status_upd)
qed

lemma evict_thread_inv:
  assumes "registry_inv_at order r"
  shows "registry_inv_at (removeAll i order)
    ((evict_thread i r)\<lparr>tr_active_count :=
       (if i \<in> active_threads r then tr_active_count r - 1 else tr_active_count r)\<rparr>)"
proof (cases "tr_tcbs r i")
  case None
  then have "i \<notin> set order" "i \<notin> active_threads r"
    using assms is_exited_tcb(2) [OF None] by (auto simp: registry_inv_at_def exited_ids_def active_threads_def registry_contains_def)
  then show ?thesis using assms None by (simp add: evict_thread_def removeAll_id)
next
  case (Some b)
  let ?r = "evict_thread i r"
  have ex: "is_exited j ?r \<longleftrightarrow> j \<noteq> i \<and> is_exited j r" for j
    by (cases "j = i") (simp_all add: evict_thread_def Some is_exited_def thread_state_def)
  have co: "registry_contains j ?r \<longleftrightarrow> j \<noteq> i \<and> registry_contains j r" for j
    by (simp add: evict_thread_def Some registry_contains_def)
  have act: "active_threads ?r = active_threads r - {i}"
    using ex co by (auto simp: active_threads_def)
  have keys: "tr_keys ?r k = Some j \<longleftrightarrow> (\<exists>c. tr_tcbs ?r j = Some c \<and> tcb_key c = Some k)" for k j
  proof -
    have k: "\<And>k j. tr_keys r k = Some j \<longleftrightarrow> (\<exists>b. tr_tcbs r j = Some b \<and> tcb_key b = Some k)"
      using assms by (simp add: registry_inv_at_def)
    show ?thesis
      using k [of k j] k [of k i] Some by (cases "tcb_key b") (auto simp: evict_thread_def)
  qed
  have fin: "finite (active_threads r)" by (rule finite)
  have "(of_nat (card (active_threads r - {i})) :: usize) =
      (if i \<in> active_threads r then of_nat (card (active_threads r)) - 1 else of_nat (card (active_threads r)))"
  proof (cases "i \<in> active_threads r")
    case True
    then have "card (active_threads r) = Suc (card (active_threads r - {i}))" by (rule card.remove [OF fin])
    with True show ?thesis by simp
  qed simp
  moreover have "exited_ids ?r = exited_ids r - {i}" using ex by (auto simp: exited_ids_def)
  ultimately show ?thesis
    using assms keys by (simp add: registry_inv_at_def act distinct_removeAll)
qed

lemma expire_inv:
  assumes "registry_inv_at order r" and "\<forall>i \<in> set order. i \<notin> active_threads r"
  shows "registry_inv (expire_tombstones order r)"
  using assms
proof (induction order r rule: expire_tombstones.induct)
  case (1 r)
  then show ?case by (simp add: registry_inv_def registry_inv_at_def active_threads_def exited_ids_def)
next
  case (2 i "is" r)
  show ?case
  proof (cases "length (i # is) > max_exited_tombstones")
    case True
    have "i \<notin> set is" using "2.prems"(1) by (simp add: registry_inv_at_def)
    moreover have "(evict_thread i r)\<lparr>tr_active_count := tr_active_count r\<rparr> = evict_thread i r"
      by (simp add: evict_thread_def split: option.splits)
    ultimately have "registry_inv_at is (evict_thread i r)"
      using evict_thread_inv [OF "2.prems"(1), of i] "2.prems"(2) by (simp add: removeAll_id)
    moreover have "\<forall>j \<in> set is. j \<notin> active_threads (evict_thread i r)"
      using calculation by (auto simp: registry_inv_at_def active_threads_def exited_ids_def)
    ultimately show ?thesis using "2.IH" True by simp
  next
    case False
    with "2.prems" show ?thesis by (simp add: registry_inv_def registry_inv_at_def active_threads_def exited_ids_def)
  qed
qed

lemma evict_tcbs: "tr_tcbs (evict_thread i r) = (tr_tcbs r)(i := None)"
  by (auto simp: evict_thread_def split: option.splits)

lemma expire_tcbs:
  "tr_tcbs (expire_tombstones order r) i =
    (if i \<in> set (take (length order - max_exited_tombstones) order) then None else tr_tcbs r i)"
  by (induction order r rule: expire_tombstones.induct) (auto simp: evict_tcbs Suc_diff_le)

lemma expire_order: "tr_exited_order (expire_tombstones order r) = drop (length order - max_exited_tombstones) order"
  by (induction order r rule: expire_tombstones.induct) (auto simp: Suc_diff_le)

section \<open>Histories\<close>

datatype registry_op =
    Park ThreadId VmThreadState "string option"
  | Take ThreadId
  | TakeCreated ThreadId
  | MarkSpawned ThreadId GlobalQuota
  | MarkRunning ThreadId
  | MarkExited ThreadId "ExecutionFailure + u32"
  | Restore ThreadId VmThreadState
  | Cancel ThreadId

fun registry_apply :: "ThreadRegistry \<Rightarrow> registry_op \<Rightarrow> ThreadRegistry" where
  "registry_apply r (Park i t key) = snd (snd (park i t key r))"
| "registry_apply r (Take i) = snd (take_state i r)"
| "registry_apply r (TakeCreated i) = snd (take_created i r)"
| "registry_apply r (MarkSpawned i gq) = snd (snd (registry_mark_spawned i gq r))"
| "registry_apply r (MarkRunning i) = snd (mark_running i r)"
| "registry_apply r (MarkExited i result) = snd (snd (mark_exited i result r))"
| "registry_apply r (Restore i t) = snd (restore_vm_state i t r)"
| "registry_apply r (Cancel i) = snd (snd (registry_cancel i r))"

text \<open>The kernel parks a thread under an identifier that is not registered.\<close>

fun op_fresh :: "ThreadRegistry \<Rightarrow> registry_op \<Rightarrow> bool" where
  "op_fresh r (Park i t key) = (tr_tcbs r i = None)"
| "op_fresh r _ = True"

inductive registry_steps :: "ThreadRegistry \<Rightarrow> registry_op list \<Rightarrow> ThreadRegistry \<Rightarrow> bool" where
  steps_none: "registry_steps r [] r"
| steps_op: "op_fresh r op \<Longrightarrow> registry_steps (registry_apply r op) ops r' \<Longrightarrow> registry_steps r (op # ops) r'"

inductive_simps registry_steps_simps: "registry_steps r [] r'" "registry_steps r (op # ops) r'"

lemma registry_inv_same:
  assumes "registry_inv r" and "tr_tcbs r i = Some b" and "tcb_key b' = tcb_key b"
    and "state_is_exited (tcb_state b') = state_is_exited (tcb_state b)"
  shows "registry_inv (r\<lparr>tr_tcbs := (tr_tcbs r)(i \<mapsto> b')\<rparr>)"
  using assms registry_inv_at_same [of "tr_exited_order r" r i b b'] by (simp add: registry_inv_def)

lemma park_inv:
  assumes "registry_inv r" and "tr_tcbs r i = None"
  shows "registry_inv (snd (snd (park i t key r)))"
proof (cases "key_is_available key r")
  case False
  with assms(1) show ?thesis by (auto simp: key_is_available_def park_def split: option.splits)
next
  case True
  let ?r = "r\<lparr>tr_tcbs := (tr_tcbs r)(i \<mapsto> new_tcb i t key)\<rparr>"
  have r': "snd (snd (park i t key r)) = ?r\<lparr>tr_active_count := tr_active_count r + 1,
      tr_keys := (case key of None \<Rightarrow> tr_keys r | Some k \<Rightarrow> (tr_keys r)(k \<mapsto> i))\<rparr>"
    using True by (auto simp: park_def key_is_available_def split: option.splits)
  have "is_exited j ?r = is_exited j r" for j
    using assms(2) is_exited_tcb [of r] by (cases "tr_tcbs r j") (auto simp: new_tcb_def)
  then have ids: "exited_ids ?r = exited_ids r" "active_threads ?r = insert i (active_threads r)"
    using is_exited_tcb(2) [OF assms(2)] by (auto simp: exited_ids_def active_threads_def registry_contains_def)
  have "i \<notin> active_threads r" using assms(2) by (simp add: active_threads_def registry_contains_def)
  then have "card (active_threads ?r) = Suc (card (active_threads r))" by (simp add: ids)
  moreover have "(case key of None \<Rightarrow> tr_keys r | Some k \<Rightarrow> (tr_keys r)(k \<mapsto> i)) k = Some j \<longleftrightarrow>
      (\<exists>b. ((tr_tcbs r)(i \<mapsto> new_tcb i t key)) j = Some b \<and> tcb_key b = Some k)" for k j
  proof -
    have "tr_keys r k = Some j \<longleftrightarrow> (\<exists>b. tr_tcbs r j = Some b \<and> tcb_key b = Some k)"
      using assms(1) by (simp add: registry_inv_def registry_inv_at_def)
    then show ?thesis
      using True assms(2) by (cases key) (auto simp: new_tcb_def key_is_available_def)
  qed
  ultimately show ?thesis
    using assms(1) unfolding r' registry_inv_def registry_inv_at_def by (simp add: ids)
qed

lemma take_state_inv: "registry_inv r \<Longrightarrow> registry_inv (snd (take_state i r))"
  by (auto simp: take_state_def split: option.splits intro!: registry_inv_same)

lemma mark_exited_inv:
  assumes "registry_inv r"
  shows "registry_inv (snd (snd (mark_exited i result r)))"
proof (cases "i \<in> active_threads r")
  case False
  then have "snd (snd (mark_exited i result r)) = r"
    by (auto simp: mark_exited_def active_threads_def registry_contains_def is_exited_tcb split: option.splits)
  with assms show ?thesis by simp
next
  case True
  then obtain b where b: "tr_tcbs r i = Some b" "\<not> state_is_exited (tcb_state b)"
    by (auto simp: active_threads_def registry_contains_def is_exited_tcb)
  let ?b = "exited_tcb result b"
  have b': "state_is_exited (tcb_state ?b)" "tcb_key ?b = tcb_key b"
    by (simp_all add: exited_tcb_def)
  have r': "snd (snd (mark_exited i result r)) = expire_tombstones (tr_exited_order r @ [i])
      (r\<lparr>tr_tcbs := (tr_tcbs r)(i \<mapsto> ?b), tr_active_count := tr_active_count r - 1\<rparr>)"
    by (simp add: mark_exited_def b)
  let ?r = "r\<lparr>tr_tcbs := (tr_tcbs r)(i \<mapsto> ?b)\<rparr>"
  have "is_exited j ?r \<longleftrightarrow> j = i \<or> is_exited j r" for j
    using b'(1) is_exited_tcb [of r] by (cases "tr_tcbs r j") auto
  then have ids: "exited_ids ?r = insert i (exited_ids r)" "active_threads ?r = active_threads r - {i}"
    by (auto simp: exited_ids_def active_threads_def registry_contains_def)
  have "card (active_threads r) = Suc (card (active_threads r - {i}))" using True by (intro card.remove) simp_all
  moreover have "i \<notin> exited_ids r" using True by (simp add: active_threads_def exited_ids_def)
  moreover have "(\<exists>c. ((tr_tcbs r)(i \<mapsto> ?b)) j = Some c \<and> tcb_key c = Some k) \<longleftrightarrow> (\<exists>c. tr_tcbs r j = Some c \<and> tcb_key c = Some k)" for j k
    using b(1) b'(2) by auto
  ultimately have "registry_inv_at (tr_exited_order r @ [i]) (?r\<lparr>tr_active_count := tr_active_count r - 1\<rparr>)"
    using assms by (simp add: registry_inv_def registry_inv_at_def ids)
  moreover have "\<forall>j \<in> set (tr_exited_order r @ [i]). j \<notin> active_threads (?r\<lparr>tr_active_count := tr_active_count r - 1\<rparr>)"
  proof -
    have "set (tr_exited_order r) = exited_ids r" using assms by (simp add: registry_inv_def registry_inv_at_def)
    moreover have "exited_ids r \<inter> active_threads r = {}" by (auto simp: exited_ids_def active_threads_def)
    ultimately show ?thesis by (auto simp: ids)
  qed
  ultimately show ?thesis unfolding r' by (rule expire_inv)
qed

lemma registry_cancel_inv:
  assumes "registry_inv r"
  shows "registry_inv (snd (snd (registry_cancel i r)))"
proof -
  have "snd (snd (registry_cancel i r)) = (evict_thread i r)\<lparr>tr_active_count :=
      (if i \<in> active_threads r then tr_active_count r - 1 else tr_active_count r),
      tr_exited_order := removeAll i (tr_exited_order r)\<rparr>"
    by (auto simp: registry_cancel_def evict_thread_def active_threads_def registry_contains_def is_exited_tcb split: option.splits)
  then show ?thesis
    using assms evict_thread_inv [of "tr_exited_order r" r i] length_removeAll_less_eq [of i "tr_exited_order r"]
    by (simp add: registry_inv_def del: length_removeAll_less_eq)
qed

lemma registry_apply_inv: "registry_inv r \<Longrightarrow> op_fresh r op \<Longrightarrow> registry_inv (registry_apply r op)"
  by (cases op)
    (auto simp: park_inv take_state_inv mark_exited_inv registry_cancel_inv take_created_def registry_mark_spawned_def
      mark_running_def restore_vm_state_def split: option.splits prod.splits intro!: registry_inv_same)

lemma registry_steps_inv: "registry_steps r ops r' \<Longrightarrow> registry_inv r \<Longrightarrow> registry_inv r'"
  by (induction rule: registry_steps.induct) (simp_all add: registry_apply_inv)

lemma registry_consistent_parts:
  assumes "registry_steps new_registry ops r"
  shows "unat (tr_active_count r) = card {i. registry_contains i r \<and> \<not> is_exited i r}"
    and "lookup_key k r = Some i \<longleftrightarrow> (\<exists>b. tr_tcbs r i = Some b \<and> tcb_key b = Some k)"
    and "distinct (tr_exited_order r)" and "set (tr_exited_order r) = {i. is_exited i r}"
    and "length (tr_exited_order r) \<le> 1024"
proof -
  have inv: "registry_inv r" by (rule registry_steps_inv [OF assms registry_inv_new])
  then have "tr_active_count r = of_nat (card (active_threads r))" by (simp add: registry_inv_def registry_inv_at_def)
  moreover have "card (active_threads r) < 2 ^ 64"
  proof -
    have "card (active_threads r) \<le> card (UNIV :: u32 set)" by (rule card_mono) simp_all
    also have "\<dots> < 2 ^ 64" by (simp add: card_word)
    finally show ?thesis .
  qed
  ultimately show "unat (tr_active_count r) = card {i. registry_contains i r \<and> \<not> is_exited i r}"
    by (simp add: unat_of_nat active_threads_def)
  show "lookup_key k r = Some i \<longleftrightarrow> (\<exists>b. tr_tcbs r i = Some b \<and> tcb_key b = Some k)"
    "distinct (tr_exited_order r)" "set (tr_exited_order r) = {i. is_exited i r}" "length (tr_exited_order r) \<le> 1024"
    using inv by (simp_all add: registry_inv_def registry_inv_at_def lookup_key_def exited_ids_def max_exited_tombstones_def)
qed

text \<open>
  C21 (the registry stays consistent).  After any history of operations in which threads are parked
  under unregistered identifiers, the number of active threads is exact, a key leads to a thread
  if and only if that thread is registered under it, and at most 1024 exited threads are kept, all
  of them in the list of exited threads, once.
\<close>

theorem registry_consistent:
  assumes "registry_steps new_registry ops r"
  shows "unat (tr_active_count r) = card {i. registry_contains i r \<and> \<not> is_exited i r} \<and>
    (lookup_key k r = Some i \<longleftrightarrow> (\<exists>b. tr_tcbs r i = Some b \<and> tcb_key b = Some k)) \<and>
    distinct (tr_exited_order r) \<and>
    set (tr_exited_order r) = {i. is_exited i r} \<and>
    length (tr_exited_order r) \<le> 1024"
  using registry_consistent_parts [OF assms] by blast

text \<open>How long the result of an exited thread stays: \<open>k\<close> threads exited after it.\<close>

definition exited_recently :: "nat \<Rightarrow> ThreadId \<Rightarrow> ExecutionFailure + u32 \<Rightarrow> ThreadRegistry \<Rightarrow> bool" where
  "exited_recently k i result r \<longleftrightarrow>
     thread_state i r = Some (ThreadExited result) \<and> (\<exists>us vs. tr_exited_order r = us @ i # vs \<and> i \<notin> set us \<and> length vs \<le> k)"

definition is_exit :: "registry_op \<Rightarrow> bool" where
  "is_exit op \<longleftrightarrow> (case op of MarkExited _ _ \<Rightarrow> True | _ \<Rightarrow> False)"

lemma exited_recently_keep:
  assumes "exited_recently k i result r" and "thread_state i r' = thread_state i r" and "tr_exited_order r' = tr_exited_order r"
  shows "exited_recently k i result r'"
  using assms by (simp add: exited_recently_def)

lemma exited_recently_exit:
  assumes "exited_recently k i result r" and "Suc k < max_exited_tombstones"
  shows "exited_recently (Suc k) i result (snd (snd (mark_exited j result' r)))"
proof -
  from assms obtain us vs where o: "tr_exited_order r = us @ i # vs" "i \<notin> set us" "length vs \<le> k"
    and st: "thread_state i r = Some (ThreadExited result)" by (auto simp: exited_recently_def)
  show ?thesis
  proof (cases "snd (snd (mark_exited j result' r)) = r")
    case True
    with o st show ?thesis by (simp add: exited_recently_def) (metis le_SucI)
  next
    case False
    then obtain b where b: "tr_tcbs r j = Some b" "\<not> state_is_exited (tcb_state b)"
      by (auto simp: mark_exited_def split: option.splits if_splits)
    with st have ij: "i \<noteq> j" by (auto simp: thread_state_def)
    let ?order = "tr_exited_order r @ [j]"
    let ?n = "length ?order - max_exited_tombstones"
    have n: "?n \<le> length us" using o assms(2) by simp
    then have "drop ?n ?order = drop ?n us @ i # (vs @ [j])" by (simp add: o(1))
    then have 1: "tr_exited_order (snd (snd (mark_exited j result' r))) = drop ?n us @ i # (vs @ [j])"
      by (simp add: mark_exited_def b expire_order del: length_append drop_append)
    have "take ?n ?order = take ?n us" using n by (simp add: o(1))
    then have "i \<notin> set (take ?n ?order)" using o(2) in_set_takeD by metis
    then have 2: "thread_state i (snd (snd (mark_exited j result' r))) = thread_state i r"
      using ij by (simp add: mark_exited_def b thread_state_def expire_tcbs del: length_append take_append)
    have "i \<notin> set (drop ?n us)" using o(2) in_set_dropD by metis
    with 1 2 st o(3) show ?thesis
      unfolding exited_recently_def by (metis length_append_singleton Suc_le_mono)
  qed
qed

lemma exited_recently_apply:
  assumes "exited_recently k i result r" and "op_fresh r op" and "op \<noteq> Cancel i" and "is_exit op \<Longrightarrow> Suc k < max_exited_tombstones"
  shows "exited_recently (if is_exit op then Suc k else k) i result (registry_apply r op)"
proof (cases op)
  case (MarkExited j result')
  with assms show ?thesis by (simp add: is_exit_def exited_recently_exit)
next
  case (Cancel j)
  from assms obtain us vs where o: "tr_exited_order r = us @ i # vs" "i \<notin> set us" "length vs \<le> k"
    and st: "thread_state i r = Some (ThreadExited result)" by (auto simp: exited_recently_def)
  with assms Cancel have "tr_exited_order (registry_apply r op) = removeAll j us @ i # removeAll j vs"
    by (auto simp: registry_cancel_def Let_def split: option.splits)
  moreover have "thread_state i (registry_apply r op) = thread_state i r"
    using assms Cancel by (auto simp: registry_cancel_def Let_def thread_state_def split: option.splits)
  moreover have "length (removeAll j vs) \<le> k"
    using o(3) length_filter_le order_trans unfolding removeAll_filter_not_eq by blast
  ultimately show ?thesis
    using o(2) st Cancel unfolding exited_recently_def is_exit_def
    by (intro conjI exI [of _ "removeAll j us"] exI [of _ "removeAll j vs"]) auto
qed (use assms in \<open>auto simp: is_exit_def park_def take_state_def take_created_def registry_mark_spawned_def mark_running_def
       restore_vm_state_def thread_state_def exited_recently_def split: option.splits prod.splits\<close>)

lemma exited_recently_steps:
  assumes "registry_steps r ops r'" and "exited_recently k i result r" and "Cancel i \<notin> set ops"
    and "k + length (filter is_exit ops) < max_exited_tombstones"
  shows "thread_state i r' = Some (ThreadExited result)"
  using assms
proof (induction arbitrary: k rule: registry_steps.induct)
  case (steps_op r op ops r')
  have "exited_recently (if is_exit op then Suc k else k) i result (registry_apply r op)"
    using steps_op.prems steps_op.hyps(1) by (intro exited_recently_apply) auto
  from steps_op.IH [OF this] steps_op.prems(2,3) show ?case by (auto split: if_splits)
qed (simp add: exited_recently_def)

lemma mark_exited_recent:
  assumes "registry_inv r" and "mark_exited i result r = (True, d, r1)"
  shows "exited_recently 0 i result r1"
proof -
  from assms(2) obtain b where b: "tr_tcbs r i = Some b" "\<not> state_is_exited (tcb_state b)"
    and r1: "r1 = expire_tombstones (tr_exited_order r @ [i])
      (r\<lparr>tr_tcbs := (tr_tcbs r)(i \<mapsto> exited_tcb result b), tr_active_count := tr_active_count r - 1\<rparr>)"
    by (auto simp: mark_exited_def split: option.splits if_splits)
  have notin: "i \<notin> set (tr_exited_order r)"
    using assms(1) b by (auto simp: registry_inv_def registry_inv_at_def exited_ids_def is_exited_tcb)
  let ?n = "length (tr_exited_order r @ [i]) - max_exited_tombstones"
  have n: "?n \<le> length (tr_exited_order r)" by (simp add: max_exited_tombstones_def)
  then have "tr_exited_order r1 = drop ?n (tr_exited_order r) @ [i]" by (simp add: r1 expire_order)
  moreover have "i \<notin> set (drop ?n (tr_exited_order r))" using notin in_set_dropD by metis
  moreover have "thread_state i r1 = Some (ThreadExited result)"
    using n notin by (auto simp: r1 thread_state_def expire_tcbs exited_tcb_def dest: in_set_takeD)
  ultimately show ?thesis unfolding exited_recently_def by (metis list.size(3) order_refl)
qed

text \<open>
  The result of an exited thread can be read.  Once a thread has exited, its state is final:
  whatever happens to the registry, short of cancelling the thread, it reports that result, at
  least until 1024 further threads have exited.
\<close>

lemma exit_result_retained:
  assumes "registry_steps new_registry ops0 r" and "mark_exited i result r = (True, d, r1)"
    and "registry_steps r1 ops r2" and "Cancel i \<notin> set ops" and "length (filter is_exit ops) < 1024"
  shows "thread_state i r2 = Some (ThreadExited result)"
proof -
  have "registry_inv r" by (rule registry_steps_inv [OF assms(1) registry_inv_new])
  from exited_recently_steps [OF assms(3) mark_exited_recent [OF this assms(2)] assms(4)] show ?thesis
    using assms(5) by (simp add: max_exited_tombstones_def)
qed

definition blank_thread :: VmThreadState where
  "blank_thread = new_thread (new_global_quota default_limits) (new_thread_quota default_limits)"

definition keyed_ops :: "registry_op list" where
  "keyed_ops = [Park 1 blank_thread (Some ''main''), Take 1, MarkRunning 1, Restore 1 blank_thread]"

definition keyed_registry :: ThreadRegistry where
  "keyed_registry = foldl registry_apply new_registry keyed_ops"

lemma keyed_registry_eq: "tr_tcbs keyed_registry = [1 \<mapsto> (new_tcb 1 blank_thread (Some ''main''))\<lparr>tcb_state := ThreadRunning\<rparr>]"
  "tr_exited_order keyed_registry = []" "tr_keys keyed_registry = [''main'' \<mapsto> 1]" "tr_active_count keyed_registry = 1"
  by (simp_all add: keyed_registry_def keyed_ops_def park_def new_registry_def vm_states_def new_tcb_def take_state_def
      mark_running_def restore_vm_state_def)

lemma keyed_steps: "registry_steps new_registry keyed_ops keyed_registry"
  by (simp add: keyed_registry_def keyed_ops_def registry_steps_simps new_registry_def)

theorem registry_consistent_witness: "unat (tr_active_count keyed_registry) = 1 \<and> lookup_key ''main'' keyed_registry = Some 1"
proof -
  have "{i. registry_contains i keyed_registry \<and> \<not> is_exited i keyed_registry} = {1}"
    by (auto simp: registry_contains_def is_exited_def thread_state_def keyed_registry_eq split: if_splits)
  with registry_consistent [OF keyed_steps] show ?thesis
    by (simp add: keyed_registry_eq new_tcb_def)
qed

end
