(* ===== verification/Kernel.thy ===== *)
theory Kernel
  imports Runtime_Queue Blocked_Queue Thread_Registry
begin

text \<open>
  The virtual kernel, \<^verbatim>\<open>galfus-runtime/src/kernel.rs\<close>: thread identifiers, the registry, the runnable
  queue and the blocked queue, tied together by the counters of the execution's global quota.

  All threads of an execution are created with the same \<open>Arc<Mutex<GlobalQuota>>\<close>; it is the component
  \<open>vk_quota\<close> of the state, and a thread that an operation looks at is given that value first.  A thread
  state that goes out of scope runs its destructor, which gives back its place among the
  threads (\<open>drop_states\<close>).
\<close>

section \<open>State and operations\<close>

record VirtualKernel =
  vk_ids :: IdManagerState
  vk_registry :: ThreadRegistry
  vk_runnable :: RunnableQueue
  vk_blocked :: BlockedQueue
  vk_quota :: GlobalQuota

definition new_kernel :: "GlobalQuota \<Rightarrow> VirtualKernel" where
  "new_kernel gq = \<lparr>vk_ids = new_id_manager 1, vk_registry = new_registry, vk_runnable = new_runnable,
     vk_blocked = new_blocked, vk_quota = gq\<rparr>"

definition drop_state :: "GlobalQuota \<Rightarrow> VmThreadState \<Rightarrow> GlobalQuota" where
  "drop_state gq t = th_global_quota (drop_thread (t\<lparr>th_global_quota := gq\<rparr>))"

definition drop_states :: "VmThreadState list \<Rightarrow> VirtualKernel \<Rightarrow> VirtualKernel" where
  "drop_states ts k = k\<lparr>vk_quota := foldl drop_state (vk_quota k) ts\<rparr>"

definition with_quota :: "(GlobalQuota \<Rightarrow> GlobalQuota) \<Rightarrow> VirtualKernel \<Rightarrow> VirtualKernel" where
  "with_quota f k = k\<lparr>vk_quota := f (vk_quota k)\<rparr>"

definition spawn :: "VmThreadState \<Rightarrow> string option \<Rightarrow> VirtualKernel \<Rightarrow> (ExecutionFailure + ThreadId) \<times> VirtualKernel" where
  "spawn thread key k =
    (case mark_spawned (thread\<lparr>th_global_quota := vk_quota k\<rparr>) of
       (Inl kind, t) \<Rightarrow>
         (Inl (new_failure kind ''max threads limit exceeded''), drop_states [t] (k\<lparr>vk_quota := th_global_quota t\<rparr>))
     | (Inr _, t) \<Rightarrow>
         let k1 = k\<lparr>vk_quota := th_global_quota t\<rparr> in
         if \<not> key_is_available key (vk_registry k1) then
           (Inl (new_failure DuplicateThreadKey
              (''thread key '' @ [CHR 0x27] @ (case key of None \<Rightarrow> [] | Some s \<Rightarrow> s) @ [CHR 0x27] @ '' is already registered'')),
            drop_states [t] k1)
         else
           case try_allocate (vk_ids k1) of
             (None, ids) \<Rightarrow>
               (Inl (new_failure IdSpaceExhausted ''thread id space exhausted''), drop_states [t] (k1\<lparr>vk_ids := ids\<rparr>))
           | (Some i, ids) \<Rightarrow>
               (case park i t key (vk_registry k1) of
                  (Inl e, dropped, r) \<Rightarrow> (Inl e, drop_states dropped (k1\<lparr>vk_ids := free_id ids i, vk_registry := r\<rparr>))
                | (Inr _, dropped, r) \<Rightarrow> (Inr i, drop_states dropped (k1\<lparr>vk_ids := ids, vk_registry := r\<rparr>))))"

definition park_running :: "ThreadId \<Rightarrow> VmThreadState \<Rightarrow> VirtualKernel \<Rightarrow> VirtualKernel" where
  "park_running i t k =
    (case restore_vm_state i t (vk_registry k) of (dropped, r) \<Rightarrow> drop_states dropped (k\<lparr>vk_registry := r\<rparr>))"

text \<open>The two enqueue operations differ only in the end of the queue they use.\<close>

definition enqueue_with :: "(ThreadId \<Rightarrow> RunnableQueue \<Rightarrow> RunnableQueue) \<Rightarrow> ThreadId \<Rightarrow> VmThreadState \<Rightarrow> VirtualKernel \<Rightarrow>
    (ExecutionFailureKind + unit) \<times> VirtualKernel" where
  "enqueue_with enq i t k =
    (if runnable_contains (vk_runnable k) i then (Inr (), park_running i t k)
     else
       case try_reserve_runnable_threads (vk_quota k) 1 of
         (Inl kind, gq) \<Rightarrow> (Inl kind, park_running i t (k\<lparr>vk_quota := gq\<rparr>))
       | (Inr _, gq) \<Rightarrow> (Inr (), (park_running i t (k\<lparr>vk_quota := gq\<rparr>))\<lparr>vk_runnable := enq i (vk_runnable k)\<rparr>))"

definition enqueue_runnable :: "ThreadId \<Rightarrow> VmThreadState \<Rightarrow> VirtualKernel \<Rightarrow> (ExecutionFailureKind + unit) \<times> VirtualKernel" where
  "enqueue_runnable = enqueue_with enqueue"

definition enqueue_runnable_front :: "ThreadId \<Rightarrow> VmThreadState \<Rightarrow> VirtualKernel \<Rightarrow> (ExecutionFailureKind + unit) \<times> VirtualKernel" where
  "enqueue_runnable_front = enqueue_with enqueue_front"

text \<open>
  When \<open>block_with_timeout\<close> fails, \<open>?\<close> returns at once: the thread state is dropped and the two
  reservations stay.
\<close>

definition kernel_block :: "ThreadId \<Rightarrow> VmThreadState \<Rightarrow> u64 option \<Rightarrow> VirtualKernel \<Rightarrow> (ExecutionFailure + unit) \<times> VirtualKernel" where
  "kernel_block i t timeout k =
    (case try_reserve_pending_states (vk_quota k) 1 of
       (Inl e, gq) \<Rightarrow>
         (Inl (with_thread_id i (new_failure e ''pending states limit exceeded'')), park_running i t (k\<lparr>vk_quota := gq\<rparr>))
     | (Inr _, gq) \<Rightarrow>
         let k1 = k\<lparr>vk_quota := gq\<rparr> in
         case timeout of
           None \<Rightarrow>
             (case block i (vk_blocked k1) of
                (had_timer, b) \<Rightarrow>
                  (Inr (), park_running i t
                     (with_quota (\<lambda>gq. if had_timer then release_timers gq 1 else gq) (k1\<lparr>vk_blocked := b\<rparr>))))
         | Some ms \<Rightarrow>
             (case try_reserve_timers (vk_quota k1) 1 of
                (Inl e, gq) \<Rightarrow>
                  (Inl (with_thread_id i (new_failure e ''timers limit exceeded'')),
                   park_running i t (k1\<lparr>vk_quota := release_pending_states gq 1\<rparr>))
              | (Inr _, gq) \<Rightarrow>
                  (case block_with_timeout i ms (vk_blocked k1) of
                     (Inl e, b) \<Rightarrow> (Inl e, drop_states [t] (k1\<lparr>vk_quota := gq, vk_blocked := b\<rparr>))
                   | (Inr had_timer, b) \<Rightarrow>
                       (Inr (), park_running i t
                          (with_quota (\<lambda>gq. if had_timer then release_timers gq 1 else gq)
                             (k1\<lparr>vk_quota := gq, vk_blocked := b\<rparr>))))))"

definition release_wait :: "bool \<Rightarrow> GlobalQuota \<Rightarrow> GlobalQuota" where
  "release_wait had_timer gq =
    (let gq1 = release_pending_states gq 1 in if had_timer then release_timers gq1 1 else gq1)"

definition kernel_unblock :: "ThreadId \<Rightarrow> VirtualKernel \<Rightarrow> (ExecutionFailureKind + bool) \<times> VirtualKernel" where
  "kernel_unblock i k =
    (case unblock i (vk_blocked k) of
       ((was_blocked, had_timer), b) \<Rightarrow>
         let k1 = k\<lparr>vk_blocked := b\<rparr> in
         if was_blocked then
           (case take_state i (vk_registry k1) of
              (None, r) \<Rightarrow> (Inr False, k1\<lparr>vk_registry := r\<rparr>)
            | (Some t, r) \<Rightarrow>
                (case enqueue_runnable i t (with_quota (release_wait had_timer) (k1\<lparr>vk_registry := r\<rparr>)) of
                   (Inl kind, k2) \<Rightarrow> (Inl kind, k2)
                 | (Inr _, k2) \<Rightarrow> (Inr True, k2)))
         else (Inr False, k1))"

definition kernel_cancel :: "ThreadId \<Rightarrow> VirtualKernel \<Rightarrow> bool \<times> VirtualKernel" where
  "kernel_cancel i k =
    (case runnable_remove i (vk_runnable k) of
       (was_runnable, q) \<Rightarrow>
         (case blocked_remove i (vk_blocked k) of
            (blocked_info, b) \<Rightarrow>
              (case take_state i (vk_registry k) of
                 (thread_opt, r) \<Rightarrow>
                   let k1 = k\<lparr>vk_runnable := q, vk_blocked := b, vk_registry := r\<rparr>;
                       k2 = (case thread_opt of
                               None \<Rightarrow> k1
                             | Some t \<Rightarrow>
                                 drop_states [t] (with_quota
                                   (\<lambda>gq. let gq1 = (if was_runnable then release_runnable_threads gq 1 else gq) in
                                         case blocked_info of None \<Rightarrow> gq1 | Some had_timer \<Rightarrow> release_wait had_timer gq1) k1)) in
                   (case registry_cancel i (vk_registry k2) of
                      (removed, dropped, r') \<Rightarrow>
                        (removed, drop_states dropped
                           (k2\<lparr>vk_registry := r', vk_ids := (if removed then free_id (vk_ids k2) i else vk_ids k2)\<rparr>))))))"

definition next_runnable_detailed :: "VirtualKernel \<Rightarrow> (ThreadId \<times> bool) option \<times> VirtualKernel" where
  "next_runnable_detailed k = (case dequeue_detailed (vk_runnable k) of (x, q) \<Rightarrow> (x, k\<lparr>vk_runnable := q\<rparr>))"

definition next_runnable :: "VirtualKernel \<Rightarrow> ThreadId option \<times> VirtualKernel" where
  "next_runnable k = (case dequeue (vk_runnable k) of (x, q) \<Rightarrow> (x, k\<lparr>vk_runnable := q\<rparr>))"

fun wake_all :: "ThreadId list \<Rightarrow> VirtualKernel \<Rightarrow> (ThreadId \<times> (ExecutionFailureKind + unit)) list \<times> VirtualKernel" where
  "wake_all [] k = ([], k)"
| "wake_all (i # is) k =
    (case take_state i (vk_registry k) of
       (None, r) \<Rightarrow> wake_all is (k\<lparr>vk_registry := r\<rparr>)
     | (Some t, r) \<Rightarrow>
         (case enqueue_runnable i t (with_quota (release_wait True) (k\<lparr>vk_registry := r\<rparr>)) of
            (res, k1) \<Rightarrow> (case wake_all is k1 of (results, k2) \<Rightarrow> ((i, res) # results, k2))))"

definition kernel_tick :: "u64 \<Rightarrow> VirtualKernel \<Rightarrow> (ThreadId \<times> (ExecutionFailureKind + unit)) list \<times> VirtualKernel" where
  "kernel_tick delta_ms k =
    (case tick_timeouts delta_ms (vk_blocked k) of (woke_up, b) \<Rightarrow> wake_all woke_up (k\<lparr>vk_blocked := b\<rparr>))"

definition take_thread :: "ThreadId \<Rightarrow> VirtualKernel \<Rightarrow> VmThreadState option \<times> VirtualKernel" where
  "take_thread i k =
    (case take_state i (vk_registry k) of
       (None, r) \<Rightarrow> (None, k\<lparr>vk_registry := r\<rparr>)
     | (Some t, r) \<Rightarrow> (Some t, with_quota (\<lambda>gq. release_runnable_threads gq 1) (k\<lparr>vk_registry := r\<rparr>)))"

definition take_created_thread :: "ThreadId \<Rightarrow> VirtualKernel \<Rightarrow> VmThreadState option \<times> VirtualKernel" where
  "take_created_thread i k = (case take_created i (vk_registry k) of (t, r) \<Rightarrow> (t, k\<lparr>vk_registry := r\<rparr>))"

definition kernel_mark_spawned :: "ThreadId \<Rightarrow> VirtualKernel \<Rightarrow> (ExecutionFailureKind + unit) \<times> VirtualKernel" where
  "kernel_mark_spawned i k =
    (case registry_mark_spawned i (vk_quota k) (vk_registry k) of
       (res, gq, r) \<Rightarrow> (res, k\<lparr>vk_quota := gq, vk_registry := r\<rparr>))"

definition kernel_mark_running :: "ThreadId \<Rightarrow> VirtualKernel \<Rightarrow> bool \<times> VirtualKernel" where
  "kernel_mark_running i k = (case mark_running i (vk_registry k) of (b, r) \<Rightarrow> (b, k\<lparr>vk_registry := r\<rparr>))"

definition kernel_mark_exited :: "ThreadId \<Rightarrow> VmThreadState \<Rightarrow> ExecutionFailure + u32 \<Rightarrow> VirtualKernel \<Rightarrow> bool \<times> VirtualKernel" where
  "kernel_mark_exited i t result k =
    (let k1 = park_running i t k in
     case mark_exited i result (vk_registry k1) of
       (b, dropped, r) \<Rightarrow> (b, drop_states dropped (k1\<lparr>vk_registry := r\<rparr>)))"

end
