(* ===== verification/Kernel_Props.thy ===== *)
theory Kernel_Props
  imports Kernel
begin

text \<open>
  What the virtual kernel promises: every thread is in exactly one place (queued, waiting, parked or
  taken out by a worker), and how the counters of the global quota relate to the sizes of the corresponding sets.  This theory
  has the invariant and that every operation of the kernel keeps it; \<open>Kernel_Clients\<close> has the sequences of operations that the
  orchestrator performs.
\<close>

section \<open>The registry as sets\<close>

definition parked :: "ThreadRegistry \<Rightarrow> ThreadId set" where
  "parked r = {i. \<exists>b. tr_tcbs r i = Some b \<and> tcb_vm_state b \<noteq> None}"

definition all_spawned :: "ThreadRegistry \<Rightarrow> bool" where
  "all_spawned r \<longleftrightarrow> (\<forall>i b t. tr_tcbs r i = Some b \<longrightarrow> tcb_vm_state b = Some t \<longrightarrow> th_is_spawned t)"

lemma active_threads_tcbs: "active_threads r = {i. \<exists>b. tr_tcbs r i = Some b \<and> \<not> state_is_exited (tcb_state b)}"
  by (auto simp: active_threads_def registry_contains_def is_exited_tcb)

lemma take_state_None: "take_state i r = (None, r') \<Longrightarrow> r' = r \<and> i \<notin> parked r"
  by (auto simp: take_state_def parked_def split: option.splits)

lemma take_state_Some:
  assumes "take_state i r = (Some t, r')"
  shows "i \<in> parked r" and "parked r' = parked r - {i}" and "active_threads r' = active_threads r"
    and "dom (tr_tcbs r') = dom (tr_tcbs r)" and "all_spawned r \<Longrightarrow> th_is_spawned t \<and> all_spawned r'"
  using assms by (auto simp: take_state_def parked_def active_threads_tcbs all_spawned_def split: option.splits if_splits)

lemma take_state_parked: "i \<in> parked r \<Longrightarrow> \<exists>t r'. take_state i r = (Some t, r')"
  by (auto simp: take_state_def parked_def)

lemma restore_state:
  assumes "restore_vm_state i t r = (dropped, r')" and "i \<in> active_threads r" and "i \<notin> parked r"
  shows "dropped = []" and "parked r' = insert i (parked r)" and "active_threads r' = active_threads r"
    and "dom (tr_tcbs r') = dom (tr_tcbs r)" and "all_spawned r \<Longrightarrow> th_is_spawned t \<Longrightarrow> all_spawned r'"
  using assms
  by (auto simp: restore_vm_state_def vm_states_def parked_def active_threads_tcbs all_spawned_def split: option.splits if_splits)

lemma park_fresh:
  assumes "park i t key r = (Inr u, dropped, r')" and "tr_tcbs r i = None"
  shows "dropped = []" and "parked r' = insert i (parked r)" and "active_threads r' = insert i (active_threads r)"
    and "dom (tr_tcbs r') = insert i (dom (tr_tcbs r))" and "all_spawned r \<Longrightarrow> th_is_spawned t \<Longrightarrow> all_spawned r'"
proof -
  have "tr_tcbs r' = (tr_tcbs r)(i \<mapsto> new_tcb i t key)" and "dropped = []"
    using assms by (auto simp: park_def vm_states_def split: option.splits if_splits)
  then show "dropped = []" and "parked r' = insert i (parked r)" and "active_threads r' = insert i (active_threads r)"
    and "dom (tr_tcbs r') = insert i (dom (tr_tcbs r))" and "all_spawned r \<Longrightarrow> th_is_spawned t \<Longrightarrow> all_spawned r'"
    by (auto simp: parked_def active_threads_tcbs new_tcb_def all_spawned_def)
qed

lemma park_fails: "park i t key r = (Inl e, dropped, r') \<Longrightarrow> \<not> key_is_available key r"
  by (auto simp: park_def key_is_available_def split: option.splits if_splits)

lemma mark_running_state:
  assumes "mark_running i r = (b, r')"
  shows "parked r' = parked r" and "active_threads r' = active_threads r" and "dom (tr_tcbs r') = dom (tr_tcbs r)"
    and "all_spawned r \<Longrightarrow> all_spawned r'" and "registry_inv r \<Longrightarrow> registry_inv r'"
proof -
  show "registry_inv r \<Longrightarrow> registry_inv r'" using registry_apply_inv [of r "MarkRunning i"] assms by simp
qed (use assms in \<open>auto simp: mark_running_def parked_def active_threads_tcbs all_spawned_def split: option.splits if_splits\<close>)

text \<open>An exit drops the VM state; the tombstones that expire have none.\<close>

lemma mark_exited_state:
  assumes "mark_exited i result r = (b, dropped, r')" and "i \<in> parked r" and "registry_inv r"
    and "parked r \<subseteq> active_threads r"
  shows "\<exists>t. dropped = [t] \<and> (all_spawned r \<longrightarrow> th_is_spawned t)" and "parked r' = parked r - {i}"
    and "active_threads r' = active_threads r - {i}" and "dom (tr_tcbs r') \<subseteq> dom (tr_tcbs r)"
    and "all_spawned r \<Longrightarrow> all_spawned r'" and "registry_inv r'"
proof -
  have "i \<in> active_threads r" using assms(2,4) by blast
  with assms(2) obtain c t where c: "tr_tcbs r i = Some c" "tcb_vm_state c = Some t" "\<not> state_is_exited (tcb_state c)"
    by (auto simp: parked_def active_threads_tcbs)
  let ?r = "r\<lparr>tr_tcbs := (tr_tcbs r)(i \<mapsto> exited_tcb result c), tr_active_count := tr_active_count r - 1\<rparr>"
  from assms(1) c have r': "r' = expire_tombstones (tr_exited_order r @ [i]) ?r" and d: "dropped = [t]"
    by (auto simp: mark_exited_def vm_states_def)
  have order: "j \<in> set (tr_exited_order r @ [i]) \<Longrightarrow> j \<noteq> i \<Longrightarrow> j \<notin> active_threads r" for j
    using assms(3) by (auto simp: registry_inv_def registry_inv_at_def exited_ids_def active_threads_def)
  have tcbs: "tr_tcbs r' j = tr_tcbs r j" if "j \<in> active_threads r" "j \<noteq> i" for j
    using order [OF _ that(2)] that by (auto simp: r' expire_tcbs dest: in_set_takeD)
  have other: "tr_tcbs r' j = None \<or> tr_tcbs r' j = (if j = i then Some (exited_tcb result c) else tr_tcbs r j)" for j
    by (simp add: r' expire_tcbs)
  have ex: "tcb_vm_state (exited_tcb result c) = None" "state_is_exited (tcb_state (exited_tcb result c))"
    by (simp_all add: exited_tcb_def)
  show "\<exists>t. dropped = [t] \<and> (all_spawned r \<longrightarrow> th_is_spawned t)" using c d by (auto simp: all_spawned_def)
  show "registry_inv r'" using registry_apply_inv [OF assms(3), of "MarkExited i result"] assms(1) by simp
  show "active_threads r' = active_threads r - {i}"
  proof (intro set_eqI iffI)
    fix j assume "j \<in> active_threads r'"
    with other [of j] ex(2) show "j \<in> active_threads r - {i}" by (auto simp: active_threads_tcbs split: if_splits) metis
  next
    fix j assume j: "j \<in> active_threads r - {i}"
    with tcbs [of j] show "j \<in> active_threads r'" by (auto simp: active_threads_tcbs)
  qed
  show "parked r' = parked r - {i}"
  proof (intro set_eqI iffI)
    fix j assume "j \<in> parked r'"
    with other [of j] ex(1) show "j \<in> parked r - {i}" by (auto simp: parked_def split: if_splits) metis
  next
    fix j assume j: "j \<in> parked r - {i}"
    with tcbs [of j] assms(4) show "j \<in> parked r'" by (auto simp: parked_def subset_iff)
  qed
  show "dom (tr_tcbs r') \<subseteq> dom (tr_tcbs r)" using other c(1) by (auto simp: dom_def) (metis option.distinct(1))
  show "all_spawned r \<Longrightarrow> all_spawned r'" using other ex(1) unfolding all_spawned_def by (metis option.distinct(1) option.inject)
qed

lemma registry_cancel_state:
  assumes "registry_cancel i r = (b, dropped, r')"
  shows "parked r' = parked r - {i}" and "active_threads r' = active_threads r - {i}" and "dom (tr_tcbs r') = dom (tr_tcbs r) - {i}"
    and "all_spawned r \<Longrightarrow> all_spawned r'" and "registry_inv r \<Longrightarrow> registry_inv r'" and "b \<longleftrightarrow> i \<in> dom (tr_tcbs r)"
    and "i \<notin> parked r \<Longrightarrow> dropped = []"
proof -
  show "registry_inv r \<Longrightarrow> registry_inv r'" using registry_apply_inv [of r "Cancel i"] assms by simp
qed (use assms in \<open>auto simp: registry_cancel_def Let_def vm_states_def parked_def active_threads_tcbs all_spawned_def
      split: option.splits if_splits\<close>)

section \<open>Counters\<close>

lemma card_ids: "card A \<le> 2 ^ 32" for A :: "ThreadId set"
proof -
  have "card A \<le> card (UNIV :: ThreadId set)" by (rule card_mono) simp_all
  then show ?thesis by (simp add: card_word)
qed

lemma card_remove: "card (A - {i}) = card A - (if i \<in> A then 1 else 0)" for A :: "ThreadId set"
  by (simp add: card_Diff_singleton)

lemma card_pos: "i \<in> A \<Longrightarrow> 0 < card A" for A :: "ThreadId set"
  by (auto simp: card_gt_0_iff)

lemma unat_Suc: "unat c < 2 ^ 64 - 1 \<Longrightarrow> unat (c + 1) = Suc (unat c)" for c :: usize
  by (simp add: unat_word_ariths)

lemma unat_release: "unat (saturating_sub c 1) = unat c - 1" for c :: usize
  by (simp add: unat_saturating_sub)

lemma drop_state_quota:
  "drop_state gq t = (if th_is_spawned t then release_threads gq 1 else gq)"
  by (simp add: drop_state_def drop_thread_def Let_def)

section \<open>The invariant\<close>

definition runnable_ids :: "VirtualKernel \<Rightarrow> ThreadId set" where
  "runnable_ids k = fst ` set (ready (vk_runnable k))"

definition blocked_ids :: "VirtualKernel \<Rightarrow> ThreadId set" where
  "blocked_ids k = dom (waiting (vk_blocked k))"

definition timed_ids :: "VirtualKernel \<Rightarrow> ThreadId set" where
  "timed_ids k = {i. \<exists>d. waiting (vk_blocked k) i = Some (Some d)}"

type_synonym workers = "ThreadId \<rightharpoonup> VmThreadState"

definition parts_ok :: "VirtualKernel \<Rightarrow> bool" where
  "parts_ok k \<longleftrightarrow> registry_inv (vk_registry k) \<and> runnable_inv 0 (vk_runnable k) \<and> blocked_inv (vk_blocked k) \<and>
     id_manager_inv 1 (vk_ids k) \<and> dom (tr_tcbs (vk_registry k)) \<subseteq> active_ids (vk_ids k) \<and> all_spawned (vk_registry k)"

text \<open>The places of a thread: \<open>out\<close> are the threads that workers have taken.\<close>

definition places_ok :: "VirtualKernel \<Rightarrow> workers \<Rightarrow> bool" where
  "places_ok k out \<longleftrightarrow>
     runnable_ids k \<union> blocked_ids k \<subseteq> parked (vk_registry k) \<and> runnable_ids k \<inter> blocked_ids k = {} \<and>
     parked (vk_registry k) \<inter> dom out = {} \<and> parked (vk_registry k) \<union> dom out = active_threads (vk_registry k) \<and>
     (\<forall>i t. out i = Some t \<longrightarrow> th_is_spawned t)"

text \<open>The limits that keep a leaking counter from wrapping around.\<close>

definition finite_limits :: "GlobalQuota \<Rightarrow> bool" where
  "finite_limits gq \<longleftrightarrow> max_pending_states (gq_limits gq) \<noteq> -1 \<and> max_timers (gq_limits gq) \<noteq> -1"

lemma saturated_below:
  assumes "\<not> limit < saturating_add c 1" and "limit \<noteq> (-1 :: usize)"
  shows "unat c < 2 ^ 64 - 1"
proof (rule ccontr)
  assume "\<not> unat c < 2 ^ 64 - 1"
  moreover have "unat c < 2 ^ 64" using unsigned_less [of c, where 'a = nat] by simp
  ultimately have "unat c = 2 ^ 64 - 1" by simp
  then have "saturating_add c 1 = -1" by (simp add: saturating_add_def)
  then show False using assms word_order.extremum_unique [of limit] by (simp add: not_less)
qed

text \<open>
  With \<open>ex\<close> the counters are exact.  Without it, places in the run queue may have been given back too early and reservations for
  waiting threads may have leaked.  Threads that a wake-up has already removed from the blocked queue are in \<open>X\<close> (with a timer, in \<open>Y\<close>)
  until their reservations are given back.
\<close>

definition counters_ok :: "bool \<Rightarrow> ThreadId set \<Rightarrow> ThreadId set \<Rightarrow> VirtualKernel \<Rightarrow> bool" where
  "counters_ok ex X Y k \<longleftrightarrow>
     unat (gq_threads (vk_quota k)) = card (active_threads (vk_registry k)) \<and>
     unat (gq_runnable_threads (vk_quota k)) \<le> card (runnable_ids k) \<and>
     card (blocked_ids k) + card X \<le> unat (gq_pending_states (vk_quota k)) \<and>
     card (timed_ids k) + card Y \<le> unat (gq_timers (vk_quota k)) \<and>
     (if ex
      then unat (gq_runnable_threads (vk_quota k)) = card (runnable_ids k) \<and>
           unat (gq_pending_states (vk_quota k)) = card (blocked_ids k) + card X \<and>
           unat (gq_timers (vk_quota k)) = card (timed_ids k) + card Y
      else finite_limits (vk_quota k))"

definition woken_inv :: "bool \<Rightarrow> ThreadId set \<Rightarrow> ThreadId set \<Rightarrow> VirtualKernel \<Rightarrow> workers \<Rightarrow> bool" where
  "woken_inv ex X Y k out \<longleftrightarrow> parts_ok k \<and> places_ok k out \<and> counters_ok ex X Y k \<and> Y \<subseteq> X \<and>
     X \<subseteq> parked (vk_registry k) \<and> X \<inter> (runnable_ids k \<union> blocked_ids k) = {}"

definition kernel_inv :: "bool \<Rightarrow> VirtualKernel \<Rightarrow> workers \<Rightarrow> bool" where
  "kernel_inv ex k out \<longleftrightarrow> parts_ok k \<and> places_ok k out \<and> counters_ok ex {} {} k"

lemma finite_limits_simps [simp]:
  "finite_limits (gq\<lparr>gq_threads := a\<rparr>) = finite_limits gq" "finite_limits (gq\<lparr>gq_runnable_threads := a\<rparr>) = finite_limits gq"
  "finite_limits (gq\<lparr>gq_pending_states := a\<rparr>) = finite_limits gq" "finite_limits (gq\<lparr>gq_timers := a\<rparr>) = finite_limits gq"
  "finite_limits (release_wait h gq) = finite_limits gq" "finite_limits (release_runnable_threads gq n) = finite_limits gq"
  "finite_limits (release_threads gq n) = finite_limits gq"
  by (simp_all add: finite_limits_def release_wait_def Let_def release_pending_states_def release_timers_def
      release_runnable_threads_def release_threads_def)

lemma reserve_pending_Suc:
  assumes "counters_ok ex X Y k" and "try_reserve_pending_states (vk_quota k) 1 = (Inr u, gq)" and "card X = 0"
  shows "unat (gq_pending_states (vk_quota k) + 1) = Suc (unat (gq_pending_states (vk_quota k)))"
proof (rule unat_Suc, cases ex)
  case True
  then show "unat (gq_pending_states (vk_quota k)) < 2 ^ 64 - 1"
    using assms card_ids [of "blocked_ids k"] by (simp add: counters_ok_def)
next
  case False
  then have "max_pending_states (gq_limits (vk_quota k)) \<noteq> -1" using assms(1) by (simp add: counters_ok_def finite_limits_def)
  moreover have "\<not> max_pending_states (gq_limits (vk_quota k)) < saturating_add (gq_pending_states (vk_quota k)) 1"
    using assms(2) by (auto simp: try_reserve_pending_states_def Let_def split: if_splits)
  ultimately show "unat (gq_pending_states (vk_quota k)) < 2 ^ 64 - 1" by (rule saturated_below [rotated])
qed

lemma reserve_timers_Suc:
  assumes "counters_ok ex X Y k" and "try_reserve_timers gq 1 = (Inr u, gq')" and "card Y = 0"
    and "gq_timers gq = gq_timers (vk_quota k)" and "gq_limits gq = gq_limits (vk_quota k)"
  shows "unat (gq_timers (vk_quota k) + 1) = Suc (unat (gq_timers (vk_quota k)))"
proof (rule unat_Suc, cases ex)
  case True
  then show "unat (gq_timers (vk_quota k)) < 2 ^ 64 - 1"
    using assms card_ids [of "timed_ids k"] by (simp add: counters_ok_def)
next
  case False
  then have "max_timers (gq_limits (vk_quota k)) \<noteq> -1" using assms(1) by (simp add: counters_ok_def finite_limits_def)
  moreover have "\<not> max_timers (gq_limits (vk_quota k)) < saturating_add (gq_timers (vk_quota k)) 1"
    using assms(2,4,5) by (auto simp: try_reserve_timers_def Let_def split: if_splits)
  ultimately show "unat (gq_timers (vk_quota k)) < 2 ^ 64 - 1" by (rule saturated_below [rotated])
qed

lemma kernel_inv_woken: "kernel_inv ex k out = woken_inv ex {} {} k out"
  by (simp add: kernel_inv_def woken_inv_def)

lemma woken_invD:
  assumes "woken_inv ex X Y k out"
  shows "parts_ok k" and "places_ok k out" and "counters_ok ex X Y k" and "parked (vk_registry k) \<subseteq> active_threads (vk_registry k)"
    and "dom out \<subseteq> active_threads (vk_registry k)" and "X \<subseteq> parked (vk_registry k)" and "X \<inter> (runnable_ids k \<union> blocked_ids k) = {}"
    and "Y \<subseteq> X"
  using assms by (auto simp: woken_inv_def places_ok_def)

lemma kernel_inv_new:
  assumes "gq_runnable_threads gq = 0" "gq_pending_states gq = 0" "gq_timers gq = 0" "gq_threads gq = 0" "ex \<or> finite_limits gq"
  shows "kernel_inv ex (new_kernel gq) Map.empty"
proof -
  have "parked new_registry = {}" "active_threads new_registry = {}" "all_spawned new_registry" "tr_tcbs new_registry = Map.empty"
    by (simp_all add: parked_def active_threads_tcbs all_spawned_def new_registry_def)
  moreover have "waiting new_blocked = Map.empty" by (simp add: waiting_def new_blocked_def fun_eq_iff)
  ultimately show ?thesis
    using assms
    by (auto simp: kernel_inv_def parts_ok_def places_ok_def counters_ok_def new_kernel_def registry_inv_new blocked_inv_new
        runnable_inv_new id_manager_inv_new runnable_ids_def blocked_ids_def timed_ids_def)
qed

text \<open>Sets and counters of a kernel after the elementary updates.\<close>

lemma view_simps [simp]:
  "runnable_ids (k\<lparr>vk_registry := r\<rparr>) = runnable_ids k" "blocked_ids (k\<lparr>vk_registry := r\<rparr>) = blocked_ids k"
  "timed_ids (k\<lparr>vk_registry := r\<rparr>) = timed_ids k"
  "runnable_ids (k\<lparr>vk_quota := gq\<rparr>) = runnable_ids k" "blocked_ids (k\<lparr>vk_quota := gq\<rparr>) = blocked_ids k"
  "timed_ids (k\<lparr>vk_quota := gq\<rparr>) = timed_ids k"
  "runnable_ids (k\<lparr>vk_blocked := b\<rparr>) = runnable_ids k" "runnable_ids (k\<lparr>vk_ids := ids\<rparr>) = runnable_ids k"
  "blocked_ids (k\<lparr>vk_runnable := q\<rparr>) = blocked_ids k" "timed_ids (k\<lparr>vk_runnable := q\<rparr>) = timed_ids k"
  "blocked_ids (k\<lparr>vk_ids := ids\<rparr>) = blocked_ids k" "timed_ids (k\<lparr>vk_ids := ids\<rparr>) = timed_ids k"
  by (simp_all add: runnable_ids_def blocked_ids_def timed_ids_def)

lemma parts_ok_quota [simp]: "parts_ok (k\<lparr>vk_quota := gq\<rparr>) = parts_ok k"
  by (simp add: parts_ok_def)

lemma places_ok_quota [simp]: "places_ok (k\<lparr>vk_quota := gq\<rparr>) out = places_ok k out"
  by (simp add: places_ok_def)

lemma timed_subset: "timed_ids k \<subseteq> blocked_ids k"
  by (auto simp: timed_ids_def blocked_ids_def)

text \<open>Handing a thread back that a worker had.\<close>

lemma park_running_inv:
  assumes "woken_inv ex X Y k out" and "out i = Some t0" and "th_is_spawned t"
  shows "woken_inv ex X Y (park_running i t k) (out(i := None))"
    and "park_running i t k = k\<lparr>vk_registry := snd (restore_vm_state i t (vk_registry k))\<rparr>"
    and "parked (vk_registry (park_running i t k)) = insert i (parked (vk_registry k))"
proof -
  note inv = woken_invD [OF assms(1)]
  have i: "i \<in> active_threads (vk_registry k)" "i \<notin> parked (vk_registry k)"
    using assms(2) inv(2,5) by (auto simp: places_ok_def)
  obtain dropped r where r: "restore_vm_state i t (vk_registry k) = (dropped, r)" by fastforce
  note rs = restore_state [OF r i]
  show eq: "park_running i t k = k\<lparr>vk_registry := snd (restore_vm_state i t (vk_registry k))\<rparr>"
    by (simp add: park_running_def r rs(1) drop_states_def)
  show "parked (vk_registry (park_running i t k)) = insert i (parked (vk_registry k))"
    by (simp add: eq r rs)
  have "registry_inv r" using registry_apply_inv [of "vk_registry k" "Restore i t"] inv(1) r by (simp add: parts_ok_def)
  then show "woken_inv ex X Y (park_running i t k) (out(i := None))"
    using assms inv rs unfolding eq r woken_inv_def
    by (auto simp: parts_ok_def places_ok_def counters_ok_def)
qed

lemma runnable_inv_mono: "runnable_inv n q \<Longrightarrow> m \<le> n \<Longrightarrow> runnable_inv m q"
  by (simp add: runnable_inv_def)

text \<open>Both ends of the queue.\<close>

definition queue_end :: "(ThreadId \<Rightarrow> RunnableQueue \<Rightarrow> RunnableQueue) \<Rightarrow> bool" where
  "queue_end enq \<longleftrightarrow> (\<forall>n i q. runnable_inv (Suc n) q \<longrightarrow>
     runnable_inv n (enq i q) \<and> fst ` set (ready (enq i q)) = insert i (fst ` set (ready q)))"

lemma queue_ends: "queue_end enqueue" "queue_end enqueue_front"
  by (auto simp: queue_end_def ready_enqueue)

lemma enqueue_with_inv:
  assumes "woken_inv ex X Y k out" and "out i = Some t0" and "th_is_spawned t" and "queue_end enq"
    and "runnable_inv (Suc n) (vk_runnable k)"
  shows "woken_inv ex X Y (snd (enqueue_with enq i t k)) (out(i := None)) \<and> runnable_inv n (vk_runnable (snd (enqueue_with enq i t k))) \<and>
     vk_blocked (snd (enqueue_with enq i t k)) = vk_blocked k"
proof -
  note inv = woken_invD [OF assms(1)]
  have "i \<notin> runnable_ids k" using assms(2) inv(2) by (auto simp: places_ok_def)
  then have new: "\<not> runnable_contains (vk_runnable k) i"
    using ready_queries(3) [OF assms(5)] by (simp add: runnable_ids_def)
  have cnt: "unat (gq_runnable_threads (vk_quota k)) \<le> card (runnable_ids k)"
    using inv(3) by (simp add: counters_ok_def)
  obtain res gq where res: "try_reserve_runnable_threads (vk_quota k) 1 = (res, gq)" by fastforce
  note p = park_running_inv [OF assms(1-3)]
  show ?thesis
  proof (cases res)
    case (Inl kind)
    then have "gq = vk_quota k" using res by (auto simp: try_reserve_runnable_threads_def Let_def split: if_splits)
    then have "enqueue_with enq i t k = (Inl kind, park_running i t k)" using new res Inl by (simp add: enqueue_with_def)
    moreover have "runnable_inv n (vk_runnable k)" by (rule runnable_inv_mono [OF assms(5)]) simp
    ultimately show ?thesis using p(1) by (simp add: p(2))
  next
    case (Inr u)
    then have gq: "gq = (vk_quota k)\<lparr>gq_runnable_threads := gq_runnable_threads (vk_quota k) + 1\<rparr>"
      using res by (auto simp: try_reserve_runnable_threads_def Let_def split: if_splits)
    have suc: "unat (gq_runnable_threads (vk_quota k) + 1) = Suc (unat (gq_runnable_threads (vk_quota k)))"
      using cnt card_ids [of "runnable_ids k"] by (simp add: unat_Suc)
    let ?k = "(park_running i t k)\<lparr>vk_quota := gq, vk_runnable := enq i (vk_runnable k)\<rparr>"
    have "park_running i t (k\<lparr>vk_quota := gq\<rparr>) = (park_running i t k)\<lparr>vk_quota := gq\<rparr>"
    proof -
      have "fst (restore_vm_state i t (vk_registry k)) = []"
        using assms(2) inv(2,5) restore_state(1) [of i t "vk_registry k"]
        by (metis prod.collapse domI places_ok_def subset_iff disjoint_iff)
      then show ?thesis by (simp add: park_running_def drop_states_def case_prod_beta)
    qed
    then have k': "snd (enqueue_with enq i t k) = ?k"
      using new res Inr by (simp add: enqueue_with_def)
    have q: "runnable_inv n (enq i (vk_runnable k))" "runnable_inv 0 (enq i (vk_runnable k))"
      and R: "runnable_ids ?k = insert i (runnable_ids k)"
      using assms(4,5) runnable_inv_mono by (auto simp: queue_end_def runnable_ids_def)
    have "i \<notin> X" "i \<notin> blocked_ids k" using assms(2) inv(2,6) by (auto simp: places_ok_def)
    then have "woken_inv ex X Y ?k (out(i := None))"
      using woken_invD [OF p(1)] q(2) R suc \<open>i \<notin> runnable_ids k\<close> p(3) unfolding woken_inv_def
      by (auto simp: parts_ok_def places_ok_def counters_ok_def p(2) gq)
    then show ?thesis using q(1) by (simp add: k' p(2))
  qed
qed

section \<open>Waking threads\<close>

lemma release_wait_simps [simp]:
  "gq_runnable_threads (release_wait h gq) = gq_runnable_threads gq" "gq_threads (release_wait h gq) = gq_threads gq"
  "unat (gq_pending_states (release_wait h gq)) = unat (gq_pending_states gq) - 1"
  "unat (gq_timers (release_wait h gq)) = unat (gq_timers gq) - (if h then 1 else 0)"
  by (simp_all add: release_wait_def Let_def release_pending_states_def release_timers_def unat_release)

text \<open>Taking out a thread that is neither queued nor waiting.\<close>

lemma places_ok_taken:
  assumes "places_ok k out" and "take_state i (vk_registry k) = (Some t, r)" and "th_is_spawned t"
    and "i \<notin> runnable_ids k" and "i \<notin> blocked_ids k"
    and "runnable_ids k' = runnable_ids k" and "blocked_ids k' = blocked_ids k" and "vk_registry k' = r"
  shows "places_ok k' (out(i \<mapsto> t))"
proof -
  note ts = take_state_Some [OF assms(2)]
  have p: "runnable_ids k \<union> blocked_ids k \<subseteq> parked (vk_registry k)" "runnable_ids k \<inter> blocked_ids k = {}"
    "parked (vk_registry k) \<inter> dom out = {}" "parked (vk_registry k) \<union> dom out = active_threads (vk_registry k)"
    "\<forall>i t. out i = Some t \<longrightarrow> th_is_spawned t"
    using assms(1) by (simp_all add: places_ok_def)
  have "parked r \<union> dom (out(i \<mapsto> t)) = active_threads r" using p(4) ts(1-3) by auto
  moreover have "parked r \<inter> dom (out(i \<mapsto> t)) = {}" using p(3) ts(2) by auto
  moreover have "runnable_ids k \<union> blocked_ids k \<subseteq> parked r" using p(1) ts(2) assms(4,5) by auto
  ultimately show ?thesis using p(2,5) assms(3) unfolding places_ok_def assms(6-8) by simp
qed

lemma woken_step:
  assumes "woken_inv ex (insert i X) Y k out" and "i \<notin> X" and "take_state i (vk_registry k) = (Some t, r)"
  shows "woken_inv ex X (Y - {i}) (with_quota (release_wait (i \<in> Y)) (k\<lparr>vk_registry := r\<rparr>)) (out(i \<mapsto> t))"
    and "th_is_spawned t" and "out i = None"
proof -
  note inv = woken_invD [OF assms(1)]
  note ts = take_state_Some [OF assms(3)]
  show sp: "th_is_spawned t" using ts(5) inv(1) by (simp add: parts_ok_def)
  show out: "out i = None" using ts(1) inv(2) by (auto simp: places_ok_def)
  have reg: "registry_inv r" using registry_apply_inv [of "vk_registry k" "Take i"] inv(1) assms(3) by (simp add: parts_ok_def)
  let ?k = "with_quota (release_wait (i \<in> Y)) (k\<lparr>vk_registry := r\<rparr>)"
  have "card (insert i X) = Suc (card X)" using assms(2) by simp
  then have "counters_ok ex X (Y - {i}) ?k"
    using inv(3) ts(3) card_pos [of i Y] unfolding counters_ok_def with_quota_def card_remove by (cases "i \<in> Y") auto
  moreover have "parts_ok ?k" using inv(1) ts reg by (simp add: parts_ok_def with_quota_def)
  moreover have "places_ok ?k (out(i \<mapsto> t))" by (rule places_ok_taken [OF inv(2) assms(3) sp]) (use inv(7) in \<open>auto simp: with_quota_def\<close>)
  ultimately show "woken_inv ex X (Y - {i}) ?k (out(i \<mapsto> t))"
    using inv ts(1,2) assms(2) unfolding woken_inv_def by (auto simp: with_quota_def)
qed

lemma wake_all_inv:
  assumes "woken_inv ex (set is) (set is) k out" and "distinct is" and "runnable_inv (length is) (vk_runnable k)"
  shows "kernel_inv ex (snd (wake_all is k)) out"
  using assms
proof (induction "is" arbitrary: k)
  case Nil
  then show ?case by (simp add: kernel_inv_woken)
next
  case (Cons i "is")
  have "i \<in> parked (vk_registry k)" using woken_invD(6) [OF Cons.prems(1)] by simp
  then obtain t r where t: "take_state i (vk_registry k) = (Some t, r)" using take_state_parked by blast
  have "i \<notin> set is" using Cons.prems(2) by simp
  note ws = woken_step [where i = i and X = "set is" and Y = "set (i # is)", OF _ this t]
  let ?k = "with_quota (release_wait True) (k\<lparr>vk_registry := r\<rparr>)"
  have "set (i # is) - {i} = set is" using \<open>i \<notin> set is\<close> by auto
  then have w: "woken_inv ex (set is) (set is) ?k (out(i \<mapsto> t))" "th_is_spawned t" "out i = None"
    using ws [of ex out] Cons.prems(1) by simp_all
  have room: "runnable_inv (Suc (length is)) (vk_runnable ?k)" using Cons.prems(3) by (simp add: with_quota_def)
  from enqueue_with_inv [where i = i, OF w(1) _ w(2) queue_ends(1) room]
  have e: "woken_inv ex (set is) (set is) (snd (enqueue_runnable i t ?k)) (out(i := None))"
    "runnable_inv (length is) (vk_runnable (snd (enqueue_runnable i t ?k)))"
    by (simp_all add: enqueue_runnable_def)
  have "out(i := None) = out" using w(3) by auto
  with Cons.IH [of "snd (enqueue_runnable i t ?k)"] e Cons.prems(2) show ?case
    by (simp add: t case_prod_beta)
qed

text \<open>Removing threads from the blocked queue, the reservations still held.\<close>

lemma woken_start:
  assumes "kernel_inv ex k out" and "blocked_inv b" and "X \<subseteq> blocked_ids k"
    and "\<forall>i. waiting b i = (if i \<in> X then None else waiting (vk_blocked k) i)"
  shows "woken_inv ex X (X \<inter> timed_ids k) (k\<lparr>vk_blocked := b\<rparr>) out"
proof -
  have B: "blocked_ids (k\<lparr>vk_blocked := b\<rparr>) = blocked_ids k - X" "timed_ids (k\<lparr>vk_blocked := b\<rparr>) = timed_ids k - X"
    using assms(4) by (auto simp: blocked_ids_def timed_ids_def dom_def split: if_splits)
  have "card (blocked_ids k) = card (blocked_ids k - X) + card X"
    using assms(3) by (simp add: card_Diff_subset card_mono)
  moreover have "card (timed_ids k) = card (timed_ids k - X) + card (X \<inter> timed_ids k)"
    by (metis card_Diff_subset_Int finite Int_commute add.commute card_mono inf_le1 le_add_diff_inverse)
  ultimately show ?thesis
    using assms B unfolding woken_inv_def kernel_inv_def
    by (auto simp: parts_ok_def places_ok_def counters_ok_def)
qed

lemma kernel_tick_inv:
  assumes "kernel_inv ex k out" and "runnable_inv (2 ^ 32) (vk_runnable k)"
  shows "kernel_inv ex (snd (kernel_tick d k)) out"
proof -
  have b: "blocked_inv (vk_blocked k)" using assms(1) by (simp add: kernel_inv_def parts_ok_def)
  obtain ws b' where t: "tick_timeouts d (vk_blocked k) = (ws, b')" by fastforce
  note tk = tick_ok [OF b, of d, unfolded t, simplified]
  have due: "set ws \<subseteq> timed_ids k" "set ws \<subseteq> blocked_ids k"
    using tk(4) by (auto simp: is_due_def timed_ids_def blocked_ids_def split: option.splits)
  have "woken_inv ex (set ws) (set ws \<inter> timed_ids k) (k\<lparr>vk_blocked := b'\<rparr>) out"
    using tk by (intro woken_start [OF assms(1)] due(2)) auto
  then have "woken_inv ex (set ws) (set ws) (k\<lparr>vk_blocked := b'\<rparr>) out"
    using due(1) by (simp add: Int_absorb2)
  moreover have "length ws \<le> 2 ^ 32" using card_ids [of "set ws"] distinct_card [OF tk(5)] by simp
  ultimately show ?thesis
    using wake_all_inv [of ex ws "k\<lparr>vk_blocked := b'\<rparr>" out] tk(5) runnable_inv_mono [OF assms(2)]
    by (simp add: kernel_tick_def t)
qed

lemma kernel_unblock_inv:
  assumes "kernel_inv ex k out" and "runnable_inv 1 (vk_runnable k)"
  shows "kernel_inv ex (snd (kernel_unblock i k)) out"
proof -
  have b: "blocked_inv (vk_blocked k)" using assms(1) by (simp add: kernel_inv_def parts_ok_def)
  obtain was had b' where u: "unblock i (vk_blocked k) = ((was, had), b')" by (metis prod.collapse)
  note ub = unblock_ok [OF b, of i, unfolded u, simplified]
  show ?thesis
  proof (cases "i \<in> blocked_ids k")
    case False
    then have "\<not> was" using ub(3) by (auto simp: blocked_ids_def dom_def)
    moreover have "woken_inv ex {} ({} \<inter> timed_ids k) (k\<lparr>vk_blocked := b'\<rparr>) out"
      using ub False by (intro woken_start [OF assms(1)]) (auto simp: blocked_ids_def dom_def)
    ultimately show ?thesis by (simp add: kernel_unblock_def u Let_def kernel_inv_woken)
  next
    case True
    then have was: "was" and had: "had \<longleftrightarrow> i \<in> timed_ids k"
      using ub(3) by (auto simp: blocked_ids_def timed_ids_def dom_def)
    have w0: "woken_inv ex (insert i {}) ({i} \<inter> timed_ids k) (k\<lparr>vk_blocked := b'\<rparr>) out"
      using ub True by (intro woken_start [OF assms(1)]) auto
    then have "i \<in> parked (vk_registry k)" using woken_invD(6) [OF w0] by simp
    then obtain t r where t: "take_state i (vk_registry k) = (Some t, r)" using take_state_parked by blast
    from woken_step [OF w0, of t r] t had
    have w: "woken_inv ex {} {} (with_quota (release_wait had) (k\<lparr>vk_blocked := b', vk_registry := r\<rparr>)) (out(i \<mapsto> t))"
      "th_is_spawned t" "out i = None" by auto
    have room: "runnable_inv (Suc 0) (vk_runnable (with_quota (release_wait had) (k\<lparr>vk_blocked := b', vk_registry := r\<rparr>)))"
      using assms(2) by (simp add: with_quota_def)
    have "out(i := None) = out" using w(3) by auto
    then have "kernel_inv ex (snd (enqueue_runnable i t (with_quota (release_wait had) (k\<lparr>vk_blocked := b', vk_registry := r\<rparr>)))) out"
      using enqueue_with_inv [where i = i, OF w(1) _ w(2) queue_ends(1) room] by (simp add: enqueue_runnable_def kernel_inv_woken)
    then show ?thesis
      by (auto simp: kernel_unblock_def u Let_def was t split: prod.splits sum.splits)
  qed
qed

section \<open>Spawning, cancelling, exiting\<close>

lemma mark_spawned_quota:
  assumes "mark_spawned (t\<lparr>th_global_quota := gq\<rparr>) = (res, t')"
  shows "case res of Inl e \<Rightarrow> th_global_quota t' = gq \<and> th_is_spawned t' = th_is_spawned t
         | Inr _ \<Rightarrow> th_global_quota t' = gq\<lparr>gq_threads := gq_threads gq + 1\<rparr> \<and> th_is_spawned t'"
  using assms by (auto simp: mark_spawned_def try_reserve_threads_def Let_def split: if_splits)

lemma drop_states_spawned: "th_is_spawned t \<Longrightarrow> drop_states [t] k = k\<lparr>vk_quota := release_threads (vk_quota k) 1\<rparr>"
  by (simp add: drop_states_def drop_state_quota)

lemma kernel_inv_quota:
  assumes "kernel_inv ex k out" and "gq_runnable_threads gq = gq_runnable_threads (vk_quota k)"
    and "gq_pending_states gq = gq_pending_states (vk_quota k)" and "gq_timers gq = gq_timers (vk_quota k)"
    and "gq_threads gq = gq_threads (vk_quota k)" and "gq_limits gq = gq_limits (vk_quota k)"
  shows "kernel_inv ex (k\<lparr>vk_quota := gq\<rparr>) out"
  using assms by (auto simp: kernel_inv_def counters_ok_def finite_limits_def)

lemma spawn_inv:
  assumes "kernel_inv ex k out" and "\<not> th_is_spawned t"
  shows "kernel_inv ex (snd (spawn t key k)) out"
proof -
  have parts: "parts_ok k" "places_ok k out" "counters_ok ex {} {} k" using assms(1) by (simp_all add: kernel_inv_def)
  obtain res t1 where m: "mark_spawned (t\<lparr>th_global_quota := vk_quota k\<rparr>) = (res, t1)" by fastforce
  note ms = mark_spawned_quota [OF m]
  have cnt: "unat (gq_threads (vk_quota k)) = card (active_threads (vk_registry k))"
    using parts(3) by (simp add: counters_ok_def)
  have "card (active_threads (vk_registry k)) \<le> 2 ^ 32" by (rule card_ids)
  then have suc: "unat (gq_threads (vk_quota k) + 1) = Suc (card (active_threads (vk_registry k)))"
    using cnt by (simp add: unat_Suc)
  then have restored: "saturating_sub (gq_threads (vk_quota k) + 1) 1 = gq_threads (vk_quota k)"
    using cnt by (simp add: word_unat_eq_iff unat_release)
  show ?thesis
  proof (cases res)
    case (Inl e)
    then show ?thesis
      using m ms assms by (simp add: spawn_def drop_states_def drop_state_quota kernel_inv_quota)
  next
    case (Inr u)
    let ?k1 = "k\<lparr>vk_quota := th_global_quota t1\<rparr>"
    have t1: "th_is_spawned t1" "th_global_quota t1 = (vk_quota k)\<lparr>gq_threads := gq_threads (vk_quota k) + 1\<rparr>"
      using ms Inr by simp_all
    have undo: "kernel_inv ex (drop_states [t1] ?k1) out"
      using t1 restored assms(1) by (simp add: drop_states_spawned release_threads_def kernel_inv_quota)
    obtain a ids where a: "try_allocate (vk_ids k) = (a, ids)" by fastforce
    show ?thesis
    proof (cases "key_is_available key (vk_registry k)")
      case False
      then show ?thesis using m Inr undo by (simp add: spawn_def Let_def)
    next
      case True
      show ?thesis
      proof (cases a)
        case None
        with a parts(1) have "ids = vk_ids k" using try_allocate_None(2) [of 1 "vk_ids k" ids] by (simp add: parts_ok_def)
        then have "snd (spawn t key k) = drop_states [t1] ?k1" using m Inr True a None by (simp add: spawn_def Let_def)
        with undo show ?thesis by simp
      next
        case (Some i)
        have ids: "id_manager_inv 1 (vk_ids k)" using parts(1) by (simp add: parts_ok_def)
        note al = try_allocate_Some [OF ids a [unfolded Some]] id_manager_inv_allocate [OF ids a]
        have fresh: "tr_tcbs (vk_registry k) i = None" using al(1) parts(1) by (auto simp: parts_ok_def)
        obtain pr d r where p: "park i t1 key (vk_registry k) = (pr, d, r)" by (metis prod_cases3)
        with True park_fails [of i t1 key "vk_registry k"] obtain v where pr: "pr = Inr v" by (cases pr) auto
        note pf = park_fresh [OF p [unfolded pr] fresh]
        have "registry_inv r"
          using registry_apply_inv [of "vk_registry k" "Park i t1 key"] parts(1) fresh p by (simp add: parts_ok_def)
        moreover have "i \<notin> active_threads (vk_registry k)" using fresh by (simp add: active_threads_tcbs)
        moreover have "snd (spawn t key k) = ?k1\<lparr>vk_ids := ids, vk_registry := r\<rparr>"
          using m Inr True a Some p pr pf(1) by (simp add: spawn_def Let_def drop_states_def)
        ultimately show ?thesis
          using parts al pf t1 suc unfolding kernel_inv_def
          by (auto simp: parts_ok_def places_ok_def counters_ok_def)
      qed
    qed
  qed
qed

text \<open>The two queues after a removal.\<close>

lemma runnable_remove_ids:
  assumes "runnable_inv 0 (vk_runnable k)" and "runnable_remove i (vk_runnable k) = (was, q)"
  shows "runnable_inv 0 q" and "was \<longleftrightarrow> i \<in> runnable_ids k" and "runnable_ids (k\<lparr>vk_runnable := q\<rparr>) = runnable_ids k - {i}"
  using ready_remove [OF assms(1), of i] assms(2) by (auto simp: runnable_ids_def)

lemma blocked_remove_ids:
  assumes "blocked_inv (vk_blocked k)" and "blocked_remove i (vk_blocked k) = (info, b)"
  shows "blocked_inv b" and "info = (if i \<in> blocked_ids k then Some (i \<in> timed_ids k) else None)"
    and "blocked_ids (k\<lparr>vk_blocked := b\<rparr>) = blocked_ids k - {i}" and "timed_ids (k\<lparr>vk_blocked := b\<rparr>) = timed_ids k - {i}"
proof -
  obtain was had b' where u: "unblock i (vk_blocked k) = ((was, had), b')" by (metis prod.collapse)
  note ub = unblock_ok [OF assms(1), of i, unfolded u, simplified]
  have b: "b = b'" "info = (if was then Some had else None)" using assms(2) u by (auto simp: blocked_remove_eq)
  show "blocked_inv b" "info = (if i \<in> blocked_ids k then Some (i \<in> timed_ids k) else None)"
    using ub b by (auto simp: blocked_ids_def timed_ids_def dom_def)
  show "blocked_ids (k\<lparr>vk_blocked := b\<rparr>) = blocked_ids k - {i}" "timed_ids (k\<lparr>vk_blocked := b\<rparr>) = timed_ids k - {i}"
    using ub b by (auto simp: blocked_ids_def timed_ids_def dom_def split: if_splits)
qed

text \<open>Removing a thread from the registry that has no VM state there.\<close>

definition forget_thread :: "ThreadId \<Rightarrow> VirtualKernel \<Rightarrow> VirtualKernel" where
  "forget_thread i k =
    (case registry_cancel i (vk_registry k) of
       (removed, dropped, r) \<Rightarrow>
         drop_states dropped (k\<lparr>vk_registry := r, vk_ids := (if removed then free_id (vk_ids k) i else vk_ids k)\<rparr>))"

lemma forget_thread_parts:
  assumes "parts_ok k" and "i \<notin> parked (vk_registry k)"
  shows "parts_ok (forget_thread i k)" and "vk_quota (forget_thread i k) = vk_quota k"
    and "runnable_ids (forget_thread i k) = runnable_ids k" and "blocked_ids (forget_thread i k) = blocked_ids k"
    and "timed_ids (forget_thread i k) = timed_ids k" and "parked (vk_registry (forget_thread i k)) = parked (vk_registry k)"
    and "active_threads (vk_registry (forget_thread i k)) = active_threads (vk_registry k) - {i}"
proof -
  obtain b d r where c: "registry_cancel i (vk_registry k) = (b, d, r)" by (metis prod_cases3)
  note rc = registry_cancel_state [OF c]
  have eq: "forget_thread i k = k\<lparr>vk_registry := r, vk_ids := (if b then free_id (vk_ids k) i else vk_ids k)\<rparr>"
    using rc(7) [OF assms(2)] by (simp add: forget_thread_def c drop_states_def)
  have "dom (tr_tcbs (vk_registry k)) - {i} \<subseteq> active_ids (if b then free_id (vk_ids k) i else vk_ids k)"
    using assms(1) rc(6) local_ids.live_release [of 1 "vk_ids k" i] by (auto simp: parts_ok_def)
  then show "parts_ok (forget_thread i k)"
    using assms(1) rc by (simp add: eq parts_ok_def id_manager_inv_free)
  show "vk_quota (forget_thread i k) = vk_quota k"
    "runnable_ids (forget_thread i k) = runnable_ids k" "blocked_ids (forget_thread i k) = blocked_ids k"
    "timed_ids (forget_thread i k) = timed_ids k" "parked (vk_registry (forget_thread i k)) = parked (vk_registry k)"
    "active_threads (vk_registry (forget_thread i k)) = active_threads (vk_registry k) - {i}"
    using rc assms(2) by (simp_all add: eq)
qed

lemma kernel_cancel_split:
  assumes "runnable_remove i (vk_runnable k) = (was, q)" and "blocked_remove i (vk_blocked k) = (info, b)"
    and "take_state i (vk_registry k) = (opt, r)"
  shows "snd (kernel_cancel i k) = forget_thread i
    (let k1 = k\<lparr>vk_runnable := q, vk_blocked := b, vk_registry := r\<rparr> in
     case opt of
       None \<Rightarrow> k1
     | Some t \<Rightarrow>
         drop_states [t] (with_quota
           (\<lambda>gq. let gq1 = (if was then release_runnable_threads gq 1 else gq) in
                 case info of None \<Rightarrow> gq1 | Some had_timer \<Rightarrow> release_wait had_timer gq1) k1))"
  unfolding kernel_cancel_def forget_thread_def assms Let_def prod.case by (simp split: prod.splits)

lemma cancel_parked:
  assumes "kernel_inv ex k out" and "i \<in> parked (vk_registry k)"
  shows "kernel_inv ex (snd (kernel_cancel i k)) out"
proof -
  have parts: "parts_ok k" "places_ok k out" "counters_ok ex {} {} k" using assms(1) by (simp_all add: kernel_inv_def)
  obtain was q where rr: "runnable_remove i (vk_runnable k) = (was, q)" by fastforce
  obtain info b where br: "blocked_remove i (vk_blocked k) = (info, b)" by fastforce
  obtain t r where t: "take_state i (vk_registry k) = (Some t, r)" using take_state_parked [OF assms(2)] by blast
  have q: "runnable_inv 0 (vk_runnable k)" and bi: "blocked_inv (vk_blocked k)" using parts(1) by (simp_all add: parts_ok_def)
  note R = runnable_remove_ids [OF q rr] and B = blocked_remove_ids [OF bi br] and T = take_state_Some [OF t]
  have sp: "th_is_spawned t" "all_spawned r" using T(5) parts(1) by (simp_all add: parts_ok_def)
  have reg: "registry_inv r" using registry_apply_inv [of "vk_registry k" "Take i"] parts(1) t by (simp add: parts_ok_def)
  define gq' where "gq' = (let gq1 = (if was then release_runnable_threads (vk_quota k) 1 else vk_quota k) in
      case info of None \<Rightarrow> gq1 | Some had_timer \<Rightarrow> release_wait had_timer gq1)"
  let ?k1 = "k\<lparr>vk_runnable := q, vk_blocked := b, vk_registry := r, vk_quota := release_threads gq' 1\<rparr>"
  have eq: "snd (kernel_cancel i k) = forget_thread i ?k1"
    by (simp add: kernel_cancel_split [OF rr br t] drop_states_spawned [OF sp(1)] with_quota_def gq'_def)
  have p1: "parts_ok ?k1" "i \<notin> parked (vk_registry ?k1)"
    using parts(1) R(1) B(1) T(2,4) sp(2) reg by (simp_all add: parts_ok_def)
  note f = forget_thread_parts [OF p1]
  have ids: "runnable_ids ?k1 = runnable_ids k - {i}" "blocked_ids ?k1 = blocked_ids k - {i}" "timed_ids ?k1 = timed_ids k - {i}"
    using R(3) B(3,4) by (simp_all add: runnable_ids_def blocked_ids_def timed_ids_def)
  have disj: "\<not> (i \<in> runnable_ids k \<and> i \<in> blocked_ids k)" and sub: "timed_ids k \<subseteq> blocked_ids k"
    and act: "i \<in> active_threads (vk_registry k)" and out: "i \<notin> dom out"
    using parts(2) assms(2) timed_subset by (auto simp: places_ok_def)
  have gq: "gq_threads gq' = gq_threads (vk_quota k)" "finite_limits gq' = finite_limits (vk_quota k)"
    "unat (gq_runnable_threads gq') = unat (gq_runnable_threads (vk_quota k)) - (if i \<in> runnable_ids k then 1 else 0)"
    "unat (gq_pending_states gq') = unat (gq_pending_states (vk_quota k)) - (if i \<in> blocked_ids k then 1 else 0)"
    "unat (gq_timers gq') = unat (gq_timers (vk_quota k)) - (if i \<in> timed_ids k then 1 else 0)"
    using R(2) B(2) sub by (auto simp: gq'_def release_runnable_threads_def unat_release)
  have "counters_ok ex {} {} (forget_thread i ?k1)"
    using parts(3) act unfolding counters_ok_def f ids
    by (auto simp: card_remove T(3) release_threads_def unat_release gq)
  moreover have "places_ok (forget_thread i ?k1) out"
    using parts(2) out unfolding places_ok_def f ids by (auto simp: T)
  ultimately show ?thesis using f(1) by (simp add: eq kernel_inv_def)
qed

text \<open>Cancelling a thread whose state has been taken out of the registry: it leaves both queues, and nothing is given back.\<close>

lemma cancel_taken:
  assumes "parts_ok k" and "i \<notin> parked (vk_registry k)"
  shows "parts_ok (snd (kernel_cancel i k))" and "vk_quota (snd (kernel_cancel i k)) = vk_quota k"
    and "runnable_ids (snd (kernel_cancel i k)) = runnable_ids k - {i}" and "blocked_ids (snd (kernel_cancel i k)) = blocked_ids k - {i}"
    and "timed_ids (snd (kernel_cancel i k)) = timed_ids k - {i}"
    and "parked (vk_registry (snd (kernel_cancel i k))) = parked (vk_registry k)"
    and "active_threads (vk_registry (snd (kernel_cancel i k))) = active_threads (vk_registry k) - {i}"
proof -
  obtain was q where rr: "runnable_remove i (vk_runnable k) = (was, q)" by fastforce
  obtain info b where br: "blocked_remove i (vk_blocked k) = (info, b)" by fastforce
  obtain opt r where t: "take_state i (vk_registry k) = (opt, r)" by fastforce
  with assms(2) have tn: "opt = None" "r = vk_registry k"
    using take_state_None [of i "vk_registry k" r] take_state_Some(1) [of i "vk_registry k" _ r] by (cases opt; simp)+
  have q: "runnable_inv 0 (vk_runnable k)" and bi: "blocked_inv (vk_blocked k)" using assms(1) by (simp_all add: parts_ok_def)
  note R = runnable_remove_ids [OF q rr] and B = blocked_remove_ids [OF bi br]
  let ?k1 = "k\<lparr>vk_runnable := q, vk_blocked := b\<rparr>"
  have eq: "snd (kernel_cancel i k) = forget_thread i ?k1"
    by (simp add: kernel_cancel_split [OF rr br t] tn)
  have p1: "parts_ok ?k1" "i \<notin> parked (vk_registry ?k1)"
    using assms R(1) B(1) by (simp_all add: parts_ok_def)
  note f = forget_thread_parts [OF p1]
  have ids: "runnable_ids ?k1 = runnable_ids k - {i}" "blocked_ids ?k1 = blocked_ids k - {i}" "timed_ids ?k1 = timed_ids k - {i}"
    using R(3) B(3,4) by (simp_all add: runnable_ids_def blocked_ids_def timed_ids_def)
  show "parts_ok (snd (kernel_cancel i k))" "vk_quota (snd (kernel_cancel i k)) = vk_quota k"
    "active_threads (vk_registry (snd (kernel_cancel i k))) = active_threads (vk_registry k) - {i}"
    "parked (vk_registry (snd (kernel_cancel i k))) = parked (vk_registry k)"
    by (simp_all add: eq f)
  show "runnable_ids (snd (kernel_cancel i k)) = runnable_ids k - {i}" "blocked_ids (snd (kernel_cancel i k)) = blocked_ids k - {i}"
    "timed_ids (snd (kernel_cancel i k)) = timed_ids k - {i}"
    by (simp_all only: eq f ids)
qed

lemma cancel_absent:
  assumes "parts_ok k" and "places_ok k out" and "i \<notin> parked (vk_registry k)"
  shows "parts_ok (snd (kernel_cancel i k))" and "places_ok (snd (kernel_cancel i k)) (out(i := None))"
    and "vk_quota (snd (kernel_cancel i k)) = vk_quota k"
    and "runnable_ids (snd (kernel_cancel i k)) = runnable_ids k" and "blocked_ids (snd (kernel_cancel i k)) = blocked_ids k"
    and "timed_ids (snd (kernel_cancel i k)) = timed_ids k"
    and "active_threads (vk_registry (snd (kernel_cancel i k))) = active_threads (vk_registry k) - {i}"
proof -
  note c = cancel_taken [OF assms(1,3)]
  have no: "i \<notin> runnable_ids k" "i \<notin> blocked_ids k" "i \<notin> timed_ids k"
    using assms(2,3) timed_subset [of k] by (auto simp: places_ok_def)
  show "places_ok (snd (kernel_cancel i k)) (out(i := None))" using assms(2,3) no unfolding places_ok_def c by auto
qed (use cancel_taken [OF assms(1,3)] assms(2,3) timed_subset [of k] in \<open>auto simp: places_ok_def\<close>)

lemma cancel_unknown:
  assumes "kernel_inv ex k out" and "i \<notin> parked (vk_registry k)" and "out i = None"
  shows "kernel_inv ex (snd (kernel_cancel i k)) out"
proof -
  have parts: "parts_ok k" "places_ok k out" "counters_ok ex {} {} k" using assms(1) by (simp_all add: kernel_inv_def)
  note c = cancel_absent [OF parts(1,2) assms(2)]
  have "i \<notin> active_threads (vk_registry k)" using parts(2) assms(2,3) by (auto simp: places_ok_def)
  moreover have "out(i := None) = out" using assms(3) by auto
  ultimately show ?thesis using c parts(3) by (simp add: kernel_inv_def counters_ok_def)
qed

lemma cancel_worker:
  assumes "kernel_inv ex k out" and "out i = Some t"
  shows "kernel_inv ex (snd (kernel_cancel i (drop_states [t] k))) (out(i := None))"
proof -
  have parts: "parts_ok k" "places_ok k out" "counters_ok ex {} {} k" using assms(1) by (simp_all add: kernel_inv_def)
  have i: "i \<notin> parked (vk_registry k)" "i \<in> active_threads (vk_registry k)" "th_is_spawned t"
    using parts(2) assms(2) by (auto simp: places_ok_def)
  let ?k = "k\<lparr>vk_quota := release_threads (vk_quota k) 1\<rparr>"
  have c: "parts_ok ?k" "places_ok ?k out" "i \<notin> parked (vk_registry ?k)" using parts i by simp_all
  note c = cancel_absent [OF c]
  show ?thesis
    using c parts(3) i(2)
    by (simp add: drop_states_spawned [OF i(3)] kernel_inv_def counters_ok_def card_remove release_threads_def unat_release)
qed

lemma kernel_mark_exited_inv:
  assumes "kernel_inv ex k out" and "out i = Some t0" and "th_is_spawned t"
  shows "kernel_inv ex (snd (kernel_mark_exited i t result k)) (out(i := None))"
proof -
  have w: "woken_inv ex {} {} k out" using assms(1) by (simp add: kernel_inv_woken)
  note p = park_running_inv [OF w assms(2,3), folded kernel_inv_woken]
  let ?k1 = "park_running i t k"
  have parts: "parts_ok ?k1" "places_ok ?k1 (out(i := None))" "counters_ok ex {} {} ?k1" using p(1) by (simp_all add: kernel_inv_def)
  obtain b d r where m: "mark_exited i result (vk_registry ?k1) = (b, d, r)" by (metis prod_cases3)
  have i: "i \<in> parked (vk_registry ?k1)" using p(3) by simp
  have reg: "registry_inv (vk_registry ?k1)" and sub: "parked (vk_registry ?k1) \<subseteq> active_threads (vk_registry ?k1)"
    using parts(1,2) by (auto simp: parts_ok_def places_ok_def)
  note me = mark_exited_state [OF m i reg sub]
  from me(1) parts(1) obtain td where d: "d = [td]" "th_is_spawned td" by (auto simp: parts_ok_def)
  have k': "snd (kernel_mark_exited i t result k) = ?k1\<lparr>vk_registry := r, vk_quota := release_threads (vk_quota ?k1) 1\<rparr>"
    by (simp add: kernel_mark_exited_def Let_def m d drop_states_spawned)
  have no: "i \<notin> runnable_ids k" "i \<notin> blocked_ids k"
    using w assms(2) by (auto simp: woken_inv_def places_ok_def)
  have ids: "runnable_ids ?k1 = runnable_ids k" "blocked_ids ?k1 = blocked_ids k" by (simp_all add: p(2))
  have "dom (tr_tcbs r) \<subseteq> active_ids (vk_ids ?k1)" using me(4) parts(1) by (auto simp: parts_ok_def)
  then have "parts_ok (?k1\<lparr>vk_registry := r\<rparr>)" using parts(1) me(5,6) by (simp add: parts_ok_def)
  moreover have "places_ok (?k1\<lparr>vk_registry := r\<rparr>) (out(i := None))"
    using parts(2) no unfolding places_ok_def me view_simps ids by (auto simp: me)
  moreover have "counters_ok ex {} {} (?k1\<lparr>vk_registry := r, vk_quota := release_threads (vk_quota ?k1) 1\<rparr>)"
    using parts(3) i sub by (auto simp: counters_ok_def me card_remove release_threads_def unat_release)
  ultimately show ?thesis unfolding k' kernel_inv_def by (simp add: parts_ok_def places_ok_def)
qed

section \<open>Dispatching and blocking\<close>

lemma next_runnable_ids:
  assumes "kernel_inv ex k out" and "next_runnable_detailed k = (Some (i, f), k1)"
  shows "i \<in> runnable_ids k" and "runnable_ids k1 = runnable_ids k - {i}" and "runnable_inv 0 (vk_runnable k1)"
    and "k1 = k\<lparr>vk_runnable := vk_runnable k1\<rparr>"
proof -
  have q: "runnable_inv 0 (vk_runnable k)" using assms(1) by (simp add: kernel_inv_def parts_ok_def)
  obtain q' where d: "dequeue_detailed (vk_runnable k) = (Some (i, f), q')" and k1: "k1 = k\<lparr>vk_runnable := q'\<rparr>"
    using assms(2) by (auto simp: next_runnable_detailed_def split: prod.splits)
  note r = ready_dequeue [OF q, unfolded d, simplified]
  from r(1) have rd: "ready (vk_runnable k) = (i, f) # ready q'" by (auto split: list.splits)
  show "i \<in> runnable_ids k" "runnable_inv 0 (vk_runnable k1)" "k1 = k\<lparr>vk_runnable := vk_runnable k1\<rparr>"
    using r(2) by (simp_all add: runnable_ids_def rd k1)
  have "i \<notin> fst ` set (ready q')" using ready_queries(4) [OF q] by (auto simp: rd)
  then show "runnable_ids k1 = runnable_ids k - {i}" by (auto simp: runnable_ids_def rd k1)
qed

lemma dispatch_inv:
  assumes "kernel_inv ex k out" and "next_runnable_detailed k = (Some (i, f), k1)"
    and "take_thread i k1 = (Some t, k2)" and "kernel_mark_running i k2 = (b, k3)"
  shows "kernel_inv ex k3 (out(i \<mapsto> t))"
proof -
  have parts: "parts_ok k" "places_ok k out" "counters_ok ex {} {} k" using assms(1) by (simp_all add: kernel_inv_def)
  note n = next_runnable_ids [OF assms(1,2)]
  have reg1: "vk_registry k1 = vk_registry k" "vk_blocked k1 = vk_blocked k" "vk_quota k1 = vk_quota k" "vk_ids k1 = vk_ids k"
    by (subst n(4), simp)+
  obtain r where t: "take_state i (vk_registry k) = (Some t, r)"
    and k2: "k2 = k1\<lparr>vk_registry := r, vk_quota := release_runnable_threads (vk_quota k) 1\<rparr>"
    using assms(3) by (auto simp: take_thread_def reg1 with_quota_def split: prod.splits option.splits)
  note T = take_state_Some [OF t]
  obtain r' where m: "mark_running i r = (b, r')" and k3: "k3 = k2\<lparr>vk_registry := r'\<rparr>"
    using assms(4) by (auto simp: kernel_mark_running_def k2 split: prod.splits)
  note M = mark_running_state [OF m]
  have reg: "registry_inv r" using registry_apply_inv [of "vk_registry k" "Take i"] parts(1) t by (simp add: parts_ok_def)
  have sp: "th_is_spawned t" "all_spawned r" using T(5) parts(1) by (simp_all add: parts_ok_def)
  have ids: "runnable_ids k3 = runnable_ids k - {i}" "blocked_ids k3 = blocked_ids k" "timed_ids k3 = timed_ids k"
    using n(2) by (simp_all add: k3 k2 runnable_ids_def blocked_ids_def timed_ids_def reg1)
  have regs: "parked (vk_registry k3) = parked (vk_registry k) - {i}" "active_threads (vk_registry k3) = active_threads (vk_registry k)"
    using T M by (simp_all add: k3)
  have "parts_ok k3"
    using parts(1) n(3) T(4) M(3,4,5) reg sp(2) by (simp add: parts_ok_def k3 k2 reg1)
  moreover have "places_ok k3 (out(i \<mapsto> t))"
    using parts(2) n(1) sp(1) T(1) unfolding places_ok_def ids regs by auto
  moreover have "counters_ok ex {} {} k3"
    using parts(3) n(1) card_pos [OF n(1)] unfolding counters_ok_def ids regs
    by (auto simp: k3 k2 release_runnable_threads_def unat_release card_remove)
  ultimately show ?thesis by (simp add: kernel_inv_def)
qed

lemma start_inv:
  assumes "kernel_inv ex k out" and "take_created_thread i k = (Some t, k')" and "i \<notin> runnable_ids k" and "i \<notin> blocked_ids k"
  shows "kernel_inv ex k' (out(i \<mapsto> t))"
proof -
  have parts: "parts_ok k" "places_ok k out" "counters_ok ex {} {} k" using assms(1) by (simp_all add: kernel_inv_def)
  obtain r where t: "take_state i (vk_registry k) = (Some t, r)" and k': "k' = k\<lparr>vk_registry := r\<rparr>"
    using assms(2) by (auto simp: take_created_thread_def take_created_def split: prod.splits if_splits)
  note T = take_state_Some [OF t]
  have "registry_inv r" using registry_apply_inv [of "vk_registry k" "Take i"] parts(1) t by (simp add: parts_ok_def)
  then show ?thesis
    using parts T assms(3,4) by (auto simp: kernel_inv_def parts_ok_def places_ok_def counters_ok_def k')
qed

text \<open>A worker's thread goes to the blocked queue.\<close>

lemma blocked_insert_inv:
  assumes "kernel_inv ex k out" and "out i = Some t0" and "th_is_spawned t" and "blocked_inv b"
    and "waiting b = (waiting (vk_blocked k))(i \<mapsto> d)"
    and "gq_runnable_threads gq = gq_runnable_threads (vk_quota k)" and "gq_threads gq = gq_threads (vk_quota k)"
    and "unat (gq_pending_states gq) = Suc (unat (gq_pending_states (vk_quota k)))"
    and "unat (gq_timers gq) = unat (gq_timers (vk_quota k)) + (if d = None then 0 else 1)"
    and "finite_limits gq = finite_limits (vk_quota k)"
  shows "kernel_inv ex (park_running i t (k\<lparr>vk_blocked := b, vk_quota := gq\<rparr>)) (out(i := None))"
proof -
  have w: "woken_inv ex {} {} k out" using assms(1) by (simp add: kernel_inv_woken)
  have parts: "parts_ok k" "places_ok k out" "counters_ok ex {} {} k" using assms(1) by (simp_all add: kernel_inv_def)
  note p = park_running_inv [OF w assms(2,3), folded kernel_inv_woken]
  have i: "i \<in> active_threads (vk_registry k)" "i \<notin> parked (vk_registry k)" "i \<notin> blocked_ids k" "i \<notin> runnable_ids k"
    using parts(2) assms(2) by (auto simp: places_ok_def)
  have "i \<notin> timed_ids k" using i(3) timed_subset [of k] by blast
  note i = i this
  obtain dr r where rs: "restore_vm_state i t (vk_registry k) = (dr, r)" by fastforce
  have dr: "dr = []" by (rule restore_state(1) [OF rs i(1,2)])
  let ?k = "k\<lparr>vk_blocked := b, vk_quota := gq, vk_registry := r\<rparr>"
  have eq: "park_running i t (k\<lparr>vk_blocked := b, vk_quota := gq\<rparr>) = ?k"
    by (simp add: park_running_def rs dr drop_states_def)
  have pk: "park_running i t k = k\<lparr>vk_registry := r\<rparr>" by (simp add: p(2) rs)
  have ids: "blocked_ids ?k = insert i (blocked_ids k)" "timed_ids ?k = (if d = None then timed_ids k else insert i (timed_ids k))"
    using assms(5) i(5) by (auto simp: blocked_ids_def timed_ids_def)
  have parts': "parts_ok (k\<lparr>vk_registry := r\<rparr>)" "places_ok (k\<lparr>vk_registry := r\<rparr>) (out(i := None))" "counters_ok ex {} {} (k\<lparr>vk_registry := r\<rparr>)"
    using p(1) by (simp_all add: kernel_inv_def pk)
  have par: "parked r = insert i (parked (vk_registry k))" using p(3) by (simp add: pk)
  have "parts_ok ?k" using parts'(1) assms(4) by (simp add: parts_ok_def)
  moreover have "places_ok ?k (out(i := None))"
    using parts'(2) i par unfolding places_ok_def ids by auto
  moreover have "counters_ok ex {} {} ?k"
    using parts'(3) assms(6-10) i(3,5) unfolding counters_ok_def ids by (auto split: if_splits)
  ultimately show ?thesis unfolding eq by (simp add: kernel_inv_def)
qed

lemma kernel_block_inv:
  assumes "kernel_inv ex k out" and "out i = Some t0" and "th_is_spawned t"
    and "\<forall>e. fst (kernel_block i t timeout k) = Inl e \<longrightarrow> failure_kind e \<noteq> IdSpaceExhausted"
  shows "kernel_inv ex (snd (kernel_block i t timeout k)) (out(i := None))"
proof -
  have parts: "parts_ok k" "places_ok k out" "counters_ok ex {} {} k" using assms(1) by (simp_all add: kernel_inv_def)
  have w: "woken_inv ex {} {} k out" using assms(1) by (simp add: kernel_inv_woken)
  note p = park_running_inv(1) [OF w assms(2,3), folded kernel_inv_woken]
  have b: "blocked_inv (vk_blocked k)" using parts(1) by (simp add: parts_ok_def)
  have "i \<notin> blocked_ids k" using parts(2) assms(2) by (auto simp: places_ok_def)
  then have nw: "waiting (vk_blocked k) i = None" by (auto simp: blocked_ids_def)
  obtain res gq where res: "try_reserve_pending_states (vk_quota k) 1 = (res, gq)" by fastforce
  show ?thesis
  proof (cases res)
    case (Inl e)
    then have "gq = vk_quota k" using res by (auto simp: try_reserve_pending_states_def Let_def split: if_splits)
    then show ?thesis using p Inl res by (simp add: kernel_block_def)
  next
    case (Inr u)
    then have gq: "gq = (vk_quota k)\<lparr>gq_pending_states := gq_pending_states (vk_quota k) + 1\<rparr>"
      using res by (auto simp: try_reserve_pending_states_def Let_def split: if_splits)
    have suc: "unat (gq_pending_states (vk_quota k) + 1) = Suc (unat (gq_pending_states (vk_quota k)))"
      by (rule reserve_pending_Suc [OF parts(3) res [unfolded Inr]]) simp
    show ?thesis
    proof (cases timeout)
      case None
      note bo = block_ok [OF b, of i]
      have k': "snd (kernel_block i t timeout k) = park_running i t (k\<lparr>vk_blocked := snd (block i (vk_blocked k)), vk_quota := gq\<rparr>)"
        using res Inr None bo(3) nw by (simp add: kernel_block_def Let_def with_quota_def case_prod_beta)
      show ?thesis unfolding k'
        by (rule blocked_insert_inv [OF assms(1-3) bo(1,2)]) (simp_all add: gq suc)
    next
      case (Some ms)
      obtain res' gq' where res': "try_reserve_timers gq 1 = (res', gq')" by fastforce
      show ?thesis
      proof (cases res')
        case (Inl e)
        then have "gq' = gq" using res' by (auto simp: try_reserve_timers_def Let_def split: if_splits)
        moreover have "release_pending_states gq 1 = vk_quota k"
          using suc by (simp add: gq release_pending_states_def word_unat_eq_iff unat_release)
        ultimately show ?thesis using p Inl res res' Inr Some by (simp add: kernel_block_def Let_def)
      next
        case (Inr u')
        then have gq': "gq' = gq\<lparr>gq_timers := gq_timers gq + 1\<rparr>"
          using res' by (auto simp: try_reserve_timers_def Let_def split: if_splits)
        have suc': "unat (gq_timers (vk_quota k) + 1) = Suc (unat (gq_timers (vk_quota k)))"
          by (rule reserve_timers_Suc [OF parts(3) res' [unfolded Inr]]) (simp_all add: gq)
        note bt = block_with_timeout_ok [OF b, of i ms]
        show ?thesis
        proof (cases "fst (block_with_timeout i ms (vk_blocked k))")
          case (Inl e)
          then have "e = new_failure IdSpaceExhausted ''timer id space exhausted''"
            by (auto simp: block_with_timeout_def Let_def split: prod.splits option.splits)
          moreover have "fst (kernel_block i t timeout k) = Inl e"
            using res res' \<open>res = Inr u\<close> \<open>res' = Inr u'\<close> Some Inl by (auto simp: kernel_block_def Let_def split: prod.splits)
          ultimately show ?thesis using assms(4) by simp
        next
          case (Inr had)
          note bt' = bt(2) [OF Inr]
          have k': "snd (kernel_block i t timeout k) =
              park_running i t (k\<lparr>vk_blocked := snd (block_with_timeout i ms (vk_blocked k)), vk_quota := gq'\<rparr>)"
            using res res' \<open>res = Inr u\<close> \<open>res' = Inr u'\<close> Some Inr bt' nw
            by (auto simp: kernel_block_def Let_def with_quota_def split: prod.splits)
          show ?thesis unfolding k'
            by (rule blocked_insert_inv [OF assms(1-3) bt(1) conjunct1 [OF bt']]) (simp_all add: gq gq' suc suc')
        qed
      qed
    qed
  qed
qed

end
