(* ===== verification/Kernel_Clients.thy ===== *)
theory Kernel_Clients
  imports Kernel_Props
begin

text \<open>
  The kernel calls of the orchestrator, \<^verbatim>\<open>galfus-runtime/src/orchestrator\<close>.  The orchestrator runs on one thread and finishes an
  event before it looks at the next, so a sequence of kernel calls inside one of its functions is one step for everybody else.
  The functions that call the kernel more than once are translated here with all their kernel calls, error paths included; what
  they do to a thread state in between (delivering a value, preparing a call) is a parameter.

  Four of these sequences give a place in the run queue back too early or lose the reservations of a waiting thread.  The step
  relation has a flag for them: \<open>kernel_step True\<close> leaves them out, \<open>kernel_step False\<close> has all steps.
\<close>

section \<open>Sequences of kernel calls\<close>

text \<open>\<open>cancel_and_teardown_thread\<close>; the thread is dropped after its handles are torn down.\<close>

definition teardown_thread :: "ThreadId \<Rightarrow> VirtualKernel \<Rightarrow> VirtualKernel" where
  "teardown_thread i k =
    snd (kernel_cancel i (case take_thread i k of (Some t, k1) \<Rightarrow> drop_states [t] k1 | (None, k1) \<Rightarrow> k1))"

text \<open>The event \<open>ThreadSpawned\<close>.  When the thread cannot be spawned, all threads are torn down one by one afterwards.\<close>

definition thread_spawned :: "VmThreadState \<Rightarrow> VirtualKernel \<Rightarrow> VirtualKernel" where
  "thread_spawned thread k =
    (case spawn thread None k of
       (Inl _, k1) \<Rightarrow> k1
     | (Inr i, k1) \<Rightarrow>
         (case take_thread i k1 of
            (None, k2) \<Rightarrow> k2
          | (Some t, k2) \<Rightarrow>
              (case enqueue_runnable i t k2 of (Inl _, k3) \<Rightarrow> teardown_thread i k3 | (Inr _, k3) \<Rightarrow> k3)))"

text \<open>
  \<open>resume_pending\<close> with \<open>resume_or_fail_front\<close>: a waiting thread continues with a value.  \<open>deliver t\<close> is the thread with the value
  in its registers, or \<open>None\<close> when the result is an error or the value cannot be delivered; the thread is then dropped when the
  function returns.
\<close>

definition resume_pending :: "(VmThreadState \<Rightarrow> VmThreadState option) \<Rightarrow> ThreadId \<Rightarrow> VirtualKernel \<Rightarrow> VirtualKernel" where
  "resume_pending deliver i k =
    (case kernel_unblock i k of
       (Inl _, k1) \<Rightarrow> teardown_thread i k1
     | (Inr _, k1) \<Rightarrow>
         (case take_thread i k1 of
            (None, k2) \<Rightarrow> k2
          | (Some t, k2) \<Rightarrow>
              (case deliver t of
                 None \<Rightarrow> drop_states [t] (teardown_thread i k2)
               | Some t' \<Rightarrow>
                   (case enqueue_runnable_front i t' k2 of (Inl _, k3) \<Rightarrow> teardown_thread i k3 | (Inr _, k3) \<Rightarrow> k3))))"

text \<open>\<open>block_or_fail\<close>; the orchestrator passes no timeout.\<close>

definition block_or_fail :: "ThreadId \<Rightarrow> VmThreadState \<Rightarrow> u64 option \<Rightarrow> VirtualKernel \<Rightarrow> VirtualKernel" where
  "block_or_fail i t timeout k =
    (case kernel_block i t timeout k of (Inl _, k1) \<Rightarrow> snd (kernel_cancel i k1) | (Inr _, k1) \<Rightarrow> k1)"

text \<open>
  The activation \<open>__internal_thread_spawn\<close>.  \<open>prepare t\<close> says whether the entry function could be called and gives the thread
  after the attempt.
\<close>

definition start_thread :: "(VmThreadState \<Rightarrow> bool \<times> VmThreadState) \<Rightarrow> ThreadId \<Rightarrow> VirtualKernel \<Rightarrow> VirtualKernel" where
  "start_thread prepare i k =
    (case take_created_thread i k of
       (None, k1) \<Rightarrow> k1
     | (Some t, k1) \<Rightarrow>
         (case prepare t of
            (False, t') \<Rightarrow> park_running i t' k1
          | (True, t') \<Rightarrow>
              (case kernel_mark_spawned i k1 of
                 (Inl _, k2) \<Rightarrow> park_running i t' k2
               | (Inr _, k2) \<Rightarrow>
                   (case enqueue_runnable i t' k2 of
                      (Inl _, k3) \<Rightarrow> k3
                    | (Inr _, k3) \<Rightarrow> snd (kernel_mark_running i k3)))))"

section \<open>Each sequence keeps the invariant\<close>

lemma kernel_invD:
  assumes "kernel_inv ex k out"
  shows "parts_ok k" "places_ok k out" "counters_ok ex {} {} k"
  using assms by (simp_all add: kernel_inv_def)

lemma take_thread_Some:
  assumes "take_thread i k = (Some t, k1)"
  obtains r where "take_state i (vk_registry k) = (Some t, r)"
    "k1 = k\<lparr>vk_registry := r, vk_quota := release_runnable_threads (vk_quota k) 1\<rparr>"
  using assms by (auto simp: take_thread_def with_quota_def split: prod.splits option.splits)

lemma take_thread_None:
  assumes "take_thread i k = (None, k1)"
  shows "k1 = k" "i \<notin> parked (vk_registry k)"
  using assms take_state_None [of i "vk_registry k"] by (auto simp: take_thread_def split: prod.splits option.splits)

lemma take_absent: "i \<notin> parked (vk_registry k) \<Longrightarrow> take_thread i k = (None, k)"
  using take_state_None [of i "vk_registry k"] take_state_Some(1) [of i "vk_registry k"]
  by (cases "take_state i (vk_registry k)"; cases "fst (take_state i (vk_registry k))") (auto simp: take_thread_def)

lemma counters_ok_registry:
  "counters_ok ex X Y (k\<lparr>vk_quota := gq\<rparr>) \<Longrightarrow> active_threads r = active_threads (vk_registry k) \<Longrightarrow>
   counters_ok ex X Y (k\<lparr>vk_registry := r, vk_quota := gq\<rparr>)"
  by (cases ex) (simp_all add: counters_ok_def)

text \<open>The counters after the place of a taken thread has been given back.\<close>

lemma counters_ok_release:
  assumes "counters_ok ex {} {} k" and "finite_limits (vk_quota k)"
  shows "counters_ok False {} {} (k\<lparr>vk_quota := release_runnable_threads (vk_quota k) 1\<rparr>)"
  using assms by (auto simp: counters_ok_def release_runnable_threads_def unat_release)

lemma taken_parts:
  assumes "parts_ok k" and "take_state i (vk_registry k) = (Some t, r)"
  shows "parts_ok (k\<lparr>vk_registry := r, vk_quota := gq\<rparr>)" and "i \<notin> parked r" and "th_is_spawned t"
proof -
  note T = take_state_Some [OF assms(2)]
  have "registry_inv r" using registry_apply_inv [of "vk_registry k" "Take i"] assms by (simp add: parts_ok_def)
  then show "parts_ok (k\<lparr>vk_registry := r, vk_quota := gq\<rparr>)" using assms(1) T by (simp add: parts_ok_def)
  show "i \<notin> parked r" "th_is_spawned t" using T assms(1) by (simp_all add: parts_ok_def)
qed

text \<open>A parked thread that is taken out and cancelled.\<close>

lemma cancel_after_take:
  assumes "parts_ok k" and "places_ok k out" and "take_state i (vk_registry k) = (Some t, r)"
    and k'_def: "k' = snd (kernel_cancel i (k\<lparr>vk_registry := r, vk_quota := gq\<rparr>))"
  shows "parts_ok k'" and "places_ok k' out" and "vk_quota k' = gq" and "runnable_ids k' = runnable_ids k - {i}"
    and "blocked_ids k' = blocked_ids k - {i}" and "timed_ids k' = timed_ids k - {i}"
    and "active_threads (vk_registry k') = active_threads (vk_registry k) - {i}"
    and "i \<in> active_threads (vk_registry k)"
proof -
  note T = take_state_Some [OF assms(3)] and P = taken_parts [OF assms(1,3)]
  have no: "i \<notin> parked (vk_registry (k\<lparr>vk_registry := r, vk_quota := gq\<rparr>))" using P(2) by simp
  note c = cancel_taken [OF P(1) no, folded k'_def]
  show "parts_ok k'" "vk_quota k' = gq" "runnable_ids k' = runnable_ids k - {i}" "blocked_ids k' = blocked_ids k - {i}"
    "timed_ids k' = timed_ids k - {i}" "active_threads (vk_registry k') = active_threads (vk_registry k) - {i}"
    using c T(3) by simp_all
  show "i \<in> active_threads (vk_registry k)" using T(1) assms(2) by (auto simp: places_ok_def)
  show "places_ok k' out" using assms(2) T unfolding places_ok_def c by auto
qed

lemma counters_ok_cancelled:
  assumes "counters_ok ex {} {} k" and "finite_limits (vk_quota k)" and "i \<in> active_threads (vk_registry k)"
    and "runnable_ids k' = runnable_ids k - {i}" and "blocked_ids k' = blocked_ids k - {i}" and "timed_ids k' = timed_ids k - {i}"
    and "active_threads (vk_registry k') = active_threads (vk_registry k) - {i}"
    and "vk_quota k' = release_threads (release_runnable_threads (vk_quota k) 1) 1"
  shows "counters_ok False {} {} k'"
  using assms(1-3) unfolding counters_ok_def assms(4-8) card_remove
  by (auto simp: release_threads_def release_runnable_threads_def unat_release)

lemma teardown_inv:
  assumes "kernel_inv False k out" and "out i = None"
  shows "kernel_inv False (teardown_thread i k) out"
proof (cases "i \<in> parked (vk_registry k)")
  case False
  then have "teardown_thread i k = snd (kernel_cancel i k)" by (simp add: teardown_thread_def take_absent)
  with cancel_unknown [OF assms(1) False assms(2)] show ?thesis by simp
next
  case True
  note inv = kernel_invD [OF assms(1)]
  from True obtain t r where t: "take_state i (vk_registry k) = (Some t, r)" using take_state_parked by blast
  let ?gq = "release_threads (release_runnable_threads (vk_quota k) 1) 1"
  have td: "teardown_thread i k = snd (kernel_cancel i (k\<lparr>vk_registry := r, vk_quota := ?gq\<rparr>))"
    using taken_parts(3) [OF inv(1) t]
    by (simp add: teardown_thread_def take_thread_def t with_quota_def drop_states_spawned)
  note c = cancel_after_take [OF inv(1,2) t td]
  have "counters_ok False {} {} (teardown_thread i k)"
    by (rule counters_ok_cancelled [OF inv(3) _ c(8) c(4-7) c(3)]) (use inv(3) in \<open>simp add: counters_ok_def\<close>)
  with c(1,2) show ?thesis by (simp add: kernel_inv_def)
qed

text \<open>A thread that is taken out and put back, wherever it is queued.\<close>

lemma put_back_inv:
  assumes "parts_ok k" and "places_ok k out" and "take_state i (vk_registry k) = (Some t, r)" and "th_is_spawned t'"
    and "counters_ok ex {} {} (k\<lparr>vk_quota := gq\<rparr>)"
  shows "kernel_inv ex (park_running i t' (k\<lparr>vk_registry := r, vk_quota := gq\<rparr>)) out"
proof -
  note T = take_state_Some [OF assms(3)] and P = taken_parts [OF assms(1,3)]
  have act: "i \<in> active_threads r" using T(1,3) assms(2) by (auto simp: places_ok_def)
  obtain d r' where rs: "restore_vm_state i t' r = (d, r')" by fastforce
  note R = restore_state [OF rs act P(2)]
  have eq: "park_running i t' (k\<lparr>vk_registry := r, vk_quota := gq\<rparr>) = k\<lparr>vk_registry := r', vk_quota := gq\<rparr>"
    by (simp add: park_running_def rs R(1) drop_states_def)
  have reg: "registry_inv r'"
    using registry_apply_inv [of r "Restore i t'"] P(1) rs by (simp add: parts_ok_def)
  have regs: "parked r' = parked (vk_registry k)" "active_threads r' = active_threads (vk_registry k)"
    "dom (tr_tcbs r') = dom (tr_tcbs (vk_registry k))" "all_spawned r'"
    using R T P(1) assms(1,4) by (auto simp: parts_ok_def)
  have "counters_ok ex {} {} (k\<lparr>vk_registry := r', vk_quota := gq\<rparr>)" by (rule counters_ok_registry [OF assms(5) regs(2)])
  then show ?thesis
    using assms(1,2) reg regs unfolding eq kernel_inv_def by (simp add: parts_ok_def places_ok_def)
qed

text \<open>A thread that is neither queued nor waiting, taken out and queued.\<close>

lemma queue_taken_inv:
  assumes "kernel_inv ex k (out(i \<mapsto> t))" and "out i = None" and "th_is_spawned t'" and "queue_end enq"
    and "runnable_inv (Suc n) (vk_runnable k)"
  shows "kernel_inv ex (snd (enqueue_with enq i t' k)) out"
proof -
  have "out(i := None) = out" using assms(2) by auto
  then show ?thesis
    using enqueue_with_inv [of ex "{}" "{}" k "out(i \<mapsto> t)" i t t' enq n] assms by (simp add: kernel_inv_woken)
qed

lemma taken_inv:
  assumes "kernel_inv ex k out" and "take_state i (vk_registry k) = (Some t, r)" and "i \<notin> runnable_ids k" and "i \<notin> blocked_ids k"
    and "counters_ok ex' {} {} (k\<lparr>vk_quota := gq\<rparr>)"
  shows "kernel_inv ex' (k\<lparr>vk_registry := r, vk_quota := gq\<rparr>) (out(i \<mapsto> t))" and "out i = None"
proof -
  note inv = kernel_invD [OF assms(1)] and T = take_state_Some [OF assms(2)] and P = taken_parts [OF kernel_invD(1) [OF assms(1)] assms(2)]
  have "places_ok (k\<lparr>vk_registry := r, vk_quota := gq\<rparr>) (out(i \<mapsto> t))"
    by (rule places_ok_taken [OF inv(2) assms(2) P(3) assms(3,4)]) simp_all
  then show "kernel_inv ex' (k\<lparr>vk_registry := r, vk_quota := gq\<rparr>) (out(i \<mapsto> t))"
    using P(1) counters_ok_registry [OF assms(5) T(3)] by (simp add: kernel_inv_def)
  show "out i = None" using T(1) inv(2) by (auto simp: places_ok_def)
qed

lemma enqueue_with_room:
  assumes "queue_end enq" and "runnable_inv (Suc n) (vk_runnable k)"
  shows "runnable_inv n (vk_runnable (snd (enqueue_with enq i t k)))" and "vk_blocked (snd (enqueue_with enq i t k)) = vk_blocked k"
proof -
  have park: "vk_runnable (park_running i t k') = vk_runnable k'" "vk_blocked (park_running i t k') = vk_blocked k'" for k'
    by (simp_all add: park_running_def drop_states_def split: prod.splits)
  show "vk_blocked (snd (enqueue_with enq i t k)) = vk_blocked k"
    by (simp add: enqueue_with_def park split: prod.splits sum.splits)
  have "runnable_inv n (vk_runnable k)" by (rule runnable_inv_mono [OF assms(2)]) simp
  then show "runnable_inv n (vk_runnable (snd (enqueue_with enq i t k)))"
    using assms by (auto simp: enqueue_with_def park queue_end_def split: prod.splits sum.splits)
qed

lemma kernel_unblock_room:
  assumes "runnable_inv (Suc n) (vk_runnable k)" and "blocked_inv (vk_blocked k)"
  shows "runnable_inv n (vk_runnable (snd (kernel_unblock i k)))" and "blocked_ids (snd (kernel_unblock i k)) = blocked_ids k - {i}"
proof -
  obtain was had b where u: "unblock i (vk_blocked k) = ((was, had), b)" by (metis prod.collapse)
  have b: "dom (waiting b) = dom (waiting (vk_blocked k)) - {i}" using unblock_ok(2) [OF assms(2), of i] by (simp add: u)
  have inv: "runnable_inv n (vk_runnable k)" by (rule runnable_inv_mono [OF assms(1)]) simp
  note e = enqueue_with_room [OF queue_ends(1) , of n, folded enqueue_runnable_def]
  have "runnable_inv n (vk_runnable (snd (kernel_unblock i k))) \<and> vk_blocked (snd (kernel_unblock i k)) = b"
  proof (cases "was \<and> fst (take_state i (vk_registry k)) \<noteq> None")
    case False
    then show ?thesis using inv by (auto simp: kernel_unblock_def u Let_def split: prod.splits option.splits)
  next
    case True
    then obtain t r where t: "take_state i (vk_registry k) = (Some t, r)" by (cases "take_state i (vk_registry k)") auto
    let ?k = "with_quota (release_wait had) (k\<lparr>vk_blocked := b, vk_registry := r\<rparr>)"
    have "snd (kernel_unblock i k) = snd (enqueue_runnable i t ?k)"
      using True t by (auto simp: kernel_unblock_def u Let_def split: prod.splits sum.splits)
    then show ?thesis using e [of ?k i t] assms(1) by (simp add: with_quota_def)
  qed
  with b show "runnable_inv n (vk_runnable (snd (kernel_unblock i k)))" "blocked_ids (snd (kernel_unblock i k)) = blocked_ids k - {i}"
    by (simp_all add: blocked_ids_def)
qed

text \<open>The thread states that a client may hand back.\<close>

definition keeps_spawned :: "(VmThreadState \<Rightarrow> VmThreadState option) \<Rightarrow> bool" where
  "keeps_spawned deliver \<longleftrightarrow> (\<forall>t t'. deliver t = Some t' \<longrightarrow> th_is_spawned t' = th_is_spawned t)"

lemma resume_pending_inv:
  assumes "kernel_inv False k out" and "keeps_spawned deliver" and "out i = None" and "runnable_inv 2 (vk_runnable k)"
  shows "kernel_inv False (resume_pending deliver i k) out"
proof -
  have bi: "blocked_inv (vk_blocked k)" using kernel_invD(1) [OF assms(1)] by (simp add: parts_ok_def)
  have room: "runnable_inv 1 (vk_runnable k)" by (rule runnable_inv_mono [OF assms(4)]) simp
  obtain res k1 where u: "kernel_unblock i k = (res, k1)" by fastforce
  have inv1: "kernel_inv False k1 out" using kernel_unblock_inv [OF assms(1) room, of i] u by simp
  have room1: "runnable_inv (Suc 0) (vk_runnable k1)" and nb: "i \<notin> blocked_ids k1"
    using kernel_unblock_room [of 1 k i] assms(4) bi u by (simp_all add: numeral_2_eq_2)
  note inv = kernel_invD [OF inv1]
  have fin: "finite_limits (vk_quota k1)" using inv(3) by (simp add: counters_ok_def)
  show ?thesis
  proof (cases res)
    case (Inl e)
    with u show ?thesis by (simp add: resume_pending_def teardown_inv [OF inv1 assms(3)])
  next
    case (Inr b)
    obtain to k2 where tk: "take_thread i k1 = (to, k2)" by fastforce
    show ?thesis
    proof (cases to)
      case None
      with tk take_thread_None(1) [of i k1 k2] u Inr inv1 show ?thesis by (simp add: resume_pending_def)
    next
      case (Some t)
      let ?gq = "release_runnable_threads (vk_quota k1) 1"
      from tk Some obtain r where t: "take_state i (vk_registry k1) = (Some t, r)"
        and k2: "k2 = k1\<lparr>vk_registry := r, vk_quota := ?gq\<rparr>" by (auto elim: take_thread_Some)
      note P = taken_parts [OF inv(1) t] and rel = counters_ok_release [OF inv(3) fin]
      show ?thesis
      proof (cases "deliver t")
        case None
        have absent: "i \<notin> parked (vk_registry k2)" using P(2) by (simp add: k2)
        then have td: "teardown_thread i k2 = snd (kernel_cancel i k2)" by (simp add: teardown_thread_def take_absent)
        note c = cancel_after_take [OF inv(1,2) t td [unfolded k2]]
        let ?k3 = "(teardown_thread i k2)\<lparr>vk_quota := release_threads ?gq 1\<rparr>"
        have eq: "resume_pending deliver i k = ?k3"
          using u Inr tk Some None P(3) c(3) by (simp add: resume_pending_def drop_states_spawned k2)
        have "counters_ok False {} {} ?k3"
          by (rule counters_ok_cancelled [OF inv(3) fin c(8)]) (use c in \<open>simp_all add: k2\<close>)
        then show ?thesis unfolding eq using c(1,2) by (simp add: kernel_inv_def k2)
      next
        case (Some t')
        have sp: "th_is_spawned t'" using assms(2) Some P(3) by (auto simp: keeps_spawned_def)
        obtain er k3 where e: "enqueue_runnable_front i t' k2 = (er, k3)" by fastforce
        have eq: "resume_pending deliver i k = (case er of Inl _ \<Rightarrow> teardown_thread i k3 | Inr _ \<Rightarrow> k3)"
          using u Inr tk \<open>to = Some t\<close> Some e by (simp add: resume_pending_def)
        have "kernel_inv False k3 out"
        proof (cases "i \<in> runnable_ids k1")
          case True
          then have "runnable_contains (vk_runnable k2) i"
            using ready_queries(3) inv(1) by (auto simp: k2 parts_ok_def runnable_ids_def)
          then have "k3 = park_running i t' k2" using e by (simp add: enqueue_runnable_front_def enqueue_with_def)
          then show ?thesis using put_back_inv [OF inv(1,2) t sp rel] by (simp add: k2)
        next
          case False
          note q = taken_inv [OF inv1 t False nb rel]
          have "runnable_inv (Suc 0) (vk_runnable k2)" using room1 by (simp add: k2)
          then have "kernel_inv False (snd (enqueue_with enqueue_front i t' k2)) out"
            by (rule queue_taken_inv [OF q(1) [folded k2] q(2) sp queue_ends(2)])
          then show ?thesis using e by (simp add: enqueue_runnable_front_def)
        qed
        then show ?thesis unfolding eq using teardown_inv [of k3 out i] assms(3) by (cases er) simp_all
      qed
    qed
  qed
qed

text \<open>A spawned thread has a fresh identifier, so it is in no queue.\<close>

lemma spawn_fresh:
  assumes "kernel_inv ex k out" and "spawn t key k = (Inr i, k1)"
  shows "i \<notin> runnable_ids k1" and "i \<notin> blocked_ids k1" and "vk_runnable k1 = vk_runnable k" and "out i = None"
proof -
  note inv = kernel_invD [OF assms(1)]
  from assms(2) obtain ids where a: "try_allocate (vk_ids k) = (Some i, ids)"
    and q: "vk_runnable k1 = vk_runnable k" "vk_blocked k1 = vk_blocked k"
    by (auto simp: spawn_def Let_def drop_states_def split: prod.splits sum.splits if_splits option.splits)
  have "id_manager_inv 1 (vk_ids k)" using inv(1) by (simp add: parts_ok_def)
  from try_allocate_Some(1) [OF this a] have "tr_tcbs (vk_registry k) i = None" using inv(1) by (auto simp: parts_ok_def)
  then have "i \<notin> parked (vk_registry k)" "i \<notin> active_threads (vk_registry k)" by (auto simp: parked_def active_threads_tcbs)
  with inv(2) have "i \<notin> runnable_ids k" "i \<notin> blocked_ids k" "out i = None" by (auto simp: places_ok_def)
  then show "i \<notin> runnable_ids k1" "i \<notin> blocked_ids k1" "vk_runnable k1 = vk_runnable k" "out i = None"
    using q by (simp_all add: runnable_ids_def blocked_ids_def)
qed

lemma thread_spawned_inv:
  assumes "kernel_inv False k out" and "\<not> th_is_spawned thread" and "runnable_inv 1 (vk_runnable k)"
  shows "kernel_inv False (thread_spawned thread k) out"
proof -
  obtain res k1 where s: "spawn thread None k = (res, k1)" by fastforce
  have inv1: "kernel_inv False k1 out" using spawn_inv [OF assms(1,2), of None] s by simp
  note inv = kernel_invD [OF inv1]
  have fin: "finite_limits (vk_quota k1)" using inv(3) by (simp add: counters_ok_def)
  show ?thesis
  proof (cases res)
    case (Inl e)
    with s inv1 show ?thesis by (simp add: thread_spawned_def)
  next
    case (Inr i)
    note fresh = spawn_fresh [OF assms(1) s [unfolded Inr]]
    obtain to k2 where tk: "take_thread i k1 = (to, k2)" by fastforce
    show ?thesis
    proof (cases to)
      case None
      with tk take_thread_None(1) [of i k1 k2] s Inr inv1 show ?thesis by (simp add: thread_spawned_def)
    next
      case (Some t)
      let ?gq = "release_runnable_threads (vk_quota k1) 1"
      from tk Some obtain r where t: "take_state i (vk_registry k1) = (Some t, r)"
        and k2: "k2 = k1\<lparr>vk_registry := r, vk_quota := ?gq\<rparr>" by (auto elim: take_thread_Some)
      note q = taken_inv [OF inv1 t fresh(1,2) counters_ok_release [OF inv(3) fin]]
      obtain er k3 where e: "enqueue_runnable i t k2 = (er, k3)" by fastforce
      have "runnable_inv (Suc 0) (vk_runnable k2)" using assms(3) fresh(3) by (simp add: k2)
      then have "kernel_inv False (snd (enqueue_with enqueue i t k2)) out"
        by (rule queue_taken_inv [OF q(1) [folded k2] q(2) taken_parts(3) [OF inv(1) t] queue_ends(1)])
      then have "kernel_inv False k3 out" using e by (simp add: enqueue_runnable_def)
      then show ?thesis
        using s Inr tk Some e teardown_inv [of k3 out i] fresh(4) by (cases er) (simp_all add: thread_spawned_def)
    qed
  qed
qed

lemma mark_running_inv:
  assumes "kernel_inv ex k out"
  shows "kernel_inv ex (snd (kernel_mark_running i k)) out"
proof -
  obtain b r where m: "mark_running i (vk_registry k) = (b, r)" by fastforce
  note M = mark_running_state [OF m]
  have eq: "snd (kernel_mark_running i k) = k\<lparr>vk_registry := r, vk_quota := vk_quota k\<rparr>" by (simp add: kernel_mark_running_def m)
  have "counters_ok ex {} {} (k\<lparr>vk_registry := r, vk_quota := vk_quota k\<rparr>)"
    by (rule counters_ok_registry) (use kernel_invD(3) [OF assms] M(2) in simp_all)
  then show ?thesis
    using kernel_invD(1,2) [OF assms] M unfolding eq kernel_inv_def by (simp add: parts_ok_def places_ok_def)
qed

lemma mark_spawned_taken:
  assumes "take_state i (vk_registry k) = (Some t, r)"
  shows "kernel_mark_spawned i (k\<lparr>vk_registry := r\<rparr>) = (Inr (), k\<lparr>vk_registry := r\<rparr>)"
  using assms by (auto simp: kernel_mark_spawned_def registry_mark_spawned_def take_state_def split: option.splits)

lemma start_thread_inv:
  assumes "kernel_inv ex k out" and "i \<notin> blocked_ids k" and "\<And>t. th_is_spawned (snd (prepare t)) = th_is_spawned t"
    and "runnable_inv 1 (vk_runnable k)"
  shows "kernel_inv ex (start_thread prepare i k) out"
proof -
  note inv = kernel_invD [OF assms(1)]
  obtain to k1 where tk: "take_created_thread i k = (to, k1)" by fastforce
  show ?thesis
  proof (cases to)
    case None
    with tk have "k1 = k"
      using take_state_None [of i "vk_registry k"] by (auto simp: take_created_thread_def take_created_def split: if_splits prod.splits)
    with tk None assms(1) show ?thesis by (simp add: start_thread_def)
  next
    case (Some t)
    from tk Some obtain r where t: "take_state i (vk_registry k) = (Some t, r)" and k1: "k1 = k\<lparr>vk_registry := r\<rparr>"
      by (auto simp: take_created_thread_def take_created_def split: if_splits prod.splits)
    obtain ok t' where p: "prepare t = (ok, t')" by fastforce
    have sp: "th_is_spawned t'" using assms(3) [of t] taken_parts(3) [OF inv(1) t] p by simp
    have q: "counters_ok ex {} {} (k\<lparr>vk_quota := vk_quota k\<rparr>)" using inv(3) by simp
    have parked_again: "kernel_inv ex (park_running i t' k1) out" using put_back_inv [OF inv(1,2) t sp q] by (simp add: k1)
    obtain er k3 where e: "enqueue_runnable i t' k1 = (er, k3)" by fastforce
    have queued: "kernel_inv ex k3 out"
    proof (cases "i \<in> runnable_ids k")
      case True
      then have "runnable_contains (vk_runnable k1) i"
        using ready_queries(3) inv(1) by (auto simp: k1 parts_ok_def runnable_ids_def)
      then have "k3 = park_running i t' k1" using e by (simp add: enqueue_runnable_def enqueue_with_def)
      then show ?thesis using parked_again by simp
    next
      case False
      note taken = taken_inv [OF assms(1) t False assms(2) q]
      have k1': "k1 = k\<lparr>vk_registry := r, vk_quota := vk_quota k\<rparr>" by (simp add: k1)
      have "runnable_inv (Suc 0) (vk_runnable k1)" using assms(4) by (simp add: k1)
      then have "kernel_inv ex (snd (enqueue_with enqueue i t' k1)) out"
        by (rule queue_taken_inv [OF taken(1) [folded k1'] taken(2) sp queue_ends(1)])
      then show ?thesis using e by (simp add: enqueue_runnable_def)
    qed
    show ?thesis
    proof (cases ok)
      case False
      with tk Some p parked_again show ?thesis by (simp add: start_thread_def)
    next
      case True
      have "start_thread prepare i k = (case er of Inl _ \<Rightarrow> k3 | Inr _ \<Rightarrow> snd (kernel_mark_running i k3))"
        using tk Some p True e mark_spawned_taken [OF t] by (simp add: start_thread_def k1 split: sum.splits)
      then show ?thesis using queued mark_running_inv [OF queued] by (cases er) simp_all
    qed
  qed
qed

text \<open>When the identifiers of timers run out, \<open>block\<close> drops the thread and keeps both reservations.\<close>

lemma kernel_block_exhausted:
  assumes "counters_ok ex {} {} k" and "blocked_inv (vk_blocked k)" and "th_is_spawned t"
    and "kernel_block i t timeout k = (Inl e, k1)" and "failure_kind e = IdSpaceExhausted"
  obtains gq where "k1 = k\<lparr>vk_quota := release_threads gq 1\<rparr>" "gq_threads gq = gq_threads (vk_quota k)"
    "gq_runnable_threads gq = gq_runnable_threads (vk_quota k)" "finite_limits gq = finite_limits (vk_quota k)"
    "unat (gq_pending_states gq) = Suc (unat (gq_pending_states (vk_quota k)))"
    "unat (gq_timers gq) = Suc (unat (gq_timers (vk_quota k)))"
proof -
  obtain res gq1 where res: "try_reserve_pending_states (vk_quota k) 1 = (res, gq1)" by fastforce
  with assms(4,5) have ok: "res = Inr ()"
    by (auto simp: kernel_block_def try_reserve_pending_states_def Let_def new_failure_def split: if_splits)
  then have gq1: "gq1 = (vk_quota k)\<lparr>gq_pending_states := gq_pending_states (vk_quota k) + 1\<rparr>"
    using res by (auto simp: try_reserve_pending_states_def Let_def split: if_splits)
  note suc = reserve_pending_Suc [OF assms(1) res [unfolded ok] card.empty]
  obtain ms where ms: "timeout = Some ms" using assms(4) res ok by (cases timeout) (auto simp: kernel_block_def Let_def split: prod.splits)
  obtain res2 gq2 where res2: "try_reserve_timers gq1 1 = (res2, gq2)" by fastforce
  with assms(4,5) res ok ms have ok2: "res2 = Inr ()"
    by (auto simp: kernel_block_def try_reserve_timers_def Let_def new_failure_def split: if_splits)
  then have gq2: "gq2 = gq1\<lparr>gq_timers := gq_timers gq1 + 1\<rparr>"
    using res2 by (auto simp: try_reserve_timers_def Let_def split: if_splits)
  have suc2: "unat (gq_timers (vk_quota k) + 1) = Suc (unat (gq_timers (vk_quota k)))"
    by (rule reserve_timers_Suc [OF assms(1) res2 [unfolded ok2] card.empty]) (simp_all add: gq1)
  obtain x b where bt: "block_with_timeout i ms (vk_blocked k) = (x, b)" by fastforce
  from assms(4) res ok ms res2 ok2 bt obtain e' where x: "x = Inl e'"
    by (cases x) (auto simp: kernel_block_def Let_def split: prod.splits)
  have "b = vk_blocked k" using block_with_timeout_ok(3) [OF assms(2), of i ms e'] bt x by simp
  with assms(3,4) res ok ms res2 ok2 bt x have "k1 = k\<lparr>vk_quota := release_threads gq2 1\<rparr>"
    by (simp add: kernel_block_def Let_def drop_states_spawned)
  then show ?thesis by (rule that) (simp_all add: gq1 gq2 suc suc2)
qed

lemma block_or_fail_inv:
  assumes "kernel_inv ex k out" and "out i = Some t0" and "th_is_spawned t"
    and "ex \<Longrightarrow> \<forall>e. fst (kernel_block i t timeout k) = Inl e \<longrightarrow> failure_kind e \<noteq> IdSpaceExhausted"
  shows "kernel_inv ex (block_or_fail i t timeout k) (out(i := None))"
proof -
  obtain res k1 where kb: "kernel_block i t timeout k = (res, k1)" by fastforce
  show ?thesis
  proof (cases "\<exists>e. res = Inl e \<and> failure_kind e = IdSpaceExhausted")
    case False
    then have inv1: "kernel_inv ex k1 (out(i := None))"
      using kernel_block_inv [OF assms(1-3), of timeout] kb by auto
    then have "kernel_inv ex (snd (kernel_cancel i k1)) (out(i := None))"
      using cancel_parked [OF inv1, of i] cancel_unknown [OF inv1, of i] by (cases "i \<in> parked (vk_registry k1)") simp_all
    with inv1 kb show ?thesis by (cases res) (simp_all add: block_or_fail_def)
  next
    case True
    then obtain e where e: "res = Inl e" "failure_kind e = IdSpaceExhausted" by blast
    with assms(4) kb have lossy: "ex = False" by auto
    note inv = kernel_invD [OF assms(1)]
    have bi: "blocked_inv (vk_blocked k)" using inv(1) by (simp add: parts_ok_def)
    obtain gq where gq: "k1 = k\<lparr>vk_quota := release_threads gq 1\<rparr>" "gq_threads gq = gq_threads (vk_quota k)"
      "gq_runnable_threads gq = gq_runnable_threads (vk_quota k)" "finite_limits gq = finite_limits (vk_quota k)"
      "unat (gq_pending_states gq) = Suc (unat (gq_pending_states (vk_quota k)))"
      "unat (gq_timers gq) = Suc (unat (gq_timers (vk_quota k)))"
      using kernel_block_exhausted [OF inv(3) bi assms(3) kb [unfolded e(1)] e(2)] by blast
    have i: "i \<notin> parked (vk_registry k)" "i \<in> active_threads (vk_registry k)" using inv(2) assms(2) by (auto simp: places_ok_def)
    have pre: "parts_ok k1" "places_ok k1 out" "i \<notin> parked (vk_registry k1)" using inv i by (simp_all add: gq(1))
    note c = cancel_absent [OF pre]
    have "counters_ok False {} {} (snd (kernel_cancel i k1))"
      using inv(3) i(2) gq(2-6) unfolding counters_ok_def c lossy
      by (auto simp: gq(1) release_threads_def unat_release card_remove)
    with c(1,2) show ?thesis using kb e(1) lossy by (simp add: block_or_fail_def kernel_inv_def)
  qed
qed

section \<open>The steps of the orchestrator\<close>

text \<open>
  A configuration is the kernel and the threads that workers hold.  A worker or the orchestrator may change a thread it holds in
  any way, but does not change whether it counts as spawned.  The steps are the kernel calls of the orchestrator:
  \<^item> \<open>k_spawn\<close> and \<open>k_start\<close>: the activations \<open>__internal_thread_create\<close> and \<open>__internal_thread_spawn\<close>; a created thread does not wait;
  \<^item> \<open>k_thread_spawned\<close>: the event \<open>ThreadSpawned\<close>;
  \<^item> \<open>k_dispatch\<close>: \<open>dispatch_runnables\<close>; when the quota of tasks is used up, \<open>k_cancel_held\<close> follows;
  \<^item> \<open>k_yield\<close>, \<open>k_continue\<close>, \<open>k_block\<close>, \<open>k_exit\<close>: a thread that a worker hands back is queued, queued in front, blocked or has exited;
  \<^item> \<open>k_unblock\<close>, \<open>k_tick\<close>, \<open>k_resume_pending\<close>: waiting threads are woken by a message, by time or by a result;
  \<^item> \<open>k_cancel\<close>, \<open>k_teardown\<close>: a thread that no worker holds is cancelled; \<open>k_cancel_held\<close>: a thread is cancelled and the state that
    its worker handed back is dropped.

  One thing the orchestrator can do is not a step: cancel a thread while a worker runs it.  The worker's state then comes back
  under an identifier that the kernel has freed and may have given to another thread.
\<close>

inductive kernel_step :: "bool \<Rightarrow> VirtualKernel \<times> workers \<Rightarrow> VirtualKernel \<times> workers \<Rightarrow> bool" for ex :: bool where
  k_spawn: "\<not> th_is_spawned t \<Longrightarrow> kernel_step ex (k, out) (snd (spawn t key k), out)"
| k_start: "i \<notin> blocked_ids k \<Longrightarrow> (\<And>t. th_is_spawned (snd (prepare t)) = th_is_spawned t) \<Longrightarrow>
    kernel_step ex (k, out) (start_thread prepare i k, out)"
| k_thread_spawned: "\<not> ex \<Longrightarrow> \<not> th_is_spawned t \<Longrightarrow> kernel_step ex (k, out) (thread_spawned t k, out)"
| k_dispatch: "next_runnable_detailed k = (Some (i, f), k1) \<Longrightarrow> take_thread i k1 = (Some t, k2) \<Longrightarrow>
    kernel_step ex (k, out) (snd (kernel_mark_running i k2), out(i \<mapsto> t))"
| k_yield: "out i = Some t0 \<Longrightarrow> th_is_spawned t \<Longrightarrow> kernel_step ex (k, out) (snd (enqueue_runnable i t k), out(i := None))"
| k_continue: "out i = Some t0 \<Longrightarrow> th_is_spawned t \<Longrightarrow> kernel_step ex (k, out) (snd (enqueue_runnable_front i t k), out(i := None))"
| k_block: "out i = Some t0 \<Longrightarrow> th_is_spawned t \<Longrightarrow>
    (ex \<Longrightarrow> \<forall>e. fst (kernel_block i t timeout k) = Inl e \<longrightarrow> failure_kind e \<noteq> IdSpaceExhausted) \<Longrightarrow>
    kernel_step ex (k, out) (block_or_fail i t timeout k, out(i := None))"
| k_exit: "out i = Some t0 \<Longrightarrow> th_is_spawned t \<Longrightarrow>
    kernel_step ex (k, out) (snd (kernel_mark_exited i t result k), out(i := None))"
| k_unblock: "kernel_step ex (k, out) (snd (kernel_unblock i k), out)"
| k_tick: "kernel_step ex (k, out) (snd (kernel_tick d k), out)"
| k_resume_pending: "\<not> ex \<Longrightarrow> keeps_spawned deliver \<Longrightarrow> out i = None \<Longrightarrow>
    kernel_step ex (k, out) (resume_pending deliver i k, out)"
| k_cancel: "out i = None \<Longrightarrow> kernel_step ex (k, out) (snd (kernel_cancel i k), out)"
| k_cancel_held: "out i = Some t \<Longrightarrow> kernel_step ex (k, out) (snd (kernel_cancel i (drop_states [t] k)), out(i := None))"
| k_teardown: "\<not> ex \<Longrightarrow> out i = None \<Longrightarrow> kernel_step ex (k, out) (teardown_thread i k, out)"

text \<open>There are tokens left for a step: a step enqueues at most one entry per thread.\<close>

definition tokens_left :: "VirtualKernel \<Rightarrow> bool" where
  "tokens_left k \<longleftrightarrow> unat (rq_next_token (vk_runnable k)) + 2 ^ 32 < 2 ^ 64"

lemma kernel_step_inv:
  assumes "kernel_step ex c c'" and "kernel_inv ex (fst c) (snd c)" and "tokens_left (fst c)"
  shows "kernel_inv ex (fst c') (snd c')"
proof -
  have room: "runnable_inv (2 ^ 32) (vk_runnable (fst c))"
    using assms(2,3) by (simp add: kernel_inv_def parts_ok_def runnable_inv_def tokens_left_def)
  then have room1: "runnable_inv 1 (vk_runnable (fst c))" and room2: "runnable_inv 2 (vk_runnable (fst c))"
    by (auto intro: runnable_inv_mono)
  have "kernel_inv ex (snd (enqueue_with enq i t (fst c))) ((snd c)(i := None))"
    if "snd c i = Some t0" "th_is_spawned t" "queue_end enq" for enq i t t0
    using enqueue_with_inv [of ex "{}" "{}" "fst c" "snd c" i t0 t enq 0] that assms(2) room1 by (simp add: kernel_inv_woken)
  note enq = this [OF _ _ queue_ends(1), folded enqueue_runnable_def] this [OF _ _ queue_ends(2), folded enqueue_runnable_front_def]
  from assms(1) show ?thesis
  proof cases
    case (k_dispatch k i f k1 t k2 out)
    then show ?thesis
      using dispatch_inv [of ex k out i f k1 t k2 "fst (kernel_mark_running i k2)"] assms(2) by simp
  next
    case (k_cancel out i k)
    then show ?thesis
      using cancel_parked [of ex k out i] cancel_unknown [of ex k out i] assms(2) by (cases "i \<in> parked (vk_registry k)") simp_all
  next
    case (k_start i k prepare out)
    then show ?thesis using start_thread_inv [of ex k out i prepare] assms(2) room1 by simp
  next
    case (k_block out i t0 t timeout k)
    then show ?thesis using block_or_fail_inv [of ex k out i t0 t timeout] assms(2) by simp
  next
    case (k_resume_pending deliver out i k)
    then show ?thesis using resume_pending_inv [of k out deliver i] assms(2) room2 by simp
  qed (use assms(2) room room1 enq in \<open>auto intro: spawn_inv thread_spawned_inv kernel_unblock_inv kernel_tick_inv
        kernel_mark_exited_inv cancel_worker teardown_inv\<close>)
qed

inductive kernel_reachable :: "bool \<Rightarrow> GlobalQuota \<Rightarrow> VirtualKernel \<times> workers \<Rightarrow> bool" for ex and gq where
  kernel_start: "kernel_reachable ex gq (new_kernel gq, Map.empty)"
| kernel_next: "kernel_reachable ex gq c \<Longrightarrow> tokens_left (fst c) \<Longrightarrow> kernel_step ex c c' \<Longrightarrow> kernel_reachable ex gq c'"

definition counts_nothing :: "GlobalQuota \<Rightarrow> bool" where
  "counts_nothing gq \<longleftrightarrow> gq_runnable_threads gq = 0 \<and> gq_pending_states gq = 0 \<and> gq_timers gq = 0 \<and> gq_threads gq = 0"

lemma kernel_reachable_inv:
  assumes "kernel_reachable ex gq c" and "counts_nothing gq" and "ex \<or> finite_limits gq"
  shows "kernel_inv ex (fst c) (snd c)"
  using assms(1)
proof (induction rule: kernel_reachable.induct)
  case kernel_start
  then show ?case using assms(2,3) kernel_inv_new [of gq ex] by (simp add: counts_nothing_def)
next
  case (kernel_next c c')
  then show ?case using kernel_step_inv by blast
qed

lemma dispatch_finds_state:
  assumes "kernel_inv ex k out" and "next_runnable_detailed k = (Some (i, f), k1)"
  shows "\<exists>t k2. take_thread i k1 = (Some t, k2)"
proof -
  note nr = next_runnable_ids [OF assms]
  have "i \<in> parked (vk_registry k1)"
    using nr(1) assms(1) by (subst nr(4)) (auto simp: kernel_inv_def places_ok_def)
  then show ?thesis using take_state_parked [of i "vk_registry k1"] by (auto simp: take_thread_def)
qed

text \<open>
  C1 (every thread is in one place).  Start with a kernel whose quota counts nothing and let the orchestrator perform any of the
  steps of \<open>kernel_step\<close>, each with all its error paths, as long as tokens are left in the run queue and (for the steps that lose
  reservations) the limits of waiting threads and timers are not the largest number.  Between two steps, the threads that have not
  exited are those whose state is parked in the registry and those that workers hold, and no thread is both; queued and waiting
  threads are parked, none is queued and waiting, and the state of a thread that the run queue hands out is there to be taken.
  The only kernel call of the orchestrator outside these steps is to cancel a thread while a worker runs it.
\<close>

theorem kernel_one_place:
  assumes "kernel_reachable ex gq (k, out)" and "counts_nothing gq" and "ex \<or> finite_limits gq"
  shows "parked (vk_registry k) \<union> dom out = active_threads (vk_registry k) \<and>
    parked (vk_registry k) \<inter> dom out = {} \<and>
    runnable_ids k \<union> blocked_ids k \<subseteq> parked (vk_registry k) \<and>
    runnable_ids k \<inter> blocked_ids k = {} \<and>
    (next_runnable_detailed k = (Some (i, f), k1) \<longrightarrow> (\<exists>t k2. take_thread i k1 = (Some t, k2)))"
proof -
  have inv: "kernel_inv ex k out" using kernel_reachable_inv [OF assms] by simp
  then have "places_ok k out" by (simp add: kernel_inv_def)
  with dispatch_finds_state [OF inv, of i f k1] show ?thesis unfolding places_ok_def by blast
qed

definition idle_quota :: GlobalQuota where
  "idle_quota = new_global_quota default_limits"

definition one_thread :: "VirtualKernel" where
  "one_thread = snd (spawn blank_thread (Some ''main'') (new_kernel idle_quota))"

lemma one_thread_reachable: "kernel_reachable ex idle_quota (one_thread, Map.empty)"
  unfolding one_thread_def
  by (rule kernel_next [OF kernel_start])
    (simp_all add: tokens_left_def new_kernel_def new_runnable_def k_spawn blank_thread_def new_thread_def)

lemma idle_counts_nothing: "counts_nothing idle_quota"
  by (simp add: counts_nothing_def idle_quota_def new_global_quota_def)

lemma idle_finite_limits: "finite_limits idle_quota"
  by (simp add: finite_limits_def idle_quota_def new_global_quota_def default_limits_def)

theorem kernel_one_place_witness: "parked (vk_registry one_thread) = active_threads (vk_registry one_thread)"
  using kernel_one_place [OF one_thread_reachable [of False] idle_counts_nothing] idle_finite_limits by simp



section \<open>What the lossy steps lose\<close>

text \<open>
  Tearing down a waiting thread leaks its reservations.  The thread is taken out before it is cancelled, so \<open>cancel\<close> finds no
  state and gives nothing back: the pending state, and the timer if there was one, stay reserved for ever.
\<close>

lemma teardown_leaks_reservations:
  assumes "kernel_reachable True gq (k, out)" and "counts_nothing gq" and "i \<in> blocked_ids k"
  shows "i \<notin> blocked_ids (teardown_thread i k) \<and>
    unat (gq_pending_states (vk_quota (teardown_thread i k))) = Suc (card (blocked_ids (teardown_thread i k))) \<and>
    (i \<in> timed_ids k \<longrightarrow> unat (gq_timers (vk_quota (teardown_thread i k))) = Suc (card (timed_ids (teardown_thread i k))))"
proof -
  have "kernel_inv True k out" using kernel_reachable_inv [OF assms(1,2)] by simp
  note inv = kernel_invD [OF this]
  have "i \<in> parked (vk_registry k)" using inv(2) assms(3) by (auto simp: places_ok_def)
  then obtain t r where t: "take_state i (vk_registry k) = (Some t, r)" using take_state_parked by blast
  let ?gq = "release_threads (release_runnable_threads (vk_quota k) 1) 1"
  have "teardown_thread i k = snd (kernel_cancel i (k\<lparr>vk_registry := r, vk_quota := ?gq\<rparr>))"
    using taken_parts(3) [OF inv(1) t] by (simp add: teardown_thread_def take_thread_def t with_quota_def drop_states_spawned)
  note c = cancel_after_take [OF inv(1,2) t this]
  show ?thesis
    using inv(3) assms(3) card_pos [of i "blocked_ids k"] card_pos [of i "timed_ids k"] unfolding c card_remove
    by (simp add: counters_ok_def release_threads_def release_runnable_threads_def)
qed

lemma enqueued_id:
  assumes "enqueue_with enq i t k = (Inr u, k')" and "queue_end enq" and "runnable_inv (Suc n) (vk_runnable k)"
  shows "i \<in> runnable_ids k'"
proof (cases "runnable_contains (vk_runnable k) i")
  case True
  with assms(1) have "vk_runnable k' = vk_runnable k"
    by (auto simp: enqueue_with_def park_running_def drop_states_def split: prod.splits)
  with True ready_queries(3) [OF assms(3)] show ?thesis by (simp add: runnable_ids_def)
next
  case False
  with assms(1) have "vk_runnable k' = enq i (vk_runnable k)"
    by (auto simp: enqueue_with_def split: prod.splits sum.splits)
  with assms(2,3) show ?thesis by (auto simp: queue_end_def runnable_ids_def)
qed

lemma unblocked_id:
  assumes "kernel_unblock i k = (Inr True, k1)" and "runnable_inv 1 (vk_runnable k)"
  shows "i \<in> runnable_ids k1"
  using assms enqueued_id [OF _ queue_ends(1), of i _ _ _ k1 0]
  by (auto simp: kernel_unblock_def enqueue_runnable_def Let_def with_quota_def split: prod.splits if_splits option.splits sum.splits)

text \<open>
  Resuming a waiting thread gives its place in the run queue back too early.  \<open>unblock\<close> queues the thread and reserves its place;
  \<open>take_thread\<close> gives the place back although the thread stays queued, and putting it in front then finds it queued and reserves
  nothing.  From then on one more thread is queued than the quota counts, and the thread is not moved to the front.
\<close>

lemma resume_undercounts_runnable:
  assumes "kernel_reachable True gq (k, out)" and "counts_nothing gq" and "tokens_left k" and "kernel_unblock i k = (Inr True, k1)"
    and "\<And>t. deliver t \<noteq> None"
  shows "i \<in> runnable_ids (resume_pending deliver i k) \<and>
    Suc (unat (gq_runnable_threads (vk_quota (resume_pending deliver i k)))) = card (runnable_ids (resume_pending deliver i k)) \<and>
    ready (vk_runnable (resume_pending deliver i k)) = ready (vk_runnable k1)"
proof -
  have inv: "kernel_inv True k out" using kernel_reachable_inv [OF assms(1,2)] by simp
  then have room: "runnable_inv 1 (vk_runnable k)"
    using assms(3) by (simp add: kernel_inv_def parts_ok_def runnable_inv_def tokens_left_def)
  have "kernel_inv True k1 out" using kernel_unblock_inv [OF inv room, of i] assms(4) by simp
  note inv1 = kernel_invD [OF this]
  have i: "i \<in> runnable_ids k1" by (rule unblocked_id [OF assms(4) room])
  then have "i \<in> parked (vk_registry k1)" using inv1(2) by (auto simp: places_ok_def)
  then obtain t r where t: "take_state i (vk_registry k1) = (Some t, r)" using take_state_parked by blast
  obtain t' where t': "deliver t = Some t'" using assms(5) by blast
  let ?k2 = "k1\<lparr>vk_registry := r, vk_quota := release_runnable_threads (vk_quota k1) 1\<rparr>"
  have "runnable_contains (vk_runnable k1) i"
    using i ready_queries(3) inv1(1) by (auto simp: parts_ok_def runnable_ids_def)
  then have eq: "resume_pending deliver i k = park_running i t' ?k2"
    using assms(4) t t' by (simp add: resume_pending_def take_thread_def with_quota_def enqueue_runnable_front_def enqueue_with_def)
  have act: "i \<in> active_threads r" "i \<notin> parked r" using take_state_Some [OF t] inv1(2) by (auto simp: places_ok_def)
  have "fst (restore_vm_state i t' r) = []"
    using restore_state(1) [of i t' r "fst (restore_vm_state i t' r)" "snd (restore_vm_state i t' r)"] act by simp
  then have "resume_pending deliver i k = ?k2\<lparr>vk_registry := snd (restore_vm_state i t' r)\<rparr>"
    by (simp add: eq park_running_def drop_states_def case_prod_beta)
  then show ?thesis
    using i inv1(3) card_pos [OF i] by (simp add: counters_ok_def release_runnable_threads_def unat_release)
qed

end
