(* ===== verification/Future_Registry_Props.thy ===== *)
theory Future_Registry_Props
  imports Future_Registry
begin

text \<open>
  What a future promises: it is resolved at most once, everybody who awaits it gets that one result
  exactly once, in the order of waiting, and the callback of a discarded future sees its flag
  cleared.  The specification of a future is the small state machine \<open>spec_step\<close>; the registry
  refines it, for all futures at the same time.
\<close>

section \<open>The specification\<close>

datatype future_view = FAbsent | FPending bool "Waiter list" | FDone FutureResult

datatype future_op =
    FCreate future_key "TypeIdx option" "ModuleId option" Activation
  | FDirect future_key TypeIdx ModuleId Activation
  | FStart future_key
  | FStartInline future_key
  | FAssign future_key RequestId
  | FWait future_key Waiter
  | FDiscard future_key
  | FRace future_key
  | FDiscardOwner ThreadId
  | FDiscardAll
  | FComplete future_key FutureResult

type_synonym futures = "future_key \<Rightarrow> future_view"

fun spec_step :: "future_op \<Rightarrow> futures \<Rightarrow> futures" where
  "spec_step (FCreate k _ _ _) v = (if v k = FAbsent then v(k := FPending False []) else v)"
| "spec_step (FDirect k _ _ _) v = (if v k = FAbsent then v(k := FPending True []) else v)"
| "spec_step (FStart k) v = v"
| "spec_step (FStartInline k) v = v"
| "spec_step (FAssign k _) v = v"
| "spec_step (FWait k w) v =
    (case v k of FPending d ws \<Rightarrow> if d \<and> ws \<noteq> [] then v else v(k := FPending d (ws @ [w])) | _ \<Rightarrow> v)"
| "spec_step (FDiscard k) v =
    (case v k of FPending d ws \<Rightarrow> if ws = [] then v(k := FAbsent) else v | _ \<Rightarrow> v(k := FAbsent))"
| "spec_step (FRace k) v = v(k := FAbsent)"
| "spec_step (FDiscardOwner owner) v = (\<lambda>k. if fst k = owner then FAbsent else v k)"
| "spec_step FDiscardAll v = (\<lambda>k. FAbsent)"
| "spec_step (FComplete k result) v = (case v k of FPending d ws \<Rightarrow> v(k := FDone result) | _ \<Rightarrow> v)"

text \<open>Who is resumed with which result in a step.\<close>

fun spec_deliver :: "future_op \<Rightarrow> futures \<Rightarrow> (future_key \<times> Waiter \<times> FutureResult) list" where
  "spec_deliver (FComplete k result) v =
    (case v k of FPending d ws \<Rightarrow> map (\<lambda>w. (k, w, result)) ws | _ \<Rightarrow> [])"
| "spec_deliver (FWait k w) v = (case v k of FDone result \<Rightarrow> [(k, w, result)] | _ \<Rightarrow> [])"
| "spec_deliver _ v = []"

section \<open>The registry as a set of futures\<close>

fun future_apply :: "future_op \<Rightarrow> FutureRegistry \<Rightarrow> FutureRegistry" where
  "future_apply (FCreate k ty m a) r = snd (create_future k ty m a r)"
| "future_apply (FDirect k ty m a) r = snd (insert_direct_await k ty m a r)"
| "future_apply (FStart k) r = snd (take_activation_for_start k r)"
| "future_apply (FStartInline k) r = snd (take_inline_galfus_activation k r)"
| "future_apply (FAssign k req) r = snd (assign_request_id k req r)"
| "future_apply (FWait k w) r = snd (add_waiter k w r)"
| "future_apply (FDiscard k) r = snd (discard k r)"
| "future_apply (FRace k) r = snd (discard_for_race k r)"
| "future_apply (FDiscardOwner owner) r = snd (discard_all_for_owner owner r)"
| "future_apply FDiscardAll r = snd (discard_all r)"
| "future_apply (FComplete k result) r = snd (complete k result r)"

fun future_deliver :: "future_op \<Rightarrow> FutureRegistry \<Rightarrow> (future_key \<times> Waiter \<times> FutureResult) list" where
  "future_deliver (FComplete k result) r =
    (case fst (complete k result r) of Inr ws \<Rightarrow> map (\<lambda>w. (k, w, result)) ws | Inl _ \<Rightarrow> [])"
| "future_deliver (FWait k w) r =
    (case fst (add_waiter k w r) of Inr (WaitResolved w' result) \<Rightarrow> [(k, w', result)] | _ \<Rightarrow> [])"
| "future_deliver _ r = []"

definition pending_waiters :: "FutureRecord \<Rightarrow> Waiter list" where
  "pending_waiters rec = fst (waiters_take (fu_waiters rec))"

definition record_view :: "FutureRecord \<Rightarrow> future_view" where
  "record_view rec =
    (case fu_state rec of
       FutureResolved result \<Rightarrow> FDone result
     | FutureDiscarded \<Rightarrow> FAbsent
     | _ \<Rightarrow> FPending (waiters_is_direct (fu_waiters rec)) (pending_waiters rec))"

definition view :: "FutureRegistry \<Rightarrow> futures" where
  "view r k = (case fr_records r k of None \<Rightarrow> FAbsent | Some rec \<Rightarrow> record_view rec)"

text \<open>Stored records: never discarded, the overflow list only behind a first waiter, nobody waits for a result that is there.\<close>

definition record_ok :: "FutureRecord \<Rightarrow> bool" where
  "record_ok rec \<longleftrightarrow> fu_state rec \<noteq> FutureDiscarded \<and>
     (case fu_waiters rec of PublicWaiters first rest \<Rightarrow> first = None \<longrightarrow> rest = [] | DirectWaiter _ \<Rightarrow> True) \<and>
     (\<forall>result. fu_state rec = FutureResolved result \<longrightarrow> pending_waiters rec = [])"

definition records_ok :: "FutureRegistry \<Rightarrow> bool" where
  "records_ok r \<longleftrightarrow> (\<forall>k rec. fr_records r k = Some rec \<longrightarrow> record_ok rec)"

lemma records_of_tombstone [simp]: "fr_records (record_tombstone k r) = fr_records r"
  by (auto simp: record_tombstone_def Let_def split: list.splits)

lemma records_of_clear [simp]: "fr_records (clear_flag a r) = fr_records r"
  by (simp add: clear_flag_def split: option.splits)

lemma records_of_remove [simp]: "fr_records (remove_record k r) = (fr_records r)(k := None)"
  by (simp add: remove_record_def)

lemma records_of_set [simp]: "fr_records (set_record k rec r) = (fr_records r)(k \<mapsto> rec)"
  by (simp add: set_record_def)

lemma discard_keys_records: "fr_records (snd (discard_keys ks r)) = (\<lambda>k. if k \<in> set ks then None else fr_records r k)"
  by (induction ks r rule: discard_keys.induct) (auto simp: Let_def case_prod_beta fun_eq_iff split: option.splits)

lemma discard_owner_records:
  "fr_records (snd (discard_all_for_owner owner r)) = (\<lambda>k. if fst k = owner then None else fr_records r k)"
proof -
  have "set (map (Pair owner) (owned_futures owner r)) = {k. fst k = owner \<and> fr_records r k \<noteq> None}"
    by (auto simp: owned_futures_def)
  then show ?thesis by (auto simp: discard_all_for_owner_def discard_keys_records fun_eq_iff)
qed

lemma discard_owners_records:
  "fr_records (snd (discard_owners owners r)) = (\<lambda>k. if fst k \<in> set owners then None else fr_records r k)"
  by (induction owners arbitrary: r) (auto simp: Let_def case_prod_beta fun_eq_iff discard_owner_records)

lemma discard_all_records: "fr_records (snd (discard_all r)) = Map.empty"
  by (force simp: discard_all_def discard_owners_records fun_eq_iff)

lemma view_records: "fr_records r = fr_records r' \<Longrightarrow> view r = view r'"
  by (simp add: view_def fun_eq_iff)

lemma waiters_push_take:
  assumes "waiters_push w ws = (res, ws')"
    and "case ws of PublicWaiters first rest \<Rightarrow> first = None \<longrightarrow> rest = [] | DirectWaiter _ \<Rightarrow> True"
  shows "waiters_is_direct ws' = waiters_is_direct ws"
    and "fst (waiters_take ws') = (if waiters_is_direct ws \<and> fst (waiters_take ws) \<noteq> [] then fst (waiters_take ws) else fst (waiters_take ws) @ [w])"
    and "case ws' of PublicWaiters first rest \<Rightarrow> first = None \<longrightarrow> rest = [] | DirectWaiter _ \<Rightarrow> True"
    and "isl res \<longleftrightarrow> waiters_is_direct ws \<and> fst (waiters_take ws) \<noteq> []"
  using assms by (cases "(w, ws)" rule: waiters_push.cases; auto split: option.splits if_splits)+

lemma waiters_is_empty_take:
  "(case ws of PublicWaiters first rest \<Rightarrow> first = None \<longrightarrow> rest = [] | DirectWaiter _ \<Rightarrow> True) \<Longrightarrow>
   waiters_is_empty ws \<longleftrightarrow> fst (waiters_take ws) = []"
  by (cases ws) (auto split: option.splits)

section \<open>Refinement\<close>

lemma view_set: "view (set_record k rec r) = (view r)(k := record_view rec)"
  by (auto simp: view_def fun_eq_iff)

lemma records_ok_set: "records_ok r \<Longrightarrow> record_ok rec \<Longrightarrow> records_ok (set_record k rec r)"
  by (auto simp: records_ok_def)

lemma records_okD: "records_ok r \<Longrightarrow> fr_records r k = Some rec \<Longrightarrow> record_ok rec"
  unfolding records_ok_def by blast

lemma records_ok_subset:
  "records_ok r \<Longrightarrow> (\<And>k rec. fr_records r' k = Some rec \<Longrightarrow> fr_records r k = Some rec) \<Longrightarrow> records_ok r'"
  unfolding records_ok_def by blast

text \<open>One step, operation by operation: the invariant and the simulation.\<close>

definition refines_op :: "future_op \<Rightarrow> FutureRegistry \<Rightarrow> bool" where
  "refines_op op r \<longleftrightarrow> records_ok (future_apply op r) \<and>
     view (future_apply op r) = spec_step op (view r) \<and> future_deliver op r = spec_deliver op (view r)"

lemma refines_create:
  assumes "records_ok r"
  shows "refines_op (FCreate k ty m a) r" "refines_op (FDirect k ty' m' a) r"
  using assms
  by (auto simp: refines_op_def create_future_def insert_direct_await_def records_ok_def record_ok_def pending_waiters_def
      view_def record_view_def fun_eq_iff split: option.splits FutureState.splits)

lemma refines_start:
  assumes "records_ok r"
  shows "refines_op (FStart k) r" "refines_op (FStartInline k) r" "refines_op (FAssign k req) r"
  using assms
  by (auto simp: refines_op_def take_activation_for_start_def take_inline_galfus_activation_def assign_request_id_def
      records_ok_def record_ok_def pending_waiters_def view_def record_view_def fun_eq_iff
      split: option.splits FutureState.splits Activation.splits)

lemma refines_wait:
  assumes "records_ok r"
  shows "refines_op (FWait k w) r"
proof (cases "fr_records r k")
  case None
  then show ?thesis using assms by (simp add: refines_op_def add_waiter_def view_def)
next
  case (Some rec)
  obtain res ws' where push: "waiters_push w (fu_waiters rec) = (res, ws')" by fastforce
  have ok: "record_ok rec" using records_okD [OF assms Some] .
  note taken = waiters_push_take [OF push]
  have view: "view r k = record_view rec" using Some by (simp add: view_def)
  show ?thesis
  proof (cases "fu_state rec")
    case (FutureResolved result)
    then show ?thesis using Some assms view by (simp add: refines_op_def add_waiter_def record_view_def)
  next
    case FutureDiscarded
    then show ?thesis using ok by (simp add: record_ok_def)
  next
    case (FutureCreated a)
    then show ?thesis
      using Some ok taken push assms view
      by (cases res) (auto simp: refines_op_def add_waiter_def view_set record_view_def pending_waiters_def record_ok_def
          intro!: records_ok_set)
  next
    case (FutureRunning a)
    then show ?thesis
      using Some ok taken push assms view
      by (cases res) (auto simp: refines_op_def add_waiter_def view_set record_view_def pending_waiters_def record_ok_def
          intro!: records_ok_set)
  qed
qed

lemma refines_discard:
  assumes "records_ok r"
  shows "refines_op (FDiscard k) r" "refines_op (FRace k) r" "refines_op (FDiscardOwner owner) r" "refines_op FDiscardAll r"
proof -
  show "refines_op (FDiscard k) r" "refines_op (FRace k) r"
    using assms waiters_is_empty_take
    by (auto simp: refines_op_def discard_def discard_for_race_def discard_inner_def records_ok_def record_ok_def
        pending_waiters_def view_def record_view_def fun_eq_iff split: option.splits FutureState.splits)
  show "refines_op (FDiscardOwner owner) r"
    using assms by (auto simp: refines_op_def discard_owner_records view_def fun_eq_iff elim!: records_ok_subset split: if_splits)
  show "refines_op FDiscardAll r"
    using assms by (auto simp: refines_op_def discard_all_records view_def fun_eq_iff elim!: records_ok_subset)
qed

lemma refines_complete:
  assumes "records_ok r"
  shows "refines_op (FComplete k result) r"
  using assms
  apply (cases "fr_records r k")
   apply (simp add: refines_op_def complete_def view_def)
  subgoal for rec
    by (cases "fu_waiters rec"; cases "fu_state rec")
      (auto simp: refines_op_def complete_def records_ok_def record_ok_def pending_waiters_def view_def record_view_def fun_eq_iff
        split: option.splits)
  done

lemma refines_any: "records_ok r \<Longrightarrow> refines_op op r"
  by (cases op) (simp_all add: refines_create refines_start refines_wait refines_discard refines_complete)

fun future_run :: "future_op list \<Rightarrow> FutureRegistry \<Rightarrow> (future_key \<times> Waiter \<times> FutureResult) list \<times> FutureRegistry" where
  "future_run [] r = ([], r)"
| "future_run (op # ops) r = (let (out, r') = future_run ops (future_apply op r) in (future_deliver op r @ out, r'))"

fun future_spec_run :: "future_op list \<Rightarrow> futures \<Rightarrow> (future_key \<times> Waiter \<times> FutureResult) list \<times> futures" where
  "future_spec_run [] v = ([], v)"
| "future_spec_run (op # ops) v = (let (out, v') = future_spec_run ops (spec_step op v) in (spec_deliver op v @ out, v'))"

lemma future_run_spec:
  assumes "records_ok r"
  shows "records_ok (snd (future_run ops r))" "future_spec_run ops (view r) = (fst (future_run ops r), view (snd (future_run ops r)))"
proof -
  have "records_ok (snd (future_run ops r)) \<and> future_spec_run ops (view r) = (fst (future_run ops r), view (snd (future_run ops r)))"
    using assms
  proof (induction ops arbitrary: r)
    case (Cons op ops)
    have "refines_op op r" using Cons.prems by (rule refines_any)
    then have "records_ok (future_apply op r)" "spec_step op (view r) = view (future_apply op r)"
      "spec_deliver op (view r) = future_deliver op r" by (auto simp: refines_op_def)
    then show ?case using Cons.IH [of "future_apply op r"] by (simp add: case_prod_beta)
  qed simp
  then show "records_ok (snd (future_run ops r))" "future_spec_run ops (view r) = (fst (future_run ops r), view (snd (future_run ops r)))"
    by blast+
qed

lemma new_registry_ok: "records_ok new_future_registry" "view new_future_registry = (\<lambda>_. FAbsent)"
  by (simp_all add: records_ok_def new_future_registry_def view_def fun_eq_iff)

text \<open>C3 (the registry refines a table of independent futures).  For every sequence of operations on a new registry, the continuations
  resumed, with their results and in their order, and the futures at the end are those of the specification,
  in which an operation changes the one future it names (or the futures of the named owner), a future
  completes only while it is pending, and whoever waits is resumed once.\<close>

theorem future_registry_refines:
  "future_spec_run ops (\<lambda>_. FAbsent) =
    (fst (future_run ops new_future_registry), view (snd (future_run ops new_future_registry)))"
  using future_run_spec(2) [OF new_registry_ok(1)] by (simp add: new_registry_ok(2))

section \<open>One result, once\<close>

text \<open>The operations that wait for \<open>k\<close> and are accepted: not a second waiter of a direct await.\<close>

fun accepted :: "future_key \<Rightarrow> future_op list \<Rightarrow> FutureRegistry \<Rightarrow> Waiter list" where
  "accepted k [] r = []"
| "accepted k (op # ops) r =
    (case op of
       FWait k' w \<Rightarrow> if k' = k \<and> \<not> isl (fst (add_waiter k w r)) then [w] else []
     | _ \<Rightarrow> []) @ accepted k ops (future_apply op r)"

fun discards :: "future_key \<Rightarrow> future_op \<Rightarrow> bool" where
  "discards k (FDiscard k') = (k' = k)"
| "discards k (FRace k') = (k' = k)"
| "discards k (FDiscardOwner owner) = (owner = fst k)"
| "discards k FDiscardAll = True"
| "discards k _ = False"

definition delivered_to :: "future_key \<Rightarrow> (future_key \<times> Waiter \<times> FutureResult) list \<Rightarrow> (Waiter \<times> FutureResult) list" where
  "delivered_to k out = map snd (filter (\<lambda>d. fst d = k) out)"

definition waiting_for :: "future_key \<Rightarrow> FutureRegistry \<Rightarrow> Waiter list" where
  "waiting_for k r = (case view r k of FPending _ ws \<Rightarrow> ws | _ \<Rightarrow> [])"

lemma delivered_to_simps [simp]:
  "delivered_to k [] = []" "delivered_to k (xs @ ys) = delivered_to k xs @ delivered_to k ys"
  "delivered_to k ((k', w, res) # xs) = (if k' = k then [(w, res)] else []) @ delivered_to k xs"
  "delivered_to k (map (\<lambda>w. (k', w, res)) ws) = (if k' = k then map (\<lambda>w. (w, res)) ws else [])"
  by (simp_all add: delivered_to_def filter_map o_def)

lemma wait_accepted:
  assumes "records_ok r"
  shows "\<not> isl (fst (add_waiter k w r)) \<longleftrightarrow>
    (case view r k of FAbsent \<Rightarrow> False | FPending d ws \<Rightarrow> \<not> (d \<and> ws \<noteq> []) | FDone _ \<Rightarrow> True)"
proof (cases "fr_records r k")
  case (Some rec)
  obtain res ws' where push: "waiters_push w (fu_waiters rec) = (res, ws')" by fastforce
  have ok: "record_ok rec" using records_okD [OF assms Some] .
  then show ?thesis using Some push waiters_push_take(4) [OF push]
    by (cases "fu_state rec"; cases res) (auto simp: add_waiter_def view_def record_view_def pending_waiters_def record_ok_def)
qed (simp add: add_waiter_def view_def)

fun first_result :: "future_key \<Rightarrow> future_op list \<Rightarrow> FutureResult option" where
  "first_result k [] = None"
| "first_result k (op # ops) =
    (case op of
       FComplete k' result \<Rightarrow> if k' = k then Some result else first_result k ops
     | _ \<Rightarrow> first_result k ops)"

lemma done_future_delivers:
  assumes "records_ok r" "view r k = FDone result" "\<forall>op\<in>set ops. \<not> discards k op"
  shows "delivered_to k (fst (future_run ops r)) = map (\<lambda>w. (w, result)) (accepted k ops r)
    \<and> view (snd (future_run ops r)) k = FDone result"
  using assms
proof (induction ops arbitrary: r)
  case (Cons op ops)
  have step: "records_ok (future_apply op r)" "view (future_apply op r) = spec_step op (view r)"
    "future_deliver op r = spec_deliver op (view r)"
    using refines_any [OF Cons.prems(1)] by (auto simp: refines_op_def)
  have same: "view (future_apply op r) k = FDone result"
    unfolding step(2) using Cons.prems(2,3) by (cases op) (auto split: future_view.splits)
  have one: "delivered_to k (future_deliver op r) @ xs = map (\<lambda>w. (w, result)) (accepted k [op] r) @ xs" for xs
    unfolding step(3) using Cons.prems(2) wait_accepted [OF Cons.prems(1)]
    by (cases op) (auto split: future_view.splits)
  show ?case using Cons.IH [OF step(1) same] Cons.prems(3) one by (simp add: case_prod_beta)
qed simp

lemma pending_future_delivers:
  assumes "records_ok r" "view r k = FPending d ws" "\<forall>op\<in>set ops. \<not> discards k op"
  shows "case first_result k ops of
      None \<Rightarrow> delivered_to k (fst (future_run ops r)) = [] \<and> waiting_for k (snd (future_run ops r)) = ws @ accepted k ops r
    | Some result \<Rightarrow> delivered_to k (fst (future_run ops r)) = map (\<lambda>w. (w, result)) (ws @ accepted k ops r)
        \<and> view (snd (future_run ops r)) k = FDone result"
  using assms
proof (induction ops arbitrary: r ws)
  case Nil
  then show ?case by (simp add: waiting_for_def)
next
  case (Cons op ops)
  have step: "records_ok (future_apply op r)" "view (future_apply op r) = spec_step op (view r)"
    "future_deliver op r = spec_deliver op (view r)"
    using refines_any [OF Cons.prems(1)] by (auto simp: refines_op_def)
  show ?case
  proof (cases "\<exists>result. op = FComplete k result")
    case True
    then obtain result where op: "op = FComplete k result" by blast
    have "view (future_apply op r) k = FDone result" unfolding step(2) by (simp add: op Cons.prems(2))
    then show ?thesis
      using done_future_delivers [OF step(1)] Cons.prems(2,3) step(3) by (simp add: case_prod_beta op)
  next
    case False
    have same: "view (future_apply op r) k = FPending d (ws @ accepted k [op] r)"
      unfolding step(2) using Cons.prems(2,3) False wait_accepted [OF Cons.prems(1)]
      by (cases op) (auto split: future_view.splits)
    have none: "delivered_to k (future_deliver op r) = []" "first_result k (op # ops) = first_result k ops"
      unfolding step(3) using Cons.prems(2) False by (cases op; auto split: future_view.splits)+
    show ?thesis
      unfolding none(2) using Cons.IH [OF step(1) same] Cons.prems(3)
      by (cases "first_result k ops") (auto simp: case_prod_beta none(1))
  qed
qed

text \<open>C4 (one result, once, to everybody who waits).  Take a future that \<open>create_future\<close> has just accepted, in a
  registry with any history, and any further operations that do not discard it.  If no completion
  arrives, nobody is resumed and every accepted waiter is still waiting, in order.  If completions
  arrive, every accepted waiter, those who came after the completion included, is resumed exactly
  once and in order, always with the result of the first completion, which the future keeps.\<close>

theorem future_resolves_once:
  assumes "r = snd (future_run before new_future_registry)"
    and "create_future k payload_type payload_module activation r = (Inr (), r')"
    and "\<forall>op\<in>set ops. \<not> discards k op"
  shows "case first_result k ops of
      None \<Rightarrow> delivered_to k (fst (future_run ops r')) = [] \<and> waiting_for k (snd (future_run ops r')) = accepted k ops r'
    | Some result \<Rightarrow> delivered_to k (fst (future_run ops r')) = map (\<lambda>w. (w, result)) (accepted k ops r')
        \<and> view (snd (future_run ops r')) k = FDone result"
proof -
  have "records_ok r" using future_run_spec(1) [OF new_registry_ok(1)] assms(1) by simp
  then have ok: "records_ok r'"
    using refines_any [of r "FCreate k payload_type payload_module activation"] assms(2) by (simp add: refines_op_def)
  have "view r' k = FPending False []"
    using assms(2) by (auto simp: create_future_def view_def record_view_def pending_waiters_def split: if_splits)
  from pending_future_delivers [OF ok this assms(3)] show ?thesis by (simp split: option.splits)
qed

text \<open>Three waiters, one of them late, and two completions.\<close>

definition sample_key :: future_key where
  "sample_key = (1, 7)"

definition sample_waiter :: "nat \<Rightarrow> Waiter" where
  "sample_waiter n =
    \<lparr>pc_thread_id = of_nat n,
     pc_continuation = \<lparr>co_dest = Some 0, co_expected_result = None, co_resumed = n, co_origin_thread_id = None\<rparr>,
     pc_module_id = 0, pc_return_type = 0, pc_stack = [], pc_operation = PendingFuture, pc_active = n\<rparr>"

theorem future_resolves_once_witness:
  "delivered_to sample_key
     (fst (future_run
       [FStart sample_key, FWait sample_key (sample_waiter 1), FWait sample_key (sample_waiter 2), FComplete sample_key (Inr FvNull),
        FComplete sample_key (Inr (FvBool True)), FWait sample_key (sample_waiter 3)]
       (snd (create_future sample_key None None (Provider ''io'' ''read'' [] None) new_future_registry)))) =
   [(sample_waiter 1, Inr FvNull), (sample_waiter 2, Inr FvNull), (sample_waiter 3, Inr FvNull)]"
  using future_resolves_once [of new_future_registry "[]" sample_key None None "Provider ''io'' ''read'' [] None"
      "snd (create_future sample_key None None (Provider ''io'' ''read'' [] None) new_future_registry)"
      "[FStart sample_key, FWait sample_key (sample_waiter 1), FWait sample_key (sample_waiter 2), FComplete sample_key (Inr FvNull),
        FComplete sample_key (Inr (FvBool True)), FWait sample_key (sample_waiter 3)]"]
  by (simp add: create_future_def new_future_registry_def has_active_flag_def add_waiter_def take_activation_for_start_def
      complete_def set_record_def)

section \<open>The flag of a callback\<close>

definition holds_flag :: "FutureRegistry \<Rightarrow> future_key \<Rightarrow> nat \<Rightarrow> bool" where
  "holds_flag r k n \<longleftrightarrow> (\<exists>rec. fr_records r k = Some rec \<and> fu_active rec = Some n)"

definition flags_ok :: "FutureRegistry \<Rightarrow> bool" where
  "flags_ok r \<longleftrightarrow>
     (\<forall>k n. holds_flag r k n \<longrightarrow> n < length (fr_flags r) \<and> fr_flags r ! n) \<and>
     (\<forall>k k' n. holds_flag r k n \<longrightarrow> holds_flag r k' n \<longrightarrow> k' = k)"

lemma flags_of_tombstone [simp]: "fr_flags (record_tombstone k r) = fr_flags r"
  by (auto simp: record_tombstone_def Let_def split: list.splits)

lemma flags_of_remove [simp]: "fr_flags (remove_record k r) = fr_flags r"
  by (simp add: remove_record_def)

lemma flags_of_set [simp]: "fr_flags (set_record k rec r) = fr_flags r"
  by (simp add: set_record_def)

lemma nth_updated: "m < length xs \<Longrightarrow> xs[n := v] ! m = (if m = n then v else xs ! m)"
  by (cases "m = n") auto

lemma flags_of_clear: "fr_flags (clear_flag a r) = (case a of None \<Rightarrow> fr_flags r | Some n \<Rightarrow> (fr_flags r)[n := False])"
  by (simp add: clear_flag_def split: option.splits)

text \<open>The registry after one future of a bulk discard.\<close>

definition dropped :: "future_key \<Rightarrow> FutureRegistry \<Rightarrow> FutureRegistry" where
  "dropped key r =
    (case fr_records r key of
       None \<Rightarrow> r
     | Some rec \<Rightarrow> record_tombstone key (clear_flag (fu_active rec) (r\<lparr>fr_records := (fr_records r)(key := None)\<rparr>)))"

lemma discard_keys_Cons: "snd (discard_keys (key # keys) r) = snd (discard_keys keys (dropped key r))"
  by (auto simp: dropped_def Let_def case_prod_beta split: option.splits)

lemma dropped_holds: "holds_flag (dropped key r) k m \<longleftrightarrow> k \<noteq> key \<and> holds_flag r k m"
  by (auto simp: dropped_def holds_flag_def split: option.splits)

lemma dropped_flags:
  "length (fr_flags (dropped key r)) = length (fr_flags r)"
  "m < length (fr_flags r) \<Longrightarrow> fr_flags (dropped key r) ! m \<longleftrightarrow> fr_flags r ! m \<and> \<not> holds_flag r key m"
  by (auto simp: dropped_def holds_flag_def flags_of_clear nth_updated split: option.splits)

lemma discard_keys_flags:
  "length (fr_flags (snd (discard_keys ks r))) = length (fr_flags r)"
  "m < length (fr_flags r) \<Longrightarrow>
    fr_flags (snd (discard_keys ks r)) ! m \<longleftrightarrow> fr_flags r ! m \<and> \<not> (\<exists>k\<in>set ks. holds_flag r k m)"
proof (induction ks arbitrary: r)
  case (Cons key ks)
  {
    case 1
    show ?case unfolding discard_keys_Cons by (simp add: Cons.IH(1) dropped_flags)
  next
    case 2
    then show ?case unfolding discard_keys_Cons by (auto simp: Cons.IH(2) dropped_flags dropped_holds)
  }
qed simp_all

lemma owner_keys: "set (map (Pair owner) (owned_futures owner r)) = {k. fst k = owner \<and> fr_records r k \<noteq> None}"
  by (auto simp: owned_futures_def)

lemma discard_owner_flags:
  "length (fr_flags (snd (discard_all_for_owner owner r))) = length (fr_flags r)"
  "m < length (fr_flags r) \<Longrightarrow>
    fr_flags (snd (discard_all_for_owner owner r)) ! m \<longleftrightarrow> fr_flags r ! m \<and> \<not> (\<exists>k. fst k = owner \<and> holds_flag r k m)"
proof -
  have held: "(\<exists>k\<in>{k. fst k = owner \<and> fr_records r k \<noteq> None}. holds_flag r k m) \<longleftrightarrow> (\<exists>k. fst k = owner \<and> holds_flag r k m)" for m
    unfolding holds_flag_def by blast
  show "length (fr_flags (snd (discard_all_for_owner owner r))) = length (fr_flags r)"
    unfolding discard_all_for_owner_def by (rule discard_keys_flags(1))
  show "m < length (fr_flags r) \<Longrightarrow>
    fr_flags (snd (discard_all_for_owner owner r)) ! m \<longleftrightarrow> fr_flags r ! m \<and> \<not> (\<exists>k. fst k = owner \<and> holds_flag r k m)"
    unfolding discard_all_for_owner_def by (simp only: discard_keys_flags(2) owner_keys held)
qed

lemma discard_owners_flags:
  "length (fr_flags (snd (discard_owners owners r))) = length (fr_flags r)"
  "m < length (fr_flags r) \<Longrightarrow>
    fr_flags (snd (discard_owners owners r)) ! m \<longleftrightarrow> fr_flags r ! m \<and> \<not> (\<exists>k. fst k \<in> set owners \<and> holds_flag r k m)"
proof (induction owners arbitrary: r)
  case (Cons owner owners)
  have held: "holds_flag (snd (discard_all_for_owner owner r)) k m \<longleftrightarrow> fst k \<noteq> owner \<and> holds_flag r k m" for r k m
    by (simp add: holds_flag_def discard_owner_records)
  {
    case 1
    show ?case by (simp add: Let_def case_prod_beta Cons.IH(1) discard_owner_flags(1))
  next
    case 2
    let ?r = "snd (discard_all_for_owner owner r)"
    have "fr_flags (snd (discard_owners owners ?r)) ! m \<longleftrightarrow>
        fr_flags ?r ! m \<and> \<not> (\<exists>k. fst k \<in> set owners \<and> holds_flag ?r k m)"
      using 2 by (intro Cons.IH(2)) (simp add: discard_owner_flags)
    moreover have "fr_flags ?r ! m \<longleftrightarrow> fr_flags r ! m \<and> \<not> (\<exists>k. fst k = owner \<and> holds_flag r k m)"
      using 2 by (rule discard_owner_flags(2))
    moreover have "snd (discard_owners (owner # owners) r) = snd (discard_owners owners ?r)" by (simp add: Let_def case_prod_beta)
    ultimately show ?case unfolding held list.set insert_iff by (metis (no_types))
  }
qed simp_all

lemma discard_all_flags:
  "length (fr_flags (snd (discard_all r))) = length (fr_flags r)"
  "m < length (fr_flags r) \<Longrightarrow> fr_flags (snd (discard_all r)) ! m \<longleftrightarrow> fr_flags r ! m \<and> \<not> (\<exists>k. holds_flag r k m)"
proof -
  have "holds_flag r k m \<Longrightarrow> fst k \<in> fst ` dom (fr_records r)" for k m
    by (rule imageI) (auto simp: holds_flag_def)
  then have owners: "(\<exists>k. fst k \<in> fst ` dom (fr_records r) \<and> holds_flag r k m) \<longleftrightarrow> (\<exists>k. holds_flag r k m)" for m
    by blast
  show "length (fr_flags (snd (discard_all r))) = length (fr_flags r)"
    by (simp add: discard_all_def discard_owners_flags(1))
  show "m < length (fr_flags r) \<Longrightarrow> fr_flags (snd (discard_all r)) ! m \<longleftrightarrow> fr_flags r ! m \<and> \<not> (\<exists>k. holds_flag r k m)"
    unfolding discard_all_def by (simp only: discard_owners_flags(2) owners set_sorted_list_of_set [OF finite])
qed

fun keeps_flags :: "future_op \<Rightarrow> bool" where
  "keeps_flags (FCreate _ _ _ _) = False"
| "keeps_flags (FDiscard _) = False"
| "keeps_flags (FRace _) = False"
| "keeps_flags (FDiscardOwner _) = False"
| "keeps_flags FDiscardAll = False"
| "keeps_flags _ = True"

lemma keeps_flags_apply:
  assumes "keeps_flags op"
  shows "fr_flags (future_apply op r) = fr_flags r" "holds_flag (future_apply op r) k n \<longleftrightarrow> holds_flag r k n"
  using assms
  by (cases op; auto simp: insert_direct_await_def take_activation_for_start_def
      take_inline_galfus_activation_def assign_request_id_def add_waiter_def complete_def holds_flag_def
      split: option.split FutureState.split Activation.split sum.split prod.split)+

lemma flags_okI:
  assumes "flags_ok r" "\<And>k n. holds_flag r' k n \<Longrightarrow> holds_flag r k n \<and> n < length (fr_flags r') \<and> fr_flags r' ! n"
  shows "flags_ok r'"
  using assms unfolding flags_ok_def by blast

lemma flags_okD:
  assumes "flags_ok r" "holds_flag r k n"
  shows "n < length (fr_flags r)" "fr_flags r ! n" "holds_flag r k' n \<Longrightarrow> k' = k"
  using assms unfolding flags_ok_def by blast+

lemma created_flags_ok:
  assumes "flags_ok r"
  shows "flags_ok (snd (create_future k ty m a r))"
proof (cases "fr_records r k = None")
  case True
  define r' where "r' = snd (create_future k ty m a r)"
  have held: "holds_flag r' k' n \<longleftrightarrow>
      (if k' = k then has_active_flag a \<and> n = length (fr_flags r) else holds_flag r k' n)" for k' n
    using True by (auto simp: r'_def create_future_def holds_flag_def)
  have flags: "fr_flags r' = (if has_active_flag a then fr_flags r @ [True] else fr_flags r)"
    using True by (simp add: r'_def create_future_def)
  note bound = flags_okD [OF assms]
  have "n < length (fr_flags r') \<and> fr_flags r' ! n" if "holds_flag r' k' n" for k' n
    using that bound(1,2) [of k' n] by (auto simp: held flags nth_append split: if_splits)
  moreover have "k'' = k'" if "holds_flag r' k' n" "holds_flag r' k'' n" for k' k'' n
    using that bound(1) [of k' n] bound(1) [of k'' n] bound(3) [of k' n k'']
    by (cases "k' = k"; cases "k'' = k") (auto simp: held)
  ultimately show ?thesis unfolding r'_def flags_ok_def by blast
qed (use assms in \<open>simp add: create_future_def\<close>)

definition unresolved :: "FutureRecord \<Rightarrow> bool" where
  "unresolved rec \<longleftrightarrow> (case fu_state rec of FutureCreated _ \<Rightarrow> True | FutureRunning _ \<Rightarrow> True | _ \<Rightarrow> False)"

lemma discard_inner_snd:
  "snd (discard_inner k force r) =
    (case fr_records r k of
       None \<Rightarrow> r
     | Some rec \<Rightarrow>
         if \<not> force \<and> \<not> waiters_is_empty (fu_waiters rec) then r
         else remove_record k (if unresolved rec then clear_flag (fu_active rec) r else r))"
  by (simp add: discard_inner_def unresolved_def split: option.split FutureState.split)

lemma discard_inner_holds:
  "holds_flag (snd (discard_inner k force r)) k' n \<Longrightarrow> holds_flag r k' n"
  by (simp add: discard_inner_snd holds_flag_def split: option.splits if_splits)

lemma discard_inner_flags:
  assumes "flags_ok r" "fr_records r k' = Some rec'" "fu_active rec' = Some n" "k' = k \<longrightarrow> unresolved rec'"
  shows "length (fr_flags (snd (discard_inner k force r))) = length (fr_flags r)"
    and "fr_flags (snd (discard_inner k force r)) ! n \<longleftrightarrow> fr_records (snd (discard_inner k force r)) k' \<noteq> None"
proof -
  have held: "holds_flag r k' n" using assms(2,3) by (simp add: holds_flag_def)
  note bound = flags_okD(1,2) [OF assms(1) held]
  have other: "k \<noteq> k' \<Longrightarrow> fr_records r k = Some rec \<Longrightarrow> fu_active rec \<noteq> Some n" for rec
    using flags_okD(3) [OF assms(1) held, of k] by (auto simp: holds_flag_def)
  show "length (fr_flags (snd (discard_inner k force r))) = length (fr_flags r)"
    by (simp add: discard_inner_snd flags_of_clear split: option.split)
  show "fr_flags (snd (discard_inner k force r)) ! n \<longleftrightarrow> fr_records (snd (discard_inner k force r)) k' \<noteq> None"
    using assms(2,3,4) bound other
    by (cases "k = k'") (auto simp: discard_inner_snd flags_of_clear nth_updated split: option.splits)
qed

lemma discarded_flags_ok:
  assumes "flags_ok r"
  shows "flags_ok (snd (discard_inner k force r))"
proof (rule flags_okI [OF assms])
  fix k' n
  assume after: "holds_flag (snd (discard_inner k force r)) k' n"
  then have "holds_flag r k' n" by (rule discard_inner_holds)
  then obtain rec' where rec: "fr_records r k' = Some rec'" "fu_active rec' = Some n" by (auto simp: holds_flag_def)
  have still: "fr_records (snd (discard_inner k force r)) k' \<noteq> None" using after by (auto simp: holds_flag_def)
  show "holds_flag r k' n \<and> n < length (fr_flags (snd (discard_inner k force r))) \<and> fr_flags (snd (discard_inner k force r)) ! n"
  proof (cases "k' = k \<longrightarrow> unresolved rec'")
    case True
    show ?thesis
      using discard_inner_flags [OF assms rec True] still flags_okD(1,2) [OF assms \<open>holds_flag r k' n\<close>] \<open>holds_flag r k' n\<close> by simp
  next
    case False
    then have "snd (discard_inner k force r) = r" using still rec by (auto simp: discard_inner_snd split: if_splits)
    then show ?thesis using flags_okD(1,2) [OF assms \<open>holds_flag r k' n\<close>] \<open>holds_flag r k' n\<close> by simp
  qed
qed

lemma bulk_discard_clears:
  assumes "flags_ok r" "holds_flag r k n"
  shows "fr_flags (snd (discard_all_for_owner owner r)) ! n \<longleftrightarrow> fst k \<noteq> owner" "\<not> fr_flags (snd (discard_all r)) ! n"
proof -
  note bound = flags_okD [OF assms]
  have owner: "(\<exists>k'. fst k' = owner \<and> holds_flag r k' n) \<longleftrightarrow> fst k = owner"
    using bound(3) assms(2) by blast
  show "fr_flags (snd (discard_all_for_owner owner r)) ! n \<longleftrightarrow> fst k \<noteq> owner"
    unfolding discard_owner_flags(2) [OF bound(1)] owner using bound(2) by simp
  show "\<not> fr_flags (snd (discard_all r)) ! n"
    unfolding discard_all_flags(2) [OF bound(1)] using assms(2) by blast
qed

lemma flags_ok_step:
  assumes "flags_ok r"
  shows "flags_ok (future_apply op r)"
proof (cases "keeps_flags op")
  case True
  then show ?thesis using assms by (simp add: flags_ok_def keeps_flags_apply)
next
  case False
  have "flags_ok (snd (discard_all_for_owner owner r))" for owner
    using assms
  proof (rule flags_okI)
    fix k n
    assume "holds_flag (snd (discard_all_for_owner owner r)) k n"
    then have "fst k \<noteq> owner" "holds_flag r k n" by (auto simp: holds_flag_def discard_owner_records split: if_splits)
    then show "holds_flag r k n \<and> n < length (fr_flags (snd (discard_all_for_owner owner r)))
        \<and> fr_flags (snd (discard_all_for_owner owner r)) ! n"
      using bulk_discard_clears(1) [OF assms] discard_owner_flags(1) flags_okD(1) [OF assms] by metis
  qed
  moreover have "flags_ok (snd (discard_all r))" by (simp add: flags_ok_def holds_flag_def discard_all_records)
  ultimately show ?thesis
    using False created_flags_ok [OF assms] discarded_flags_ok [OF assms]
    by (cases op) (simp_all add: discard_def discard_for_race_def)
qed

lemma flags_ok_run: "flags_ok r \<Longrightarrow> flags_ok (snd (future_run ops r))"
  by (induction ops arbitrary: r) (simp_all add: Let_def case_prod_beta flags_ok_step)

lemma view_present: "records_ok r \<Longrightarrow> view r k \<noteq> FAbsent \<longleftrightarrow> fr_records r k \<noteq> None"
  using records_okD [of r k]
  by (auto simp: view_def record_view_def record_ok_def split: option.split FutureState.splits)

text \<open>C36 (a callback is wanted exactly while its future is registered).  In a registry with any history, take a future
  of a provider or adapter that is not resolved yet.  Whatever the next operation is, on this or on any other future,
  the flag the callback reads is afterwards set if and only if the future is still there: a discard of
  any kind silences its callback, and no operation silences the callback of another future.\<close>

theorem callback_flag_exact:
  assumes "r = snd (future_run before new_future_registry)"
    and "fr_records r k = Some rec" "fu_active rec = Some n" "unresolved rec"
  shows "fr_flags (future_apply op r) ! n \<longleftrightarrow> view (future_apply op r) k \<noteq> FAbsent"
proof -
  have ok: "records_ok r" using future_run_spec(1) [OF new_registry_ok(1)] assms(1) by simp
  have "flags_ok new_future_registry" by (simp add: flags_ok_def holds_flag_def new_future_registry_def)
  then have flags: "flags_ok r" using assms(1) flags_ok_run by simp
  have held: "holds_flag r k n" using assms(2,3) by (simp add: holds_flag_def)
  note n = flags_okD(1,2) [OF flags held]
  have view: "view (future_apply op r) k \<noteq> FAbsent \<longleftrightarrow> fr_records (future_apply op r) k \<noteq> None"
    using refines_any [OF ok, of op] by (auto simp: refines_op_def dest: view_present)
  show ?thesis
  proof (cases "keeps_flags op")
    case True
    have "fr_records (future_apply op r) k \<noteq> None"
      using keeps_flags_apply(2) [OF True, of r k n] held by (auto simp: holds_flag_def)
    then show ?thesis using view keeps_flags_apply(1) [OF True] n by simp
  next
    case False
    then show ?thesis
      unfolding view using n assms(2) discard_inner_flags(2) [OF flags assms(2,3)] assms(4) bulk_discard_clears [OF flags held]
      by (cases op)
        (auto simp: discard_def discard_for_race_def discard_owner_records discard_all_records create_future_def nth_append)
  qed
qed

theorem callback_flag_exact_witness:
  "fr_flags (future_apply (FDiscardOwner 1)
     (snd (future_run [FCreate (2, 7) None None (Provider ''io'' ''read'' [] None),
        FCreate sample_key None None (Adapter ''db'' ''get'' [] None), FStart sample_key] new_future_registry))) ! 1 = False"
  using callback_flag_exact [of "snd (future_run [FCreate (2, 7) None None (Provider ''io'' ''read'' [] None),
        FCreate sample_key None None (Adapter ''db'' ''get'' [] None), FStart sample_key] new_future_registry)"
      "[FCreate (2, 7) None None (Provider ''io'' ''read'' [] None),
        FCreate sample_key None None (Adapter ''db'' ''get'' [] None), FStart sample_key]" sample_key
      "\<lparr>fu_payload_type = None, fu_payload_module_id = None, fu_state = FutureRunning (Adapter ''db'' ''get'' [] None),
        fu_waiters = PublicWaiters None [], fu_active = Some 1\<rparr>" 1 "FDiscardOwner 1"]
  by (simp add: create_future_def new_future_registry_def has_active_flag_def take_activation_for_start_def set_record_def
      unresolved_def sample_key_def view_def discard_owner_records)

end
