(* ===== verification/Lexer.thy ===== *)
theory Lexer
  imports Source_Text
begin

text \<open>
  The lexer, \<^verbatim>\<open>galfus-frontend/src/lexer\<close>, and its tokens, \<^verbatim>\<open>galfus-frontend/src/tokens\<close>.

  A lexer reads the text through its byte offset; \<open>lx_rest\<close> is the text from that offset on, which the code
  slices anew with \<open>current_text\<close>.  Every operation moves both together.  The classification of
  identifier characters is the crate \<open>unicode_ident\<close> and a parameter.
\<close>

section \<open>Tokens\<close>

text \<open>One datatype for each of the groups of \<open>TokenKind\<close>: keywords, delimiters, punctuation and operators.\<close>

datatype Keyword =
    Import | From | Export | As | Var | Const | Fn | Return | Struct | Enum | Choice | Type | Constraint | Satisfies
  | Match | Instanceof | Typeof | IfKw | Else | For | In | Loop | Break | Continue | Weak | NullKw | TrueKw | FalseKw
  | New | Copy | Async | Await | SelfKw

datatype Delimiter = LeftParen | RightParen | LeftBrace | RightBrace | LeftBracket | RightBracket

datatype Punctuation = Comma | Dot | Colon | Semicolon | At | Underscore

datatype Operator =
    Plus | Minus | Star | Slash | Percent | StarStar
  | Bang | Equal | EqualEqual | BangEqual
  | Less | LessEqual | Greater | GreaterEqual
  | Amp | Pipe | Caret | Tilde | AmpAmp | PipePipe | ShiftLeft | ShiftRight
  | PlusEqual | MinusEqual | StarEqual | SlashEqual | PercentEqual | StarStarEqual
  | AmpEqual | PipeEqual | CaretEqual | ShiftLeftEqual | ShiftRightEqual
  | QuestionDot | QuestionQuestion | QuestionQuestionEqual
  | ColonColon | DotDot | DotDotDot | Arrow

datatype TokenKind =
    Eof | Newline | Unknown
  | Identifier | Integer | Float | String
  | Kw Keyword | Delim Delimiter | Punct Punctuation | Op Operator

datatype DelimiterKind = Parenthesis | Brace | Bracket

fun delimiter_kind :: "TokenKind \<Rightarrow> DelimiterKind option" where
  "delimiter_kind (Delim LeftParen) = Some Parenthesis"
| "delimiter_kind (Delim RightParen) = Some Parenthesis"
| "delimiter_kind (Delim LeftBrace) = Some Brace"
| "delimiter_kind (Delim RightBrace) = Some Brace"
| "delimiter_kind (Delim LeftBracket) = Some Bracket"
| "delimiter_kind (Delim RightBracket) = Some Bracket"
| "delimiter_kind _ = None"

definition is_opening_delimiter :: "TokenKind \<Rightarrow> bool" where
  "is_opening_delimiter k \<longleftrightarrow> k \<in> {Delim LeftParen, Delim LeftBrace, Delim LeftBracket}"

definition is_closing_delimiter :: "TokenKind \<Rightarrow> bool" where
  "is_closing_delimiter k \<longleftrightarrow> k \<in> {Delim RightParen, Delim RightBrace, Delim RightBracket}"

definition is_significant :: "TokenKind \<Rightarrow> bool" where
  "is_significant k \<longleftrightarrow> k \<notin> {Eof, Newline, Unknown}"

record Token =
  tk_kind :: TokenKind
  tk_span :: Span

datatype LexicalDiagnosticCode =
    UnterminatedBlockComment | UnterminatedStringLiteral | UnterminatedMultilineStringLiteral
  | UnknownCharacter | InvalidNumericSeparator

fun lexical_code :: "LexicalDiagnosticCode \<Rightarrow> string \<times> string" where
  "lexical_code UnterminatedBlockComment = (''L0001'', ''unterminated block comment'')"
| "lexical_code UnterminatedStringLiteral = (''L0002'', ''unterminated string literal'')"
| "lexical_code UnterminatedMultilineStringLiteral = (''L0003'', ''unterminated multiline string literal'')"
| "lexical_code UnknownCharacter = (''L0004'', ''unknown character'')"
| "lexical_code InvalidNumericSeparator = (''L0005'', ''invalid numeric separator'')"

section \<open>State and cursor\<close>

record Lexer =
  lx_source :: SourceFile
  lx_rest :: utext
  lx_offset :: nat
  lx_diagnostics :: DiagnosticBag
  lx_previous_significant_kind :: "TokenKind option"

definition new_lexer :: "SourceFile \<Rightarrow> Lexer" where
  "new_lexer f =
    \<lparr>lx_source = f, lx_rest = sf_text f, lx_offset = 0, lx_diagnostics = [], lx_previous_significant_kind = None\<rparr>"

definition make_token :: "TokenKind \<Rightarrow> Span \<Rightarrow> Lexer \<Rightarrow> Token \<times> Lexer" where
  "make_token kind span l =
    (\<lparr>tk_kind = kind, tk_span = span\<rparr>,
     if is_significant kind then l\<lparr>lx_previous_significant_kind := Some kind\<rparr> else l)"

definition is_eof :: "Lexer \<Rightarrow> bool" where
  "is_eof l \<longleftrightarrow> lx_rest l = []"

definition peek :: "Lexer \<Rightarrow> uchar option" where
  "peek l = (case lx_rest l of [] \<Rightarrow> None | c # cs \<Rightarrow> Some c)"

definition bump :: "Lexer \<Rightarrow> Lexer" where
  "bump l = (case lx_rest l of [] \<Rightarrow> l | c # cs \<Rightarrow> l\<lparr>lx_rest := cs, lx_offset := lx_offset l + len_utf8 c\<rparr>)"

definition peek_next :: "Lexer \<Rightarrow> uchar option" where
  "peek_next l = (case lx_rest l of c # d # cs \<Rightarrow> Some d | _ \<Rightarrow> None)"

definition match_char :: "uchar \<Rightarrow> Lexer \<Rightarrow> bool \<times> Lexer" where
  "match_char expected l = (if peek l \<noteq> Some expected then (False, l) else (True, bump l))"

definition starts_with :: "utext \<Rightarrow> Lexer \<Rightarrow> bool" where
  "starts_with txt l \<longleftrightarrow> take (length txt) (lx_rest l) = txt"

definition report :: "LexicalDiagnosticCode \<Rightarrow> nat \<Rightarrow> nat \<Rightarrow> Lexer \<Rightarrow> Lexer" where
  "report code start end' l =
    l\<lparr>lx_diagnostics := lx_diagnostics l @ [diagnostic_error (lexical_code code) (new_span (sf_id (lx_source l)) start end')]\<rparr>"

text \<open>\<open>while let Some(ch) = self.peek()\<close> with a condition: bump as long as it holds.\<close>

function bump_while :: "(uchar \<Rightarrow> bool) \<Rightarrow> Lexer \<Rightarrow> Lexer" where
  "bump_while P l = (case peek l of None \<Rightarrow> l | Some c \<Rightarrow> if P c then bump_while P (bump l) else l)"
  by pat_completeness auto

termination
  by (relation "measure (\<lambda>(P, l). length (lx_rest l))") (auto simp: peek_def bump_def split: list.splits)

declare bump_while.simps [simp del]

section \<open>Trivia\<close>

definition is_space :: "uchar \<Rightarrow> bool" where
  "is_space c \<longleftrightarrow> c \<in> {0x20, 0x09, 0x0B, 0x0C, 0xA0, 0x1680, 0x2000, 0x2001, 0x2002, 0x2003, 0x2004, 0x2005, 0x2006, 0x2007,
     0x2008, 0x2009, 0x200A, 0x202F, 0x205F, 0x3000, 0xFEFF}"

definition skip_whitespace :: "Lexer \<Rightarrow> Lexer" where
  "skip_whitespace l = bump_while is_space l"

definition is_line_end :: "uchar \<Rightarrow> bool" where
  "is_line_end c \<longleftrightarrow> c = newline \<or> c = carriage_return"

definition skip_line_comment :: "Lexer \<Rightarrow> Lexer" where
  "skip_line_comment l = bump_while (\<lambda>c. \<not> is_line_end c) l"

abbreviation line_comment :: utext where
  "line_comment \<equiv> [47, 47]"

abbreviation comment_open :: utext where
  "comment_open \<equiv> [47, 42]"

abbreviation comment_close :: utext where
  "comment_close \<equiv> [42, 47]"

function block_comment_body :: "nat \<Rightarrow> Lexer \<Rightarrow> Lexer" where
  "block_comment_body start l =
    (if is_eof l then report UnterminatedBlockComment start (lx_offset l) l
     else if starts_with comment_close l then bump (bump l)
     else block_comment_body start (bump l))"
  by pat_completeness auto

termination
  by (relation "measure (\<lambda>(s, l). length (lx_rest l))") (auto simp: is_eof_def bump_def split: list.splits)

declare block_comment_body.simps [simp del]

definition skip_block_comment :: "Lexer \<Rightarrow> Lexer" where
  "skip_block_comment l =
    (if \<not> starts_with comment_open l then l else block_comment_body (lx_offset l) (bump (bump l)))"

definition skip_one :: "Lexer \<Rightarrow> Lexer" where
  "skip_one l =
    (let l1 = skip_whitespace l in
     if starts_with line_comment l1 then skip_line_comment l1
     else if starts_with comment_open l1 then skip_block_comment l1
     else l1)"

section \<open>Progress of the cursor\<close>

text \<open>\<open>moved cs l l'\<close>: the characters \<open>cs\<close> were read between the two states.\<close>

definition moved :: "utext \<Rightarrow> Lexer \<Rightarrow> Lexer \<Rightarrow> bool" where
  "moved cs l l' \<longleftrightarrow> lx_rest l = cs @ lx_rest l' \<and> lx_offset l' = lx_offset l + utf8_len cs \<and> lx_source l' = lx_source l"

lemma moved_refl [simp]: "moved [] l l' \<longleftrightarrow> lx_rest l' = lx_rest l \<and> lx_offset l' = lx_offset l \<and> lx_source l' = lx_source l"
  by (auto simp: moved_def)

lemma moved_trans [trans]: "moved cs l l' \<Longrightarrow> moved ds l' l'' \<Longrightarrow> moved (cs @ ds) l l''"
  by (simp add: moved_def)

lemma moved_bump: "lx_rest l = c # cs \<Longrightarrow> moved [c] l (bump l)"
  by (simp add: moved_def bump_def)

lemma moved_report [simp]: "moved cs l (report code s e l') \<longleftrightarrow> moved cs l l'"
  by (simp add: moved_def report_def)

lemma moved_length: "moved cs l l' \<Longrightarrow> length (lx_rest l) = length cs + length (lx_rest l')"
  by (simp add: moved_def)

lemma bump_while_moved:
  "moved (takeWhile P (lx_rest l)) l (bump_while P l)" "lx_rest (bump_while P l) = dropWhile P (lx_rest l)"
  "lx_diagnostics (bump_while P l) = lx_diagnostics l"
  "lx_previous_significant_kind (bump_while P l) = lx_previous_significant_kind l"
proof (induction P l rule: bump_while.induct)
  case (1 P l)
  {
    case 1
    show ?case
    proof (cases "\<exists>c cs. lx_rest l = c # cs \<and> P c")
      case True
      then obtain c cs where l: "lx_rest l = c # cs" "P c" by blast
      have "moved ([c] @ takeWhile P (lx_rest (bump l))) l (bump_while P (bump l))"
        using moved_trans [OF moved_bump [OF l(1)] "1.IH"(1)] l by (simp add: peek_def)
      then show ?thesis using l by (subst bump_while.simps) (simp add: peek_def bump_def)
    next
      case False
      then show ?thesis by (subst bump_while.simps) (auto simp: peek_def split: list.splits)
    qed
  next
    case 2
    show ?case using "1.IH"(2)
      by (subst bump_while.simps) (auto simp: peek_def bump_def split: list.splits)
  next
    case 3
    show ?case using "1.IH"(3)
      by (subst bump_while.simps) (auto simp: peek_def bump_def split: list.splits)
  next
    case 4
    show ?case using "1.IH"(4)
      by (subst bump_while.simps) (auto simp: peek_def bump_def split: list.splits)
  }
qed

lemma moved_bump2: "starts_with [c, d] l \<Longrightarrow> moved [c, d] l (bump (bump l))"
  by (cases "lx_rest l"; cases "tl (lx_rest l)") (auto simp: starts_with_def moved_def bump_def)

lemma starts_withE: "starts_with txt l \<Longrightarrow> \<exists>cs. lx_rest l = txt @ cs"
  unfolding starts_with_def by (metis append_take_drop_id)

text \<open>Text without the end of a block comment.\<close>

definition no_close :: "utext \<Rightarrow> bool" where
  "no_close cs \<longleftrightarrow> (\<nexists>xs ys. cs = xs @ comment_close @ ys)"

lemma no_close_Nil [simp]: "no_close []"
  by (simp add: no_close_def)

lemma no_close_Cons: "no_close (c # cs) \<longleftrightarrow> take 2 (c # cs) \<noteq> comment_close \<and> no_close cs"
proof
  assume "no_close (c # cs)"
  then show "take 2 (c # cs) \<noteq> comment_close \<and> no_close cs"
    unfolding no_close_def by (metis append_Cons append_Nil append_take_drop_id)
next
  assume "take 2 (c # cs) \<noteq> comment_close \<and> no_close cs"
  then show "no_close (c # cs)"
    unfolding no_close_def by (auto simp: Cons_eq_append_conv)
qed

lemma block_comment_body_moved:
  "(\<exists>body. no_close body \<and> moved (body @ comment_close) l (block_comment_body start l)
      \<and> lx_diagnostics (block_comment_body start l) = lx_diagnostics l)
   \<or> (no_close (lx_rest l) \<and> moved (lx_rest l) l (block_comment_body start l))"
proof (induction start l rule: block_comment_body.induct)
  case (1 start l)
  show ?case
  proof (cases "lx_rest l")
    case Nil
    then show ?thesis by (subst (2) block_comment_body.simps) (simp add: is_eof_def)
  next
    case (Cons c cs)
    show ?thesis
    proof (cases "starts_with comment_close l")
      case True
      then have "block_comment_body start l = bump (bump l)"
        using Cons by (subst block_comment_body.simps) (simp add: is_eof_def)
      moreover have "lx_diagnostics (bump (bump l)) = lx_diagnostics l" by (simp add: bump_def split: list.split)
      ultimately show ?thesis using moved_bump2 [OF True] by (intro disjI1 exI [of _ "[]"]) simp
    next
      case False
      then have eq: "block_comment_body start l = block_comment_body start (bump l)"
        using Cons by (subst block_comment_body.simps) (simp add: is_eof_def)
      have head: "take 2 (c # cs) \<noteq> comment_close" using False Cons by (simp add: starts_with_def numeral_2_eq_2)
      have step: "moved [c] l (bump l)" "lx_rest (bump l) = cs" "lx_diagnostics (bump l) = lx_diagnostics l"
        using moved_bump [OF Cons] Cons by (simp_all add: bump_def)
      have "\<not> is_eof l" using Cons by (simp add: is_eof_def)
      from "1.IH" [OF this False] show ?thesis
      proof (elim disjE exE conjE)
        fix body
        assume IH: "no_close body" "moved (body @ comment_close) (bump l) (block_comment_body start (bump l))"
          "lx_diagnostics (block_comment_body start (bump l)) = lx_diagnostics (bump l)"
        have "cs = body @ comment_close @ lx_rest (block_comment_body start (bump l))" using IH(2) step(2) by (simp add: moved_def)
        then have "no_close (c # body)" using IH(1) head by (cases body) (auto simp: no_close_Cons)
        then show ?thesis
          using IH step(3) moved_trans [OF step(1) IH(2)] by (intro disjI1 exI [of _ "c # body"]) (simp add: eq)
      next
        assume "no_close (lx_rest (bump l))" "moved (lx_rest (bump l)) (bump l) (block_comment_body start (bump l))"
        then show ?thesis using moved_trans [OF step(1)] step(2) head Cons by (intro disjI2) (auto simp: eq no_close_Cons)
      qed
    qed
  qed
qed

text \<open>
  \<open>trivia cs rest\<close>: \<open>cs\<close>, when \<open>rest\<close> follows, consists of spaces, line comments up to the end of
  their line, block comments, and possibly a block comment that the end of the text cuts off.
\<close>

inductive trivia :: "utext \<Rightarrow> utext \<Rightarrow> bool" where
  trivia_Nil: "trivia [] rest"
| trivia_space: "is_space c \<Longrightarrow> trivia cs rest \<Longrightarrow> trivia (c # cs) rest"
| trivia_line: "\<forall>c\<in>set body. \<not> is_line_end c \<Longrightarrow> cs @ rest = [] \<or> is_line_end (hd (cs @ rest)) \<Longrightarrow> trivia cs rest \<Longrightarrow>
    trivia (line_comment @ body @ cs) rest"
| trivia_block: "no_close body \<Longrightarrow> trivia cs rest \<Longrightarrow> trivia (comment_open @ body @ comment_close @ cs) rest"
| trivia_open: "no_close body \<Longrightarrow> trivia (comment_open @ body) []"

lemma trivia_spaces: "\<forall>c\<in>set ss. is_space c \<Longrightarrow> trivia cs rest \<Longrightarrow> trivia (ss @ cs) rest"
  by (induction ss) (auto intro: trivia_space)

lemma skip_one_moved:
  "\<exists>cs. moved cs l (skip_one l) \<and>
     (\<forall>ds rest. lx_rest (skip_one l) = ds @ rest \<longrightarrow> trivia ds rest \<longrightarrow> trivia (cs @ ds) rest)"
proof -
  define l1 where "l1 = skip_whitespace l"
  let ?ss = "takeWhile is_space (lx_rest l)"
  have l1: "moved ?ss l l1" using bump_while_moved(1) by (simp add: l1_def skip_whitespace_def)
  have spaces: "trivia cs rest \<Longrightarrow> trivia (?ss @ cs) rest" for cs rest
    by (rule trivia_spaces) (auto dest: set_takeWhileD)
  consider (line) "starts_with line_comment l1" | (block) "\<not> starts_with line_comment l1" "starts_with comment_open l1"
    | (none) "\<not> starts_with line_comment l1" "\<not> starts_with comment_open l1" by blast
  then show ?thesis
  proof cases
    case line
    then obtain tl where tl: "lx_rest l1 = line_comment @ tl" using starts_withE by blast
    let ?P = "\<lambda>c. \<not> is_line_end c"
    have not_end: "?P 47" by (simp add: is_line_end_def)
    have eq: "skip_one l = skip_line_comment l1" using line by (simp add: skip_one_def l1_def)
    have m: "moved (line_comment @ takeWhile ?P tl) l1 (skip_one l)" "lx_rest (skip_one l) = dropWhile ?P tl"
      using bump_while_moved(1,2) [of ?P l1] tl not_end by (simp_all add: eq skip_line_comment_def)
    have "trivia ((?ss @ line_comment @ takeWhile ?P tl) @ ds) rest"
      if "lx_rest (skip_one l) = ds @ rest" "trivia ds rest" for ds rest
    proof -
      have "ds @ rest = [] \<or> is_line_end (hd (ds @ rest))"
        using that(1) hd_dropWhile [of ?P tl] by (auto simp: m(2))
      from spaces [OF trivia_line [OF _ this that(2), of "takeWhile ?P tl"]] show ?thesis by (auto dest: set_takeWhileD)
    qed
    then show ?thesis using moved_trans [OF l1 m(1)] by blast
  next
    case block
    have eq: "skip_one l = block_comment_body (lx_offset l1) (bump (bump l1))"
      using block by (simp add: skip_one_def l1_def [symmetric] skip_block_comment_def)
    note open' = moved_bump2 [OF block(2)]
    from block_comment_body_moved [of "bump (bump l1)" "lx_offset l1"] show ?thesis
    proof (elim disjE exE conjE)
      fix body
      assume b: "no_close body" "moved (body @ comment_close) (bump (bump l1)) (block_comment_body (lx_offset l1) (bump (bump l1)))"
      have "trivia ((?ss @ comment_open @ body @ comment_close) @ ds) rest" if "trivia ds rest" for ds rest
        using spaces [OF trivia_block [OF b(1) that]] by simp
      then show ?thesis using moved_trans [OF l1 moved_trans [OF open' b(2)]] by (auto simp: eq)
    next
      assume b: "no_close (lx_rest (bump (bump l1)))"
        "moved (lx_rest (bump (bump l1))) (bump (bump l1)) (block_comment_body (lx_offset l1) (bump (bump l1)))"
      have "trivia (?ss @ comment_open @ lx_rest (bump (bump l1))) []" using spaces [OF trivia_open [OF b(1)]] .
      moreover have "lx_rest (skip_one l) = []" using b(2) by (simp add: eq moved_def)
      ultimately show ?thesis using moved_trans [OF l1 moved_trans [OF open' b(2)]] by (auto simp: eq)
    qed
  next
    case none
    then have "skip_one l = l1" by (simp add: skip_one_def l1_def)
    then show ?thesis using l1 spaces by auto
  qed
qed

function skip_trivia :: "Lexer \<Rightarrow> Lexer" where
  "skip_trivia l = (let l1 = skip_one l in if lx_offset l1 = lx_offset l then l1 else skip_trivia l1)"
  by pat_completeness auto

termination
proof (relation "measure (\<lambda>l. length (lx_rest l))", simp)
  fix l l1
  assume "l1 = skip_one l" "lx_offset l1 \<noteq> lx_offset l"
  then show "(l1, l) \<in> measure (\<lambda>l. length (lx_rest l))"
    using skip_one_moved [of l] by (auto simp: moved_def)
qed

declare skip_trivia.simps [simp del]

lemma skip_trivia_moved: "\<exists>cs. moved cs l (skip_trivia l) \<and> trivia cs (lx_rest (skip_trivia l))"
proof (induction l rule: skip_trivia.induct)
  case (1 l)
  obtain cs where cs: "moved cs l (skip_one l)"
    "\<And>ds rest. lx_rest (skip_one l) = ds @ rest \<Longrightarrow> trivia ds rest \<Longrightarrow> trivia (cs @ ds) rest"
    using skip_one_moved [of l] by blast
  show ?case
  proof (cases "lx_offset (skip_one l) = lx_offset l")
    case True
    then have "skip_trivia l = skip_one l" by (subst skip_trivia.simps) simp
    then show ?thesis using cs(1) cs(2) [of "[]"] by (auto intro: trivia_Nil)
  next
    case False
    then have eq: "skip_trivia l = skip_trivia (skip_one l)" by (subst skip_trivia.simps) simp
    obtain ds where ds: "moved ds (skip_one l) (skip_trivia (skip_one l))" "trivia ds (lx_rest (skip_trivia (skip_one l)))"
      using "1.IH" False by blast
    have "trivia (cs @ ds) (lx_rest (skip_trivia l))" using cs(2) [OF _ ds(2)] ds(1) by (simp add: eq moved_def)
    then show ?thesis using moved_trans [OF cs(1) ds(1)] by (auto simp: eq)
  qed
qed

section \<open>Identifiers and keywords\<close>

text \<open>The two functions of \<open>unicode_ident\<close>.\<close>

record UnicodeIdent =
  is_xid_start :: "uchar \<Rightarrow> bool"
  is_xid_continue :: "uchar \<Rightarrow> bool"

definition keyword_table :: "(string \<times> TokenKind) list" where
  "keyword_table =
    [(''_'', Punct Underscore),
     (''import'', Kw Import), (''from'', Kw From), (''export'', Kw Export), (''as'', Kw As), (''var'', Kw Var),
     (''const'', Kw Const), (''fn'', Kw Fn), (''return'', Kw Return), (''struct'', Kw Struct), (''enum'', Kw Enum),
     (''choice'', Kw Choice), (''type'', Kw Type), (''constraint'', Kw Constraint), (''satisfies'', Kw Satisfies),
     (''match'', Kw Match), (''instanceof'', Kw Instanceof), (''typeof'', Kw Typeof), (''if'', Kw IfKw), (''else'', Kw Else),
     (''for'', Kw For), (''in'', Kw In), (''loop'', Kw Loop), (''break'', Kw Break), (''continue'', Kw Continue),
     (''weak'', Kw Weak), (''null'', Kw NullKw), (''true'', Kw TrueKw), (''false'', Kw FalseKw), (''new'', Kw New),
     (''copy'', Kw Copy), (''async'', Kw Async), (''await'', Kw Await), (''self'', Kw SelfKw)]"

definition text_of :: "string \<Rightarrow> utext" where
  "text_of s = map of_char s"

definition keyword_kind :: "utext \<Rightarrow> TokenKind option" where
  "keyword_kind txt = map_of (map (\<lambda>(s, k). (text_of s, k)) keyword_table) txt"

definition is_identifier_extra :: "uchar \<Rightarrow> bool" where
  "is_identifier_extra c \<longleftrightarrow> c \<in> {ch CHR ''_'', ch CHR ''#'', ch CHR ''$''}"

definition is_identifier_start :: "UnicodeIdent \<Rightarrow> uchar \<Rightarrow> bool" where
  "is_identifier_start u c \<longleftrightarrow> is_identifier_extra c \<or> is_xid_start u c"

definition is_identifier_continue :: "UnicodeIdent \<Rightarrow> uchar \<Rightarrow> bool" where
  "is_identifier_continue u c \<longleftrightarrow> is_identifier_extra c \<or> is_xid_continue u c"

text \<open>\<open>&self.text[a..b]\<close>, which panics when an end is not a character boundary; \<open>lexer_slices\<close> below shows that it never does.\<close>

definition slice_text :: "nat \<Rightarrow> nat \<Rightarrow> Lexer \<Rightarrow> utext" where
  "slice_text a b l = (case str_get a b (sf_text (lx_source l)) of None \<Rightarrow> [] | Some t \<Rightarrow> t)"

definition lex_identifier :: "UnicodeIdent \<Rightarrow> nat \<Rightarrow> Lexer \<Rightarrow> TokenKind \<times> Lexer" where
  "lex_identifier u start l =
    (let l1 = bump_while (is_identifier_continue u) l in
     (case keyword_kind (slice_text start (lx_offset l1) l1) of None \<Rightarrow> Identifier | Some k \<Rightarrow> k, l1))"

section \<open>Numbers\<close>

datatype NumberBase = Decimal | Hex | Binary | Octal

definition is_decimal_digit :: "uchar \<Rightarrow> bool" where
  "is_decimal_digit c \<longleftrightarrow> ch CHR ''0'' \<le> c \<and> c \<le> ch CHR ''9''"

definition is_hex_digit :: "uchar \<Rightarrow> bool" where
  "is_hex_digit c \<longleftrightarrow> is_decimal_digit c \<or> (ch CHR ''a'' \<le> c \<and> c \<le> ch CHR ''f'') \<or> (ch CHR ''A'' \<le> c \<and> c \<le> ch CHR ''F'')"

definition is_binary_digit :: "uchar \<Rightarrow> bool" where
  "is_binary_digit c \<longleftrightarrow> c = ch CHR ''0'' \<or> c = ch CHR ''1''"

definition is_octal_digit :: "uchar \<Rightarrow> bool" where
  "is_octal_digit c \<longleftrightarrow> ch CHR ''0'' \<le> c \<and> c \<le> ch CHR ''7''"

fun is_digit_for_base :: "NumberBase \<Rightarrow> uchar \<Rightarrow> bool" where
  "is_digit_for_base Decimal c = is_decimal_digit c"
| "is_digit_for_base Hex c = is_hex_digit c"
| "is_digit_for_base Binary c = is_binary_digit c"
| "is_digit_for_base Octal c = is_octal_digit c"

definition digit_or_separator :: "NumberBase \<Rightarrow> uchar \<Rightarrow> bool" where
  "digit_or_separator base c \<longleftrightarrow> is_digit_for_base base c \<or> c = ch CHR ''_''"

definition consume_number_prefix :: "nat \<Rightarrow> Lexer \<Rightarrow> (NumberBase \<times> nat) \<times> Lexer" where
  "consume_number_prefix start l =
    (if str_get start (lx_offset l) (sf_text (lx_source l)) \<noteq> Some (text_of ''0'') then ((Decimal, start), l)
     else
       case peek l of
         None \<Rightarrow> ((Decimal, start), l)
       | Some c \<Rightarrow>
           if c \<in> {ch CHR ''x'', ch CHR ''X''} then ((Hex, lx_offset (bump l)), bump l)
           else if c \<in> {ch CHR ''b'', ch CHR ''B''} then ((Binary, lx_offset (bump l)), bump l)
           else if c \<in> {ch CHR ''o'', ch CHR ''O''} then ((Octal, lx_offset (bump l)), bump l)
           else ((Decimal, start), l))"

definition starts_float_fraction :: "Lexer \<Rightarrow> bool" where
  "starts_float_fraction l \<longleftrightarrow>
    peek l = Some (ch CHR ''.'') \<and> peek_next l \<noteq> Some (ch CHR ''.'') \<and>
    (case peek_next l of None \<Rightarrow> False | Some c \<Rightarrow> is_decimal_digit c)"

text \<open>The loop over \<open>char_indices\<close>, with the flags \<open>previous_was_digit\<close> and \<open>previous_was_separator\<close>.\<close>

fun check_separators :: "NumberBase \<Rightarrow> nat \<Rightarrow> bool \<Rightarrow> bool \<Rightarrow> utext \<Rightarrow> Lexer \<Rightarrow> bool \<times> Lexer" where
  "check_separators base offset prev_digit prev_sep [] l = (prev_sep, l)"
| "check_separators base offset prev_digit prev_sep (c # cs) l =
    (if c = ch CHR ''_'' then
       check_separators base (offset + len_utf8 c) False True cs
         (if \<not> prev_digit \<or> prev_sep then report InvalidNumericSeparator offset (offset + 1) l else l)
     else if is_digit_for_base base c then check_separators base (offset + len_utf8 c) True False cs l
     else check_separators base (offset + len_utf8 c) False False cs l)"

definition validate_number_separators :: "nat \<Rightarrow> nat \<Rightarrow> NumberBase \<Rightarrow> Lexer \<Rightarrow> Lexer" where
  "validate_number_separators start end' base l =
    (case check_separators base start False False (slice_text start end' l) l of
       (prev_sep, l1) \<Rightarrow> if prev_sep then report InvalidNumericSeparator (end' - 1) end' l1 else l1)"

definition lex_number :: "nat \<Rightarrow> Lexer \<Rightarrow> TokenKind \<times> Lexer" where
  "lex_number start l =
    (case consume_number_prefix start l of
       ((base, digits_start), l1) \<Rightarrow>
         let l2 = bump_while (digit_or_separator base) l1;
             (kind, l3) = (if base = Decimal \<and> starts_float_fraction l2
                           then (Float, bump_while (digit_or_separator Decimal) (bump l2))
                           else (Integer, l2)) in
         (kind, validate_number_separators digits_start (lx_offset l3) base l3))"

section \<open>Strings\<close>

definition unterminated :: "LexicalDiagnosticCode \<Rightarrow> nat \<Rightarrow> Lexer \<Rightarrow> TokenKind \<times> Lexer" where
  "unterminated code start l = (String, report code start (lx_offset l) l)"

definition lex_string :: "nat \<Rightarrow> uchar \<Rightarrow> Lexer \<Rightarrow> TokenKind \<times> Lexer" where
  "lex_string start quote l =
    (let l1 = bump_while (\<lambda>c. c \<noteq> quote \<and> \<not> is_line_end c) l in
     if peek l1 = Some quote then (String, bump l1) else unterminated UnterminatedStringLiteral start l1)"

definition lex_multiline_string :: "nat \<Rightarrow> Lexer \<Rightarrow> TokenKind \<times> Lexer" where
  "lex_multiline_string start l =
    (let l1 = bump_while (\<lambda>c. c \<noteq> ch CHR 0x60) l in
     if peek l1 = Some (ch CHR 0x60) then (String, bump l1) else unterminated UnterminatedMultilineStringLiteral start l1)"

section \<open>Tokens of a text\<close>

text \<open>\<open>if self.match_char(c) { ... } else { ... }\<close>, and a final token kind.\<close>

definition if_char :: "uchar \<Rightarrow> (Lexer \<Rightarrow> TokenKind \<times> Lexer) \<Rightarrow> (Lexer \<Rightarrow> TokenKind \<times> Lexer) \<Rightarrow> Lexer \<Rightarrow> TokenKind \<times> Lexer" where
  "if_char c f g l = (case match_char c l of (matched, l1) \<Rightarrow> if matched then f l1 else g l1)"

definition operator :: "Operator \<Rightarrow> Lexer \<Rightarrow> TokenKind \<times> Lexer" where
  "operator op l = (Op op, l)"

definition lex_symbol :: "nat \<Rightarrow> uchar \<Rightarrow> Lexer \<Rightarrow> TokenKind \<times> Lexer" where
  "lex_symbol start c l =
    (let eq = ch CHR ''='' in
     if c = ch CHR ''('' then (Delim LeftParen, l)
     else if c = ch CHR '')'' then (Delim RightParen, l)
     else if c = ch CHR ''{'' then (Delim LeftBrace, l)
     else if c = ch CHR ''}'' then (Delim RightBrace, l)
     else if c = ch CHR ''['' then (Delim LeftBracket, l)
     else if c = ch CHR '']'' then (Delim RightBracket, l)
     else if c = ch CHR '','' then (Punct Comma, l)
     else if c = ch CHR '';'' then (Punct Semicolon, l)
     else if c = ch CHR ''@'' then (Punct At, l)
     else if c = ch CHR ''.'' then
       if_char (ch CHR ''.'') (if_char (ch CHR ''.'') (operator DotDotDot) (operator DotDot)) (Pair (Punct Dot)) l
     else if c = ch CHR '':'' then if_char (ch CHR '':'') (operator ColonColon) (Pair (Punct Colon)) l
     else if c = ch CHR ''?'' then
       if_char (ch CHR ''?'') (if_char eq (operator QuestionQuestionEqual) (operator QuestionQuestion))
         (if_char (ch CHR ''.'') (operator QuestionDot) (Pair Unknown)) l
     else if c = ch CHR ''+'' then if_char eq (operator PlusEqual) (operator Plus) l
     else if c = ch CHR ''-'' then if_char eq (operator MinusEqual) (operator Minus) l
     else if c = ch CHR ''*'' then
       if_char (ch CHR ''*'') (if_char eq (operator StarStarEqual) (operator StarStar))
         (if_char eq (operator StarEqual) (operator Star)) l
     else if c = ch CHR ''/'' then if_char eq (operator SlashEqual) (operator Slash) l
     else if c = ch CHR ''%'' then if_char eq (operator PercentEqual) (operator Percent) l
     else if c = ch CHR ''!'' then if_char eq (operator BangEqual) (operator Bang) l
     else if c = eq then if_char eq (operator EqualEqual) (if_char (ch CHR ''>'') (operator Arrow) (operator Equal)) l
     else if c = ch CHR ''<'' then
       if_char (ch CHR ''<'') (if_char eq (operator ShiftLeftEqual) (operator ShiftLeft))
         (if_char eq (operator LessEqual) (operator Less)) l
     else if c = ch CHR ''>'' then
       if_char (ch CHR ''>'') (if_char eq (operator ShiftRightEqual) (operator ShiftRight))
         (if_char eq (operator GreaterEqual) (operator Greater)) l
     else if c = ch CHR ''&'' then
       if_char (ch CHR ''&'') (operator AmpAmp) (if_char eq (operator AmpEqual) (operator Amp)) l
     else if c = ch CHR ''|'' then
       if_char (ch CHR ''|'') (operator PipePipe) (if_char eq (operator PipeEqual) (operator Pipe)) l
     else if c = ch CHR ''^'' then if_char eq (operator CaretEqual) (operator Caret) l
     else if c = ch CHR ''~'' then operator Tilde l
     else if c = newline then (Newline, l)
     else if c = carriage_return then (Newline, if peek l = Some newline then bump l else l)
     else (Unknown, report UnknownCharacter start (lx_offset l) l))"

definition lex_token :: "UnicodeIdent \<Rightarrow> nat \<Rightarrow> uchar \<Rightarrow> Lexer \<Rightarrow> TokenKind \<times> Lexer" where
  "lex_token u start c l =
    (if is_identifier_start u c then lex_identifier u start l
     else if is_decimal_digit c then lex_number start l
     else if c = ch CHR 0x22 \<or> c = ch CHR 0x27 then lex_string start c l
     else if c = ch CHR 0x60 then lex_multiline_string start l
     else lex_symbol start c l)"

definition next_token :: "UnicodeIdent \<Rightarrow> Lexer \<Rightarrow> Token \<times> Lexer" where
  "next_token u l =
    (let l1 = skip_trivia l; start = lx_offset l1 in
     case lx_rest l1 of
       [] \<Rightarrow> make_token Eof (empty_span (sf_id (lx_source l1)) start) l1
     | c # _ \<Rightarrow>
         (case lex_token u start c (bump l1) of
            (kind, l2) \<Rightarrow> make_token kind (new_span (sf_id (lx_source l2)) start (lx_offset l2)) l2))"

section \<open>The loop of the lexer\<close>

lemma check_separators_moved [simp]:
  "moved cs l (snd (check_separators base off d s t l')) \<longleftrightarrow> moved cs l l'"
  by (induction base off d s t l' rule: check_separators.induct) auto

lemma validate_moved [simp]: "moved cs l (validate_number_separators a b base l') \<longleftrightarrow> moved cs l l'"
  by (simp add: validate_number_separators_def case_prod_beta)

lemma make_token_moved [simp]: "moved cs l (snd (make_token k sp l')) \<longleftrightarrow> moved cs l l'"
  by (simp add: make_token_def moved_def)

text \<open>Every lexing function only moves the cursor forward.\<close>

definition advances :: "(Lexer \<Rightarrow> 'a \<times> Lexer) \<Rightarrow> bool" where
  "advances f \<longleftrightarrow> (\<forall>l. \<exists>cs. moved cs l (snd (f l)))"

lemma bump_advances: "\<exists>cs. moved cs l (bump l)"
  by (cases "lx_rest l") (auto simp: moved_def bump_def)

lemma advances_comp:
  assumes "moved cs l l1" "\<exists>ds. moved ds l1 l2"
  shows "\<exists>es. moved es l l2"
  using assms moved_trans by blast

lemma advances_pair [intro]: "advances (\<lambda>l. (k l, l))" "advances (Pair k')" "advances (operator op)"
  unfolding advances_def operator_def by (auto intro: exI [of _ "[]"])

lemma advances_if_char [intro]: "advances f \<Longrightarrow> advances g \<Longrightarrow> advances (if_char c f g)"
  unfolding advances_def if_char_def match_char_def using bump_advances advances_comp by (simp, blast)

lemma advances_if [intro]: "advances f \<Longrightarrow> advances g \<Longrightarrow> advances (\<lambda>l. if P then f l else g l)"
  by (simp add: advances_def)

lemma advances_bump_while:
  assumes "\<And>l. \<exists>cs. moved cs l (snd (f l))"
  shows "\<exists>cs. moved cs l (snd (f (bump_while P l)))"
  using advances_comp [OF bump_while_moved(1) assms] .

lemma lex_symbol_advances: "advances (lex_symbol start c)"
proof -
  have "advances (\<lambda>l. (Newline, if peek l = Some newline then bump l else l))"
    "advances (\<lambda>l. (Unknown, report UnknownCharacter start (lx_offset l) l))"
    unfolding advances_def using bump_advances by (auto intro: exI [of _ "[]"])
  then show ?thesis unfolding lex_symbol_def [abs_def] Let_def by (intro advances_if advances_if_char advances_pair)
qed

lemma lex_string_advances: "advances (lex_string start q)" "advances (lex_multiline_string start)"
proof -
  have "\<exists>cs. moved cs l (snd (if peek l = Some x then (String, bump l) else unterminated code s l))" for l x code s
    using bump_advances by (auto simp: unterminated_def intro: exI [of _ "[]"])
  then have "\<exists>cs. moved cs l (snd (let l1 = bump_while P l in if peek l1 = Some x then (String, bump l1) else unterminated code s l1))"
    for l P x code s
    unfolding Let_def using advances_comp [OF bump_while_moved(1)] by blast
  then show "advances (lex_string start q)" "advances (lex_multiline_string start)"
    unfolding advances_def lex_string_def lex_multiline_string_def by blast+
qed

lemma lex_number_advances: "advances (lex_number start)"
proof -
  have prefix: "\<exists>cs. moved cs l (snd (consume_number_prefix start l))" for l
    using bump_advances [of l] by (auto simp: consume_number_prefix_def intro: exI [of _ "[]"] split: option.split)
  have fraction: "\<exists>cs. moved cs l (bump_while P (bump l))" for l P
    using bump_advances [of l] bump_while_moved(1) advances_comp by blast
  have "\<exists>cs. moved cs l (snd (lex_number start l))" for l
  proof -
    obtain base ds l1 where p: "consume_number_prefix start l = ((base, ds), l1)" by (metis prod.collapse)
    let ?l2 = "bump_while (digit_or_separator base) l1"
    have "\<exists>cs. moved cs l1 ?l2" using bump_while_moved(1) by blast
    then have "\<exists>cs. moved cs l ?l2" using prefix [of l] p advances_comp by force
    then show ?thesis
      using fraction [of ?l2 "digit_or_separator Decimal"] by (auto simp: lex_number_def p Let_def intro: advances_comp)
  qed
  then show ?thesis by (simp add: advances_def)
qed

lemma lex_token_advances: "\<exists>cs. moved cs l (snd (lex_token u start c l))"
proof -
  have "\<exists>cs. moved cs l (snd (lex_identifier u start l))"
    using bump_while_moved(1) by (auto simp: lex_identifier_def Let_def)
  then show ?thesis
    using lex_symbol_advances lex_string_advances lex_number_advances by (auto simp: lex_token_def advances_def)
qed

lemma next_token_progress:
  assumes "next_token u l = (token, l1)" "tk_kind token \<noteq> Eof"
  shows "length (lx_rest l1) < length (lx_rest l)"
proof -
  have skip: "length (lx_rest (skip_trivia l)) \<le> length (lx_rest l)"
    using skip_trivia_moved [of l] by (auto dest: moved_length)
  obtain c cs where rest: "lx_rest (skip_trivia l) = c # cs"
    using assms by (cases "lx_rest (skip_trivia l)") (auto simp: next_token_def make_token_def Let_def)
  obtain ds where "moved ds (bump (skip_trivia l)) l1"
    using assms rest lex_token_advances [of "bump (skip_trivia l)" u "lx_offset (skip_trivia l)" c]
    by (auto simp: next_token_def Let_def make_token_def case_prod_beta moved_def split: if_splits)
  then have "length (lx_rest l1) \<le> length (lx_rest (bump (skip_trivia l)))" by (auto dest: moved_length)
  with skip rest show ?thesis by (simp add: bump_def)
qed

function lex_loop :: "UnicodeIdent \<Rightarrow> Lexer \<Rightarrow> Token list \<times> Lexer" where
  "lex_loop u l =
    (case next_token u l of
       (token, l1) \<Rightarrow>
         if tk_kind token = Eof then ([token], l1)
         else case lex_loop u l1 of (tokens, l2) \<Rightarrow> (token # tokens, l2))"
  by pat_completeness auto

termination
  by (relation "measure (\<lambda>(u, l). length (lx_rest l))") (auto dest: next_token_progress [OF sym])

declare lex_loop.simps [simp del]

definition lex :: "UnicodeIdent \<Rightarrow> SourceFile \<Rightarrow> Token list \<times> DiagnosticBag" where
  "lex u f = (case lex_loop u (new_lexer f) of (tokens, l) \<Rightarrow> (tokens, lx_diagnostics l))"

end
