(* ===== verification/Lexer_Props.thy ===== *)
theory Lexer_Props
  imports Lexer
begin

text \<open>
  What lexing promises: it ends, it loses nothing (tokens and the trivia between them are the text, and the
  spans say where each token stands), every token has the text of its kind, and text that
  is printed from tokens is read back as these tokens.
\<close>

section \<open>The text of a token\<close>

fun keyword_text :: "Keyword \<Rightarrow> string" where
  "keyword_text Import = ''import''"
| "keyword_text From = ''from''"
| "keyword_text Export = ''export''"
| "keyword_text As = ''as''"
| "keyword_text Var = ''var''"
| "keyword_text Const = ''const''"
| "keyword_text Fn = ''fn''"
| "keyword_text Return = ''return''"
| "keyword_text Struct = ''struct''"
| "keyword_text Enum = ''enum''"
| "keyword_text Choice = ''choice''"
| "keyword_text Type = ''type''"
| "keyword_text Constraint = ''constraint''"
| "keyword_text Satisfies = ''satisfies''"
| "keyword_text Match = ''match''"
| "keyword_text Instanceof = ''instanceof''"
| "keyword_text Typeof = ''typeof''"
| "keyword_text IfKw = ''if''"
| "keyword_text Else = ''else''"
| "keyword_text For = ''for''"
| "keyword_text In = ''in''"
| "keyword_text Loop = ''loop''"
| "keyword_text Break = ''break''"
| "keyword_text Continue = ''continue''"
| "keyword_text Weak = ''weak''"
| "keyword_text NullKw = ''null''"
| "keyword_text TrueKw = ''true''"
| "keyword_text FalseKw = ''false''"
| "keyword_text New = ''new''"
| "keyword_text Copy = ''copy''"
| "keyword_text Async = ''async''"
| "keyword_text Await = ''await''"
| "keyword_text SelfKw = ''self''"

fun delimiter_text :: "Delimiter \<Rightarrow> string" where
  "delimiter_text LeftParen = ''(''"
| "delimiter_text RightParen = '')''"
| "delimiter_text LeftBrace = ''{''"
| "delimiter_text RightBrace = ''}''"
| "delimiter_text LeftBracket = ''[''"
| "delimiter_text RightBracket = '']''"

fun punctuation_text :: "Punctuation \<Rightarrow> string" where
  "punctuation_text Comma = '',''"
| "punctuation_text Dot = ''.''"
| "punctuation_text Colon = '':''"
| "punctuation_text Semicolon = '';''"
| "punctuation_text At = ''@''"
| "punctuation_text Underscore = ''_''"

fun operator_text :: "Operator \<Rightarrow> string" where
  "operator_text Plus = ''+''"
| "operator_text Minus = ''-''"
| "operator_text Star = ''*''"
| "operator_text Slash = ''/''"
| "operator_text Percent = ''%''"
| "operator_text StarStar = ''**''"
| "operator_text Bang = ''!''"
| "operator_text Equal = ''=''"
| "operator_text EqualEqual = ''==''"
| "operator_text BangEqual = ''!=''"
| "operator_text Less = ''<''"
| "operator_text LessEqual = ''<=''"
| "operator_text Greater = ''>''"
| "operator_text GreaterEqual = ''>=''"
| "operator_text Amp = ''&''"
| "operator_text Pipe = ''|''"
| "operator_text Caret = ''^''"
| "operator_text Tilde = ''~''"
| "operator_text AmpAmp = ''&&''"
| "operator_text PipePipe = ''||''"
| "operator_text ShiftLeft = ''<<''"
| "operator_text ShiftRight = ''>>''"
| "operator_text PlusEqual = ''+=''"
| "operator_text MinusEqual = ''-=''"
| "operator_text StarEqual = ''*=''"
| "operator_text SlashEqual = ''/=''"
| "operator_text PercentEqual = ''%=''"
| "operator_text StarStarEqual = ''**=''"
| "operator_text AmpEqual = ''&=''"
| "operator_text PipeEqual = ''|=''"
| "operator_text CaretEqual = ''^=''"
| "operator_text ShiftLeftEqual = ''<<=''"
| "operator_text ShiftRightEqual = ''>>=''"
| "operator_text QuestionDot = ''?.''"
| "operator_text QuestionQuestion = ''??''"
| "operator_text QuestionQuestionEqual = ''??=''"
| "operator_text ColonColon = ''::''"
| "operator_text DotDot = ''..''"
| "operator_text DotDotDot = ''...''"
| "operator_text Arrow = ''=>''"

definition base_prefix :: "uchar \<Rightarrow> NumberBase option" where
  "base_prefix c =
    (if c \<in> {ch CHR ''x'', ch CHR ''X''} then Some Hex
     else if c \<in> {ch CHR ''b'', ch CHR ''B''} then Some Binary
     else if c \<in> {ch CHR ''o'', ch CHR ''O''} then Some Octal
     else None)"

definition digits :: "NumberBase \<Rightarrow> utext \<Rightarrow> bool" where
  "digits base cs \<longleftrightarrow> (\<forall>c\<in>set cs. digit_or_separator base c)"

text \<open>\<open>lexeme u k cs\<close>: \<open>cs\<close> is a text of a token of kind \<open>k\<close>.\<close>

fun lexeme :: "UnicodeIdent \<Rightarrow> TokenKind \<Rightarrow> utext \<Rightarrow> bool" where
  "lexeme u Identifier cs \<longleftrightarrow> (\<exists>d ds. cs = d # ds \<and> is_identifier_start u d \<and> (\<forall>c\<in>set ds. is_identifier_continue u c)) \<and> keyword_kind cs = None"
| "lexeme u (Kw k) cs \<longleftrightarrow> cs = text_of (keyword_text k)"
| "lexeme u (Delim d) cs \<longleftrightarrow> cs = text_of (delimiter_text d)"
| "lexeme u (Punct p) cs \<longleftrightarrow> cs = text_of (punctuation_text p)"
| "lexeme u (Op p) cs \<longleftrightarrow> cs = text_of (operator_text p)"
| "lexeme u Integer cs \<longleftrightarrow> (\<exists>d ds. cs = d # ds \<and> is_decimal_digit d \<and>
     (digits Decimal ds \<or> d = ch CHR ''0'' \<and> (\<exists>p base es. ds = p # es \<and> base_prefix p = Some base \<and> digits base es)))"
| "lexeme u Float cs \<longleftrightarrow> (\<exists>d ds e es. cs = d # ds @ ch CHR ''.'' # e # es \<and> is_decimal_digit d \<and> digits Decimal ds \<and>
     is_decimal_digit e \<and> digits Decimal es)"
| "lexeme u String cs \<longleftrightarrow> (\<exists>q body close. cs = q # body @ close \<and> close \<in> {[], [q]} \<and> q \<notin> set body \<and>
     (q \<in> {ch CHR 0x22, ch CHR 0x27} \<and> (\<forall>c\<in>set body. \<not> is_line_end c) \<or> q = ch CHR 0x60))"
| "lexeme u Newline cs \<longleftrightarrow> cs \<in> {[newline], [carriage_return], [carriage_return, newline]}"
| "lexeme u Unknown cs \<longleftrightarrow> length cs = 1"
| "lexeme u Eof cs \<longleftrightarrow> cs = []"

section \<open>The cursor stays on character boundaries\<close>

definition cursor :: "Lexer \<Rightarrow> bool" where
  "cursor l \<longleftrightarrow> (\<exists>seen. sf_text (lx_source l) = seen @ lx_rest l \<and> lx_offset l = utf8_len seen)"

lemma cursor_new: "cursor (new_lexer f)"
  by (simp add: cursor_def new_lexer_def)

lemma cursor_moved: "cursor l \<Longrightarrow> moved cs l l' \<Longrightarrow> cursor l'"
proof (unfold cursor_def, elim exE conjE)
  fix seen
  assume "sf_text (lx_source l) = seen @ lx_rest l" "lx_offset l = utf8_len seen" "moved cs l l'"
  then show "\<exists>seen. sf_text (lx_source l') = seen @ lx_rest l' \<and> lx_offset l' = utf8_len seen"
    by (intro exI [of _ "seen @ cs"]) (simp add: moved_def)
qed

text \<open>A slice between two positions of the cursor is defined: it is what was read in between.\<close>

lemma lexer_slices:
  assumes "cursor l" "moved cs l l'"
  shows "str_get (lx_offset l) (lx_offset l') (sf_text (lx_source l')) = Some cs" "slice_text (lx_offset l) (lx_offset l') l' = cs"
proof -
  obtain seen where "sf_text (lx_source l) = seen @ lx_rest l" "lx_offset l = utf8_len seen"
    using assms(1) by (auto simp: cursor_def)
  then show "str_get (lx_offset l) (lx_offset l') (sf_text (lx_source l')) = Some cs"
    using assms(2) str_get_middle [of seen cs "lx_rest l'"] by (simp add: moved_def)
  then show "slice_text (lx_offset l) (lx_offset l') l' = cs" by (simp add: slice_text_def)
qed

section \<open>Each token has the text of its kind\<close>

lemma keyword_kind_lexeme: "keyword_kind cs = Some k \<Longrightarrow> lexeme u k cs"
  by (auto simp: keyword_kind_def keyword_table_def split: if_splits)

text \<open>\<open>reads u pre f\<close>: after the characters \<open>pre\<close>, \<open>f\<close> completes a token.\<close>

definition reads :: "UnicodeIdent \<Rightarrow> utext \<Rightarrow> (Lexer \<Rightarrow> TokenKind \<times> Lexer) \<Rightarrow> bool" where
  "reads u pre f \<longleftrightarrow> (\<forall>l. \<exists>cs. moved cs l (snd (f l)) \<and> lexeme u (fst (f l)) (pre @ cs) \<and> fst (f l) \<noteq> Eof)"

lemma reads_leaf: "lexeme u k pre \<Longrightarrow> k \<noteq> Eof \<Longrightarrow> reads u pre (Pair k)"
  unfolding reads_def by (intro allI exI [of _ "[]"]) simp

lemma reads_operator: "pre = text_of (operator_text op) \<Longrightarrow> reads u pre (operator op)"
  unfolding reads_def operator_def by (intro allI exI [of _ "[]"]) simp

lemma reads_if_char:
  assumes "reads u (pre @ [c]) f" "reads u pre g"
  shows "reads u pre (if_char c f g)"
  unfolding reads_def
proof
  fix l
  show "\<exists>cs. moved cs l (snd (if_char c f g l)) \<and> lexeme u (fst (if_char c f g l)) (pre @ cs) \<and> fst (if_char c f g l) \<noteq> Eof"
  proof (cases "peek l = Some c")
    case True
    then obtain ds where ds: "lx_rest l = c # ds" by (auto simp: peek_def split: list.splits)
    obtain cs where "moved cs (bump l) (snd (f (bump l)))" "lexeme u (fst (f (bump l))) ((pre @ [c]) @ cs)" "fst (f (bump l)) \<noteq> Eof"
      using assms(1) unfolding reads_def by blast
    then show ?thesis
      using True moved_trans [OF moved_bump [OF ds]] by (intro exI [of _ "c # cs"]) (auto simp: if_char_def match_char_def)
  next
    case False
    then show ?thesis using assms(2) by (simp add: if_char_def match_char_def reads_def)
  qed
qed

lemma reads_if:
  "(P \<Longrightarrow> reads u pre f) \<Longrightarrow> (\<not> P \<Longrightarrow> reads u pre g) \<Longrightarrow> reads u pre (\<lambda>l. if P then f l else g l)"
  by (cases P) simp_all

lemmas reads_intros = reads_leaf reads_operator reads_if_char

lemma lex_symbol_reads: "reads u [c] (lex_symbol start c)"
proof -
  have line: "reads u [carriage_return] (\<lambda>l. (Newline, if peek l = Some newline then bump l else l))"
    unfolding reads_def
  proof
    fix l
    show "\<exists>cs. moved cs l (snd (Newline, if peek l = Some newline then bump l else l)) \<and>
        lexeme u (fst (Newline, if peek l = Some newline then bump l else l)) ([carriage_return] @ cs) \<and>
        fst (Newline, if peek l = Some newline then bump l else l) \<noteq> Eof"
    proof (cases "peek l = Some newline")
      case True
      then obtain ds where "lx_rest l = newline # ds" by (auto simp: peek_def split: list.splits)
      from moved_bump [OF this] show ?thesis using True by (intro exI [of _ "[newline]"]) simp
    next
      case False
      then show ?thesis by (intro exI [of _ "[]"]) simp
    qed
  qed
  have unknown: "reads u [c] (\<lambda>l. (Unknown, report UnknownCharacter start (lx_offset l) l))" for c
    unfolding reads_def by (intro allI exI [of _ "[]"]) (simp add: report_def)
  show ?thesis
    unfolding lex_symbol_def [abs_def] Let_def
    by (intro reads_if) (auto intro!: reads_intros line unknown simp: text_of_def)
qed

lemma peek_Some: "peek l = Some c \<longleftrightarrow> (\<exists>cs. lx_rest l = c # cs)"
  by (auto simp: peek_def split: list.splits)

lemma lex_identifier_lexeme:
  assumes "cursor l" "lx_rest l = c # rest" "is_identifier_start u c"
  shows "\<exists>cs. moved (c # cs) l (snd (lex_identifier u (lx_offset l) (bump l))) \<and>
    lexeme u (fst (lex_identifier u (lx_offset l) (bump l))) (c # cs) \<and> fst (lex_identifier u (lx_offset l) (bump l)) \<noteq> Eof"
proof -
  let ?cs = "takeWhile (is_identifier_continue u) (lx_rest (bump l))"
  let ?l1 = "bump_while (is_identifier_continue u) (bump l)"
  have m: "moved (c # ?cs) l ?l1" using moved_trans [OF moved_bump [OF assms(2)] bump_while_moved(1)] by simp
  have slice: "slice_text (lx_offset l) (lx_offset ?l1) ?l1 = c # ?cs" using lexer_slices(2) [OF assms(1) m] .
  have cont: "\<forall>c\<in>set ?cs. is_identifier_continue u c" by (auto dest: set_takeWhileD)
  show ?thesis
  proof (cases "keyword_kind (c # ?cs)")
    case None
    then show ?thesis using m slice cont assms(3) by (intro exI [of _ ?cs]) (simp add: lex_identifier_def Let_def)
  next
    case (Some k)
    have "k \<noteq> Eof" using Some by (auto simp: keyword_kind_def keyword_table_def split: if_splits)
    then show ?thesis using m slice keyword_kind_lexeme [OF Some] Some by (intro exI [of _ ?cs]) (simp add: lex_identifier_def Let_def)
  qed
qed

text \<open>The prefix of a number: nothing, or the letter of a base after a zero.\<close>

lemma number_prefix:
  assumes "cursor l" "lx_rest l = c # rest"
  obtains (decimal) "consume_number_prefix (lx_offset l) (bump l) = ((Decimal, lx_offset l), bump l)"
  | (prefixed) p base s where "c = ch CHR ''0''" "base_prefix p = Some base" "base \<noteq> Decimal" "lx_rest (bump l) = p # s"
      "consume_number_prefix (lx_offset l) (bump l) = ((base, lx_offset (bump (bump l))), bump (bump l))"
proof (cases "c = ch CHR ''0'' \<and> (\<exists>p s. lx_rest (bump l) = p # s \<and> base_prefix p \<noteq> None)")
  case True
  then obtain p s base where p: "c = ch CHR ''0''" "lx_rest (bump l) = p # s" "base_prefix p = Some base" by blast
  have "str_get (lx_offset l) (lx_offset (bump l)) (sf_text (lx_source (bump l))) = Some [c]"
    using lexer_slices(1) [OF assms(1) moved_bump [OF assms(2)]] .
  then have "consume_number_prefix (lx_offset l) (bump l) = ((base, lx_offset (bump (bump l))), bump (bump l)) \<and> base \<noteq> Decimal"
    using p by (auto simp: consume_number_prefix_def text_of_def peek_def base_prefix_def split: if_splits)
  then show thesis using prefixed p by blast
next
  case False
  have "str_get (lx_offset l) (lx_offset (bump l)) (sf_text (lx_source (bump l))) = Some [c]"
    using lexer_slices(1) [OF assms(1) moved_bump [OF assms(2)]] .
  then have "consume_number_prefix (lx_offset l) (bump l) = ((Decimal, lx_offset l), bump l)"
    using False by (auto simp: consume_number_prefix_def text_of_def peek_def base_prefix_def split: list.splits)
  then show thesis by (rule decimal)
qed

lemma digits_bump_while:
  obtains cs where "moved cs l (bump_while (digit_or_separator base) l)" "digits base cs"
proof
  show "moved (takeWhile (digit_or_separator base) (lx_rest l)) l (bump_while (digit_or_separator base) l)"
    by (rule bump_while_moved(1))
  show "digits base (takeWhile (digit_or_separator base) (lx_rest l))"
    by (auto simp: digits_def dest: set_takeWhileD)
qed

lemma lex_number_lexeme:
  assumes "cursor l" "lx_rest l = c # rest" "is_decimal_digit c"
  shows "\<exists>cs. moved (c # cs) l (snd (lex_number (lx_offset l) (bump l))) \<and>
    lexeme u (fst (lex_number (lx_offset l) (bump l))) (c # cs) \<and> fst (lex_number (lx_offset l) (bump l)) \<noteq> Eof"
  using assms(1,2)
proof (cases rule: number_prefix)
  case (prefixed p base s)
  obtain cs where cs: "moved cs (bump (bump l)) (bump_while (digit_or_separator base) (bump (bump l)))" "digits base cs"
    by (rule digits_bump_while)
  have "moved ([c] @ [p] @ cs) l (bump_while (digit_or_separator base) (bump (bump l)))"
    using moved_trans [OF moved_bump [OF assms(2)] moved_trans [OF moved_bump [OF prefixed(4)] cs(1)]] .
  then show ?thesis
    using prefixed cs(2) assms(3) by (intro exI [of _ "p # cs"]) (auto simp: lex_number_def Let_def)
next
  case decimal
  obtain cs where cs: "moved cs (bump l) (bump_while (digit_or_separator Decimal) (bump l))" "digits Decimal cs"
    by (rule digits_bump_while)
  let ?l2 = "bump_while (digit_or_separator Decimal) (bump l)"
  have m: "moved (c # cs) l ?l2" using moved_trans [OF moved_bump [OF assms(2)] cs(1)] by simp
  show ?thesis
  proof (cases "starts_float_fraction ?l2")
    case True
    then obtain e es where e: "lx_rest ?l2 = ch CHR ''.'' # e # es" "is_decimal_digit e"
      by (auto simp: starts_float_fraction_def peek_def peek_next_def split: list.splits)
    obtain ds where ds: "moved ds (bump ?l2) (bump_while (digit_or_separator Decimal) (bump ?l2))" "digits Decimal ds"
      by (rule digits_bump_while)
    have "lx_rest (bump_while (digit_or_separator Decimal) (bump ?l2)) = dropWhile (digit_or_separator Decimal) es"
      using bump_while_moved(2) [of "digit_or_separator Decimal" "bump ?l2"] e by (simp add: bump_def digit_or_separator_def)
    then have "ds @ dropWhile (digit_or_separator Decimal) es = e # es" using ds(1) e(1) by (simp add: moved_def bump_def)
    then obtain fs where fs: "ds = e # fs"
      by (cases ds) (use length_dropWhile_le [of "digit_or_separator Decimal" es] in \<open>auto dest!: arg_cong [of _ _ length]\<close>)
    have "moved ((c # cs) @ [ch CHR ''.''] @ ds) l (bump_while (digit_or_separator Decimal) (bump ?l2))"
      using moved_trans [OF m moved_trans [OF moved_bump [OF e(1)] ds(1)]] .
    then show ?thesis
      using decimal True cs(2) ds(2) fs e(2) assms(3)
      by (intro exI [of _ "cs @ ch CHR ''.'' # ds"]) (auto simp: lex_number_def Let_def digits_def)
  next
    case False
    then show ?thesis using decimal m cs(2) assms(3) by (intro exI [of _ cs]) (auto simp: lex_number_def Let_def)
  qed
qed

lemma quoted_lexeme:
  assumes "lx_rest l = q # rest" and body: "\<And>c. P c \<Longrightarrow> c \<noteq> q \<and> (q \<in> {ch CHR 0x22, ch CHR 0x27} \<longrightarrow> \<not> is_line_end c)"
    and "q \<in> {ch CHR 0x22, ch CHR 0x27, ch CHR 0x60}"
    and f: "f l = (let l1 = bump_while P (bump l) in if peek l1 = Some q then (String, bump l1) else unterminated code s l1)"
  shows "\<exists>cs. moved (q # cs) l (snd (f l)) \<and> lexeme u (fst (f l)) (q # cs) \<and> fst (f l) \<noteq> Eof"
proof -
  let ?l1 = "bump_while P (bump l)"
  define bd where "bd = takeWhile P (lx_rest (bump l))"
  have m: "moved (q # bd) l ?l1" unfolding bd_def using moved_trans [OF moved_bump [OF assms(1)] bump_while_moved(1)] by simp
  have b: "\<forall>c\<in>set bd. c \<noteq> q \<and> (q \<in> {ch CHR 0x22, ch CHR 0x27} \<longrightarrow> \<not> is_line_end c)"
  proof
    fix c
    assume "c \<in> set bd"
    then have "P c" unfolding bd_def by (rule set_takeWhileD [THEN conjunct2])
    then show "c \<noteq> q \<and> (q \<in> {ch CHR 0x22, ch CHR 0x27} \<longrightarrow> \<not> is_line_end c)" by (rule body)
  qed
  have shape: "lexeme u String (q # bd @ close)" if "close \<in> {[], [q]}" for close
  proof -
    have "q \<notin> set bd" using b by blast
    moreover have "q \<in> {ch CHR 0x22, ch CHR 0x27} \<and> (\<forall>c\<in>set bd. \<not> is_line_end c) \<or> q = ch CHR 0x60"
      using b assms(3) by blast
    ultimately show ?thesis unfolding lexeme.simps using that by blast
  qed
  show ?thesis
  proof (cases "peek ?l1 = Some q")
    case True
    then obtain ds where "lx_rest ?l1 = q # ds" by (auto simp: peek_Some)
    from moved_trans [OF m moved_bump [OF this]] show ?thesis
      using True shape [of "[q]"] by (intro exI [of _ "bd @ [q]"]) (simp add: f Let_def)
  next
    case False
    then show ?thesis using m shape [of "[]"] by (intro exI [of _ bd]) (simp add: f unterminated_def Let_def)
  qed
qed

lemma lex_token_lexeme:
  assumes "cursor l" "lx_rest l = c # rest"
  shows "\<exists>cs. moved (c # cs) l (snd (lex_token u (lx_offset l) c (bump l))) \<and>
    lexeme u (fst (lex_token u (lx_offset l) c (bump l))) (c # cs) \<and> fst (lex_token u (lx_offset l) c (bump l)) \<noteq> Eof"
proof -
  consider (ident) "is_identifier_start u c" | (num) "\<not> is_identifier_start u c" "is_decimal_digit c"
    | (str) "\<not> is_identifier_start u c" "\<not> is_decimal_digit c" "c = ch CHR 0x22 \<or> c = ch CHR 0x27"
    | (multi) "\<not> is_identifier_start u c" "\<not> is_decimal_digit c" "c = ch CHR 0x60"
    | (sym) "\<not> is_identifier_start u c" "\<not> is_decimal_digit c" "\<not> (c = ch CHR 0x22 \<or> c = ch CHR 0x27)" "c \<noteq> ch CHR 0x60"
    by blast
  then show ?thesis
  proof cases
    case ident
    then show ?thesis using lex_identifier_lexeme [OF assms ident] by (simp add: lex_token_def)
  next
    case num
    then show ?thesis using lex_number_lexeme [OF assms num(2)] by (simp add: lex_token_def)
  next
    case str
    then show ?thesis
      using quoted_lexeme [OF assms(2), where f = "\<lambda>l. lex_string (lx_offset l) c (bump l)"
          and P = "\<lambda>x. x \<noteq> c \<and> \<not> is_line_end x" and code = UnterminatedStringLiteral and s = "lx_offset l" and u = u]
      by (auto simp: lex_token_def lex_string_def)
  next
    case multi
    then show ?thesis
      using quoted_lexeme [OF assms(2), where f = "\<lambda>l. lex_multiline_string (lx_offset l) (bump l)"
          and P = "\<lambda>x. x \<noteq> ch CHR 0x60" and code = UnterminatedMultilineStringLiteral and s = "lx_offset l" and u = u]
      by (auto simp: lex_token_def lex_multiline_string_def)
  next
    case sym
    obtain cs where cs: "moved cs (bump l) (snd (lex_symbol (lx_offset l) c (bump l)))"
      "lexeme u (fst (lex_symbol (lx_offset l) c (bump l))) ([c] @ cs)" "fst (lex_symbol (lx_offset l) c (bump l)) \<noteq> Eof"
      using lex_symbol_reads unfolding reads_def by blast
    then show ?thesis
      using sym moved_trans [OF moved_bump [OF assms(2)] cs(1)] by (intro exI [of _ cs]) (simp add: lex_token_def)
  qed
qed

section \<open>The loop of the lexer\<close>

lemma fst_make_token [simp]: "fst (make_token k sp l) = \<lparr>tk_kind = k, tk_span = sp\<rparr>"
  by (simp add: make_token_def)

text \<open>One token: trivia, then the text of the token, or the end.\<close>

lemma next_token_cases:
  assumes "cursor l"
  obtains (eof) cs where "fst (next_token u l) = \<lparr>tk_kind = Eof, tk_span = empty_span (sf_id (lx_source l)) (lx_offset l + utf8_len cs)\<rparr>"
      "moved cs l (snd (next_token u l))" "trivia cs []" "lx_rest l = cs"
  | (token) gap lexem kind where
      "fst (next_token u l) = \<lparr>tk_kind = kind, tk_span = new_span (sf_id (lx_source l)) (lx_offset l + utf8_len gap)
        (lx_offset l + utf8_len gap + utf8_len lexem)\<rparr>"
      "moved (gap @ lexem) l (snd (next_token u l))" "trivia gap (lexem @ lx_rest (snd (next_token u l)))"
      "lexeme u kind lexem" "lexem \<noteq> []" "kind \<noteq> Eof"
proof -
  obtain gap where gap: "moved gap l (skip_trivia l)" "trivia gap (lx_rest (skip_trivia l))"
    using skip_trivia_moved by blast
  have cur: "cursor (skip_trivia l)" using cursor_moved [OF assms gap(1)] .
  have src: "lx_source (skip_trivia l) = lx_source l" "lx_offset (skip_trivia l) = lx_offset l + utf8_len gap"
    using gap(1) by (simp_all add: moved_def)
  show thesis
  proof (cases "lx_rest (skip_trivia l)")
    case Nil
    have nt: "next_token u l = make_token Eof (empty_span (sf_id (lx_source l)) (lx_offset l + utf8_len gap)) (skip_trivia l)"
      using Nil src by (simp add: next_token_def Let_def)
    show thesis by (rule eof [of gap]) (use gap Nil in \<open>simp_all add: nt make_token_def moved_def\<close>)
  next
    case (Cons c rest)
    let ?t = "lex_token u (lx_offset (skip_trivia l)) c (bump (skip_trivia l))"
    obtain cs where cs: "moved (c # cs) (skip_trivia l) (snd ?t)" "lexeme u (fst ?t) (c # cs)" "fst ?t \<noteq> Eof"
      using lex_token_lexeme [OF cur Cons] by blast
    have m: "moved (gap @ c # cs) l (snd ?t)" using moved_trans [OF gap(1) cs(1)] .
    have end': "lx_source (snd ?t) = lx_source l" "lx_offset (snd ?t) = lx_offset l + utf8_len gap + utf8_len (c # cs)"
      using m by (simp_all add: moved_def)
    have nt: "next_token u l = make_token (fst ?t) (new_span (sf_id (lx_source l)) (lx_offset l + utf8_len gap)
        (lx_offset l + utf8_len gap + utf8_len (c # cs))) (snd ?t)"
      using Cons src end' by (simp add: next_token_def Let_def case_prod_beta)
    have rest: "lx_rest (snd (next_token u l)) = lx_rest (snd ?t)" by (simp add: nt make_token_def)
    show thesis
    proof (rule token [of "fst ?t" gap "c # cs"])
      show "trivia gap ((c # cs) @ lx_rest (snd (next_token u l)))" using gap(2) cs(1) by (simp add: rest moved_def)
    qed (use m cs in \<open>simp_all add: nt\<close>)
  qed
qed

section \<open>Nothing is lost\<close>

text \<open>
  \<open>tiles u id off ts cs\<close>: the tokens \<open>ts\<close> tile the text \<open>cs\<close> that starts at byte \<open>off\<close>.  Each token is preceded by
  trivia only, its text fits its kind, its span is where this text stands, and \<open>Eof\<close> stands alone at the end.
\<close>

fun tiles :: "UnicodeIdent \<Rightarrow> SourceId \<Rightarrow> nat \<Rightarrow> Token list \<Rightarrow> utext \<Rightarrow> bool" where
  "tiles u i off [] cs = False"
| "tiles u i off (t # ts) cs =
    (if ts = [] then t = \<lparr>tk_kind = Eof, tk_span = empty_span i (off + utf8_len cs)\<rparr> \<and> trivia cs []
     else \<exists>gap lexem rest. cs = gap @ lexem @ rest \<and> trivia gap (lexem @ rest) \<and> lexem \<noteq> [] \<and>
       tk_kind t \<noteq> Eof \<and> lexeme u (tk_kind t) lexem \<and>
       tk_span t = new_span i (off + utf8_len gap) (off + utf8_len gap + utf8_len lexem) \<and>
       tiles u i (off + utf8_len gap + utf8_len lexem) ts rest)"

lemma tiles_Cons:
  assumes "ts \<noteq> []" "cs = gap @ lexem @ rest" "trivia gap (lexem @ rest)" "lexem \<noteq> []" "tk_kind t \<noteq> Eof" "lexeme u (tk_kind t) lexem"
    "tk_span t = new_span i (off + utf8_len gap) (off + utf8_len gap + utf8_len lexem)"
    "tiles u i (off + utf8_len gap + utf8_len lexem) ts rest"
  shows "tiles u i off (t # ts) cs"
  unfolding tiles.simps if_not_P [OF assms(1)] using assms(2-8) by blast

lemma lex_loop_nonempty: "fst (lex_loop u l) \<noteq> []"
  by (subst lex_loop.simps) (simp add: case_prod_beta)

lemma lex_loop_tiles:
  "cursor l \<Longrightarrow> tiles u (sf_id (lx_source l)) (lx_offset l) (fst (lex_loop u l)) (lx_rest l)"
proof (induction u l rule: lex_loop.induct)
  case (1 u l)
  obtain t l1 where nt: "next_token u l = (t, l1)" by fastforce
  from "1.prems" show ?case
  proof (cases rule: next_token_cases [of l u])
    case (eof cs)
    then have "lex_loop u l = ([t], l1)" by (subst lex_loop.simps) (simp add: nt)
    then show ?thesis using eof nt by simp
  next
    case (token gap lexem kind)
    have eq: "lex_loop u l = (t # fst (lex_loop u l1), snd (lex_loop u l1))"
      using token nt by (subst lex_loop.simps) (simp add: case_prod_beta)
    have m: "moved (gap @ lexem) l l1" using token(2) nt by simp
    have "tiles u (sf_id (lx_source l1)) (lx_offset l1) (fst (lex_loop u l1)) (lx_rest l1)"
      using "1.IH" [OF nt [symmetric]] token cursor_moved [OF "1.prems" m] nt by simp
    then have rest: "tiles u (sf_id (lx_source l)) (lx_offset l + utf8_len gap + utf8_len lexem) (fst (lex_loop u l1)) (lx_rest l1)"
      using m by (simp add: moved_def add.assoc)
    have "lx_rest l = gap @ lexem @ lx_rest l1" using m by (simp add: moved_def)
    moreover have "t = \<lparr>tk_kind = kind, tk_span = new_span (sf_id (lx_source l)) (lx_offset l + utf8_len gap)
        (lx_offset l + utf8_len gap + utf8_len lexem)\<rparr>" "trivia gap (lexem @ lx_rest l1)" using token(1,3) nt by simp_all
    ultimately show ?thesis
      unfolding eq fst_conv using token(4-6) rest lex_loop_nonempty [of u l1] by (intro tiles_Cons) simp_all
  qed
qed

text \<open>
  C24 (lexing loses nothing).  For every text, \<open>lex\<close> returns tokens that tile it: the text is the tokens' texts with only spaces
  and comments between them, each token has the text of its kind and the span of its text, in bytes, and
  \<open>Eof\<close> is the last token and no other.  In particular the loop ends, and no slice of the text is cut
  inside a character.
\<close>

theorem lex_tiles: "tiles u (sf_id f) 0 (fst (lex u f)) (sf_text f)"
  using lex_loop_tiles [OF cursor_new, of u f] by (simp add: lex_def new_lexer_def case_prod_beta)

section \<open>Printed tokens are read back\<close>

text \<open>What the lexer relies on of \<open>unicode_ident\<close>: the ASCII range, and that spaces do not start an identifier.\<close>

definition is_letter :: "uchar \<Rightarrow> bool" where
  "is_letter c \<longleftrightarrow> (ch CHR ''a'' \<le> c \<and> c \<le> ch CHR ''z'') \<or> (ch CHR ''A'' \<le> c \<and> c \<le> ch CHR ''Z'')"

definition ident_ok :: "UnicodeIdent \<Rightarrow> bool" where
  "ident_ok u \<longleftrightarrow>
    (\<forall>c<128. (is_xid_start u c \<longleftrightarrow> is_letter c) \<and> (is_xid_continue u c \<longleftrightarrow> is_letter c \<or> is_decimal_digit c \<or> c = ch CHR ''_'')) \<and>
    (\<forall>c. is_space c \<longrightarrow> \<not> is_xid_start u c)"

abbreviation space :: uchar where
  "space \<equiv> 32"

text \<open>A text that cannot be mistaken for trivia.\<close>

definition solid :: "utext \<Rightarrow> bool" where
  "solid cs \<longleftrightarrow> cs \<noteq> [] \<and> \<not> is_space (hd cs) \<and> take 2 cs \<noteq> line_comment \<and> take 2 cs \<noteq> comment_open"

lemma skip_one_solid:
  assumes "lx_rest l = ss @ cs" "\<forall>c\<in>set ss. is_space c" "cs = [] \<or> solid cs"
  shows "lx_rest (skip_one l) = cs" "lx_diagnostics (skip_one l) = lx_diagnostics l" "moved ss l (skip_one l)"
proof -
  have drop: "dropWhile is_space (lx_rest l) = cs" "takeWhile is_space (lx_rest l) = ss"
    using assms by (cases cs; auto simp: solid_def dropWhile_append takeWhile_append)+
  have rest: "lx_rest (skip_whitespace l) = cs" by (simp add: skip_whitespace_def bump_while_moved(2) drop)
  then have "\<not> starts_with line_comment (skip_whitespace l)" "\<not> starts_with comment_open (skip_whitespace l)"
    using assms(3) by (auto simp: starts_with_def solid_def numeral_2_eq_2)
  then have "skip_one l = skip_whitespace l" by (simp add: skip_one_def Let_def)
  then show "lx_rest (skip_one l) = cs" "lx_diagnostics (skip_one l) = lx_diagnostics l" "moved ss l (skip_one l)"
    using rest bump_while_moved(1,3) [of is_space l] drop by (simp_all add: skip_whitespace_def)
qed

lemma skip_trivia_solid:
  assumes "lx_rest l = ss @ cs" "\<forall>c\<in>set ss. is_space c" "cs = [] \<or> solid cs"
  shows "lx_rest (skip_trivia l) = cs \<and> lx_diagnostics (skip_trivia l) = lx_diagnostics l \<and> moved ss l (skip_trivia l)"
proof -
  note one = skip_one_solid [OF assms]
  note two = skip_one_solid [of "skip_one l" "[]" cs, OF _ _ assms(3)]
  have again: "skip_trivia (skip_one l) = skip_one (skip_one l)"
    using two one(1) by (subst skip_trivia.simps) (simp add: moved_def)
  show ?thesis
    using one two again moved_trans [OF one(3), of "[]" "skip_one (skip_one l)"]
    by (subst (1 2 3) skip_trivia.simps) (auto simp: Let_def)
qed

text \<open>\<open>scans u k t\<close>: in front of a space, the lexer reads \<open>t\<close> as one token of kind \<open>k\<close> and reports nothing.\<close>

definition scans :: "UnicodeIdent \<Rightarrow> TokenKind \<Rightarrow> utext \<Rightarrow> bool" where
  "scans u k t \<longleftrightarrow> k \<noteq> Eof \<and> (\<forall>r. solid (t @ space # r)) \<and>
    (\<forall>l r c cs. cursor l \<longrightarrow> lx_rest l = t @ space # r \<longrightarrow> t = c # cs \<longrightarrow>
       fst (lex_token u (lx_offset l) c (bump l)) = k \<and> lx_rest (snd (lex_token u (lx_offset l) c (bump l))) = space # r \<and>
       lx_diagnostics (snd (lex_token u (lx_offset l) c (bump l))) = lx_diagnostics l)"

lemma next_token_scans:
  assumes "scans u k t" "cursor l" "lx_rest l = ss @ t @ space # r" "\<forall>c\<in>set ss. is_space c"
  shows "tk_kind (fst (next_token u l)) = k" "lx_rest (snd (next_token u l)) = space # r"
    "lx_diagnostics (snd (next_token u l)) = lx_diagnostics l"
    "source_slice (lx_source l) (tk_span (fst (next_token u l))) = Some t"
proof -
  have solid: "solid (t @ space # r)" using assms(1) by (simp add: scans_def)
  note skip = skip_trivia_solid [OF assms(3,4)]
  obtain c cs where t: "t = c # cs" using assms(1) by (cases t) (auto simp: scans_def solid_def is_space_def)
  have cur: "cursor (skip_trivia l)" using skip solid cursor_moved [OF assms(2)] by blast
  then have tok: "fst (lex_token u (lx_offset (skip_trivia l)) c (bump (skip_trivia l))) = k"
    "lx_rest (snd (lex_token u (lx_offset (skip_trivia l)) c (bump (skip_trivia l)))) = space # r"
    "lx_diagnostics (snd (lex_token u (lx_offset (skip_trivia l)) c (bump (skip_trivia l)))) = lx_diagnostics l"
    using assms(1) skip solid t unfolding scans_def by metis+
  have rest: "lx_rest (skip_trivia l) = c # cs @ space # r" using skip solid t by simp
  show "tk_kind (fst (next_token u l)) = k" "lx_rest (snd (next_token u l)) = space # r"
    "lx_diagnostics (snd (next_token u l)) = lx_diagnostics l"
    using tok rest by (auto simp: next_token_def Let_def case_prod_beta make_token_def)
  let ?l2 = "snd (lex_token u (lx_offset (skip_trivia l)) c (bump (skip_trivia l)))"
  obtain ds where m: "moved (c # ds) (skip_trivia l) ?l2" using lex_token_lexeme [OF cur rest] by blast
  have "c # ds = t" using m rest tok(2) t by (simp add: moved_def)
  with lexer_slices(1) [OF cur m]
  have slice: "str_get (lx_offset (skip_trivia l)) (lx_offset ?l2) (sf_text (lx_source ?l2)) = Some t" by simp
  have src: "lx_source ?l2 = lx_source l" using m skip solid by (simp add: moved_def)
  show "source_slice (lx_source l) (tk_span (fst (next_token u l))) = Some t"
    using rest slice src by (simp add: next_token_def Let_def case_prod_beta make_token_def source_slice_def new_span_def)
qed

lemma next_token_source: "cursor l \<Longrightarrow> lx_source (snd (next_token u l)) = lx_source l"
  by (cases rule: next_token_cases [of l u]) (auto simp: moved_def)

lemma lex_loop_scans:
  assumes "\<forall>(k, t)\<in>set items. scans u k t" "cursor l"
    "lx_rest l = ss @ concat (map (\<lambda>(k, t). t @ [space]) items)" "\<forall>c\<in>set ss. is_space c"
  shows "map tk_kind (fst (lex_loop u l)) = map fst items @ [Eof] \<and> lx_diagnostics (snd (lex_loop u l)) = lx_diagnostics l \<and>
    map (\<lambda>tok. source_slice (lx_source l) (tk_span tok)) (fst (lex_loop u l)) = map (Some \<circ> snd) items @ [Some []]"
  using assms
proof (induction items arbitrary: l ss)
  case Nil
  then have skip: "lx_rest (skip_trivia l) = []" "lx_diagnostics (skip_trivia l) = lx_diagnostics l" "moved ss l (skip_trivia l)"
    using skip_trivia_solid [of l ss "[]"] by simp_all
  then have src: "lx_source (skip_trivia l) = lx_source l" by (simp add: moved_def)
  have "str_get (lx_offset (skip_trivia l)) (lx_offset (skip_trivia l)) (sf_text (lx_source (skip_trivia l))) = Some []"
    by (rule lexer_slices(1) [OF cursor_moved [OF Nil.prems(2) skip(3)]]) (simp add: moved_def)
  with skip src show ?case
    by (subst (1 2 3) lex_loop.simps)
       (simp add: next_token_def Let_def make_token_def is_significant_def source_slice_def empty_span_def)
next
  case (Cons item items)
  obtain k t where item: "item = (k, t)" by fastforce
  let ?r = "concat (map (\<lambda>(k, t). t @ [space]) items)"
  have scan: "scans u k t" using Cons.prems(1) item by simp
  have rest: "lx_rest l = ss @ t @ space # ?r" using Cons.prems(3) item by simp
  note nt = next_token_scans [OF scan Cons.prems(2) rest Cons.prems(4)]
  have k: "k \<noteq> Eof" using scan by (simp add: scans_def)
  have cur: "cursor (snd (next_token u l))"
    using Cons.prems(2) by (cases rule: next_token_cases [of l u]) (auto intro: cursor_moved [OF Cons.prems(2)])
  have "map tk_kind (fst (lex_loop u (snd (next_token u l)))) = map fst items @ [Eof] \<and>
      lx_diagnostics (snd (lex_loop u (snd (next_token u l)))) = lx_diagnostics (snd (next_token u l)) \<and>
      map (\<lambda>tok. source_slice (lx_source (snd (next_token u l))) (tk_span tok)) (fst (lex_loop u (snd (next_token u l)))) =
        map (Some \<circ> snd) items @ [Some []]"
    by (rule Cons.IH [of _ "[space]"]) (use Cons.prems cur nt(2) in \<open>simp_all add: is_space_def\<close>)
  then show ?case using nt k item next_token_source [OF Cons.prems(2), of u]
    by (subst (1 2 3) lex_loop.simps) (simp add: case_prod_beta)
qed

lemma ident_ok_ascii:
  "ident_ok u \<Longrightarrow> c < 128 \<Longrightarrow> is_xid_start u c = is_letter c"
  "ident_ok u \<Longrightarrow> c < 128 \<Longrightarrow> is_xid_continue u c = (is_letter c \<or> is_decimal_digit c \<or> c = ch CHR ''_'')"
  by (simp_all add: ident_ok_def)

lemmas ascii_simps = ident_ok_ascii is_identifier_start_def is_identifier_continue_def is_identifier_extra_def is_letter_def is_decimal_digit_def

lemma scans_symbolI:
  assumes "k \<noteq> Eof" "\<forall>r. solid ((c # cs) @ space # r)" "\<not> is_identifier_start u c" "\<not> is_decimal_digit c"
    "c \<notin> {ch CHR 0x22, ch CHR 0x27, ch CHR 0x60}"
    "\<And>start l r. lx_rest l = cs @ space # r \<Longrightarrow> fst (lex_symbol start c l) = k \<and> lx_rest (snd (lex_symbol start c l)) = space # r
      \<and> lx_diagnostics (snd (lex_symbol start c l)) = lx_diagnostics l"
  shows "scans u k (c # cs)"
proof -
  have "fst (lex_token u start c (bump l)) = k \<and> lx_rest (snd (lex_token u start c (bump l))) = space # r
      \<and> lx_diagnostics (snd (lex_token u start c (bump l))) = lx_diagnostics l"
    if "lx_rest l = (c # cs) @ space # r" for start l r
  proof -
    have "lx_rest (bump l) = cs @ space # r" "lx_diagnostics (bump l) = lx_diagnostics l" using that by (simp_all add: bump_def)
    then show ?thesis using assms(3-5) assms(6) [of "bump l" r start] by (simp add: lex_token_def)
  qed
  then show ?thesis using assms(1,2) unfolding scans_def by blast
qed

lemmas symbol_simps = lex_symbol_def Let_def if_char_def match_char_def peek_def bump_def operator_def

lemma scans_operator: "ident_ok u \<Longrightarrow> scans u (Op op) (text_of (operator_text op))"
  by (cases op; simp add: text_of_def; rule scans_symbolI; simp add: solid_def is_space_def ascii_simps symbol_simps)

lemma scans_delimiter: "ident_ok u \<Longrightarrow> scans u (Delim d) (text_of (delimiter_text d))"
  by (cases d; simp add: text_of_def; rule scans_symbolI; simp add: solid_def is_space_def ascii_simps symbol_simps)

lemma scans_newline: "ident_ok u \<Longrightarrow> scans u Newline [newline]"
  by (rule scans_symbolI; simp add: solid_def is_space_def ascii_simps symbol_simps)

text \<open>Words: identifiers, keywords and the underscore.\<close>

lemma scans_word:
  assumes "ident_ok u" "is_identifier_start u c" "\<forall>x\<in>set cs. is_identifier_continue u x"
    "k = (case keyword_kind (c # cs) of None \<Rightarrow> Identifier | Some k \<Rightarrow> k)"
  shows "scans u k (c # cs)"
proof -
  have k: "k \<noteq> Eof" using assms(4) by (auto simp: keyword_kind_def keyword_table_def split: option.splits if_splits)
  have "is_space c \<Longrightarrow> \<not> is_xid_start u c" using assms(1) unfolding ident_ok_def by blast
  moreover have "is_identifier_extra c \<Longrightarrow> \<not> is_space c" by (auto simp: is_identifier_extra_def is_space_def)
  ultimately have "\<not> is_space c" using assms(2) unfolding is_identifier_start_def by blast
  moreover have "c \<noteq> 47" using assms(1,2) by (auto simp: ascii_simps)
  ultimately have solid: "solid ((c # cs) @ space # r)" for r by (simp add: solid_def numeral_2_eq_2)
  have stop: "\<not> is_identifier_continue u space" using assms(1) by (simp add: ascii_simps)
  have "fst (lex_token u (lx_offset l) c (bump l)) = k \<and> lx_rest (snd (lex_token u (lx_offset l) c (bump l))) = space # r
      \<and> lx_diagnostics (snd (lex_token u (lx_offset l) c (bump l))) = lx_diagnostics l"
    if cur: "cursor l" and rest: "lx_rest l = c # cs @ space # r" for l r
  proof -
    let ?l1 = "bump_while (is_identifier_continue u) (bump l)"
    have b: "lx_rest (bump l) = cs @ space # r" "lx_diagnostics (bump l) = lx_diagnostics l" using rest by (simp_all add: bump_def)
    then have "takeWhile (is_identifier_continue u) (lx_rest (bump l)) = cs" "dropWhile (is_identifier_continue u) (lx_rest (bump l)) = space # r"
      using assms(3) stop by simp_all
    then have m: "moved (c # cs) l ?l1" "lx_rest ?l1 = space # r" "lx_diagnostics ?l1 = lx_diagnostics l"
      using moved_trans [OF moved_bump [OF rest] bump_while_moved(1) [of "is_identifier_continue u"]]
        bump_while_moved(2,3) [of "is_identifier_continue u" "bump l"] b
      by simp_all
    have "slice_text (lx_offset l) (lx_offset ?l1) ?l1 = c # cs" using lexer_slices(2) [OF cur m(1)] .
    then show ?thesis using m assms(2,4) by (simp add: lex_token_def lex_identifier_def Let_def)
  qed
  then show ?thesis using k solid unfolding scans_def by auto
qed

lemma scans_keyword: "ident_ok u \<Longrightarrow> scans u (Kw k) (text_of (keyword_text k))"
  by (cases k; simp add: text_of_def; rule scans_word; simp add: ascii_simps keyword_kind_def keyword_table_def text_of_def)

lemma scans_punctuation: "ident_ok u \<Longrightarrow> scans u (Punct p) (text_of (punctuation_text p))"
proof (cases "p = Underscore")
  case True
  assume "ident_ok u"
  then show ?thesis unfolding True
    by (simp add: text_of_def, intro scans_word) (simp_all add: ascii_simps keyword_kind_def keyword_table_def text_of_def)
next
  case False
  assume "ident_ok u"
  then have "scans u (Punct q) (text_of (punctuation_text q))" if "q \<in> {Comma, Dot, Colon, Semicolon, At}" for q
    using that by (elim insertE emptyE; simp add: text_of_def; intro scans_symbolI; simp add: solid_def is_space_def ascii_simps symbol_simps)
  moreover have "p \<in> {Comma, Dot, Colon, Semicolon, At}" using False by (cases p) simp_all
  ultimately show ?thesis by blast
qed

lemma check_separators_digits:
  "\<forall>c\<in>set cs. is_decimal_digit c \<Longrightarrow> cs \<noteq> [] \<Longrightarrow> check_separators Decimal off d s cs l = (False, l)"
proof (induction Decimal off d s cs l rule: check_separators.induct)
  case (2 off d s c cs l)
  then show ?case by (cases cs) (auto simp: is_decimal_digit_def)
qed simp

lemma scans_integer:
  assumes "\<forall>c\<in>set (d # ds). is_decimal_digit c" "ident_ok u"
  shows "scans u Integer (d # ds)"
proof -
  have solid: "solid ((d # ds) @ space # r)" for r
    using assms(1) by (auto simp: solid_def is_space_def is_decimal_digit_def)
  have d: "is_decimal_digit d" "\<not> is_identifier_start u d" using assms by (auto simp: ascii_simps)
  have "fst (lex_token u (lx_offset l) d (bump l)) = Integer \<and> lx_rest (snd (lex_token u (lx_offset l) d (bump l))) = space # r
      \<and> lx_diagnostics (snd (lex_token u (lx_offset l) d (bump l))) = lx_diagnostics l"
    if cur: "cursor l" and rest: "lx_rest l = d # ds @ space # r" for l r
  proof -
    let ?l2 = "bump_while (digit_or_separator Decimal) (bump l)"
    have b: "lx_rest (bump l) = ds @ space # r" "lx_diagnostics (bump l) = lx_diagnostics l" using rest by (simp_all add: bump_def)
    have "lx_rest (bump l) = p # s \<Longrightarrow> base_prefix p = None" for p s
      using b assms(1) by (cases ds) (auto simp: base_prefix_def is_decimal_digit_def)
    then have prefix: "consume_number_prefix (lx_offset l) (bump l) = ((Decimal, lx_offset l), bump l)"
      by (metis number_prefix [OF cur rest] option.distinct(1))
    have "takeWhile (digit_or_separator Decimal) (lx_rest (bump l)) = ds" "dropWhile (digit_or_separator Decimal) (lx_rest (bump l)) = space # r"
      using b assms(1) by (auto simp: digit_or_separator_def is_decimal_digit_def)
    then have l2: "moved (d # ds) l ?l2" "lx_rest ?l2 = space # r" "lx_diagnostics ?l2 = lx_diagnostics l"
      using moved_trans [OF moved_bump [OF rest] bump_while_moved(1) [of "digit_or_separator Decimal"]]
        bump_while_moved(2,3) [of "digit_or_separator Decimal" "bump l"] b by simp_all
    have "slice_text (lx_offset l) (lx_offset ?l2) ?l2 = d # ds" using lexer_slices(2) [OF cur l2(1)] .
    then have "validate_number_separators (lx_offset l) (lx_offset ?l2) Decimal ?l2 = ?l2"
      using check_separators_digits [OF assms(1)] by (simp add: validate_number_separators_def)
    moreover have "\<not> starts_float_fraction ?l2" using l2(2) by (simp add: starts_float_fraction_def peek_def)
    ultimately show ?thesis using d prefix l2 by (simp add: lex_token_def lex_number_def)
  qed
  then show ?thesis using solid unfolding scans_def by auto
qed

lemma scans_string:
  assumes "q \<in> {ch CHR 0x22, ch CHR 0x27}" "\<forall>c\<in>set body. c \<noteq> q \<and> \<not> is_line_end c" "ident_ok u"
  shows "scans u String (q # body @ [q])"
proof -
  have q: "\<not> is_identifier_start u q" "\<not> is_decimal_digit q" "\<not> is_space q" "q \<noteq> 47"
    using assms(1,3) by (auto simp: ascii_simps is_space_def)
  then have solid: "solid ((q # body @ [q]) @ space # r)" for r by (simp add: solid_def numeral_2_eq_2)
  let ?P = "\<lambda>c. c \<noteq> q \<and> \<not> is_line_end c"
  have "fst (lex_token u (lx_offset l) q (bump l)) = String \<and> lx_rest (snd (lex_token u (lx_offset l) q (bump l))) = space # r
      \<and> lx_diagnostics (snd (lex_token u (lx_offset l) q (bump l))) = lx_diagnostics l"
    if rest: "lx_rest l = q # body @ q # space # r" for l r
  proof -
    have "lx_rest (bump l) = body @ q # space # r" "lx_diagnostics (bump l) = lx_diagnostics l" using rest by (simp_all add: bump_def)
    then have "lx_rest (bump_while ?P (bump l)) = q # space # r" "lx_diagnostics (bump_while ?P (bump l)) = lx_diagnostics l"
      using bump_while_moved(2,3) [of ?P "bump l"] assms(2) by simp_all
    then show ?thesis using q assms(1) by (auto simp: lex_token_def lex_string_def Let_def peek_def bump_def)
  qed
  then show ?thesis using solid unfolding scans_def by auto
qed

text \<open>The tokens that can be printed, with their texts.\<close>

inductive printed :: "UnicodeIdent \<Rightarrow> TokenKind \<Rightarrow> utext \<Rightarrow> bool" for u where
  "printed u (Kw k) (text_of (keyword_text k))"
| "printed u (Delim d) (text_of (delimiter_text d))"
| "printed u (Punct p) (text_of (punctuation_text p))"
| "printed u (Op op) (text_of (operator_text op))"
| "printed u Newline [newline]"
| "lexeme u Identifier cs \<Longrightarrow> printed u Identifier cs"
| "\<forall>c\<in>set (d # ds). is_decimal_digit c \<Longrightarrow> printed u Integer (d # ds)"
| "q \<in> {ch CHR 0x22, ch CHR 0x27} \<Longrightarrow> \<forall>c\<in>set body. c \<noteq> q \<and> \<not> is_line_end c \<Longrightarrow> printed u String (q # body @ [q])"

lemma printed_scans:
  assumes "ident_ok u" "printed u k t"
  shows "scans u k t"
  using assms(2)
proof cases
  case 6
  then obtain d ds where "t = d # ds" "is_identifier_start u d" "\<forall>x\<in>set ds. is_identifier_continue u x" "keyword_kind (d # ds) = None"
    by auto
  then show ?thesis using 6 scans_word [OF assms(1), of d ds Identifier] by simp
next
  case (7 d ds)
  then show ?thesis using scans_integer [OF _ assms(1), of d ds] by blast
qed (auto intro: scans_keyword scans_delimiter scans_punctuation scans_operator scans_newline scans_string assms(1))

text \<open>
  C25 (what is printed is read back).  Any sequence of keywords, delimiters, punctuation, operators, line feeds, identifiers,
  decimal integers and quoted strings, written one after the other with exactly one space behind each, is lexed to exactly these
  kinds followed by \<open>Eof\<close>, the spans of the tokens cut exactly their texts out of the source, and no diagnostic is reported.
\<close>

theorem lex_print_roundtrip:
  assumes "ident_ok u" "\<forall>(k, t)\<in>set items. printed u k t"
  shows "let f = new_source i n (concat (map (\<lambda>(k, t). t @ [space]) items)) in
    map tk_kind (fst (lex u f)) = map fst items @ [Eof] \<and>
    map (\<lambda>tok. source_slice f (tk_span tok)) (fst (lex u f)) = map (Some \<circ> snd) items @ [Some []] \<and>
    snd (lex u f) = []"
proof -
  let ?f = "new_source i n (concat (map (\<lambda>(k, t). t @ [space]) items))"
  have "\<forall>(k, t)\<in>set items. scans u k t" using assms printed_scans by blast
  from lex_loop_scans [OF this cursor_new, of ?f "[]"] show ?thesis
    by (simp add: lex_def case_prod_beta new_lexer_def new_source_def Let_def)
qed

definition sample_ident :: UnicodeIdent where
  "sample_ident = \<lparr>is_xid_start = is_letter, is_xid_continue = (\<lambda>c. is_letter c \<or> is_decimal_digit c \<or> c = ch CHR ''_'')\<rparr>"

lemma sample_ident_ok: "ident_ok sample_ident"
  by (auto simp: ident_ok_def sample_ident_def is_space_def is_letter_def)

theorem lex_print_roundtrip_witness:
  "map tk_kind (fst (lex sample_ident (new_source 1 [] (text_of ''var x = 42 ; '')))) =
     [Kw Var, Identifier, Op Equal, Integer, Punct Semicolon, Eof] \<and>
   source_slice (new_source 1 [] (text_of ''var x = 42 ; ''))
     (tk_span (fst (lex sample_ident (new_source 1 [] (text_of ''var x = 42 ; ''))) ! 3)) = Some (text_of ''42'')"
proof -
  let ?items = "[(Kw Var, text_of ''var''), (Identifier, text_of ''x''), (Op Equal, text_of ''=''), (Integer, text_of ''42''),
    (Punct Semicolon, text_of '';'')]"
  have "printed sample_ident (Kw Var) (text_of ''var'')" "printed sample_ident (Op Equal) (text_of ''='')"
    "printed sample_ident (Punct Semicolon) (text_of '';'')"
    using printed.intros(1) [of sample_ident Var] printed.intros(4) [of sample_ident Equal] printed.intros(3) [of sample_ident Semicolon]
    by simp_all
  moreover have "printed sample_ident Identifier (text_of ''x'')"
    by (rule printed.intros(6)) (simp add: text_of_def is_identifier_start_def sample_ident_def is_letter_def keyword_kind_def keyword_table_def)
  moreover have "printed sample_ident Integer (text_of ''42'')"
    using printed.intros(7) [of "52" "[50]" sample_ident] by (simp add: text_of_def is_decimal_digit_def)
  ultimately have "\<forall>(k, t)\<in>set ?items. printed sample_ident k t" by simp
  from lex_print_roundtrip [OF sample_ident_ok this, of 1 "[]"]
  have lexed: "map tk_kind (fst (lex sample_ident (new_source 1 [] (text_of ''var x = 42 ; '')))) =
      [Kw Var, Identifier, Op Equal, Integer, Punct Semicolon, Eof]"
    "map (\<lambda>tok. source_slice (new_source 1 [] (text_of ''var x = 42 ; '')) (tk_span tok))
      (fst (lex sample_ident (new_source 1 [] (text_of ''var x = 42 ; '')))) = map (Some \<circ> snd) ?items @ [Some []]"
    by (simp_all add: text_of_def Let_def)
  have "length (fst (lex sample_ident (new_source 1 [] (text_of ''var x = 42 ; '')))) = 6"
    using arg_cong [OF lexed(1), of length] by simp
  then have "source_slice (new_source 1 [] (text_of ''var x = 42 ; ''))
      (tk_span (fst (lex sample_ident (new_source 1 [] (text_of ''var x = 42 ; ''))) ! 3)) = (map (Some \<circ> snd) ?items @ [Some []]) ! 3"
    unfolding lexed(2) [symmetric] by simp
  with lexed(1) show ?thesis by simp
qed

end
