(* ===== verification/Token_Tree.thy ===== *)
theory Token_Tree
  imports Lexer_Props
begin

text \<open>
  Token trees, \<^verbatim>\<open>galfus-frontend/src/token_tree\<close>: the tokens of a file grouped by their delimiters.  The builder's
  position is represented by the tokens that are left.
\<close>

section \<open>Trees\<close>

datatype TokenTreeItem =
    TokenItem Token
  | GroupItem DelimiterKind Token "TokenTreeItem list" "Token option"

primrec append_tokens :: "TokenTreeItem \<Rightarrow> Token list" where
  "append_tokens (TokenItem t) = [t]"
| "append_tokens (GroupItem d opening items closing) =
    opening # concat (map append_tokens items) @ (case closing of None \<Rightarrow> [] | Some t \<Rightarrow> [t])"

definition into_tokens :: "TokenTreeItem list \<Rightarrow> Token list" where
  "into_tokens items = concat (map append_tokens items)"

datatype TokenTreeDiagnosticCode = UnexpectedClosingDelimiter | UnclosedDelimiter

fun token_tree_code :: "TokenTreeDiagnosticCode \<Rightarrow> string \<times> string" where
  "token_tree_code UnexpectedClosingDelimiter = (''B0002'', ''unexpected closing delimiter'')"
| "token_tree_code UnclosedDelimiter = (''B0001'', ''unclosed delimiter'')"

section \<open>The builder\<close>

record TokenTreeBuilder =
  tb_tokens :: "Token list"
  tb_diagnostics :: DiagnosticBag

definition tb_report :: "TokenTreeDiagnosticCode \<Rightarrow> Span \<Rightarrow> TokenTreeBuilder \<Rightarrow> TokenTreeBuilder" where
  "tb_report code span b = b\<lparr>tb_diagnostics := tb_diagnostics b @ [diagnostic_error (token_tree_code code) span]\<rparr>"

definition tb_bump :: "TokenTreeBuilder \<Rightarrow> TokenTreeBuilder" where
  "tb_bump b = b\<lparr>tb_tokens := tl (tb_tokens b)\<rparr>"

definition consume_closing :: "DelimiterKind \<Rightarrow> TokenTreeBuilder \<Rightarrow> Token option \<times> TokenTreeBuilder" where
  "consume_closing delimiter b =
    (case tb_tokens b of
       [] \<Rightarrow> (None, b)
     | t # _ \<Rightarrow>
         if delimiter_kind (tk_kind t) \<noteq> Some delimiter \<or> \<not> is_closing_delimiter (tk_kind t) then (None, b)
         else (Some t, tb_bump b))"

text \<open>Both loops end because a group takes its opening delimiter from the tokens that are left.\<close>

function parse_items :: "DelimiterKind option \<Rightarrow> TokenTreeBuilder \<Rightarrow> TokenTreeItem list \<times> TokenTreeBuilder"
  and parse_group :: "Token \<Rightarrow> TokenTreeBuilder \<Rightarrow> TokenTreeItem \<times> TokenTreeBuilder" where
  "parse_items expected_closing b =
    (case tb_tokens b of
       [] \<Rightarrow> ([], b)
     | t # _ \<Rightarrow>
         if tk_kind t = Eof then ([], b)
         else if is_opening_delimiter (tk_kind t) then
           (case parse_group t (tb_bump b) of
              (grp, b1) \<Rightarrow> (case parse_items expected_closing b1 of (items, b2) \<Rightarrow> (grp # items, b2)))
         else if is_closing_delimiter (tk_kind t) then
           (if expected_closing \<noteq> None then ([], b)
            else
              (case parse_items expected_closing (tb_report UnexpectedClosingDelimiter (tk_span t) (tb_bump b)) of
                 (items, b2) \<Rightarrow> (TokenItem t # items, b2)))
         else
           (case parse_items expected_closing (tb_bump b) of (items, b2) \<Rightarrow> (TokenItem t # items, b2)))"
| "parse_group opening b =
    (let delimiter = the (delimiter_kind (tk_kind opening)) in
     case parse_items (Some delimiter) b of
       (items, b1) \<Rightarrow>
         (case consume_closing delimiter b1 of
            (closing, b2) \<Rightarrow>
              (GroupItem delimiter opening items closing,
               if closing = None then tb_report UnclosedDelimiter (tk_span opening) b2 else b2)))"
  by pat_completeness auto

termination
proof -
  let ?R = "measure (\<lambda>x. case x of Inl (e, b) \<Rightarrow> 2 * length (tb_tokens b) | Inr (t, b) \<Rightarrow> 2 * length (tb_tokens b) + 1)"
  have shrink: "parse_items_parse_group_dom (Inl (e, b)) \<Longrightarrow> length (tb_tokens (snd (parse_items e b))) \<le> length (tb_tokens b)"
    "parse_items_parse_group_dom (Inr (t, b)) \<Longrightarrow> length (tb_tokens (snd (parse_group t b))) \<le> length (tb_tokens b)" for e t b
  proof (induction rule: parse_items_parse_group.pinduct)
    case (1 e b)
    show ?case
    proof (cases "tb_tokens b")
      case Nil
      then show ?thesis using 1(1) by (simp add: parse_items.psimps)
    next
      case (Cons t ts)
      note IH = "1.IH" [OF Cons] and unfold = parse_items.psimps [OF 1(1)]
      have bump: "tb_tokens (tb_bump b) = ts" using Cons by (simp add: tb_bump_def)
      consider "tk_kind t = Eof" | "tk_kind t \<noteq> Eof" "is_opening_delimiter (tk_kind t)"
        | "tk_kind t \<noteq> Eof" "\<not> is_opening_delimiter (tk_kind t)" "is_closing_delimiter (tk_kind t)" "e \<noteq> None"
        | "tk_kind t \<noteq> Eof" "\<not> is_opening_delimiter (tk_kind t)" "is_closing_delimiter (tk_kind t)" "e = None"
        | "tk_kind t \<noteq> Eof" "\<not> is_opening_delimiter (tk_kind t)" "\<not> is_closing_delimiter (tk_kind t)" by blast
      then show ?thesis
      proof cases
        case 2
        obtain grp b1 where g: "parse_group t (tb_bump b) = (grp, b1)" by fastforce
        have "length (tb_tokens b1) \<le> length ts" using IH(1) [OF 2] g bump by simp
        moreover have "length (tb_tokens (snd (parse_items e b1))) \<le> length (tb_tokens b1)"
          using IH(2) [OF 2 g [symmetric]] .
        ultimately show ?thesis using 2 Cons g unfold by (simp add: case_prod_beta)
      next
        case 4
        then show ?thesis using IH(3) [OF 4(1-3)] bump Cons unfold by (simp add: case_prod_beta tb_report_def)
      next
        case 5
        then show ?thesis using IH(4) [OF 5] bump Cons unfold by (simp add: case_prod_beta)
      qed (simp_all add: unfold Cons)
    qed
  next
    case (2 t b)
    have "length (tb_tokens (snd (consume_closing d b'))) \<le> length (tb_tokens b')" for d b'
      by (simp add: consume_closing_def tb_bump_def split: list.split)
    then show ?case using "2.IH"
      by (auto simp: parse_group.psimps [OF 2(1)] Let_def case_prod_beta tb_report_def intro: order_trans)
  qed
  have "parse_items_parse_group_dom (Inr (t, b)) \<Longrightarrow> (x, y) = parse_group t b \<Longrightarrow> length (tb_tokens y) \<le> length (tb_tokens b)"
    for t b x y using shrink(2) by (metis snd_conv)
  then show ?thesis
    by (relation ?R) (fastforce simp: tb_bump_def tb_report_def)+
qed

declare parse_items.simps [simp del] parse_group.simps [simp del]

definition build_token_tree :: "Token list \<Rightarrow> TokenTreeItem list \<times> DiagnosticBag" where
  "build_token_tree tokens =
    (case parse_items None \<lparr>tb_tokens = tokens, tb_diagnostics = []\<rparr> of
       (items, b) \<Rightarrow>
         (items @ (case tb_tokens b of [] \<Rightarrow> [] | t # _ \<Rightarrow> if tk_kind t = Eof then [TokenItem t] else []), tb_diagnostics b))"

section \<open>The tree has the tokens of the file\<close>

lemma into_tokens_simps [simp]:
  "into_tokens [] = []" "into_tokens (item # items) = append_tokens item @ into_tokens items"
  "into_tokens (items @ items') = into_tokens items @ into_tokens items'"
  by (simp_all add: into_tokens_def)

lemma opening_has_kind: "is_opening_delimiter k \<Longrightarrow> \<exists>d. delimiter_kind k = Some d"
  by (auto simp: is_opening_delimiter_def)

text \<open>Where the loop of \<open>parse_items\<close> stops.\<close>

definition stops :: "DelimiterKind option \<Rightarrow> Token list \<Rightarrow> bool" where
  "stops e ts \<longleftrightarrow> ts = [] \<or> tk_kind (hd ts) = Eof \<or> (is_closing_delimiter (tk_kind (hd ts)) \<and> e \<noteq> None)"

text \<open>The branches of the loop.\<close>

lemma parse_items_step:
  "tb_tokens b = [] \<Longrightarrow> parse_items e b = ([], b)"
  "tb_tokens b = t # ts \<Longrightarrow> tk_kind t = Eof \<Longrightarrow> parse_items e b = ([], b)"
  "tb_tokens b = t # ts \<Longrightarrow> tk_kind t \<noteq> Eof \<Longrightarrow> is_opening_delimiter (tk_kind t) \<Longrightarrow> parse_group t (tb_bump b) = (grp, b1) \<Longrightarrow>
     parse_items e b = (grp # fst (parse_items e b1), snd (parse_items e b1))"
  "tb_tokens b = t # ts \<Longrightarrow> tk_kind t \<noteq> Eof \<Longrightarrow> \<not> is_opening_delimiter (tk_kind t) \<Longrightarrow> is_closing_delimiter (tk_kind t) \<Longrightarrow>
     e \<noteq> None \<Longrightarrow> parse_items e b = ([], b)"
  "tb_tokens b = t # ts \<Longrightarrow> tk_kind t \<noteq> Eof \<Longrightarrow> \<not> is_opening_delimiter (tk_kind t) \<Longrightarrow> is_closing_delimiter (tk_kind t) \<Longrightarrow>
     e = None \<Longrightarrow> parse_items e b =
       (let p = parse_items None (tb_report UnexpectedClosingDelimiter (tk_span t) (tb_bump b)) in (TokenItem t # fst p, snd p))"
  "tb_tokens b = t # ts \<Longrightarrow> tk_kind t \<noteq> Eof \<Longrightarrow> \<not> is_opening_delimiter (tk_kind t) \<Longrightarrow> \<not> is_closing_delimiter (tk_kind t) \<Longrightarrow>
     parse_items e b = (TokenItem t # fst (parse_items e (tb_bump b)), snd (parse_items e (tb_bump b)))"
  by (simp_all add: parse_items.simps [of _ b] Let_def case_prod_beta)

lemma parse_tokens:
  "tb_tokens b = into_tokens (fst (parse_items e b)) @ tb_tokens (snd (parse_items e b)) \<and> stops e (tb_tokens (snd (parse_items e b)))"
  "t # tb_tokens b = append_tokens (fst (parse_group t b)) @ tb_tokens (snd (parse_group t b))"
proof (induction e b and t b rule: parse_items_parse_group.induct)
  case (1 e b)
  show ?case
  proof (cases "tb_tokens b")
    case Nil
    then show ?thesis by (simp add: parse_items_step(1) stops_def)
  next
    case (Cons t ts)
    note IH = "1.IH" [OF Cons]
    have bump: "tb_tokens (tb_bump b) = ts" using Cons by (simp add: tb_bump_def)
    consider "tk_kind t = Eof" | "tk_kind t \<noteq> Eof" "is_opening_delimiter (tk_kind t)"
      | "tk_kind t \<noteq> Eof" "\<not> is_opening_delimiter (tk_kind t)" "is_closing_delimiter (tk_kind t)" "e \<noteq> None"
      | "tk_kind t \<noteq> Eof" "\<not> is_opening_delimiter (tk_kind t)" "is_closing_delimiter (tk_kind t)" "e = None"
      | "tk_kind t \<noteq> Eof" "\<not> is_opening_delimiter (tk_kind t)" "\<not> is_closing_delimiter (tk_kind t)" by blast
    then show ?thesis
    proof cases
      case 2
      obtain grp b1 where g: "parse_group t (tb_bump b) = (grp, b1)" by fastforce
      have "t # ts = append_tokens grp @ tb_tokens b1" using IH(1) [OF 2] g bump by simp
      then show ?thesis using IH(2) [OF 2 g [symmetric]] Cons unfolding parse_items_step(3) [OF Cons 2 g] by simp
    next
      case 4
      then show ?thesis using IH(3) [OF 4(1-3)] bump Cons
        unfolding parse_items_step(5) [OF Cons 4] by (simp add: Let_def tb_report_def)
    next
      case 5
      then show ?thesis using IH(4) [OF 5] bump Cons unfolding parse_items_step(6) [OF Cons 5] by simp
    qed (simp_all add: parse_items_step(2,4) [OF Cons] Cons stops_def)
  qed
next
  case (2 t b)
  let ?d = "the (delimiter_kind (tk_kind t))"
  obtain items b1 where i: "parse_items (Some ?d) b = (items, b1)" by fastforce
  have "tb_tokens b1 = (case fst (consume_closing ?d b1) of None \<Rightarrow> [] | Some c \<Rightarrow> [c]) @ tb_tokens (snd (consume_closing ?d b1))"
    by (auto simp: consume_closing_def tb_bump_def split: list.splits)
  then show ?case using "2.IH" [OF refl] i
    by (subst (1 2) parse_group.simps) (simp add: case_prod_beta Let_def tb_report_def into_tokens_def)
qed

text \<open>The tokens up to the first \<open>Eof\<close>, this one included.\<close>

definition upto_eof :: "Token list \<Rightarrow> Token list" where
  "upto_eof ts = takeWhile (\<lambda>t. tk_kind t \<noteq> Eof) ts @ take 1 (dropWhile (\<lambda>t. tk_kind t \<noteq> Eof) ts)"

lemma upto_eof_stop: "stops None ts \<Longrightarrow> upto_eof ts = (case ts of [] \<Rightarrow> [] | t # _ \<Rightarrow> if tk_kind t = Eof then [t] else [])"
  by (cases ts) (auto simp: upto_eof_def stops_def)

text \<open>Nothing that was parsed is \<open>Eof\<close>.\<close>

lemma parse_no_eof:
  "\<forall>t\<in>set (into_tokens (fst (parse_items e b))). tk_kind t \<noteq> Eof"
  "tk_kind t \<noteq> Eof \<Longrightarrow> \<forall>t\<in>set (append_tokens (fst (parse_group t b))). tk_kind t \<noteq> Eof"
proof (induction e b and t b rule: parse_items_parse_group.induct)
  case (1 e b)
  show ?case
  proof (cases "tb_tokens b")
    case Nil
    then show ?thesis by (simp add: parse_items_step(1))
  next
    case (Cons t ts)
    note IH = "1.IH" [OF Cons]
    consider "tk_kind t = Eof" | "tk_kind t \<noteq> Eof" "is_opening_delimiter (tk_kind t)"
      | "tk_kind t \<noteq> Eof" "\<not> is_opening_delimiter (tk_kind t)" "is_closing_delimiter (tk_kind t)" "e \<noteq> None"
      | "tk_kind t \<noteq> Eof" "\<not> is_opening_delimiter (tk_kind t)" "is_closing_delimiter (tk_kind t)" "e = None"
      | "tk_kind t \<noteq> Eof" "\<not> is_opening_delimiter (tk_kind t)" "\<not> is_closing_delimiter (tk_kind t)" by blast
    then show ?thesis
    proof cases
      case 2
      obtain grp b1 where g: "parse_group t (tb_bump b) = (grp, b1)" by fastforce
      then show ?thesis using IH(1) [OF 2 2(1)] IH(2) [OF 2 g [symmetric]] unfolding parse_items_step(3) [OF Cons 2 g] by auto
    next
      case 4
      then show ?thesis using IH(3) [OF 4(1-3)] unfolding parse_items_step(5) [OF Cons 4] by (simp add: Let_def)
    next
      case 5
      then show ?thesis using IH(4) [OF 5] unfolding parse_items_step(6) [OF Cons 5] by simp
    qed (simp_all add: parse_items_step(2,4) [OF Cons])
  qed
next
  case (2 t b)
  have closing: "fst (consume_closing d b') = Some c \<Longrightarrow> tk_kind c \<noteq> Eof" for d b' c
    by (auto simp: consume_closing_def is_closing_delimiter_def split: list.splits if_splits)
  show ?case using "2.IH" [OF refl] "2.prems" closing
    by (auto simp: parse_group.simps [of t b] Let_def case_prod_beta into_tokens_def split: option.splits)
qed

lemma build_upto_eof: "into_tokens (fst (build_token_tree ts)) = upto_eof ts"
proof -
  define b where "b = \<lparr>tb_tokens = ts, tb_diagnostics = [] :: DiagnosticBag\<rparr>"
  define items where "items = into_tokens (fst (parse_items None b))"
  define rest where "rest = tb_tokens (snd (parse_items None b))"
  have ts: "ts = items @ rest" "stops None rest" using parse_tokens(1) [of b None] by (simp_all add: b_def items_def rest_def)
  have "\<forall>t\<in>set items. tk_kind t \<noteq> Eof" using parse_no_eof(1) by (simp add: items_def)
  then have "upto_eof ts = items @ upto_eof rest" by (simp add: upto_eof_def ts(1))
  then show ?thesis
    using upto_eof_stop [OF ts(2)]
    by (simp add: build_token_tree_def case_prod_beta b_def [symmetric] items_def [symmetric] rest_def [symmetric] split: list.splits)
qed

lemma tiles_eof: "tiles u i off ts cs \<Longrightarrow> upto_eof ts = ts"
proof (induction u i off ts cs rule: tiles.induct)
  case (2 u i off t ts cs)
  then show ?case by (auto simp: upto_eof_def split: if_splits)
qed simp

text \<open>
  C26 (grouping tokens loses nothing).  The token tree of a lexed file, flattened again, is the sequence of tokens the lexer returned,
  whether or not its delimiters are balanced.
\<close>

theorem token_tree_roundtrip: "into_tokens (fst (build_token_tree (fst (lex u f)))) = fst (lex u f)"
  using build_upto_eof tiles_eof [OF lex_loop_tiles [OF cursor_new]]
  by (simp add: lex_def case_prod_beta)

section \<open>Diagnostics are reported exactly for unbalanced delimiters\<close>

inductive balanced :: "Token list \<Rightarrow> bool" where
  balanced_Nil: "balanced []"
| balanced_token: "\<not> is_opening_delimiter (tk_kind t) \<Longrightarrow> \<not> is_closing_delimiter (tk_kind t) \<Longrightarrow> tk_kind t \<noteq> Eof \<Longrightarrow> balanced ts \<Longrightarrow>
    balanced (t # ts)"
| balanced_group: "is_opening_delimiter (tk_kind opening) \<Longrightarrow> is_closing_delimiter (tk_kind closing) \<Longrightarrow>
    delimiter_kind (tk_kind closing) = delimiter_kind (tk_kind opening) \<Longrightarrow> balanced xs \<Longrightarrow> balanced ys \<Longrightarrow>
    balanced (opening # xs @ closing # ys)"

lemma delimiter_not_eof: "is_opening_delimiter k \<Longrightarrow> k \<noteq> Eof" "is_closing_delimiter k \<Longrightarrow> k \<noteq> Eof"
  by (auto simp: is_opening_delimiter_def is_closing_delimiter_def)

lemma balanced_parses:
  assumes "balanced ts" "tb_tokens b = ts @ suffix" "stops e suffix"
  shows "snd (parse_items e b) = b\<lparr>tb_tokens := suffix\<rparr>"
  using assms
proof (induction ts arbitrary: b e suffix rule: balanced.induct)
  case balanced_Nil
  then show ?case
    by (cases suffix) (auto simp: stops_def parse_items_step is_opening_delimiter_def is_closing_delimiter_def parse_items.simps [of _ b])
next
  case (balanced_token t ts)
  have b: "tb_tokens b = t # ts @ suffix" using balanced_token.prems by simp
  show ?case
    using balanced_token.IH [of "tb_bump b" suffix e] balanced_token.prems b
    unfolding parse_items_step(6) [OF b balanced_token.hyps(3,1,2)] by (simp add: tb_bump_def)
next
  case (balanced_group opn closing xs ys)
  have b: "tb_tokens b = opn # xs @ closing # ys @ suffix" using balanced_group.prems by simp
  obtain d where d: "delimiter_kind (tk_kind opn) = Some d" using opening_has_kind balanced_group.hyps(1) by blast
  let ?b1 = "b\<lparr>tb_tokens := closing # ys @ suffix\<rparr>"
  have inner: "snd (parse_items (Some d) (tb_bump b)) = ?b1"
    using balanced_group.IH(1) [of "tb_bump b" "closing # ys @ suffix" "Some d"] b balanced_group.hyps(2)
    by (simp add: tb_bump_def stops_def)
  have "consume_closing d ?b1 = (Some closing, b\<lparr>tb_tokens := ys @ suffix\<rparr>)"
    using balanced_group.hyps(2,3) d by (simp add: consume_closing_def tb_bump_def)
  then have g: "parse_group opn (tb_bump b) =
      (GroupItem d opn (fst (parse_items (Some d) (tb_bump b))) (Some closing), b\<lparr>tb_tokens := ys @ suffix\<rparr>)"
    using inner d by (simp add: parse_group.simps [of opn "tb_bump b"] Let_def case_prod_beta)
  show ?case
    using balanced_group.IH(2) [of "b\<lparr>tb_tokens := ys @ suffix\<rparr>" suffix e] balanced_group.prems(2)
    unfolding parse_items_step(3) [OF b delimiter_not_eof(1) [OF balanced_group.hyps(1)] balanced_group.hyps(1) g] by simp
qed

text \<open>Conversely: diagnostics are only added, and when none is added what was parsed is balanced.\<close>

lemma parse_balanced:
  "length (tb_diagnostics b) \<le> length (tb_diagnostics (snd (parse_items e b))) \<and>
   (length (tb_diagnostics (snd (parse_items e b))) = length (tb_diagnostics b) \<longrightarrow> balanced (into_tokens (fst (parse_items e b))))"
  "is_opening_delimiter (tk_kind t) \<Longrightarrow> length (tb_diagnostics b) \<le> length (tb_diagnostics (snd (parse_group t b))) \<and>
   (length (tb_diagnostics (snd (parse_group t b))) = length (tb_diagnostics b) \<longrightarrow>
     (\<exists>xs c. append_tokens (fst (parse_group t b)) = t # xs @ [c] \<and> balanced xs \<and> is_closing_delimiter (tk_kind c) \<and>
        delimiter_kind (tk_kind c) = delimiter_kind (tk_kind t)))"
proof (induction e b and t b rule: parse_items_parse_group.induct)
  case (1 e b)
  show ?case
  proof (cases "tb_tokens b")
    case Nil
    then show ?thesis by (simp add: parse_items_step(1) balanced_Nil)
  next
    case (Cons t ts)
    note IH = "1.IH" [OF Cons]
    have bump: "tb_diagnostics (tb_bump b) = tb_diagnostics b" by (simp add: tb_bump_def)
    consider "tk_kind t = Eof" | "tk_kind t \<noteq> Eof" "is_opening_delimiter (tk_kind t)"
      | "tk_kind t \<noteq> Eof" "\<not> is_opening_delimiter (tk_kind t)" "is_closing_delimiter (tk_kind t)" "e \<noteq> None"
      | "tk_kind t \<noteq> Eof" "\<not> is_opening_delimiter (tk_kind t)" "is_closing_delimiter (tk_kind t)" "e = None"
      | "tk_kind t \<noteq> Eof" "\<not> is_opening_delimiter (tk_kind t)" "\<not> is_closing_delimiter (tk_kind t)" by blast
    then show ?thesis
    proof cases
      case 2
      obtain grp b1 where g: "parse_group t (tb_bump b) = (grp, b1)" by fastforce
      have group: "length (tb_diagnostics b) \<le> length (tb_diagnostics b1)"
        "length (tb_diagnostics b1) = length (tb_diagnostics b) \<Longrightarrow>
          \<exists>xs c. append_tokens grp = t # xs @ [c] \<and> balanced xs \<and> is_closing_delimiter (tk_kind c) \<and> delimiter_kind (tk_kind c) = delimiter_kind (tk_kind t)"
        using IH(1) [OF 2 2(2)] g bump by auto
      note rest = IH(2) [OF 2 g [symmetric]]
      have "balanced (append_tokens grp @ into_tokens (fst (parse_items e b1)))"
        if "length (tb_diagnostics (snd (parse_items e b1))) = length (tb_diagnostics b)"
      proof -
        have same: "length (tb_diagnostics b1) = length (tb_diagnostics b)" "balanced (into_tokens (fst (parse_items e b1)))"
          using that group(1) rest by auto
        obtain xs c where "append_tokens grp = t # xs @ [c]" "balanced xs" "is_closing_delimiter (tk_kind c)"
          "delimiter_kind (tk_kind c) = delimiter_kind (tk_kind t)" using group(2) [OF same(1)] by blast
        then show ?thesis using balanced_group [OF 2(2) _ _ _ same(2)] by simp
      qed
      then show ?thesis using group(1) rest unfolding parse_items_step(3) [OF Cons 2 g] by simp
    next
      case 4
      then show ?thesis using IH(3) [OF 4(1-3)] unfolding parse_items_step(5) [OF Cons 4] by (simp add: Let_def tb_report_def bump)
    next
      case 5
      then show ?thesis using IH(4) [OF 5] bump unfolding parse_items_step(6) [OF Cons 5] by (auto intro: balanced_token)
    qed (simp_all add: parse_items_step(2,4) [OF Cons] balanced_Nil)
  qed
next
  case (2 t b)
  obtain d where d: "delimiter_kind (tk_kind t) = Some d" using opening_has_kind "2.prems" by blast
  obtain items b1 where i: "parse_items (Some d) b = (items, b1)" by fastforce
  note IH = "2.IH" [OF refl, unfolded d option.sel i fst_conv snd_conv]
  obtain c b2 where c: "consume_closing d b1 = (c, b2)" by fastforce
  then have b2: "tb_diagnostics b2 = tb_diagnostics b1" "\<forall>x. c = Some x \<longrightarrow> is_closing_delimiter (tk_kind x) \<and> delimiter_kind (tk_kind x) = Some d"
    by (auto simp: consume_closing_def tb_bump_def split: list.splits if_splits)
  have g: "parse_group t b = (GroupItem d t items c, if c = None then tb_report UnclosedDelimiter (tk_span t) b2 else b2)"
    by (simp add: parse_group.simps [of t b] d i c)
  show ?case using IH b2 d unfolding g by (cases c) (auto simp: tb_report_def into_tokens_def)
qed

lemma tiles_last:
  "tiles u i off ts cs \<Longrightarrow> ts \<noteq> [] \<and> tk_kind (last ts) = Eof \<and> (\<forall>t\<in>set (butlast ts). tk_kind t \<noteq> Eof)"
  by (induction u i off ts cs rule: tiles.induct) (auto split: if_splits)

text \<open>
  C27 (delimiters are reported exactly when they do not match).  For the tokens of every lexed file, building the tree reports nothing
  if and only if the delimiters before \<open>Eof\<close> are balanced and match in kind.
\<close>

theorem token_tree_errors:
  "snd (build_token_tree (fst (lex u f))) = [] \<longleftrightarrow> balanced (butlast (fst (lex u f)))"
proof -
  define ts where "ts = fst (lex u f)"
  define b where "b = \<lparr>tb_tokens = ts, tb_diagnostics = [] :: DiagnosticBag\<rparr>"
  have last: "ts \<noteq> []" "tk_kind (last ts) = Eof" "\<forall>t\<in>set (butlast ts). tk_kind t \<noteq> Eof"
    using tiles_last [OF lex_loop_tiles [OF cursor_new, of u f]] by (simp_all add: ts_def lex_def case_prod_beta)
  then have b: "tb_tokens b = butlast ts @ [last ts]" by (simp add: b_def)
  have stop: "stops None [last ts]" using last(2) by (simp add: stops_def)
  define items where "items = into_tokens (fst (parse_items None b))"
  define rest where "rest = tb_tokens (snd (parse_items None b))"
  have split: "ts = items @ rest" "stops None rest" "\<forall>t\<in>set items. tk_kind t \<noteq> Eof"
    using parse_tokens(1) [of b None] parse_no_eof(1) [of None b] by (simp_all add: b_def items_def rest_def)
  then have "rest \<noteq> []" using last(1,2) by (metis append_Nil2 last_in_set)
  then obtain t r where rest: "rest = t # r" "tk_kind t = Eof" using split(2) by (cases rest) (auto simp: stops_def)
  then have "r = []" using last(3) split(1) by (cases r rule: rev_cases) (auto simp: butlast_append)
  then have items: "items = butlast ts" using split(1) rest by (simp add: butlast_append)
  have diags: "snd (build_token_tree ts) = tb_diagnostics (snd (parse_items None b))"
    by (simp add: build_token_tree_def case_prod_beta b_def)
  have "balanced (butlast ts) \<Longrightarrow> tb_diagnostics (snd (parse_items None b)) = []"
    using balanced_parses [OF _ b stop] by (simp add: b_def)
  moreover have "tb_diagnostics (snd (parse_items None b)) = [] \<Longrightarrow> balanced (butlast ts)"
    using parse_balanced(1) [of b None] items by (simp add: items_def b_def)
  ultimately show ?thesis using diags by (auto simp: ts_def)
qed

end
