(* ===== verification/Opt_Control.thy ===== *)
theory Opt_Control
  imports Bytecode_Validation
begin

text \<open>
  The control-flow part of the bytecode optimizer, the first half of \<open>optimize_function\<close> in
  \<^verbatim>\<open>galfus-workspace/src/workspace/optimizer.rs\<close>: unreachable instructions, moves of a register to itself and jumps to the
  instruction that follows anyway are removed, and the remaining jumps go directly to where their chains lead.

  Offsets are 32-bit words; the sums of the code wrap.  An index outside a vector and a failed \<open>expect\<close> are \<open>None\<close>.
\<close>

section \<open>Bitmaps\<close>

definition unset :: "bool list \<Rightarrow> nat" where
  "unset bs = length (filter (\<lambda>b. \<not> b) bs)"

lemma unset_update: "i < length bs \<Longrightarrow> \<not> bs ! i \<Longrightarrow> unset bs = Suc (unset (bs[i := True]))"
proof -
  assume i: "i < length bs" "\<not> bs ! i"
  have "bs = take i bs @ bs ! i # drop (Suc i) bs" using i(1) by (rule id_take_nth_drop)
  then have "unset bs = unset (take i bs) + Suc (unset (drop (Suc i) bs))"
    using i(2) by (metis (mono_tags, lifting) add_Suc_right filter.simps(2) filter_append length_Cons length_append unset_def)
  moreover have "bs[i := True] = take i bs @ True # drop (Suc i) bs" using i(1) by (rule upd_conv_take_nth_drop)
  ultimately show ?thesis by (simp add: unset_def)
qed

section \<open>Jump targets\<close>

text \<open>\<open>index as i32 + 1 + offset\<close>\<close>

definition target_word :: "nat \<Rightarrow> u32 \<Rightarrow> u32" where
  "target_word index offset = of_nat index + 1 + offset"

definition opt_jump_target :: "nat \<Rightarrow> u32 \<Rightarrow> nat option" where
  "opt_jump_target index offset =
    (if sint (target_word index offset) < 0 then None else Some (nat (sint (target_word index offset))))"

text \<open>The same sum cast to \<open>usize\<close> without a test.\<close>

definition cast_target :: "nat \<Rightarrow> u32 \<Rightarrow> nat" where
  "cast_target index offset = unat (scast (target_word index offset) :: usize)"

fun jump_offset :: "Instruction \<Rightarrow> u32 option" where
  "jump_offset (Jump offset) = Some offset"
| "jump_offset (JumpTrue _ offset) = Some offset"
| "jump_offset (JumpFalse _ offset) = Some offset"
| "jump_offset (JumpNull _ offset) = Some offset"
| "jump_offset _ = None"

fun set_offset :: "u32 \<Rightarrow> Instruction \<Rightarrow> Instruction" where
  "set_offset offset (Jump _) = Jump offset"
| "set_offset offset (JumpTrue cond _) = JumpTrue cond offset"
| "set_offset offset (JumpFalse cond _) = JumpFalse cond offset"
| "set_offset offset (JumpNull val _) = JumpNull val offset"
| "set_offset offset instr = instr"

fun is_terminal :: "Instruction \<Rightarrow> bool" where
  "is_terminal (Control (Ret _)) = True"
| "is_terminal (Control RetNull) = True"
| "is_terminal (Control (PanicWith _)) = True"
| "is_terminal _ = False"

section \<open>Reachable instructions\<close>

text \<open>What the marking pushes for an instruction, in the order in which it is popped.\<close>

definition successors :: "Instruction list \<Rightarrow> nat \<Rightarrow> nat list option" where
  "successors code i =
    (let next = (if i + 1 < length code then [i + 1] else []) in
     case code ! i of
       Jump offset \<Rightarrow> map_option (\<lambda>t. [t]) (opt_jump_target i offset)
     | instr \<Rightarrow>
         if is_terminal instr then Some []
         else case jump_offset instr of
                None \<Rightarrow> Some next
              | Some offset \<Rightarrow> map_option (\<lambda>t. next @ [t]) (opt_jump_target i offset))"

function mark_reachable :: "Instruction list \<Rightarrow> nat list \<Rightarrow> bool list \<Rightarrow> bool list option" where
  "mark_reachable code [] reachable = Some reachable"
| "mark_reachable code (i # pending) reachable =
    (if i \<ge> length reachable then None
     else if reachable ! i then mark_reachable code pending reachable
     else
       case successors code i of
         None \<Rightarrow> None
       | Some next \<Rightarrow> mark_reachable code (next @ pending) (reachable[i := True]))"
  by pat_completeness auto
termination
proof (relation "measures [\<lambda>(code, pending, reachable). unset reachable, \<lambda>(code, pending, reachable). length pending]", goal_cases)
  case (3 code i pending reachable nexts)
  then have "unset (reachable[i := True]) < unset reachable"
    using unset_update [of i reachable] by simp
  then show ?case by simp
qed auto

section \<open>Removal\<close>

function next_retained_index :: "nat \<Rightarrow> bool list \<Rightarrow> nat" where
  "next_retained_index index remove =
    (if index < length remove \<and> remove ! index then next_retained_index (index + 1) remove else index)"
  by pat_completeness auto
termination by (relation "measure (\<lambda>(index, remove). length remove - index)") auto

declare next_retained_index.simps [simp del]

function resolve_from :: "Instruction list \<Rightarrow> bool list \<Rightarrow> nat set \<Rightarrow> nat \<Rightarrow> nat" where
  "resolve_from code remove visited target =
    (if target < length code \<and> target \<notin> visited then
       (let here = next_retained_index target remove in
        case list_get code here of
          Some (Jump offset) \<Rightarrow>
            (let next = cast_target here offset in
             if next = here then here else resolve_from code remove (insert target visited) next)
        | _ \<Rightarrow> here)
     else target)"
  by pat_completeness auto
termination
proof (relation "measure (\<lambda>(code, remove, visited, target). card ({..<length code} - visited))", goal_cases)
  case (2 code remove visited target)
  then have "{..<length code} - insert target visited \<subset> {..<length code} - visited" by auto
  then show ?case by (simp add: psubset_card_mono)
qed simp

declare resolve_from.simps [simp del]

definition resolve_jump_target :: "Instruction list \<Rightarrow> bool list \<Rightarrow> nat \<Rightarrow> nat" where
  "resolve_jump_target code remove target = resolve_from code remove {} target"

definition removed_at_once :: "Instruction \<Rightarrow> bool" where
  "removed_at_once instr = (case instr of Move dest src \<Rightarrow> dest = src | Jump offset \<Rightarrow> offset = 0 | _ \<Rightarrow> False)"

definition initial_remove :: "Instruction list \<Rightarrow> bool list \<Rightarrow> bool list" where
  "initial_remove code reachable = map (\<lambda>(r, instr). \<not> r \<or> removed_at_once instr) (zip reachable code)"

text \<open>One pass over the jumps; the flag says whether something was removed.\<close>

fun remove_pass :: "Instruction list \<Rightarrow> nat list \<Rightarrow> bool list \<Rightarrow> bool \<Rightarrow> (bool list \<times> bool) option" where
  "remove_pass code [] remove changed = Some (remove, changed)"
| "remove_pass code (i # is) remove changed =
    (case (remove ! i, code ! i) of
       (False, Jump offset) \<Rightarrow>
         (case opt_jump_target i offset of
            None \<Rightarrow> None
          | Some t \<Rightarrow>
              if resolve_jump_target code remove t = next_retained_index (i + 1) remove
              then remove_pass code is (remove[i := True]) True
              else remove_pass code is remove changed)
     | _ \<Rightarrow> remove_pass code is remove changed)"

lemma remove_pass_grows:
  assumes "remove_pass code is remove changed = Some (remove', changed')" "\<forall>i \<in> set is. i < length remove"
  shows "length remove' = length remove \<and> unset remove' \<le> unset remove \<and>
    (changed' \<and> \<not> changed \<longrightarrow> unset remove' < unset remove)"
  using assms
proof (induction "is" arbitrary: remove changed)
  case (Cons i "is")
  show ?case
  proof (cases "\<not> remove ! i \<and> (\<exists>offset t. code ! i = Jump offset \<and> opt_jump_target i offset = Some t \<and>
      resolve_jump_target code remove t = next_retained_index (i + 1) remove)")
    case True
    with Cons.prems have "remove_pass code is (remove[i := True]) True = Some (remove', changed')" by auto
    from Cons.IH [OF this] Cons.prems(2) unset_update [of i remove] True show ?thesis by auto
  next
    case False
    with Cons.prems have "remove_pass code is remove changed = Some (remove', changed')"
      by (auto split: bool.splits Instruction.splits option.splits if_splits)
    from Cons.IH [OF this] Cons.prems(2) show ?thesis by auto
  qed
qed auto

function remove_loop :: "Instruction list \<Rightarrow> bool list \<Rightarrow> bool list option" where
  "remove_loop code remove =
    (case remove_pass code [0..<length remove] remove False of
       None \<Rightarrow> None
     | Some (remove', changed) \<Rightarrow> if changed then remove_loop code remove' else Some remove')"
  by pat_completeness auto
termination
  by (relation "measure (\<lambda>(code, remove). unset remove)") (auto dest!: remove_pass_grows)

declare remove_loop.simps [simp del]

section \<open>Rewriting\<close>

definition jump_targets :: "Instruction list \<Rightarrow> bool list \<Rightarrow> nat \<Rightarrow> nat option" where
  "jump_targets code remove i =
    (case jump_offset (code ! i) of
       None \<Rightarrow> None
     | Some offset \<Rightarrow> map_option (resolve_jump_target code remove) (opt_jump_target i offset))"

text \<open>\<open>old_to_new\<close>: a retained index becomes the number of retained indices before it.\<close>

definition old_to_new :: "bool list \<Rightarrow> nat \<Rightarrow> nat option" where
  "old_to_new remove i =
    (if i < length remove \<and> \<not> remove ! i \<or> i = length remove then Some (unset (take i remove)) else None)"

fun rewrite_from :: "Instruction list \<Rightarrow> bool list \<Rightarrow> nat list \<Rightarrow> Instruction list option" where
  "rewrite_from code remove [] = Some []"
| "rewrite_from code remove (i # is) =
    (case old_to_new remove i of
       None \<Rightarrow> rewrite_from code remove is
     | Some new_index \<Rightarrow>
         (case jump_targets code remove i of
            None \<Rightarrow> map_option (\<lambda>rest. code ! i # rest) (rewrite_from code remove is)
          | Some target \<Rightarrow>
              (case old_to_new remove target of
                 None \<Rightarrow> None
               | Some t \<Rightarrow>
                   map_option (\<lambda>rest. set_offset (of_nat t - of_nat new_index - 1) (code ! i) # rest) (rewrite_from code remove is))))"

text \<open>A target outside the code, where the source panics on the index, gives \<open>None\<close>; code with well formed targets has none.\<close>

definition offset_remap :: "Instruction list \<Rightarrow> bool list \<Rightarrow> bool list \<Rightarrow> nat \<Rightarrow> nat option" where
  "offset_remap code reachable remove i =
    (if \<not> reachable ! i then None
     else
       case code ! i of
         Jump _ \<Rightarrow>
           if remove ! i then Option.bind (jump_targets code remove i) (old_to_new remove)
           else old_to_new remove (next_retained_index i remove)
       | _ \<Rightarrow> old_to_new remove (next_retained_index i remove))"

text \<open>
  The whole pass.  Every jump, retained or not, has its target computed; a negative one fails.
\<close>

definition optimize_control :: "Instruction list \<Rightarrow> (Instruction list \<times> nat option list) option" where
  "optimize_control code =
    (case mark_reachable code (if code = [] then [] else [0]) (replicate (length code) False) of
       None \<Rightarrow> None
     | Some reachable \<Rightarrow>
         (case remove_loop code (initial_remove code reachable) of
            None \<Rightarrow> None
          | Some remove \<Rightarrow>
              if \<not> list_all (\<lambda>i. jump_offset (code ! i) = None \<or> jump_targets code remove i \<noteq> None) [0..<length code] then None
              else
                (case rewrite_from code remove [0..<length code] of
                   None \<Rightarrow> None
                 | Some rewritten \<Rightarrow> Some (rewritten, map (offset_remap code reachable remove) [0..<length code]))))"

end
