(* ===== verification/Opt_Control_Props.thy ===== *)
theory Opt_Control_Props
  imports Opt_Control
begin

text \<open>
  The control-flow part of the optimizer preserves what a function does.  The meaning of instructions is a parameter: \<open>eff\<close>
  gives the effect of an instruction that falls through (\<open>None\<close> when it ends the run) and \<open>br\<close> the decision of a conditional
  jump, whose offset it does not see.
\<close>

section \<open>Runs of a function\<close>

definition erase_offset :: "Instruction \<Rightarrow> Instruction" where
  "erase_offset instr = set_offset 0 instr"

fun is_branch :: "Instruction \<Rightarrow> bool" where
  "is_branch (JumpTrue _ _) = True"
| "is_branch (JumpFalse _ _) = True"
| "is_branch (JumpNull _ _) = True"
| "is_branch _ = False"

definition falls_through :: "Instruction \<Rightarrow> bool" where
  "falls_through instr = (jump_offset instr = None \<and> \<not> is_terminal instr)"

text \<open>From index \<open>i\<close> and state \<open>s\<close> the run ends at the given instruction, with its offset erased, in the given state.\<close>

inductive ends ::
  "(Instruction \<Rightarrow> 's \<Rightarrow> 's option) \<Rightarrow> (Instruction \<Rightarrow> 's \<Rightarrow> bool option) \<Rightarrow> Instruction list \<Rightarrow>
   nat \<Rightarrow> 's \<Rightarrow> Instruction \<Rightarrow> 's \<Rightarrow> bool"
  for eff :: "Instruction \<Rightarrow> 's \<Rightarrow> 's option" and br :: "Instruction \<Rightarrow> 's \<Rightarrow> bool option" and code :: "Instruction list"
where
  terminal: "i < length code \<Longrightarrow> is_terminal (code ! i) \<Longrightarrow> ends eff br code i s (code ! i) s"
| stop: "i < length code \<Longrightarrow> falls_through (code ! i) \<Longrightarrow> eff (code ! i) s = None \<Longrightarrow> ends eff br code i s (code ! i) s"
| step: "i < length code \<Longrightarrow> falls_through (code ! i) \<Longrightarrow> eff (code ! i) s = Some s1 \<Longrightarrow>
    ends eff br code (i + 1) s1 instr s' \<Longrightarrow> ends eff br code i s instr s'"
| jump: "i < length code \<Longrightarrow> code ! i = Jump offset \<Longrightarrow>
    ends eff br code (cast_target i offset) s instr s' \<Longrightarrow> ends eff br code i s instr s'"
| undecided: "i < length code \<Longrightarrow> is_branch (code ! i) \<Longrightarrow> br (erase_offset (code ! i)) s = None \<Longrightarrow>
    ends eff br code i s (erase_offset (code ! i)) s"
| taken: "i < length code \<Longrightarrow> is_branch (code ! i) \<Longrightarrow> br (erase_offset (code ! i)) s = Some True \<Longrightarrow>
    jump_offset (code ! i) = Some offset \<Longrightarrow> ends eff br code (cast_target i offset) s instr s' \<Longrightarrow>
    ends eff br code i s instr s'"
| not_taken: "i < length code \<Longrightarrow> is_branch (code ! i) \<Longrightarrow> br (erase_offset (code ! i)) s = Some False \<Longrightarrow>
    ends eff br code (i + 1) s instr s' \<Longrightarrow> ends eff br code i s instr s'"

inductive_cases ends_cases: "ends eff br code i s instr s'"

section \<open>Silent instructions\<close>

text \<open>Jumps and self-moves do nothing but lead to another instruction.\<close>

definition silent :: "Instruction list \<Rightarrow> nat \<Rightarrow> nat option" where
  "silent code i =
    (case code ! i of Jump offset \<Rightarrow> Some (cast_target i offset) | Move dest src \<Rightarrow> if dest = src then Some (i + 1) else None | _ \<Rightarrow> None)"

fun settle :: "Instruction list \<Rightarrow> nat \<Rightarrow> nat \<Rightarrow> nat option" where
  "settle code 0 i = None"
| "settle code (Suc n) i =
    (if i \<ge> length code then Some i else case silent code i of None \<Rightarrow> Some i | Some j \<Rightarrow> settle code n j)"

definition well_targeted :: "Instruction list \<Rightarrow> bool" where
  "well_targeted code =
    list_all (\<lambda>i. case jump_offset (code ! i) of
                   None \<Rightarrow> True
                 | Some offset \<Rightarrow> (case opt_jump_target i offset of None \<Rightarrow> False | Some t \<Rightarrow> t < length code)) [0..<length code]"

definition settles :: "Instruction list \<Rightarrow> bool" where
  "settles code = list_all (\<lambda>i. settle code (length code + 1) i \<noteq> None) [0..<length code]"

text \<open>\<open>leads code i n d\<close>: after \<open>n\<close> silent instructions the run at \<open>i\<close> is at \<open>d\<close>, which is not silent.\<close>

inductive leads :: "Instruction list \<Rightarrow> nat \<Rightarrow> nat \<Rightarrow> nat \<Rightarrow> bool" for code :: "Instruction list" where
  here: "i \<ge> length code \<or> silent code i = None \<Longrightarrow> leads code i 0 i"
| silently: "i < length code \<Longrightarrow> silent code i = Some j \<Longrightarrow> leads code j n d \<Longrightarrow> leads code i (Suc n) d"

lemma leads_stays: "leads code i n d \<Longrightarrow> i \<ge> length code \<or> silent code i = None \<Longrightarrow> n = 0 \<and> d = i"
  by (auto elim: leads.cases)

lemma leads_on: "leads code i n d \<Longrightarrow> i < length code \<Longrightarrow> silent code i = Some j \<Longrightarrow> \<exists>m. n = Suc m \<and> leads code j m d"
  by (auto elim: leads.cases)

lemma leads_functional: "leads code i n d \<Longrightarrow> leads code i n' d' \<Longrightarrow> n' = n \<and> d' = d"
proof (induction arbitrary: n' d' rule: leads.induct)
  case (here i)
  then show ?case using leads_stays by blast
next
  case (silently i j n d)
  from leads_on [OF silently.prems silently.hyps(1,2)] obtain m where "n' = Suc m" "leads code j m d'" by blast
  with silently.IH [of m d'] show ?case by simp
qed

lemma settle_leads: "settle code n i = Some d \<Longrightarrow> \<exists>m. leads code i m d"
proof (induction n arbitrary: i)
  case (Suc n)
  show ?case
  proof (cases "i \<ge> length code \<or> silent code i = None")
    case True
    with Suc.prems have "d = i" by (auto split: if_splits)
    with here [OF True] show ?thesis by blast
  next
    case False
    then obtain j where "i < length code" "silent code i = Some j" by auto
    with Suc.prems Suc.IH [of j] silently show ?thesis by fastforce
  qed
qed simp

lemma leads_final: "leads code i n d \<Longrightarrow> d \<ge> length code \<or> silent code d = None"
  by (induction rule: leads.induct) auto

section \<open>Targets\<close>

lemma opt_jump_target_cast: "opt_jump_target i offset = Some t \<Longrightarrow> cast_target i offset = t"
proof -
  assume t: "opt_jump_target i offset = Some t"
  let ?w = "target_word i offset"
  from t have nonneg: "0 \<le> sint ?w" and t': "t = nat (sint ?w)" by (auto simp: opt_jump_target_def split: if_splits)
  have "sint ?w < 2 ^ 31" using sint_lt [of ?w] by simp
  then have take: "take_bit 64 (sint ?w) = sint ?w" using nonneg by (simp add: take_bit_int_eq_self)
  have "uint (scast ?w :: usize) = take_bit 64 (sint ?w)" by (simp only: scast_eq unsigned_of_int) simp
  with take have "uint (scast ?w :: usize) = sint ?w" by (rule trans [rotated])
  with t' show ?thesis by (simp add: cast_target_def unat_eq_nat_uint)
qed

lemma sint_of_nat_small: "n < 2 ^ 31 \<Longrightarrow> sint (of_nat n :: u32) = int n"
  by (simp add: signed_of_nat signed_take_bit_int_eq_self)

lemma new_target:
  assumes "t < 2 ^ 31"
  shows "opt_jump_target i (of_nat t - of_nat i - 1) = Some t" "cast_target i (of_nat t - of_nat i - 1) = t"
proof -
  show "opt_jump_target i (of_nat t - of_nat i - 1) = Some t"
    using sint_of_nat_small [OF assms] by (simp add: opt_jump_target_def target_word_def)
  then show "cast_target i (of_nat t - of_nat i - 1) = t" by (rule opt_jump_target_cast)
qed

lemma well_targetedD:
  assumes "well_targeted code" "i < length code" "jump_offset (code ! i) = Some offset"
  shows "opt_jump_target i offset = Some (cast_target i offset)" "cast_target i offset < length code"
proof -
  from assms obtain t where "opt_jump_target i offset = Some t" "t < length code"
    by (fastforce simp: well_targeted_def list_all_iff split: option.splits)
  with opt_jump_target_cast show "opt_jump_target i offset = Some (cast_target i offset)" "cast_target i offset < length code"
    by auto
qed

lemma next_retained_bounds:
  "i \<le> next_retained_index i R \<and> (i \<le> length R \<longrightarrow> next_retained_index i R \<le> length R) \<and>
   (next_retained_index i R < length R \<longrightarrow> \<not> R ! next_retained_index i R)"
proof (induction i R rule: next_retained_index.induct)
  case (1 i R)
  show ?case
  proof (cases "i < length R \<and> R ! i")
    case True
    with 1 show ?thesis by (simp add: next_retained_index.simps [of i])
  next
    case False
    then have "next_retained_index i R = i" by (subst next_retained_index.simps) auto
    with False show ?thesis by auto
  qed
qed

lemma next_retained_skip: "i < length R \<Longrightarrow> R ! i \<Longrightarrow> next_retained_index i R = next_retained_index (i + 1) R"
  by (simp add: next_retained_index.simps [of i])

lemma next_retained_stay: "i \<ge> length R \<or> \<not> R ! i \<Longrightarrow> next_retained_index i R = i"
  by (subst next_retained_index.simps) auto

lemma next_retained_update:
  "next_retained_index i R \<noteq> k \<Longrightarrow> next_retained_index i (R[k := True]) = next_retained_index i R"
proof (induction i R rule: next_retained_index.induct)
  case (1 i R)
  show ?case
  proof (cases "i < length R \<and> R ! i")
    case True
    then have "next_retained_index i R = next_retained_index (i + 1) R" by (simp add: next_retained_skip)
    moreover have "next_retained_index i (R[k := True]) = next_retained_index (i + 1) (R[k := True])"
      using True by (intro next_retained_skip) (cases "i = k"; simp)+
    ultimately show ?thesis using 1 True by simp
  next
    case False
    then have "next_retained_index i R = i" by (intro next_retained_stay) auto
    with "1.prems" have "i \<noteq> k" by simp
    with False have "next_retained_index i (R[k := True]) = i" by (intro next_retained_stay) auto
    with \<open>next_retained_index i R = i\<close> show ?thesis by simp
  qed
qed

section \<open>Marking\<close>

definition closed :: "Instruction list \<Rightarrow> bool list \<Rightarrow> bool" where
  "closed code reach \<longleftrightarrow> length reach = length code \<and>
    (\<forall>i < length code. reach ! i \<longrightarrow> (\<exists>next. successors code i = Some next \<and> (\<forall>j \<in> set next. j < length code \<and> reach ! j)))"

lemma successors_ok:
  assumes "well_targeted code" "i < length code"
  obtains nexts where "successors code i = Some nexts" "\<forall>j \<in> set nexts. j < length code"
proof (cases "jump_offset (code ! i)")
  case None
  with assms(2) that show ?thesis
    by (cases "is_terminal (code ! i)"; cases "code ! i") (auto simp: successors_def Let_def)
next
  case (Some offset)
  note t = well_targetedD [OF assms Some]
  from Some t assms(2) that show ?thesis
    by (cases "code ! i") (auto simp: successors_def Let_def)
qed

lemma mark_reachable_ok:
  assumes "well_targeted code" "length reach = length code" "\<forall>i \<in> set pending. i < length code"
  shows "\<exists>reach'. mark_reachable code pending reach = Some reach' \<and> length reach' = length code \<and>
    (\<forall>i < length code. reach ! i \<longrightarrow> reach' ! i) \<and> (\<forall>i \<in> set pending. reach' ! i) \<and>
    (\<forall>i < length code. reach' ! i \<and> \<not> reach ! i \<longrightarrow>
       (\<exists>next. successors code i = Some next \<and> (\<forall>j \<in> set next. j < length code \<and> reach' ! j)))"
  using assms
proof (induction code pending reach rule: mark_reachable.induct)
  case (2 code i pending reach)
  from "2.prems" have i: "i < length code" by simp
  show ?case
  proof (cases "reach ! i")
    case True
    then have "mark_reachable code (i # pending) reach = mark_reachable code pending reach"
      using i "2.prems"(2) by simp
    with "2.IH"(1) True i "2.prems" show ?thesis by auto
  next
    case False
    from successors_ok [OF "2.prems"(1) i] obtain nexts where n: "successors code i = Some nexts" "\<forall>j \<in> set nexts. j < length code" .
    have eq: "mark_reachable code (i # pending) reach = mark_reachable code (nexts @ pending) (reach[i := True])"
      using False i n "2.prems"(2) by simp
    have "\<exists>reach'. mark_reachable code (nexts @ pending) (reach[i := True]) = Some reach' \<and> length reach' = length code \<and>
        (\<forall>k < length code. reach[i := True] ! k \<longrightarrow> reach' ! k) \<and> (\<forall>k \<in> set (nexts @ pending). reach' ! k) \<and>
        (\<forall>k < length code. reach' ! k \<and> \<not> reach[i := True] ! k \<longrightarrow>
           (\<exists>next. successors code k = Some next \<and> (\<forall>j \<in> set next. j < length code \<and> reach' ! j)))"
      using "2.IH"(2) [OF _ False n(1)] i "2.prems" n(2) by auto
    then obtain reach' where r: "mark_reachable code (nexts @ pending) (reach[i := True]) = Some reach'" "length reach' = length code"
        "\<forall>k < length code. reach[i := True] ! k \<longrightarrow> reach' ! k" "\<forall>k \<in> set (nexts @ pending). reach' ! k"
        "\<forall>k < length code. reach' ! k \<and> \<not> reach[i := True] ! k \<longrightarrow>
           (\<exists>next. successors code k = Some next \<and> (\<forall>j \<in> set next. j < length code \<and> reach' ! j))"
      by blast
    have "reach' ! i" using r(3) i "2.prems"(2) by simp
    moreover have "\<forall>k < length code. reach ! k \<longrightarrow> reach' ! k" using r(3) by (metis nth_list_update_eq nth_list_update_neq i "2.prems"(2))
    moreover have "\<exists>next. successors code k = Some next \<and> (\<forall>j \<in> set next. j < length code \<and> reach' ! j)"
      if "k < length code" "reach' ! k" "\<not> reach ! k" for k
      using that r(4,5) n by (cases "k = i") auto
    ultimately show ?thesis using eq r by auto
  qed
qed auto

lemma marked_closed:
  assumes "well_targeted code" "code \<noteq> []"
  obtains reach where "mark_reachable code [0] (replicate (length code) False) = Some reach" "closed code reach" "reach ! 0"
proof -
  from mark_reachable_ok [OF assms(1), of "replicate (length code) False" "[0]"] assms(2)
  show ?thesis using that by (auto simp: closed_def)
qed

lemma closed_jump:
  assumes "closed code reach" "well_targeted code" "i < length code" "reach ! i" "jump_offset (code ! i) = Some offset"
  shows "cast_target i offset < length code" "reach ! cast_target i offset"
proof -
  note t = well_targetedD [OF assms(2,3,5)]
  show "cast_target i offset < length code" by (rule t)
  from assms(1,3,4) obtain nexts where n: "successors code i = Some nexts" "\<forall>j \<in> set nexts. reach ! j"
    unfolding closed_def by blast
  from n(1) t assms(5) have "cast_target i offset \<in> set nexts"
    by (cases "code ! i") (auto simp: successors_def Let_def)
  with n(2) show "reach ! cast_target i offset" by blast
qed

lemma closed_next:
  assumes "closed code reach" "well_targeted code" "i + 1 < length code" "reach ! i" "falls_through (code ! i) \<or> is_branch (code ! i)"
  shows "reach ! (i + 1)"
proof -
  from assms(3) have i: "i < length code" by simp
  with assms(1,4) obtain nexts where n: "successors code i = Some nexts" "\<forall>j \<in> set nexts. reach ! j"
    unfolding closed_def by blast
  have "i + 1 \<in> set nexts"
  proof (cases "is_branch (code ! i)")
    case True
    then obtain offset where o: "jump_offset (code ! i) = Some offset" by (cases "code ! i") auto
    with well_targetedD [OF assms(2) _ o] True n(1) assms(3) show ?thesis
      by (cases "code ! i") (auto simp: successors_def Let_def)
  next
    case False
    with assms(5) have "jump_offset (code ! i) = None" "\<not> is_terminal (code ! i)" by (auto simp: falls_through_def)
    with n(1) assms(3) show ?thesis by (cases "code ! i") (auto simp: successors_def Let_def)
  qed
  with n(2) show ?thesis by blast
qed

text \<open>Indexes that are marked or behind the end stay so along silent instructions.\<close>

definition marked :: "Instruction list \<Rightarrow> bool list \<Rightarrow> nat \<Rightarrow> bool" where
  "marked code reach i = (if i < length code then reach ! i else i = length code)"

lemma marked_next:
  "closed code reach \<Longrightarrow> well_targeted code \<Longrightarrow> i < length code \<Longrightarrow> reach ! i \<Longrightarrow>
   falls_through (code ! i) \<or> is_branch (code ! i) \<Longrightarrow> marked code reach (i + 1)"
  using closed_next [of code reach i] by (auto simp: marked_def)

lemma marked_silent:
  assumes "closed code reach" "well_targeted code" "i < length code" "reach ! i" "silent code i = Some j"
  shows "marked code reach j"
proof (cases "code ! i")
  case (Jump offset)
  with assms closed_jump [OF assms(1-4)] show ?thesis by (simp add: silent_def marked_def)
next
  case (Move dest src)
  with assms marked_next [OF assms(1-4)] show ?thesis by (simp add: silent_def falls_through_def split: if_splits)
qed (use assms(5) in \<open>simp_all add: silent_def\<close>)

section \<open>Removal\<close>

text \<open>
  What holds of the removal bitmap at all times: a removed instruction that is reachable is silent and either leads to the next
  one anyway, or the next retained instruction is the one it leads to.
\<close>

definition removal_ok :: "Instruction list \<Rightarrow> bool list \<Rightarrow> bool list \<Rightarrow> bool" where
  "removal_ok code reach R \<longleftrightarrow> length R = length code \<and>
    (\<forall>i < length code. \<not> reach ! i \<or> removed_at_once (code ! i) \<longrightarrow> R ! i) \<and>
    (\<forall>i < length code. reach ! i \<and> R ! i \<longrightarrow>
       silent code i \<noteq> None \<and>
       (\<forall>n d. leads code i n d \<longrightarrow> silent code i = Some (i + 1) \<or> next_retained_index (i + 1) R = d))"

lemma removal_okD:
  assumes "removal_ok code reach R" "i < length code" "reach ! i" "R ! i"
  shows "silent code i \<noteq> None" "leads code i n d \<Longrightarrow> silent code i = Some (i + 1) \<or> next_retained_index (i + 1) R = d"
  using assms unfolding removal_ok_def by blast+

lemma retained_silent:
  assumes "removal_ok code reach R" "i < length code" "\<not> R ! i" "silent code i = Some j"
  obtains offset where "code ! i = Jump offset" "j = cast_target i offset"
proof -
  from assms(1-3) have "\<not> removed_at_once (code ! i)" unfolding removal_ok_def by blast
  with assms(4) that show ?thesis
    by (cases "code ! i") (auto simp: silent_def removed_at_once_def split: if_splits)
qed

text \<open>The next retained instruction is the final one, or a jump that is no farther from it.\<close>

lemma next_retained_leads:
  assumes "closed code reach" "well_targeted code" "removal_ok code reach R" "leads code i n d" "marked code reach i"
  shows "next_retained_index i R = d \<or>
    (\<exists>offset m. next_retained_index i R < length code \<and> reach ! next_retained_index i R \<and> \<not> R ! next_retained_index i R \<and>
       code ! next_retained_index i R = Jump offset \<and> m < n \<and>
       leads code (cast_target (next_retained_index i R) offset) m d)"
  using assms(4,5)
proof (induction rule: leads.induct)
  case (here i)
  have "i \<ge> length R \<or> \<not> R ! i"
    using here assms(3) removal_okD(1) [OF assms(3), of i] by (auto simp: removal_ok_def marked_def split: if_splits)
  then show ?case by (simp add: next_retained_stay)
next
  case (silently i j n d)
  from silently have reach: "reach ! i" by (simp add: marked_def)
  have mj: "marked code reach j" by (rule marked_silent [OF assms(1,2) silently.hyps(1) reach silently.hyps(2)])
  have len: "i < length R" using silently.hyps(1) assms(3) by (simp add: removal_ok_def)
  show ?case
  proof (cases "R ! i")
    case True
    then have skip: "next_retained_index i R = next_retained_index (i + 1) R" using len by (simp add: next_retained_skip)
    from removal_okD(2) [OF assms(3) silently.hyps(1) reach True leads.silently [OF silently.hyps]]
    show ?thesis
    proof
      assume "silent code i = Some (i + 1)"
      with silently.hyps(2) silently.IH [OF mj] skip show ?thesis by (auto intro: less_SucI)
    next
      assume "next_retained_index (i + 1) R = d"
      with skip show ?thesis by simp
    qed
  next
    case False
    then have "next_retained_index i R = i" by (simp add: next_retained_stay)
    moreover from retained_silent [OF assms(3) silently.hyps(1) False silently.hyps(2)]
    obtain offset where "code ! i = Jump offset" "j = cast_target i offset" .
    ultimately show ?thesis using silently.hyps reach False by auto
  qed
qed

lemma resolve_leads:
  assumes "closed code reach" "well_targeted code" "removal_ok code reach R"
  shows "leads code i n d \<Longrightarrow> marked code reach i \<Longrightarrow> (\<forall>v \<in> V. \<exists>m. leads code v m d \<and> n < m) \<Longrightarrow>
    resolve_from code R V i = d"
proof (induction n arbitrary: i V rule: less_induct)
  case (less n)
  show ?case
  proof (cases "i < length code")
    case False
    with less.prems(1) leads_stays [of code i n d] show ?thesis by (simp add: resolve_from.simps)
  next
    case True
    have fresh: "i \<notin> V" using less.prems(1,3) leads_functional by blast
    let ?m = "next_retained_index i R"
    from next_retained_leads [OF assms less.prems(1,2)] consider
        (final) "?m = d"
      | (jump) offset m where "?m < length code" "reach ! ?m" "\<not> R ! ?m" "code ! ?m = Jump offset" "m < n"
          "leads code (cast_target ?m offset) m d"
      by blast
    then show ?thesis
    proof cases
      case final
      from leads_final [OF less.prems(1)] have "list_get code d \<noteq> Some (Jump offset)" for offset
        by (auto simp: silent_def)
      with final True fresh show ?thesis
        by (simp add: resolve_from.simps [of _ _ V] Let_def split: option.splits Instruction.splits) blast
    next
      case jump
      have ne: "cast_target ?m offset \<noteq> ?m"
      proof
        assume self: "cast_target ?m offset = ?m"
        have stuck: "silent code ?m = Some ?m" using jump(4) self by (simp add: silent_def)
        have l: "leads code ?m m d" using jump(6) self by simp
        from leads_on [OF l jump(1) stuck] obtain m' where "m = Suc m'" "leads code ?m m' d" by blast
        with leads_functional [OF l] show False by fastforce
      qed
      have "marked code reach (cast_target ?m offset)"
        using marked_silent [OF assms(1,2) jump(1,2)] jump(4) by (simp add: silent_def)
      moreover have "\<forall>v \<in> insert i V. \<exists>k. leads code v k d \<and> m < k"
        using less.prems(1,3) jump(5) by (auto intro: less_trans)
      ultimately have "resolve_from code R (insert i V) (cast_target ?m offset) = d"
        using less.IH [OF jump(5,6)] by blast
      with True fresh jump ne show ?thesis by (simp add: resolve_from.simps [of _ _ V] list_get_def Let_def)
    qed
  qed
qed

lemma resolve_jump_target_leads:
  "closed code reach \<Longrightarrow> well_targeted code \<Longrightarrow> removal_ok code reach R \<Longrightarrow> leads code i n d \<Longrightarrow> marked code reach i \<Longrightarrow>
   resolve_jump_target code R i = d"
  unfolding resolve_jump_target_def by (rule resolve_leads) auto

lemma all_lead: "settles code \<Longrightarrow> i \<le> length code \<Longrightarrow> \<exists>n d. leads code i n d"
proof (cases "i < length code")
  case True
  assume "settles code"
  with True obtain d where "settle code (length code + 1) i = Some d"
    unfolding settles_def list_all_iff by (metis atLeast_upt lessThan_iff option.exhaust)
  then show ?thesis using settle_leads by blast
qed (auto intro: here)

lemma silent_not_final: "i < length code \<Longrightarrow> silent code i = Some j \<Longrightarrow> \<not> leads code k n i"
  using leads_final by fastforce

lemma removal_ok_update:
  assumes "closed code reach" "well_targeted code" "settles code" "removal_ok code reach R" "i < length code" "\<not> R ! i"
    and jump: "code ! i = Jump offset" and eq: "resolve_jump_target code R (cast_target i offset) = next_retained_index (i + 1) R"
  shows "removal_ok code reach (R[i := True])"
proof -
  have len: "length R = length code" using assms(4) by (simp add: removal_ok_def)
  have reach: "reach ! i" using assms(4-6) unfolding removal_ok_def by blast
  have silent: "silent code i = Some (cast_target i offset)" using jump by (simp add: silent_def)
  have new: "next_retained_index (i + 1) R = d" if "leads code i n d" for n d
  proof -
    from leads_on [OF that assms(5) silent] obtain m where "leads code (cast_target i offset) m d" by blast
    moreover have "marked code reach (cast_target i offset)" by (rule marked_silent [OF assms(1,2,5) reach silent])
    ultimately show ?thesis using resolve_jump_target_leads [OF assms(1,2,4)] eq by simp
  qed
  have same: "next_retained_index (i + 1) (R[i := True]) = next_retained_index (i + 1) R"
    using next_retained_bounds [of "i + 1" R] by (intro next_retained_update) simp
  have "silent code k \<noteq> None \<and> (silent code k = Some (k + 1) \<or> next_retained_index (k + 1) (R[i := True]) = d)"
    if k: "k < length code" "reach ! k" "R[i := True] ! k" and l: "leads code k n d" for k n d
  proof (cases "k = i")
    case True
    with silent new l same show ?thesis by simp
  next
    case False
    with k have "R ! k" by simp
    note ok = removal_okD [OF assms(4) k(1,2) this]
    show ?thesis
    proof (cases "next_retained_index (k + 1) R = d")
      case True
      have "d \<noteq> i" using silent_not_final [OF assms(5) silent] l by blast
      with True have "next_retained_index (k + 1) (R[i := True]) = d" by (simp add: next_retained_update)
      with ok(1) show ?thesis by blast
    qed (use ok l in blast)
  qed
  moreover have "\<exists>n d. leads code k n d" if "k < length code" for k using all_lead [OF assms(3)] that by simp
  moreover have "R[i := True] ! k" if "k < length code" "\<not> reach ! k \<or> removed_at_once (code ! k)" for k
    using that assms(4) len by (cases "k = i") (auto simp: removal_ok_def)
  ultimately show ?thesis
    using len unfolding removal_ok_def by (metis length_list_update)
qed

lemma remove_pass_ok:
  assumes "closed code reach" "well_targeted code" "settles code"
  shows "removal_ok code reach R \<Longrightarrow> \<forall>i \<in> set is. i < length code \<Longrightarrow>
    \<exists>R' changed'. remove_pass code is R changed = Some (R', changed') \<and> removal_ok code reach R'"
proof (induction "is" arbitrary: R changed)
  case (Cons i "is")
  then have i: "i < length code" by simp
  show ?case
  proof (cases "\<exists>offset. \<not> R ! i \<and> code ! i = Jump offset \<and>
      resolve_jump_target code R (cast_target i offset) = next_retained_index (i + 1) R")
    case True
    then obtain offset where j: "\<not> R ! i" "code ! i = Jump offset"
      "resolve_jump_target code R (cast_target i offset) = next_retained_index (i + 1) R" by blast
    have "opt_jump_target i offset = Some (cast_target i offset)" using well_targetedD(1) [OF assms(2) i] j(2) by simp
    then have eq: "remove_pass code (i # is) R changed = remove_pass code is (R[i := True]) True" using j by simp
    have "removal_ok code reach (R[i := True])" by (rule removal_ok_update [OF assms Cons.prems(1) i j])
    from Cons.IH [OF this, of True] Cons.prems(2) eq show ?thesis by simp
  next
    case False
    have "opt_jump_target i offset = Some (cast_target i offset)" if "code ! i = Jump offset" for offset
      using well_targetedD(1) [OF assms(2) i] that by simp
    with False have eq: "remove_pass code (i # is) R changed = remove_pass code is R changed"
      by (auto split: bool.splits Instruction.splits option.splits)
    from Cons.IH [OF Cons.prems(1), of changed] Cons.prems(2) eq show ?thesis by simp
  qed
qed simp

lemma remove_loop_ok:
  "closed code reach \<Longrightarrow> well_targeted code \<Longrightarrow> settles code \<Longrightarrow> removal_ok code reach R \<Longrightarrow>
   \<exists>R'. remove_loop code R = Some R' \<and> removal_ok code reach R'"
proof (induction code R rule: remove_loop.induct)
  case (1 code R)
  have "\<forall>i \<in> set [0..<length R]. i < length code" using "1.prems"(4) by (simp add: removal_ok_def)
  from remove_pass_ok [OF "1.prems" this, of False] obtain R' changed where
    p: "remove_pass code [0..<length R] R False = Some (R', changed)" and ok: "removal_ok code reach R'" by blast
  show ?case
  proof (cases changed)
    case True
    from "1.IH" [OF p refl True "1.prems"(1-3) ok] p True show ?thesis by (simp add: remove_loop.simps [of _ R])
  next
    case False
    with p ok show ?thesis by (simp add: remove_loop.simps [of _ R])
  qed
qed

lemma initial_remove_ok:
  assumes "closed code reach" "well_targeted code" "length code < 2 ^ 31"
  shows "removal_ok code reach (initial_remove code reach)"
proof -
  have len: "length reach = length code" using assms(1) by (simp add: closed_def)
  have nth: "initial_remove code reach ! i = (\<not> reach ! i \<or> removed_at_once (code ! i))" if "i < length code" for i
    using that len by (simp add: initial_remove_def)
  have "silent code i = Some (i + 1)" if "i < length code" "removed_at_once (code ! i)" for i
  proof (cases "code ! i")
    case (Jump offset)
    with that have "offset = of_nat (i + 1) - of_nat i - 1" by (simp add: removed_at_once_def)
    with Jump new_target(2) [of "i + 1" i] that assms(3) show ?thesis by (simp add: silent_def)
  qed (use that in \<open>auto simp: removed_at_once_def silent_def\<close>)
  then show ?thesis
    using len nth by (auto simp: removal_ok_def initial_remove_def)
qed

section \<open>Rewriting\<close>

definition new_index :: "bool list \<Rightarrow> nat \<Rightarrow> nat" where
  "new_index R i = unset (take i R)"

definition kept :: "bool list \<Rightarrow> nat list" where
  "kept R = filter (\<lambda>i. \<not> R ! i) [0..<length R]"

definition rewritten :: "Instruction list \<Rightarrow> bool list \<Rightarrow> nat \<Rightarrow> Instruction" where
  "rewritten code R i =
    (case jump_targets code R i of
       None \<Rightarrow> code ! i
     | Some target \<Rightarrow> set_offset (of_nat (new_index R target) - of_nat (new_index R i) - 1) (code ! i))"

lemma old_to_new_Some: "old_to_new R i = Some j \<Longrightarrow> j = new_index R i"
  by (auto simp: old_to_new_def new_index_def split: if_splits)

lemma old_to_new_kept [simp]: "i < length R \<Longrightarrow> old_to_new R i = (if R ! i then None else Some (new_index R i))"
  by (simp add: old_to_new_def new_index_def)

lemma old_to_new_end [simp]: "old_to_new R (length R) = Some (new_index R (length R))"
  by (simp add: old_to_new_def new_index_def)

lemma rewrite_from_kept:
  "\<forall>i \<in> set is. i < length R \<Longrightarrow>
   \<forall>i \<in> set is. \<not> R ! i \<longrightarrow> (case jump_targets code R i of None \<Rightarrow> True | Some t \<Rightarrow> old_to_new R t \<noteq> None) \<Longrightarrow>
   rewrite_from code R is = Some (map (rewritten code R) (filter (\<lambda>i. \<not> R ! i) is))"
proof (induction "is")
  case (Cons i "is")
  then have rest: "rewrite_from code R is = Some (map (rewritten code R) (filter (\<lambda>i. \<not> R ! i) is))" by auto
  show ?case
  proof (cases "R ! i")
    case False
    show ?thesis
    proof (cases "jump_targets code R i")
      case None
      with False Cons.prems(1) rest show ?thesis by (simp add: rewritten_def)
    next
      case (Some t)
      with False Cons.prems(2) obtain j where "old_to_new R t = Some j" by auto
      with Some False Cons.prems(1) rest old_to_new_Some [of R t j] show ?thesis by (simp add: rewritten_def)
    qed
  qed (use Cons.prems rest in simp)
qed simp

lemma new_index_filter: "i \<le> length R \<Longrightarrow> new_index R i = length (filter (\<lambda>k. \<not> R ! k) [0..<i])"
proof -
  assume i: "i \<le> length R"
  then have "take i R = map ((!) R) [0..<i]" by (auto intro: nth_equalityI)
  then show ?thesis by (simp add: new_index_def unset_def filter_map o_def)
qed

lemma kept_nth:
  assumes "i < length R" "\<not> R ! i"
  shows "new_index R i < length (kept R)" "kept R ! new_index R i = i"
proof -
  have "[0..<length R] = [0..<i] @ i # [Suc i..<length R]"
    using assms(1) by (metis le0 less_imp_le_nat upt_add_eq_append upt_conv_Cons le_add_diff_inverse)
  then have "kept R = filter (\<lambda>k. \<not> R ! k) [0..<i] @ i # filter (\<lambda>k. \<not> R ! k) [Suc i..<length R]"
    using assms(2) by (simp add: kept_def)
  then show "new_index R i < length (kept R)" "kept R ! new_index R i = i"
    using new_index_filter [of i R] assms(1) by (simp_all add: nth_append)
qed

lemma length_kept: "length (kept R) = new_index R (length R)"
  by (simp add: kept_def new_index_filter)

lemma new_index_Suc: "i < length R \<Longrightarrow> new_index R (i + 1) = (if R ! i then new_index R i else Suc (new_index R i))"
  by (simp add: new_index_def unset_def take_Suc_conv_app_nth)

lemma new_index_next_retained: "i \<le> length R \<Longrightarrow> new_index R (next_retained_index i R) = new_index R i"
proof (induction i R rule: next_retained_index.induct)
  case (1 i R)
  show ?case
  proof (cases "i < length R \<and> R ! i")
    case True
    with 1 show ?thesis by (simp add: next_retained_skip new_index_Suc [simplified])
  next
    case False
    then have "next_retained_index i R = i" by (intro next_retained_stay) auto
    then show ?thesis by simp
  qed
qed

lemma new_index_le: "new_index R i \<le> length R"
  unfolding new_index_def unset_def by (rule order_trans [OF length_filter_le]) simp

text \<open>Offsets do not matter to what an instruction is.\<close>

lemma set_offset_facts [simp]:
  "is_branch (set_offset offset instr) = is_branch instr"
  "is_terminal (set_offset offset instr) = is_terminal instr"
  "erase_offset (set_offset offset instr) = erase_offset instr"
  "jump_offset (set_offset offset instr) = (if jump_offset instr = None then None else Some offset)"
  "falls_through (set_offset offset instr) = falls_through instr"
  by (cases instr; simp add: erase_offset_def falls_through_def)+

lemma set_offset_none: "jump_offset instr = None \<Longrightarrow> set_offset offset instr = instr"
  by (cases instr) auto

lemma branch_offset: "is_branch instr \<Longrightarrow> \<exists>offset. jump_offset instr = Some offset"
  by (cases instr) auto

lemma ends_jump:
  assumes "i < length code" "code ! i = Jump offset"
  shows "ends eff br code i s instr s' = ends eff br code (cast_target i offset) s instr s'"
proof
  assume "ends eff br code i s instr s'"
  then show "ends eff br code (cast_target i offset) s instr s'"
    using assms(2) by (cases rule: ends_cases) (auto simp: falls_through_def)
qed (rule jump [OF assms])

lemma ends_silent:
  assumes "\<And>r s. eff (Move r r) s = Some s" "i < length code" "silent code i = Some j"
  shows "ends eff br code i s instr s' = ends eff br code j s instr s'"
proof (cases "code ! i")
  case (Jump offset)
  with assms(3) ends_jump [OF assms(2) Jump] show ?thesis by (simp add: silent_def)
next
  case (Move dest src)
  with assms(3) have m: "code ! i = Move dest dest" "j = i + 1" by (auto simp: silent_def split: if_splits)
  have f: "falls_through (code ! i)" by (simp add: m falls_through_def)
  have e: "eff (code ! i) s = Some s" by (simp add: m assms(1))
  show ?thesis
  proof
    assume "ends eff br code i s instr s'"
    then show "ends eff br code j s instr s'"
      using m e by (cases rule: ends_cases) auto
  qed (use ends.step [where eff = eff and br = br and s = s and ?s1.0 = s, OF assms(2) f e] m in simp)
qed (use assms(3) in \<open>simp_all add: silent_def\<close>)

lemma ends_leads:
  assumes "\<And>r s. eff (Move r r) s = Some s"
  shows "leads code i n d \<Longrightarrow> ends eff br code i s instr s' = ends eff br code d s instr s'"
  by (induction rule: leads.induct) (simp_all add: ends_silent [where eff = eff, OF assms])

section \<open>Simulation\<close>

text \<open>A function and what the optimizer makes of it.\<close>

definition rewritten_code :: "Instruction list \<Rightarrow> bool list \<Rightarrow> Instruction list" where
  "rewritten_code code R = map (rewritten code R) (kept R)"

definition prepared :: "Instruction list \<Rightarrow> bool list \<Rightarrow> bool list \<Rightarrow> bool" where
  "prepared code reach R \<longleftrightarrow> closed code reach \<and> well_targeted code \<and> settles code \<and> removal_ok code reach R \<and> length code < 2 ^ 31"

lemma preparedD:
  assumes "prepared code reach R"
  shows "closed code reach" "well_targeted code" "settles code" "removal_ok code reach R" "length R = length code" "length code < 2 ^ 31"
  using assms by (auto simp: prepared_def removal_ok_def)

lemma retained_marked: "prepared code reach R \<Longrightarrow> i < length code \<Longrightarrow> \<not> R ! i \<Longrightarrow> reach ! i"
  using preparedD(4) unfolding removal_ok_def by blast

text \<open>Where chains end, an instruction is retained.\<close>

lemma final_retained:
  assumes "prepared code reach R" "leads code i n d" "marked code reach i"
  shows "d \<le> length code" "d < length code \<longrightarrow> \<not> R ! d" "old_to_new R d = Some (new_index R d)"
proof -
  note p = preparedD [OF assms(1)]
  have "marked code reach d"
    using assms(2,3)
  proof (induction rule: leads.induct)
    case (silently i j n d)
    from silently.prems silently.hyps(1) have "reach ! i" by (simp add: marked_def)
    with marked_silent [OF p(1,2) silently.hyps(1) _ silently.hyps(2)] silently.IH show ?case by blast
  qed
  then show le: "d \<le> length code" by (auto simp: marked_def split: if_splits)
  show retained: "d < length code \<longrightarrow> \<not> R ! d"
    using leads_final [OF assms(2)] removal_okD(1) [OF p(4), of d] \<open>marked code reach d\<close> by (auto simp: marked_def)
  show "old_to_new R d = Some (new_index R d)"
  proof (cases "d < length code")
    case True
    with retained p(5) show ?thesis by simp
  next
    case False
    with le p(5) have "d = length R" by simp
    then show ?thesis by simp
  qed
qed

lemma jump_targets_leads:
  assumes "prepared code reach R" "i < length code" "reach ! i" "jump_offset (code ! i) = Some offset"
  obtains n d where "leads code (cast_target i offset) n d" "marked code reach (cast_target i offset)" "jump_targets code R i = Some d"
proof -
  note p = preparedD [OF assms(1)]
  note t = well_targetedD [OF p(2) assms(2,4)]
  have m: "marked code reach (cast_target i offset)"
    using closed_jump [OF p(1,2) assms(2-4)] by (simp add: marked_def)
  from all_lead [OF p(3)] t(2) obtain n d where l: "leads code (cast_target i offset) n d" by fastforce
  with resolve_jump_target_leads [OF p(1,2,4) l m] t(1) assms(4) m that show ?thesis by (simp add: jump_targets_def)
qed

lemma rewritten_at:
  assumes "prepared code reach R" "i < length code" "\<not> R ! i"
  shows "new_index R i < length (rewritten_code code R)" "rewritten_code code R ! new_index R i = rewritten code R i"
  using kept_nth [of i R] preparedD(5) [OF assms(1)] assms(2,3) by (simp_all add: rewritten_code_def)

lemma rewritten_jump:
  assumes "prepared code reach R" "i < length code" "\<not> R ! i" "jump_offset (code ! i) = Some offset"
  obtains n d offset' where "leads code (cast_target i offset) n d" "marked code reach (cast_target i offset)"
    "rewritten code R i = set_offset offset' (code ! i)" "cast_target (new_index R i) offset' = new_index R d"
proof -
  have reach: "reach ! i" by (rule retained_marked [OF assms(1-3)])
  from jump_targets_leads [OF assms(1,2) reach assms(4)] obtain n d where
    l: "leads code (cast_target i offset) n d" "marked code reach (cast_target i offset)" "jump_targets code R i = Some d" .
  have "new_index R d < 2 ^ 31"
    using new_index_le [of R d] preparedD(5,6) [OF assms(1)] by linarith
  from new_target(2) [OF this] l that show ?thesis by (simp add: rewritten_def)
qed

lemma rewritten_other: "jump_offset (code ! i) = None \<Longrightarrow> rewritten code R i = code ! i"
  by (simp add: rewritten_def jump_targets_def)

lemma ends_rewritten_leads:
  assumes "prepared code reach R" "leads code i n d" "marked code reach i"
  shows "ends eff br (rewritten_code code R) (new_index R (next_retained_index i R)) s instr s' =
    ends eff br (rewritten_code code R) (new_index R d) s instr s'"
proof -
  note p = preparedD [OF assms(1)]
  let ?m = "next_retained_index i R"
  from next_retained_leads [OF p(1,2,4) assms(2,3)] consider
      (final) "?m = d"
    | (jump) offset k where "?m < length code" "\<not> R ! ?m" "code ! ?m = Jump offset" "leads code (cast_target ?m offset) k d"
    by blast
  then show ?thesis
  proof cases
    case jump
    have o: "jump_offset (code ! ?m) = Some offset" by (simp add: jump(3))
    from rewritten_jump [OF assms(1) jump(1,2) o] obtain n' d' offset' where
      r: "leads code (cast_target ?m offset) n' d'" "rewritten code R ?m = set_offset offset' (code ! ?m)"
        "cast_target (new_index R ?m) offset' = new_index R d'" .
    from leads_functional [OF jump(4) r(1)] have "d' = d" by simp
    with r jump(3) rewritten_at [OF assms(1) jump(1,2)] ends_jump [of "new_index R ?m" "rewritten_code code R" offset'] show ?thesis
      by simp
  qed simp
qed

lemma new_index_after:
  assumes "prepared code reach R" "i < length code" "\<not> R ! i"
  shows "new_index R (next_retained_index (i + 1) R) = new_index R i + 1"
  using new_index_next_retained [of "i + 1" R] new_index_Suc [of i R] preparedD(5) [OF assms(1)] assms(2,3) by simp

lemma ends_forward_silent:
  assumes p: "prepared code reach R" and i: "i < length code" "marked code reach i" "silent code i = Some j"
    and rest: "ends eff br (rewritten_code code R) (new_index R (next_retained_index j R)) s instr s'"
  shows "ends eff br (rewritten_code code R) (new_index R (next_retained_index i R)) s instr s'"
proof -
  note q = preparedD [OF p]
  from i have "reach ! i" by (simp add: marked_def)
  then have mj: "marked code reach j" using marked_silent [OF q(1,2) i(1)] i(3) by blast
  from all_lead [OF q(3)] i(1) obtain n d where l: "leads code i n d" by fastforce
  from leads_on [OF l i(1,3)] obtain m where "leads code j m d" by blast
  from ends_rewritten_leads [OF p this mj, of eff br] ends_rewritten_leads [OF p l i(2), of eff br] rest show ?thesis by simp
qed

lemma loud_retained:
  assumes p: "prepared code reach R" and i: "i < length code" "marked code reach i" "silent code i = None"
  shows "\<not> R ! i" "reach ! i" "next_retained_index i R = i"
proof -
  from i show "reach ! i" by (simp add: marked_def)
  with removal_okD(1) [OF preparedD(4) [OF p] i(1)] i(3) show "\<not> R ! i" by blast
  then show "next_retained_index i R = i" by (simp add: next_retained_stay)
qed

lemma silent_kind: "silent code i = None \<longleftrightarrow> (\<forall>offset. code ! i \<noteq> Jump offset) \<and> (\<forall>r. code ! i \<noteq> Move r r)"
  by (cases "code ! i") (auto simp: silent_def)

lemma ends_forward:
  assumes p: "prepared code reach R" and self: "\<And>r s. eff (Move r r) s = Some s"
  shows "ends eff br code i s instr s' \<Longrightarrow> marked code reach i \<Longrightarrow>
    ends eff br (rewritten_code code R) (new_index R (next_retained_index i R)) s instr s'"
proof (induction rule: ends.induct)
  case (terminal i s)
  then have "silent code i = None" by (auto simp: silent_kind)
  note r = loud_retained [OF p terminal.hyps(1) terminal.prems this]
  have "jump_offset (code ! i) = None" using terminal.hyps(2) by (cases "code ! i") auto
  with rewritten_at [OF p terminal.hyps(1) r(1)] r(3) terminal.hyps(2) ends.terminal [of "new_index R i" "rewritten_code code R"]
  show ?case by (simp add: rewritten_other)
next
  case (stop i s)
  then have "silent code i = None" using self by (auto simp: silent_kind falls_through_def)
  note r = loud_retained [OF p stop.hyps(1) stop.prems this]
  from rewritten_at [OF p stop.hyps(1) r(1)] r(3) stop.hyps(2,3) ends.stop [of "new_index R i" "rewritten_code code R" eff s br]
  show ?case by (simp add: rewritten_other falls_through_def)
next
  case (step i s s1 instr s')
  have m: "marked code reach (i + 1)"
    using marked_next [OF preparedD(1,2) [OF p] step.hyps(1)] step.hyps(1,2) step.prems by (simp add: marked_def)
  show ?case
  proof (cases "silent code i")
    case None
    note r = loud_retained [OF p step.hyps(1) step.prems None]
    from step.IH [OF m] new_index_after [OF p step.hyps(1) r(1)] rewritten_at [OF p step.hyps(1) r(1)] r(3) step.hyps(2,3)
      ends.step [of "new_index R i" "rewritten_code code R" eff s s1 br instr s']
    show ?thesis by (simp add: rewritten_other falls_through_def)
  next
    case (Some j)
    with step.hyps(2,3) self have "j = i + 1" "s1 = s"
      by (cases "code ! i"; auto simp: silent_def falls_through_def split: if_splits)+
    with ends_forward_silent [OF p step.hyps(1) step.prems Some] step.IH [OF m] show ?thesis by simp
  qed
next
  case (jump i offset s instr s')
  then have "silent code i = Some (cast_target i offset)" by (simp add: silent_def)
  note sil = this
  have "reach ! i" using jump.hyps(1) jump.prems by (simp add: marked_def)
  then have "marked code reach (cast_target i offset)" by (rule marked_silent [OF preparedD(1,2) [OF p] jump.hyps(1) _ sil])
  then show ?case by (rule ends_forward_silent [OF p jump.hyps(1) jump.prems sil jump.IH])
next
  case (undecided i s)
  then have "silent code i = None" by (auto simp: silent_kind)
  note r = loud_retained [OF p undecided.hyps(1) undecided.prems this]
  from branch_offset [OF undecided.hyps(2)] obtain offset where "jump_offset (code ! i) = Some offset" by blast
  from rewritten_jump [OF p undecided.hyps(1) r(1) this] obtain offset' where "rewritten code R i = set_offset offset' (code ! i)" by metis
  with rewritten_at [OF p undecided.hyps(1) r(1)] r(3) undecided.hyps ends.undecided [of "new_index R i" "rewritten_code code R" br s eff]
  show ?case by simp
next
  case (taken i s offset instr s')
  then have "silent code i = None" by (auto simp: silent_kind)
  note r = loud_retained [OF p taken.hyps(1) taken.prems this]
  from rewritten_jump [OF p taken.hyps(1) r(1) taken.hyps(4)] obtain n d offset' where
    w: "leads code (cast_target i offset) n d" "marked code reach (cast_target i offset)"
      "rewritten code R i = set_offset offset' (code ! i)" "cast_target (new_index R i) offset' = new_index R d" .
  from taken.IH [OF w(2)] ends_rewritten_leads [OF p w(1,2), of eff br]
  have "ends eff br (rewritten_code code R) (new_index R d) s instr s'" by simp
  with w rewritten_at [OF p taken.hyps(1) r(1)] r(3) taken.hyps
    ends.taken [of "new_index R i" "rewritten_code code R" br s offset' eff instr s']
  show ?case by simp
next
  case (not_taken i s instr s')
  then have "silent code i = None" by (auto simp: silent_kind)
  note r = loud_retained [OF p not_taken.hyps(1) not_taken.prems this]
  have m: "marked code reach (i + 1)"
    using marked_next [OF preparedD(1,2) [OF p] not_taken.hyps(1) r(2)] not_taken.hyps(2) by simp
  from branch_offset [OF not_taken.hyps(2)] obtain offset where "jump_offset (code ! i) = Some offset" by blast
  from rewritten_jump [OF p not_taken.hyps(1) r(1) this] obtain offset' where "rewritten code R i = set_offset offset' (code ! i)" by metis
  with not_taken.IH [OF m] new_index_after [OF p not_taken.hyps(1) r(1)] rewritten_at [OF p not_taken.hyps(1) r(1)] r(3) not_taken.hyps
    ends.not_taken [of "new_index R i" "rewritten_code code R" br s eff instr s']
  show ?case by simp
qed

lemma ends_bound: "ends eff br code i s instr s' \<Longrightarrow> i < length code"
  by (cases rule: ends.cases)

lemma ends_next_retained:
  assumes p: "prepared code reach R" and self: "\<And>r s. eff (Move r r) s = Some s" and i: "marked code reach i"
  shows "ends eff br code (next_retained_index i R) s instr s' = ends eff br code i s instr s'"
proof -
  note q = preparedD [OF p]
  have "i \<le> length code" using i by (auto simp: marked_def split: if_splits)
  from all_lead [OF q(3) this] obtain n d where l: "leads code i n d" by blast
  let ?m = "next_retained_index i R"
  from next_retained_leads [OF q(1,2,4) l i] have "\<exists>k. leads code ?m k d"
  proof (elim disjE exE conjE)
    assume "?m = d"
    with leads.here [OF leads_final [OF l]] show ?thesis by auto
  next
    fix offset m assume m: "?m < length code" "code ! ?m = Jump offset" "leads code (cast_target ?m offset) m d"
    then have "silent code ?m = Some (cast_target ?m offset)" by (simp add: silent_def)
    from leads.silently [OF m(1) this m(3)] show ?thesis by blast
  qed
  then obtain k where "leads code ?m k d" by blast
  from ends_leads [where eff = eff, OF self this] ends_leads [where eff = eff, OF self l] show ?thesis by simp
qed

text \<open>A run of the rewritten code that is at the place of a retained index or behind it.\<close>

lemma new_place:
  assumes p: "prepared code reach R" and j: "ends eff br (rewritten_code code R) (new_index R k) s instr s'"
    and k: "k \<le> length code" "k < length code \<longrightarrow> \<not> R ! k"
  shows "k < length code \<and> \<not> R ! k"
proof -
  have "new_index R k < length (kept R)" using ends_bound [OF j] by (simp add: rewritten_code_def)
  then have "k \<noteq> length code" using length_kept [of R] preparedD(5) [OF p] by auto
  with k show ?thesis by simp
qed

lemma set_offset_same: "\<exists>offset. instr = set_offset offset instr"
  by (cases instr) auto

lemma rewritten_shape: "\<exists>offset. rewritten code R i = set_offset offset (code ! i)"
  using set_offset_same [of "code ! i"] by (auto simp: rewritten_def split: option.splits)

lemma ends_backward:
  assumes p: "prepared code reach R" and self: "\<And>r s. eff (Move r r) s = Some s"
  shows "ends eff br (rewritten_code code R) j s instr s' \<Longrightarrow> i < length code \<Longrightarrow> \<not> R ! i \<Longrightarrow> j = new_index R i \<Longrightarrow>
    ends eff br code i s instr s'"
proof (induction arbitrary: i rule: ends.induct)
  case (terminal j s)
  from rewritten_shape [of code R i] rewritten_at [OF p terminal.prems(1,2)] terminal
  have "is_terminal (code ! i)" by auto
  moreover from this have "rewritten code R i = code ! i" by (intro rewritten_other) (cases "code ! i"; auto)
  ultimately show ?case
    using rewritten_at [OF p terminal.prems(1,2)] terminal.prems ends.terminal [of i code eff br s] by simp
next
  case (stop j s)
  from rewritten_shape [of code R i] rewritten_at [OF p stop.prems(1,2)] stop
  have f: "falls_through (code ! i)" by auto
  moreover from this have "rewritten code R i = code ! i" by (intro rewritten_other) (simp add: falls_through_def)
  ultimately show ?case
    using rewritten_at [OF p stop.prems(1,2)] stop ends.stop [of i code eff s br] by simp
next
  case (step j s s1 instr s')
  from rewritten_shape [of code R i] rewritten_at [OF p step.prems(1,2)] step
  have f: "falls_through (code ! i)" by auto
  then have w: "rewritten code R i = code ! i" by (intro rewritten_other) (simp add: falls_through_def)
  let ?k = "next_retained_index (i + 1) R"
  have j: "j + 1 = new_index R ?k" using new_index_after [OF p step.prems(1,2)] step.prems(3) by simp
  have "?k \<le> length code" "?k < length code \<longrightarrow> \<not> R ! ?k"
    using next_retained_bounds [of "i + 1" R] preparedD(5) [OF p] step.prems(1) by auto
  from new_place [OF p step.hyps(4) [unfolded j] this] have "ends eff br code ?k s1 instr s'" using step.IH j by blast
  moreover have "marked code reach (i + 1)"
    using marked_next [OF preparedD(1,2) [OF p] step.prems(1) retained_marked [OF p step.prems(1,2)]] f by blast
  ultimately have "ends eff br code (i + 1) s1 instr s'" using ends_next_retained [where eff = eff, OF p self] by blast
  with f w rewritten_at [OF p step.prems(1,2)] step ends.step [of i code eff s s1 br instr s'] show ?case by simp
next
  case (jump j offset' s instr s')
  from rewritten_shape [of code R i] rewritten_at [OF p jump.prems(1,2)] jump obtain o2 where "set_offset o2 (code ! i) = Jump offset'" by auto
  then obtain offset where c: "code ! i = Jump offset" by (cases "code ! i") auto
  then have o: "jump_offset (code ! i) = Some offset" by simp
  from rewritten_jump [OF p jump.prems(1,2) o] obtain n d o3 where
    w: "leads code (cast_target i offset) n d" "marked code reach (cast_target i offset)"
      "rewritten code R i = set_offset o3 (code ! i)" "cast_target (new_index R i) o3 = new_index R d" .
  from w(3) c rewritten_at [OF p jump.prems(1,2)] jump have "o3 = offset'" by simp
  with w(4) jump.prems(3) have t: "cast_target j offset' = new_index R d" by simp
  from new_place [OF p jump.hyps(3) [unfolded t] final_retained(1,2) [OF p w(1,2)]] have "ends eff br code d s instr s'" using jump.IH t by blast
  then have "ends eff br code (cast_target i offset) s instr s'" using ends_leads [where eff = eff, OF self w(1)] by blast
  with ends_jump [OF jump.prems(1) c, of eff br] show ?case by blast
next
  case (undecided j s)
  from rewritten_shape [of code R i] rewritten_at [OF p undecided.prems(1,2)] undecided
  have "is_branch (code ! i)" "erase_offset (rewritten_code code R ! j) = erase_offset (code ! i)" by auto
  with undecided ends.undecided [of i code br s eff] show ?case by simp
next
  case (taken j s offset' instr s')
  from rewritten_shape [of code R i] rewritten_at [OF p taken.prems(1,2)] taken
  have b: "is_branch (code ! i)" "erase_offset (rewritten_code code R ! j) = erase_offset (code ! i)" by auto
  from branch_offset [OF b(1)] obtain offset where o: "jump_offset (code ! i) = Some offset" by blast
  from rewritten_jump [OF p taken.prems(1,2) o] obtain n d o3 where
    w: "leads code (cast_target i offset) n d" "marked code reach (cast_target i offset)"
      "rewritten code R i = set_offset o3 (code ! i)" "cast_target (new_index R i) o3 = new_index R d" .
  from w(3) o rewritten_at [OF p taken.prems(1,2)] taken have "o3 = offset'" by simp
  with w(4) taken.prems(3) have t: "cast_target j offset' = new_index R d" by simp
  from new_place [OF p taken.hyps(5) [unfolded t] final_retained(1,2) [OF p w(1,2)]] have "ends eff br code d s instr s'" using taken.IH t by blast
  then have "ends eff br code (cast_target i offset) s instr s'" using ends_leads [where eff = eff, OF self w(1)] by blast
  with b o taken ends.taken [of i code br s offset eff instr s'] show ?case by simp
next
  case (not_taken j s instr s')
  from rewritten_shape [of code R i] rewritten_at [OF p not_taken.prems(1,2)] not_taken
  have b: "is_branch (code ! i)" "erase_offset (rewritten_code code R ! j) = erase_offset (code ! i)" by auto
  let ?k = "next_retained_index (i + 1) R"
  have j: "j + 1 = new_index R ?k" using new_index_after [OF p not_taken.prems(1,2)] not_taken.prems(3) by simp
  have "?k \<le> length code" "?k < length code \<longrightarrow> \<not> R ! ?k"
    using next_retained_bounds [of "i + 1" R] preparedD(5) [OF p] not_taken.prems(1) by auto
  from new_place [OF p not_taken.hyps(4) [unfolded j] this] have "ends eff br code ?k s instr s'" using not_taken.IH j by blast
  moreover have "marked code reach (i + 1)"
    using marked_next [OF preparedD(1,2) [OF p] not_taken.prems(1) retained_marked [OF p not_taken.prems(1,2)]] b by blast
  ultimately have "ends eff br code (i + 1) s instr s'" using ends_next_retained [where eff = eff, OF p self] by blast
  with b not_taken ends.not_taken [of i code br s eff instr s'] show ?case by simp
qed

section \<open>The optimizer\<close>

text \<open>
  C13 (the control-flow optimizer preserves behaviour).  For a function of fewer than \<open>2^31\<close> instructions whose jumps stay inside it,
  as the validator ensures, and that contains no endless chain of jumps, the optimizer does not fail, and the function it
  produces ends its runs exactly as the original does: at the same instruction and in the same state, whatever the instructions
  compute and however the branches decide, provided a move of a register to itself changes nothing.
\<close>

theorem optimize_control_preserves:
  fixes eff :: "Instruction \<Rightarrow> 's \<Rightarrow> 's option"
  assumes "well_targeted code" and "settles code" and "length code < 2 ^ 31" and self: "\<And>r s. eff (Move r r) s = Some s"
  shows "\<exists>code' remap. optimize_control code = Some (code', remap) \<and>
    (\<forall>s instr s'. ends eff br code 0 s instr s' \<longleftrightarrow> ends eff br code' 0 s instr s')"
proof (cases "code = []")
  case True
  have "optimize_control [] = Some ([], [])"
    by (simp add: optimize_control_def initial_remove_def remove_loop.simps)
  with True show ?thesis by auto
next
  case False
  from marked_closed [OF assms(1) False] obtain reach where
    mark: "mark_reachable code [0] (replicate (length code) False) = Some reach" and cl: "closed code reach" and start: "reach ! 0" .
  from remove_loop_ok [OF cl assms(1,2) initial_remove_ok [OF cl assms(1,3)]] obtain R where
    loop: "remove_loop code (initial_remove code reach) = Some R" and ok: "removal_ok code reach R" by blast
  have p: "prepared code reach R" using cl assms ok by (simp add: prepared_def)
  have len: "length R = length code" by (rule preparedD(5) [OF p])
  have targets: "list_all (\<lambda>i. jump_offset (code ! i) = None \<or> jump_targets code R i \<noteq> None) [0..<length code]"
    using well_targetedD(1) [OF assms(1)] by (auto simp: list_all_iff jump_targets_def split: option.splits)
  have "case jump_targets code R i of None \<Rightarrow> True | Some t \<Rightarrow> old_to_new R t \<noteq> None" if "i < length code" "\<not> R ! i" for i
  proof (cases "jump_offset (code ! i)")
    case None
    then show ?thesis by (simp add: jump_targets_def)
  next
    case (Some offset)
    from jump_targets_leads [OF p that(1) retained_marked [OF p that] Some] obtain n d where
      l: "leads code (cast_target i offset) n d" "marked code reach (cast_target i offset)" "jump_targets code R i = Some d" .
    from final_retained(3) [OF p l(1,2)] l(3) show ?thesis by simp
  qed
  then have rewrite: "rewrite_from code R [0..<length code] = Some (rewritten_code code R)"
    using rewrite_from_kept [of "[0..<length code]" R code] len by (simp add: rewritten_code_def kept_def)
  have "optimize_control code = Some (rewritten_code code R, map (offset_remap code reach R) [0..<length code])"
    using mark loop targets rewrite False by (simp add: optimize_control_def)
  moreover have "ends eff br code 0 s instr s' \<longleftrightarrow> ends eff br (rewritten_code code R) 0 s instr s'" for s instr s'
  proof -
    have m: "marked code reach 0" using start False by (simp add: marked_def)
    let ?k = "next_retained_index 0 R"
    have zero: "new_index R ?k = 0" using new_index_next_retained [of 0 R] by (simp add: new_index_def unset_def)
    have "?k \<le> length code" "?k < length code \<longrightarrow> \<not> R ! ?k" using next_retained_bounds [of 0 R] len by auto
    then have bwd: "ends eff br (rewritten_code code R) 0 s instr s' \<Longrightarrow> ends eff br code ?k s instr s'"
      using new_place [OF p, of eff br ?k s instr s'] ends_backward [where eff = eff, OF p self, of br 0 s instr s' ?k] zero by auto
    show ?thesis
      using ends_forward [where eff = eff, OF p self _ m, of br s instr s'] zero bwd ends_next_retained [where eff = eff, OF p self m, of br s instr s']
      by auto
  qed
  ultimately show ?thesis by blast
qed

theorem optimize_control_preserves_witness:
  "(\<exists>code' remap. optimize_control [Jump 1, Control RetNull, Move 1 1, JumpNull 0 (-2), Control (Ret 0)] = Some (code', remap) \<and>
     (\<forall>s instr s'. ends (\<lambda>_. Some) (\<lambda>_ b. Some b) [Jump 1, Control RetNull, Move 1 1, JumpNull 0 (-2), Control (Ret 0)] 0 s instr s' \<longleftrightarrow>
        ends (\<lambda>_. Some) (\<lambda>_ b. Some b) code' 0 s instr s')) \<and>
   map_option fst (optimize_control [Jump 1, Control RetNull, Move 1 1, JumpNull 0 (-2), Control (Ret 0)]) =
     Some [JumpNull 0 (-1), Control (Ret 0)]"
proof
  let ?code = "[Jump 1, Control RetNull, Move 1 1, JumpNull 0 (-2), Control (Ret 0)]"
  have "well_targeted ?code" "settles ?code" by code_simp+
  then show "\<exists>code' remap. optimize_control ?code = Some (code', remap) \<and>
     (\<forall>s instr s'. ends (\<lambda>_. Some) (\<lambda>_ b. Some b) ?code 0 s instr s' \<longleftrightarrow> ends (\<lambda>_. Some) (\<lambda>_ b. Some b) code' 0 s instr s')"
    by (intro optimize_control_preserves) simp_all
  show "map_option fst (optimize_control ?code) = Some [JumpNull 0 (-1), Control (Ret 0)]" by code_simp
qed

text \<open>
  The restriction is needed: on a valid function with an endless chain of jumps the optimizer removes a jump that another jump is
  resolved to and fails.
\<close>

lemma optimize_control_endless_chain:
  "well_targeted [Jump 1, Control RetNull, Jump (-3)] \<and> optimize_control [Jump 1, Control RetNull, Jump (-3)] = None"
  by code_simp

end
