(* ===== verification/Opt_Registers.thy ===== *)
theory Opt_Registers
  imports Vm_Validated
begin

text \<open>
  Registers of instructions as the optimizer sees them, and the compaction of registers:
  \<open>visit_instruction_registers\<close>, \<open>remap_instruction_registers\<close> and \<open>compact_registers\<close> of
  \<^verbatim>\<open>galfus-workspace/src/workspace/optimizer.rs\<close>, and \<open>instruction_def_use\<close> of \<^verbatim>\<open>optimizer/liveness.rs\<close>.

  The last theorem says that compaction renames registers: what the virtual machine accesses in the compacted function is what
  it accesses in the original one, under one injective renaming that keeps the parameters.
\<close>

section \<open>Registers of an instruction\<close>

definition opt_range :: "Reg \<Rightarrow> u8 \<Rightarrow> (Reg \<times> u8) list" where
  "opt_range start count = (if count > 0 then [(start, count)] else [])"

text \<open>The registers an instruction names one by one: those it defines, and those it uses.\<close>

fun control_defs :: "ControlInstruction \<Rightarrow> Reg list" where
  "control_defs (Call dest _ _ _) = [dest]"
| "control_defs (CallMethod dest _ _ _ _ _ _) = [dest]"
| "control_defs (CallDynamic dest _ _ _) = [dest]"
| "control_defs _ = []"

fun control_uses :: "ControlInstruction \<Rightarrow> Reg list" where
  "control_uses (CallMethod _ obj _ _ _ _ _) = [obj]"
| "control_uses (CallDynamic _ func_reg _ _) = [func_reg]"
| "control_uses (Ret src) = [src]"
| "control_uses _ = []"

fun control_ranges :: "ControlInstruction \<Rightarrow> (Reg \<times> u8) list" where
  "control_ranges (Call _ _ start count) = opt_range start count"
| "control_ranges (TailCall _ start count) = opt_range start count"
| "control_ranges (CallMethod _ _ _ start count _ _) = (if count > 1 then [(start, count - 1)] else [])"
| "control_ranges (CallDynamic _ _ start count) = opt_range start count"
| "control_ranges _ = []"

fun object_defs :: "ObjectInstruction \<Rightarrow> Reg list" where
  "object_defs (AllocLocal dest _) = [dest]"
| "object_defs (LoadField dest _ _) = [dest]"
| "object_defs (StoreField _ _ _) = []"
| "object_defs (NewArray dest _ _) = [dest]"
| "object_defs (LoadIndex dest _ _) = [dest]"
| "object_defs (StoreIndex _ _ _) = []"
| "object_defs (NewTuple dest _ _ _) = [dest]"
| "object_defs (NewChoice dest _ _ _) = [dest]"
| "object_defs (Cast dest _ _) = [dest]"
| "object_defs (Copy dest _) = [dest]"
| "object_defs (Instanceof dest _ _) = [dest]"

fun object_uses :: "ObjectInstruction \<Rightarrow> Reg list" where
  "object_uses (AllocLocal _ _) = []"
| "object_uses (LoadField _ obj _) = [obj]"
| "object_uses (StoreField obj _ val) = [obj, val]"
| "object_uses (NewArray _ _ len_reg) = [len_reg]"
| "object_uses (LoadIndex _ arr idx) = [arr, idx]"
| "object_uses (StoreIndex arr idx val) = [arr, idx, val]"
| "object_uses (NewTuple _ _ _ _) = []"
| "object_uses (NewChoice _ _ _ payload) = [payload]"
| "object_uses (Cast _ src _) = [src]"
| "object_uses (Copy _ src) = [src]"
| "object_uses (Instanceof _ src _) = [src]"

fun object_ranges :: "ObjectInstruction \<Rightarrow> (Reg \<times> u8) list" where
  "object_ranges (NewTuple _ _ start count) = opt_range start count"
| "object_ranges _ = []"

fun system_defs :: "SystemInstruction \<Rightarrow> Reg list" where
  "system_defs (Drop _) = []"
| "system_defs (AwaitFuture dest _ _) = [dest]"
| "system_defs (CreateFuture dest _ _ _ _ _) = [dest]"
| "system_defs (CreateAwaitFuture dest _ _ _ _ _) = [dest]"
| "system_defs (CallInternalThread dest _ _ _ _ _) = [dest]"
| "system_defs (CreateIndirectFuture dest _ _ _ _ _) = [dest]"
| "system_defs (AwaitAll dest _ _ _) = [dest]"
| "system_defs (AwaitRace dest _ _ _) = [dest]"
| "system_defs (Len dest _) = [dest]"
| "system_defs (CopyArray _ _ _) = []"
| "system_defs (CallInternalMath dest _ _ _) = [dest]"

fun system_uses :: "SystemInstruction \<Rightarrow> Reg list" where
  "system_uses (Drop r) = [r]"
| "system_uses (AwaitFuture _ future_id _) = [future_id]"
| "system_uses (CreateIndirectFuture _ func_reg _ _ _ _) = [func_reg]"
| "system_uses (Len _ src) = [src]"
| "system_uses (CopyArray dest dest_start src) = [dest, dest_start, src]"
| "system_uses _ = []"

fun system_ranges :: "SystemInstruction \<Rightarrow> (Reg \<times> u8) list" where
  "system_ranges (CreateFuture _ _ start count _ _) = opt_range start count"
| "system_ranges (CreateAwaitFuture _ _ start count _ _) = opt_range start count"
| "system_ranges (CallInternalThread _ _ start count _ _) = opt_range start count"
| "system_ranges (CreateIndirectFuture _ _ start count _ _) = opt_range start count"
| "system_ranges (AwaitAll _ start count _) = opt_range start count"
| "system_ranges (AwaitRace _ start count _) = opt_range start count"
| "system_ranges (CallInternalMath _ _ start count) = opt_range start count"
| "system_ranges _ = []"

fun instruction_defs :: "Instruction \<Rightarrow> Reg list" where
  "instruction_defs (LoadConst dest _) = [dest]"
| "instruction_defs (Move dest _) = [dest]"
| "instruction_defs (LoadGlobal dest _ _) = [dest]"
| "instruction_defs (LoadNull dest) = [dest]"
| "instruction_defs (Binary _ dest _ _) = [dest]"
| "instruction_defs (Unary _ dest _) = [dest]"
| "instruction_defs (Fallback dest _ _) = [dest]"
| "instruction_defs (BinaryImmediate dest _ _ _) = [dest]"
| "instruction_defs (Typed _ _ dest _ _) = [dest]"
| "instruction_defs (Control i) = control_defs i"
| "instruction_defs (Objects i) = object_defs i"
| "instruction_defs (System i) = system_defs i"
| "instruction_defs _ = []"

fun instruction_uses :: "Instruction \<Rightarrow> Reg list" where
  "instruction_uses (Move _ src) = [src]"
| "instruction_uses (StoreGlobal _ _ src) = [src]"
| "instruction_uses (Binary _ _ lhs rhs) = [lhs, rhs]"
| "instruction_uses (Unary _ _ src) = [src]"
| "instruction_uses (Fallback _ src fallback) = [src, fallback]"
| "instruction_uses (BinaryImmediate _ lhs _ _) = [lhs]"
| "instruction_uses (Typed _ _ _ lhs rhs) = [lhs, rhs]"
| "instruction_uses (JumpTrue cond _) = [cond]"
| "instruction_uses (JumpFalse cond _) = [cond]"
| "instruction_uses (JumpNull val _) = [val]"
| "instruction_uses (Control i) = control_uses i"
| "instruction_uses (Objects i) = object_uses i"
| "instruction_uses (System i) = system_uses i"
| "instruction_uses _ = []"

fun instruction_ranges :: "Instruction \<Rightarrow> (Reg \<times> u8) list" where
  "instruction_ranges (Control i) = control_ranges i"
| "instruction_ranges (Objects i) = object_ranges i"
| "instruction_ranges (System i) = system_ranges i"
| "instruction_ranges _ = []"

text \<open>\<open>visit_instruction_registers\<close> calls back for the definitions first and then for the uses.\<close>

definition visit_registers :: "Instruction \<Rightarrow> Reg list" where
  "visit_registers instr = instruction_defs instr @ instruction_uses instr"

section \<open>Renaming\<close>

text \<open>\<open>visit_instruction_registers_mut\<close>: the start of a range is visited when the range is not empty.\<close>

definition rename_start :: "(Reg \<Rightarrow> Reg) \<Rightarrow> u8 \<Rightarrow> Reg \<Rightarrow> Reg" where
  "rename_start f count start = (if count > 0 then f start else start)"

fun rename_control :: "(Reg \<Rightarrow> Reg) \<Rightarrow> ControlInstruction \<Rightarrow> ControlInstruction" where
  "rename_control f (Call dest fn start count) = Call (f dest) fn (rename_start f count start) count"
| "rename_control f (TailCall fn start count) = TailCall fn (rename_start f count start) count"
| "rename_control f (CallMethod dest obj name start count tys ret) =
    CallMethod (f dest) (f obj) name (if count > 1 then f start else start) count tys ret"
| "rename_control f (CallDynamic dest func_reg start count) = CallDynamic (f dest) (f func_reg) (rename_start f count start) count"
| "rename_control f (Ret src) = Ret (f src)"
| "rename_control f i = i"

fun rename_object :: "(Reg \<Rightarrow> Reg) \<Rightarrow> ObjectInstruction \<Rightarrow> ObjectInstruction" where
  "rename_object f (AllocLocal dest ty) = AllocLocal (f dest) ty"
| "rename_object f (LoadField dest obj field) = LoadField (f dest) (f obj) field"
| "rename_object f (StoreField obj field val) = StoreField (f obj) field (f val)"
| "rename_object f (NewArray dest ty len_reg) = NewArray (f dest) ty (f len_reg)"
| "rename_object f (LoadIndex dest arr idx) = LoadIndex (f dest) (f arr) (f idx)"
| "rename_object f (StoreIndex arr idx val) = StoreIndex (f arr) (f idx) (f val)"
| "rename_object f (NewTuple dest ty start count) = NewTuple (f dest) ty (rename_start f count start) count"
| "rename_object f (NewChoice dest ty variant payload) = NewChoice (f dest) ty variant (f payload)"
| "rename_object f (Cast dest src ty) = Cast (f dest) (f src) ty"
| "rename_object f (Copy dest src) = Copy (f dest) (f src)"
| "rename_object f (Instanceof dest src ty) = Instanceof (f dest) (f src) ty"

fun rename_system :: "(Reg \<Rightarrow> Reg) \<Rightarrow> SystemInstruction \<Rightarrow> SystemInstruction" where
  "rename_system f (Drop r) = Drop (f r)"
| "rename_system f (AwaitFuture dest future_id ty) = AwaitFuture (f dest) (f future_id) ty"
| "rename_system f (CreateFuture dest fn start count tys ty) = CreateFuture (f dest) fn (rename_start f count start) count tys ty"
| "rename_system f (CreateAwaitFuture dest operation start count tys ty) =
    CreateAwaitFuture (f dest) operation (rename_start f count start) count tys ty"
| "rename_system f (CallInternalThread dest operation start count tys ty) =
    CallInternalThread (f dest) operation (rename_start f count start) count tys ty"
| "rename_system f (CreateIndirectFuture dest func_reg start count tys ty) =
    CreateIndirectFuture (f dest) (f func_reg) (rename_start f count start) count tys ty"
| "rename_system f (AwaitAll dest start count ty) = AwaitAll (f dest) (rename_start f count start) count ty"
| "rename_system f (AwaitRace dest start count ty) = AwaitRace (f dest) (rename_start f count start) count ty"
| "rename_system f (Len dest src) = Len (f dest) (f src)"
| "rename_system f (CopyArray dest dest_start src) = CopyArray (f dest) (f dest_start) (f src)"
| "rename_system f (CallInternalMath dest operation start count) =
    CallInternalMath (f dest) operation (rename_start f count start) count"

fun rename_instruction :: "(Reg \<Rightarrow> Reg) \<Rightarrow> Instruction \<Rightarrow> Instruction" where
  "rename_instruction f (LoadConst dest c) = LoadConst (f dest) c"
| "rename_instruction f (Move dest src) = Move (f dest) (f src)"
| "rename_instruction f (LoadGlobal dest m g) = LoadGlobal (f dest) m g"
| "rename_instruction f (StoreGlobal m g src) = StoreGlobal m g (f src)"
| "rename_instruction f (LoadNull dest) = LoadNull (f dest)"
| "rename_instruction f (Binary operation dest lhs rhs) = Binary operation (f dest) (f lhs) (f rhs)"
| "rename_instruction f (Unary operation dest src) = Unary operation (f dest) (f src)"
| "rename_instruction f (Fallback dest src fallback) = Fallback (f dest) (f src) (f fallback)"
| "rename_instruction f (BinaryImmediate dest lhs operation rhs) = BinaryImmediate (f dest) (f lhs) operation rhs"
| "rename_instruction f (Typed k operation dest lhs rhs) = Typed k operation (f dest) (f lhs) (f rhs)"
| "rename_instruction f (Jump offset) = Jump offset"
| "rename_instruction f (JumpTrue cond offset) = JumpTrue (f cond) offset"
| "rename_instruction f (JumpFalse cond offset) = JumpFalse (f cond) offset"
| "rename_instruction f (JumpNull val offset) = JumpNull (f val) offset"
| "rename_instruction f (Control i) = Control (rename_control f i)"
| "rename_instruction f (Objects i) = Objects (rename_object f i)"
| "rename_instruction f (System i) = System (rename_system f i)"

text \<open>The registers the mutable visitor looks up; each must have an entry in the table.\<close>

definition looked_up :: "Instruction \<Rightarrow> Reg list" where
  "looked_up instr = visit_registers instr @ map fst (instruction_ranges instr)"

definition lookup_remap :: "Reg option list \<Rightarrow> Reg \<Rightarrow> Reg option" where
  "lookup_remap remap r = (case list_get remap (unat r) of Some x \<Rightarrow> x | None \<Rightarrow> None)"

definition remap_instruction_registers :: "Reg option list \<Rightarrow> Instruction \<Rightarrow> Instruction option" where
  "remap_instruction_registers remap instr =
    (if list_all (\<lambda>r. lookup_remap remap r \<noteq> None) (looked_up instr)
     then Some (rename_instruction (\<lambda>r. the (lookup_remap remap r)) instr) else None)"

section \<open>Compaction\<close>

fun mark_registers :: "Reg list \<Rightarrow> bool list \<Rightarrow> bool list option" where
  "mark_registers [] used = Some used"
| "mark_registers (r # rs) used = (if unat r < length used then mark_registers rs (used[unat r := True]) else None)"

definition mark_range :: "Reg \<times> u8 \<Rightarrow> bool list \<Rightarrow> bool list" where
  "mark_range window used =
    map (\<lambda>i. used ! i \<or> unat (fst window) \<le> i \<and> i < unat (fst window) + unat (snd window)) [0..<length used]"

fun mark_instructions :: "Instruction list \<Rightarrow> bool list \<Rightarrow> bool list option" where
  "mark_instructions [] used = Some used"
| "mark_instructions (instr # instrs) used =
    (case mark_registers (visit_registers instr) used of
       None \<Rightarrow> None
     | Some used \<Rightarrow> mark_instructions instrs (fold mark_range (instruction_ranges instr) used))"

fun assign_next :: "u16 \<Rightarrow> bool list \<Rightarrow> Reg option list" where
  "assign_next n [] = []"
| "assign_next n (b # bs) = (if b then Some n # assign_next (n + 1) bs else None # assign_next n bs)"

definition count_used :: "bool list \<Rightarrow> nat" where
  "count_used used = length (filter (\<lambda>b. b) used)"

definition compaction_remap :: "nat \<Rightarrow> bool list \<Rightarrow> Reg option list" where
  "compaction_remap parameter_count used =
    map (\<lambda>i. Some (of_nat i)) [0..<parameter_count] @ assign_next (of_nat parameter_count) (drop parameter_count used)"

definition compact_registers :: "BytecodeFunction \<Rightarrow> BytecodeFunction option" where
  "compact_registers func =
    (let parameter_count = unat (bf_param_count func); register_count = frame_registers func;
         local_end = parameter_count + unat (bf_local_count func) in
     case mark_instructions (bf_instructions func) (replicate parameter_count True @ replicate (register_count - parameter_count) False) of
       None \<Rightarrow> None
     | Some used \<Rightarrow>
         (case those (map (remap_instruction_registers (compaction_remap parameter_count used)) (bf_instructions func)) of
            None \<Rightarrow> None
          | Some instrs \<Rightarrow>
              Some (func\<lparr>bf_instructions := instrs,
                         bf_local_count := of_nat (count_used (drop parameter_count (take local_end used))),
                         bf_temp_count := of_nat (count_used (drop local_end used))\<rparr>)))"

section \<open>What compaction does\<close>

text \<open>An instruction whose registers and ranges lie in the first \<open>n\<close> registers.\<close>

definition registers_fit :: "nat \<Rightarrow> Instruction \<Rightarrow> bool" where
  "registers_fit n instr \<longleftrightarrow>
    list_all (\<lambda>r. unat r < n) (visit_registers instr) \<and> list_all (\<lambda>(s, c). unat s + unat c \<le> n) (instruction_ranges instr)"

lemma mark_registers_ok:
  "\<forall>r \<in> set rs. unat r < length used \<Longrightarrow>
   \<exists>used'. mark_registers rs used = Some used' \<and> length used' = length used \<and>
     (\<forall>i < length used. used' ! i \<longleftrightarrow> used ! i \<or> (\<exists>r \<in> set rs. unat r = i))"
proof (induction rs arbitrary: used)
  case (Cons r rs)
  from Cons.IH [of "used[unat r := True]"] Cons.prems obtain used' where
    u: "mark_registers rs (used[unat r := True]) = Some used'" "length used' = length used"
      "\<forall>i < length used. used' ! i \<longleftrightarrow> used[unat r := True] ! i \<or> (\<exists>r \<in> set rs. unat r = i)" by auto
  have "used' ! i \<longleftrightarrow> used ! i \<or> (\<exists>r' \<in> set (r # rs). unat r' = i)" if "i < length used" for i
    using u(3) that by (cases "i = unat r") auto
  with u Cons.prems show ?case by auto
qed auto

lemma length_mark_ranges [simp]: "length (fold mark_range ranges used) = length used"
  by (induction ranges arbitrary: used) (simp_all add: mark_range_def)

lemma mark_ranges_nth:
  "i < length used \<Longrightarrow> fold mark_range ranges used ! i \<longleftrightarrow>
    used ! i \<or> (\<exists>(s, c) \<in> set ranges. unat s \<le> i \<and> i < unat s + unat c)"
  by (induction ranges arbitrary: used) (auto simp: mark_range_def)

definition names :: "Instruction \<Rightarrow> nat \<Rightarrow> bool" where
  "names instr i \<longleftrightarrow> (\<exists>r \<in> set (visit_registers instr). unat r = i) \<or>
    (\<exists>(s, c) \<in> set (instruction_ranges instr). unat s \<le> i \<and> i < unat s + unat c)"

lemma mark_instructions_ok:
  "\<forall>instr \<in> set instrs. registers_fit (length used) instr \<Longrightarrow>
   \<exists>used'. mark_instructions instrs used = Some used' \<and> length used' = length used \<and>
     (\<forall>i < length used. used' ! i \<longleftrightarrow> used ! i \<or> (\<exists>instr \<in> set instrs. names instr i))"
proof (induction instrs arbitrary: used)
  case (Cons instr instrs)
  have "\<forall>r \<in> set (visit_registers instr). unat r < length used"
    using Cons.prems by (auto simp: registers_fit_def list_all_iff)
  from mark_registers_ok [OF this] obtain u1 where
    u1: "mark_registers (visit_registers instr) used = Some u1" "length u1 = length used"
      "\<forall>i < length used. u1 ! i \<longleftrightarrow> used ! i \<or> (\<exists>r \<in> set (visit_registers instr). unat r = i)" by blast
  let ?u2 = "fold mark_range (instruction_ranges instr) u1"
  from Cons.IH [of ?u2] Cons.prems u1(2) obtain used' where
    u': "mark_instructions instrs ?u2 = Some used'" "length used' = length used"
      "\<forall>i < length used. used' ! i \<longleftrightarrow> ?u2 ! i \<or> (\<exists>instr \<in> set instrs. names instr i)" by auto
  have "used' ! i \<longleftrightarrow> used ! i \<or> (\<exists>instr' \<in> set (instr # instrs). names instr' i)" if "i < length used" for i
    using that u'(3) u1(2,3) mark_ranges_nth [of i u1 "instruction_ranges instr"] by (auto simp: names_def)
  with u1 u' show ?case by auto
qed auto

lemma count_used_simps [simp]:
  "count_used [] = 0" "count_used (b # bs) = (if b then Suc (count_used bs) else count_used bs)"
  "count_used (xs @ ys) = count_used xs + count_used ys"
  by (simp_all add: count_used_def)

lemma length_assign_next [simp]: "length (assign_next n bs) = length bs"
  by (induction bs arbitrary: n) auto

lemma assign_next_nth: "i < length bs \<Longrightarrow> assign_next n bs ! i = (if bs ! i then Some (n + of_nat (count_used (take i bs))) else None)"
proof (induction bs arbitrary: n i)
  case (Cons b bs)
  then show ?case by (cases i) (auto simp: algebra_simps)
qed simp

text \<open>The position of a register after compaction: the number of used registers before it.\<close>

definition position_of :: "bool list \<Rightarrow> nat \<Rightarrow> nat" where
  "position_of used i = count_used (take i used)"

lemma count_used_replicate: "count_used (replicate n True) = n"
  by (induction n) auto

lemma compaction_remap_nth:
  assumes "i < length used" "used ! i" "p \<le> length used" "\<forall>k < p. used ! k"
  shows "compaction_remap p used ! i = Some (of_nat (position_of used i))"
proof (cases "i < p")
  case True
  have "take i used = replicate i True"
    using True assms(3,4) by (intro nth_equalityI) auto
  with True show ?thesis by (simp add: compaction_remap_def nth_append position_of_def count_used_replicate)
next
  case False
  have all: "take p used = replicate p True" using assms(3,4) by (intro nth_equalityI) auto
  have "take i used = take p used @ take (i - p) (drop p used)" using False by (metis le_add_diff_inverse linorder_not_le take_add)
  then have "position_of used i = p + count_used (take (i - p) (drop p used))"
    by (simp add: position_of_def all count_used_replicate)
  with False assms show ?thesis by (simp add: compaction_remap_def nth_append assign_next_nth)
qed

lemma position_Suc: "i < length used \<Longrightarrow> position_of used (Suc i) = (if used ! i then Suc (position_of used i) else position_of used i)"
  by (simp add: position_of_def take_Suc_conv_app_nth)

lemma position_mono: "i \<le> j \<Longrightarrow> position_of used i \<le> position_of used j"
proof -
  assume "i \<le> j"
  then have "take j used = take i used @ take (j - i) (drop i used)" by (metis le_add_diff_inverse take_add)
  then show ?thesis by (simp add: position_of_def)
qed

lemma position_strict: "i < j \<Longrightarrow> i < length used \<Longrightarrow> used ! i \<Longrightarrow> position_of used i < position_of used j"
  using position_mono [of "Suc i" j used] position_Suc [of i used] by simp

lemma position_range:
  "i + k \<le> length used \<Longrightarrow> \<forall>j. i \<le> j \<and> j < i + k \<longrightarrow> used ! j \<Longrightarrow> position_of used (i + k) = position_of used i + k"
  by (induction k) (simp_all add: position_Suc)

lemma position_total: "position_of used (length used) = count_used used"
  by (simp add: position_of_def)

fun is_method_call :: "Instruction \<Rightarrow> bool" where
  "is_method_call (Control (CallMethod _ _ _ _ _ _ _)) = True"
| "is_method_call _ = False"

lemma pred_positive: "Suc 0 < unat (c :: 'w::len word) \<Longrightarrow> 0 < unat (c - 1)"
  by (subst unat_minus_one) auto

lemma ranges_nonempty: "(s, c) \<in> set (instruction_ranges instr) \<Longrightarrow> 0 < unat c"
proof (cases instr)
  case (Control i)
  assume "(s, c) \<in> set (instruction_ranges instr)"
  with Control show ?thesis
    by (cases i) (auto simp: opt_range_def word_less_nat_alt pred_positive split: if_splits)
next
  case (Objects i)
  assume "(s, c) \<in> set (instruction_ranges instr)"
  with Objects show ?thesis by (cases i) (auto simp: opt_range_def word_less_nat_alt split: if_splits)
next
  case (System i)
  assume "(s, c) \<in> set (instruction_ranges instr)"
  with System show ?thesis by (cases i) (auto simp: opt_range_def word_less_nat_alt split: if_splits)
qed auto

lemma arg_registers_empty: "\<not> count > 0 \<Longrightarrow> arg_registers start count = []"
  by (simp add: arg_registers_def word_less_nat_alt)

text \<open>What the virtual machine accesses is what the optimizer visits.\<close>

lemma accessed_visited:
  assumes "\<not> is_method_call instr"
  shows "set (accessed_registers instr) =
    set (visit_registers instr) \<union> (\<Union>(s, c) \<in> set (instruction_ranges instr). set (arg_registers s c))"
proof (cases instr)
  case (Control i)
  with assms show ?thesis by (cases i) (auto simp: visit_registers_def opt_range_def arg_registers_empty)
next
  case (Objects i)
  then show ?thesis by (cases i) (auto simp: visit_registers_def opt_range_def arg_registers_empty)
next
  case (System i)
  then show ?thesis by (cases i) (auto simp: visit_registers_def opt_range_def arg_registers_empty)
qed (auto simp: visit_registers_def)

definition keeps_windows :: "(Reg \<Rightarrow> Reg) \<Rightarrow> Instruction \<Rightarrow> bool" where
  "keeps_windows f instr \<longleftrightarrow> (\<forall>(s, c) \<in> set (instruction_ranges instr). \<forall>k < unat c. f (s + of_nat k) = f s + of_nat k)"

lemma arg_registers_renamed:
  assumes "\<forall>(s, c) \<in> set (opt_range start count). \<forall>k < unat c. f (s + of_nat k) = f s + of_nat k"
  shows "arg_registers (rename_start f count start) count = map f (arg_registers start count)"
  using assms by (cases "count > 0") (auto simp: arg_registers_def rename_start_def opt_range_def word_less_nat_alt)

lemma accessed_renamed:
  assumes "\<not> is_method_call instr" "keeps_windows f instr"
  shows "accessed_registers (rename_instruction f instr) = map f (accessed_registers instr)"
proof (cases instr)
  case (Control i)
  with assms show ?thesis by (cases i) (auto simp: keeps_windows_def arg_registers_renamed)
next
  case (Objects i)
  with assms show ?thesis by (cases i) (auto simp: keeps_windows_def arg_registers_renamed)
next
  case (System i)
  with assms show ?thesis by (cases i) (auto simp: keeps_windows_def arg_registers_renamed)
qed auto

lemma those_map: "\<forall>x \<in> set xs. f x = Some (g x) \<Longrightarrow> those (map f xs) = Some (map g xs)"
  by (induction xs) auto

lemma looked_up_named: "r \<in> set (looked_up instr) \<Longrightarrow> names instr (unat r)"
  using ranges_nonempty [of _ _ instr] by (fastforce simp: looked_up_def names_def)

definition named :: "BytecodeFunction \<Rightarrow> Reg \<Rightarrow> bool" where
  "named func r \<longleftrightarrow> unat r < unat (bf_param_count func) \<or> (\<exists>instr \<in> set (bf_instructions func). names instr (unat r))"

text \<open>The used registers that the compaction computes.\<close>

lemma compaction_used:
  assumes "\<forall>instr \<in> set (bf_instructions func). registers_fit (frame_registers func) instr"
  obtains used where
    "mark_instructions (bf_instructions func) (replicate (unat (bf_param_count func)) True @
       replicate (frame_registers func - unat (bf_param_count func)) False) = Some used"
    "length used = frame_registers func"
    "\<And>i. i < frame_registers func \<Longrightarrow> used ! i \<longleftrightarrow> i < unat (bf_param_count func) \<or> (\<exists>instr \<in> set (bf_instructions func). names instr i)"
proof -
  let ?init = "replicate (unat (bf_param_count func)) True @ replicate (frame_registers func - unat (bf_param_count func)) False"
  have len: "length ?init = frame_registers func" by (simp add: frame_registers_def)
  have init: "?init ! i \<longleftrightarrow> i < unat (bf_param_count func)" if "i < frame_registers func" for i
    using that by (auto simp: nth_append)
  from mark_instructions_ok [of "bf_instructions func" ?init] assms len that init show ?thesis by auto
qed

lemma names_bound: "registers_fit n instr \<Longrightarrow> names instr i \<Longrightarrow> i < n"
  by (auto simp: registers_fit_def names_def list_all_iff)

text \<open>A table that gives every named register its position renames every instruction, and keeps the argument windows.\<close>

definition compaction :: "BytecodeFunction \<Rightarrow> bool list \<Rightarrow> bool" where
  "compaction func used \<longleftrightarrow>
    (\<forall>instr \<in> set (bf_instructions func). registers_fit (frame_registers func) instr) \<and>
    frame_registers func < 2 ^ 16 \<and> length used = frame_registers func \<and>
    (\<forall>i < frame_registers func.
       used ! i \<longleftrightarrow> i < unat (bf_param_count func) \<or> (\<exists>instr \<in> set (bf_instructions func). names instr i))"

abbreviation remap_of :: "BytecodeFunction \<Rightarrow> bool list \<Rightarrow> Reg \<Rightarrow> Reg option" where
  "remap_of func used \<equiv> lookup_remap (compaction_remap (unat (bf_param_count func)) used)"

lemma compactionD:
  assumes "compaction func used"
  shows "\<And>instr. instr \<in> set (bf_instructions func) \<Longrightarrow> registers_fit (frame_registers func) instr"
    and "frame_registers func < 2 ^ 16" and "length used = frame_registers func"
    and "\<And>i. i < frame_registers func \<Longrightarrow>
      used ! i \<longleftrightarrow> i < unat (bf_param_count func) \<or> (\<exists>instr \<in> set (bf_instructions func). names instr i)"
    and "unat (bf_param_count func) \<le> length used"
  using assms by (auto simp: compaction_def frame_registers_def)

lemma named_used: "compaction func used \<Longrightarrow> named func r \<Longrightarrow> unat r < length used \<and> used ! unat r"
  using compactionD(1) [of func used] compactionD(3,4,5) [of func used] names_bound [of "frame_registers func"]
  by (fastforce simp: named_def)

lemma used_parameter: "compaction func used \<Longrightarrow> k < unat (bf_param_count func) \<Longrightarrow> used ! k"
  using compactionD(3,4,5) [of func used] by auto

lemma prefix_parameters: "compaction func used \<Longrightarrow> n \<le> unat (bf_param_count func) \<Longrightarrow> take n used = replicate n True"
  using compactionD(5) [of func used] used_parameter [of func used] by (intro nth_equalityI) auto

lemma lookup_named:
  assumes c: "compaction func used" and "named func r"
  shows "remap_of func used r = Some (of_nat (position_of used (unat r)))"
proof -
  have "\<forall>k < unat (bf_param_count func). used ! k" using used_parameter [OF c] by blast
  with compaction_remap_nth [of "unat r" used "unat (bf_param_count func)"] named_used [OF assms] compactionD(5) [OF c]
  show ?thesis by (simp add: lookup_remap_def list_get_def compaction_remap_def)
qed

lemma position_bound: "compaction func used \<Longrightarrow> named func r \<Longrightarrow> position_of used (unat r) < count_used used"
  using position_strict [of "unat r" "length used" used] named_used position_total by simp

lemma count_bound: "compaction func used \<Longrightarrow> count_used used \<le> frame_registers func"
  using compactionD(3) by (metis count_used_def length_filter_le)

lemma unat_position:
  "compaction func used \<Longrightarrow> named func r \<Longrightarrow> unat (of_nat (position_of used (unat r)) :: Reg) = position_of used (unat r)"
  using position_bound [of func used r] count_bound [of func used] compactionD(2) [of func used]
  by (simp add: unat_of_nat)

lemma renamed_all:
  assumes c: "compaction func used"
  shows "those (map (remap_instruction_registers (compaction_remap (unat (bf_param_count func)) used)) (bf_instructions func)) =
    Some (map (rename_instruction (\<lambda>r. the (remap_of func used r))) (bf_instructions func))"
proof (rule those_map, rule ballI)
  fix instr assume "instr \<in> set (bf_instructions func)"
  then have "remap_of func used r \<noteq> None" if "r \<in> set (looked_up instr)" for r
    using looked_up_named [OF that] lookup_named [OF c, of r] by (auto simp: named_def)
  then show "remap_instruction_registers (compaction_remap (unat (bf_param_count func)) used) instr =
    Some (rename_instruction (\<lambda>r. the (remap_of func used r)) instr)"
    by (simp add: remap_instruction_registers_def list_all_iff)
qed

lemma windows_kept:
  assumes cp: "compaction func used" and instr: "instr \<in> set (bf_instructions func)"
  shows "keeps_windows (\<lambda>r. the (remap_of func used r)) instr"
  unfolding keeps_windows_def
proof (intro ballI, clarify)
  fix s c k assume range: "(s, c) \<in> set (instruction_ranges instr)" and k: "k < unat c"
  from compactionD(1) [OF cp instr] range have bound: "unat s + unat c \<le> frame_registers func"
    by (auto simp: registers_fit_def list_all_iff)
  then have sum: "unat (s + of_nat j) = unat s + j" if "j < unat c" for j
    using that compactionD(2) [OF cp] by (simp add: unat_word_ariths unat_of_nat)
  have nm: "named func (s + of_nat j)" if "j < unat c" for j
  proof -
    have "names instr (unat (s + of_nat j))" unfolding names_def sum [OF that] using range that by force
    with instr show ?thesis by (auto simp: named_def)
  qed
  have "used ! j" if "unat s \<le> j" "j < unat s + k" for j
    using named_used [OF cp nm [of "j - unat s"]] sum [of "j - unat s"] that k by auto
  then have "position_of used (unat s + k) = position_of used (unat s) + k"
    using position_range [of "unat s" k used] bound k compactionD(3) [OF cp] by auto
  then show "the (remap_of func used (s + of_nat k)) = the (remap_of func used s) + of_nat k"
    using lookup_named [OF cp nm [OF k]] lookup_named [OF cp nm [of 0]] sum [OF k] k by auto
qed

lemma compacted_size:
  assumes c: "compaction func used"
  shows "unat (bf_param_count func) + count_used (drop (unat (bf_param_count func)) (take (unat (bf_param_count func) + unat (bf_local_count func)) used)) +
     count_used (drop (unat (bf_param_count func) + unat (bf_local_count func)) used) = count_used used"
proof -
  let ?p = "unat (bf_param_count func)" and ?l = "unat (bf_local_count func)"
  have p: "count_used (take ?p used) = ?p" using prefix_parameters [OF c] by (simp add: count_used_replicate)
  have "count_used used = count_used (take (?p + ?l) used) + count_used (drop (?p + ?l) used)"
    by (metis append_take_drop_id count_used_simps(3))
  moreover have "count_used (take (?p + ?l) used) = count_used (take ?p used) + count_used (drop ?p (take (?p + ?l) used))"
    by (metis append_take_drop_id count_used_simps(3) min.absorb1 le_add1 take_take)
  ultimately show ?thesis using p by simp
qed

lemma keeps_parameters:
  "compaction func used \<Longrightarrow> unat r < unat (bf_param_count func) \<Longrightarrow> position_of used (unat r) = unat r"
  using prefix_parameters [of func used "unat r"] by (simp add: position_of_def count_used_replicate)

lemma injective_on_named:
  assumes "compaction func used" "named func r" "named func r'" "position_of used (unat r) = position_of used (unat r')"
  shows "r = r'"
  using assms named_used position_strict by (metis linorder_neqE_nat order_less_irrefl word_unat_eq_iff)

lemma compact_registers_frame:
  assumes c: "compaction func used"
    and m: "mark_instructions (bf_instructions func) (replicate (unat (bf_param_count func)) True @
       replicate (frame_registers func - unat (bf_param_count func)) False) = Some used"
  obtains func' where "compact_registers func = Some func'"
    "bf_instructions func' = map (rename_instruction (\<lambda>r. the (remap_of func used r))) (bf_instructions func)"
    "bf_param_count func' = bf_param_count func" "frame_registers func' = count_used used"
proof -
  let ?p = "unat (bf_param_count func)" and ?l = "unat (bf_local_count func)"
  have le: "count_used used < 2 ^ 16" using count_bound [OF c] compactionD(2) [OF c] by simp
  from compacted_size [OF c] le
  have "unat (of_nat (count_used (drop ?p (take (?p + ?l) used))) :: u16) = count_used (drop ?p (take (?p + ?l) used))"
    "unat (of_nat (count_used (drop (?p + ?l) used)) :: u16) = count_used (drop (?p + ?l) used)"
    by (simp_all add: unat_of_nat)
  with compacted_size [OF c] show ?thesis
    by (intro that [of "func\<lparr>bf_instructions := map (rename_instruction (\<lambda>r. the (remap_of func used r))) (bf_instructions func),
        bf_local_count := of_nat (count_used (drop ?p (take (?p + ?l) used))),
        bf_temp_count := of_nat (count_used (drop (?p + ?l) used))\<rparr>"])
      (simp_all add: compact_registers_def Let_def m renamed_all [OF c], simp add: frame_registers_def)
qed

section \<open>Compaction is a renaming\<close>

text \<open>
  C14 (compaction renames registers): for a function all of whose registers and windows lie in its frame of fewer than
  \<open>2 ^ 16\<close> registers, \<open>compact_registers\<close> succeeds; one renaming takes every instruction to its compacted form, leaves the
  parameters alone, never merges two registers that the function names, takes them into a frame that is no larger, and keeps every
  window that the optimizer takes an instruction to have contiguous.  Every instruction but a method call accesses, after
  compaction, exactly the renamed registers, argument windows included.  For a method call the window that the optimizer takes is
  \<open>arg_count - 1\<close> registers from \<open>args_start\<close>, while the call reads its arguments from \<open>args_start + 1\<close> on: its last argument
  register is neither kept nor moved with the others.
\<close>

theorem compaction_renames:
  assumes "\<forall>instr \<in> set (bf_instructions func). registers_fit (frame_registers func) instr"
    and "frame_registers func < 2 ^ 16"
  shows "\<exists>func' rename. compact_registers func = Some func' \<and>
    bf_instructions func' = map (rename_instruction rename) (bf_instructions func) \<and>
    bf_param_count func' = bf_param_count func \<and> frame_registers func' \<le> frame_registers func \<and>
    (\<forall>r. unat r < unat (bf_param_count func) \<longrightarrow> rename r = r) \<and>
    (\<forall>r. named func r \<longrightarrow> unat (rename r) < frame_registers func') \<and>
    (\<forall>r r'. named func r \<and> named func r' \<and> rename r = rename r' \<longrightarrow> r = r') \<and>
    (\<forall>instr \<in> set (bf_instructions func). keeps_windows rename instr) \<and>
    (\<forall>instr \<in> set (bf_instructions func). \<not> is_method_call instr \<longrightarrow>
       accessed_registers (rename_instruction rename instr) = map rename (accessed_registers instr))"
proof -
  from compaction_used [OF assms(1)] obtain used where
    m: "mark_instructions (bf_instructions func) (replicate (unat (bf_param_count func)) True @
       replicate (frame_registers func - unat (bf_param_count func)) False) = Some used"
    and u: "length used = frame_registers func"
      "\<And>i. i < frame_registers func \<Longrightarrow> used ! i \<longleftrightarrow>
        i < unat (bf_param_count func) \<or> (\<exists>instr \<in> set (bf_instructions func). names instr i)" by blast
  have c: "compaction func used" using assms u by (simp add: compaction_def)
  let ?f = "\<lambda>r. the (remap_of func used r)"
  from compact_registers_frame [OF c m] obtain func' where
    f': "compact_registers func = Some func'" "bf_instructions func' = map (rename_instruction ?f) (bf_instructions func)"
      "bf_param_count func' = bf_param_count func" "frame_registers func' = count_used used" .
  have at: "?f r = of_nat (position_of used (unat r)) \<and> unat (?f r) = position_of used (unat r)" if "named func r" for r
    using lookup_named [OF c that] unat_position [OF c that] by simp
  have "?f r = r" if "unat r < unat (bf_param_count func)" for r
    using at [of r] keeps_parameters [OF c that] that by (simp add: named_def)
  moreover have "unat (?f r) < frame_registers func'" if "named func r" for r
    using at [OF that] position_bound [OF c that] f'(4) by metis
  moreover have "r = r'" if "named func r" "named func r'" "?f r = ?f r'" for r r'
    using at [OF that(1)] at [OF that(2)] that(3) injective_on_named [OF c that(1,2)] by metis
  moreover have "accessed_registers (rename_instruction ?f instr) = map ?f (accessed_registers instr)"
    if "instr \<in> set (bf_instructions func)" "\<not> is_method_call instr" for instr
    using accessed_renamed [OF that(2) windows_kept [OF c that(1)]] .
  ultimately show ?thesis using f' count_bound [OF c] windows_kept [OF c] by (intro exI [of _ func'] exI [of _ ?f]) simp
qed

definition wasteful_function :: BytecodeFunction where
  "wasteful_function = \<lparr>bf_name = [], bf_param_count = 1, bf_local_count = 4, bf_temp_count = 3, bf_return_ty = 0,
     bf_adapter_proxy_metadata = None, bf_instructions = [Control (Call 5 0 2 2), Control (Ret 5)]\<rparr>"

theorem compaction_renames_witness:
  "\<exists>func' rename. compact_registers wasteful_function = Some func' \<and> frame_registers func' \<le> 8 \<and> rename 0 = 0 \<and>
     bf_instructions func' = map (rename_instruction rename) [Control (Call 5 0 2 2), Control (Ret 5)] \<and>
     accessed_registers (rename_instruction rename (Control (Call 5 0 2 2))) = map rename [5, 2, 3]"
proof -
  have h: "\<forall>instr \<in> set (bf_instructions wasteful_function). registers_fit (frame_registers wasteful_function) instr" by code_simp
  have n: "frame_registers wasteful_function < 2 ^ 16" by (simp add: wasteful_function_def frame_registers_def)
  have "accessed_registers (Control (Call 5 0 2 2)) = [5, 2, 3]" by code_simp
  moreover have "bf_instructions wasteful_function = [Control (Call 5 0 2 2), Control (Ret 5)]"
    "frame_registers wasteful_function = 8" "unat (0 :: Reg) < unat (bf_param_count wasteful_function)"
    "\<not> is_method_call (Control (Call 5 0 2 2))"
    by (simp_all add: wasteful_function_def frame_registers_def)
  moreover from compaction_renames [OF h n] obtain func' rename where
    "compact_registers wasteful_function = Some func'" "frame_registers func' \<le> frame_registers wasteful_function"
    "bf_instructions func' = map (rename_instruction rename) (bf_instructions wasteful_function)"
    "\<forall>r. unat r < unat (bf_param_count wasteful_function) \<longrightarrow> rename r = r"
    "\<forall>instr \<in> set (bf_instructions wasteful_function). \<not> is_method_call instr \<longrightarrow>
       accessed_registers (rename_instruction rename instr) = map rename (accessed_registers instr)" by auto
  ultimately show ?thesis by (intro exI [of _ func'] exI [of _ rename]) (metis list.set_intros(1))
qed

end
