(* ===== verification/Opt_Liveness.thy ===== *)
theory Opt_Liveness
  imports Opt_Control Opt_Registers
begin

text \<open>
  Basic blocks, liveness and live intervals: \<open>build_cfg\<close>, \<open>compute_liveness\<close> and \<open>compute_intervals\<close> of
  \<^verbatim>\<open>galfus-workspace/src/workspace/optimizer/liveness.rs\<close>.

  The sets of live registers are lists of truth values of the length of the frame, as in the source.  An index outside the
  frame panics there; here it makes the analysis fail.
\<close>

section \<open>Basic blocks\<close>

record BasicBlock =
  bb_start :: nat
  bb_end :: nat
  bb_predecessors :: "nat list"
  bb_successors :: "nat list"
  bb_live_in :: "bool list"
  bb_live_out :: "bool list"

definition mark_leader :: "nat \<Rightarrow> bool list \<Rightarrow> bool list" where
  "mark_leader i leaders = (if i < length leaders then leaders[i := True] else leaders)"

definition leaders_of :: "nat \<Rightarrow> Instruction \<Rightarrow> bool list \<Rightarrow> bool list" where
  "leaders_of i instr leaders =
    (case jump_offset instr of
       Some offset \<Rightarrow> mark_leader (i + 1) (mark_leader (cast_target i offset) leaders)
     | None \<Rightarrow> if is_terminal instr then mark_leader (i + 1) leaders else leaders)"

definition leaders :: "Instruction list \<Rightarrow> bool list" where
  "leaders code =
    fold (\<lambda>i. leaders_of i (code ! i)) [0..<length code] (mark_leader 0 (replicate (length code) False))"

text \<open>The loop over the leaders after the first; \<open>i\<close> is the index of the next flag.\<close>

fun cut_blocks :: "bool list \<Rightarrow> nat \<Rightarrow> nat \<Rightarrow> (nat \<times> nat) list" where
  "cut_blocks [] current_start i = (if current_start < i then [(current_start, i)] else [])"
| "cut_blocks (b # bs) current_start i =
    (if b then (current_start, i) # cut_blocks bs i (i + 1) else cut_blocks bs current_start (i + 1))"

definition block_ranges :: "Instruction list \<Rightarrow> (nat \<times> nat) list" where
  "block_ranges code = (case leaders code of [] \<Rightarrow> [] | _ # ls \<Rightarrow> cut_blocks ls 0 1)"

definition edge_target :: "nat \<Rightarrow> u32 \<Rightarrow> nat" where
  "edge_target block_end offset = unat (scast (of_nat block_end + offset :: u32) :: usize)"

definition block_edges :: "Instruction list \<Rightarrow> nat \<Rightarrow> nat list" where
  "block_edges code block_end =
    (let last_inst = code ! (block_end - 1);
         fall = (if block_end < length code then [block_end] else []) in
     case last_inst of
       Jump offset \<Rightarrow> [edge_target block_end offset]
     | _ \<Rightarrow>
         (case jump_offset last_inst of
            Some offset \<Rightarrow> edge_target block_end offset # fall
          | None \<Rightarrow> if is_terminal last_inst then [] else fall))"

fun position_from :: "nat \<Rightarrow> (nat \<times> nat) list \<Rightarrow> nat \<Rightarrow> nat option" where
  "position_from k [] target = None"
| "position_from k ((s, e) # ranges) target = (if s = target then Some k else position_from (k + 1) ranges target)"

definition block_successors :: "Instruction list \<Rightarrow> nat \<times> nat \<Rightarrow> nat list" where
  "block_successors code extent =
    concat (map (\<lambda>target. case position_from 0 (block_ranges code) target of Some to \<Rightarrow> [to] | None \<Rightarrow> []) (block_edges code (snd extent)))"

definition block_predecessors :: "Instruction list \<Rightarrow> nat \<Rightarrow> nat list" where
  "block_predecessors code to =
    concat (map (\<lambda>(from, extent). map (\<lambda>_. from) (filter (\<lambda>k. k = to) (block_successors code extent))) (enumerate 0 (block_ranges code)))"

definition build_cfg :: "Instruction list \<Rightarrow> nat \<Rightarrow> BasicBlock list" where
  "build_cfg code register_count =
    map (\<lambda>(k, extent). \<lparr>bb_start = fst extent, bb_end = snd extent,
           bb_predecessors = block_predecessors code k, bb_successors = block_successors code extent,
           bb_live_in = replicate register_count False, bb_live_out = replicate register_count False\<rparr>)
      (enumerate 0 (block_ranges code))"

section \<open>Liveness\<close>

definition window_registers :: "Instruction \<Rightarrow> Reg list" where
  "window_registers instr = concat (map (\<lambda>(s, c). arg_registers s c) (instruction_ranges instr))"

definition used_registers :: "Instruction \<Rightarrow> Reg list" where
  "used_registers instr = instruction_uses instr @ window_registers instr"

definition set_all :: "bool \<Rightarrow> Reg list \<Rightarrow> bool list \<Rightarrow> bool list" where
  "set_all b rs live = fold (\<lambda>r l. l[unat r := b]) rs live"

definition transfer :: "Instruction \<Rightarrow> bool list \<Rightarrow> bool list" where
  "transfer instr live =
    set_all True (window_registers instr) (set_all True (instruction_uses instr) (set_all False (instruction_defs instr) live))"

definition transfer_range :: "Instruction list \<Rightarrow> nat \<Rightarrow> nat \<Rightarrow> bool list \<Rightarrow> bool list" where
  "transfer_range code first limit live = fold (\<lambda>i. transfer (code ! i)) (rev [first..<limit]) live"

definition live_out_of :: "BasicBlock list \<Rightarrow> nat \<Rightarrow> BasicBlock \<Rightarrow> bool list" where
  "live_out_of blocks register_count block =
    map (\<lambda>r. list_ex (\<lambda>succ_idx. bb_live_in (blocks ! succ_idx) ! r) (bb_successors block)) [0..<register_count]"

definition update_block :: "Instruction list \<Rightarrow> nat \<Rightarrow> nat \<Rightarrow> BasicBlock list \<times> bool \<Rightarrow> BasicBlock list \<times> bool" where
  "update_block code register_count i state =
    (let blocks = fst state; block = blocks ! i; live_out = live_out_of blocks register_count block;
         live = transfer_range code (bb_start block) (bb_end block) live_out in
     (blocks[i := block\<lparr>bb_live_in := live, bb_live_out := live_out\<rparr>], snd state \<or> live \<noteq> bb_live_in block))"

definition liveness_pass :: "Instruction list \<Rightarrow> nat \<Rightarrow> BasicBlock list \<Rightarrow> BasicBlock list \<times> bool" where
  "liveness_pass code register_count blocks =
    fold (update_block code register_count) (rev [0..<length blocks]) (blocks, False)"

text \<open>The loop repeats until a pass changes nothing.  \<open>None\<close> would be a loop without end.\<close>

partial_function (option) liveness_loop :: "Instruction list \<Rightarrow> nat \<Rightarrow> BasicBlock list \<Rightarrow> BasicBlock list option" where
  "liveness_loop code register_count blocks =
    (case liveness_pass code register_count blocks of (blocks', changed) \<Rightarrow>
       if changed then liveness_loop code register_count blocks' else Some blocks')"

declare liveness_loop.simps [code]

text \<open>Every instruction lies in a block, so that the first pass indexes with every register of the code.\<close>

definition registers_indexed :: "nat \<Rightarrow> Instruction \<Rightarrow> bool" where
  "registers_indexed n instr = list_all (\<lambda>r. unat r < n) (instruction_defs instr @ used_registers instr)"

definition compute_liveness :: "BasicBlock list \<Rightarrow> Instruction list \<Rightarrow> nat \<Rightarrow> BasicBlock list option" where
  "compute_liveness blocks code register_count =
    (if list_all (registers_indexed register_count) code then liveness_loop code register_count blocks else None)"

section \<open>Intervals\<close>

definition update_interval :: "nat \<Rightarrow> nat \<Rightarrow> (nat \<times> nat) option list \<Rightarrow> (nat \<times> nat) option list" where
  "update_interval inst_idx register intervals =
    intervals[register := Some (case intervals ! register of Some (s, e) \<Rightarrow> (min s inst_idx, max e inst_idx) | None \<Rightarrow> (inst_idx, inst_idx))]"

definition live_indices :: "bool list \<Rightarrow> nat list" where
  "live_indices live = filter (\<lambda>r. live ! r) [0..<length live]"

definition interval_step ::
  "Instruction list \<Rightarrow> nat \<Rightarrow> bool list \<times> (nat \<times> nat) option list \<Rightarrow> bool list \<times> (nat \<times> nat) option list" where
  "interval_step code i state =
    (let instr = code ! i; live = transfer instr (fst state) in
     (live, fold (update_interval i) (live_indices live)
        (fold (\<lambda>r. update_interval i (unat r)) (instruction_defs instr @ used_registers instr) (snd state))))"

definition block_intervals :: "Instruction list \<Rightarrow> BasicBlock \<Rightarrow> (nat \<times> nat) option list \<Rightarrow> (nat \<times> nat) option list" where
  "block_intervals code block intervals =
    snd (fold (interval_step code) (rev [bb_start block..<bb_end block])
      (bb_live_out block, fold (update_interval (bb_end block - 1)) (live_indices (bb_live_out block)) intervals))"

definition compute_intervals :: "BasicBlock list \<Rightarrow> Instruction list \<Rightarrow> nat \<Rightarrow> (nat \<times> nat) option list" where
  "compute_intervals blocks code register_count = fold (block_intervals code) blocks (replicate register_count None)"

end
