(* ===== verification/Opt_Liveness_Props.thy ===== *)
theory Opt_Liveness_Props
  imports Opt_Liveness
begin

text \<open>
  Soundness of the liveness analysis: the loop ends, its result is a fixed point of the data-flow equations, and the interval
  of a register covers every instruction before which the register is live, every instruction that defines it and every
  instruction that uses it.
\<close>

section \<open>Flow of control\<close>

text \<open>The instructions that can follow an instruction.\<close>

definition flow :: "Instruction list \<Rightarrow> nat \<Rightarrow> nat list" where
  "flow code i =
    filter (\<lambda>j. j < length code)
      (case code ! i of
         Jump offset \<Rightarrow> [cast_target i offset]
       | _ \<Rightarrow>
           (case jump_offset (code ! i) of
              Some offset \<Rightarrow> [cast_target i offset, i + 1]
            | None \<Rightarrow> if is_terminal (code ! i) then [] else [i + 1]))"

text \<open>A register is live when some path uses it before it is defined.\<close>

inductive live_at :: "Instruction list \<Rightarrow> nat \<Rightarrow> Reg \<Rightarrow> bool" for code where
  used: "i < length code \<Longrightarrow> r \<in> set (used_registers (code ! i)) \<Longrightarrow> live_at code i r"
| passed: "i < length code \<Longrightarrow> r \<notin> set (instruction_defs (code ! i)) \<Longrightarrow> j \<in> set (flow code i) \<Longrightarrow> live_at code j r \<Longrightarrow> live_at code i r"

inductive_cases live_atE: "live_at code i r"

lemma length_mark_leader [simp]: "length (mark_leader i ls) = length ls"
  by (simp add: mark_leader_def)

lemma mark_leader_nth: "j < length ls \<Longrightarrow> mark_leader i ls ! j \<longleftrightarrow> ls ! j \<or> i = j"
  by (auto simp: mark_leader_def nth_list_update)

lemma length_leaders_of [simp]: "length (leaders_of i instr ls) = length ls"
  by (auto simp: leaders_of_def split: option.splits)

lemma leaders_of_nth:
  "j < length ls \<Longrightarrow> leaders_of i instr ls ! j \<longleftrightarrow>
    ls ! j \<or> (\<exists>offset. jump_offset instr = Some offset \<and> (j = i + 1 \<or> j = cast_target i offset)) \<or>
    jump_offset instr = None \<and> is_terminal instr \<and> j = i + 1"
  by (auto simp: leaders_of_def mark_leader_nth split: option.splits)

lemma fold_leaders:
  "length (fold (\<lambda>i. leaders_of i (code ! i)) is ls) = length ls \<and>
   (\<forall>j < length ls. fold (\<lambda>i. leaders_of i (code ! i)) is ls ! j \<longleftrightarrow> ls ! j \<or> (\<exists>i \<in> set is. leaders_of i (code ! i) (replicate (length ls) False) ! j))"
proof (induction "is" arbitrary: ls)
  case (Cons i "is")
  from Cons.IH [of "leaders_of i (code ! i) ls"] show ?case by (auto simp: leaders_of_nth)
qed auto

lemma length_leaders [simp]: "length (leaders code) = length code"
  by (simp add: leaders_def fold_leaders)

lemma leaders_nth:
  "j < length code \<Longrightarrow> leaders code ! j \<longleftrightarrow> j = 0 \<or> (\<exists>i < length code. leaders_of i (code ! i) (replicate (length code) False) ! j)"
  using fold_leaders [of code "[0..<length code]" "mark_leader 0 (replicate (length code) False)"]
  by (auto simp: leaders_def mark_leader_nth)

text \<open>The first instruction, targets of jumps and the instructions after jumps and returns begin a block.\<close>

lemma leader_target: "i < length code \<Longrightarrow> jump_offset (code ! i) = Some offset \<Longrightarrow> cast_target i offset < length code \<Longrightarrow> leaders code ! cast_target i offset"
  by (auto simp: leaders_nth leaders_of_nth)

lemma leader_next:
  "i + 1 < length code \<Longrightarrow> jump_offset (code ! i) \<noteq> None \<or> is_terminal (code ! i) \<Longrightarrow> leaders code ! (i + 1)"
  by (cases "jump_offset (code ! i)") (auto simp: leaders_nth leaders_of_nth intro!: exI [of _ i])

section \<open>Blocks\<close>

lemma cut_blocks_ranges:
  "(s, e) \<in> set (cut_blocks bs start i) \<Longrightarrow> start < i \<Longrightarrow>
    start \<le> s \<and> s < e \<and> i \<le> e \<and> e \<le> i + length bs \<and> (e < i + length bs \<longrightarrow> bs ! (e - i)) \<and> (\<forall>j. s < j \<and> j < e \<and> i \<le> j \<longrightarrow> \<not> bs ! (j - i))"
proof (induction bs start i rule: cut_blocks.induct)
  case (2 b bs start i)
  show ?case
  proof (cases "b \<and> (s, e) = (start, i)")
    case True
    with 2 show ?thesis by auto
  next
    case False
    let ?start = "if b then i else start"
    have "(s, e) \<in> set (cut_blocks bs ?start (i + 1))" using 2(3) False by (auto split: if_splits)
    with 2 have r: "?start \<le> s \<and> s < e \<and> i + 1 \<le> e \<and> e \<le> i + 1 + length bs \<and> (e < i + 1 + length bs \<longrightarrow> bs ! (e - (i + 1))) \<and>
        (\<forall>j. s < j \<and> j < e \<and> i + 1 \<le> j \<longrightarrow> \<not> bs ! (j - (i + 1)))"
      by (auto split: if_splits)
    have "\<not> (b # bs) ! (j - i)" if "s < j" "j < e" "i \<le> j" for j
      using r that by (cases "j = i") (auto simp: nth_Cons' split: if_splits)
    with r 2(4) show ?thesis by (auto simp: nth_Cons' split: if_splits)
  qed
qed (auto split: if_splits)

lemma cut_blocks_cover:
  "start < i \<Longrightarrow> start \<le> j \<Longrightarrow> j < i + length bs \<Longrightarrow> \<exists>(s, e) \<in> set (cut_blocks bs start i). s \<le> j \<and> j < e"
proof (induction bs start i rule: cut_blocks.induct)
  case (2 b bs start i)
  then show ?case by (cases b; cases "j < i") auto
qed auto

lemma cut_blocks_starts:
  "start < i \<Longrightarrow> j = start \<or> i \<le> j \<and> j < i + length bs \<and> bs ! (j - i) \<Longrightarrow> \<exists>e. (j, e) \<in> set (cut_blocks bs start i)"
proof (induction bs start i rule: cut_blocks.induct)
  case (2 b bs start i)
  then show ?case by (cases b; cases "j = i") (auto simp: nth_Cons' split: if_splits)
qed auto

lemma block_ranges_eq: "code \<noteq> [] \<Longrightarrow> block_ranges code = cut_blocks (tl (leaders code)) 0 1"
  using length_leaders [of code] by (cases "leaders code") (auto simp: block_ranges_def)

lemma block_range:
  assumes "(s, e) \<in> set (block_ranges code)"
  shows "s < e" "e \<le> length code" "\<And>j. s < j \<Longrightarrow> j < e \<Longrightarrow> \<not> leaders code ! j" "e < length code \<Longrightarrow> leaders code ! e"
proof -
  have c: "code \<noteq> []" using assms by (auto simp: block_ranges_def leaders_def mark_leader_def)
  then have tl: "tl (leaders code) ! k = leaders code ! Suc k" if "Suc k < length code" for k
    using length_leaders [of code] that by (simp add: nth_tl)
  from cut_blocks_ranges [of s e "tl (leaders code)" 0 1] assms c length_leaders [of code]
  have r: "s < e" "e \<le> length code" "\<And>j. s < j \<Longrightarrow> j < e \<Longrightarrow> \<not> tl (leaders code) ! (j - 1)"
    "e < length code \<Longrightarrow> tl (leaders code) ! (e - 1)" by (auto simp: block_ranges_eq)
  show "s < e" "e \<le> length code" using r by auto
  show "\<not> leaders code ! j" if "s < j" "j < e" for j using r(2) r(3) [of j] tl [of "j - 1"] that by auto
  show "leaders code ! e" if "e < length code" using r(1,4) tl [of "e - 1"] that by auto
qed

lemma block_cover: "i < length code \<Longrightarrow> \<exists>(s, e) \<in> set (block_ranges code). s \<le> i \<and> i < e"
  using cut_blocks_cover [of 0 1 i "tl (leaders code)"] by (cases "code = []") (auto simp: block_ranges_eq)

lemma block_starts: "j < length code \<Longrightarrow> leaders code ! j \<Longrightarrow> \<exists>e. (j, e) \<in> set (block_ranges code)"
proof -
  assume j: "j < length code" "leaders code ! j"
  then have "j = 0 \<or> tl (leaders code) ! (j - 1)" by (cases j) (auto simp: nth_tl)
  with j cut_blocks_starts [of 0 1 j "tl (leaders code)"] show ?thesis
    by (cases "code = []"; cases j) (auto simp: block_ranges_eq)
qed

text \<open>Inside a block control passes to the next instruction only.\<close>

lemma flow_inside:
  assumes "(s, e) \<in> set (block_ranges code)" "s \<le> i" "i + 1 < e"
  shows "flow code i = [i + 1]"
proof -
  note b = block_range [OF assms(1)]
  have "\<not> leaders code ! (i + 1)" using b(3) assms by simp
  then have "\<not> (jump_offset (code ! i) \<noteq> None \<or> is_terminal (code ! i))"
    using leader_next [of i code] b(2) assms(3) by linarith
  with b(2) assms(3) show ?thesis by (auto simp: flow_def split: Instruction.splits)
qed

lemma edge_target_cast: "edge_target (Suc i) offset = cast_target i offset"
  by (simp add: edge_target_def cast_target_def target_word_def algebra_simps)

lemma flow_edges:
  assumes "(s, Suc i) \<in> set (block_ranges code)" "j \<in> set (flow code i)"
  shows "j \<in> set (block_edges code (Suc i))" "j < length code" "leaders code ! j"
proof -
  have i: "i < length code" using block_range(2) [OF assms(1)] by simp
  show "j < length code" using assms(2) by (simp add: flow_def)
  show "j \<in> set (block_edges code (Suc i))"
    using assms(2) by (auto simp: flow_def block_edges_def edge_target_cast Let_def split: Instruction.splits option.splits if_splits)
  show "leaders code ! j"
    using assms(2) i leader_target [OF i] leader_next [of i code] block_range(4) [OF assms(1)]
    by (auto simp: flow_def split: Instruction.splits option.splits if_splits)
qed

section \<open>The data-flow equations\<close>

lemma set_all_nth:
  "length (set_all b rs live) = length live \<and>
   (\<forall>j < length live. set_all b rs live ! j = (if \<exists>r \<in> set rs. unat r = j then b else live ! j))"
proof (induction rs arbitrary: live)
  case (Cons r rs)
  from Cons [of "live[unat r := b]"] show ?case by (auto simp: set_all_def nth_list_update)
qed (simp add: set_all_def)

lemma length_transfer [simp]: "length (transfer instr live) = length live"
  by (simp add: transfer_def set_all_nth)

lemma transfer_nth:
  "j < length live \<Longrightarrow> transfer instr live ! j \<longleftrightarrow>
    (\<exists>r \<in> set (used_registers instr). unat r = j) \<or> live ! j \<and> \<not> (\<exists>r \<in> set (instruction_defs instr). unat r = j)"
  by (auto simp: transfer_def used_registers_def set_all_nth)

lemma transfer_range_step: "i < e \<Longrightarrow> transfer_range code i e live = transfer (code ! i) (transfer_range code (Suc i) e live)"
  by (simp add: transfer_range_def upt_conv_Cons)

lemma transfer_range_empty [simp]: "transfer_range code e e live = live"
  by (simp add: transfer_range_def)

lemma length_transfer_range [simp]: "length (transfer_range code i e live) = length live"
proof -
  have "length (fold (\<lambda>i. transfer (code ! i)) is live) = length live" for "is" :: "nat list"
    by (induction "is" arbitrary: live) auto
  then show ?thesis by (simp add: transfer_range_def)
qed

definition within :: "bool list \<Rightarrow> bool list \<Rightarrow> bool" where
  "within xs ys \<longleftrightarrow> length xs = length ys \<and> (\<forall>j < length xs. xs ! j \<longrightarrow> ys ! j)"

lemma within_refl [simp]: "within xs xs"
  by (simp add: within_def)

lemma within_trans: "within xs ys \<Longrightarrow> within ys zs \<Longrightarrow> within xs zs"
  by (simp add: within_def)

lemma transfer_mono: "within xs ys \<Longrightarrow> within (transfer instr xs) (transfer instr ys)"
  by (auto simp: within_def transfer_nth)

lemma transfer_range_mono: "within xs ys \<Longrightarrow> within (transfer_range code i e xs) (transfer_range code i e ys)"
proof -
  have "within xs ys \<Longrightarrow> within (fold (\<lambda>i. transfer (code ! i)) is xs) (fold (\<lambda>i. transfer (code ! i)) is ys)" for "is" :: "nat list"
    by (induction "is" arbitrary: xs ys) (auto intro: transfer_mono)
  then show "within xs ys \<Longrightarrow> ?thesis" by (simp add: transfer_range_def)
qed

text \<open>The analysis only makes registers live; it changes nothing else of a block but what is live at its end.\<close>

definition evolves :: "nat \<Rightarrow> BasicBlock list \<Rightarrow> BasicBlock list \<Rightarrow> bool" where
  "evolves n blocks blocks' \<longleftrightarrow> length blocks' = length blocks \<and>
    (\<forall>k < length blocks. bb_start (blocks' ! k) = bb_start (blocks ! k) \<and> bb_end (blocks' ! k) = bb_end (blocks ! k) \<and>
       bb_successors (blocks' ! k) = bb_successors (blocks ! k) \<and> within (bb_live_in (blocks ! k)) (bb_live_in (blocks' ! k)))"

definition shaped :: "nat \<Rightarrow> BasicBlock list \<Rightarrow> bool" where
  "shaped n blocks \<longleftrightarrow>
    (\<forall>k < length blocks. length (bb_live_in (blocks ! k)) = n \<and> (\<forall>t \<in> set (bb_successors (blocks ! k)). t < length blocks))"

definition computed :: "Instruction list \<Rightarrow> nat \<Rightarrow> BasicBlock list \<Rightarrow> nat \<Rightarrow> bool list" where
  "computed code n blocks k =
    transfer_range code (bb_start (blocks ! k)) (bb_end (blocks ! k)) (live_out_of blocks n (blocks ! k))"

definition growing :: "Instruction list \<Rightarrow> nat \<Rightarrow> BasicBlock list \<Rightarrow> bool" where
  "growing code n blocks \<longleftrightarrow> (\<forall>k < length blocks. within (bb_live_in (blocks ! k)) (computed code n blocks k))"

definition settled :: "Instruction list \<Rightarrow> nat \<Rightarrow> BasicBlock list \<Rightarrow> nat \<Rightarrow> bool" where
  "settled code n blocks k \<longleftrightarrow> bb_live_out (blocks ! k) = live_out_of blocks n (blocks ! k) \<and> bb_live_in (blocks ! k) = computed code n blocks k"

definition dead_pairs :: "nat \<Rightarrow> BasicBlock list \<Rightarrow> (nat \<times> nat) set" where
  "dead_pairs n blocks = {(k, r). k < length blocks \<and> r < n \<and> \<not> bb_live_in (blocks ! k) ! r}"

lemma length_live_out_of [simp]: "length (live_out_of blocks n block) = n"
  by (simp add: live_out_of_def)

lemma evolves_refl: "evolves n blocks blocks"
  by (simp add: evolves_def)

lemma evolves_trans: "evolves n b1 b2 \<Longrightarrow> evolves n b2 b3 \<Longrightarrow> evolves n b1 b3"
  unfolding evolves_def using within_trans by (metis (no_types, lifting))

lemma evolves_shaped: "evolves n blocks blocks' \<Longrightarrow> shaped n blocks \<Longrightarrow> shaped n blocks'"
  by (simp add: evolves_def shaped_def within_def)

lemma evolves_dead: "evolves n blocks blocks' \<Longrightarrow> shaped n blocks \<Longrightarrow> dead_pairs n blocks' \<subseteq> dead_pairs n blocks"
  by (auto simp: evolves_def shaped_def within_def dead_pairs_def)

lemma live_out_mono:
  assumes "evolves n blocks blocks'" "shaped n blocks" "k < length blocks"
  shows "within (live_out_of blocks n (blocks ! k)) (live_out_of blocks' n (blocks' ! k))"
  using assms by (fastforce simp: within_def live_out_of_def evolves_def shaped_def list_ex_iff)

lemma computed_mono:
  "evolves n blocks blocks' \<Longrightarrow> shaped n blocks \<Longrightarrow> k < length blocks \<Longrightarrow> within (computed code n blocks k) (computed code n blocks' k)"
  using transfer_range_mono [OF live_out_mono] by (simp add: computed_def evolves_def)

lemma length_computed [simp]: "length (computed code n blocks k) = n"
  by (simp add: computed_def)

text \<open>One update, in one equation.\<close>

lemma update_block_eq:
  "update_block code n i (blocks, c) =
    (blocks[i := (blocks ! i)\<lparr>bb_live_in := computed code n blocks i, bb_live_out := live_out_of blocks n (blocks ! i)\<rparr>],
     c \<or> computed code n blocks i \<noteq> bb_live_in (blocks ! i))"
  by (simp add: update_block_def computed_def Let_def)

lemma update_evolves:
  assumes "growing code n blocks" "i < length blocks" "update_block code n i (blocks, c) = (blocks', c')"
  shows "evolves n blocks blocks'"
  using assms by (auto simp: update_block_eq evolves_def growing_def nth_list_update)

lemma update_growing:
  assumes "growing code n blocks" "shaped n blocks" "i < length blocks" "update_block code n i (blocks, c) = (blocks', c')"
  shows "growing code n blocks'"
  unfolding growing_def
proof (intro allI impI)
  note e = update_evolves [OF assms(1,3,4)]
  fix k assume "k < length blocks'"
  with e have k: "k < length blocks" by (simp add: evolves_def)
  have "within (bb_live_in (blocks' ! k)) (computed code n blocks k)"
    using assms k by (cases "k = i") (auto simp: update_block_eq growing_def)
  with computed_mono [OF e assms(2) k] show "within (bb_live_in (blocks' ! k)) (computed code n blocks' k)"
    using within_trans by blast
qed

lemma update_dead:
  assumes "growing code n blocks" "shaped n blocks" "i < length blocks" "update_block code n i (blocks, c) = (blocks', c')" "c' \<noteq> c"
  shows "dead_pairs n blocks' \<subset> dead_pairs n blocks"
proof -
  from assms(1,3) have w: "within (bb_live_in (blocks ! i)) (computed code n blocks i)" by (simp add: growing_def)
  from assms(4,5) have "computed code n blocks i \<noteq> bb_live_in (blocks ! i)" by (auto simp: update_block_eq)
  with w obtain r where r: "r < n" "computed code n blocks i ! r" "\<not> bb_live_in (blocks ! i) ! r"
    unfolding within_def using nth_equalityI [of "computed code n blocks i" "bb_live_in (blocks ! i)"] by auto
  then have "(i, r) \<in> dead_pairs n blocks" "(i, r) \<notin> dead_pairs n blocks'"
    using assms(3,4) by (auto simp: dead_pairs_def update_block_eq)
  with evolves_dead [OF update_evolves [OF assms(1,3,4)] assms(2)] show ?thesis by blast
qed

definition same_live :: "BasicBlock list \<Rightarrow> BasicBlock list \<Rightarrow> bool" where
  "same_live blocks blocks' \<longleftrightarrow> length blocks' = length blocks \<and>
    (\<forall>k < length blocks. bb_live_in (blocks' ! k) = bb_live_in (blocks ! k))"

lemma same_live_computed:
  assumes "evolves n blocks blocks'" "shaped n blocks" "same_live blocks blocks'" "k < length blocks"
  shows "live_out_of blocks' n (blocks' ! k) = live_out_of blocks n (blocks ! k)" "computed code n blocks' k = computed code n blocks k"
proof -
  show "live_out_of blocks' n (blocks' ! k) = live_out_of blocks n (blocks ! k)"
    using assms by (auto simp: live_out_of_def evolves_def shaped_def same_live_def list_ex_iff)
  with assms(1,4) show "computed code n blocks' k = computed code n blocks k" by (simp add: computed_def evolves_def)
qed

lemma updates_ok:
  assumes "fold (update_block code n) ks (blocks, c) = (blocks', c')" "growing code n blocks" "shaped n blocks"
    "\<forall>k \<in> set ks. k < length blocks" "distinct ks"
  shows "evolves n blocks blocks' \<and> growing code n blocks' \<and> (c \<longrightarrow> c') \<and>
    (c' \<and> \<not> c \<longrightarrow> dead_pairs n blocks' \<subset> dead_pairs n blocks) \<and>
    (\<not> c' \<longrightarrow> same_live blocks blocks' \<and> (\<forall>k \<in> set ks. settled code n blocks' k)) \<and>
    (\<forall>k < length blocks. k \<notin> set ks \<longrightarrow> blocks' ! k = blocks ! k)"
  using assms
proof (induction ks arbitrary: blocks c)
  case Nil
  then show ?case by (simp add: evolves_refl same_live_def)
next
  case (Cons i ks)
  obtain b1 c1 where u: "update_block code n i (blocks, c) = (b1, c1)" by (metis surj_pair)
  have i: "i < length blocks" using Cons.prems(4) by simp
  note e = update_evolves [OF Cons.prems(2) i u] and g = update_growing [OF Cons.prems(2,3) i u]
  note sh = evolves_shaped [OF e Cons.prems(3)]
  have len: "length b1 = length blocks" using e by (simp add: evolves_def)
  have rest: "evolves n b1 blocks' \<and> growing code n blocks' \<and> (c1 \<longrightarrow> c') \<and>
      (c' \<and> \<not> c1 \<longrightarrow> dead_pairs n blocks' \<subset> dead_pairs n b1) \<and>
      (\<not> c' \<longrightarrow> same_live b1 blocks' \<and> (\<forall>k \<in> set ks. settled code n blocks' k)) \<and>
      (\<forall>k < length b1. k \<notin> set ks \<longrightarrow> blocks' ! k = b1 ! k)"
    using Cons.prems u g sh len by (intro Cons.IH) auto
  have "c \<longrightarrow> c1" using u by (auto simp: update_block_eq)
  moreover have "dead_pairs n blocks' \<subset> dead_pairs n blocks" if "c'" "\<not> c"
    using rest that update_dead [OF Cons.prems(2,3) i u] evolves_dead [OF _ sh] evolves_dead [OF e Cons.prems(3)]
    by (cases c1) blast+
  moreover have "same_live blocks blocks' \<and> settled code n blocks' i" if "\<not> c'"
  proof -
    have "\<not> c1" "same_live b1 blocks'" "blocks' ! i = b1 ! i" using rest that Cons.prems(5) i len by auto
    then have same: "same_live blocks blocks'" and at: "computed code n blocks i = bb_live_in (blocks ! i)"
      "bb_live_out (blocks' ! i) = live_out_of blocks n (blocks ! i)"
      using u i by (auto simp: update_block_eq same_live_def nth_list_update split: if_splits)
    have "evolves n blocks blocks'" using rest e evolves_trans by blast
    from same_live_computed [OF this Cons.prems(3) same i] at same i show ?thesis by (simp add: settled_def same_live_def)
  qed
  moreover have "blocks' ! k = blocks ! k" if "k < length blocks" "k \<notin> set (i # ks)" for k
    using rest u that len by (auto simp: update_block_eq)
  ultimately show ?case using rest evolves_trans [OF e] by auto
qed

text \<open>The loop ends, with a solution of the equations.\<close>

lemma liveness_loop_ok:
  assumes "growing code n blocks" "shaped n blocks"
  shows "\<exists>result. liveness_loop code n blocks = Some result \<and> evolves n blocks result \<and> (\<forall>k < length blocks. settled code n result k)"
  using assms
proof (induction "card (dead_pairs n blocks)" arbitrary: blocks rule: less_induct)
  case less
  obtain b1 c1 where p: "liveness_pass code n blocks = (b1, c1)" by (metis surj_pair)
  then have f: "fold (update_block code n) (rev [0..<length blocks]) (blocks, False) = (b1, c1)" by (simp add: liveness_pass_def)
  have ok: "evolves n blocks b1 \<and> growing code n b1 \<and> (c1 \<longrightarrow> dead_pairs n b1 \<subset> dead_pairs n blocks) \<and>
      (\<not> c1 \<longrightarrow> (\<forall>k < length blocks. settled code n b1 k))"
    using updates_ok [OF f less.prems] by auto
  show ?case
  proof (cases c1)
    case True
    have "finite (dead_pairs n blocks)"
      by (rule finite_subset [of _ "{..<length blocks} \<times> {..<n}"]) (auto simp: dead_pairs_def)
    with ok True have "card (dead_pairs n b1) < card (dead_pairs n blocks)" by (simp add: psubset_card_mono)
    from less.hyps [OF this] ok evolves_shaped [OF _ less.prems(2)] obtain result where
      "liveness_loop code n b1 = Some result" "evolves n b1 result" "\<forall>k < length b1. settled code n result k" by blast
    with p True ok evolves_trans show ?thesis by (subst liveness_loop.simps) (auto simp: evolves_def)
  next
    case False
    with p ok show ?thesis by (subst liveness_loop.simps) simp
  qed
qed

section \<open>The graph\<close>

lemma position_from_Some:
  "position_from k ranges target = Some m \<Longrightarrow> k \<le> m \<and> m < k + length ranges \<and> fst (ranges ! (m - k)) = target"
  by (induction k ranges target rule: position_from.induct) (auto simp: nth_Cons' split: if_splits)

lemma position_from_found: "(target, e) \<in> set ranges \<Longrightarrow> position_from k ranges target \<noteq> None"
  by (induction k ranges target rule: position_from.induct) auto

lemma block_successors_bound: "t \<in> set (block_successors code extent) \<Longrightarrow> t < length (block_ranges code)"
  using position_from_Some [of 0 "block_ranges code"] by (auto simp: block_successors_def split: option.splits)

lemma build_cfg_nth:
  "length (build_cfg code n) = length (block_ranges code)"
  "k < length (block_ranges code) \<Longrightarrow> bb_start (build_cfg code n ! k) = fst (block_ranges code ! k) \<and>
     bb_end (build_cfg code n ! k) = snd (block_ranges code ! k) \<and>
     bb_successors (build_cfg code n ! k) = block_successors code (block_ranges code ! k) \<and>
     bb_live_in (build_cfg code n ! k) = replicate n False"
  by (simp_all add: build_cfg_def nth_enumerate_eq)

lemma build_cfg_ok: "shaped n (build_cfg code n) \<and> growing code n (build_cfg code n)"
  using block_successors_bound by (auto simp: shaped_def growing_def build_cfg_nth within_def)

text \<open>A solution of the equations on the graph of the code.\<close>

definition solution :: "Instruction list \<Rightarrow> nat \<Rightarrow> BasicBlock list \<Rightarrow> bool" where
  "solution code n blocks \<longleftrightarrow> evolves n (build_cfg code n) blocks \<and> (\<forall>k < length blocks. settled code n blocks k)"

lemma solutionD:
  assumes "solution code n blocks"
  shows "length blocks = length (block_ranges code)"
    and "\<And>k. k < length blocks \<Longrightarrow> block_ranges code ! k = (bb_start (blocks ! k), bb_end (blocks ! k))"
    and "\<And>k. k < length blocks \<Longrightarrow> bb_successors (blocks ! k) = block_successors code (block_ranges code ! k)"
    and "\<And>k. k < length blocks \<Longrightarrow> bb_live_out (blocks ! k) = live_out_of blocks n (blocks ! k)"
    and "\<And>k. k < length blocks \<Longrightarrow>
      bb_live_in (blocks ! k) = transfer_range code (bb_start (blocks ! k)) (bb_end (blocks ! k)) (bb_live_out (blocks ! k))"
  using assms by (auto simp: solution_def evolves_def build_cfg_nth settled_def computed_def)

lemma flow_successor:
  assumes sol: "solution code n blocks" and k: "k < length blocks" "bb_end (blocks ! k) = Suc i" and j: "j \<in> set (flow code i)"
  obtains m where "m \<in> set (bb_successors (blocks ! k))" "m < length blocks" "bb_start (blocks ! m) = j" "j < bb_end (blocks ! m)"
proof -
  note d = solutionD [OF sol]
  have "(bb_start (blocks ! k), Suc i) \<in> set (block_ranges code)" using d(1) d(2) [OF k(1)] k by (metis nth_mem)
  from flow_edges [OF this j] block_starts obtain e where
    edge: "j \<in> set (block_edges code (Suc i))" and e: "(j, e) \<in> set (block_ranges code)" by blast
  from position_from_found [OF e, of 0] obtain m where m: "position_from 0 (block_ranges code) j = Some m" by blast
  from position_from_Some [OF m] d(1) have len: "m < length blocks" and start: "bb_start (blocks ! m) = j"
    using d(2) [of m] by auto
  have "m \<in> set (bb_successors (blocks ! k))" using d(2,3) [OF k(1)] k(2) edge m by (force simp: block_successors_def)
  moreover have "j < bb_end (blocks ! m)" using block_range(1) d(1) d(2) [OF len] start len by (metis nth_mem)
  ultimately show ?thesis using that len start by blast
qed

text \<open>A register that is live at an instruction is in the solution there.\<close>

lemma live_at_solved:
  assumes idx: "\<forall>instr \<in> set code. registers_indexed n instr" and sol: "solution code n blocks"
  shows "live_at code i r \<Longrightarrow> unat r < n \<and> (\<forall>k < length blocks. bb_start (blocks ! k) \<le> i \<and> i < bb_end (blocks ! k) \<longrightarrow>
    transfer_range code i (bb_end (blocks ! k)) (bb_live_out (blocks ! k)) ! unat r)"
proof (induction rule: live_at.induct)
  case (used i r)
  then have "unat r < n" using idx by (auto simp: registers_indexed_def list_all_iff)
  with used solutionD(4) [OF sol] show ?case by (auto simp: transfer_range_step transfer_nth)
next
  case (passed i r j)
  note d = solutionD [OF sol]
  have "transfer_range code (Suc i) (bb_end (blocks ! k)) (bb_live_out (blocks ! k)) ! unat r"
    if k: "k < length blocks" "bb_start (blocks ! k) \<le> i" "i < bb_end (blocks ! k)" for k
  proof (cases "Suc i < bb_end (blocks ! k)")
    case True
    have "(bb_start (blocks ! k), bb_end (blocks ! k)) \<in> set (block_ranges code)" using d(1) d(2) [OF k(1)] k(1) by (metis nth_mem)
    from flow_inside [OF this k(2)] True passed.hyps(3) have "j = Suc i" by simp
    with passed.IH True k show ?thesis by simp
  next
    case False
    with k have e: "bb_end (blocks ! k) = Suc i" by simp
    from flow_successor [OF sol k(1) e passed.hyps(3)] obtain m where
      m: "m \<in> set (bb_successors (blocks ! k))" "m < length blocks" "bb_start (blocks ! m) = j" "j < bb_end (blocks ! m)" .
    with passed.IH d(5) [OF m(2)] have "bb_live_in (blocks ! m) ! unat r" by simp
    with m(1) passed.IH d(4) [OF k(1)] e show ?thesis by (auto simp: live_out_of_def list_ex_iff)
  qed
  moreover have "\<not> (\<exists>q \<in> set (instruction_defs (code ! i)). unat q = unat r)" using passed.hyps(2) by (metis word_unat_eq_iff)
  ultimately show ?case using passed.IH d(4) by (simp add: transfer_range_step transfer_nth)
qed

section \<open>Intervals\<close>

definition covers :: "(nat \<times> nat) option list \<Rightarrow> nat \<Rightarrow> nat \<Rightarrow> bool" where
  "covers intervals r i \<longleftrightarrow> (\<exists>a b. intervals ! r = Some (a, b) \<and> a \<le> i \<and> i \<le> b)"

lemma length_update_interval [simp]: "length (update_interval i r intervals) = length intervals"
  by (simp add: update_interval_def)

lemma update_interval_new: "r < length intervals \<Longrightarrow> covers (update_interval i r intervals) r i"
  by (auto simp: covers_def update_interval_def split: option.splits)

lemma update_interval_keeps:
  assumes "covers intervals r' j"
  shows "covers (update_interval i r intervals) r' j"
proof -
  from assms obtain a b where ab: "intervals ! r' = Some (a, b)" "a \<le> j" "j \<le> b" by (auto simp: covers_def)
  show ?thesis
  proof (cases "r = r' \<and> r < length intervals")
    case True
    with ab show ?thesis by (simp add: covers_def update_interval_def min_le_iff_disj le_max_iff_disj)
  next
    case False
    then have "update_interval i r intervals ! r' = intervals ! r'"
      by (cases "r = r'") (auto simp: update_interval_def list_update_beyond)
    with ab show ?thesis by (simp add: covers_def)
  qed
qed

lemma fold_updates:
  "length (fold (update_interval i) rs intervals) = length intervals \<and>
   (\<forall>r j. covers intervals r j \<longrightarrow> covers (fold (update_interval i) rs intervals) r j) \<and>
   (\<forall>r \<in> set rs. r < length intervals \<longrightarrow> covers (fold (update_interval i) rs intervals) r i)"
proof (induction rs arbitrary: intervals)
  case (Cons r rs)
  have "covers (update_interval i r intervals) r' j" if "covers intervals r' j" for r' j
    using that by (rule update_interval_keeps)
  with Cons [of "update_interval i r intervals"] update_interval_new [of r intervals i] show ?case by simp
qed simp

lemma interval_step_ok:
  assumes "interval_step code i (live, intervals) = (live', intervals')"
  shows "live' = transfer (code ! i) live \<and> length intervals' = length intervals \<and>
    (\<forall>r j. covers intervals r j \<longrightarrow> covers intervals' r j) \<and>
    (\<forall>r < length intervals. r < length live \<and> transfer (code ! i) live ! r \<or>
       (\<exists>q \<in> set (instruction_defs (code ! i) @ used_registers (code ! i)). unat q = r) \<longrightarrow> covers intervals' r i)"
proof -
  let ?rs = "map unat (instruction_defs (code ! i) @ used_registers (code ! i))"
  let ?mid = "fold (update_interval i) ?rs intervals"
  have "fold (\<lambda>r. update_interval i (unat r)) (instruction_defs (code ! i) @ used_registers (code ! i)) intervals = ?mid"
    by (simp add: fold_map comp_def)
  with assms have "live' = transfer (code ! i) live" "intervals' = fold (update_interval i) (live_indices (transfer (code ! i) live)) ?mid"
    by (auto simp: interval_step_def Let_def)
  with fold_updates [of i ?rs intervals] fold_updates [of i "live_indices (transfer (code ! i) live)" ?mid]
  show ?thesis by (auto simp: live_indices_def)
qed

lemma interval_steps_ok:
  "fst (fold (interval_step code) is (live, intervals)) = fold (\<lambda>i. transfer (code ! i)) is live \<and>
   length (snd (fold (interval_step code) is (live, intervals))) = length intervals \<and>
   (\<forall>r j. covers intervals r j \<longrightarrow> covers (snd (fold (interval_step code) is (live, intervals))) r j)"
proof (induction "is" arbitrary: live intervals)
  case (Cons i "is")
  obtain live' intervals' where s: "interval_step code i (live, intervals) = (live', intervals')" by (metis surj_pair)
  from interval_step_ok [OF s] Cons [of live' intervals'] s show ?case by auto
qed simp

lemma rev_upt_split:
  assumes "s \<le> i" "i < e"
  shows "rev [s..<e] = rev [Suc i..<e] @ i # rev [s..<i]"
proof -
  have "[s..<e] = [s..<i] @ [i..<e]" using upt_add_eq_append [of s i "e - i"] assms by simp
  with upt_conv_Cons [OF assms(2)] show ?thesis by simp
qed

lemma block_intervals_ok:
  shows "length (block_intervals code block intervals) = length intervals"
    and "covers intervals r j \<Longrightarrow> covers (block_intervals code block intervals) r j"
    and "bb_start block \<le> i \<Longrightarrow> i < bb_end block \<Longrightarrow> r < length intervals \<Longrightarrow> length (bb_live_out block) = length intervals \<Longrightarrow>
      transfer_range code i (bb_end block) (bb_live_out block) ! r \<or>
        (\<exists>q \<in> set (instruction_defs (code ! i) @ used_registers (code ! i)). unat q = r) \<Longrightarrow>
      covers (block_intervals code block intervals) r i"
proof -
  let ?start = "fold (update_interval (bb_end block - 1)) (live_indices (bb_live_out block)) intervals"
  note steps = interval_steps_ok [of code _ "bb_live_out block" ?start]
  note start = fold_updates [of "bb_end block - 1" "live_indices (bb_live_out block)" intervals]
  show len: "length (block_intervals code block intervals) = length intervals" using steps start by (simp add: block_intervals_def)
  show "covers intervals r j \<Longrightarrow> covers (block_intervals code block intervals) r j" using steps start by (simp add: block_intervals_def)
  assume i: "bb_start block \<le> i" "i < bb_end block" "r < length intervals" "length (bb_live_out block) = length intervals"
    and r: "transfer_range code i (bb_end block) (bb_live_out block) ! r \<or>
        (\<exists>q \<in> set (instruction_defs (code ! i) @ used_registers (code ! i)). unat q = r)"
  obtain live mid where mid: "fold (interval_step code) (rev [Suc i..<bb_end block]) (bb_live_out block, ?start) = (live, mid)"
    by (metis surj_pair)
  with steps [of "rev [Suc i..<bb_end block]"] start
  have live: "live = transfer_range code (Suc i) (bb_end block) (bb_live_out block)" "length mid = length intervals"
    by (auto simp: transfer_range_def)
  obtain live' mid' where mid': "interval_step code i (live, mid) = (live', mid')" by (metis surj_pair)
  have "covers mid' r i" using interval_step_ok [OF mid'] live i r by (auto simp: transfer_range_step)
  then show "covers (block_intervals code block intervals) r i"
    using mid mid' interval_steps_ok [of code "rev [bb_start block..<i]" live' mid']
    by (simp add: block_intervals_def rev_upt_split [OF i(1,2)])
qed

lemma all_blocks_ok:
  "length (fold (block_intervals code) blocks intervals) = length intervals \<and>
   (\<forall>r j. covers intervals r j \<longrightarrow> covers (fold (block_intervals code) blocks intervals) r j) \<and>
   (\<forall>block \<in> set blocks. \<forall>r < length intervals. \<forall>i. bb_start block \<le> i \<and> i < bb_end block \<and> length (bb_live_out block) = length intervals \<and>
      (transfer_range code i (bb_end block) (bb_live_out block) ! r \<or>
        (\<exists>q \<in> set (instruction_defs (code ! i) @ used_registers (code ! i)). unat q = r)) \<longrightarrow>
      covers (fold (block_intervals code) blocks intervals) r i)"
proof (induction blocks arbitrary: intervals)
  case (Cons block blocks)
  note b = block_intervals_ok [where code = code and block = block and intervals = intervals]
  from Cons [of "block_intervals code block intervals"] b show ?case by (auto simp del: set_append)
qed simp

section \<open>Soundness\<close>

lemma liveness_solution:
  assumes "\<forall>instr \<in> set code. registers_indexed n instr"
  obtains blocks where "compute_liveness (build_cfg code n) code n = Some blocks" "solution code n blocks"
proof -
  from liveness_loop_ok build_cfg_ok obtain blocks where
    "liveness_loop code n (build_cfg code n) = Some blocks" "solution code n blocks"
    unfolding solution_def evolves_def by (metis (no_types, lifting))
  with that assms show ?thesis by (simp add: compute_liveness_def list_all_iff)
qed

lemma lives_covered:
  assumes idx: "\<forall>instr \<in> set code. registers_indexed n instr" and live: "compute_liveness (build_cfg code n) code n = Some blocks"
  shows "length (compute_intervals blocks code n) = n"
    "live_at code i r \<or> i < length code \<and> r \<in> set (instruction_defs (code ! i) @ used_registers (code ! i)) \<Longrightarrow>
       covers (compute_intervals blocks code n) (unat r) i \<and> unat r < n"
proof -
  from liveness_solution [OF idx] live have sol: "solution code n blocks" by auto
  note d = solutionD [OF sol]
  note all = all_blocks_ok [of code blocks "replicate n None", folded compute_intervals_def, unfolded length_replicate]
  then show "length (compute_intervals blocks code n) = n" by blast
  assume h: "live_at code i r \<or> i < length code \<and> r \<in> set (instruction_defs (code ! i) @ used_registers (code ! i))"
  have i: "i < length code" using h by (auto elim: live_at.cases)
  have r: "unat r < n" using h live_at_solved [OF idx sol] idx nth_mem [OF i] by (fastforce simp: registers_indexed_def list_all_iff)
  from block_cover [OF i] obtain s e where "(s, e) \<in> set (block_ranges code)" "s \<le> i" "i < e" by blast
  then obtain k where k: "k < length blocks" "bb_start (blocks ! k) \<le> i" "i < bb_end (blocks ! k)"
    using d(1,2) by (metis fst_conv in_set_conv_nth snd_conv)
  then have "transfer_range code i (bb_end (blocks ! k)) (bb_live_out (blocks ! k)) ! unat r \<or>
      (\<exists>q \<in> set (instruction_defs (code ! i) @ used_registers (code ! i)). unat q = unat r)"
    using h live_at_solved [OF idx sol] by blast
  moreover have "length (bb_live_out (blocks ! k)) = n" using d(4) [OF k(1)] by simp
  ultimately show "covers (compute_intervals blocks code n) (unat r) i \<and> unat r < n" using all nth_mem [OF k(1)] k r by blast
qed

text \<open>
  Live intervals are sound.  When the registers of a function lie in its frame, the analysis of its liveness ends, and the
  interval that is computed for a register contains every instruction before which the register is live and every instruction
  that defines or uses it.
\<close>

lemma intervals_cover_lives:
  assumes "\<forall>instr \<in> set code. registers_indexed n instr"
  shows "\<exists>blocks. compute_liveness (build_cfg code n) code n = Some blocks \<and> length (compute_intervals blocks code n) = n \<and>
    (\<forall>i r. live_at code i r \<or> i < length code \<and> r \<in> set (instruction_defs (code ! i) @ used_registers (code ! i)) \<longrightarrow>
       (\<exists>a b. compute_intervals blocks code n ! unat r = Some (a, b) \<and> a \<le> i \<and> i \<le> b))"
proof -
  from liveness_solution [OF assms] obtain blocks where l: "compute_liveness (build_cfg code n) code n = Some blocks" by blast
  with lives_covered [OF assms l] show ?thesis unfolding covers_def by blast
qed

end
