(* ===== verification/Opt_Union_Find.thy ===== *)
theory Opt_Union_Find
  imports Prelude
begin

text \<open>
  The union-find structure with distances of the register allocator, \<open>WeightedUnionFind\<close> of
  \<^verbatim>\<open>galfus-workspace/src/workspace/optimizer/allocator.rs\<close>: every node has a parent and a distance to it, and \<open>find\<close>
  compresses the path it follows.

  A structure represents a root and a position for every node.  \<open>uf_find\<close> returns them and changes neither; \<open>uf_union\<close>
  accepts a constraint when it can be met together with the earlier ones.  The distances are sums of at most \<open>2^16\<close> numbers
  below \<open>2^8\<close>, far inside \<open>i32\<close>, and are integers here.
\<close>

section \<open>Operations\<close>

record WeightedUnionFind =
  uf_parent :: "nat list"
  uf_offset :: "int list"

definition uf_new :: "nat \<Rightarrow> WeightedUnionFind" where
  "uf_new n = \<lparr>uf_parent = [0..<n], uf_offset = replicate n 0\<rparr>"

text \<open>\<open>None\<close> stands for an index out of bounds and for a search that does not end.\<close>

partial_function (option) uf_find :: "WeightedUnionFind \<Rightarrow> nat \<Rightarrow> ((nat \<times> int) \<times> WeightedUnionFind) option" where
  "uf_find u node =
    (if \<not> node < length (uf_parent u) then None
     else if uf_parent u ! node = node then Some ((node, 0), u)
     else
       Option.bind (uf_find u (uf_parent u ! node)) (\<lambda>((root, parent_offset), u).
         let total = uf_offset u ! node + parent_offset in
         Some ((root, total), u\<lparr>uf_offset := (uf_offset u)[node := total], uf_parent := (uf_parent u)[node := root]\<rparr>)))"

declare uf_find.simps [code]

definition uf_union :: "WeightedUnionFind \<Rightarrow> nat \<Rightarrow> nat \<Rightarrow> int \<Rightarrow> (bool \<times> WeightedUnionFind) option" where
  "uf_union u left right distance =
    Option.bind (uf_find u left) (\<lambda>((left_root, left_offset), u).
    Option.bind (uf_find u right) (\<lambda>((right_root, right_offset), u).
      if left_root = right_root then Some (right_offset = left_offset + distance, u)
      else Some (True, u\<lparr>uf_parent := (uf_parent u)[right_root := left_root],
                         uf_offset := (uf_offset u)[right_root := left_offset + distance - right_offset]\<rparr>)))"

section \<open>What the structure represents\<close>

text \<open>
  A root and a position for every node.  The rank decreases towards the root, so that every search ends.
\<close>

definition represents :: "WeightedUnionFind \<Rightarrow> nat \<Rightarrow> (nat \<Rightarrow> nat) \<Rightarrow> (nat \<Rightarrow> int) \<Rightarrow> (nat \<Rightarrow> nat) \<Rightarrow> bool" where
  "represents u n root pos rank \<longleftrightarrow> length (uf_parent u) = n \<and> length (uf_offset u) = n \<and>
    (\<forall>x < n. uf_parent u ! x < n \<and> root x < n \<and> uf_parent u ! root x = root x \<and>
      (if uf_parent u ! x = x then root x = x \<and> pos x = 0
       else root x = root (uf_parent u ! x) \<and> pos x = uf_offset u ! x + pos (uf_parent u ! x) \<and> rank (uf_parent u ! x) < rank x))"

lemma representsD:
  assumes "represents u n root pos rank"
  shows "length (uf_parent u) = n" "length (uf_offset u) = n"
    and "\<And>x. x < n \<Longrightarrow> uf_parent u ! x < n" "\<And>x. x < n \<Longrightarrow> root x < n" "\<And>x. x < n \<Longrightarrow> uf_parent u ! root x = root x"
    and "\<And>x. x < n \<Longrightarrow> uf_parent u ! x = x \<Longrightarrow> root x = x \<and> pos x = 0"
    and "\<And>x. x < n \<Longrightarrow> uf_parent u ! x \<noteq> x \<Longrightarrow>
      root x = root (uf_parent u ! x) \<and> pos x = uf_offset u ! x + pos (uf_parent u ! x) \<and> rank (uf_parent u ! x) < rank x"
  using assms by (auto simp: represents_def)

lemma representsI:
  assumes "length (uf_parent u) = n" "length (uf_offset u) = n"
    and "\<And>x. x < n \<Longrightarrow> uf_parent u ! x < n" "\<And>x. x < n \<Longrightarrow> root x < n" "\<And>x. x < n \<Longrightarrow> uf_parent u ! root x = root x"
    and "\<And>x. x < n \<Longrightarrow> uf_parent u ! x = x \<Longrightarrow> root x = x \<and> pos x = 0"
    and "\<And>x. x < n \<Longrightarrow> uf_parent u ! x \<noteq> x \<Longrightarrow>
      root x = root (uf_parent u ! x) \<and> pos x = uf_offset u ! x + pos (uf_parent u ! x) \<and> rank (uf_parent u ! x) < rank x"
  shows "represents u n root pos rank"
  using assms by (simp add: represents_def)

lemma represents_new: "represents (uf_new n) n (\<lambda>x. x) (\<lambda>_. 0) (\<lambda>_. 0)"
  by (simp add: represents_def uf_new_def)

lemma rank_root:
  assumes r: "represents u n root pos rank"
  shows "x < n \<Longrightarrow> rank (root x) \<le> rank x"
proof (induction "rank x" arbitrary: x rule: less_induct)
  case less
  show ?case
  proof (cases "uf_parent u ! x = x")
    case True
    with representsD(6) [OF r less.prems] show ?thesis by simp
  next
    case False
    with representsD(3,7) [OF r less.prems] less.hyps [of "uf_parent u ! x"] show ?thesis by force
  qed
qed

lemma root_of_root: "represents u n root pos rank \<Longrightarrow> x < n \<Longrightarrow> root (root x) = root x \<and> pos (root x) = 0"
  using representsD(4,5,6) by metis

section \<open>Searching\<close>

lemma represents_compress:
  assumes r: "represents u n root pos rank" and x: "x < n" "uf_parent u ! x \<noteq> x"
  shows "represents (u\<lparr>uf_offset := (uf_offset u)[x := pos x], uf_parent := (uf_parent u)[x := root x]\<rparr>) n root pos rank"
proof -
  have rk: "rank (root x) < rank x"
    using representsD(3,7) [OF r x(1)] x(2) rank_root [OF r, of "uf_parent u ! x"] by fastforce
  note rd = representsD [OF r]
  have other: "root y \<noteq> x" if "y < n" for y using rd(5) [OF that] x(2) by metis
  have step: "if (uf_parent u)[x := root x] ! y = y then root y = y \<and> pos y = 0
      else root y = root ((uf_parent u)[x := root x] ! y) \<and>
        pos y = (uf_offset u)[x := pos x] ! y + pos ((uf_parent u)[x := root x] ! y) \<and> rank ((uf_parent u)[x := root x] ! y) < rank y"
    if y: "y < n" for y
  proof (cases "y = x")
    case True
    with rd(1,2) x(1) rk other [OF y] root_of_root [OF r y] show ?thesis by simp
  next
    case False
    then show ?thesis using rd(6,7) [OF y] by simp
  qed
  have "(uf_parent u)[x := root x] ! y < n" if "y < n" for y
    using rd(1,3,4) that x(1) by (cases "y = x") simp_all
  moreover have "(uf_parent u)[x := root x] ! root y = root y" if "y < n" for y
    using rd(5) [OF that] other [OF that] by simp
  ultimately show ?thesis unfolding represents_def using step rd(1,2,4) by simp
qed

lemma uf_find_ok:
  assumes "represents u n root pos rank" "x < n"
  shows "\<exists>u'. uf_find u x = Some ((root x, pos x), u') \<and> represents u' n root pos rank \<and>
    (\<forall>y. rank x < rank y \<longrightarrow> uf_parent u' ! y = uf_parent u ! y \<and> uf_offset u' ! y = uf_offset u ! y)"
  using assms
proof (induction "rank x" arbitrary: x rule: less_induct)
  case less
  note r = representsD [OF less.prems(1)]
  show ?case
  proof (cases "uf_parent u ! x = x")
    case True
    with r(1,6) less.prems show ?thesis by (subst uf_find.simps) auto
  next
    case False
    from r(7) [OF less.prems(2) False] less.hyps [of "uf_parent u ! x"] r(3) less.prems obtain u' where
      u': "uf_find u (uf_parent u ! x) = Some ((root x, pos (uf_parent u ! x)), u')" "represents u' n root pos rank"
        "\<forall>y. rank (uf_parent u ! x) < rank y \<longrightarrow> uf_parent u' ! y = uf_parent u ! y \<and> uf_offset u' ! y = uf_offset u ! y" by metis
    have same: "uf_parent u' ! x = uf_parent u ! x" "uf_offset u' ! x = uf_offset u ! x"
      using u'(3) r(7) [OF less.prems(2) False] by blast+
    then have pos: "uf_offset u' ! x + pos (uf_parent u ! x) = pos x" using r(7) [OF less.prems(2) False] by simp
    have "represents (u'\<lparr>uf_offset := (uf_offset u')[x := pos x], uf_parent := (uf_parent u')[x := root x]\<rparr>) n root pos rank"
      using represents_compress [OF u'(2) less.prems(2)] same False by simp
    moreover have "uf_find u x = Some ((root x, pos x),
        u'\<lparr>uf_offset := (uf_offset u')[x := pos x], uf_parent := (uf_parent u')[x := root x]\<rparr>)"
      using False less.prems(2) r(1) u'(1) pos by (subst uf_find.simps) (simp add: Let_def)
    moreover have "\<forall>y. rank x < rank y \<longrightarrow> (uf_parent u')[x := root x] ! y = uf_parent u ! y \<and>
        (uf_offset u')[x := pos x] ! y = uf_offset u ! y"
      using u'(3) r(7) [OF less.prems(2) False] by (metis less_irrefl nth_list_update_neq order_less_trans)
    ultimately show ?thesis by auto
  qed
qed

section \<open>Constraints\<close>

lemma represents_link:
  assumes r: "represents u n root pos rank" and a: "a < n" "root a = a" and b: "b < n" "root b = b" and "a \<noteq> b"
  shows "represents (u\<lparr>uf_parent := (uf_parent u)[b := a], uf_offset := (uf_offset u)[b := d]\<rparr>) n
    (\<lambda>x. if root x = b then a else root x) (\<lambda>x. if root x = b then pos x + d else pos x)
    (\<lambda>x. if root x = b then rank x + rank a + 1 else rank x)"
proof -
  note rd = representsD [OF r]
  have pa: "uf_parent u ! a = a" "pos a = 0" and pb: "uf_parent u ! b = b" "pos b = 0"
    using rd(5,6) [OF a(1)] rd(5,6) [OF b(1)] a b by auto
  show ?thesis
  proof (rule representsI, goal_cases)
    case (3 x)
    then show ?case using rd(1,3) a(1) by (cases "x = b") simp_all
  next
    case (5 x)
    then show ?case using pa rd(5) [OF 5] \<open>a \<noteq> b\<close> by simp
  next
    case (6 x)
    then show ?case using rd(1,6) assms by (cases "x = b") auto
  next
    case (7 x)
    then show ?case using rd(1,2) rd(7) [OF 7(1)] assms pa pb by (cases "x = b") auto
  qed (use rd(1,2,4) a(1) in auto)
qed

text \<open>
  An accepted constraint holds afterwards, and every distance that was fixed before is kept; a constraint is refused only
  when another distance between its two nodes is already fixed.
\<close>

lemma uf_union_ok:
  assumes r: "represents u n root pos rank" and "l < n" "m < n"
  shows "\<exists>ok u' root' pos' rank'. uf_union u l m d = Some (ok, u') \<and> represents u' n root' pos' rank' \<and>
    (if ok then root' m = root' l \<and> pos' m = pos' l + d else root m = root l \<and> pos m \<noteq> pos l + d) \<and>
    (\<forall>x < n. \<forall>y < n. root x = root y \<longrightarrow> root' x = root' y \<and> pos' y - pos' x = pos y - pos x)"
proof -
  from uf_find_ok [OF r assms(2)] obtain u1 where u1: "uf_find u l = Some ((root l, pos l), u1)" "represents u1 n root pos rank" by blast
  from uf_find_ok [OF u1(2) assms(3)] obtain u2 where u2: "uf_find u1 m = Some ((root m, pos m), u2)" "represents u2 n root pos rank" by blast
  show ?thesis
  proof (cases "root l = root m")
    case True
    then have "uf_union u l m d = Some (pos m = pos l + d, u2)" using u1 u2 by (simp add: uf_union_def)
    with True u2(2) show ?thesis
      by (intro exI [of _ "pos m = pos l + d"] exI [of _ u2] exI [of _ root] exI [of _ pos] exI [of _ rank]) simp
  next
    case False
    let ?d = "pos l + d - pos m"
    have rep: "represents (u2\<lparr>uf_parent := (uf_parent u2)[root m := root l], uf_offset := (uf_offset u2)[root m := ?d]\<rparr>) n
        (\<lambda>x. if root x = root m then root l else root x) (\<lambda>x. if root x = root m then pos x + ?d else pos x)
        (\<lambda>x. if root x = root m then rank x + rank (root l) + 1 else rank x)"
      using representsD(4) [OF r] root_of_root [OF r] assms(2,3) False by (intro represents_link [OF u2(2)]) auto
    have un: "uf_union u l m d =
        Some (True, u2\<lparr>uf_parent := (uf_parent u2)[root m := root l], uf_offset := (uf_offset u2)[root m := ?d]\<rparr>)"
      using False u1 u2 by (simp add: uf_union_def)
    show ?thesis by (intro exI conjI, rule un, rule rep) (use False in auto)
  qed
qed

end
