(* ===== verification/Opt_Allocator.thy ===== *)
theory Opt_Allocator
  imports Opt_Registers Opt_Union_Find Btree_Map "HOL-Library.Product_Lexorder"
begin

text \<open>
  The register allocator of \<^verbatim>\<open>galfus-workspace/src/workspace/optimizer/allocator.rs\<close>.  Registers that appear in one
  argument window must stay at fixed distances; the union-find structure collects them into groups, and the groups are placed
  one after the other, first those with parameters, where their live intervals do not meet the intervals already placed.

  \<open>None\<close> is a panic; \<open>Some None\<close> is the answer \<open>false\<close>, which leaves the function as it was; \<open>Some (Some f)\<close> is the
  function with its new registers.
\<close>

section \<open>Constraints of the windows\<close>

type_synonym interval = "nat \<times> nat"

definition window_constraints :: "Reg \<times> u8 \<Rightarrow> (nat \<times> nat \<times> int) list" where
  "window_constraints window =
    map (\<lambda>k. (unat (fst window), unat (fst window) + k, int k)) [1..<unat (snd window)]"

fun add_constraints :: "WeightedUnionFind \<Rightarrow> (nat \<times> nat \<times> int) list \<Rightarrow> WeightedUnionFind option option" where
  "add_constraints u [] = Some (Some u)"
| "add_constraints u ((left, right, distance) # cs) =
    (case uf_union u left right distance of
       None \<Rightarrow> None
     | Some (False, _) \<Rightarrow> Some None
     | Some (True, u) \<Rightarrow> add_constraints u cs)"

definition code_constraints :: "Instruction list \<Rightarrow> (nat \<times> nat \<times> int) list" where
  "code_constraints code = concat (map (\<lambda>instr. concat (map window_constraints (instruction_ranges instr))) code)"

section \<open>Groups and requests\<close>

fun collect_groups :: "WeightedUnionFind \<Rightarrow> nat list \<Rightarrow> (nat, (nat \<times> int) list) btree \<Rightarrow> (nat, (nat \<times> int) list) btree option" where
  "collect_groups u [] groups = Some groups"
| "collect_groups u (register # registers) groups =
    (case uf_find u register of
       None \<Rightarrow> None
     | Some ((root, distance), u) \<Rightarrow>
         collect_groups u registers
           (btree_insert root ((case btree_get groups root of Some members \<Rightarrow> members | None \<Rightarrow> []) @ [(register, distance)]) groups))"

record Member =
  mb_register :: nat
  mb_offset :: nat
  mb_interval :: "interval option"

record Request =
  rq_members :: "Member list"
  rq_width :: nat
  rq_fixed_base :: "nat option"
  rq_start :: nat

definition make_members :: "interval option list \<Rightarrow> (nat \<times> int) list \<Rightarrow> Member list option" where
  "make_members intervals members =
    (let min_offset = (if members = [] then 0 else Min (set (map snd members))) in
     those (map (\<lambda>(register, distance).
       map_option (\<lambda>i. \<lparr>mb_register = register, mb_offset = nat (distance - min_offset), mb_interval = i\<rparr>) (list_get intervals register)) members))"

definition request_width :: "Member list \<Rightarrow> nat" where
  "request_width members = (if members = [] then 1 else Max (set (map (\<lambda>m. mb_offset m + 1) members)))"

text \<open>The base that puts the parameters of the group where they are, if there is one.\<close>

fun fold_base :: "nat option \<Rightarrow> Member list \<Rightarrow> nat option option" where
  "fold_base base [] = Some base"
| "fold_base base (m # ms) =
    (if mb_register m < mb_offset m then None
     else
       case base of
         None \<Rightarrow> fold_base (Some (mb_register m - mb_offset m)) ms
       | Some b \<Rightarrow> if b = mb_register m - mb_offset m then fold_base base ms else None)"

definition usize_max :: nat where
  "usize_max = 2 ^ 64 - 1"

definition request_start :: "Member list \<Rightarrow> nat" where
  "request_start members =
    (let starts = concat (map (\<lambda>m. case mb_interval m of Some i \<Rightarrow> [fst i] | None \<Rightarrow> []) members) in
     if starts = [] then usize_max else Min (set starts))"

definition make_request :: "nat \<Rightarrow> interval option list \<Rightarrow> (nat \<times> int) list \<Rightarrow> Request option option" where
  "make_request parameter_count intervals group_members =
    (case make_members intervals group_members of
       None \<Rightarrow> None
     | Some members \<Rightarrow>
         if length (remdups (map mb_offset members)) \<noteq> length members then Some None
         else
           (case fold_base None (filter (\<lambda>m. mb_register m < parameter_count) members) of
              None \<Rightarrow> Some None
            | Some fixed_base \<Rightarrow>
                if list_ex (\<lambda>m. parameter_count \<le> mb_register m \<and>
                     (case fixed_base of Some base \<Rightarrow> base + mb_offset m < parameter_count | None \<Rightarrow> False)) members
                then Some None
                else Some (Some \<lparr>rq_members = members, rq_width = request_width members,
                                 rq_fixed_base = fixed_base, rq_start = request_start members\<rparr>)))"

fun make_requests :: "nat \<Rightarrow> interval option list \<Rightarrow> (nat \<times> int) list list \<Rightarrow> Request list option option" where
  "make_requests parameter_count intervals [] = Some (Some [])"
| "make_requests parameter_count intervals (g # gs) =
    (case make_request parameter_count intervals g of
       None \<Rightarrow> None
     | Some None \<Rightarrow> Some None
     | Some (Some request) \<Rightarrow> map_option (map_option (\<lambda>rest. request # rest)) (make_requests parameter_count intervals gs))"

section \<open>Placement\<close>

definition fits :: "Request \<Rightarrow> nat \<Rightarrow> interval list list \<Rightarrow> bool" where
  "fits request base occupancy =
    list_all (\<lambda>m.
      case mb_interval m of
        None \<Rightarrow> True
      | Some i \<Rightarrow>
          (case list_get occupancy (base + mb_offset m) of
             None \<Rightarrow> True
           | Some occupied \<Rightarrow> list_all (\<lambda>existing. snd existing < fst i \<or> snd i < fst existing) occupied))
      (rq_members request)"

function search_base :: "Request \<Rightarrow> nat \<Rightarrow> interval list list \<Rightarrow> nat \<Rightarrow> nat" where
  "search_base request register_count occupancy base =
    (if base + rq_width request \<le> register_count \<and> \<not> fits request base occupancy
     then search_base request register_count occupancy (base + 1) else base)"
  by pat_completeness auto
termination
  by (relation "measure (\<lambda>(request, register_count, occupancy, base). Suc register_count - base)") auto

declare search_base.simps [simp del]

definition choose_base :: "nat \<Rightarrow> nat \<Rightarrow> Request \<Rightarrow> interval list list \<Rightarrow> nat option" where
  "choose_base parameter_count register_count request occupancy =
    (case rq_fixed_base request of
       Some base \<Rightarrow> if base + rq_width request \<le> register_count \<and> fits request base occupancy then Some base else None
     | None \<Rightarrow>
         (let base = search_base request register_count occupancy parameter_count in
          if base + rq_width request > register_count then None else Some base))"

fun place_members ::
  "nat \<Rightarrow> Member list \<Rightarrow> interval list list \<times> Reg option list \<Rightarrow> interval list list \<times> Reg option list" where
  "place_members base [] state = state"
| "place_members base (m # ms) (occupancy, remap) =
    (let physical = base + mb_offset m in
     place_members base ms
       ((case mb_interval m of
           Some i \<Rightarrow> occupancy[physical := occupancy ! physical @ [i]]
         | None \<Rightarrow> occupancy),
        remap[mb_register m := Some (of_nat physical)]))"

definition grow :: "nat \<Rightarrow> interval list list \<Rightarrow> interval list list" where
  "grow n occupancy = (if length occupancy < n then occupancy @ replicate (n - length occupancy) [] else occupancy)"

fun place_requests ::
  "nat \<Rightarrow> nat \<Rightarrow> Request list \<Rightarrow> interval list list \<times> Reg option list \<Rightarrow> Reg option list option" where
  "place_requests parameter_count register_count [] (occupancy, remap) = Some remap"
| "place_requests parameter_count register_count (request # requests) (occupancy, remap) =
    (case choose_base parameter_count register_count request occupancy of
       None \<Rightarrow> None
     | Some base \<Rightarrow>
         place_requests parameter_count register_count requests
           (place_members base (rq_members request) (grow (base + rq_width request) occupancy, remap)))"

section \<open>Allocation\<close>

definition rename_all :: "BytecodeFunction \<Rightarrow> Reg option list \<Rightarrow> BytecodeFunction option" where
  "rename_all func remap =
    (case those (map (remap_instruction_registers remap) (bf_instructions func)) of
       None \<Rightarrow> None
     | Some code \<Rightarrow>
         (let totals = concat (map (\<lambda>r. case r of Some q \<Rightarrow> [unat q + 1] | None \<Rightarrow> []) remap);
              register_total = (if totals = [] then unat (bf_param_count func) else Max (set totals)) in
          if register_total < unat (bf_param_count func) then None
          else Some (func\<lparr>bf_instructions := code,
                          bf_local_count := of_nat (register_total - unat (bf_param_count func)), bf_temp_count := 0\<rparr>)))"

definition allocate_registers :: "BytecodeFunction \<Rightarrow> interval option list \<Rightarrow> nat \<Rightarrow> BytecodeFunction option option" where
  "allocate_registers func intervals register_count =
    (let parameter_count = unat (bf_param_count func) in
     case add_constraints (uf_new register_count) (code_constraints (bf_instructions func)) of
       None \<Rightarrow> None
     | Some None \<Rightarrow> Some None
     | Some (Some constraints) \<Rightarrow>
         (case collect_groups constraints [0..<register_count] [] of
            None \<Rightarrow> None
          | Some groups \<Rightarrow>
              (case make_requests parameter_count intervals (btree_values groups) of
                 None \<Rightarrow> None
               | Some None \<Rightarrow> Some None
               | Some (Some requests) \<Rightarrow>
                   (case place_requests parameter_count register_count
                        (sort_key (\<lambda>request. (rq_fixed_base request = None, rq_start request)) requests)
                        (replicate parameter_count [], replicate register_count None) of
                      None \<Rightarrow> Some None
                    | Some remap \<Rightarrow>
                        if list_ex (\<lambda>r. r = None) remap then Some None
                        else map_option Some (rename_all func remap)))))"

end
