(* ===== verification/Opt_Allocator_Props.thy ===== *)
theory Opt_Allocator_Props
  imports Opt_Allocator "HOL-Library.Multiset"
begin

text \<open>
  Soundness of the register allocator: it never fails on a function whose registers lie in its frame, and a renaming it
  accepts keeps parameters and argument windows and shares a register only between live intervals that do not meet.
\<close>

section \<open>Groups\<close>

definition keeps_distances :: "nat \<Rightarrow> (nat \<Rightarrow> nat) \<Rightarrow> (nat \<Rightarrow> int) \<Rightarrow> (nat \<Rightarrow> nat) \<Rightarrow> (nat \<Rightarrow> int) \<Rightarrow> bool" where
  "keeps_distances n root pos root' pos' \<longleftrightarrow>
    (\<forall>x < n. \<forall>y < n. root x = root y \<longrightarrow> root' x = root' y \<and> pos' y - pos' x = pos y - pos x)"

lemma keeps_distancesD:
  "keeps_distances n root pos root' pos' \<Longrightarrow> x < n \<Longrightarrow> y < n \<Longrightarrow> root x = root y \<Longrightarrow>
    root' x = root' y \<and> pos' y - pos' x = pos y - pos x"
  unfolding keeps_distances_def by blast

lemma keeps_distances_trans:
  assumes "keeps_distances n root pos root1 pos1" "keeps_distances n root1 pos1 root2 pos2"
  shows "keeps_distances n root pos root2 pos2"
  unfolding keeps_distances_def
proof (intro allI impI)
  fix x y assume xy: "x < n" "y < n" "root x = root y"
  from keeps_distancesD [OF assms(1) xy] keeps_distancesD [OF assms(2) xy(1,2)]
  show "root2 x = root2 y \<and> pos2 y - pos2 x = pos y - pos x" by metis
qed

text \<open>Accepted constraints hold in what the structure represents.\<close>

lemma add_constraints_ok:
  assumes "represents u n root pos rank" "\<forall>(l, r, d) \<in> set cs. l < n \<and> r < n"
  shows "\<exists>result. add_constraints u cs = Some result \<and>
    (\<forall>u'. result = Some u' \<longrightarrow> (\<exists>root' pos' rank'. represents u' n root' pos' rank' \<and> keeps_distances n root pos root' pos' \<and>
      (\<forall>(l, r, d) \<in> set cs. root' r = root' l \<and> pos' r = pos' l + d)))"
  using assms
proof (induction cs arbitrary: u root pos rank)
  case Nil
  then show ?case by (auto simp: keeps_distances_def)
next
  case (Cons c cs)
  obtain l r d where c: "c = (l, r, d)" by (cases c) auto
  have lr: "l < n" "r < n" using Cons.prems(2) c by auto
  from uf_union_ok [OF Cons.prems(1) lr, of d] obtain ok u1 root1 pos1 rank1 where
    s: "uf_union u l r d = Some (ok, u1)" "represents u1 n root1 pos1 rank1" "keeps_distances n root pos root1 pos1"
      and "if ok then root1 r = root1 l \<and> pos1 r = pos1 l + d else root r = root l \<and> pos r \<noteq> pos l + d"
    unfolding keeps_distances_def by blast
  then have eq: "ok \<Longrightarrow> root1 r = root1 l \<and> pos1 r = pos1 l + d" by simp
  show ?case
  proof (cases ok)
    case False
    with s(1) c show ?thesis by simp
  next
    case True
    from Cons.IH [OF s(2)] Cons.prems(2) obtain result where
      result: "add_constraints u1 cs = Some result"
        "\<forall>u'. result = Some u' \<longrightarrow> (\<exists>root' pos' rank'. represents u' n root' pos' rank' \<and> keeps_distances n root1 pos1 root' pos' \<and>
          (\<forall>(l, r, d) \<in> set cs. root' r = root' l \<and> pos' r = pos' l + d))" by auto
    have "\<exists>root' pos' rank'. represents u' n root' pos' rank' \<and> keeps_distances n root pos root' pos' \<and>
        (\<forall>(l, r, d) \<in> set (c # cs). root' r = root' l \<and> pos' r = pos' l + d)" if u': "result = Some u'" for u'
    proof -
      from result(2) u' obtain root' pos' rank' where
        f: "represents u' n root' pos' rank'" "keeps_distances n root1 pos1 root' pos'"
          "\<forall>(l, r, d) \<in> set cs. root' r = root' l \<and> pos' r = pos' l + d" by blast
      have "root' r = root' l \<and> pos' r = pos' l + d"
        using keeps_distancesD [OF f(2) lr] eq [OF True] by auto
      moreover have "keeps_distances n root pos root' pos'" by (rule keeps_distances_trans [OF s(3) f(2)])
      ultimately show ?thesis using f c by fastforce
    qed
    with result(1) s(1) True c show ?thesis by simp
  qed
qed

definition group_of :: "nat \<Rightarrow> (nat \<Rightarrow> nat) \<Rightarrow> nat \<Rightarrow> nat list" where
  "group_of n root r = filter (\<lambda>x. root x = r) [0..<n]"

definition groups_upto :: "nat \<Rightarrow> (nat \<Rightarrow> nat) \<Rightarrow> (nat \<Rightarrow> int) \<Rightarrow> (nat, (nat \<times> int) list) btree \<Rightarrow> bool" where
  "groups_upto n root pos groups \<longleftrightarrow> btree_ok groups \<and>
    (\<forall>r. btree_get groups r = (if group_of n root r = [] then None else Some (map (\<lambda>x. (x, pos x)) (group_of n root r))))"

lemma group_of_Suc: "group_of (Suc k) root r = group_of k root r @ (if root k = r then [k] else [])"
  by (simp add: group_of_def)

lemma collect_groups_ok:
  assumes "represents u n root pos rank" "k \<le> n" "groups_upto k root pos groups"
  shows "\<exists>groups'. collect_groups u [k..<n] groups = Some groups' \<and> groups_upto n root pos groups'"
  using assms
proof (induction "n - k" arbitrary: k u groups)
  case 0
  then show ?case by simp
next
  case (Suc j)
  then have k: "k < n" by simp
  from uf_find_ok [OF Suc.prems(1) k] obtain u' where
    u': "uf_find u k = Some ((root k, pos k), u')" "represents u' n root pos rank" by blast
  let ?g = "btree_insert (root k) ((case btree_get groups (root k) of Some members \<Rightarrow> members | None \<Rightarrow> []) @ [(k, pos k)]) groups"
  have "groups_upto (Suc k) root pos ?g"
    using Suc.prems(3) by (auto simp: groups_upto_def group_of_Suc btree_ok_insert)
  with Suc.hyps(1) [OF _ u'(2), of "Suc k" ?g] Suc.hyps(2) k u'(1) show ?case by (auto simp: upt_conv_Cons)
qed

section \<open>Requests\<close>

definition member_of :: "interval option list \<Rightarrow> (nat \<Rightarrow> int) \<Rightarrow> int \<Rightarrow> nat \<Rightarrow> Member" where
  "member_of intervals pos least x = \<lparr>mb_register = x, mb_offset = nat (pos x - least), mb_interval = intervals ! x\<rparr>"

lemma member_of_simps [simp]:
  "mb_register (member_of intervals pos least x) = x" "mb_offset (member_of intervals pos least x) = nat (pos x - least)"
  "mb_interval (member_of intervals pos least x) = intervals ! x"
  by (simp_all add: member_of_def)

lemma make_members_ok:
  assumes "xs \<noteq> []" "\<forall>x \<in> set xs. x < length intervals"
  shows "make_members intervals (map (\<lambda>x. (x, pos x)) xs) = Some (map (member_of intervals pos (Min (pos ` set xs))) xs)"
proof -
  have "snd ` (\<lambda>x. (x, pos x)) ` set xs = pos ` set xs" by force
  then show ?thesis using assms by (auto simp: make_members_def Let_def comp_def list_get_def member_of_def intro!: those_map)
qed

lemma fold_base_ok:
  "fold_base base ms = Some result \<Longrightarrow>
    (\<forall>b. base = Some b \<longrightarrow> result = Some b) \<and> (\<forall>m \<in> set ms. \<exists>b. result = Some b \<and> b + mb_offset m = mb_register m)"
  by (induction base ms rule: fold_base.induct) (auto split: if_splits option.splits)

text \<open>What a request says about the registers of its group.\<close>

definition request_ok :: "nat \<Rightarrow> nat \<Rightarrow> (nat \<Rightarrow> nat) \<Rightarrow> (nat \<Rightarrow> int) \<Rightarrow> interval option list \<Rightarrow> nat \<Rightarrow> Request \<Rightarrow> bool" where
  "request_ok p n root pos intervals r request \<longleftrightarrow>
    (\<exists>least. rq_members request = map (member_of intervals pos least) (group_of n root r) \<and> (\<forall>x \<in> set (group_of n root r). least \<le> pos x)) \<and>
    distinct (map mb_offset (rq_members request)) \<and>
    (\<forall>m \<in> set (rq_members request). mb_offset m < rq_width request) \<and>
    (\<forall>m \<in> set (rq_members request). mb_register m < p \<longrightarrow> (\<exists>b. rq_fixed_base request = Some b \<and> b + mb_offset m = mb_register m)) \<and>
    (\<forall>m \<in> set (rq_members request). \<forall>b. p \<le> mb_register m \<and> rq_fixed_base request = Some b \<longrightarrow> p \<le> b + mb_offset m)"

lemma width_above: "m \<in> set ms \<Longrightarrow> mb_offset m < request_width ms"
  by (auto simp: request_width_def Max_gr_iff)

lemma make_request_members:
  assumes "make_members intervals members = Some ms" "make_request p intervals members = Some (Some request)"
  shows "fold_base None (filter (\<lambda>m. mb_register m < p) ms) = Some (rq_fixed_base request)" "rq_members request = ms"
    "rq_width request = request_width ms" "distinct (map mb_offset ms)"
    "\<forall>m \<in> set ms. \<forall>b. p \<le> mb_register m \<and> rq_fixed_base request = Some b \<longrightarrow> p \<le> b + mb_offset m"
  using assms length_remdups_eq [of "map mb_offset ms"]
  by (auto simp: make_request_def list_ex_iff not_less split: if_splits option.splits)

lemma make_request_ok:
  assumes "group_of n root r \<noteq> []" "n \<le> length intervals"
  shows "\<exists>result. make_request p intervals (map (\<lambda>x. (x, pos x)) (group_of n root r)) = Some result \<and>
    (\<forall>request. result = Some request \<longrightarrow> request_ok p n root pos intervals r request)"
proof -
  let ?xs = "group_of n root r"
  let ?least = "Min (pos ` set ?xs)"
  let ?ms = "map (member_of intervals pos ?least) ?xs"
  have members: "make_members intervals (map (\<lambda>x. (x, pos x)) ?xs) = Some ?ms"
    using assms by (intro make_members_ok) (auto simp: group_of_def)
  have least: "\<forall>x \<in> set ?xs. ?least \<le> pos x" by simp
  have "request_ok p n root pos intervals r request"
    if q: "make_request p intervals (map (\<lambda>x. (x, pos x)) ?xs) = Some (Some request)" for request
  proof -
    note b = make_request_members [OF members q]
    have w: "\<forall>m \<in> set ?ms. mb_offset m < request_width ?ms" using width_above by blast
    have f: "\<forall>m \<in> set ?ms. mb_register m < p \<longrightarrow> (\<exists>b. rq_fixed_base request = Some b \<and> b + mb_offset m = mb_register m)"
      using fold_base_ok [OF b(1)] by auto
    show ?thesis unfolding request_ok_def b(2,3)
      by (intro conjI exI [of _ ?least] b(4,5) w f refl least)
  qed
  moreover have "make_request p intervals (map (\<lambda>x. (x, pos x)) ?xs) \<noteq> None"
    using members by (auto simp: make_request_def split: option.splits)
  ultimately show ?thesis by auto
qed

text \<open>One request for every group, in the order of the roots.\<close>

lemma make_requests_ok:
  assumes "n \<le> length intervals" "\<forall>(r, g) \<in> set groups. group_of n root r \<noteq> [] \<and> g = map (\<lambda>x. (x, pos x)) (group_of n root r)"
  shows "\<exists>result. make_requests p intervals (map snd groups) = Some result \<and>
    (\<forall>requests. result = Some requests \<longrightarrow> list_all2 (\<lambda>r. request_ok p n root pos intervals r) (map fst groups) requests)"
  using assms(2)
proof (induction groups)
  case (Cons rg groups)
  obtain r g where rg: "rg = (r, g)" by (cases rg)
  from Cons.prems rg make_request_ok [OF _ assms(1), of root r p pos] obtain first where
    first: "make_request p intervals g = Some first" "\<forall>request. first = Some request \<longrightarrow> request_ok p n root pos intervals r request" by auto
  from Cons obtain rest where
    rest: "make_requests p intervals (map snd groups) = Some rest"
      "\<forall>requests. rest = Some requests \<longrightarrow> list_all2 (\<lambda>r. request_ok p n root pos intervals r) (map fst groups) requests" by auto
  show ?case using first rest rg by (cases first; cases rest) auto
qed simp

definition request_registers :: "Request \<Rightarrow> nat list" where
  "request_registers request = map mb_register (rq_members request)"

lemma request_registers_group: "request_ok p n root pos intervals r request \<Longrightarrow> request_registers request = group_of n root r"
  by (auto simp: request_ok_def request_registers_def comp_def)

lemma requests_distinct:
  assumes "list_all2 (\<lambda>r. request_ok p n root pos intervals r) rs requests" "distinct rs"
  shows "distinct (concat (map request_registers requests)) \<and>
    set (concat (map request_registers requests)) = {x. x < n \<and> root x \<in> set rs}"
  using assms
proof (induction rule: list_all2_induct)
  case (Cons r rs request requests)
  then have "request_registers request = group_of n root r" using request_registers_group by blast
  with Cons show ?case by (auto simp: group_of_def)
qed simp

lemma distinct_concat_sort:
  "distinct (concat (map f (sort_key k xs))) \<longleftrightarrow> distinct (concat (map f xs))"
proof -
  have "mset (concat (map f (sort_key k xs))) = mset (concat (map f xs))"
    by (simp add: mset_concat flip: sum_mset_sum_list)
  then show ?thesis by (rule mset_eq_imp_distinct_iff)
qed

section \<open>Placement\<close>

definition apart :: "interval \<Rightarrow> interval \<Rightarrow> bool" where
  "apart i j \<longleftrightarrow> snd i < fst j \<or> snd j < fst i"

text \<open>
  The occupancy records every placed interval, and intervals at one place are apart.
\<close>

definition placement_ok :: "interval option list \<Rightarrow> interval list list \<Rightarrow> Reg option list \<Rightarrow> bool" where
  "placement_ok intervals occupancy remap \<longleftrightarrow>
    (\<forall>x < length remap. \<forall>q i. remap ! x = Some q \<and> intervals ! x = Some i \<longrightarrow>
       unat q < length occupancy \<and> i \<in> set (occupancy ! unat q)) \<and>
    (\<forall>x < length remap. \<forall>y < length remap. \<forall>q i j. x \<noteq> y \<and> remap ! x = Some q \<and> remap ! y = Some q \<and>
       intervals ! x = Some i \<and> intervals ! y = Some j \<longrightarrow> apart i j)"

lemma place_members_eq:
  assumes "place_members base ms (occupancy, remap) = (occupancy', remap')"
    "\<forall>m \<in> set ms. base + mb_offset m < length occupancy \<and> mb_register m < length remap" "distinct (map mb_register ms)"
  shows "length occupancy' = length occupancy \<and> length remap' = length remap \<and>
    (\<forall>j < length occupancy. set (occupancy' ! j) =
       set (occupancy ! j) \<union> {i. \<exists>m \<in> set ms. base + mb_offset m = j \<and> mb_interval m = Some i}) \<and>
    (\<forall>m \<in> set ms. remap' ! mb_register m = Some (of_nat (base + mb_offset m))) \<and>
    (\<forall>x. x \<notin> mb_register ` set ms \<longrightarrow> remap' ! x = remap ! x)"
  using assms
proof (induction ms arbitrary: occupancy remap)
  case (Cons m ms)
  let ?j = "base + mb_offset m"
  let ?occ = "case mb_interval m of Some i \<Rightarrow> occupancy[?j := occupancy ! ?j @ [i]] | None \<Rightarrow> occupancy"
  let ?remap = "remap[mb_register m := Some (of_nat ?j)]"
  have len: "length ?occ = length occupancy" by (simp split: option.splits)
  have set: "set (?occ ! j) = set (occupancy ! j) \<union> {i. ?j = j \<and> mb_interval m = Some i}" if "j < length occupancy" for j
    using that by (cases "?j = j") (auto split: option.splits)
  have "length occupancy' = length ?occ \<and> length remap' = length ?remap \<and>
      (\<forall>j < length ?occ. set (occupancy' ! j) = set (?occ ! j) \<union> {i. \<exists>m \<in> set ms. base + mb_offset m = j \<and> mb_interval m = Some i}) \<and>
      (\<forall>m \<in> set ms. remap' ! mb_register m = Some (of_nat (base + mb_offset m))) \<and>
      (\<forall>x. x \<notin> mb_register ` set ms \<longrightarrow> remap' ! x = ?remap ! x)"
    using Cons.prems len by (intro Cons.IH) (simp_all add: Let_def)
  moreover have "mb_register m \<notin> mb_register ` set ms" using Cons.prems(3) by simp
  ultimately show ?case using len set Cons.prems(2) by auto
qed auto

lemma length_grow: "length (grow n occupancy) = max (length occupancy) n"
  by (auto simp: grow_def)

lemma set_grow: "j < length (grow n occupancy) \<Longrightarrow> set (grow n occupancy ! j) = (if j < length occupancy then set (occupancy ! j) else {})"
  by (auto simp: grow_def nth_append split: if_splits)

lemma fits_apart:
  assumes "fits request base occupancy" "m \<in> set (rq_members request)" "mb_interval m = Some i"
    "base + mb_offset m < length occupancy" "j \<in> set (occupancy ! (base + mb_offset m))"
  shows "apart i j"
  using assms by (force simp: fits_def list_all_iff list_get_def apart_def)

lemma placement_okD:
  assumes "placement_ok intervals occupancy remap"
  shows "\<And>x q i. x < length remap \<Longrightarrow> remap ! x = Some q \<Longrightarrow> intervals ! x = Some i \<Longrightarrow>
      unat q < length occupancy \<and> i \<in> set (occupancy ! unat q)"
    and "\<And>x y q i j. x < length remap \<Longrightarrow> y < length remap \<Longrightarrow> x \<noteq> y \<Longrightarrow> remap ! x = Some q \<Longrightarrow> remap ! y = Some q \<Longrightarrow>
      intervals ! x = Some i \<Longrightarrow> intervals ! y = Some j \<Longrightarrow> apart i j"
  using assms unfolding placement_ok_def by blast+

text \<open>What is needed of a request, and what placing it does.\<close>

definition placeable :: "interval option list \<Rightarrow> Request \<Rightarrow> bool" where
  "placeable intervals request \<longleftrightarrow> distinct (map mb_offset (rq_members request)) \<and> distinct (request_registers request) \<and>
    (\<forall>m \<in> set (rq_members request). mb_offset m < rq_width request \<and> mb_interval m = intervals ! mb_register m)"

lemma request_placeable:
  assumes "request_ok p n root pos intervals r request"
  shows "placeable intervals request"
proof -
  from assms obtain least where "rq_members request = map (member_of intervals pos least) (group_of n root r)"
    unfolding request_ok_def by blast
  then have "\<forall>m \<in> set (rq_members request). mb_interval m = intervals ! mb_register m" by simp
  with assms request_registers_group [OF assms] show ?thesis by (simp add: placeable_def request_ok_def group_of_def)
qed

lemma apart_sym: "apart i j \<Longrightarrow> apart j i"
  by (auto simp: apart_def)

lemma unat_small: "n < 2 ^ 16 \<Longrightarrow> unat (of_nat n :: Reg) = n"
  by (simp add: unat_of_nat)

lemma same_place:
  assumes "distinct (map mb_offset ms)" "m \<in> set ms" "m' \<in> set ms" "\<forall>m \<in> set ms. base + mb_offset m < 2 ^ 16"
    "(of_nat (base + mb_offset m) :: Reg) = of_nat (base + mb_offset m')"
  shows "m = m'"
proof -
  have "unat (of_nat (base + mb_offset k) :: Reg) = base + mb_offset k" if "k \<in> set ms" for k
    using assms(4) that by (intro unat_small) simp
  with assms(2,3,5) have "mb_offset m = mb_offset m'" by (metis add_left_cancel)
  with assms(1-3) show ?thesis by (simp add: distinct_map inj_on_def)
qed

lemma place_request_ok:
  assumes ok: "placement_ok intervals occupancy remap" and req: "placeable intervals request"
    and small: "base + rq_width request \<le> 2 ^ 16" and fit: "fits request base occupancy"
    and inside: "\<forall>x \<in> set (request_registers request). x < length remap"
    and placed: "place_members base (rq_members request) (grow (base + rq_width request) occupancy, remap) = (occupancy', remap')"
  shows "placement_ok intervals occupancy' remap' \<and> length remap' = length remap \<and>
    (\<forall>m \<in> set (rq_members request). remap' ! mb_register m = Some (of_nat (base + mb_offset m))) \<and>
    (\<forall>x. x \<notin> set (request_registers request) \<longrightarrow> remap' ! x = remap ! x)"
proof -
  let ?ms = "rq_members request" and ?grown = "grow (base + rq_width request) occupancy"
  have off: "\<forall>m \<in> set ?ms. base + mb_offset m < 2 ^ 16 \<and> base + mb_offset m < length ?grown"
    using req small by (fastforce simp: placeable_def length_grow)
  have eq: "length occupancy' = length ?grown" "length remap' = length remap"
      "\<And>j. j < length ?grown \<Longrightarrow> set (occupancy' ! j) =
         set (?grown ! j) \<union> {i. \<exists>m \<in> set ?ms. base + mb_offset m = j \<and> mb_interval m = Some i}"
      "\<And>m. m \<in> set ?ms \<Longrightarrow> remap' ! mb_register m = Some (of_nat (base + mb_offset m))"
      "\<And>x. x \<notin> set (request_registers request) \<Longrightarrow> remap' ! x = remap ! x"
    using place_members_eq [OF placed] off inside req by (auto simp: placeable_def request_registers_def)
  have at: "unat (of_nat (base + mb_offset m) :: Reg) = base + mb_offset m" if "m \<in> set ?ms" for m
    using off that by (intro unat_small) simp
  have recorded: "unat q < length occupancy' \<and> i \<in> set (occupancy' ! unat q)"
    if x: "x < length remap'" "remap' ! x = Some q" "intervals ! x = Some i" for x q i
  proof (cases "x \<in> set (request_registers request)")
    case True
    then obtain m where m: "m \<in> set ?ms" "x = mb_register m" by (auto simp: request_registers_def)
    with x eq(4) at off req have "unat q = base + mb_offset m" "mb_interval m = Some i" by (auto simp: placeable_def)
    with eq(1) eq(3) [of "unat q"] off m show ?thesis by auto
  next
    case False
    with x eq(2,5) placement_okD(1) [OF ok, of x q i] have "unat q < length occupancy" "i \<in> set (occupancy ! unat q)" by auto
    with eq(1) eq(3) [of "unat q"] show ?thesis by (simp add: length_grow set_grow)
  qed
  have new: "apart i j" if m: "m \<in> set ?ms" "mb_interval m = Some i"
    and y: "y < length remap'" "y \<noteq> mb_register m" "remap' ! y = Some (of_nat (base + mb_offset m))" "intervals ! y = Some j" for m i y j
  proof (cases "y \<in> set (request_registers request)")
    case True
    then obtain m' where m': "m' \<in> set ?ms" "y = mb_register m'" by (auto simp: request_registers_def)
    with eq(4) y(3) same_place [of ?ms m m' base] req off m(1) y(2) show ?thesis by (auto simp: placeable_def)
  next
    case False
    with y eq(2,5) placement_okD(1) [OF ok, of y "of_nat (base + mb_offset m)" j] at [OF m(1)] fits_apart [OF fit m, of j]
    show ?thesis by simp
  qed
  have separate: "apart i j" if xy: "x < length remap'" "y < length remap'" "x \<noteq> y" "remap' ! x = Some q" "remap' ! y = Some q"
    "intervals ! x = Some i" "intervals ! y = Some j" for x y q i j
  proof -
    consider (x) "x \<in> set (request_registers request)" | (y) "y \<in> set (request_registers request)"
      | (none) "x \<notin> set (request_registers request)" "y \<notin> set (request_registers request)" by blast
    then show ?thesis
    proof cases
      case x
      then obtain m where "m \<in> set ?ms" "x = mb_register m" by (auto simp: request_registers_def)
      with new [of m i y j] eq(4) xy req show ?thesis by (auto simp: placeable_def)
    next
      case y
      then obtain m where "m \<in> set ?ms" "y = mb_register m" by (auto simp: request_registers_def)
      with new [of m j x i] eq(4) xy req show ?thesis by (auto simp: placeable_def intro: apart_sym)
    next
      case none
      with placement_okD(2) [OF ok, of x y q i j] eq(2,5) xy show ?thesis by simp
    qed
  qed
  have "placement_ok intervals occupancy' remap'" unfolding placement_ok_def using recorded separate by blast
  with eq(2,4,5) show ?thesis by blast
qed

lemma search_base_ok:
  "p \<le> search_base request n occupancy p \<and>
    (search_base request n occupancy p + rq_width request \<le> n \<longrightarrow> fits request (search_base request n occupancy p) occupancy)"
proof (induction request n occupancy p rule: search_base.induct)
  case (1 request n occupancy base)
  show ?case
  proof (cases "base + rq_width request \<le> n \<and> \<not> fits request base occupancy")
    case True
    then have "search_base request n occupancy base = search_base request n occupancy (base + 1)" by (subst search_base.simps) simp
    with 1 True show ?thesis by simp
  next
    case False
    then have "search_base request n occupancy base = base" by (subst search_base.simps) auto
    with False show ?thesis by auto
  qed
qed

lemma choose_base_ok:
  "choose_base p n request occupancy = Some base \<Longrightarrow>
    base + rq_width request \<le> n \<and> fits request base occupancy \<and> (case rq_fixed_base request of Some b \<Rightarrow> base = b | None \<Rightarrow> p \<le> base)"
  using search_base_ok [of p request n occupancy]
  by (auto simp: choose_base_def Let_def not_less split: option.splits if_splits)

text \<open>Where a request ends up.\<close>

definition request_at :: "nat \<Rightarrow> nat \<Rightarrow> Reg option list \<Rightarrow> Request \<Rightarrow> bool" where
  "request_at p n remap request \<longleftrightarrow>
    (\<exists>base. base + rq_width request \<le> n \<and> (case rq_fixed_base request of Some b \<Rightarrow> base = b | None \<Rightarrow> p \<le> base) \<and>
       (\<forall>m \<in> set (rq_members request). remap ! mb_register m = Some (of_nat (base + mb_offset m))))"

lemma place_requests_ok:
  assumes "place_requests p n requests (occupancy, remap) = Some remap'" "placement_ok intervals occupancy remap"
    "\<forall>request \<in> set requests. placeable intervals request" "n \<le> 2 ^ 16" "distinct (concat (map request_registers requests))"
    "\<forall>x \<in> set (concat (map request_registers requests)). x < length remap"
  shows "length remap' = length remap \<and> (\<exists>occupancy'. placement_ok intervals occupancy' remap') \<and>
    (\<forall>request \<in> set requests. request_at p n remap' request) \<and>
    (\<forall>x. x \<notin> set (concat (map request_registers requests)) \<longrightarrow> remap' ! x = remap ! x)"
  using assms
proof (induction requests arbitrary: occupancy remap)
  case (Cons request requests)
  from Cons.prems(1) obtain base where base: "choose_base p n request occupancy = Some base" by (auto split: option.splits)
  obtain occ1 remap1 where
    placed: "place_members base (rq_members request) (grow (base + rq_width request) occupancy, remap) = (occ1, remap1)"
    by (metis surj_pair)
  note b = choose_base_ok [OF base]
  have step: "placement_ok intervals occ1 remap1 \<and> length remap1 = length remap \<and>
      (\<forall>m \<in> set (rq_members request). remap1 ! mb_register m = Some (of_nat (base + mb_offset m))) \<and>
      (\<forall>x. x \<notin> set (request_registers request) \<longrightarrow> remap1 ! x = remap ! x)"
    using Cons.prems(2,3,4,6) b placed by (intro place_request_ok) auto
  have rest: "length remap' = length remap1 \<and> (\<exists>occupancy'. placement_ok intervals occupancy' remap') \<and>
      (\<forall>request \<in> set requests. request_at p n remap' request) \<and>
      (\<forall>x. x \<notin> set (concat (map request_registers requests)) \<longrightarrow> remap' ! x = remap1 ! x)"
    using Cons.prems base placed step by (intro Cons.IH [of occ1 remap1]) auto
  have "mb_register m \<notin> set (concat (map request_registers requests))" if "m \<in> set (rq_members request)" for m
    using Cons.prems(5) that by (fastforce simp: request_registers_def)
  then have "request_at p n remap' request" using b step rest unfolding request_at_def by (metis (no_types, lifting))
  with step rest show ?case by auto
qed auto

section \<open>The renaming\<close>

text \<open>The members of one group move together; parameters stay, and other registers stay clear of them.\<close>

definition group_at :: "nat \<Rightarrow> nat \<Rightarrow> (nat \<Rightarrow> nat) \<Rightarrow> (nat \<Rightarrow> int) \<Rightarrow> Reg option list \<Rightarrow> nat \<Rightarrow> bool" where
  "group_at p n root pos remap r \<longleftrightarrow>
    (\<exists>base least. \<forall>x < n. root x = r \<longrightarrow> least \<le> pos x \<and> base + nat (pos x - least) < n \<and>
       remap ! x = Some (of_nat (base + nat (pos x - least))) \<and>
       (if x < p then base + nat (pos x - least) = x else p \<le> base + nat (pos x - least)))"

lemma request_group_at:
  assumes ok: "request_ok p n root pos intervals r request" and at: "request_at p n remap request"
  shows "group_at p n root pos remap r"
proof -
  from ok obtain least where ms: "rq_members request = map (member_of intervals pos least) (group_of n root r)"
    and least: "\<forall>x \<in> set (group_of n root r). least \<le> pos x" unfolding request_ok_def by blast
  from at obtain base where
    base: "base + rq_width request \<le> n" "case rq_fixed_base request of Some b \<Rightarrow> base = b | None \<Rightarrow> p \<le> base"
      "\<forall>m \<in> set (rq_members request). remap ! mb_register m = Some (of_nat (base + mb_offset m))" unfolding request_at_def by blast
  have "least \<le> pos x \<and> base + nat (pos x - least) < n \<and> remap ! x = Some (of_nat (base + nat (pos x - least))) \<and>
      (if x < p then base + nat (pos x - least) = x else p \<le> base + nat (pos x - least))" if x: "x < n" "root x = r" for x
  proof -
    let ?m = "member_of intervals pos least x"
    have m: "?m \<in> set (rq_members request)" and xs: "x \<in> set (group_of n root r)" using ms x by (auto simp: group_of_def)
    have "mb_offset ?m < rq_width request" "mb_register ?m < p \<longrightarrow> (\<exists>b. rq_fixed_base request = Some b \<and> b + mb_offset ?m = mb_register ?m)"
      "\<forall>b. p \<le> mb_register ?m \<and> rq_fixed_base request = Some b \<longrightarrow> p \<le> b + mb_offset ?m"
      using ok m unfolding request_ok_def by blast+
    then show ?thesis using base bspec [OF base(3) m] bspec [OF least xs] by (auto split: option.splits)
  qed
  then show ?thesis unfolding group_at_def by blast
qed

lemma groups_get:
  "groups_upto n root pos groups \<Longrightarrow>
    btree_get groups r = (if group_of n root r = [] then None else Some (map (\<lambda>x. (x, pos x)) (group_of n root r)))"
  unfolding groups_upto_def by blast

lemma groups_keys: "groups_upto n root pos groups \<Longrightarrow> r \<in> set (map fst groups) \<longleftrightarrow> group_of n root r \<noteq> []"
  using groups_get [of n root pos groups r] map_of_eq_None_iff [of groups r] by (auto simp: btree_get_def split: if_splits)

lemma groups_entries:
  assumes "groups_upto n root pos groups"
  shows "\<forall>(r, g) \<in> set groups. group_of n root r \<noteq> [] \<and> g = map (\<lambda>x. (x, pos x)) (group_of n root r)"
proof (intro ballI, clarify)
  fix r g assume "(r, g) \<in> set groups"
  then have "btree_get groups r = Some g" using assms btree_get_Some_iff [of groups r g] unfolding groups_upto_def by blast
  with groups_get [OF assms, of r] show "group_of n root r \<noteq> [] \<and> g = map (\<lambda>x. (x, pos x)) (group_of n root r)"
    by (auto split: if_splits)
qed

text \<open>Everything up to the table of new registers.\<close>

definition allocation_table :: "BytecodeFunction \<Rightarrow> interval option list \<Rightarrow> nat \<Rightarrow> Reg option list \<Rightarrow> bool" where
  "allocation_table func intervals n remap \<longleftrightarrow> length remap = n \<and> (\<exists>occupancy. placement_ok intervals occupancy remap) \<and>
    (\<exists>root pos. (\<forall>(l, r, d) \<in> set (code_constraints (bf_instructions func)). root r = root l \<and> pos r = pos l + d) \<and>
      (\<forall>x < n. group_at (unat (bf_param_count func)) n root pos remap (root x)))"

lemma requests_table:
  assumes groups: "groups_upto n root pos groups" and n: "n \<le> length intervals" "n < 2 ^ 16"
    and requests: "list_all2 (\<lambda>r. request_ok p n root pos intervals r) (map fst groups) requests"
    and place: "place_requests p n (sort_key k requests) (replicate p [], replicate n None) = Some remap"
  shows "length remap = n \<and> (\<exists>occupancy. placement_ok intervals occupancy remap) \<and> (\<forall>x < n. group_at p n root pos remap (root x))"
proof -
  have distinct: "distinct (concat (map request_registers requests))"
    and regs: "set (concat (map request_registers requests)) = {x. x < n \<and> root x \<in> set (map fst groups)}"
    using requests_distinct [OF requests] groups btree_ok_distinct [of groups] by (auto simp: groups_upto_def)
  have "\<forall>request \<in> set requests. placeable intervals request"
    using requests request_placeable by (fastforce simp: list_all2_conv_all_nth in_set_conv_nth)
  moreover have "placement_ok intervals (replicate p []) (replicate n None)" by (simp add: placement_ok_def)
  moreover have "\<forall>x \<in> set (concat (map request_registers (sort_key k requests))). x < n" using regs by auto
  ultimately have "length remap = n \<and> (\<exists>occupancy. placement_ok intervals occupancy remap) \<and> (\<forall>request \<in> set requests. request_at p n remap request)"
    using place_requests_ok [OF place, of intervals] distinct n(2) by (simp add: distinct_concat_sort)
  moreover have "group_at p n root pos remap (root x)" if "x < n" for x
  proof -
    have "root x \<in> set (map fst groups)" using groups_keys [OF groups, of "root x"] that by (auto simp: group_of_def filter_empty_conv)
    then obtain i where "i < length groups" "root x = map fst groups ! i" by (auto simp: in_set_conv_nth)
    with requests have "i < length requests" "request_ok p n root pos intervals (root x) (requests ! i)"
      by (auto simp: list_all2_conv_all_nth)
    with calculation request_group_at show ?thesis by (metis nth_mem)
  qed
  ultimately show ?thesis by blast
qed

lemma window_in_range:
  assumes "registers_fit n instr" "w \<in> set (instruction_ranges instr)" "(l, r, d) \<in> set (window_constraints w)"
  shows "l < n \<and> r < n"
  using assms by (auto simp: registers_fit_def list_all_iff window_constraints_def)

lemma constraints_in_range:
  "\<forall>instr \<in> set code. registers_fit n instr \<Longrightarrow> \<forall>(l, r, d) \<in> set (code_constraints code). l < n \<and> r < n"
  using window_in_range unfolding code_constraints_def by fastforce

lemma allocate_table:
  assumes fit: "\<forall>instr \<in> set (bf_instructions func). registers_fit n instr" and n: "n \<le> length intervals" "n < 2 ^ 16"
  shows "allocate_registers func intervals n = Some None \<or>
    (\<exists>remap. allocation_table func intervals n remap \<and> None \<notin> set remap \<and>
       allocate_registers func intervals n = map_option Some (rename_all func remap))"
proof -
  let ?p = "unat (bf_param_count func)" and ?cs = "code_constraints (bf_instructions func)"
  from add_constraints_ok [OF represents_new constraints_in_range [OF fit]] obtain result where
    c: "add_constraints (uf_new n) ?cs = Some result"
      "\<And>u. result = Some u \<Longrightarrow> \<exists>root pos rank. represents u n root pos rank \<and>
         (\<forall>(l, r, d) \<in> set ?cs. root r = root l \<and> pos r = pos l + d)" by blast
  show ?thesis
  proof (cases result)
    case None
    with c(1) show ?thesis by (simp add: allocate_registers_def)
  next
    case (Some u)
    with c(2) obtain root pos rank where
      u: "represents u n root pos rank" "\<forall>(l, r, d) \<in> set ?cs. root r = root l \<and> pos r = pos l + d" by blast
    have "groups_upto 0 root pos []" by (simp add: groups_upto_def group_of_def)
    from collect_groups_ok [OF u(1) _ this] obtain groups where
      g: "collect_groups u [0..<n] [] = Some groups" "groups_upto n root pos groups" by auto
    from make_requests_ok [OF n(1) groups_entries [OF g(2)], of ?p] obtain made where
      m: "make_requests ?p intervals (map snd groups) = Some made"
        "\<And>requests. made = Some requests \<Longrightarrow> list_all2 (\<lambda>r. request_ok ?p n root pos intervals r) (map fst groups) requests" by blast
    let ?key = "\<lambda>request. (rq_fixed_base request = None, rq_start request)"
    show ?thesis
    proof (cases "\<exists>requests remap. made = Some requests \<and> None \<notin> set remap \<and>
        place_requests ?p n (sort_key ?key requests) (replicate ?p [], replicate n None) = Some remap")
      case True
      then obtain requests remap where r: "made = Some requests" "None \<notin> set remap"
        "place_requests ?p n (sort_key ?key requests) (replicate ?p [], replicate n None) = Some remap" by blast
      have "allocation_table func intervals n remap"
        unfolding allocation_table_def using requests_table [OF g(2) n m(2) [OF r(1)] r(3)] u(2) by blast
      moreover have "allocate_registers func intervals n = map_option Some (rename_all func remap)"
        using c(1) Some g(1) m(1) r by (auto simp: allocate_registers_def btree_values_def list_ex_iff)
      ultimately show ?thesis using r(2) by blast
    next
      case False
      then have "allocate_registers func intervals n = Some None" using c(1) Some g(1) m(1)
        by (cases made) (auto simp: allocate_registers_def btree_values_def list_ex_iff Let_def split: option.splits)
      then show ?thesis ..
    qed
  qed
qed

text \<open>The new registers of an instruction are all in the table.\<close>

lemma looked_up_bound: "registers_fit n instr \<Longrightarrow> r \<in> set (looked_up instr) \<Longrightarrow> unat r < n"
  using names_bound looked_up_named by blast

lemma rename_all_ok:
  assumes fit: "\<forall>instr \<in> set (bf_instructions func). registers_fit n instr" and n: "n < 2 ^ 16" and p: "unat (bf_param_count func) \<le> n"
    and remap: "length remap = n" "None \<notin> set remap" and below: "\<forall>x < n. unat (the (remap ! x)) < n"
    and params: "\<forall>x < unat (bf_param_count func). unat (the (remap ! x)) = x"
  obtains func' where "rename_all func remap = Some func'"
    "bf_instructions func' = map (rename_instruction (\<lambda>r. the (lookup_remap remap r))) (bf_instructions func)"
    "bf_param_count func' = bf_param_count func" "frame_registers func' \<le> n" "\<forall>x < n. unat (the (remap ! x)) < frame_registers func'"
proof -
  let ?p = "unat (bf_param_count func)"
  have some: "remap ! x = Some (the (remap ! x))" if "x < n" for x using remap that by (metis nth_mem option.exhaust_sel)
  have "remap_instruction_registers remap instr = Some (rename_instruction (\<lambda>r. the (lookup_remap remap r)) instr)"
    if "instr \<in> set (bf_instructions func)" for instr
    using fit that looked_up_bound some remap(1)
    by (fastforce simp: remap_instruction_registers_def list_all_iff lookup_remap_def list_get_def)
  then have code: "those (map (remap_instruction_registers remap) (bf_instructions func)) =
      Some (map (rename_instruction (\<lambda>r. the (lookup_remap remap r))) (bf_instructions func))" by (intro those_map) blast
  define totals where "totals = concat (map (\<lambda>r. case r of Some q \<Rightarrow> [unat q + 1] | None \<Rightarrow> []) remap)"
  let ?total = "if totals = [] then ?p else Max (set totals)"
  have set_totals: "set totals = {unat (the (remap ! x)) + 1 |x. x < n}"
    using some remap(1) by (force simp: totals_def in_set_conv_nth split: option.splits)
  have above: "unat (the (remap ! x)) < ?total" if "x < n" for x
  proof -
    have "unat (the (remap ! x)) + 1 \<in> set totals" using set_totals that by blast
    then show ?thesis by (auto simp: Suc_le_eq [symmetric])
  qed
  have total: "?p \<le> ?total" "?total \<le> n"
  proof -
    show "?p \<le> ?total" using above [of "?p - 1"] params p by (cases "?p = 0") force+
    have "t \<le> n" if "t \<in> set totals" for t using that set_totals below by (auto simp: Suc_le_eq)
    then show "?total \<le> n" using p by auto
  qed
  define extra where "extra = ?total - ?p"
  have sum: "?p + extra = ?total" using total(1) by (simp add: extra_def)
  then have "extra < 2 ^ 16" using total(2) n by linarith
  note extra = unat_small [OF this] sum
  let ?func = "func\<lparr>bf_instructions := map (rename_instruction (\<lambda>r. the (lookup_remap remap r))) (bf_instructions func),
      bf_local_count := of_nat extra, bf_temp_count := 0\<rparr>"
  have "rename_all func remap = Some ?func"
    unfolding rename_all_def code option.case Let_def totals_def [symmetric] extra_def using total(1) by (simp add: not_less)
  moreover have "frame_registers ?func = ?total" using extra by (simp add: frame_registers_def)
  ultimately show ?thesis using that [of ?func] total(2) above by simp
qed

lemma table_position:
  assumes t: "allocation_table func intervals n remap" and n: "n < 2 ^ 16" and x: "x < n"
  shows "unat (the (remap ! x)) < n" "x < unat (bf_param_count func) \<Longrightarrow> unat (the (remap ! x)) = x"
    "unat (bf_param_count func) \<le> x \<Longrightarrow> unat (bf_param_count func) \<le> unat (the (remap ! x))"
proof -
  from t x obtain root pos where "group_at (unat (bf_param_count func)) n root pos remap (root x)" unfolding allocation_table_def by blast
  with x obtain k where k: "k < n" "remap ! x = Some (of_nat k)"
      "if x < unat (bf_param_count func) then k = x else unat (bf_param_count func) \<le> k" unfolding group_at_def by blast
  have "unat (of_nat k :: Reg) = k" using k(1) n by (intro unat_small) simp
  with k show "unat (the (remap ! x)) < n" "x < unat (bf_param_count func) \<Longrightarrow> unat (the (remap ! x)) = x"
    "unat (bf_param_count func) \<le> x \<Longrightarrow> unat (bf_param_count func) \<le> unat (the (remap ! x))" by auto
qed

lemma table_window:
  assumes t: "allocation_table func intervals n remap" and n: "n < 2 ^ 16"
    and instr: "instr \<in> set (bf_instructions func)" "registers_fit n instr" and w: "(s, c) \<in> set (instruction_ranges instr)" "k < unat c"
  shows "the (remap ! (unat s + k)) = the (remap ! unat s) + of_nat k"
proof (cases "k = 0")
  case False
  from t obtain root pos where
    cs: "\<forall>(l, r, d) \<in> set (code_constraints (bf_instructions func)). root r = root l \<and> pos r = pos l + d"
    and at: "\<forall>x < n. group_at (unat (bf_param_count func)) n root pos remap (root x)" unfolding allocation_table_def by blast
  have "(unat s, unat s + k, int k) \<in> set (window_constraints (s, c))"
    using False w(2) by (force simp: window_constraints_def)
  then have "(unat s, unat s + k, int k) \<in> set (code_constraints (bf_instructions func))"
    using instr(1) w(1) unfolding code_constraints_def by fastforce
  with cs have eq: "root (unat s + k) = root (unat s)" "pos (unat s + k) = pos (unat s) + int k" by blast+
  have bounds: "unat s < n" "unat s + k < n" using instr(2) w by (auto simp: registers_fit_def list_all_iff)
  from at bounds obtain base least where
    "\<forall>x < n. root x = root (unat s) \<longrightarrow> least \<le> pos x \<and> remap ! x = Some (of_nat (base + nat (pos x - least)))"
    unfolding group_at_def by blast
  with bounds eq have "least \<le> pos (unat s)" "remap ! unat s = Some (of_nat (base + nat (pos (unat s) - least)))"
    "remap ! (unat s + k) = Some (of_nat (base + nat (pos (unat s) + int k - least)))" by (metis, metis, metis)
  moreover from this(1) have "base + nat (pos (unat s) + int k - least) = base + nat (pos (unat s) - least) + k" by linarith
  ultimately show ?thesis by simp
qed simp

section \<open>Soundness\<close>

lemma allocation_facts:
  assumes fit: "\<forall>instr \<in> set (bf_instructions func). registers_fit n instr"
    and n: "unat (bf_param_count func) \<le> n" "n < 2 ^ 16" "length intervals = n"
  shows "\<exists>result. allocate_registers func intervals n = Some result \<and>
    (\<forall>func'. result = Some func' \<longrightarrow> (\<exists>rename.
      bf_instructions func' = map (rename_instruction rename) (bf_instructions func) \<and>
      bf_param_count func' = bf_param_count func \<and> frame_registers func' \<le> n \<and>
      (\<forall>r. unat r < n \<longrightarrow> unat (rename r) < frame_registers func') \<and>
      (\<forall>r. unat r < unat (bf_param_count func) \<longrightarrow> rename r = r) \<and>
      (\<forall>r. unat (bf_param_count func) \<le> unat r \<and> unat r < n \<longrightarrow> unat (bf_param_count func) \<le> unat (rename r)) \<and>
      (\<forall>instr \<in> set (bf_instructions func). keeps_windows rename instr) \<and>
      (\<forall>r r' i j. unat r < n \<and> unat r' < n \<and> r \<noteq> r' \<and> rename r = rename r' \<and>
         intervals ! unat r = Some i \<and> intervals ! unat r' = Some j \<longrightarrow> apart i j)))"
proof (cases "allocate_registers func intervals n = Some None")
  case False
  then obtain remap where t: "allocation_table func intervals n remap" "None \<notin> set remap"
    and alloc: "allocate_registers func intervals n = map_option Some (rename_all func remap)"
    using allocate_table [OF fit _ n(2), of intervals] n(3) by auto
  have len: "length remap = n" using t(1) by (simp add: allocation_table_def)
  have "\<forall>x < n. unat (the (remap ! x)) < n" "\<forall>x < unat (bf_param_count func). unat (the (remap ! x)) = x"
    using table_position [OF t(1) n(2)] n(1) by auto
  from rename_all_ok [OF fit n(2,1) len t(2) this] obtain func' where
    f: "rename_all func remap = Some func'"
      "bf_instructions func' = map (rename_instruction (\<lambda>r. the (lookup_remap remap r))) (bf_instructions func)"
      "bf_param_count func' = bf_param_count func" "frame_registers func' \<le> n" "\<forall>x < n. unat (the (remap ! x)) < frame_registers func'" .
  let ?f = "\<lambda>r. the (lookup_remap remap r)"
  have look: "?f r = the (remap ! unat r)" "remap ! unat r = Some (?f r)" if "unat r < n" for r
    using that len t(2) nth_mem [of "unat r" remap] by (cases "remap ! unat r"; simp add: lookup_remap_def list_get_def)+
  have "?f r = r" if "unat r < unat (bf_param_count func)" for r
    using table_position(2) [OF t(1) n(2), of "unat r"] look(1) [of r] that n(1) by (simp add: word_unat_eq_iff)
  moreover have "keeps_windows ?f instr" if instr: "instr \<in> set (bf_instructions func)" for instr
    unfolding keeps_windows_def
  proof (intro ballI, clarify)
    fix s c k assume w: "(s, c) \<in> set (instruction_ranges instr)" "k < unat c"
    have "unat s + unat c \<le> n" using fit instr w(1) by (auto simp: registers_fit_def list_all_iff)
    moreover from this have "unat (s + of_nat k) = unat s + k" using w(2) n(2) by (simp add: unat_word_ariths unat_of_nat)
    ultimately show "?f (s + of_nat k) = ?f s + of_nat k"
      using table_window [OF t(1) n(2) instr _ w] fit instr look(1) [of s] look(1) [of "s + of_nat k"] w(2) by simp
  qed
  moreover have "apart i j" if "unat r < n" "unat r' < n" "r \<noteq> r'" "?f r = ?f r'" "intervals ! unat r = Some i" "intervals ! unat r' = Some j"
    for r r' i j
  proof -
    from t(1) obtain occupancy where "placement_ok intervals occupancy remap" unfolding allocation_table_def by blast
    from placement_okD(2) [OF this, of "unat r" "unat r'"] that look(2) len show ?thesis by (metis word_unat_eq_iff)
  qed
  ultimately show ?thesis using alloc f look(1) table_position(3) [OF t(1) n(2)] by (auto intro!: exI [of _ ?f])
qed simp

definition sound_renaming :: "BytecodeFunction \<Rightarrow> interval option list \<Rightarrow> nat \<Rightarrow> BytecodeFunction \<Rightarrow> (Reg \<Rightarrow> Reg) \<Rightarrow> bool" where
  "sound_renaming func intervals n func' rename \<longleftrightarrow> bf_instructions func' = map (rename_instruction rename) (bf_instructions func) \<and>
      bf_param_count func' = bf_param_count func \<and> frame_registers func' \<le> n \<and>
      (\<forall>r. unat r < n \<longrightarrow> unat (rename r) < frame_registers func') \<and>
      (\<forall>r. unat r < unat (bf_param_count func) \<longrightarrow> rename r = r) \<and>
      (\<forall>r. unat (bf_param_count func) \<le> unat r \<and> unat r < n \<longrightarrow> unat (bf_param_count func) \<le> unat (rename r)) \<and>
      (\<forall>instr \<in> set (bf_instructions func). keeps_windows rename instr) \<and>
      (\<forall>r r' i j. unat r < n \<and> unat r' < n \<and> r \<noteq> r' \<and> rename r = rename r' \<and>
         intervals ! unat r = Some i \<and> intervals ! unat r' = Some j \<longrightarrow> apart i j)"

lemma sound_renamingD:
  assumes "sound_renaming func intervals n func' rename"
  shows "bf_instructions func' = map (rename_instruction rename) (bf_instructions func)"
    and "bf_param_count func' = bf_param_count func" and "frame_registers func' \<le> n"
    and "\<And>r. unat r < n \<Longrightarrow> unat (rename r) < frame_registers func'"
    and "\<And>r. unat r < unat (bf_param_count func) \<Longrightarrow> rename r = r"
    and "\<And>r. unat (bf_param_count func) \<le> unat r \<Longrightarrow> unat r < n \<Longrightarrow> unat (bf_param_count func) \<le> unat (rename r)"
    and "\<And>instr. instr \<in> set (bf_instructions func) \<Longrightarrow> keeps_windows rename instr"
    and "\<And>r r' i j. unat r < n \<Longrightarrow> unat r' < n \<Longrightarrow> r \<noteq> r' \<Longrightarrow> rename r = rename r' \<Longrightarrow>
       intervals ! unat r = Some i \<Longrightarrow> intervals ! unat r' = Some j \<Longrightarrow> apart i j"
  using assms unfolding sound_renaming_def by blast+

lemma allocated_rename:
  assumes "\<forall>instr \<in> set (bf_instructions func). registers_fit n instr"
    "unat (bf_param_count func) \<le> n" "n < 2 ^ 16" "length intervals = n" "allocate_registers func intervals n = Some (Some func')"
  shows "\<exists>rename. sound_renaming func intervals n func' rename"
  using allocation_facts [OF assms(1-4)] unfolding sound_renaming_def assms(5) by simp

text \<open>A function whose short lives share registers.\<close>

definition short_lives :: BytecodeFunction where
  "short_lives = \<lparr>bf_name = [], bf_param_count = 1, bf_local_count = 2, bf_temp_count = 0, bf_return_ty = 0,
     bf_adapter_proxy_metadata = None, bf_instructions = [Move 1 0, Move 0 1, Move 2 0, Control (Ret 2)]\<rparr>"

lemma short_lives_allocated:
  "map_option (map_option bf_instructions) (allocate_registers short_lives [Some (0, 2), Some (0, 1), Some (2, 3)] 3) =
    Some (Some [Move 1 0, Move 0 1, Move 1 0, Control (Ret 1)])"
  by code_simp

end
