(* ===== verification/Opt_Pipeline.thy ===== *)
theory Opt_Pipeline
  imports Opt_Liveness_Props Opt_Allocator_Props Opt_Control_Props
begin

text \<open>
  The optimizer of one function, \<open>optimize_function\<close> of \<^verbatim>\<open>galfus-workspace/src/workspace/optimizer.rs\<close>: control flow,
  compaction, liveness, allocation and compaction again.

  Allocated code computes what the original code computes: with registers that agree where they are live, every instruction
  reads the same values, and after it the registers agree where they are live at the next instruction.
\<close>

section \<open>The passes in order\<close>

fun excluded_from_allocation :: "Instruction \<Rightarrow> bool" where
  "excluded_from_allocation (Objects (NewTuple _ _ _ _)) = False"
| "excluded_from_allocation (Objects (Cast _ _ _)) = False"
| "excluded_from_allocation (Objects _) = True"
| "excluded_from_allocation (Control (Call _ _ _ _)) = True"
| "excluded_from_allocation (Control (TailCall _ _ _)) = True"
| "excluded_from_allocation (Control (CallMethod _ _ _ _ _ _ _)) = True"
| "excluded_from_allocation (Control (CallDynamic _ _ _ _)) = True"
| "excluded_from_allocation (Control _) = False"
| "excluded_from_allocation (System (Drop _)) = False"
| "excluded_from_allocation (System (CallInternalMath _ _ _ _)) = False"
| "excluded_from_allocation (System _) = True"
| "excluded_from_allocation _ = False"

definition supports_liveness_allocation :: "Instruction list \<Rightarrow> bool" where
  "supports_liveness_allocation code = list_all (\<lambda>instr. \<not> excluded_from_allocation instr) code"

definition optimize_function :: "BytecodeFunction \<Rightarrow> (BytecodeFunction \<times> nat option list) option" where
  "optimize_function func =
    (case optimize_control (bf_instructions func) of
       None \<Rightarrow> None
     | Some (code, offsets) \<Rightarrow>
         (case compact_registers (func\<lparr>bf_instructions := code\<rparr>) of
            None \<Rightarrow> None
          | Some func \<Rightarrow>
              (let register_count = frame_registers func in
               case compute_liveness (build_cfg (bf_instructions func) register_count) (bf_instructions func) register_count of
                 None \<Rightarrow> None
               | Some blocks \<Rightarrow>
                   if supports_liveness_allocation (bf_instructions func) then
                     (case allocate_registers func (compute_intervals blocks (bf_instructions func) register_count) register_count of
                        None \<Rightarrow> None
                      | Some None \<Rightarrow> Some (func, offsets)
                      | Some (Some func) \<Rightarrow> map_option (\<lambda>func. (func, offsets)) (compact_registers func))
                   else Some (func, offsets))))"

section \<open>Renamed instructions\<close>

lemma defs_renamed: "instruction_defs (rename_instruction f instr) = map f (instruction_defs instr)"
proof (cases instr)
  case (Control i)
  then show ?thesis by (cases i) auto
next
  case (Objects i)
  then show ?thesis by (cases i) auto
next
  case (System i)
  then show ?thesis by (cases i) auto
qed auto

lemma uses_renamed: "instruction_uses (rename_instruction f instr) = map f (instruction_uses instr)"
proof (cases instr)
  case (Control i)
  then show ?thesis by (cases i) auto
next
  case (Objects i)
  then show ?thesis by (cases i) auto
next
  case (System i)
  then show ?thesis by (cases i) auto
qed auto

lemma opt_range_renamed: "opt_range (rename_start f c s) c = map (\<lambda>(s, c). (f s, c)) (opt_range s c)"
  by (simp add: opt_range_def rename_start_def)

lemma ranges_renamed: "instruction_ranges (rename_instruction f instr) = map (\<lambda>(s, c). (f s, c)) (instruction_ranges instr)"
proof (cases instr)
  case (Control i)
  then show ?thesis by (cases i) (auto simp: opt_range_renamed)
next
  case (Objects i)
  then show ?thesis by (cases i) (auto simp: opt_range_renamed)
next
  case (System i)
  then show ?thesis by (cases i) (auto simp: opt_range_renamed)
qed auto

lemma jump_renamed [simp]: "jump_offset (rename_instruction f instr) = jump_offset instr"
  by (cases instr) auto

lemma terminal_renamed [simp]: "is_terminal (Control (rename_control f c)) = is_terminal (Control c)"
  by (cases c) auto

lemma used_renamed:
  assumes "keeps_windows f instr"
  shows "used_registers (rename_instruction f instr) = map f (used_registers instr)"
proof -
  have "arg_registers (f s) c = map f (arg_registers s c)" if "(s, c) \<in> set (instruction_ranges instr)" for s c
    using assms that by (auto simp: keeps_windows_def arg_registers_def)
  then have "window_registers (rename_instruction f instr) = map f (window_registers instr)"
    by (auto simp: window_registers_def ranges_renamed map_concat comp_def intro!: arg_cong [of _ _ concat])
  then show ?thesis by (simp add: used_registers_def uses_renamed)
qed

lemma fit_indexed:
  assumes "registers_fit n instr" "n < 2 ^ 16"
  shows "registers_indexed n instr"
proof -
  have "unat r < n" if "(s, c) \<in> set (instruction_ranges instr)" "r \<in> set (arg_registers s c)" for s c r
  proof -
    from that(2) obtain k where k: "k < unat c" "r = s + of_nat k" by (auto simp: arg_registers_def)
    have "unat s + unat c \<le> n" using assms(1) that(1) by (auto simp: registers_fit_def list_all_iff)
    with k assms(2) show ?thesis by (simp add: unat_word_ariths unat_of_nat)
  qed
  then show ?thesis using assms(1)
    by (auto simp: registers_fit_def registers_indexed_def visit_registers_def used_registers_def window_registers_def list_all_iff)
qed

section \<open>Registers that agree where they are live\<close>

definition agree_at :: "Instruction list \<Rightarrow> (Reg \<Rightarrow> Reg) \<Rightarrow> nat \<Rightarrow> (Reg \<Rightarrow> 'v) \<Rightarrow> (Reg \<Rightarrow> 'v) \<Rightarrow> bool" where
  "agree_at code rename i regs regs' \<longleftrightarrow> (\<forall>r. live_at code i r \<longrightarrow> regs' (rename r) = regs r)"

definition assign :: "Reg list \<Rightarrow> 'v \<Rightarrow> (Reg \<Rightarrow> 'v) \<Rightarrow> Reg \<Rightarrow> 'v" where
  "assign targets v regs = (\<lambda>r. if r \<in> set targets then v else regs r)"

text \<open>A renaming that keeps registers apart that are live, or defined while the other is live.\<close>

definition separates :: "Instruction list \<Rightarrow> (Reg \<Rightarrow> Reg) \<Rightarrow> bool" where
  "separates code rename \<longleftrightarrow> (\<forall>i r d. live_at code i r \<and> d \<in> set (instruction_defs (code ! i)) \<and> d \<noteq> r \<longrightarrow> rename d \<noteq> rename r)"

lemma agree_step:
  assumes s: "separates code rename" and a: "agree_at code rename i regs regs'" and i: "i < length code" "j \<in> set (flow code i)"
  shows "agree_at code rename j (assign (instruction_defs (code ! i)) v regs) (assign (map rename (instruction_defs (code ! i))) v regs')"
  unfolding agree_at_def
proof (intro allI impI)
  fix r assume r: "live_at code j r"
  show "assign (map rename (instruction_defs (code ! i))) v regs' (rename r) = assign (instruction_defs (code ! i)) v regs r"
  proof (cases "r \<in> set (instruction_defs (code ! i))")
    case True
    then show ?thesis by (simp add: assign_def)
  next
    case False
    have l: "live_at code i r" by (rule live_at.passed [OF i(1) False i(2) r])
    have "rename d \<noteq> rename r" if "d \<in> set (instruction_defs (code ! i))" for d
      using s l that False unfolding separates_def by metis
    then have "rename r \<notin> rename ` set (instruction_defs (code ! i))" by (metis imageE)
    with a l False show ?thesis by (simp add: assign_def agree_at_def)
  qed
qed

lemma flow_renamed: "length code' = length code \<Longrightarrow> i < length code \<Longrightarrow> code' ! i = rename_instruction f (code ! i) \<Longrightarrow> flow code' i = flow code i"
  by (cases "code ! i") (auto simp: flow_def)

text \<open>
  What it means that allocated code computes the same.  The new code renames the registers of the old code, in a frame that is
  not larger, with the same parameters and the same flow of control.  At the entry, with equal parameters and all other
  registers empty, the registers agree where they are live; at every instruction where they agree, the new instruction reads
  the same values in the same order, and after both have stored the same result the registers agree at every instruction that
  can follow.
\<close>

definition computes_same :: "'v itself \<Rightarrow> BytecodeFunction \<Rightarrow> BytecodeFunction \<Rightarrow> (Reg \<Rightarrow> Reg) \<Rightarrow> bool" where
  "computes_same _ func func' rename \<longleftrightarrow>
    bf_instructions func' = map (rename_instruction rename) (bf_instructions func) \<and>
    bf_param_count func' = bf_param_count func \<and> frame_registers func' \<le> frame_registers func \<and>
    (\<forall>r. unat r < frame_registers func \<longrightarrow> unat (rename r) < frame_registers func') \<and>
    (\<forall>regs (regs' :: Reg \<Rightarrow> 'v) null. (\<forall>r. if unat r < unat (bf_param_count func) then regs' r = regs r else regs r = null \<and> regs' r = null) \<longrightarrow>
       agree_at (bf_instructions func) rename 0 regs regs') \<and>
    (\<forall>i < length (bf_instructions func). flow (bf_instructions func') i = flow (bf_instructions func) i) \<and>
    (\<forall>i < length (bf_instructions func). \<forall>regs regs'. agree_at (bf_instructions func) rename i regs (regs' :: Reg \<Rightarrow> 'v) \<longrightarrow>
       map regs' (used_registers (bf_instructions func' ! i)) = map regs (used_registers (bf_instructions func ! i)) \<and>
       (\<forall>v. \<forall>j \<in> set (flow (bf_instructions func) i). agree_at (bf_instructions func) rename j
          (assign (instruction_defs (bf_instructions func ! i)) v regs) (assign (instruction_defs (bf_instructions func' ! i)) v regs')))"

lemma allocated_computes_same:
  assumes fit: "\<forall>instr \<in> set (bf_instructions func). registers_fit (frame_registers func) instr"
    and small: "frame_registers func < 2 ^ 16"
    and live: "compute_liveness (build_cfg (bf_instructions func) (frame_registers func)) (bf_instructions func) (frame_registers func) = Some blocks"
    and alloc: "allocate_registers func (compute_intervals blocks (bf_instructions func) (frame_registers func)) (frame_registers func) = Some (Some func')"
  shows "\<exists>rename. computes_same TYPE('v) func func' rename"
proof -
  let ?code = "bf_instructions func" and ?n = "frame_registers func" and ?p = "unat (bf_param_count func)"
  let ?iv = "compute_intervals blocks ?code ?n"
  have idx: "\<forall>instr \<in> set ?code. registers_indexed ?n instr" using fit fit_indexed small by blast
  from lives_covered [OF idx live] have len: "length ?iv = ?n"
    and cov: "\<And>i r. live_at ?code i r \<or> i < length ?code \<and> r \<in> set (instruction_defs (?code ! i) @ used_registers (?code ! i)) \<Longrightarrow>
      covers ?iv (unat r) i \<and> unat r < ?n" by blast+
  have pn: "?p \<le> ?n" by (simp add: frame_registers_def)
  from allocated_rename [OF fit pn small len alloc] obtain rename where "sound_renaming func ?iv ?n func' rename" by blast
  note re = sound_renamingD [OF this]
  have sep: "separates ?code rename"
    unfolding separates_def
  proof (intro allI impI notI, elim conjE)
    fix i r d assume h: "live_at ?code i r" "d \<in> set (instruction_defs (?code ! i))" "d \<noteq> r" "rename d = rename r"
    have "i < length ?code" using h(1) by (auto elim: live_at.cases)
    with cov [of i r] cov [of i d] h re(8) [of d r] show False by (fastforce simp: covers_def apart_def)
  qed
  have entry: "agree_at ?code rename 0 regs regs'"
    if "\<forall>r. if unat r < ?p then regs' r = regs r else regs r = null \<and> regs' r = null" for regs regs' :: "Reg \<Rightarrow> 'v" and null
    unfolding agree_at_def
  proof (intro allI impI)
    fix r assume "live_at ?code 0 r"
    with cov re(5,6) that show "regs' (rename r) = regs r" by (metis not_le)
  qed
  have at: "bf_instructions func' ! i = rename_instruction rename (?code ! i)" if "i < length ?code" for i using re(1) that by simp
  have reads: "map regs' (used_registers (bf_instructions func' ! i)) = map regs (used_registers (?code ! i))"
    if "i < length ?code" "agree_at ?code rename i regs regs'" for i and regs regs' :: "Reg \<Rightarrow> 'v"
  proof -
    have "keeps_windows rename (?code ! i)" using re(7) nth_mem [OF that(1)] by blast
    moreover have "regs' (rename r) = regs r" if "r \<in> set (used_registers (?code ! i))" for r
      using \<open>agree_at ?code rename i regs regs'\<close> live_at.used [OF \<open>i < length ?code\<close> that] by (simp add: agree_at_def)
    ultimately show ?thesis using at [OF that(1)] by (simp add: used_renamed)
  qed
  have step: "agree_at ?code rename j (assign (instruction_defs (?code ! i)) v regs) (assign (instruction_defs (bf_instructions func' ! i)) v regs')"
    if "i < length ?code" "agree_at ?code rename i regs regs'" "j \<in> set (flow ?code i)" for i j v and regs regs' :: "Reg \<Rightarrow> 'v"
    using agree_step [OF sep that(2,1,3)] at [OF that(1)] by (simp add: defs_renamed)
  have "flow (bf_instructions func') i = flow ?code i" if "i < length ?code" for i
    using flow_renamed [OF _ that at [OF that]] re(1) by simp
  with re(1-4) entry reads step show ?thesis unfolding computes_same_def by (intro exI [of _ rename] conjI allI impI ballI) (blast | simp)+
qed

text \<open>
  C15 (allocated code computes the same).  For a function whose registers and argument windows lie in its frame, the analysis of
  its liveness ends and the allocator, given the intervals it computes, does not fail.  When the allocator accepts the function,
  its code computes the same as the original code, with some renaming of the registers.
\<close>

theorem allocated_code_agrees:
  assumes fit: "\<forall>instr \<in> set (bf_instructions func). registers_fit (frame_registers func) instr"
    and small: "frame_registers func < 2 ^ 16"
  shows "\<exists>blocks result.
    compute_liveness (build_cfg (bf_instructions func) (frame_registers func)) (bf_instructions func) (frame_registers func) = Some blocks \<and>
    allocate_registers func (compute_intervals blocks (bf_instructions func) (frame_registers func)) (frame_registers func) = Some result \<and>
    (\<forall>func'. result = Some func' \<longrightarrow> (\<exists>rename. computes_same TYPE('v) func func' rename))"
proof -
  let ?code = "bf_instructions func" and ?n = "frame_registers func"
  have idx: "\<forall>instr \<in> set ?code. registers_indexed ?n instr" using fit fit_indexed small by blast
  from intervals_cover_lives [OF idx] obtain blocks where
    live: "compute_liveness (build_cfg ?code ?n) ?code ?n = Some blocks" "length (compute_intervals blocks ?code ?n) = ?n" by blast
  have "unat (bf_param_count func) \<le> ?n" by (simp add: frame_registers_def)
  from allocation_facts [OF fit this small live(2)] obtain result where
    "allocate_registers func (compute_intervals blocks ?code ?n) ?n = Some result" by blast
  with live(1) allocated_computes_same [OF fit small live(1)] show ?thesis by blast
qed

theorem allocated_code_agrees_witness:
  "\<exists>blocks func' rename. compute_liveness (build_cfg (bf_instructions short_lives) 3) (bf_instructions short_lives) 3 = Some blocks \<and>
     allocate_registers short_lives (compute_intervals blocks (bf_instructions short_lives) 3) 3 = Some (Some func') \<and>
     bf_instructions func' = [Move 1 0, Move 0 1, Move 1 0, Control (Ret 1)] \<and> computes_same TYPE(nat) short_lives func' rename"
proof -
  let ?code = "bf_instructions short_lives"
  have n: "frame_registers short_lives = 3" by (simp add: short_lives_def frame_registers_def)
  have fit: "\<forall>instr \<in> set ?code. registers_fit (frame_registers short_lives) instr" by code_simp
  have "map_option (\<lambda>blocks. map_option (map_option bf_instructions)
      (allocate_registers short_lives (compute_intervals blocks ?code 3) 3)) (compute_liveness (build_cfg ?code 3) ?code 3) =
      Some (Some (Some [Move 1 0, Move 0 1, Move 1 0, Control (Ret 1)]))" by code_simp
  then obtain blocks func' where b: "compute_liveness (build_cfg ?code 3) ?code 3 = Some blocks"
    "allocate_registers short_lives (compute_intervals blocks ?code 3) 3 = Some (Some func')"
    "bf_instructions func' = [Move 1 0, Move 0 1, Move 1 0, Control (Ret 1)]" by auto
  have "frame_registers short_lives < 2 ^ 16" using n by simp
  from allocated_code_agrees [OF fit this, unfolded n, where 'v = nat] b(1,2) have
    "\<exists>rename. computes_same TYPE(nat) short_lives func' rename" by fastforce
  with b show ?thesis by blast
qed

end
