(* ===== verification/Spec2Isabelle.thy ===== *)
theory Spec2Isabelle
  imports Id_Manager Quota Numeric Vm_Heap_Panics Vm_Cast_Props Vm_Future_Search Vm_Budget Vm_Resume
    Kernel_Clients Future_Registry_Props Token_Tree Version Bytecode_Graph_Props
    Opt_Control_Props Opt_Pipeline
begin

text \<open>
  A verification development for the Galfus script engine, the Rust crates under \<^verbatim>\<open>src/engine\<close>.

  \<^bold>\<open>The program.\<close>  Source text is read by the front end (lexer, token trees, parser, types) and compiled to bytecode modules.
  A workspace optimizes each function, and modules are published in transactions to a bytecode graph, which validates them and
  resolves their imports.  The virtual machine executes the functions of a graph in threads; each thread has a call stack over
  one vector of registers, a private heap with a cycle collector and a quota.  A thread runs until it ends, fails, uses up its
  budget of instructions or waits for a future.  The runtime schedules the threads: a kernel keeps them in a registry, a queue
  of runnable threads and a set of blocked threads with timers; an orchestrator dispatches them to workers, completes futures
  and resumes whoever waits for them.  Values that cross the border to a host obey surface contracts.

  \<^bold>\<open>Conventions.\<close>  Rust integers are words of their width (\<open>usize\<close> has 64 bits), so that arithmetic wraps where the release
  build wraps; lengths of vectors and indexes into them are natural numbers.  A struct is a record, an enum a datatype with the
  constructors of the source.  An operation on \<open>&mut self\<close> takes the state and returns it; \<open>Result\<close> is a sum, its left side the
  error; \<open>outcome\<close> adds \<open>Panic\<close> where the source can panic, and elsewhere \<open>None\<close> is the panic.  The shared quota, an object behind a
  reference count in the source, is a field that its owners pass on.  Hash maps that are never iterated are functions to
  \<open>option\<close>; ordered maps are sorted association lists (\<open>Btree_Map\<close>); the order in which a hash set is iterated is a parameter.

  \<^bold>\<open>Shared parts\<close> (\<^verbatim>\<open>galfus-core\<close>, \<^verbatim>\<open>galfus-contract\<close>, \<^verbatim>\<open>galfus-vm/src/quota.rs\<close>).
  \<^item> \<open>Prelude\<close> has the widths, saturating and checked arithmetic and the lemmas on lists, maps and words of the other theories.
  \<^item> \<open>Id_Manager\<close> (\<^verbatim>\<open>id_manager.rs\<close>): identifiers in use are never handed out again, and allocation fails only when all are in
    use.  The locale \<open>id_allocator\<close> is this contract for the kernel's timers and threads.
  \<^item> \<open>Quota\<close> (\<^verbatim>\<open>quota.rs\<close>): one locale for the counters that saturate, one for those that wrap, each interpreted on every counter.
  \<^item> \<open>Numeric\<close> (\<^verbatim>\<open>numeric.rs\<close>) has IEEE 754 with exact rounding on bit patterns, and the normalisation of results.
  \<^item> \<open>Source_Text\<close> (\<^verbatim>\<open>source.rs\<close>, \<^verbatim>\<open>span.rs\<close>, \<^verbatim>\<open>diagnostic.rs\<close>), \<open>Module_Path\<close> (\<^verbatim>\<open>path.rs\<close>) and \<open>Version\<close> (\<^verbatim>\<open>version.rs\<close>): rows and
    columns, normal forms of import paths, round trip of versions.
  \<^item> \<open>Execution_Failure\<close> and \<open>Surface\<close> (\<^verbatim>\<open>galfus-contract\<close>): failure values; schemas and which values conform to them.

  \<^bold>\<open>Front end\<close> (\<^verbatim>\<open>galfus-frontend\<close>).  \<open>Lexer\<close> is the whole lexer, \<open>Token_Tree\<close> the grouping of its tokens.  \<open>Lexer_Props\<close>: every text
  is read to its end, the tokens tile it, and tokens that are printed with a space behind each are read back with exact spans.
  Flattening a tree gives the tokens back, and the builder is silent exactly on balanced delimiters.

  \<^bold>\<open>Bytecode\<close> (\<^verbatim>\<open>galfus-bytecode\<close>).  \<open>Bytecode\<close> has instructions and modules, \<open>Bytecode_Validation\<close> the validator, \<open>Bytecode_Graph\<close>
  the graph with its transactions and resolver.  \<open>Bytecode_Graph_Props\<close>: published graphs are linked, initialization orders are
  topological or report a cycle, transactions do what they say, and dependents are found through the import edges of the
  transaction.

  \<^bold>\<open>Optimizer\<close> (\<^verbatim>\<open>galfus-workspace/src/workspace/optimizer\<close>).  \<open>Opt_Control\<close> rewrites jumps, \<open>Opt_Registers\<close> has the registers of
  instructions and compacts them, \<open>Opt_Liveness\<close> computes live intervals, \<open>Opt_Union_Find\<close> and \<open>Opt_Allocator\<close> let registers share
  places, \<open>Opt_Pipeline\<close> puts the passes together.  Rewritten control flow ends its runs as the original (\<open>Opt_Control_Props\<close>, with
  the meaning of instructions a parameter); compaction and allocation rename registers, and allocated code reads the same values
  at every instruction (\<open>Opt_Liveness_Props\<close>, \<open>Opt_Allocator_Props\<close>, \<open>Opt_Pipeline\<close>).

  \<^bold>\<open>Virtual machine\<close> (\<^verbatim>\<open>galfus-vm\<close>).
  \<^item> \<open>Vm_Value\<close> and \<open>Vm_Operators\<close> are the data and the operators on it, \<open>Vm_Instruction\<close> the typed instructions.
    \<open>Vm_Operator_Props\<close>, \<open>Vm_Operator_Laws\<close> and \<open>Vm_Cast_Props\<close>: laws of division, order and casts, typed against generic operators.
  \<^item> \<open>Vm_Heap\<close> and \<open>Vm_Collector\<close> are \<^verbatim>\<open>heap.rs\<close>.  \<open>Vm_Heap_Safety\<close> proves a property kept by all operations once the locale
    \<open>heap_closed\<close> holds of a predicate, which keeps the proofs about the collector's recursion in one place.
    \<open>Vm_Heap_Props\<close> and \<open>Vm_Heap_Panics\<close> state, over all histories of calls and of writes to objects, that bookkeeping and quota stay
    exact (while writes keep the size that the quota counts), that dead references stay dead, that anchored objects stay, and
    that nothing is indexed out of range while the references in objects are in range.
  \<^item> \<open>Vm_Thread\<close> is \<^verbatim>\<open>thread.rs\<close>; \<open>Vm_Thread_Props\<close> shows that windows of registers are nested and that a call, its arguments
    included, touches only the window of the callee.  \<open>Vm_Future_Search\<close> is the search for futures in a thread.
  \<^item> \<open>Vm_Machine\<close>, \<open>Vm_Types\<close>, \<open>Vm_Objects\<close>, \<open>Vm_Control\<close> and \<open>Vm_System\<close> are the handlers of all instructions with type tests, casts
    and the deep copy.  \<open>Vm_Types\<close> characterises the comparison of types across modules by a coinductive relation on types.
  \<^item> \<open>Vm_Step\<close> has \<open>step\<close> and the interpreter loop, with the program counter that the frame of the source holds between two
    \<open>sync_frame!\<close>.  \<open>Vm_Step_Props\<close> compares loop and handlers, \<open>Vm_Budget\<close> splits runs, \<open>Vm_Resume\<close> is about continuations, and
    \<open>Vm_Validated\<close> says what the validator gives the machine.

  \<^bold>\<open>Runtime\<close> (\<^verbatim>\<open>galfus-runtime\<close>).  \<open>Runtime_Queue\<close> and \<open>Blocked_Queue\<close> (\<^verbatim>\<open>queue.rs\<close>, each with a locale for its contract),
  \<open>Thread_Registry\<close> (\<^verbatim>\<open>registry.rs\<close>) and \<open>Kernel\<close> (\<^verbatim>\<open>kernel.rs\<close>) are the kernel; \<open>Kernel_Props\<close> has its invariant.  \<open>Kernel_Clients\<close> has the
  sequences of kernel calls that the orchestrator makes: threads are in one place, and the counters of the quota are exact or
  err on a known side.  \<open>Future_Registry\<close> is \<^verbatim>\<open>future_registry.rs\<close>; \<open>Future_Registry_Props\<close> refines it to independent futures that
  resolve once.

  \<^bold>\<open>Loops and bounds.\<close>  There is no fuel in the development except where the native stack is the bound: the two type tests that
  follow cyclic data take the depth that is left, and \<open>None\<close> is the exhausted stack.  Every other loop is a function with a
  termination proof, or a partial function into \<open>option\<close>: the interpreter loop, which need not end without a budget, the loop of
  the liveness analysis and the path of the union-find structure, for which the theorems show that a result is returned.
  Bounds in hypotheses are widths of the source: tokens of the run queue below \<open>2 ^ 64\<close>, generations of slots below \<open>2 ^ 32\<close>, code
  below \<open>2 ^ 31\<close> instructions, frames below \<open>2 ^ 16\<close> registers.

  \<^bold>\<open>Conditions on clients.\<close>  Where a property holds of a history, the steps of the history are operations of the source with all
  their branches, and what is left out is said with the property: for the kernel, cancelling a thread that a worker runs; for
  the bookkeeping of the heap, writes that change the size of an object, which the deep copy makes; for windows of registers,
  the fast call of the interpreter loop, whose flag is wrong.  The lemmas at the end of \<open>Kernel_Clients\<close> show what the lossy
  sequences of kernel calls lose.

  \<^bold>\<open>Not modelled.\<close>  The parser, name resolution, types of the front end, intermediate representation and compiler work on trees
  that only they read.  Package images are encodings by foreign crates.  The orchestrator's events and effects, drivers, tasks,
  hosts, the workspace with its language server and the optimization of whole packages are input and output, concurrency of the
  host, or drive the phases above.  Parameters stand for the mathematics library, the tables of \<^verbatim>\<open>unicode_ident\<close>, SHA-256, and
  the iteration order of hash sets.
\<close>

end
